(* ===== verification/Prelude.thy ===== *)
theory Prelude
  imports
    Main
    "HOL-Library.AList"
    "HOL-Library.Char_ord"
    "HOL-Library.List_Lexorder"
    "HOL-Library.Multiset"
    "HOL-Library.Product_Lexorder"
    "HOL-Library.Word"
begin

text \<open>
  Shared vocabulary of the development.

  Machine integers. Rust's \<open>u64\<close>, \<open>u32\<close>, \<open>u16\<close>, \<open>usize\<close> and \<open>u8\<close> values are \<open>nat\<close> and its \<open>i64\<close>
  values \<open>int\<close>; the code uses saturating operations on them wherever they can
  leave their range, and these are written out below (\<open>sat_add\<close>, \<open>sat_i64\<close>). A
  \<open>saturating_sub\<close> of unsigned values is the truncating \<open>-\<close> of \<open>nat\<close>. Flag sets are
  32-bit words.

  Containers. A \<open>HashMap\<close> is an association list that keeps its keys distinct: the order
  of the list stands for the unspecified iteration order. \<open>entry(k).or_insert(v)\<close> is
  \<open>or_insert\<close>, a mutation through \<open>get_mut\<close> is \<open>amodify\<close>.
\<close>

type_synonym record_key = string
type_synonym bytes = "8 word list"

named_theorems u64_simps "saturating arithmetic"
named_theorems store_simps "lookups after an update of an association list"

subsection \<open>Saturating and truncating arithmetic\<close>

definition u64_max :: nat where
  "u64_max = 18446744073709551615"

definition u32_max :: nat where
  "u32_max = 4294967295"

definition u16_max :: nat where
  "u16_max = 65535"

definition sat_add :: "nat \<Rightarrow> nat \<Rightarrow> nat \<Rightarrow> nat" where
  "sat_add m a b = min m (a + b)"

definition sat_mul :: "nat \<Rightarrow> nat \<Rightarrow> nat \<Rightarrow> nat" where
  "sat_mul m a b = min m (a * b)"

definition i64_max :: int where
  "i64_max = 9223372036854775807"

definition sat_i64 :: "int \<Rightarrow> int" where
  "sat_i64 x = max (- i64_max - 1) (min i64_max x)"

definition clamp :: "int \<Rightarrow> int \<Rightarrow> int \<Rightarrow> int" where
  "clamp lo hi x = (if x < lo then lo else if hi < x then hi else x)"

text \<open>Rust's \<open>/\<close> on signed integers truncates towards zero.\<close>

definition tdiv :: "int \<Rightarrow> int \<Rightarrow> int" where
  "tdiv a b = sgn a * sgn b * (\<bar>a\<bar> div \<bar>b\<bar>)"

lemma sat_add_le [u64_simps]: "sat_add m a b \<le> m"
  by (simp add: sat_add_def)

lemma sat_add_exact [u64_simps]: "a + b \<le> m \<Longrightarrow> sat_add m a b = a + b"
  by (simp add: sat_add_def)

lemma sat_add_mono: "a \<le> m \<Longrightarrow> a \<le> sat_add m a b"
  by (simp add: sat_add_def)

lemma sat_add_0 [simp]: "a \<le> m \<Longrightarrow> sat_add m a 0 = a"
  by (simp add: sat_add_def)

lemma sat_add_0_left [simp]: "b \<le> m \<Longrightarrow> sat_add m 0 b = b"
  by (simp add: sat_add_def)

lemma sat_add_commute: "sat_add m a b = sat_add m b a"
  by (simp add: sat_add_def add.commute)

lemma sat_add_assoc: "sat_add m (sat_add m a b) c = sat_add m a (sat_add m b c)"
  by (simp add: sat_add_def min_def)

lemma sat_i64_range: "- i64_max - 1 \<le> sat_i64 x" "sat_i64 x \<le> i64_max"
  by (simp_all add: sat_i64_def i64_max_def)

lemma sat_i64_id [u64_simps]: "- i64_max - 1 \<le> x \<Longrightarrow> x \<le> i64_max \<Longrightarrow> sat_i64 x = x"
  by (simp add: sat_i64_def)

lemma sat_i64_le: "0 \<le> b \<Longrightarrow> x \<le> b \<Longrightarrow> sat_i64 x \<le> b"
  by (auto simp: sat_i64_def i64_max_def)

lemma sat_i64_ge: "b \<le> 0 \<Longrightarrow> b \<le> x \<Longrightarrow> b \<le> sat_i64 x"
  by (auto simp: sat_i64_def i64_max_def)

lemma clamp_range: "lo \<le> hi \<Longrightarrow> lo \<le> clamp lo hi x \<and> clamp lo hi x \<le> hi"
  by (simp add: clamp_def)

lemma clamp_id [simp]: "lo \<le> x \<Longrightarrow> x \<le> hi \<Longrightarrow> clamp lo hi x = x"
  by (simp add: clamp_def)

lemma clamp_mono: "lo \<le> hi \<Longrightarrow> x \<le> y \<Longrightarrow> clamp lo hi x \<le> clamp lo hi y"
  by (simp add: clamp_def)

lemma tdiv_nonneg: "0 \<le> a \<Longrightarrow> 0 < b \<Longrightarrow> tdiv a b = a div b"
  by (cases "a = 0") (simp_all add: tdiv_def)

subsection \<open>Hash maps as association lists\<close>

definition or_insert :: "'k \<Rightarrow> 'v \<Rightarrow> ('k \<times> 'v) list \<Rightarrow> ('k \<times> 'v) list" where
  "or_insert k v m = (case map_of m k of None \<Rightarrow> AList.update k v m | Some _ \<Rightarrow> m)"

definition amodify :: "'k \<Rightarrow> ('v \<Rightarrow> 'v) \<Rightarrow> ('k \<times> 'v) list \<Rightarrow> ('k \<times> 'v) list" where
  "amodify k f m = (case map_of m k of None \<Rightarrow> m | Some v \<Rightarrow> AList.update k (f v) m)"

definition keys_distinct :: "('k \<times> 'v) list \<Rightarrow> bool" where
  "keys_distinct m \<longleftrightarrow> distinct (map fst m)"

lemma map_of_update [store_simps]:
  "map_of (AList.update k v m) k' = (if k' = k then Some v else map_of m k')"
  by (simp add: update_conv')

lemma map_of_or_insert [store_simps]:
  "map_of (or_insert k v m) k' =
     (if k' = k then Some (case map_of m k of None \<Rightarrow> v | Some w \<Rightarrow> w) else map_of m k')"
  by (auto simp: or_insert_def update_conv' split: option.splits)

lemma map_of_amodify [store_simps]:
  "map_of (amodify k f m) k' = (if k' = k then map_option f (map_of m k) else map_of m k')"
  by (auto simp: amodify_def update_conv' split: option.splits)

lemma map_of_delete_key [store_simps]:
  "map_of (AList.delete k m) k' = (if k' = k then None else map_of m k')"
  by (simp add: delete_conv')

lemma keys_distinct_update [simp]: "keys_distinct m \<Longrightarrow> keys_distinct (AList.update k v m)"
  by (simp add: keys_distinct_def distinct_update)

lemma keys_distinct_or_insert [simp]: "keys_distinct m \<Longrightarrow> keys_distinct (or_insert k v m)"
  by (simp add: or_insert_def split: option.splits)

lemma keys_distinct_amodify [simp]: "keys_distinct m \<Longrightarrow> keys_distinct (amodify k f m)"
  by (simp add: amodify_def split: option.splits)

lemma keys_distinct_delete [simp]: "keys_distinct m \<Longrightarrow> keys_distinct (AList.delete k m)"
  by (simp add: keys_distinct_def distinct_delete)

lemma keys_distinct_Nil [simp]: "keys_distinct []"
  by (simp add: keys_distinct_def)

lemma keys_amodify [simp]: "map fst (amodify k f m) = map fst m"
proof (cases "map_of m k")
  case (Some v)
  then have "k \<in> set (map fst m)" by (force dest: map_of_SomeD)
  with Some show ?thesis by (simp add: amodify_def update_keys)
qed (simp add: amodify_def)

lemma key_set_amodify [simp]: "fst ` set (amodify k f m) = fst ` set m"
  using arg_cong [OF keys_amodify [of k f m], of set] by (simp only: set_map)

lemma key_set_or_insert [simp]: "fst ` set (or_insert k v m) = insert k (fst ` set m)"
proof (cases "map_of m k")
  case (Some w)
  then have "k \<in> fst ` set m" by (force dest: map_of_SomeD)
  with Some show ?thesis by (simp add: or_insert_def insert_absorb)
qed (simp add: or_insert_def dom_update)

lemma in_set_iff_map_of: "keys_distinct m \<Longrightarrow> (k, v) \<in> set m \<longleftrightarrow> map_of m k = Some v"
  by (simp add: keys_distinct_def)

lemma map_of_in_vals: "map_of m k = Some v \<Longrightarrow> v \<in> snd ` set m"
  by (force dest: map_of_SomeD)

text \<open>Replacing the value of a present key keeps the order and the other bindings.\<close>

lemma amodify_as_map:
  "keys_distinct m \<Longrightarrow> amodify k f m = map (\<lambda>(k', v). (k', if k' = k then f v else v)) m"
proof (induction m)
  case Nil
  then show ?case by (simp add: amodify_def)
next
  case (Cons kv m)
  obtain k0 v0 where kv: "kv = (k0, v0)" by (cases kv)
  have d: "keys_distinct m" "k0 \<notin> fst ` set m"
    using Cons.prems by (simp_all add: keys_distinct_def kv)
  show ?case
  proof (cases "k0 = k")
    case True
    have "map (\<lambda>(k', v). (k', if k' = k then f v else v)) m = m"
      using d(2) True by (intro map_idI) force
    with True kv show ?thesis by (simp add: amodify_def)
  next
    case False
    with kv Cons.IH [OF d(1)] show ?thesis
      by (auto simp: amodify_def split: option.splits)
  qed
qed

text \<open>Mutating every present key in turn is a map over the list.\<close>

lemma foldl_amodify_append:
  "keys_distinct (xs @ m) \<Longrightarrow>
   foldl (\<lambda>m k. amodify k f m) (xs @ m) (map fst m) = xs @ map (\<lambda>(k, v). (k, f v)) m"
proof (induction m arbitrary: xs)
  case (Cons kv m)
  obtain k v where kv: "kv = (k, v)" by (cases kv)
  have k: "k \<notin> fst ` set xs" "k \<notin> fst ` set m"
    using Cons.prems by (simp_all add: kv keys_distinct_def)
  have same: "map (\<lambda>(k', v). (k', if k' = k then f v else v)) ys = ys" if "k \<notin> fst ` set ys" for ys
    using that by (intro map_idI) force
  have step: "amodify k f (xs @ kv # m) = (xs @ [(k, f v)]) @ m"
    unfolding amodify_as_map [OF Cons.prems]
    by (simp only: kv map_append list.map same [OF k(1)] same [OF k(2)]) simp
  have "keys_distinct ((xs @ [(k, f v)]) @ m)"
    using Cons.prems by (simp add: kv keys_distinct_def)
  from Cons.IH [OF this] show ?case by (simp add: kv step [unfolded kv])
qed simp

lemma foldl_amodify:
  "keys_distinct m \<Longrightarrow> foldl (\<lambda>m k. amodify k f m) m (map fst m) = map (\<lambda>(k, v). (k, f v)) m"
  using foldl_amodify_append [of "[]" m f] by simp

lemma map_of_map_vals: "map_of (map (\<lambda>(k, v). (k, f v)) m) k = map_option f (map_of m k)"
  by (induction m) auto

lemma map_of_filter_vals:
  "keys_distinct m \<Longrightarrow>
   map_of (filter (\<lambda>(k, v). p v) m) k =
     (case map_of m k of None \<Rightarrow> None | Some v \<Rightarrow> if p v then Some v else None)"
  by (induction m) (auto simp: keys_distinct_def map_of_eq_None_iff image_iff split: option.splits)

lemma map_of_filter_keys [store_simps]:
  "map_of (filter (\<lambda>(k, _). p k) m) k = (if p k then map_of m k else None)"
  by (induction m) auto

lemma keys_distinct_filter [simp]: "keys_distinct m \<Longrightarrow> keys_distinct (filter p m)"
  by (simp add: keys_distinct_def distinct_map_filter)

lemma keys_map_vals [simp]: "map fst (map (\<lambda>(k, v). (k, f v)) m) = map fst m"
  by (induction m) auto

text \<open>\<open>extend\<close> of a map with the bindings of another.\<close>

lemma map_of_extend:
  "keys_distinct ys \<Longrightarrow>
   map_of (foldl (\<lambda>m (k, v). AList.update k v m) m ys) = map_of m ++ map_of ys"
proof (induction ys arbitrary: m)
  case (Cons kv ys)
  obtain k v where kv: "kv = (k, v)" by (cases kv)
  have "k \<notin> dom (map_of ys)"
    using Cons.prems by (simp add: kv keys_distinct_def dom_map_of_conv_image_fst)
  with Cons kv show ?case
    by (auto simp: keys_distinct_def update_conv' map_add_def fun_eq_iff split: option.splits)
qed simp

lemma keys_distinct_extend:
  "keys_distinct m \<Longrightarrow> keys_distinct (foldl (\<lambda>m (k, v). AList.update k v m) m ys)"
  by (induction ys arbitrary: m) auto

subsection \<open>Positions in a list\<close>

text \<open>\<open>iter().position(p)\<close> and \<open>remove(i)\<close> of a vector or deque.\<close>

fun position :: "('a \<Rightarrow> bool) \<Rightarrow> 'a list \<Rightarrow> nat option" where
  "position p [] = None"
| "position p (x # xs) = (if p x then Some 0 else map_option Suc (position p xs))"

definition remove_at :: "nat \<Rightarrow> 'a list \<Rightarrow> 'a list" where
  "remove_at i xs = take i xs @ drop (Suc i) xs"

lemma position_None: "position p xs = None \<longleftrightarrow> (\<forall>x \<in> set xs. \<not> p x)"
  by (induction xs) simp_all

lemma position_split:
  "position p xs = Some i \<Longrightarrow>
   \<exists>ys z zs. xs = ys @ z # zs \<and> i = length ys \<and> p z \<and> (\<forall>y \<in> set ys. \<not> p y)"
proof (induction xs arbitrary: i)
  case Nil
  then show ?case by simp
next
  case (Cons x xs)
  show ?case
  proof (cases "p x")
    case True
    with Cons.prems show ?thesis by (intro exI [of _ "[]"]) simp
  next
    case False
    with Cons.prems obtain j where j: "position p xs = Some j" "i = Suc j" by auto
    from Cons.IH [OF j(1)] obtain ys z zs where
      "xs = ys @ z # zs" "j = length ys" "p z" "\<forall>y \<in> set ys. \<not> p y" by blast
    with False j(2) show ?thesis by (intro exI [of _ "x # ys"]) simp
  qed
qed

lemma remove_at_split [simp]: "remove_at (length ys) (ys @ z # zs) = ys @ zs"
  by (simp add: remove_at_def)

text \<open>\<open>sort_by_key(f)\<close> and \<open>remove(0)\<close> of a vector that has reached its bound.\<close>

definition make_room :: "nat \<Rightarrow> ('a \<Rightarrow> nat) \<Rightarrow> 'a list \<Rightarrow> 'a list" where
  "make_room m f xs = (if m \<le> length xs then tl (sort_key f xs) else xs)"

lemma make_room_length: "length xs \<le> m \<Longrightarrow> 0 < m \<Longrightarrow> length (make_room m f xs) < m"
  by (simp add: make_room_def) linarith

lemma make_room_subset: "set (make_room m f xs) \<subseteq> set xs"
proof -
  have "set (tl ys) \<subseteq> set ys" for ys :: "'a list" by (cases ys) auto
  from this [of "sort_key f xs"] show ?thesis by (simp add: make_room_def)
qed

lemma make_room_distinct:
  assumes "distinct (map g xs)"
  shows "distinct (map g (make_room m f xs))"
proof -
  have "mset (map g (sort_key f xs)) = mset (map g xs)" by simp
  then have "distinct (map g (sort_key f xs))" using assms by (metis mset_eq_imp_distinct_iff)
  then have "distinct (map g (tl (sort_key f xs)))" by (simp add: map_tl distinct_tl)
  with assms show ?thesis by (simp add: make_room_def)
qed

text \<open>\<open>iter_mut().find(p)\<close> followed by a mutation of the element found.\<close>

fun update_first :: "('a \<Rightarrow> bool) \<Rightarrow> ('a \<Rightarrow> 'a) \<Rightarrow> 'a list \<Rightarrow> 'a list" where
  "update_first p f [] = []"
| "update_first p f (x # xs) = (if p x then f x # xs else x # update_first p f xs)"

lemma length_update_first [simp]: "length (update_first p f xs) = length xs"
  by (induction xs) simp_all

lemma find_split:
  "List.find p xs = Some x \<Longrightarrow> \<exists>ys zs. xs = ys @ x # zs \<and> p x \<and> (\<forall>y \<in> set ys. \<not> p y)"
proof (induction xs)
  case (Cons a xs)
  then show ?case
  proof (cases "p a")
    case True
    with Cons.prems show ?thesis by (intro exI [of _ "[]"] exI [of _ xs]) simp
  next
    case False
    with Cons obtain ys zs where "xs = ys @ x # zs" "p x" "\<forall>y \<in> set ys. \<not> p y" by auto
    with False show ?thesis by (intro exI [of _ "a # ys"] exI [of _ zs]) simp
  qed
qed simp

lemma update_first_split:
  "\<forall>y \<in> set ys. \<not> p y \<Longrightarrow> p x \<Longrightarrow> update_first p f (ys @ x # zs) = ys @ f x # zs"
  by (induction ys) simp_all

lemma map_update_first:
  "(\<And>x. g (f x) = g x) \<Longrightarrow> map g (update_first p f xs) = map g xs"
  by (induction xs) simp_all

lemma set_update_first: "y \<in> set (update_first p f xs) \<Longrightarrow> y \<in> set xs \<or> (\<exists>x \<in> set xs. p x \<and> y = f x)"
  by (induction xs) (auto split: if_splits)

subsection \<open>Decimal text\<close>

definition digit_char :: "nat \<Rightarrow> char" where
  "digit_char n = ''0123456789'' ! n"

fun show_nat :: "nat \<Rightarrow> string" where
  "show_nat n =
     (if n < 10 then [digit_char n] else show_nat (n div 10) @ [digit_char (n mod 10)])"

declare show_nat.simps [simp del]

text \<open>The two lower-case digits of \<open>{:02x}\<close>.\<close>

definition hex_digit :: "nat \<Rightarrow> char" where
  "hex_digit n = ''0123456789abcdef'' ! n"

definition hex2 :: "nat \<Rightarrow> string" where
  "hex2 n = [hex_digit (n div 16), hex_digit (n mod 16)]"

lemma hex_digit_inj: "a < 16 \<Longrightarrow> b < 16 \<Longrightarrow> hex_digit a = hex_digit b \<Longrightarrow> a = b"
proof -
  assume ab: "a < 16" "b < 16" and eq: "hex_digit a = hex_digit b"
  have "distinct ''0123456789abcdef''" by simp
  from nth_eq_iff_index_eq [OF this, of a b] ab eq show "a = b" by (simp add: hex_digit_def)
qed

lemma hex2_inj: "i < 256 \<Longrightarrow> j < 256 \<Longrightarrow> hex2 i = hex2 j \<Longrightarrow> i = j"
proof -
  assume ij: "i < 256" "j < 256" and eq: "hex2 i = hex2 j"
  then have "i div 16 = j div 16" "i mod 16 = j mod 16"
    by (auto simp: hex2_def intro!: hex_digit_inj)
  then show "i = j" by (metis div_mult_mod_eq)
qed

subsection \<open>Machines that keep an invariant\<close>

text \<open>
  The daemon's components are actors: a state and a handler that consumes one command at a
  time. A contract of such a component is an invariant that every command keeps.
\<close>

locale invariant_machine =
  fixes step :: "'s \<Rightarrow> 'c \<Rightarrow> 's"
    and inv :: "'s \<Rightarrow> bool"
  assumes step_inv: "inv s \<Longrightarrow> inv (step s c)"
begin

lemma run_inv: "inv s \<Longrightarrow> inv (foldl step s cs)"
  by (induction cs arbitrary: s) (simp_all add: step_inv)

lemma run_prefix_inv: "inv s \<Longrightarrow> inv (foldl step s (take n cs))"
  by (rule run_inv)

end

subsection \<open>Little-endian numbers\<close>

fun le_bytes :: "nat \<Rightarrow> nat \<Rightarrow> bytes" where
  "le_bytes 0 x = []"
| "le_bytes (Suc n) x = of_nat (x mod 256) # le_bytes n (x div 256)"

fun le_value :: "bytes \<Rightarrow> nat" where
  "le_value [] = 0"
| "le_value (b # bs) = unat b + 256 * le_value bs"

lemma length_le_bytes [simp]: "length (le_bytes n x) = n"
  by (induction n x rule: le_bytes.induct) simp_all

lemma le_value_bytes: "x < 256 ^ n \<Longrightarrow> le_value (le_bytes n x) = x"
proof (induction n x rule: le_bytes.induct)
  case (2 n x)
  then have "le_value (le_bytes n (x div 256)) = x div 256" by (simp add: div_less_iff_less_mult mult.commute)
  then show ?case by (simp add: unat_of_nat)
qed simp

lemma le_bytes_inj:
  "le_bytes n x = le_bytes n y \<Longrightarrow> x < 256 ^ n \<Longrightarrow> y < 256 ^ n \<Longrightarrow> x = y"
  using le_value_bytes [of x n] le_value_bytes [of y n] by metis

end
