(* ===== verification/Reputation_Types.thy ===== *)
theory Reputation_Types
  imports Prelude
begin

text \<open>
  The data of the reputation service (\<open>src/reputation/mod.rs\<close>): authorities, observations,
  decisions, scores, entries, the store, its persisted form, subscriptions and errors. A
  \<open>RecordKey\<close> of \<open>veilid_core\<close> is represented by the text \<open>to_string\<close> gives for it, which is
  how the service keys its tables.
\<close>

type_synonym app_id = string
type_synonym core_module_id = string
type_synonym observation_id = nat
type_synonym decision_id = nat

subsection \<open>Configuration constants\<close>

definition REPUTATION_STORE_VERSION :: nat where "REPUTATION_STORE_VERSION = 1"
definition REPUTATION_SHARD_COUNT :: nat where "REPUTATION_SHARD_COUNT = 256"
definition MAX_RECENT_OBSERVATIONS_PER_NODE :: nat where "MAX_RECENT_OBSERVATIONS_PER_NODE = 64"
definition RECENT_OBSERVATION_MAX_AGE_SECS :: nat where
  "RECENT_OBSERVATION_MAX_AGE_SECS = 30 * 24 * 60 * 60"
definition MAX_SUMMARY_ENTRIES :: nat where "MAX_SUMMARY_ENTRIES = 100000"
definition MIN_GC_ELIGIBLE_AGE_SECS :: nat where
  "MIN_GC_ELIGIBLE_AGE_SECS = 30 * 24 * 60 * 60"
definition NORMAL_ENTRY_MAX_IDLE_SECS :: nat where
  "NORMAL_ENTRY_MAX_IDLE_SECS = 180 * 24 * 60 * 60"
definition VALUABLE_ENTRY_MAX_IDLE_SECS :: nat where
  "VALUABLE_ENTRY_MAX_IDLE_SECS = 365 * 24 * 60 * 60"
definition SUSPICIOUS_ENTRY_MAX_IDLE_SECS :: nat where
  "SUSPICIOUS_ENTRY_MAX_IDLE_SECS = 365 * 24 * 60 * 60"
definition APP_BAN_MAX_IDLE_SECS :: nat where
  "APP_BAN_MAX_IDLE_SECS = 2 * 365 * 24 * 60 * 60"
definition AUTOMATIC_BAN_MAX_IDLE_SECS :: nat where
  "AUTOMATIC_BAN_MAX_IDLE_SECS = 5 * 365 * 24 * 60 * 60"
definition MAX_DESCRIPTION_BYTES :: nat where "MAX_DESCRIPTION_BYTES = 512"
definition CLASSIFIER_MODULE_NAME :: string where
  "CLASSIFIER_MODULE_NAME = ''reputation_classifier''"

subsection \<open>Errors\<close>

datatype rep_error =
    ChannelClosed | InvalidAppId | InvalidModuleId | DescriptionTooLong | ReasonTooLong
  | InvalidExpiry | PermissionDenied | EntryNotFound | ObservationNotFoundOrCompacted
  | DecisionNotFound | StoreVersionUnsupported nat | Persistence string

subsection \<open>Authorities\<close>

datatype authority_id = Auth_User | Auth_CoreModule core_module_id | Auth_App app_id

definition is_app :: "authority_id \<Rightarrow> bool" where
  "is_app a = (case a of Auth_App _ \<Rightarrow> True | _ \<Rightarrow> False)"

text \<open>The derived order of \<open>AuthorityId\<close>: by variant, then by name.\<close>

fun authority_rank :: "authority_id \<Rightarrow> nat \<times> string" where
  "authority_rank Auth_User = (0, [])"
| "authority_rank (Auth_CoreModule m) = (1, m)"
| "authority_rank (Auth_App a) = (2, a)"

lemma authority_rank_inj: "authority_rank a = authority_rank b \<Longrightarrow> a = b"
  by (cases a; cases b) simp_all

instantiation authority_id :: linorder
begin
definition less_eq_authority_id :: "authority_id \<Rightarrow> authority_id \<Rightarrow> bool" where
  "less_eq_authority_id a b = (authority_rank a \<le> authority_rank b)"
definition less_authority_id :: "authority_id \<Rightarrow> authority_id \<Rightarrow> bool" where
  "less_authority_id a b = (authority_rank a < authority_rank b)"
instance
  by standard
    (auto simp: less_eq_authority_id_def less_authority_id_def intro: authority_rank_inj)
end

subsection \<open>Observations\<close>

datatype observation_kind =
    InteractionSucceeded | InteractionFailed | UsefulService | ExcessiveActivity
  | RepetitiveActivity | SuspiciousCoordination
  | MessageDelivered | MessageRejected | UnsolicitedMessage | Spam | Harassment
  | ValidDhtResponse | InvalidDhtResponse | InvalidSignature | ImpossibleProtocolState
  | MalformedProtocolMessage | DeliberateStateCorruption | FutureTimestampClaim
  | ConflictingAccountCreationClaim | SuspiciousCreationBurst
  | Reachable | Unreachable | StableAvailability
  | AppBanRequested | UserMarkedHarmful | UserMarkedTrusted | HandshakeUnavailable

record observation_details =
  application_code :: "nat option"
  description :: "string option"

definition details_validate :: "observation_details \<Rightarrow> rep_error + unit" where
  "details_validate d =
     (case description d of
        Some text \<Rightarrow>
          if MAX_DESCRIPTION_BYTES < length text then Inl DescriptionTooLong else Inr ()
      | None \<Rightarrow> Inr ())"

record observation_input =
  in_subject :: record_key
  in_kind :: observation_kind
  in_details :: observation_details

record app_session_provenance =
  session_id :: string
  credential_generation :: nat
  authenticated_at :: nat

record observation_provenance =
  prov_authority :: authority_id
  prov_app_session :: "app_session_provenance option"

definition provenance_authority :: "authority_id \<Rightarrow> observation_provenance" where
  "provenance_authority a = \<lparr>prov_authority = a, prov_app_session = None\<rparr>"

definition provenance_app :: "app_id \<Rightarrow> app_session_provenance \<Rightarrow> observation_provenance" where
  "provenance_app a s = \<lparr>prov_authority = Auth_App a, prov_app_session = Some s\<rparr>"

record observation =
  obs_id :: observation_id
  obs_subject :: record_key
  obs_source :: authority_id
  obs_kind :: observation_kind
  obs_details :: observation_details
  observed_at :: nat
  retracted_at :: "nat option"
  obs_app_session :: "app_session_provenance option"

definition obs_active :: "observation \<Rightarrow> bool" where
  "obs_active ob = (retracted_at ob = None)"

subsection \<open>Classes, scopes and decisions\<close>

datatype reputation_class =
    Class_New | NormalUser | GoodCitizen | ReliableServer | AutomatedBenign
  | SuspiciousAutomation | LikelySybil | Abusive | TamperedProtocol | NetworkBanned

datatype ban_scope = Scope_App app_id | AllApps | NetworkInteraction

datatype decision_action = Restrict | Ban
datatype decision_status = Active | Revoked | Expired

record decision =
  dec_id :: decision_id
  dec_subject :: record_key
  dec_source :: authority_id
  dec_action :: decision_action
  requested_scope :: ban_scope
  effective_scope :: ban_scope
  reason :: string
  created_at :: nat
  expires_at :: "nat option"
  status :: decision_status
  revoked_at :: "nat option"

definition dec_active_at :: "nat \<Rightarrow> decision \<Rightarrow> bool" where
  "dec_active_at now d =
     (status d = Active \<and> (case expires_at d of None \<Rightarrow> True | Some expiry \<Rightarrow> now < expiry))"

definition dec_permanent :: "decision \<Rightarrow> bool" where
  "dec_permanent d = (expires_at d = None)"

datatype user_override_mode = Allow | AllowRestricted

record user_override_record =
  uo_mode :: user_override_mode
  uo_created_at :: nat
  uo_note :: "string option"

datatype access_level = Allowed | Restricted | Blocked

subsection \<open>Flags\<close>

type_synonym reputation_flags = "32 word"

definition FLAG_NONE :: reputation_flags where "FLAG_NONE = 0"
definition FLAG_BANNED :: reputation_flags where "FLAG_BANNED = push_bit 0 1"
definition FLAG_RESTRICTED :: reputation_flags where "FLAG_RESTRICTED = push_bit 1 1"
definition FLAG_CROSS_APP_CONCERN :: reputation_flags where
  "FLAG_CROSS_APP_CONCERN = push_bit 2 1"
definition FLAG_USER_OVERRIDE :: reputation_flags where "FLAG_USER_OVERRIDE = push_bit 3 1"
definition FLAG_SUSPECTED_SYBIL :: reputation_flags where "FLAG_SUSPECTED_SYBIL = push_bit 4 1"
definition FLAG_AUTOMATED :: reputation_flags where "FLAG_AUTOMATED = push_bit 5 1"
definition FLAG_USEFUL_SERVER :: reputation_flags where "FLAG_USEFUL_SERVER = push_bit 6 1"
definition FLAG_TAMPERED_PROTOCOL :: reputation_flags where
  "FLAG_TAMPERED_PROTOCOL = push_bit 7 1"

definition flags_contains :: "reputation_flags \<Rightarrow> reputation_flags \<Rightarrow> bool" where
  "flags_contains self other = (and self other = other)"

definition flags_insert :: "reputation_flags \<Rightarrow> reputation_flags \<Rightarrow> reputation_flags" where
  "flags_insert self other = or self other"

subsection \<open>Summaries, views and dossiers\<close>

record reputation_summary =
  s_class :: reputation_class
  confidence :: nat
  reliability :: nat
  usefulness :: nat
  suspicion :: nat
  automation_likelihood :: nat
  sybil_likelihood :: nat
  integrity_risk :: nat
  abuse_risk :: nat
  observation_count :: nat
  distinct_sources :: nat
  first_observed :: nat
  last_observed :: nat
  last_changed :: nat
  s_flags :: reputation_flags

definition summary_new :: "nat \<Rightarrow> reputation_summary" where
  "summary_new now =
     \<lparr>s_class = Class_New, confidence = 0, reliability = 0, usefulness = 0, suspicion = 0,
      automation_likelihood = 0, sybil_likelihood = 0, integrity_risk = 0, abuse_risk = 0,
      observation_count = 0, distinct_sources = 0, first_observed = now, last_observed = now,
      last_changed = now, s_flags = FLAG_NONE\<rparr>"

record reputation_view =
  v_subject :: record_key
  v_class :: reputation_class
  v_confidence :: nat
  network_access :: access_level
  app_access :: "access_level option"
  v_visibility_weight :: nat
  v_flags :: reputation_flags
  v_last_observed :: nat

record reputation_cache_hint =
  hint_class :: reputation_class
  hint_network_access :: access_level
  hint_visibility_weight :: nat
  hint_flags :: reputation_flags
  hint_updated_at :: nat

definition cache_hint_from :: "nat \<Rightarrow> reputation_view \<Rightarrow> reputation_cache_hint" where
  "cache_hint_from now view =
     \<lparr>hint_class = v_class view, hint_network_access = network_access view,
      hint_visibility_weight = v_visibility_weight view, hint_flags = v_flags view,
      hint_updated_at = now\<rparr>"

subsection \<open>Score deltas and per-source history\<close>

record score_delta =
  d_reliability :: int
  d_usefulness :: int
  d_suspicion :: int
  d_automation :: int
  d_sybil :: int
  d_integrity :: int
  d_abuse :: int
  d_count :: nat
  impossible_protocol_events :: nat
  invalid_signature_events :: nat
  deliberate_corruption_events :: nat

definition delta_zero :: score_delta where
  "delta_zero =
     \<lparr>d_reliability = 0, d_usefulness = 0, d_suspicion = 0, d_automation = 0, d_sybil = 0,
      d_integrity = 0, d_abuse = 0, d_count = 0, impossible_protocol_events = 0,
      invalid_signature_events = 0, deliberate_corruption_events = 0\<rparr>"

definition delta_add :: "score_delta \<Rightarrow> score_delta \<Rightarrow> score_delta" where
  "delta_add self rhs =
     \<lparr>d_reliability = sat_i64 (d_reliability self + d_reliability rhs),
      d_usefulness = sat_i64 (d_usefulness self + d_usefulness rhs),
      d_suspicion = sat_i64 (d_suspicion self + d_suspicion rhs),
      d_automation = sat_i64 (d_automation self + d_automation rhs),
      d_sybil = sat_i64 (d_sybil self + d_sybil rhs),
      d_integrity = sat_i64 (d_integrity self + d_integrity rhs),
      d_abuse = sat_i64 (d_abuse self + d_abuse rhs),
      d_count = sat_add u64_max (d_count self) (d_count rhs),
      impossible_protocol_events =
        sat_add u32_max (impossible_protocol_events self) (impossible_protocol_events rhs),
      invalid_signature_events =
        sat_add u32_max (invalid_signature_events self) (invalid_signature_events rhs),
      deliberate_corruption_events =
        sat_add u32_max (deliberate_corruption_events self) (deliberate_corruption_events rhs)\<rparr>"

record historical_aggregate =
  totals :: score_delta
  h_first_observed :: nat
  h_last_observed :: nat
  retracted_totals :: score_delta
  retracted_first_observed :: nat
  retracted_last_observed :: nat
  last_retracted_at :: "nat option"

definition aggregate_default :: historical_aggregate where
  "aggregate_default =
     \<lparr>totals = delta_zero, h_first_observed = 0, h_last_observed = 0,
      retracted_totals = delta_zero, retracted_first_observed = 0,
      retracted_last_observed = 0, last_retracted_at = None\<rparr>"

text \<open>\<open>HistoricalAggregate::retract_active\<close>: the returned count and the new aggregate.\<close>

definition retract_active :: "nat \<Rightarrow> historical_aggregate \<Rightarrow> nat \<times> historical_aggregate" where
  "retract_active at h =
     (let n = d_count (totals h) in
      if n = 0 then (0, h)
      else
        (n, h\<lparr>retracted_totals := delta_add (retracted_totals h) (totals h),
              retracted_first_observed :=
                (if retracted_first_observed h = 0 then h_first_observed h
                 else if h_first_observed h \<noteq> 0
                      then min (retracted_first_observed h) (h_first_observed h)
                      else retracted_first_observed h),
              retracted_last_observed := max (retracted_last_observed h) (h_last_observed h),
              last_retracted_at := Some at,
              totals := delta_zero,
              h_first_observed := 0,
              h_last_observed := 0\<rparr>))"

record historical_source_summary =
  hs_source :: authority_id
  hs_observation_count :: nat
  hs_retracted_observation_count :: nat
  hs_first_observed :: nat
  hs_last_observed :: nat
  hs_last_retracted_at :: "nat option"

subsection \<open>Entries and the store\<close>

record entry =
  subject :: record_key
  summary :: reputation_summary
  recent_observations :: "observation list"
  historical_by_source :: "(authority_id \<times> historical_aggregate) list"
  decisions :: "decision list"
  user_override :: "user_override_record option"
  last_touched :: nat

definition entry_new :: "record_key \<Rightarrow> nat \<Rightarrow> entry" where
  "entry_new k now =
     \<lparr>subject = k, summary = summary_new now, recent_observations = [],
      historical_by_source = [], decisions = [], user_override = None, last_touched = now\<rparr>"

record reputation_dossier =
  do_subject :: record_key
  do_summary :: reputation_summary
  do_recent_observations :: "observation list"
  do_decisions :: "decision list"
  do_user_override :: "user_override_record option"
  do_historical_sources :: "historical_source_summary list"

datatype app_source_policy = Enabled | Ignored

record app_source_retraction_record =
  rr_app_id :: app_id
  rr_retracted_at :: nat
  rr_active_observations_retracted :: nat
  rr_historical_observations_retracted :: nat
  rr_decisions_revoked :: nat
  rr_affected_subjects :: nat
  rr_reason :: string

record app_historical_subject_report =
  hr_subject :: record_key
  hr_observation_count :: nat
  hr_retracted_observation_count :: nat
  hr_first_observed :: nat
  hr_last_observed :: nat
  hr_last_retracted_at :: "nat option"

record app_source_report =
  ar_app_id :: app_id
  active_recent_observations :: nat
  retracted_recent_observations :: nat
  compacted_historical_observations :: nat
  retracted_historical_observations :: nat
  active_decisions :: nat
  ar_affected_subjects :: nat
  ar_recent_observations :: "observation list"
  historical_subjects :: "app_historical_subject_report list"
  ar_decisions :: "decision list"
  retractions :: "app_source_retraction_record list"

record app_retraction_report =
  rp_app_id :: app_id
  active_observations_retracted :: nat
  historical_observations_retracted :: nat
  decisions_revoked :: nat
  affected_subjects :: nat

record reputation_metadata =
  m_version :: nat
  m_next_observation_id :: nat
  m_next_decision_id :: nat
  m_app_source_policies :: "(app_id \<times> app_source_policy) list"
  m_app_source_retractions :: "app_source_retraction_record list"

type_synonym reputation_shard = "(string \<times> entry) list"

record store =
  version :: nat
  next_observation_id :: nat
  next_decision_id :: nat
  entries :: "(string \<times> entry) list"
  app_source_policies :: "(app_id \<times> app_source_policy) list"
  app_source_retractions :: "app_source_retraction_record list"

definition store_default :: store where
  "store_default =
     \<lparr>version = REPUTATION_STORE_VERSION, next_observation_id = 1, next_decision_id = 1,
      entries = [], app_source_policies = [], app_source_retractions = []\<rparr>"

definition app_source_enabled :: "store \<Rightarrow> app_id \<Rightarrow> bool" where
  "app_source_enabled st a =
     ((case map_of (app_source_policies st) a of None \<Rightarrow> Enabled | Some p \<Rightarrow> p) = Enabled)"

definition source_enabled :: "store \<Rightarrow> authority_id \<Rightarrow> bool" where
  "source_enabled st src =
     (case src of Auth_App a \<Rightarrow> app_source_enabled st a | Auth_User \<Rightarrow> True
      | Auth_CoreModule _ \<Rightarrow> True)"

definition take_observation_id :: "store \<Rightarrow> observation_id \<times> store" where
  "take_observation_id st =
     (next_observation_id st,
      st\<lparr>next_observation_id := max 1 (sat_add u64_max (next_observation_id st) 1)\<rparr>)"

definition take_decision_id :: "store \<Rightarrow> decision_id \<times> store" where
  "take_decision_id st =
     (next_decision_id st,
      st\<lparr>next_decision_id := max 1 (sat_add u64_max (next_decision_id st) 1)\<rparr>)"

definition store_metadata :: "store \<Rightarrow> reputation_metadata" where
  "store_metadata st =
     \<lparr>m_version = version st, m_next_observation_id = next_observation_id st,
      m_next_decision_id = next_decision_id st,
      m_app_source_policies = app_source_policies st,
      m_app_source_retractions = app_source_retractions st\<rparr>"

subsection \<open>Subscriptions\<close>

datatype event_kind =
    SummaryChanged | RestrictionChanged | BanApplied | BanRemoved | UserOverrideChanged
  | SourcePolicyChanged | EvidenceRetracted | EntryRemoved

type_synonym event_mask = "32 word"

definition event_bit :: "event_kind \<Rightarrow> event_mask" where
  "event_bit k =
     (case k of
        SummaryChanged \<Rightarrow> push_bit 0 1 | RestrictionChanged \<Rightarrow> push_bit 1 1
      | BanApplied \<Rightarrow> push_bit 2 1 | BanRemoved \<Rightarrow> push_bit 3 1
      | UserOverrideChanged \<Rightarrow> push_bit 4 1 | SourcePolicyChanged \<Rightarrow> push_bit 5 1
      | EvidenceRetracted \<Rightarrow> push_bit 6 1 | EntryRemoved \<Rightarrow> push_bit 7 1)"

definition MASK_ALL :: event_mask where "MASK_ALL = - 1"

definition mask_contains :: "event_mask \<Rightarrow> event_kind \<Rightarrow> bool" where
  "mask_contains m k = (and m (event_bit k) \<noteq> 0)"

record subscription_filter =
  f_subjects :: "record_key list option"
  f_events :: event_mask
  f_minimum_suspicion :: "nat option"

definition filter_default :: subscription_filter where
  "filter_default = \<lparr>f_subjects = None, f_events = MASK_ALL, f_minimum_suspicion = None\<rparr>"

record notice =
  n_kind :: event_kind
  n_subject :: record_key
  n_view :: "reputation_view option"

text \<open>The sending half of a \<open>tokio\<close> channel is a value of a type parameter \<open>'c\<close>.\<close>

record 'c subscriber =
  sub_subjects :: "string list option"
  sub_events :: event_mask
  sub_minimum_suspicion :: "nat option"
  sub_app_context :: "app_id option"
  sub_tx :: 'c

end
