(* ===== verification/Reputation_Score.thy ===== *)
theory Reputation_Score
  imports Reputation_Types
begin

text \<open>
  Scoring of evidence: what one observation contributes (\<open>contribution_for\<close>), how a source is
  weighted and capped (\<open>scale\<close>, \<open>cap_source_contribution\<close>) and the 0..255 score of an axis
  (\<open>normalized_score\<close>). The lemmas bound every axis of a capped source and show that reports
  of an app never count towards the automatic protocol-tampering thresholds.
\<close>

definition scale :: "int \<Rightarrow> int \<Rightarrow> int" where
  "scale v percent = tdiv (sat_i64 (v * percent)) 100"

definition base_contribution :: "observation_kind \<Rightarrow> score_delta" where
  "base_contribution k =
    (let z = delta_zero\<lparr>d_count := 1\<rparr> in
     case k of
       InteractionSucceeded \<Rightarrow> z\<lparr>d_reliability := 6\<rparr>
     | InteractionFailed \<Rightarrow> z\<lparr>d_reliability := -4, d_suspicion := 2\<rparr>
     | UsefulService \<Rightarrow> z\<lparr>d_reliability := 4, d_usefulness := 12\<rparr>
     | ExcessiveActivity \<Rightarrow> z\<lparr>d_suspicion := 8, d_automation := 8\<rparr>
     | RepetitiveActivity \<Rightarrow> z\<lparr>d_suspicion := 3, d_automation := 12\<rparr>
     | SuspiciousCoordination \<Rightarrow> z\<lparr>d_suspicion := 15, d_automation := 8, d_sybil := 18\<rparr>
     | MessageDelivered \<Rightarrow> z\<lparr>d_reliability := 5, d_usefulness := 2\<rparr>
     | MessageRejected \<Rightarrow> z\<lparr>d_reliability := -2, d_suspicion := 2\<rparr>
     | UnsolicitedMessage \<Rightarrow> z\<lparr>d_suspicion := 8, d_abuse := 5\<rparr>
     | Spam \<Rightarrow> z\<lparr>d_suspicion := 12, d_automation := 6, d_abuse := 15\<rparr>
     | Harassment \<Rightarrow> z\<lparr>d_suspicion := 10, d_abuse := 18\<rparr>
     | ValidDhtResponse \<Rightarrow> z\<lparr>d_reliability := 6\<rparr>
     | InvalidDhtResponse \<Rightarrow> z\<lparr>d_reliability := -8, d_suspicion := 8, d_integrity := 10\<rparr>
     | InvalidSignature \<Rightarrow>
         z\<lparr>d_reliability := -20, d_suspicion := 20, d_integrity := 35,
           invalid_signature_events := 1\<rparr>
     | ImpossibleProtocolState \<Rightarrow>
         z\<lparr>d_reliability := -30, d_suspicion := 35, d_integrity := 60,
           impossible_protocol_events := 1\<rparr>
     | MalformedProtocolMessage \<Rightarrow> z\<lparr>d_reliability := -5, d_suspicion := 5, d_integrity := 4\<rparr>
     | DeliberateStateCorruption \<Rightarrow>
         z\<lparr>d_reliability := -40, d_suspicion := 45, d_integrity := 75, d_abuse := 20,
           deliberate_corruption_events := 1\<rparr>
     | FutureTimestampClaim \<Rightarrow>
         z\<lparr>d_reliability := -12, d_suspicion := 18, d_sybil := 10, d_integrity := 15\<rparr>
     | ConflictingAccountCreationClaim \<Rightarrow>
         z\<lparr>d_reliability := -10, d_suspicion := 15, d_sybil := 5, d_integrity := 20\<rparr>
     | SuspiciousCreationBurst \<Rightarrow>
         z\<lparr>d_reliability := -30, d_suspicion := 45, d_automation := 20, d_sybil := 70,
           d_integrity := 35\<rparr>
     | Reachable \<Rightarrow> z\<lparr>d_reliability := 4\<rparr>
     | Unreachable \<Rightarrow> z\<lparr>d_reliability := -2\<rparr>
     | HandshakeUnavailable \<Rightarrow> z\<lparr>d_reliability := -1\<rparr>
     | StableAvailability \<Rightarrow> z\<lparr>d_reliability := 8, d_usefulness := 6\<rparr>
     | AppBanRequested \<Rightarrow> z\<lparr>d_suspicion := 8, d_abuse := 5\<rparr>
     | UserMarkedHarmful \<Rightarrow> z\<lparr>d_suspicion := 20, d_abuse := 15\<rparr>
     | UserMarkedTrusted \<Rightarrow> z\<lparr>d_reliability := 18, d_usefulness := 6, d_suspicion := -10\<rparr>)"

definition weight_percent :: "authority_id \<Rightarrow> int" where
  "weight_percent src =
     (case src of Auth_User \<Rightarrow> 140 | Auth_CoreModule _ \<Rightarrow> 100 | Auth_App _ \<Rightarrow> 45)"

definition contribution_for :: "authority_id \<Rightarrow> observation_kind \<Rightarrow> score_delta" where
  "contribution_for src k =
    (let d = base_contribution k;
         w = weight_percent src;
         d = d\<lparr>d_reliability := scale (d_reliability d) w,
               d_usefulness := scale (d_usefulness d) w,
               d_suspicion := scale (d_suspicion d) w,
               d_automation := scale (d_automation d) w,
               d_sybil := scale (d_sybil d) w,
               d_integrity := scale (d_integrity d) w,
               d_abuse := scale (d_abuse d) w\<rparr>
     in if is_app src
        then d\<lparr>impossible_protocol_events := 0, invalid_signature_events := 0,
               deliberate_corruption_events := 0\<rparr>
        else d)"

definition axis_cap :: "authority_id \<Rightarrow> int" where
  "axis_cap src = (case src of Auth_App _ \<Rightarrow> 60 | Auth_CoreModule _ \<Rightarrow> 255 | Auth_User \<Rightarrow> 180)"

definition count_cap :: "authority_id \<Rightarrow> nat" where
  "count_cap src = (case src of Auth_App _ \<Rightarrow> 16 | Auth_CoreModule _ \<Rightarrow> 64 | Auth_User \<Rightarrow> 32)"

definition cap_source_contribution :: "authority_id \<Rightarrow> score_delta \<Rightarrow> score_delta" where
  "cap_source_contribution src d =
    (let c = axis_cap src in
     d\<lparr>d_reliability := clamp (- c) c (d_reliability d),
       d_usefulness := clamp (- c) c (d_usefulness d),
       d_suspicion := clamp (- c) c (d_suspicion d),
       d_automation := clamp (- c) c (d_automation d),
       d_sybil := clamp (- c) c (d_sybil d),
       d_integrity := clamp (- c) c (d_integrity d),
       d_abuse := clamp (- c) c (d_abuse d),
       d_count := min (d_count d) (count_cap src)\<rparr>)"

definition normalized_score :: "int \<Rightarrow> nat" where
  "normalized_score raw = nat (clamp 0 255 raw)"

subsection \<open>Bounds\<close>

text \<open>All seven axes of a delta lie in \<open>[-c, c]\<close>.\<close>

definition axes_within :: "int \<Rightarrow> score_delta \<Rightarrow> bool" where
  "axes_within c d \<longleftrightarrow>
     \<bar>d_reliability d\<bar> \<le> c \<and> \<bar>d_usefulness d\<bar> \<le> c \<and> \<bar>d_suspicion d\<bar> \<le> c \<and>
     \<bar>d_automation d\<bar> \<le> c \<and> \<bar>d_sybil d\<bar> \<le> c \<and> \<bar>d_integrity d\<bar> \<le> c \<and> \<bar>d_abuse d\<bar> \<le> c"

lemma clamp_abs: "0 \<le> c \<Longrightarrow> \<bar>clamp (- c) c x\<bar> \<le> c"
  using clamp_range [of "- c" c x] by linarith

lemma axis_cap_pos: "0 < axis_cap src"
  by (simp add: axis_cap_def split: authority_id.splits)

lemma axis_cap_app [simp]: "axis_cap (Auth_App a) = 60"
  by (simp add: axis_cap_def)

lemma cap_axes_within: "axes_within (axis_cap src) (cap_source_contribution src d)"
  using axis_cap_pos [of src]
  by (simp add: axes_within_def cap_source_contribution_def Let_def clamp_abs)

lemma cap_count: "d_count (cap_source_contribution src d) = min (d_count d) (count_cap src)"
  by (simp add: cap_source_contribution_def Let_def)

lemma normalized_score_le: "normalized_score x \<le> 255"
  using clamp_range [of 0 255 x] by (simp add: normalized_score_def nat_le_iff)

lemma normalized_score_abs: "\<bar>x\<bar> \<le> c \<Longrightarrow> normalized_score x \<le> nat c"
  by (auto simp: normalized_score_def clamp_def)

lemma normalized_score_mono: "x \<le> y \<Longrightarrow> normalized_score x \<le> normalized_score y"
  unfolding normalized_score_def by (intro nat_mono clamp_mono) simp_all

lemma sat_i64_abs: "c \<le> i64_max \<Longrightarrow> \<bar>x\<bar> \<le> c \<Longrightarrow> sat_i64 x = x"
  by (intro sat_i64_id) linarith+

lemma delta_add_zero_left:
  assumes "axes_within c d" "c \<le> i64_max" "d_count d \<le> u64_max"
    "impossible_protocol_events d \<le> u32_max" "invalid_signature_events d \<le> u32_max"
    "deliberate_corruption_events d \<le> u32_max"
  shows "delta_add delta_zero d = d"
  using assms
  by (intro score_delta.equality)
    (simp_all add: delta_add_def delta_zero_def axes_within_def sat_i64_abs [of c])

text \<open>Adding two deltas keeps each axis within the sum of the bounds (saturation only helps).\<close>

lemma axes_within_add:
  assumes "axes_within c x" and "axes_within c' y"
  shows "axes_within (c + c') (delta_add x y)"
proof -
  have k: "\<bar>sat_i64 (a + b)\<bar> \<le> c + c'" if "\<bar>a\<bar> \<le> c" "\<bar>b\<bar> \<le> c'" for a b
    using that sat_i64_le [of "c + c'" "a + b"] sat_i64_ge [of "- (c + c')" "a + b"] by linarith
  show ?thesis using assms by (auto simp: axes_within_def delta_add_def intro!: k)
qed

lemma axes_within_zero [simp]: "0 \<le> c \<Longrightarrow> axes_within c delta_zero"
  by (simp add: axes_within_def delta_zero_def)

subsection \<open>What one observation contributes\<close>

lemma base_count [simp]: "d_count (base_contribution k) = 1"
  by (cases k) (simp_all add: base_contribution_def Let_def)

lemma contribution_count [simp]: "d_count (contribution_for src k) = 1"
  by (simp add: contribution_for_def Let_def)

lemma base_axes_within: "axes_within 75 (base_contribution k)"
  by (cases k) (simp_all add: base_contribution_def Let_def axes_within_def delta_zero_def)

lemma base_events:
  "impossible_protocol_events (base_contribution k) = (if k = ImpossibleProtocolState then 1 else 0)"
  "invalid_signature_events (base_contribution k) = (if k = InvalidSignature then 1 else 0)"
  "deliberate_corruption_events (base_contribution k) =
     (if k = DeliberateStateCorruption then 1 else 0)"
  by (cases k; simp add: base_contribution_def Let_def delta_zero_def)+

lemma contribution_events:
  "impossible_protocol_events (contribution_for src k) =
     (if k = ImpossibleProtocolState \<and> \<not> is_app src then 1 else 0)"
  "invalid_signature_events (contribution_for src k) =
     (if k = InvalidSignature \<and> \<not> is_app src then 1 else 0)"
  "deliberate_corruption_events (contribution_for src k) =
     (if k = DeliberateStateCorruption \<and> \<not> is_app src then 1 else 0)"
  by (simp_all add: contribution_for_def Let_def base_events)

end
