(* ===== verification/Reputation_Entry.thy ===== *)
theory Reputation_Entry
  imports Reputation_Score
begin

text \<open>
  One entry of the reputation table: how recent observations are folded into the per-source
  history, the three compaction loops (by age, by the quota of a source, by the capacity of
  the entry) and the expiry of decisions. The lemmas show that the loops keep the evidence of
  every source (\<open>active_evidence\<close> and \<open>retracted_evidence\<close> count it) and establish the bounds
  on the retained observations.
\<close>

definition fold_observation :: "entry \<Rightarrow> observation \<Rightarrow> entry" where
  "fold_observation e ob =
    (let c = contribution_for (obs_source ob) (obs_kind ob);
         fold = (\<lambda>a. case retracted_at ob of
           Some at \<Rightarrow>
             a\<lparr>retracted_totals := delta_add (retracted_totals a) c,
               retracted_first_observed :=
                 (if retracted_first_observed a = 0 then observed_at ob
                  else min (retracted_first_observed a) (observed_at ob)),
               retracted_last_observed := max (retracted_last_observed a) (observed_at ob),
               last_retracted_at :=
                 Some (max (case last_retracted_at a of None \<Rightarrow> 0 | Some t \<Rightarrow> t) at)\<rparr>
         | None \<Rightarrow>
             a\<lparr>totals := delta_add (totals a) c,
               h_first_observed :=
                 (if h_first_observed a = 0 then observed_at ob
                  else min (h_first_observed a) (observed_at ob)),
               h_last_observed := max (h_last_observed a) (observed_at ob)\<rparr>)
     in e\<lparr>historical_by_source :=
            amodify (obs_source ob) fold
              (or_insert (obs_source ob) aggregate_default (historical_by_source e))\<rparr>)"

lemma recent_fold [simp]: "recent_observations (fold_observation e ob) = recent_observations e"
  by (simp add: fold_observation_def Let_def)

lemma frame_fold [simp]:
  "subject (fold_observation e ob) = subject e"
  "summary (fold_observation e ob) = summary e"
  "decisions (fold_observation e ob) = decisions e"
  "user_override (fold_observation e ob) = user_override e"
  "last_touched (fold_observation e ob) = last_touched e"
  by (simp_all add: fold_observation_def Let_def)

subsection \<open>The compaction loops\<close>

function compact_before :: "nat \<Rightarrow> entry \<Rightarrow> entry" where
  "compact_before cutoff e =
    (case recent_observations e of
       [] \<Rightarrow> e
     | ob # rest \<Rightarrow>
         if observed_at ob < cutoff
         then compact_before cutoff (fold_observation (e\<lparr>recent_observations := rest\<rparr>) ob)
         else e)"
  by pat_completeness auto
termination
  by (relation "measure (\<lambda>(_, e). length (recent_observations e))") auto

definition compact_recent_observations :: "entry \<Rightarrow> nat \<Rightarrow> entry" where
  "compact_recent_observations e now = compact_before (now - RECENT_OBSERVATION_MAX_AGE_SECS) e"

definition recent_observation_limit_for_source :: "authority_id \<Rightarrow> nat" where
  "recent_observation_limit_for_source src =
     (case src of Auth_App _ \<Rightarrow> 16 | Auth_CoreModule _ \<Rightarrow> 32 | Auth_User \<Rightarrow> 32)"

definition source_count :: "authority_id \<Rightarrow> entry \<Rightarrow> nat" where
  "source_count src e = length (filter (\<lambda>ob. obs_source ob = src) (recent_observations e))"

function compact_source_observation_quota :: "entry \<Rightarrow> authority_id \<Rightarrow> entry" where
  "compact_source_observation_quota e src =
    (if recent_observation_limit_for_source src \<le> source_count src e
     then (case position (\<lambda>ob. obs_source ob = src) (recent_observations e) of
             None \<Rightarrow> e
           | Some i \<Rightarrow>
               compact_source_observation_quota
                 (fold_observation
                   (e\<lparr>recent_observations := remove_at i (recent_observations e)\<rparr>)
                   (recent_observations e ! i))
                 src)
     else e)"
  by pat_completeness auto
termination
  by (relation "measure (\<lambda>(e, _). length (recent_observations e))")
    (auto dest: position_split simp: remove_at_def)

function compact_to_capacity :: "entry \<Rightarrow> entry" where
  "compact_to_capacity e =
    (if MAX_RECENT_OBSERVATIONS_PER_NODE \<le> length (recent_observations e)
     then (case recent_observations e of
             [] \<Rightarrow> e
           | old # rest \<Rightarrow>
               compact_to_capacity (fold_observation (e\<lparr>recent_observations := rest\<rparr>) old))
     else e)"
  by pat_completeness auto
termination
  by (relation "measure (\<lambda>e. length (recent_observations e))") auto

declare compact_before.simps [simp del]
declare compact_source_observation_quota.simps [simp del]
declare compact_to_capacity.simps [simp del]

definition expire_decisions :: "entry \<Rightarrow> nat \<Rightarrow> entry" where
  "expire_decisions e now =
     e\<lparr>decisions := map (\<lambda>d.
         if status d = Active \<and> (case expires_at d of None \<Rightarrow> False | Some t \<Rightarrow> t \<le> now)
         then d\<lparr>status := Expired\<rparr> else d) (decisions e)\<rparr>"

subsection \<open>One step of compaction\<close>

text \<open>
  Each loop repeatedly takes one observation out of the deque and folds it. \<open>compacts e e'\<close>
  is the reflexive and transitive closure of that step, so that a fact kept by one step holds
  for all three loops.
\<close>

inductive compacts :: "entry \<Rightarrow> entry \<Rightarrow> bool" where
  compacts_refl: "compacts e e"
| compacts_step:
    "recent_observations e = ys @ ob # zs \<Longrightarrow>
     compacts (fold_observation (e\<lparr>recent_observations := ys @ zs\<rparr>) ob) e' \<Longrightarrow> compacts e e'"

lemma compact_before_compacts: "compacts e (compact_before cutoff e)"
proof (induction cutoff e rule: compact_before.induct)
  case (1 cutoff e)
  show ?case
  proof (cases "recent_observations e")
    case Nil
    then show ?thesis by (simp add: compact_before.simps compacts_refl)
  next
    case (Cons ob rest)
    have split: "recent_observations e = [] @ ob # rest" using Cons by simp
    show ?thesis
    proof (cases "observed_at ob < cutoff")
      case True
      from "1.IH" [OF Cons True] have
        "compacts (fold_observation (e\<lparr>recent_observations := [] @ rest\<rparr>) ob)
           (compact_before cutoff (fold_observation (e\<lparr>recent_observations := rest\<rparr>) ob))"
        by simp
      from compacts_step [OF split this] show ?thesis
        using Cons True by (simp add: compact_before.simps [of cutoff e])
    next
      case False
      with Cons show ?thesis by (simp add: compact_before.simps [of cutoff e] compacts_refl)
    qed
  qed
qed

lemma compact_quota_compacts: "compacts e (compact_source_observation_quota e src)"
proof (induction e src rule: compact_source_observation_quota.induct)
  case (1 e src)
  show ?case
  proof (cases "recent_observation_limit_for_source src \<le> source_count src e")
    case True
    show ?thesis
    proof (cases "position (\<lambda>ob. obs_source ob = src) (recent_observations e)")
      case None
      with True show ?thesis
        by (simp add: compact_source_observation_quota.simps [of e src] compacts_refl)
    next
      case (Some i)
      then obtain ys z zs where s: "recent_observations e = ys @ z # zs" "i = length ys"
        by (blast dest: position_split)
      then have "remove_at i (recent_observations e) = ys @ zs" "recent_observations e ! i = z"
        by simp_all
      with "1.IH" [OF True Some] True Some compacts_step [OF s(1)] show ?thesis
        by (simp add: compact_source_observation_quota.simps [of e src])
    qed
  next
    case False
    then show ?thesis
      by (simp add: compact_source_observation_quota.simps [of e src] compacts_refl)
  qed
qed

lemma compact_capacity_compacts: "compacts e (compact_to_capacity e)"
proof (induction e rule: compact_to_capacity.induct)
  case (1 e)
  show ?case
  proof (cases "recent_observations e")
    case Nil
    then show ?thesis by (simp add: compact_to_capacity.simps compacts_refl)
  next
    case (Cons ob rest)
    have split: "recent_observations e = [] @ ob # rest" using Cons by simp
    show ?thesis
    proof (cases "MAX_RECENT_OBSERVATIONS_PER_NODE \<le> length (recent_observations e)")
      case True
      from "1.IH" [OF True Cons] have
        "compacts (fold_observation (e\<lparr>recent_observations := [] @ rest\<rparr>) ob)
           (compact_to_capacity (fold_observation (e\<lparr>recent_observations := rest\<rparr>) ob))"
        by simp
      from compacts_step [OF split this] show ?thesis
        using Cons True by (simp add: compact_to_capacity.simps [of e])
    next
      case False
      then show ?thesis by (simp add: compact_to_capacity.simps [of e] compacts_refl)
    qed
  qed
qed

lemmas loops_compact =
  compact_before_compacts compact_quota_compacts compact_capacity_compacts

lemma compacts_trans: "compacts a b \<Longrightarrow> compacts b c \<Longrightarrow> compacts a c"
  by (induction rule: compacts.induct) (auto intro: compacts.intros)

lemma compacts_frame:
  "compacts e e' \<Longrightarrow>
   subject e' = subject e \<and> summary e' = summary e \<and> decisions e' = decisions e \<and>
   user_override e' = user_override e \<and> last_touched e' = last_touched e"
  by (induction rule: compacts.induct) simp_all

lemma compacts_recent_subset:
  "compacts e e' \<Longrightarrow> set (recent_observations e') \<subseteq> set (recent_observations e)"
  by (induction rule: compacts.induct) auto

lemma compacts_length:
  "compacts e e' \<Longrightarrow> length (recent_observations e') \<le> length (recent_observations e)"
  by (induction rule: compacts.induct) auto

lemma compacts_source_count: "compacts e e' \<Longrightarrow> source_count src e' \<le> source_count src e"
  by (induction rule: compacts.induct) (auto simp: source_count_def)

subsection \<open>Evidence is kept\<close>

definition history_of :: "authority_id \<Rightarrow> entry \<Rightarrow> historical_aggregate" where
  "history_of src e =
     (case map_of (historical_by_source e) src of None \<Rightarrow> aggregate_default | Some a \<Rightarrow> a)"

definition active_evidence :: "authority_id \<Rightarrow> entry \<Rightarrow> nat" where
  "active_evidence src e =
     length (filter (\<lambda>ob. obs_source ob = src \<and> obs_active ob) (recent_observations e))
     + d_count (totals (history_of src e))"

definition retracted_evidence :: "authority_id \<Rightarrow> entry \<Rightarrow> nat" where
  "retracted_evidence src e =
     length (filter (\<lambda>ob. obs_source ob = src \<and> \<not> obs_active ob) (recent_observations e))
     + d_count (retracted_totals (history_of src e))"

lemma history_of_fold:
  "history_of src (fold_observation e ob) =
     (let a = history_of src e; c = contribution_for (obs_source ob) (obs_kind ob) in
      if obs_source ob \<noteq> src then a
      else case retracted_at ob of
        Some at \<Rightarrow>
          a\<lparr>retracted_totals := delta_add (retracted_totals a) c,
            retracted_first_observed :=
              (if retracted_first_observed a = 0 then observed_at ob
               else min (retracted_first_observed a) (observed_at ob)),
            retracted_last_observed := max (retracted_last_observed a) (observed_at ob),
            last_retracted_at :=
              Some (max (case last_retracted_at a of None \<Rightarrow> 0 | Some t \<Rightarrow> t) at)\<rparr>
      | None \<Rightarrow>
          a\<lparr>totals := delta_add (totals a) c,
            h_first_observed :=
              (if h_first_observed a = 0 then observed_at ob
               else min (h_first_observed a) (observed_at ob)),
            h_last_observed := max (h_last_observed a) (observed_at ob)\<rparr>)"
  by (auto simp: history_of_def fold_observation_def Let_def store_simps split: option.splits)

lemma delta_add_count: "d_count (delta_add x y) = sat_add u64_max (d_count x) (d_count y)"
  by (simp add: delta_add_def)

lemma history_of_recent [simp]: "history_of src (e\<lparr>recent_observations := r\<rparr>) = history_of src e"
  by (simp add: history_of_def)

lemma fold_keeps_active:
  assumes "recent_observations e = ys @ ob # zs" and "active_evidence src e \<le> u64_max"
  shows "active_evidence src (fold_observation (e\<lparr>recent_observations := ys @ zs\<rparr>) ob) =
    active_evidence src e"
  using assms
  by (auto simp: active_evidence_def history_of_fold delta_add_count obs_active_def Let_def
      u64_simps split: option.splits)

lemma fold_keeps_retracted:
  assumes "recent_observations e = ys @ ob # zs" and "retracted_evidence src e \<le> u64_max"
  shows "retracted_evidence src (fold_observation (e\<lparr>recent_observations := ys @ zs\<rparr>) ob) =
    retracted_evidence src e"
  using assms
  by (auto simp: retracted_evidence_def history_of_fold delta_add_count obs_active_def Let_def
      u64_simps split: option.splits)

lemma compacts_active:
  "compacts e e' \<Longrightarrow> active_evidence src e \<le> u64_max \<Longrightarrow>
   active_evidence src e' = active_evidence src e"
  by (induction rule: compacts.induct) (simp_all add: fold_keeps_active)

lemma compacts_retracted:
  "compacts e e' \<Longrightarrow> retracted_evidence src e \<le> u64_max \<Longrightarrow>
   retracted_evidence src e' = retracted_evidence src e"
  by (induction rule: compacts.induct) (simp_all add: fold_keeps_retracted)

lemma fold_keys_distinct:
  "keys_distinct (historical_by_source e) \<Longrightarrow>
   keys_distinct (historical_by_source (fold_observation e ob))"
  by (simp add: fold_observation_def Let_def)

lemma compacts_keys_distinct:
  "compacts e e' \<Longrightarrow> keys_distinct (historical_by_source e) \<Longrightarrow>
   keys_distinct (historical_by_source e')"
  by (induction rule: compacts.induct) (simp_all add: fold_keys_distinct)

subsection \<open>What the loops establish\<close>

lemma compact_before_head:
  "recent_observations (compact_before cutoff e) = ob # rest \<Longrightarrow> cutoff \<le> observed_at ob"
proof (induction cutoff e rule: compact_before.induct)
  case (1 cutoff e)
  then show ?case
    by (auto simp: compact_before.simps [of cutoff e] split: list.splits if_splits)
qed

lemma limit_positive [simp]: "0 < recent_observation_limit_for_source src"
  by (simp add: recent_observation_limit_for_source_def split: authority_id.splits)

lemma quota_established:
  "source_count src (compact_source_observation_quota e src) <
     recent_observation_limit_for_source src"
proof (induction e src rule: compact_source_observation_quota.induct)
  case (1 e src)
  show ?case
  proof (cases "recent_observation_limit_for_source src \<le> source_count src e")
    case True
    then have "0 < source_count src e" using limit_positive [of src] by linarith
    then have "position (\<lambda>ob. obs_source ob = src) (recent_observations e) \<noteq> None"
      by (auto simp: position_None source_count_def filter_empty_conv)
    then obtain i where
      i: "position (\<lambda>ob. obs_source ob = src) (recent_observations e) = Some i" by blast
    show ?thesis using "1.IH" [OF True i] True i
      by (simp add: compact_source_observation_quota.simps [of e src])
  next
    case False
    then show ?thesis by (simp add: compact_source_observation_quota.simps [of e src])
  qed
qed

lemma capacity_established:
  "length (recent_observations (compact_to_capacity e)) < MAX_RECENT_OBSERVATIONS_PER_NODE"
proof (induction e rule: compact_to_capacity.induct)
  case (1 e)
  then show ?case
    by (auto simp: compact_to_capacity.simps [of e] MAX_RECENT_OBSERVATIONS_PER_NODE_def
        split: list.splits)
qed

subsection \<open>Expiry\<close>

lemma expire_frame [simp]:
  "subject (expire_decisions e now) = subject e"
  "recent_observations (expire_decisions e now) = recent_observations e"
  "historical_by_source (expire_decisions e now) = historical_by_source e"
  "user_override (expire_decisions e now) = user_override e"
  "last_touched (expire_decisions e now) = last_touched e"
  "summary (expire_decisions e now) = summary e"
  by (simp_all add: expire_decisions_def)

text \<open>Expiry changes the status only, and never the answer of \<open>is_active_at\<close> from now on.\<close>

lemma expire_active_at:
  "now \<le> t \<Longrightarrow> filter (dec_active_at t) (decisions (expire_decisions e now)) =
     filter (dec_active_at t) (decisions e)"
proof -
  assume "now \<le> t"
  then have "filter (dec_active_at t) (map (\<lambda>d.
      if status d = Active \<and> (case expires_at d of None \<Rightarrow> False | Some t \<Rightarrow> t \<le> now)
      then d\<lparr>status := Expired\<rparr> else d) ds) = filter (dec_active_at t) ds" for ds
    by (induction ds) (auto simp: dec_active_at_def split: option.splits)
  then show ?thesis by (simp add: expire_decisions_def)
qed

end
