(* ===== verification/Reputation_Classify.thy ===== *)
theory Reputation_Classify
  imports Reputation_Entry
begin

text \<open>
  The classifier: the evidence of an entry is summed per source, each source is capped, the
  capped sums give the scores, and the scores and the active decisions give the class and the
  flags (\<open>recompute_subject\<close>). \<open>ensure_automatic_integrity_ban\<close> adds the one decision the
  service takes on its own. The order in which a hash map is traversed is the order of its
  association list.
\<close>

subsection \<open>Summing the evidence per source\<close>

definition policy_enabled :: "(app_id \<times> app_source_policy) list \<Rightarrow> authority_id \<Rightarrow> bool" where
  "policy_enabled pol src =
     (case src of
        Auth_App a \<Rightarrow> (case map_of pol a of None \<Rightarrow> Enabled | Some p \<Rightarrow> p) = Enabled
      | Auth_User \<Rightarrow> True | Auth_CoreModule _ \<Rightarrow> True)"

lemma source_enabled_policy: "source_enabled st = policy_enabled (app_source_policies st)"
  by (rule ext)
    (simp add: source_enabled_def policy_enabled_def app_source_enabled_def
      split: authority_id.splits)

record source_sums =
  source_totals :: "(authority_id \<times> score_delta) list"
  source_times :: "(authority_id \<times> (nat \<times> nat)) list"

definition add_total ::
  "authority_id \<Rightarrow> score_delta \<Rightarrow> (authority_id \<times> score_delta) list \<Rightarrow>
   (authority_id \<times> score_delta) list" where
  "add_total src d m = amodify src (\<lambda>x. delta_add x d) (or_insert src delta_zero m)"

definition sum_history ::
  "(authority_id \<Rightarrow> bool) \<Rightarrow> source_sums \<Rightarrow> authority_id \<times> historical_aggregate \<Rightarrow> source_sums" where
  "sum_history enabled acc sa =
    (case sa of (src, a) \<Rightarrow>
      if \<not> enabled src then acc
      else
        \<lparr>source_totals = add_total src (totals a) (source_totals acc),
         source_times =
           amodify src (\<lambda>(t0, t1).
               (if h_first_observed a \<noteq> 0
                then (if t0 = 0 then h_first_observed a else min t0 (h_first_observed a))
                else t0,
                max t1 (h_last_observed a)))
             (or_insert src (h_first_observed a, h_last_observed a) (source_times acc))\<rparr>)"

definition sum_recent ::
  "(authority_id \<Rightarrow> bool) \<Rightarrow> source_sums \<Rightarrow> observation \<Rightarrow> source_sums" where
  "sum_recent enabled acc ob =
    (if \<not> obs_active ob \<or> \<not> enabled (obs_source ob) then acc
     else
       \<lparr>source_totals =
          add_total (obs_source ob) (contribution_for (obs_source ob) (obs_kind ob))
            (source_totals acc),
        source_times =
          amodify (obs_source ob) (\<lambda>(t0, t1). (min t0 (observed_at ob), max t1 (observed_at ob)))
            (or_insert (obs_source ob) (observed_at ob, observed_at ob) (source_times acc))\<rparr>)"

definition sum_sources :: "(authority_id \<Rightarrow> bool) \<Rightarrow> entry \<Rightarrow> source_sums" where
  "sum_sources enabled e =
     foldl (sum_recent enabled)
       (foldl (sum_history enabled) \<lparr>source_totals = [], source_times = []\<rparr>
          (historical_by_source e))
       (recent_observations e)"

subsection \<open>Combining the capped sources\<close>

definition combine_source ::
  "(authority_id \<times> (nat \<times> nat)) list \<Rightarrow> score_delta \<times> nat \<times> nat \<Rightarrow>
   authority_id \<times> score_delta \<Rightarrow> score_delta \<times> nat \<times> nat" where
  "combine_source tms acc sd =
    (case acc of (tot, lo, hi) \<Rightarrow> case sd of (src, d) \<Rightarrow>
      (delta_add tot (cap_source_contribution src d),
       (case map_of tms src of
          Some (t0, _) \<Rightarrow> if t0 \<noteq> 0 then min lo t0 else lo | None \<Rightarrow> lo),
       (case map_of tms src of Some (_, t1) \<Rightarrow> max hi t1 | None \<Rightarrow> hi)))"

definition combine_sources :: "source_sums \<Rightarrow> score_delta \<times> nat \<times> nat" where
  "combine_sources sums =
     foldl (combine_source (source_times sums)) (delta_zero, u64_max, 0) (source_totals sums)"

definition active_enabled_decisions ::
  "(authority_id \<Rightarrow> bool) \<Rightarrow> nat \<Rightarrow> entry \<Rightarrow> decision list" where
  "active_enabled_decisions enabled now e =
     filter (\<lambda>d. dec_active_at now d \<and> enabled (dec_source d)) (decisions e)"

definition is_network_ban :: "decision \<Rightarrow> bool" where
  "is_network_ban d = (dec_action d = Ban \<and> effective_scope d = NetworkInteraction)"

definition classify :: "bool \<Rightarrow> score_delta \<Rightarrow> reputation_class" where
  "classify network_banned tot =
    (let rel = normalized_score (d_reliability tot); use = normalized_score (d_usefulness tot);
         susp = normalized_score (d_suspicion tot); aut = normalized_score (d_automation tot);
         syb = normalized_score (d_sybil tot); integ = normalized_score (d_integrity tot);
         ab = normalized_score (d_abuse tot)
     in if network_banned then NetworkBanned
        else if 140 \<le> integ then TamperedProtocol
        else if 110 \<le> syb then LikelySybil
        else if 110 \<le> ab then Abusive
        else if 90 \<le> aut \<and> 55 \<le> susp then SuspiciousAutomation
        else if 90 \<le> aut \<and> 55 \<le> use \<and> susp < 55 then AutomatedBenign
        else if 110 \<le> rel \<and> 75 \<le> use \<and> susp < 50 then ReliableServer
        else if 70 \<le> rel \<and> susp < 40 then GoodCitizen
        else if d_count tot = 0 then Class_New
        else NormalUser)"

definition when_insert :: "bool \<Rightarrow> reputation_flags \<Rightarrow> reputation_flags \<Rightarrow> reputation_flags" where
  "when_insert b f fs = (if b then flags_insert fs f else fs)"

definition summary_flags :: "bool \<Rightarrow> reputation_class \<Rightarrow> entry \<Rightarrow> decision list \<Rightarrow> reputation_flags"
  where
  "summary_flags network_banned c e active =
     when_insert (\<exists>d \<in> set active. dec_action d = Restrict) FLAG_RESTRICTED
    (when_insert (\<exists>d \<in> set active.
        is_app (dec_source d) \<and> requested_scope d \<noteq> effective_scope d) FLAG_CROSS_APP_CONCERN
    (when_insert (user_override e \<noteq> None) FLAG_USER_OVERRIDE
    (when_insert (c = TamperedProtocol) FLAG_TAMPERED_PROTOCOL
    (when_insert (c = ReliableServer) FLAG_USEFUL_SERVER
    (when_insert (c = AutomatedBenign \<or> c = SuspiciousAutomation) FLAG_AUTOMATED
    (when_insert (c = LikelySybil) FLAG_SUSPECTED_SYBIL
    (when_insert network_banned FLAG_BANNED FLAG_NONE)))))))"

definition recompute_entry ::
  "(app_id \<times> app_source_policy) list \<Rightarrow> nat \<Rightarrow> entry \<Rightarrow> entry" where
  "recompute_entry pol now e0 =
    (let e = compact_recent_observations (expire_decisions e0 now) now;
         enabled = policy_enabled pol;
         sums = sum_sources enabled e;
         sources = remdups (map fst (source_totals sums));
         (tot, lo, hi) = combine_sources sums;
         active = active_enabled_decisions enabled now e;
         banned = (\<exists>d \<in> set active. is_network_ban d);
         c = classify banned tot
     in e\<lparr>summary :=
       \<lparr>s_class = c,
        confidence =
          min (sat_add u64_max (min (d_count tot) 24 * 8) (min (length sources) 7 * 9)) 255,
        reliability = normalized_score (d_reliability tot),
        usefulness = normalized_score (d_usefulness tot),
        suspicion = normalized_score (d_suspicion tot),
        automation_likelihood = normalized_score (d_automation tot),
        sybil_likelihood = normalized_score (d_sybil tot),
        integrity_risk = normalized_score (d_integrity tot),
        abuse_risk = normalized_score (d_abuse tot),
        observation_count = d_count tot,
        distinct_sources = min (length sources) u16_max,
        first_observed = (if lo = u64_max then 0 else lo),
        last_observed = hi,
        last_changed =
          (if s_class (summary e) \<noteq> c then now else last_changed (summary e)),
        s_flags = summary_flags banned c e active\<rparr>\<rparr>)"

definition recompute_subject :: "store \<Rightarrow> record_key \<Rightarrow> nat \<Rightarrow> store" where
  "recompute_subject st k now =
     st\<lparr>entries := amodify k (recompute_entry (app_source_policies st) now) (entries st)\<rparr>"

subsection \<open>The automatic integrity ban\<close>

definition core_counts :: "entry \<Rightarrow> score_delta" where
  "core_counts e =
     foldl (\<lambda>d ob. if obs_active ob \<and> (case obs_source ob of Auth_CoreModule _ \<Rightarrow> True | _ \<Rightarrow> False)
                   then delta_add d (contribution_for (obs_source ob) (obs_kind ob)) else d)
       (foldl (\<lambda>d (src, a). case src of Auth_CoreModule _ \<Rightarrow> delta_add d (totals a) | _ \<Rightarrow> d)
          delta_zero (historical_by_source e))
       (recent_observations e)"

definition integrity_thresholds_met :: "score_delta \<Rightarrow> bool" where
  "integrity_thresholds_met c \<longleftrightarrow>
     2 \<le> deliberate_corruption_events c \<or> 3 \<le> impossible_protocol_events c \<or>
     6 \<le> invalid_signature_events c \<or>
     (1 \<le> deliberate_corruption_events c \<and> 1 \<le> impossible_protocol_events c)"

definition classifier_authority :: authority_id where
  "classifier_authority = Auth_CoreModule CLASSIFIER_MODULE_NAME"

definition classifier_ban_active :: "nat \<Rightarrow> entry \<Rightarrow> bool" where
  "classifier_ban_active now e \<longleftrightarrow>
     (\<exists>d \<in> set (decisions e). dec_source d = classifier_authority \<and> is_network_ban d \<and>
        dec_active_at now d)"

definition ensure_automatic_integrity_ban :: "store \<Rightarrow> record_key \<Rightarrow> nat \<Rightarrow> bool \<times> store" where
  "ensure_automatic_integrity_ban st k now =
    (case map_of (entries st) k of
       None \<Rightarrow> (False, st)
     | Some e \<Rightarrow>
         if \<not> integrity_thresholds_met (core_counts e) then (False, st)
         else if classifier_ban_active now e then (False, st)
         else
           (let (i, st') = take_decision_id st in
            (True, st'\<lparr>entries := amodify k (\<lambda>e. e\<lparr>decisions := decisions e @
               [\<lparr>dec_id = i, dec_subject = k, dec_source = classifier_authority,
                 dec_action = Ban, requested_scope = NetworkInteraction,
                 effective_scope = NetworkInteraction,
                 reason = ''Repeated locally verified protocol states consistent with tampering'',
                 created_at = now, expires_at = None, status = Active, revoked_at = None\<rparr>]\<rparr>)
               (entries st')\<rparr>)))"

subsection \<open>Which sources are summed\<close>

lemma keys_add_total: "fst ` set (add_total src d m) = insert src (fst ` set m)"
  by (simp add: add_total_def)

lemma keys_distinct_add_total [simp]: "keys_distinct m \<Longrightarrow> keys_distinct (add_total src d m)"
  by (simp add: add_total_def)

lemma sum_history_step:
  "fst ` set (source_totals (sum_history en acc sa)) =
     (if en (fst sa) then insert (fst sa) (fst ` set (source_totals acc))
      else fst ` set (source_totals acc))"
  by (simp add: sum_history_def keys_add_total split: prod.split)

lemma sum_recent_step:
  "fst ` set (source_totals (sum_recent en acc ob)) =
     (if obs_active ob \<and> en (obs_source ob)
      then insert (obs_source ob) (fst ` set (source_totals acc))
      else fst ` set (source_totals acc))"
  by (simp add: sum_recent_def keys_add_total)

lemma sum_history_keys:
  "fst ` set (source_totals (foldl (sum_history en) acc hs)) =
     fst ` set (source_totals acc) \<union> {src \<in> fst ` set hs. en src}"
proof (induction hs arbitrary: acc)
  case (Cons sa hs)
  show ?case by (auto simp: Cons.IH sum_history_step)
qed simp

lemma sum_recent_keys:
  "fst ` set (source_totals (foldl (sum_recent en) acc obs)) =
     fst ` set (source_totals acc) \<union>
     {obs_source ob | ob. ob \<in> set obs \<and> obs_active ob \<and> en (obs_source ob)}"
proof (induction obs arbitrary: acc)
  case (Cons ob obs)
  show ?case by (auto simp: Cons.IH sum_recent_step)
qed simp

text \<open>The sources that have a say about an entry.\<close>

definition evidence_sources :: "(authority_id \<Rightarrow> bool) \<Rightarrow> entry \<Rightarrow> authority_id set" where
  "evidence_sources en e =
     {src \<in> fst ` set (historical_by_source e). en src} \<union>
     {obs_source ob | ob. ob \<in> set (recent_observations e) \<and> obs_active ob \<and> en (obs_source ob)}"

lemma sum_sources_keys:
  "fst ` set (source_totals (sum_sources en e)) = evidence_sources en e"
  by (simp add: sum_sources_def sum_recent_keys sum_history_keys evidence_sources_def)

lemma sum_history_distinct:
  "keys_distinct (source_totals acc) \<Longrightarrow>
   keys_distinct (source_totals (foldl (sum_history en) acc hs))"
  by (induction hs arbitrary: acc) (auto simp: sum_history_def)

lemma sum_recent_distinct:
  "keys_distinct (source_totals acc) \<Longrightarrow>
   keys_distinct (source_totals (foldl (sum_recent en) acc obs))"
  by (induction obs arbitrary: acc) (auto simp: sum_recent_def)

lemma sum_sources_distinct: "keys_distinct (source_totals (sum_sources en e))"
  by (simp add: sum_sources_def sum_recent_distinct sum_history_distinct)

lemma evidence_sources_card:
  "card (evidence_sources en e) = length (source_totals (sum_sources en e))"
  using sum_sources_distinct [of en e] distinct_card [of "map fst (source_totals (sum_sources en e))"]
  by (simp add: keys_distinct_def flip: sum_sources_keys)

subsection \<open>Bounds on the combined sums\<close>

lemma combine_totals:
  "fst (foldl (combine_source tms) acc sds) =
     foldl (\<lambda>t (src, d). delta_add t (cap_source_contribution src d)) (fst acc) sds"
  by (induction sds arbitrary: acc) (simp_all add: combine_source_def split: prod.splits)

lemma combine_bound:
  assumes "\<forall>src \<in> fst ` set sds. axis_cap src \<le> c" and "axes_within b acc" and "0 \<le> c"
  shows "axes_within (b + c * int (length sds))
    (foldl (\<lambda>t (src, d). delta_add t (cap_source_contribution src d)) acc sds)"
  using assms(1,2)
proof (induction sds arbitrary: b acc)
  case Nil
  then show ?case by simp
next
  case (Cons sd sds)
  obtain src d where sd: "sd = (src, d)" by (cases sd)
  have "axes_within c (cap_source_contribution src d)"
    using cap_axes_within [of src d] Cons.prems(1) by (auto simp: axes_within_def sd)
  with Cons.prems(2) have "axes_within (b + c) (delta_add acc (cap_source_contribution src d))"
    by (rule axes_within_add)
  from Cons.IH [OF _ this] Cons.prems(1) show ?case
    by (simp add: sd algebra_simps)
qed

text \<open>
  When every source that has a say is an app, no axis leaves \<open>60\<close> times the number of apps.
\<close>

lemma apps_only_bound:
  assumes "\<forall>src \<in> evidence_sources en e. is_app src"
  shows "axes_within (60 * int (card (evidence_sources en e)))
    (fst (combine_sources (sum_sources en e)))"
proof -
  have "\<forall>src \<in> fst ` set (source_totals (sum_sources en e)). axis_cap src \<le> 60"
    using assms by (auto simp: sum_sources_keys is_app_def axis_cap_def split: authority_id.splits)
  from combine_bound [OF this, of 0 delta_zero] show ?thesis
    by (simp add: combine_sources_def combine_totals evidence_sources_card)
qed

subsection \<open>Frame lemmas of the recomputation\<close>

lemma recompute_entry_frame:
  "subject (recompute_entry pol now e) = subject e"
  "user_override (recompute_entry pol now e) = user_override e"
  "last_touched (recompute_entry pol now e) = last_touched e"
  "decisions (recompute_entry pol now e) = decisions (expire_decisions e now)"
  using compacts_frame [OF compact_before_compacts [of "expire_decisions e now"]]
  by (simp_all add: recompute_entry_def Let_def compact_recent_observations_def
      split: prod.splits)

lemma recompute_entry_evidence:
  "recent_observations (recompute_entry pol now e) =
     recent_observations (compact_recent_observations (expire_decisions e now) now)"
  "historical_by_source (recompute_entry pol now e) =
     historical_by_source (compact_recent_observations (expire_decisions e now) now)"
  by (simp_all add: recompute_entry_def Let_def split: prod.splits)

lemma recompute_store_frame [simp]:
  "version (recompute_subject st k now) = version st"
  "next_observation_id (recompute_subject st k now) = next_observation_id st"
  "next_decision_id (recompute_subject st k now) = next_decision_id st"
  "app_source_policies (recompute_subject st k now) = app_source_policies st"
  "app_source_retractions (recompute_subject st k now) = app_source_retractions st"
  "map fst (entries (recompute_subject st k now)) = map fst (entries st)"
  by (simp_all add: recompute_subject_def)

lemma recompute_lookup [store_simps]:
  "map_of (entries (recompute_subject st k now)) k' =
     (if k' = k then map_option (recompute_entry (app_source_policies st) now)
                       (map_of (entries st) k)
      else map_of (entries st) k')"
  by (simp add: recompute_subject_def store_simps)

lemma ensure_ban_frame [simp]:
  "version (snd (ensure_automatic_integrity_ban st k now)) = version st"
  "next_observation_id (snd (ensure_automatic_integrity_ban st k now)) = next_observation_id st"
  "app_source_policies (snd (ensure_automatic_integrity_ban st k now)) = app_source_policies st"
  "app_source_retractions (snd (ensure_automatic_integrity_ban st k now)) =
     app_source_retractions st"
  "map fst (entries (snd (ensure_automatic_integrity_ban st k now))) = map fst (entries st)"
  by (simp_all add: ensure_automatic_integrity_ban_def take_decision_id_def split: option.splits)

end
