(* ===== verification/Reputation_View.thy ===== *)
theory Reputation_View
  imports Reputation_Classify
begin

text \<open>
  What a caller sees of an entry: the effective view (\<open>build_view\<close>) with its access levels,
  visibility weight and flags, and the dossier. The lemmas say exactly when a view blocks or
  restricts, and bound the weight.
\<close>

fun strongest_access :: "access_level \<Rightarrow> access_level \<Rightarrow> access_level" where
  "strongest_access Blocked _ = Blocked"
| "strongest_access _ Blocked = Blocked"
| "strongest_access Restricted _ = Restricted"
| "strongest_access _ Restricted = Restricted"
| "strongest_access _ _ = Allowed"

definition visibility_weight :: "entry \<Rightarrow> access_level \<Rightarrow> access_level option \<Rightarrow> nat" where
  "visibility_weight e net app =
    (if net = Blocked \<or> app = Some Blocked then 0
     else
      (let w = 100 - tdiv (int (suspicion (summary e)) * 40) 255;
           w = w - tdiv (int (sybil_likelihood (summary e)) * 35) 255;
           w = w + tdiv (int (usefulness (summary e)) * 20) 255;
           w = (if flags_contains (s_flags (summary e)) FLAG_CROSS_APP_CONCERN
                then w - 15 else w);
           w = (if net = Restricted \<or> app = Some Restricted then min w 35 else w)
       in nat (clamp 0 100 w)))"

definition requested_level :: "decision \<Rightarrow> access_level" where
  "requested_level d = (case dec_action d of Restrict \<Rightarrow> Restricted | Ban \<Rightarrow> Blocked)"

definition apply_decision ::
  "app_id option \<Rightarrow> access_level \<times> access_level option \<Rightarrow> decision \<Rightarrow>
   access_level \<times> access_level option" where
  "apply_decision ctx acc d =
    (case acc of (net, app) \<Rightarrow>
      (let l = requested_level d; strengthen = map_option (\<lambda>x. strongest_access x l) in
       case effective_scope d of
         NetworkInteraction \<Rightarrow> (strongest_access net l, strengthen app)
       | AllApps \<Rightarrow> (net, strengthen app)
       | Scope_App a \<Rightarrow> (net, if ctx = Some a then strengthen app else app)))"

definition broad_app_ban_sources :: "store \<Rightarrow> nat \<Rightarrow> entry \<Rightarrow> app_id list" where
  "broad_app_ban_sources st now e =
     remdups (List.map_filter (\<lambda>d. case dec_source d of Auth_App a \<Rightarrow> Some a | _ \<Rightarrow> None)
       (filter (\<lambda>d. dec_active_at now d \<and> dec_action d = Ban \<and>
            (requested_scope d = AllApps \<or> requested_scope d = NetworkInteraction) \<and>
            source_enabled st (dec_source d))
          (decisions e)))"

definition corroborated_access :: "store \<Rightarrow> nat \<Rightarrow> entry \<Rightarrow> access_level \<Rightarrow> access_level" where
  "corroborated_access st now e l =
    (let n = length (broad_app_ban_sources st now e) in
     if 5 \<le> n \<and> 70 \<le> abuse_risk (summary e) then strongest_access l Blocked
     else if 3 \<le> n then strongest_access l Restricted
     else l)"

definition initial_access :: "entry \<Rightarrow> access_level" where
  "initial_access e = (if confidence (summary e) < 24 then Restricted else Allowed)"

definition decided_access ::
  "store \<Rightarrow> nat \<Rightarrow> entry \<Rightarrow> app_id option \<Rightarrow> access_level \<times> access_level option" where
  "decided_access st now e ctx =
    (let (net, app) =
       foldl (apply_decision ctx)
         (initial_access e, map_option (\<lambda>_. initial_access e) ctx)
         (filter (\<lambda>d. dec_active_at now d \<and> source_enabled st (dec_source d)) (decisions e));
       app = map_option (corroborated_access st now e) app
     in case user_override e of
          None \<Rightarrow> (net, app)
        | Some u \<Rightarrow> (case uo_mode u of
            Allow \<Rightarrow> (Allowed, map_option (\<lambda>_. Allowed) app)
          | AllowRestricted \<Rightarrow> (Restricted, map_option (\<lambda>_. Restricted) app)))"

definition build_view ::
  "store \<Rightarrow> nat \<Rightarrow> record_key \<Rightarrow> app_id option \<Rightarrow> rep_error + reputation_view" where
  "build_view st now k ctx =
    (case map_of (entries st) k of
       None \<Rightarrow> Inr \<lparr>v_subject = k, v_class = Class_New, v_confidence = 0,
                   network_access = Restricted, app_access = map_option (\<lambda>_. Restricted) ctx,
                   v_visibility_weight = 25, v_flags = FLAG_RESTRICTED, v_last_observed = 0\<rparr>
     | Some e \<Rightarrow>
         (let (net, app) = decided_access st now e ctx;
              fl = s_flags (summary e);
              fl = when_insert (net = Blocked \<or> app = Some Blocked) FLAG_BANNED fl;
              fl = when_insert (net = Restricted \<or> app = Some Restricted) FLAG_RESTRICTED fl
          in Inr \<lparr>v_subject = k, v_class = s_class (summary e),
                  v_confidence = confidence (summary e), network_access = net, app_access = app,
                  v_visibility_weight = visibility_weight e net app, v_flags = fl,
                  v_last_observed = last_observed (summary e)\<rparr>))"

definition historical_source_of ::
  "authority_id \<times> historical_aggregate \<Rightarrow> historical_source_summary" where
  "historical_source_of sa =
    (case sa of (src, a) \<Rightarrow>
      \<lparr>hs_source = src, hs_observation_count = d_count (totals a),
       hs_retracted_observation_count = d_count (retracted_totals a),
       hs_first_observed = h_first_observed a, hs_last_observed = h_last_observed a,
       hs_last_retracted_at = last_retracted_at a\<rparr>)"

definition build_dossier :: "store \<Rightarrow> record_key \<Rightarrow> rep_error + reputation_dossier" where
  "build_dossier st k =
    (case map_of (entries st) k of
       None \<Rightarrow> Inl EntryNotFound
     | Some e \<Rightarrow> Inr \<lparr>do_subject = subject e, do_summary = summary e,
                     do_recent_observations = recent_observations e, do_decisions = decisions e,
                     do_user_override = user_override e,
                     do_historical_sources =
                       sort_key hs_source (map historical_source_of (historical_by_source e))\<rparr>)"

subsection \<open>The strongest access level\<close>

lemma strongest_Blocked: "strongest_access x y = Blocked \<longleftrightarrow> x = Blocked \<or> y = Blocked"
  by (cases x; cases y) simp_all

lemma strongest_Allowed: "strongest_access x y = Allowed \<longleftrightarrow> x = Allowed \<and> y = Allowed"
  by (cases x; cases y) simp_all

lemma requested_level_Blocked [simp]: "requested_level d = Blocked \<longleftrightarrow> dec_action d = Ban"
  by (simp add: requested_level_def split: decision_action.splits)

lemma requested_level_not_Allowed [simp]: "requested_level d \<noteq> Allowed"
  by (simp add: requested_level_def split: decision_action.splits)

lemma initial_not_Blocked [simp]: "initial_access e \<noteq> Blocked"
  by (simp add: initial_access_def)

text \<open>Which decisions reach an app context.\<close>

definition covers_app :: "app_id \<Rightarrow> decision \<Rightarrow> bool" where
  "covers_app a d \<longleftrightarrow>
     effective_scope d = NetworkInteraction \<or> effective_scope d = AllApps \<or>
     effective_scope d = Scope_App a"

lemma fold_network_access:
  "fst (foldl (apply_decision ctx) (net, app) ds) = Blocked \<longleftrightarrow>
     net = Blocked \<or> (\<exists>d \<in> set ds. is_network_ban d)"
proof (induction ds arbitrary: net app)
  case (Cons d ds)
  then show ?case
    by (cases "effective_scope d")
      (auto simp: apply_decision_def Let_def strongest_Blocked is_network_ban_def)
qed simp

lemma fold_network_Allowed:
  "fst (foldl (apply_decision ctx) (net, app) ds) = Allowed \<longleftrightarrow>
     net = Allowed \<and> (\<forall>d \<in> set ds. effective_scope d \<noteq> NetworkInteraction)"
proof (induction ds arbitrary: net app)
  case (Cons d ds)
  then show ?case
    by (cases "effective_scope d")
      (auto simp: apply_decision_def Let_def strongest_Allowed)
qed simp

lemma fold_app_access:
  "\<exists>l'. snd (foldl (apply_decision (Some a)) (net, Some l) ds) = Some l' \<and>
     (l' = Blocked \<longleftrightarrow> l = Blocked \<or> (\<exists>d \<in> set ds. dec_action d = Ban \<and> covers_app a d))"
proof (induction ds arbitrary: net l)
  case (Cons d ds)
  define l2 where
    "l2 = (if covers_app a d then strongest_access l (requested_level d) else l)"
  obtain net2 where s: "apply_decision (Some a) (net, Some l) d = (net2, Some l2)"
    by (cases "effective_scope d") (simp_all add: apply_decision_def Let_def covers_app_def l2_def)
  have l2: "l2 = Blocked \<longleftrightarrow> l = Blocked \<or> (dec_action d = Ban \<and> covers_app a d)"
    by (simp add: l2_def strongest_Blocked)
  show ?case using Cons.IH [of net2 l2] l2 by (auto simp: s)
qed simp

lemma fold_app_None:
  "snd (foldl (apply_decision None) (net, None) ds) = None"
proof (induction ds arbitrary: net)
  case (Cons d ds)
  then show ?case
    by (cases "effective_scope d") (simp_all add: apply_decision_def Let_def)
qed simp

lemma corroborated_Blocked:
  "corroborated_access st now e l = Blocked \<longleftrightarrow>
     l = Blocked \<or> (5 \<le> length (broad_app_ban_sources st now e) \<and> 70 \<le> abuse_risk (summary e))"
  by (auto simp: corroborated_access_def Let_def strongest_Blocked)

subsection \<open>The visibility weight\<close>

lemma tdiv_scaled_bound:
  assumes "x \<le> 255" and "0 \<le> k"
  shows "0 \<le> tdiv (int x * k) 255" and "tdiv (int x * k) 255 \<le> k"
proof -
  have eq: "tdiv (int x * k) 255 = (int x * k) div 255"
    using assms by (intro tdiv_nonneg) simp_all
  show "0 \<le> tdiv (int x * k) 255" using assms by (simp add: eq pos_imp_zdiv_nonneg_iff)
  have "int x * k \<le> 255 * k" using assms by (intro mult_right_mono) simp_all
  then have "(int x * k) div 255 \<le> (255 * k) div 255" by (rule zdiv_mono1) simp
  then show "tdiv (int x * k) 255 \<le> k" by (simp add: eq)
qed

lemma visibility_weight_le: "visibility_weight e net app \<le> 100"
  using clamp_range [of 0 100] by (simp add: visibility_weight_def Let_def nat_le_iff)

lemma visibility_weight_restricted:
  assumes "net = Restricted \<or> app = Some Restricted"
  shows "visibility_weight e net app \<le> 35"
proof -
  have "nat (clamp 0 100 (min w 35)) \<le> 35" for w :: int
    by (simp add: clamp_def nat_le_iff)
  with assms show ?thesis by (simp add: visibility_weight_def Let_def)
qed

lemma visibility_weight_blocked [simp]:
  "net = Blocked \<or> app = Some Blocked \<Longrightarrow> visibility_weight e net app = 0"
  by (simp add: visibility_weight_def)

text \<open>Without a block the penalties leave at least \<open>100 - 40 - 35 - 15 = 10\<close>.\<close>

lemma visibility_weight_pos:
  assumes "net \<noteq> Blocked" "app \<noteq> Some Blocked"
    and "suspicion (summary e) \<le> 255" "sybil_likelihood (summary e) \<le> 255"
      "usefulness (summary e) \<le> 255"
  shows "10 \<le> visibility_weight e net app"
proof -
  define w where "w = 100 - tdiv (int (suspicion (summary e)) * 40) 255
    - tdiv (int (sybil_likelihood (summary e)) * 35) 255
    + tdiv (int (usefulness (summary e)) * 20) 255"
  define w2 where
    "w2 = (if flags_contains (s_flags (summary e)) FLAG_CROSS_APP_CONCERN then w - 15 else w)"
  have "25 \<le> w"
    using tdiv_scaled_bound [OF assms(3), of 40] tdiv_scaled_bound [OF assms(4), of 35]
      tdiv_scaled_bound [OF assms(5), of 20] by (simp add: w_def)
  then have "10 \<le> w2" by (simp add: w2_def)
  moreover have "visibility_weight e net app =
      nat (clamp 0 100 (if net = Restricted \<or> app = Some Restricted then min w2 35 else w2))"
    using assms(1,2) by (simp add: visibility_weight_def Let_def w_def w2_def)
  ultimately show ?thesis by (auto simp: clamp_def)
qed

end
