(* ===== verification/Reputation_Service.thy ===== *)
theory Reputation_Service
  imports Reputation_View
begin

text \<open>
  The actor's runtime state and its mutating operations: submitting and retracting
  observations, creating and revoking decisions, user overrides, source policies, app-wide
  retraction, the app source report, and the notices sent to subscribers. The clock, the
  \<open>blake3\<close> byte that selects a shard and the channel operations are an \<open>env\<close> argument.
\<close>

datatype send_result = Sent | Channel_Full | Channel_Closed

record 'c env =
  now :: nat
  shard_hash :: "string \<Rightarrow> nat"
  try_send :: "'c \<Rightarrow> notice \<Rightarrow> send_result \<times> 'c"
  is_closed :: "'c \<Rightarrow> bool"
  new_channel :: 'c

record 'c runtime_state =
  rs_store :: store
  subscribers :: "'c subscriber list"
  dirty_metadata :: bool
  dirty_shards :: "nat list"
  periodic_persist_retry_after :: nat
  last_periodic_persist_error :: "string option"

definition reputation_shard_index :: "'c env \<Rightarrow> string \<Rightarrow> nat" where
  "reputation_shard_index env k = shard_hash env k mod REPUTATION_SHARD_COUNT"

definition mark_subject_dirty :: "'c env \<Rightarrow> record_key \<Rightarrow> 'c runtime_state \<Rightarrow> 'c runtime_state"
  where
  "mark_subject_dirty env k s =
     s\<lparr>dirty_shards := List.insert (reputation_shard_index env k) (dirty_shards s)\<rparr>"

definition mark_metadata_dirty :: "'c runtime_state \<Rightarrow> 'c runtime_state" where
  "mark_metadata_dirty s = s\<lparr>dirty_metadata := True\<rparr>"

definition mark_all_shards_dirty :: "'c runtime_state \<Rightarrow> 'c runtime_state" where
  "mark_all_shards_dirty s =
     s\<lparr>dirty_shards := foldl (\<lambda>ds i. List.insert i ds) (dirty_shards s)
          [0..<REPUTATION_SHARD_COUNT]\<rparr>"

subsection \<open>Notices\<close>

definition keep_if_open :: "'c env \<Rightarrow> 'c subscriber \<Rightarrow> 'c subscriber option" where
  "keep_if_open env sub = (if is_closed env (sub_tx sub) then None else Some sub)"

definition send_notice :: "'c env \<Rightarrow> 'c subscriber \<Rightarrow> notice \<Rightarrow> 'c subscriber option" where
  "send_notice env sub nt =
    (case try_send env (sub_tx sub) nt of
       (Sent, c) \<Rightarrow> Some (sub\<lparr>sub_tx := c\<rparr>)
     | (Channel_Full, c) \<Rightarrow> Some (sub\<lparr>sub_tx := c\<rparr>)
     | (Channel_Closed, _) \<Rightarrow> None)"

definition wants :: "event_kind \<Rightarrow> string \<Rightarrow> 'c subscriber \<Rightarrow> bool" where
  "wants kind k sub \<longleftrightarrow>
     mask_contains (sub_events sub) kind \<and>
     (case sub_subjects sub of None \<Rightarrow> True | Some ks \<Rightarrow> k \<in> set ks)"

definition below_minimum :: "store \<Rightarrow> string \<Rightarrow> 'c subscriber \<Rightarrow> bool" where
  "below_minimum st k sub =
    (case sub_minimum_suspicion sub of
       None \<Rightarrow> False
     | Some m \<Rightarrow> (case map_of (entries st) k of
          None \<Rightarrow> False | Some e \<Rightarrow> suspicion (summary e) < m))"

definition notify_one ::
  "'c env \<Rightarrow> store \<Rightarrow> record_key \<Rightarrow> event_kind \<Rightarrow> 'c subscriber \<Rightarrow> 'c subscriber option" where
  "notify_one env st k kind sub =
    (if \<not> wants kind k sub then keep_if_open env sub
     else if below_minimum st k sub then keep_if_open env sub
     else send_notice env sub
       \<lparr>n_kind = kind, n_subject = k,
        n_view = (case build_view st (now env) k (sub_app_context sub) of
                    Inl _ \<Rightarrow> None | Inr v \<Rightarrow> Some v)\<rparr>)"

definition emit_notice ::
  "'c env \<Rightarrow> record_key \<Rightarrow> event_kind \<Rightarrow> 'c runtime_state \<Rightarrow> 'c runtime_state" where
  "emit_notice env k kind s =
     s\<lparr>subscribers := List.map_filter (notify_one env (rs_store s) k kind) (subscribers s)\<rparr>"

definition emit_entry_removed :: "'c env \<Rightarrow> record_key \<Rightarrow> 'c runtime_state \<Rightarrow> 'c runtime_state" where
  "emit_entry_removed env k s =
     s\<lparr>subscribers := List.map_filter
          (\<lambda>sub. if \<not> wants EntryRemoved k sub then keep_if_open env sub
                 else send_notice env sub
                   \<lparr>n_kind = EntryRemoved, n_subject = k, n_view = None\<rparr>)
          (subscribers s)\<rparr>"

subsection \<open>Observations\<close>

definition recorded_observation ::
  "observation_id \<Rightarrow> nat \<Rightarrow> observation_provenance \<Rightarrow> observation_input \<Rightarrow> observation" where
  "recorded_observation i t prov inp =
     \<lparr>obs_id = i, obs_subject = in_subject inp, obs_source = prov_authority prov,
      obs_kind = in_kind inp, obs_details = in_details inp, observed_at = t,
      retracted_at = None, obs_app_session = prov_app_session prov\<rparr>"

definition submit_entry :: "observation \<Rightarrow> nat \<Rightarrow> entry \<Rightarrow> entry" where
  "submit_entry ob t e =
    (let e = compact_recent_observations e t;
         e = compact_source_observation_quota e (obs_source ob);
         e = compact_to_capacity e
     in e\<lparr>recent_observations := recent_observations e @ [ob], last_touched := t\<rparr>)"

definition submit_observation ::
  "'c env \<Rightarrow> observation_provenance \<Rightarrow> observation_input \<Rightarrow> 'c runtime_state \<Rightarrow>
   (rep_error + observation_id \<times> bool) \<times> 'c runtime_state" where
  "submit_observation env prov inp s =
    (case details_validate (in_details inp) of
       Inl err \<Rightarrow> (Inl err, s)
     | Inr _ \<Rightarrow>
        (let t = now env; k = in_subject inp;
             (i, st) = take_observation_id (rs_store s);
             st = st\<lparr>entries := amodify k (submit_entry (recorded_observation i t prov inp) t)
                        (or_insert k (entry_new k t) (entries st))\<rparr>;
             (banned, st) = ensure_automatic_integrity_ban st k t;
             st = recompute_subject st k t;
             s = mark_metadata_dirty (mark_subject_dirty env k (s\<lparr>rs_store := st\<rparr>));
             s = emit_notice env k SummaryChanged s;
             s = (if banned then emit_notice env k BanApplied s else s)
         in (Inr (i, banned), s)))"

definition retract_observation ::
  "'c env \<Rightarrow> record_key \<Rightarrow> observation_id \<Rightarrow> authority_id option \<Rightarrow> 'c runtime_state \<Rightarrow>
   (rep_error + unit) \<times> 'c runtime_state" where
  "retract_observation env k i required s =
    (case map_of (entries (rs_store s)) k of
       None \<Rightarrow> (Inl EntryNotFound, s)
     | Some e \<Rightarrow>
        (case List.find (\<lambda>ob. obs_id ob = i) (recent_observations e) of
           None \<Rightarrow> (Inl ObservationNotFoundOrCompacted, s)
         | Some ob \<Rightarrow>
            if (case required of None \<Rightarrow> False | Some src \<Rightarrow> src \<noteq> obs_source ob)
            then (Inl PermissionDenied, s)
            else
             (let t = now env;
                  e' = e\<lparr>recent_observations := update_first (\<lambda>ob. obs_id ob = i)
                           (\<lambda>ob. ob\<lparr>retracted_at := Some t\<rparr>) (recent_observations e),
                         last_touched := t\<rparr>;
                  st = (rs_store s)\<lparr>entries := amodify k (\<lambda>_. e') (entries (rs_store s))\<rparr>;
                  st = recompute_subject st k t;
                  s = mark_subject_dirty env k (s\<lparr>rs_store := st\<rparr>)
              in (Inr (), emit_notice env k EvidenceRetracted s))))"

subsection \<open>Decisions\<close>

definition validate_scope_for_source :: "authority_id \<Rightarrow> ban_scope \<Rightarrow> rep_error + unit" where
  "validate_scope_for_source src sc =
    (case (src, sc) of
       (Auth_App a, Scope_App b) \<Rightarrow> if a \<noteq> b then Inl PermissionDenied else Inr ()
     | _ \<Rightarrow> Inr ())"

definition effective_scope_for_source :: "authority_id \<Rightarrow> ban_scope \<Rightarrow> ban_scope" where
  "effective_scope_for_source src sc =
    (case src of Auth_App a \<Rightarrow> Scope_App a | Auth_User \<Rightarrow> sc | Auth_CoreModule _ \<Rightarrow> sc)"

definition create_decision ::
  "'c env \<Rightarrow> authority_id \<Rightarrow> record_key \<Rightarrow> decision_action \<Rightarrow> ban_scope \<Rightarrow> string \<Rightarrow> nat option \<Rightarrow>
   'c runtime_state \<Rightarrow> (rep_error + decision_id) \<times> 'c runtime_state" where
  "create_decision env src k act sc why exp s =
    (if MAX_DESCRIPTION_BYTES < length why then (Inl ReasonTooLong, s)
     else if (case exp of None \<Rightarrow> False | Some x \<Rightarrow> x \<le> now env) then (Inl InvalidExpiry, s)
     else case validate_scope_for_source src sc of
       Inl err \<Rightarrow> (Inl err, s)
     | Inr _ \<Rightarrow>
        (let t = now env;
             (i, st) = take_decision_id (rs_store s);
             d = \<lparr>dec_id = i, dec_subject = k, dec_source = src, dec_action = act,
                  requested_scope = sc, effective_scope = effective_scope_for_source src sc,
                  reason = why, created_at = t, expires_at = exp, status = Active,
                  revoked_at = None\<rparr>;
             st = st\<lparr>entries := amodify k
                        (\<lambda>e. e\<lparr>decisions := decisions e @ [d], last_touched := t\<rparr>)
                        (or_insert k (entry_new k t) (entries st))\<rparr>;
             st = recompute_subject st k t;
             s = mark_metadata_dirty (mark_subject_dirty env k (s\<lparr>rs_store := st\<rparr>))
         in (Inr i, emit_notice env k
               (case act of Ban \<Rightarrow> BanApplied | Restrict \<Rightarrow> RestrictionChanged) s)))"

definition revoke_decision ::
  "'c env \<Rightarrow> record_key \<Rightarrow> decision_id \<Rightarrow> authority_id option \<Rightarrow> 'c runtime_state \<Rightarrow>
   (rep_error + unit) \<times> 'c runtime_state" where
  "revoke_decision env k i required s =
    (case map_of (entries (rs_store s)) k of
       None \<Rightarrow> (Inl EntryNotFound, s)
     | Some e \<Rightarrow>
        (case List.find (\<lambda>d. dec_id d = i) (decisions e) of
           None \<Rightarrow> (Inl DecisionNotFound, s)
         | Some d \<Rightarrow>
            if (case required of None \<Rightarrow> False | Some src \<Rightarrow> src \<noteq> dec_source d)
            then (Inl PermissionDenied, s)
            else
             (let t = now env;
                  e' = e\<lparr>decisions := update_first (\<lambda>d. dec_id d = i)
                           (\<lambda>d. d\<lparr>status := Revoked, revoked_at := Some t\<rparr>) (decisions e),
                         last_touched := t\<rparr>;
                  st = (rs_store s)\<lparr>entries := amodify k (\<lambda>_. e') (entries (rs_store s))\<rparr>;
                  st = recompute_subject st k t;
                  s = mark_subject_dirty env k (s\<lparr>rs_store := st\<rparr>)
              in (Inr (), emit_notice env k
                    (case dec_action d of Ban \<Rightarrow> BanRemoved | Restrict \<Rightarrow> RestrictionChanged) s))))"

subsection \<open>User overrides\<close>

definition set_user_override ::
  "'c env \<Rightarrow> record_key \<Rightarrow> user_override_mode \<Rightarrow> string option \<Rightarrow> 'c runtime_state \<Rightarrow>
   (rep_error + unit) \<times> 'c runtime_state" where
  "set_user_override env k mode note s =
    (if (case note of None \<Rightarrow> False | Some text \<Rightarrow> MAX_DESCRIPTION_BYTES < length text)
     then (Inl DescriptionTooLong, s)
     else
      (let t = now env;
           st = (rs_store s)\<lparr>entries := amodify k
                  (\<lambda>e. e\<lparr>user_override := Some \<lparr>uo_mode = mode, uo_created_at = t, uo_note = note\<rparr>,
                         last_touched := t\<rparr>)
                  (or_insert k (entry_new k t) (entries (rs_store s)))\<rparr>;
           st = recompute_subject st k t;
           s = mark_subject_dirty env k (s\<lparr>rs_store := st\<rparr>)
       in (Inr (), emit_notice env k UserOverrideChanged s)))"

definition clear_user_override ::
  "'c env \<Rightarrow> record_key \<Rightarrow> 'c runtime_state \<Rightarrow> (rep_error + unit) \<times> 'c runtime_state" where
  "clear_user_override env k s =
    (case map_of (entries (rs_store s)) k of
       None \<Rightarrow> (Inl EntryNotFound, s)
     | Some e \<Rightarrow>
        (let t = now env;
             st = (rs_store s)\<lparr>entries := amodify k
                    (\<lambda>e. e\<lparr>user_override := None, last_touched := t\<rparr>) (entries (rs_store s))\<rparr>;
             st = recompute_subject st k t;
             s = mark_subject_dirty env k (s\<lparr>rs_store := st\<rparr>)
         in (Inr (), emit_notice env k UserOverrideChanged s)))"

subsection \<open>Operations on one app as a source\<close>

definition historical_subject_of :: "authority_id \<Rightarrow> entry \<Rightarrow> app_historical_subject_report option"
  where
  "historical_subject_of src e =
     map_option (\<lambda>h.
       \<lparr>hr_subject = subject e, hr_observation_count = d_count (totals h),
        hr_retracted_observation_count = d_count (retracted_totals h),
        hr_first_observed = h_first_observed h, hr_last_observed = h_last_observed h,
        hr_last_retracted_at = last_retracted_at h\<rparr>) (map_of (historical_by_source e) src)"

definition observations_of :: "authority_id \<Rightarrow> entry \<Rightarrow> observation list" where
  "observations_of src e = filter (\<lambda>ob. obs_source ob = src) (recent_observations e)"

definition decisions_of :: "authority_id \<Rightarrow> entry \<Rightarrow> decision list" where
  "decisions_of src e = filter (\<lambda>d. dec_source d = src) (decisions e)"

definition get_app_source_report :: "'c runtime_state \<Rightarrow> app_id \<Rightarrow> app_source_report" where
  "get_app_source_report s a =
    (let src = Auth_App a; es = map snd (entries (rs_store s));
         obs = concat (map (observations_of src) es);
         hist = List.map_filter (historical_subject_of src) es;
         decs = concat (map (decisions_of src) es)
     in \<lparr>ar_app_id = a,
         active_recent_observations = length (filter obs_active obs),
         retracted_recent_observations = length (filter (\<lambda>ob. \<not> obs_active ob) obs),
         compacted_historical_observations =
           foldl (\<lambda>n h. sat_add u64_max n (hr_observation_count h)) 0 hist,
         retracted_historical_observations =
           foldl (\<lambda>n h. sat_add u64_max n (hr_retracted_observation_count h)) 0 hist,
         active_decisions = length (filter (\<lambda>d. status d = Active) decs),
         ar_affected_subjects =
           length (filter (\<lambda>e. observations_of src e \<noteq> [] \<or>
             map_of (historical_by_source e) src \<noteq> None \<or> decisions_of src e \<noteq> []) es),
         ar_recent_observations =
           sort_key (\<lambda>ob. (- int (observed_at ob), int (obs_id ob))) obs,
         historical_subjects = sort_key hr_subject hist,
         ar_decisions = sort_key (\<lambda>d. (- int (created_at d), int (dec_id d))) decs,
         retractions = filter (\<lambda>r. rr_app_id r = a) (app_source_retractions (rs_store s))\<rparr>)"

text \<open>
  The effect of \<open>retract_app_source\<close> on one entry: the entry, and how many recent
  observations, historical observations and decisions it took back.
\<close>

definition retract_source_entry :: "authority_id \<Rightarrow> nat \<Rightarrow> entry \<Rightarrow> entry \<times> nat \<times> nat \<times> nat" where
  "retract_source_entry src t e =
    (let hit = (\<lambda>ob. obs_source ob = src \<and> retracted_at ob = None);
         dhit = (\<lambda>d. dec_source d = src \<and> status d = Active);
         n_obs = length (filter hit (recent_observations e));
         (n_hist, hist) =
           (case map_of (historical_by_source e) src of
              None \<Rightarrow> (0, historical_by_source e)
            | Some h \<Rightarrow> (case retract_active t h of
                (n, h') \<Rightarrow> (n, amodify src (\<lambda>_. h') (historical_by_source e))));
         n_dec = length (filter dhit (decisions e));
         changed = (n_obs \<noteq> 0 \<or> n_hist \<noteq> 0 \<or> n_dec \<noteq> 0);
         e' = e\<lparr>recent_observations :=
                  map (\<lambda>ob. if hit ob then ob\<lparr>retracted_at := Some t\<rparr> else ob)
                    (recent_observations e),
                historical_by_source := hist,
                decisions :=
                  map (\<lambda>d. if dhit d then d\<lparr>status := Revoked, revoked_at := Some t\<rparr> else d)
                    (decisions e),
                last_touched := (if changed then t else last_touched e)\<rparr>
     in (e', n_obs, n_hist, n_dec))"

definition touched_by_retraction :: "entry \<times> nat \<times> nat \<times> nat \<Rightarrow> bool" where
  "touched_by_retraction r = (case r of (_, ob_n, h, d) \<Rightarrow> ob_n \<noteq> 0 \<or> h \<noteq> 0 \<or> d \<noteq> 0)"

definition retract_app_source ::
  "'c env \<Rightarrow> app_id \<Rightarrow> string \<Rightarrow> 'c runtime_state \<Rightarrow>
   (rep_error + app_retraction_report) \<times> 'c runtime_state" where
  "retract_app_source env a why s =
    (if MAX_DESCRIPTION_BYTES < length why then (Inl ReasonTooLong, s)
     else
      (let t = now env; src = Auth_App a; st = rs_store s;
           rs = map (\<lambda>(k, e). (k, retract_source_entry src t e)) (entries st);
           n_obs = sum_list (map (\<lambda>(k, e, ob_n, h, d). ob_n) rs);
           n_hist = foldl (\<lambda>n (k, e, ob_n, h, d). sat_add u64_max n h) 0 rs;
           n_dec = sum_list (map (\<lambda>(k, e, ob_n, h, d). d) rs);
           changed = map (\<lambda>(k, r). subject (fst r))
                       (filter (\<lambda>(k, r). touched_by_retraction r) rs);
           st = st\<lparr>entries := map (\<lambda>(k, r). (k, fst r)) rs,
                   app_source_retractions := app_source_retractions st @
                     [\<lparr>rr_app_id = a, rr_retracted_at = t,
                       rr_active_observations_retracted = n_obs,
                       rr_historical_observations_retracted = n_hist,
                       rr_decisions_revoked = n_dec, rr_affected_subjects = length changed,
                       rr_reason = why\<rparr>]\<rparr>;
           s = mark_metadata_dirty (s\<lparr>rs_store := st\<rparr>);
           s = foldl (\<lambda>s k. let s = mark_subject_dirty env k s;
                               s = s\<lparr>rs_store := recompute_subject (rs_store s) k t\<rparr>
                           in emit_notice env k EvidenceRetracted s) s changed
       in (Inr \<lparr>rp_app_id = a, active_observations_retracted = n_obs,
                historical_observations_retracted = n_hist, decisions_revoked = n_dec,
                affected_subjects = length changed\<rparr>, s)))"

definition set_app_source_policy ::
  "'c env \<Rightarrow> app_id \<Rightarrow> app_source_policy \<Rightarrow> 'c runtime_state \<Rightarrow>
   (rep_error + unit) \<times> 'c runtime_state" where
  "set_app_source_policy env a p s =
    (let st = (rs_store s)\<lparr>app_source_policies :=
                 AList.update a p (app_source_policies (rs_store s))\<rparr>;
         subjects = map (subject \<circ> snd) (entries st);
         s = foldl (\<lambda>s k. let s = s\<lparr>rs_store := recompute_subject (rs_store s) k (now env)\<rparr>
                         in emit_notice env k SourcePolicyChanged s)
               (s\<lparr>rs_store := st\<rparr>) subjects
     in (Inr (), mark_metadata_dirty s))"

definition delete_app_source_data ::
  "'c env \<Rightarrow> app_id \<Rightarrow> 'c runtime_state \<Rightarrow> (rep_error + nat) \<times> 'c runtime_state" where
  "delete_app_source_data env a s =
    (case retract_app_source env a
            ''Legacy delete request converted to provenance-preserving retraction'' s of
       (Inl err, s) \<Rightarrow> (Inl err, s)
     | (Inr report, s) \<Rightarrow>
        (let st = (rs_store s)\<lparr>app_source_policies :=
                    AList.delete a (app_source_policies (rs_store s))\<rparr>
         in (Inr (affected_subjects report), mark_metadata_dirty (s\<lparr>rs_store := st\<rparr>))))"

subsection \<open>Frame lemmas\<close>

lemma emit_frame [simp]:
  "rs_store (emit_notice env k kind s) = rs_store s"
  "dirty_metadata (emit_notice env k kind s) = dirty_metadata s"
  "dirty_shards (emit_notice env k kind s) = dirty_shards s"
  "rs_store (emit_entry_removed env k s) = rs_store s"
  "dirty_metadata (emit_entry_removed env k s) = dirty_metadata s"
  "dirty_shards (emit_entry_removed env k s) = dirty_shards s"
  by (simp_all add: emit_notice_def emit_entry_removed_def)

lemma mark_frame [simp]:
  "rs_store (mark_subject_dirty env k s) = rs_store s"
  "rs_store (mark_metadata_dirty s) = rs_store s"
  "rs_store (mark_all_shards_dirty s) = rs_store s"
  "subscribers (mark_subject_dirty env k s) = subscribers s"
  "subscribers (mark_metadata_dirty s) = subscribers s"
  "dirty_metadata (mark_subject_dirty env k s) = dirty_metadata s"
  "dirty_shards (mark_metadata_dirty s) = dirty_shards s"
  by (simp_all add: mark_subject_dirty_def mark_metadata_dirty_def mark_all_shards_dirty_def)

end
