(* ===== verification/Reputation_GC.thy ===== *)
theory Reputation_GC
  imports Reputation_Service
begin

text \<open>
  Garbage collection of the reputation table: how long an entry of each class may stay idle,
  what the user has pinned, and the sweep itself. The sweep collects its candidates, sorts
  them by value and idleness, and selects from them by the size target and by staleness.
\<close>

definition entry_max_idle :: "entry \<Rightarrow> nat \<Rightarrow> nat" where
  "entry_max_idle e t =
    (let active = filter (dec_active_at t) (decisions e) in
     if \<exists>d \<in> set active. dec_source d = Auth_User \<and> dec_permanent d then u64_max
     else if \<exists>d \<in> set active. dec_permanent d \<and> effective_scope d = NetworkInteraction
     then AUTOMATIC_BAN_MAX_IDLE_SECS
     else if \<exists>d \<in> set active. is_app (dec_source d) then APP_BAN_MAX_IDLE_SECS
     else case s_class (summary e) of
         ReliableServer \<Rightarrow> VALUABLE_ENTRY_MAX_IDLE_SECS
       | GoodCitizen \<Rightarrow> VALUABLE_ENTRY_MAX_IDLE_SECS
       | LikelySybil \<Rightarrow> SUSPICIOUS_ENTRY_MAX_IDLE_SECS
       | Abusive \<Rightarrow> SUSPICIOUS_ENTRY_MAX_IDLE_SECS
       | SuspiciousAutomation \<Rightarrow> SUSPICIOUS_ENTRY_MAX_IDLE_SECS
       | TamperedProtocol \<Rightarrow> SUSPICIOUS_ENTRY_MAX_IDLE_SECS
       | _ \<Rightarrow> NORMAL_ENTRY_MAX_IDLE_SECS)"

definition is_stale_by_policy :: "entry \<Rightarrow> nat \<Rightarrow> bool" where
  "is_stale_by_policy e t \<longleftrightarrow> entry_max_idle e t \<le> t - last_touched e"

definition has_permanent_user_state :: "entry \<Rightarrow> nat \<Rightarrow> bool" where
  "has_permanent_user_state e t \<longleftrightarrow>
     user_override e \<noteq> None \<or>
     (\<exists>d \<in> set (decisions e). dec_source d = Auth_User \<and> dec_permanent d \<and> dec_active_at t d)"

definition decision_value :: "decision \<Rightarrow> int" where
  "decision_value d =
     (case (dec_source d, dec_action d) of
        (Auth_User, _) \<Rightarrow> 10000 | (_, Ban) \<Rightarrow> 2000 | (_, Restrict) \<Rightarrow> 500)"

definition retention_value :: "entry \<Rightarrow> nat \<Rightarrow> int" where
  "retention_value e t =
     int (usefulness (summary e)) * 3 + int (confidence (summary e)) +
     int (suspicion (summary e)) * 2 + int (integrity_risk (summary e)) * 3 +
     int (min (observation_count (summary e)) 255) +
     sum_list (map decision_value (filter (dec_active_at t) (decisions e)))"

definition recompute_all :: "nat \<Rightarrow> store \<Rightarrow> store" where
  "recompute_all t st =
     foldl (\<lambda>st k. recompute_subject st k t) st (map (subject \<circ> snd) (entries st))"

definition gc_candidate :: "nat \<Rightarrow> entry \<Rightarrow> bool" where
  "gc_candidate t e \<longleftrightarrow>
     \<not> (t - last_touched e < MIN_GC_ELIGIBLE_AGE_SECS \<or> t - last_touched e < entry_max_idle e t) \<and>
     \<not> has_permanent_user_state e t"

text \<open>The stable sort: lowest value first, and the longest idle first among equals.\<close>

definition gc_candidates :: "nat \<Rightarrow> (string \<times> entry) list \<Rightarrow> (string \<times> entry) list" where
  "gc_candidates t m =
     sort_key (\<lambda>(k, e). (retention_value e t, - int (t - last_touched e)))
       (filter (\<lambda>(k, e). gc_candidate t e) m)"

definition gc_selected :: "nat \<Rightarrow> (string \<times> entry) list \<Rightarrow> string list" where
  "gc_selected t m =
    (let cs = gc_candidates t m; over_target = length m - MAX_SUMMARY_ENTRIES in
     map (fst \<circ> snd)
       (filter (\<lambda>(i, k, e). i < over_target \<or> is_stale_by_policy e t) (enumerate 0 cs)))"

definition run_garbage_collection ::
  "'c env \<Rightarrow> nat \<Rightarrow> 'c runtime_state \<Rightarrow> nat \<times> 'c runtime_state" where
  "run_garbage_collection env t s =
    (let st = recompute_all t (rs_store s);
         selected = gc_selected t (entries st);
         removed = map subject (List.map_filter (map_of (entries st)) selected);
         s = s\<lparr>rs_store := st\<lparr>entries := foldl (\<lambda>m k. AList.delete k m) (entries st) selected\<rparr>\<rparr>;
         s = foldl (\<lambda>s k. emit_entry_removed env k s) s removed;
         s = foldl (\<lambda>s k. mark_subject_dirty env k s) s removed
     in (length removed, s))"

subsection \<open>Which entries are removed\<close>

text \<open>A candidate has outlived its class, so the selection below the target keeps it too.\<close>

lemma candidate_stale: "gc_candidate t e \<Longrightarrow> is_stale_by_policy e t"
  by (auto simp: gc_candidate_def is_stale_by_policy_def)

lemma set_gc_candidates: "set (gc_candidates t m) = {(k, e) \<in> set m. gc_candidate t e}"
  by (auto simp: gc_candidates_def)

lemma gc_selected_all: "gc_selected t m = map fst (gc_candidates t m)"
proof -
  have "filter (\<lambda>(i, k, e). i < n \<or> is_stale_by_policy e t) (enumerate 0 (gc_candidates t m)) =
      enumerate 0 (gc_candidates t m)" for n
  proof (rule filter_True, clarify)
    fix i k e assume mem: "(i, k, e) \<in> set (enumerate 0 (gc_candidates t m))"
      and no: "\<not> is_stale_by_policy e t"
    from mem have "snd (i, k, e) \<in> set (map snd (enumerate 0 (gc_candidates t m)))"
      unfolding set_map by (rule imageI)
    then have "(k, e) \<in> set (gc_candidates t m)" by simp
    with no show "i < n" by (auto simp: set_gc_candidates dest: candidate_stale)
  qed
  then show ?thesis by (simp add: gc_selected_def Let_def flip: map_map)
qed

lemma foldl_delete: "foldl (\<lambda>m k. AList.delete k m) m ks = filter (\<lambda>(k, v). k \<notin> set ks) m"
proof (induction ks arbitrary: m)
  case (Cons k ks)
  show ?case
    unfolding foldl.simps Cons.IH by (auto simp: AList.delete_eq intro!: filter_cong)
qed simp

lemma gc_entries:
  assumes "keys_distinct m"
  shows "foldl (\<lambda>m k. AList.delete k m) m (gc_selected t m) =
     filter (\<lambda>(k, e). \<not> gc_candidate t e) m"
proof -
  have "k \<in> set (gc_selected t m) \<longleftrightarrow> gc_candidate t e" if "(k, e) \<in> set m" for k e
    using that assms by (force simp: gc_selected_all set_gc_candidates keys_distinct_def
        dest: eq_key_imp_eq_value)
  then show ?thesis unfolding foldl_delete by (intro filter_cong) auto
qed

lemma gc_frame [simp]:
  "rs_store (foldl (\<lambda>s k. emit_entry_removed env k s) s ks) = rs_store s"
  "rs_store (foldl (\<lambda>s k. mark_subject_dirty env k s) s ks) = rs_store s"
  by (induction ks arbitrary: s) simp_all

text \<open>With keys that name their entries, recomputing everything is a map over the entries.\<close>

definition keys_name_entries :: "(string \<times> entry) list \<Rightarrow> bool" where
  "keys_name_entries m \<longleftrightarrow> keys_distinct m \<and> (\<forall>(k, e) \<in> set m. subject e = k)"

lemma recompute_foldl:
  "foldl (\<lambda>st k. recompute_subject st k t) st ks =
     st\<lparr>entries := foldl (\<lambda>m k. amodify k (recompute_entry (app_source_policies st) t) m)
          (entries st) ks\<rparr>"
  by (induction ks arbitrary: st) (simp_all add: recompute_subject_def)

lemma keys_of_entries:
  "keys_name_entries m \<Longrightarrow> map (subject \<circ> snd) m = map fst m"
  by (auto simp: keys_name_entries_def)

lemma recompute_all_map:
  assumes "keys_name_entries (entries st)"
  shows "recompute_all t st =
    st\<lparr>entries := map (\<lambda>(k, e). (k, recompute_entry (app_source_policies st) t e)) (entries st)\<rparr>"
  using assms
  by (simp add: recompute_all_def recompute_foldl keys_of_entries [OF assms] foldl_amodify
      keys_name_entries_def)

lemma gc_store:
  assumes "keys_name_entries (entries (rs_store s))"
  shows "entries (rs_store (snd (run_garbage_collection env t s))) =
    filter (\<lambda>(k, e). \<not> gc_candidate t e)
      (map (\<lambda>(k, e). (k, recompute_entry (app_source_policies (rs_store s)) t e))
        (entries (rs_store s)))"
proof -
  let ?m = "map (\<lambda>(k, e). (k, recompute_entry (app_source_policies (rs_store s)) t e))
    (entries (rs_store s))"
  have "keys_distinct ?m"
    using assms by (simp add: keys_distinct_def keys_name_entries_def del: map_map)
  from gc_entries [OF this] show ?thesis
    by (simp add: run_garbage_collection_def Let_def recompute_all_map [OF assms])
qed

end
