(* ===== verification/Reputation_Persist.thy ===== *)
theory Reputation_Persist
  imports Reputation_GC
begin

text \<open>
  Persistence of the reputation table. The user's encrypted directory (\<open>UserAuth\<close>'s
  \<open>read_user_encrypted\<close>, \<open>write_user_encrypted\<close>) is a map from file keys to decoded values; a
  write replaces a whole file (\<open>atomic_write\<close> renames a finished temporary file) or fails and
  leaves it as it was. Which accesses fail is the \<open>io\<close> argument: the error text for a key.
\<close>

definition REPUTATION_STORE_KEY :: string where "REPUTATION_STORE_KEY = ''reputation_state''"
definition REPUTATION_METADATA_KEY :: string where
  "REPUTATION_METADATA_KEY = ''reputation_metadata''"
definition REPUTATION_SHARD_KEY_PREFIX :: string where
  "REPUTATION_SHARD_KEY_PREFIX = ''reputation_shard''"

datatype stored =
    Stored_Metadata reputation_metadata | Stored_Shard reputation_shard | Stored_Store store

type_synonym disk = "(string \<times> stored) list"

record io =
  write_error :: "string \<Rightarrow> string option"
  read_error :: "string \<Rightarrow> string option"

definition write_user_encrypted :: "io \<Rightarrow> string \<Rightarrow> stored \<Rightarrow> disk \<Rightarrow> (rep_error + unit) \<times> disk" where
  "write_user_encrypted io key v d =
    (case write_error io key of
       Some e \<Rightarrow> (Inl (Persistence e), d)
     | None \<Rightarrow> (Inr (), AList.update key v d))"

definition read_user_encrypted :: "io \<Rightarrow> disk \<Rightarrow> string \<Rightarrow> rep_error + stored option" where
  "read_user_encrypted io d key =
    (case map_of d key of
       None \<Rightarrow> Inr None
     | Some v \<Rightarrow> (case read_error io key of Some e \<Rightarrow> Inl (Persistence e) | None \<Rightarrow> Inr (Some v)))"

subsection \<open>Shard keys\<close>

definition reputation_shard_key :: "nat \<Rightarrow> string" where
  "reputation_shard_key i = REPUTATION_SHARD_KEY_PREFIX @ ''_'' @ hex2 i"

lemma shard_key_inj:
  assumes "i < REPUTATION_SHARD_COUNT" "j < REPUTATION_SHARD_COUNT"
    and "reputation_shard_key i = reputation_shard_key j"
  shows "i = j"
  using assms hex2_inj [of i j] by (simp add: reputation_shard_key_def REPUTATION_SHARD_COUNT_def)

lemma shard_key_not_metadata [simp]:
  "reputation_shard_key i \<noteq> REPUTATION_METADATA_KEY"
  "REPUTATION_METADATA_KEY \<noteq> reputation_shard_key i"
  by (simp_all add: reputation_shard_key_def REPUTATION_METADATA_KEY_def
      REPUTATION_SHARD_KEY_PREFIX_def)

lemma shard_index_less [simp]: "reputation_shard_index env k < REPUTATION_SHARD_COUNT"
  by (simp add: reputation_shard_index_def REPUTATION_SHARD_COUNT_def)

subsection \<open>Writing\<close>

definition shard_of :: "'c env \<Rightarrow> nat \<Rightarrow> store \<Rightarrow> reputation_shard" where
  "shard_of env i st = filter (\<lambda>(k, _). reputation_shard_index env k = i) (entries st)"

fun write_shards ::
  "'c env \<Rightarrow> io \<Rightarrow> store \<Rightarrow> nat list \<Rightarrow> disk \<Rightarrow> (rep_error + unit) \<times> disk" where
  "write_shards env io st [] d = (Inr (), d)"
| "write_shards env io st (i # ix) d =
    (case write_user_encrypted io (reputation_shard_key i) (Stored_Shard (shard_of env i st)) d of
       (Inl e, d) \<Rightarrow> (Inl e, d)
     | (Inr _, d) \<Rightarrow> write_shards env io st ix d)"

definition persist_if_dirty ::
  "'c env \<Rightarrow> io \<Rightarrow> 'c runtime_state \<times> disk \<Rightarrow> (rep_error + unit) \<times> 'c runtime_state \<times> disk" where
  "persist_if_dirty env io sd =
    (case sd of (s, d) \<Rightarrow>
      if \<not> dirty_metadata s \<and> dirty_shards s = [] then (Inr (), s, d)
      else case write_shards env io (rs_store s) (dirty_shards s) d of
        (Inl e, d) \<Rightarrow> (Inl e, s, d)
      | (Inr _, d) \<Rightarrow>
         (let (r, d) =
            (if dirty_metadata s
             then write_user_encrypted io REPUTATION_METADATA_KEY
                    (Stored_Metadata (store_metadata (rs_store s))) d
             else (Inr (), d))
          in case r of
               Inl e \<Rightarrow> (Inl e, s, d)
             | Inr _ \<Rightarrow> (Inr (), s\<lparr>dirty_metadata := False, dirty_shards := []\<rparr>, d)))"

subsection \<open>Loading\<close>

fun load_shards :: "io \<Rightarrow> disk \<Rightarrow> nat list \<Rightarrow> (string \<times> entry) list \<Rightarrow>
    rep_error + (string \<times> entry) list" where
  "load_shards io d [] m = Inr m"
| "load_shards io d (i # ix) m =
    (case read_user_encrypted io d (reputation_shard_key i) of
       Inl e \<Rightarrow> Inl e
     | Inr None \<Rightarrow> load_shards io d ix m
     | Inr (Some (Stored_Shard sh)) \<Rightarrow>
         load_shards io d ix (foldl (\<lambda>m (k, e). AList.update k e m) m sh)
     | Inr (Some _) \<Rightarrow> Inl (Persistence ''serde''))"

definition load_legacy_store :: "io \<Rightarrow> disk \<Rightarrow> rep_error + store \<times> bool" where
  "load_legacy_store io d =
    (case read_user_encrypted io d REPUTATION_STORE_KEY of
       Inl e \<Rightarrow> Inl e
     | Inr None \<Rightarrow> Inr (store_default, False)
     | Inr (Some (Stored_Store st)) \<Rightarrow>
         if version st \<noteq> REPUTATION_STORE_VERSION then Inl (StoreVersionUnsupported (version st))
         else Inr (st, True)
     | Inr (Some _) \<Rightarrow> Inl (Persistence ''serde''))"

definition load_sharded_store :: "io \<Rightarrow> disk \<Rightarrow> rep_error + store \<times> bool" where
  "load_sharded_store io d =
    (case read_user_encrypted io d REPUTATION_METADATA_KEY of
       Inl e \<Rightarrow> Inl e
     | Inr None \<Rightarrow> load_legacy_store io d
     | Inr (Some (Stored_Metadata m)) \<Rightarrow>
         if m_version m \<noteq> REPUTATION_STORE_VERSION
         then Inl (StoreVersionUnsupported (m_version m))
         else (case load_shards io d [0..<REPUTATION_SHARD_COUNT] [] of
             Inl e \<Rightarrow> Inl e
           | Inr es \<Rightarrow> Inr
               (\<lparr>version = m_version m, next_observation_id = max (m_next_observation_id m) 1,
                 next_decision_id = max (m_next_decision_id m) 1, entries = es,
                 app_source_policies = m_app_source_policies m,
                 app_source_retractions = m_app_source_retractions m\<rparr>, False))
     | Inr (Some _) \<Rightarrow> Inl (Persistence ''serde''))"

definition max_or_0 :: "nat list \<Rightarrow> nat" where
  "max_or_0 xs = foldl max 0 xs"

definition repair_counters :: "store \<Rightarrow> store" where
  "repair_counters st =
    (let es = map snd (entries st);
         max_obs = max_or_0 (map obs_id (concat (map recent_observations es)));
         max_dec = max_or_0 (map dec_id (concat (map decisions es)))
     in st\<lparr>next_observation_id :=
             max (max (next_observation_id st) (sat_add u64_max max_obs 1)) 1,
           next_decision_id :=
             max (max (next_decision_id st) (sat_add u64_max max_dec 1)) 1\<rparr>)"

definition repair_loaded_store :: "nat \<Rightarrow> store \<Rightarrow> store" where
  "repair_loaded_store t st = recompute_all t (repair_counters st)"

subsection \<open>What a write leaves on disk\<close>

lemma write_shards_ok:
  assumes "set ix \<subseteq> {..<REPUTATION_SHARD_COUNT}"
    and "write_shards env io st ix d = (Inr u, d')"
  shows "(\<forall>i < REPUTATION_SHARD_COUNT. map_of d' (reputation_shard_key i) =
       (if i \<in> set ix then Some (Stored_Shard (shard_of env i st))
        else map_of d (reputation_shard_key i))) \<and>
     map_of d' REPUTATION_METADATA_KEY = map_of d REPUTATION_METADATA_KEY"
  using assms
proof (induction ix arbitrary: d)
  case (Cons i ix)
  let ?d = "AList.update (reputation_shard_key i) (Stored_Shard (shard_of env i st)) d"
  have "write_shards env io st ix ?d = (Inr u, d')"
    using Cons.prems(2) by (simp add: write_user_encrypted_def split: option.splits)
  from Cons.IH [OF _ this] Cons.prems(1) show ?case
    by (auto simp: store_simps dest: shard_key_inj)
qed simp

lemma persist_frame [simp]:
  "rs_store (fst (snd (persist_if_dirty env io (s, d)))) = rs_store s"
  "subscribers (fst (snd (persist_if_dirty env io (s, d)))) = subscribers s"
  by (simp_all add: persist_if_dirty_def Let_def split: prod.splits sum.splits)

lemma persist_error:
  "persist_if_dirty env io (s, d) = (Inl e, s', d') \<Longrightarrow> s' = s"
  by (auto simp: persist_if_dirty_def Let_def split: prod.splits sum.splits if_splits)

lemma persist_ok_clean:
  "persist_if_dirty env io (s, d) = (Inr u, s', d') \<Longrightarrow>
   s' = s\<lparr>dirty_metadata := False, dirty_shards := []\<rparr>"
  by (auto simp: persist_if_dirty_def Let_def split: prod.splits sum.splits if_splits)

lemma persist_metadata_split:
  assumes "persist_if_dirty env io (s, d) = (Inr u, s', d')"
    and "set (dirty_shards s) \<subseteq> {..<REPUTATION_SHARD_COUNT}"
  shows "(\<forall>i < REPUTATION_SHARD_COUNT. map_of d' (reputation_shard_key i) =
       (if i \<in> set (dirty_shards s) then Some (Stored_Shard (shard_of env i (rs_store s)))
        else map_of d (reputation_shard_key i))) \<and>
     map_of d' REPUTATION_METADATA_KEY =
       (if dirty_metadata s then Some (Stored_Metadata (store_metadata (rs_store s)))
        else map_of d REPUTATION_METADATA_KEY)"
proof (cases "\<not> dirty_metadata s \<and> dirty_shards s = []")
  case True
  with assms(1) show ?thesis by (simp add: persist_if_dirty_def)
next
  case False
  then obtain v d1 where w: "write_shards env io (rs_store s) (dirty_shards s) d = (Inr v, d1)"
    using assms(1) by (auto simp: persist_if_dirty_def split: prod.splits sum.splits)
  then have "d' = (if dirty_metadata s
      then AList.update REPUTATION_METADATA_KEY (Stored_Metadata (store_metadata (rs_store s))) d1
      else d1)"
    using False assms(1)
    by (auto simp: persist_if_dirty_def write_user_encrypted_def Let_def
        split: option.splits if_splits)
  with write_shards_ok [OF assms(2) w] show ?thesis by (simp add: store_simps)
qed

subsection \<open>Load repair\<close>

lemma foldl_max_ge: "x \<in> set xs \<or> x \<le> a \<Longrightarrow> x \<le> foldl max a xs" for x :: nat
  by (induction xs arbitrary: a) (auto simp: max_def)

lemma max_or_0_ge: "x \<in> set xs \<Longrightarrow> x \<le> max_or_0 xs"
  by (simp add: max_or_0_def foldl_max_ge)

lemma repair_counters_frame [simp]:
  "entries (repair_counters st) = entries st"
  "app_source_policies (repair_counters st) = app_source_policies st"
  "version (repair_counters st) = version st"
  by (simp_all add: repair_counters_def Let_def)

lemma repair_counters_above:
  assumes "(k, e) \<in> set (entries st)"
  shows "ob \<in> set (recent_observations e) \<Longrightarrow>
      u64_max \<le> next_observation_id (repair_counters st) \<or>
      obs_id ob < next_observation_id (repair_counters st)"
    and "dc \<in> set (decisions e) \<Longrightarrow>
      u64_max \<le> next_decision_id (repair_counters st) \<or>
      dec_id dc < next_decision_id (repair_counters st)"
proof -
  assume "ob \<in> set (recent_observations e)"
  with assms have "obs_id ob \<le>
      max_or_0 (map obs_id (concat (map recent_observations (map snd (entries st)))))"
    by (intro max_or_0_ge) force
  then show "u64_max \<le> next_observation_id (repair_counters st) \<or>
      obs_id ob < next_observation_id (repair_counters st)"
    by (auto simp: repair_counters_def Let_def sat_add_def)
next
  assume "dc \<in> set (decisions e)"
  with assms have "dec_id dc \<le>
      max_or_0 (map dec_id (concat (map decisions (map snd (entries st)))))"
    by (intro max_or_0_ge) force
  then show "u64_max \<le> next_decision_id (repair_counters st) \<or>
      dec_id dc < next_decision_id (repair_counters st)"
    by (auto simp: repair_counters_def Let_def sat_add_def)
qed

end
