(* ===== verification/Reputation_Commands.thy ===== *)
theory Reputation_Commands
  imports Reputation_Persist
begin

text \<open>
  The public handles of the reputation service, the commands they send, and the task that
  consumes them. A handle method is the command it sends, or the error it returns without
  sending one; a call is that followed by the task's answer. An event of the task is a
  command, the closing of its channel or a tick of the flush timer; every event comes with the
  environment (clock, channels, storage) in which it is handled.
\<close>

datatype command =
    SubmitObservation observation_provenance observation_input
  | RetractOwnObservation authority_id record_key observation_id
  | RetractAnyObservation record_key observation_id
  | RequestDecision authority_id record_key decision_action ban_scope string "nat option"
  | RevokeOwnDecision authority_id record_key decision_id
  | RevokeAnyDecision record_key decision_id
  | SetUserOverride record_key user_override_mode "string option"
  | ClearUserOverride record_key
  | GetView record_key "app_id option"
  | GetDossier record_key
  | GetAppSourceReport app_id
  | RetractAppSource app_id string
  | Subscribe "app_id option" subscription_filter
  | SetAppSourcePolicy app_id app_source_policy
  | DeleteAppSourceData app_id
  | RunGarbageCollection
  | Flush
  | Shutdown

datatype 'c reply =
    Re_Observation "rep_error + observation_id"
  | Re_Decision "rep_error + decision_id"
  | Re_Unit "rep_error + unit"
  | Re_View "rep_error + reputation_view"
  | Re_Dossier "rep_error + reputation_dossier"
  | Re_AppReport "rep_error + app_source_report"
  | Re_Retraction "rep_error + app_retraction_report"
  | Re_Subscription "rep_error + 'c"
  | Re_Count "rep_error + nat"

subsection \<open>What the handles send\<close>

definition send_observation ::
  "observation_provenance \<Rightarrow> observation_input \<Rightarrow> rep_error + command" where
  "send_observation src inp =
    (case details_validate (in_details inp) of
       Inl e \<Rightarrow> Inl e | Inr _ \<Rightarrow> Inr (SubmitObservation src inp))"

definition retract_own_observation ::
  "authority_id \<Rightarrow> record_key \<Rightarrow> observation_id \<Rightarrow> rep_error + command" where
  "retract_own_observation src k i = Inr (RetractOwnObservation src k i)"

definition request_decision ::
  "nat \<Rightarrow> authority_id \<Rightarrow> record_key \<Rightarrow> decision_action \<Rightarrow> ban_scope \<Rightarrow> string \<Rightarrow> nat option \<Rightarrow>
   rep_error + command" where
  "request_decision t src k act sc why exp =
    (if MAX_DESCRIPTION_BYTES < length why then Inl ReasonTooLong
     else if (case exp of None \<Rightarrow> False | Some x \<Rightarrow> x \<le> t) then Inl InvalidExpiry
     else Inr (RequestDecision src k act sc why exp))"

definition revoke_own_decision ::
  "authority_id \<Rightarrow> record_key \<Rightarrow> decision_id \<Rightarrow> rep_error + command" where
  "revoke_own_decision src k i = Inr (RevokeOwnDecision src k i)"

text \<open>An app's handle: its provenance is fixed when the daemon mints it.\<close>

datatype app_request =
    App_Submit observation_input | App_Retract record_key observation_id
  | App_RequestBan record_key ban_scope string "nat option"
  | App_RequestRestriction record_key ban_scope string "nat option"
  | App_Revoke record_key decision_id | App_GetView record_key
  | App_Subscribe subscription_filter | App_GetOwnSourceReport

definition authenticated_app_handle_with_session ::
  "app_id \<Rightarrow> string \<Rightarrow> nat \<Rightarrow> nat \<Rightarrow> app_id \<times> app_session_provenance" where
  "authenticated_app_handle_with_session a sid gen at =
     (a, \<lparr>session_id = sid, credential_generation = gen, authenticated_at = at\<rparr>)"

definition app_handle_send ::
  "nat \<Rightarrow> app_id \<times> app_session_provenance \<Rightarrow> app_request \<Rightarrow> rep_error + command" where
  "app_handle_send t h r =
    (case h of (a, sess) \<Rightarrow> (case r of
       App_Submit inp \<Rightarrow> send_observation (provenance_app a sess) inp
     | App_Retract k i \<Rightarrow> retract_own_observation (Auth_App a) k i
     | App_RequestBan k sc why exp \<Rightarrow> request_decision t (Auth_App a) k Ban sc why exp
     | App_RequestRestriction k sc why exp \<Rightarrow> request_decision t (Auth_App a) k Restrict sc why exp
     | App_Revoke k i \<Rightarrow> revoke_own_decision (Auth_App a) k i
     | App_GetView k \<Rightarrow> Inr (GetView k (Some a))
     | App_Subscribe f \<Rightarrow> Inr (Subscribe (Some a) f)
     | App_GetOwnSourceReport \<Rightarrow> Inr (GetAppSourceReport a)))"

datatype module_request =
    Mod_Submit observation_input | Mod_Retract record_key observation_id
  | Mod_RequestBan record_key ban_scope string "nat option"
  | Mod_RequestRestriction record_key ban_scope string "nat option"
  | Mod_Revoke record_key decision_id | Mod_GetView record_key
  | Mod_Subscribe subscription_filter

definition module_handle_send ::
  "nat \<Rightarrow> core_module_id \<Rightarrow> module_request \<Rightarrow> rep_error + command" where
  "module_handle_send t m r =
    (case r of
       Mod_Submit inp \<Rightarrow> send_observation (provenance_authority (Auth_CoreModule m)) inp
     | Mod_Retract k i \<Rightarrow> retract_own_observation (Auth_CoreModule m) k i
     | Mod_RequestBan k sc why exp \<Rightarrow> request_decision t (Auth_CoreModule m) k Ban sc why exp
     | Mod_RequestRestriction k sc why exp \<Rightarrow>
         request_decision t (Auth_CoreModule m) k Restrict sc why exp
     | Mod_Revoke k i \<Rightarrow> revoke_own_decision (Auth_CoreModule m) k i
     | Mod_GetView k \<Rightarrow> Inr (GetView k None)
     | Mod_Subscribe f \<Rightarrow> Inr (Subscribe None f))"

datatype user_request =
    User_Submit observation_input | User_Retract record_key observation_id
  | User_Ban record_key ban_scope string "nat option"
  | User_Restrict record_key ban_scope string "nat option"
  | User_Revoke record_key decision_id
  | User_SetOverride record_key user_override_mode "string option"
  | User_ClearOverride record_key
  | User_GetView record_key "app_id option" | User_GetDossier record_key
  | User_Subscribe subscription_filter "app_id option"

definition user_handle_send :: "nat \<Rightarrow> user_request \<Rightarrow> rep_error + command" where
  "user_handle_send t r =
    (case r of
       User_Submit inp \<Rightarrow> send_observation (provenance_authority Auth_User) inp
     | User_Retract k i \<Rightarrow> Inr (RetractAnyObservation k i)
     | User_Ban k sc why exp \<Rightarrow> request_decision t Auth_User k Ban sc why exp
     | User_Restrict k sc why exp \<Rightarrow> request_decision t Auth_User k Restrict sc why exp
     | User_Revoke k i \<Rightarrow> Inr (RevokeAnyDecision k i)
     | User_SetOverride k mode note \<Rightarrow>
         if (case note of None \<Rightarrow> False | Some text \<Rightarrow> MAX_DESCRIPTION_BYTES < length text)
         then Inl DescriptionTooLong else Inr (SetUserOverride k mode note)
     | User_ClearOverride k \<Rightarrow> Inr (ClearUserOverride k)
     | User_GetView k ctx \<Rightarrow> Inr (GetView k ctx)
     | User_GetDossier k \<Rightarrow> Inr (GetDossier k)
     | User_Subscribe f ctx \<Rightarrow> Inr (Subscribe ctx f))"

datatype user_admin_request =
    User_SetAppSourcePolicy app_id app_source_policy | User_DeleteAppSourceData app_id
  | User_GetAppSourceReport app_id | User_RetractAppSource app_id string
  | User_RunGarbageCollection | User_Flush

definition user_admin_send :: "user_admin_request \<Rightarrow> rep_error + command" where
  "user_admin_send r =
    (case r of
       User_SetAppSourcePolicy a p \<Rightarrow> Inr (SetAppSourcePolicy a p)
     | User_DeleteAppSourceData a \<Rightarrow> Inr (DeleteAppSourceData a)
     | User_GetAppSourceReport a \<Rightarrow> Inr (GetAppSourceReport a)
     | User_RetractAppSource a why \<Rightarrow>
         if MAX_DESCRIPTION_BYTES < length why then Inl ReasonTooLong
         else Inr (RetractAppSource a why)
     | User_RunGarbageCollection \<Rightarrow> Inr RunGarbageCollection
     | User_Flush \<Rightarrow> Inr Flush)"

subsection \<open>The task\<close>

text \<open>\<open>result.and_then(|x| { persist_if_dirty(..)?; Ok(x) })\<close>.\<close>

definition and_then_persist ::
  "'c env \<Rightarrow> io \<Rightarrow> (rep_error + 'a) \<times> 'c runtime_state \<Rightarrow> disk \<Rightarrow>
   (rep_error + 'a) \<times> 'c runtime_state \<times> disk" where
  "and_then_persist env io rs d =
    (case rs of
       (Inl e, s) \<Rightarrow> (Inl e, s, d)
     | (Inr x, s) \<Rightarrow> (case persist_if_dirty env io (s, d) of
         (Inl e, sd) \<Rightarrow> (Inl e, sd)
       | (Inr _, sd) \<Rightarrow> (Inr x, sd)))"

definition handle_submit ::
  "'c env \<Rightarrow> io \<Rightarrow> observation_provenance \<Rightarrow> observation_input \<Rightarrow> 'c runtime_state \<Rightarrow> disk \<Rightarrow>
   (rep_error + observation_id) \<times> 'c runtime_state \<times> disk" where
  "handle_submit env io src inp s d =
    (case submit_observation env src inp s of
       (Inl e, s) \<Rightarrow> (Inl e, s, d)
     | (Inr (i, banned), s) \<Rightarrow>
         if banned then and_then_persist env io (Inr i, s) d else (Inr i, s, d))"

definition handle_subscribe ::
  "'c env \<Rightarrow> app_id option \<Rightarrow> subscription_filter \<Rightarrow> 'c runtime_state \<Rightarrow> 'c runtime_state" where
  "handle_subscribe env ctx f s =
     s\<lparr>subscribers := subscribers s @
         [\<lparr>sub_subjects = f_subjects f, sub_events = f_events f,
           sub_minimum_suspicion = f_minimum_suspicion f, sub_app_context = ctx,
           sub_tx = new_channel env\<rparr>]\<rparr>"

definition replying ::
  "(('a \<Rightarrow> 'c reply) \<times> ('a \<times> 'c runtime_state \<times> disk)) \<Rightarrow> 'c reply \<times> 'c runtime_state \<times> disk" where
  "replying fr = (case fr of (f, r, s, d) \<Rightarrow> (f r, s, d))"

definition handle_command ::
  "'c env \<Rightarrow> io \<Rightarrow> command \<Rightarrow> 'c runtime_state \<times> disk \<Rightarrow> 'c reply \<times> 'c runtime_state \<times> disk" where
  "handle_command env io c sd =
    (case sd of (s, d) \<Rightarrow> (case c of
       SubmitObservation src inp \<Rightarrow> replying (Re_Observation, handle_submit env io src inp s d)
     | RetractOwnObservation src k i \<Rightarrow>
         replying (Re_Unit, and_then_persist env io (retract_observation env k i (Some src) s) d)
     | RetractAnyObservation k i \<Rightarrow>
         replying (Re_Unit, and_then_persist env io (retract_observation env k i None s) d)
     | RequestDecision src k act sc why exp \<Rightarrow>
         replying (Re_Decision,
           and_then_persist env io (create_decision env src k act sc why exp s) d)
     | RevokeOwnDecision src k i \<Rightarrow>
         replying (Re_Unit, and_then_persist env io (revoke_decision env k i (Some src) s) d)
     | RevokeAnyDecision k i \<Rightarrow>
         replying (Re_Unit, and_then_persist env io (revoke_decision env k i None s) d)
     | SetUserOverride k mode note \<Rightarrow>
         replying (Re_Unit, and_then_persist env io (set_user_override env k mode note s) d)
     | ClearUserOverride k \<Rightarrow>
         replying (Re_Unit, and_then_persist env io (clear_user_override env k s) d)
     | GetView k ctx \<Rightarrow> (Re_View (build_view (rs_store s) (now env) k ctx), s, d)
     | GetDossier k \<Rightarrow> (Re_Dossier (build_dossier (rs_store s) k), s, d)
     | GetAppSourceReport a \<Rightarrow> (Re_AppReport (Inr (get_app_source_report s a)), s, d)
     | RetractAppSource a why \<Rightarrow>
         replying (Re_Retraction, and_then_persist env io (retract_app_source env a why s) d)
     | Subscribe ctx f \<Rightarrow>
         (Re_Subscription (Inr (new_channel env)), handle_subscribe env ctx f s, d)
     | SetAppSourcePolicy a p \<Rightarrow>
         replying (Re_Unit, and_then_persist env io (set_app_source_policy env a p s) d)
     | DeleteAppSourceData a \<Rightarrow>
         replying (Re_Count, and_then_persist env io (delete_app_source_data env a s) d)
     | RunGarbageCollection \<Rightarrow>
         replying (Re_Count,
           and_then_persist env io (case run_garbage_collection env (now env) s of
             (n, s) \<Rightarrow> (Inr n, s)) d)
     | Flush \<Rightarrow> replying (Re_Unit, persist_if_dirty env io (s, d))
     | Shutdown \<Rightarrow> replying (Re_Unit, persist_if_dirty env io (s, d))))"

definition error_message :: "rep_error \<Rightarrow> string" where
  "error_message e =
    (case e of
       ChannelClosed \<Rightarrow> ''reputation service channel closed''
     | InvalidAppId \<Rightarrow> ''invalid app id''
     | InvalidModuleId \<Rightarrow> ''invalid core-module id''
     | DescriptionTooLong \<Rightarrow> ''observation description is too long''
     | ReasonTooLong \<Rightarrow> ''decision reason is too long''
     | InvalidExpiry \<Rightarrow> ''decision expiry must be in the future''
     | PermissionDenied \<Rightarrow> ''operation is not permitted for this authority''
     | EntryNotFound \<Rightarrow> ''reputation entry not found''
     | ObservationNotFoundOrCompacted \<Rightarrow>
         ''observation was not found or has already been compacted into historical data''
     | DecisionNotFound \<Rightarrow> ''reputation decision not found''
     | StoreVersionUnsupported v \<Rightarrow> ''unsupported reputation store version '' @ show_nat v
     | Persistence m \<Rightarrow> ''reputation persistence error: '' @ m)"

record 'c task =
  tk_state :: "'c runtime_state"
  tk_disk :: disk
  tk_exited :: bool

definition start_task ::
  "nat \<Rightarrow> store \<Rightarrow> bool \<Rightarrow> disk \<Rightarrow> 'c task" where
  "start_task t st migrate d =
    (let s = \<lparr>rs_store = repair_loaded_store t st, subscribers = [], dirty_metadata = migrate,
              dirty_shards = [], periodic_persist_retry_after = 0,
              last_periodic_persist_error = None\<rparr>
     in \<lparr>tk_state = (if migrate then mark_all_shards_dirty s else s), tk_disk = d,
         tk_exited = False\<rparr>)"

definition spawn :: "nat \<Rightarrow> io \<Rightarrow> disk \<Rightarrow> rep_error + 'c task" where
  "spawn t io d =
    (case load_sharded_store io d of
       Inl e \<Rightarrow> Inl e | Inr (st, migrate) \<Rightarrow> Inr (start_task t st migrate d))"

definition flush_tick :: "'c env \<Rightarrow> io \<Rightarrow> 'c runtime_state \<times> disk \<Rightarrow> 'c runtime_state \<times> disk" where
  "flush_tick env io sd =
    (case sd of (s, d) \<Rightarrow>
      if now env < periodic_persist_retry_after s then (s, d)
      else case persist_if_dirty env io (s, d) of
        (Inr _, s, d) \<Rightarrow>
          (s\<lparr>periodic_persist_retry_after := 0, last_periodic_persist_error := None\<rparr>, d)
      | (Inl e, s, d) \<Rightarrow>
          (s\<lparr>last_periodic_persist_error := Some (error_message e),
             periodic_persist_retry_after := sat_add u64_max (now env) 60\<rparr>, d))"

datatype task_event = Ev_Command command | Ev_Channel_Closed | Ev_Tick

definition reputation_step :: "'c task \<Rightarrow> 'c env \<times> io \<times> task_event \<Rightarrow> 'c task" where
  "reputation_step tk ev =
    (case ev of (env, io, e) \<Rightarrow>
      if tk_exited tk then tk
      else case e of
        Ev_Command c \<Rightarrow> (case handle_command env io c (tk_state tk, tk_disk tk) of
          (_, s, d) \<Rightarrow> \<lparr>tk_state = s, tk_disk = d, tk_exited = (c = Shutdown)\<rparr>)
      | Ev_Channel_Closed \<Rightarrow> (case persist_if_dirty env io (tk_state tk, tk_disk tk) of
          (_, s, d) \<Rightarrow> \<lparr>tk_state = s, tk_disk = d, tk_exited = True\<rparr>)
      | Ev_Tick \<Rightarrow> (case flush_tick env io (tk_state tk, tk_disk tk) of
          (s, d) \<Rightarrow> tk\<lparr>tk_state := s, tk_disk := d\<rparr>))"

definition reputation_task :: "'c task \<Rightarrow> ('c env \<times> io \<times> task_event) list \<Rightarrow> 'c task" where
  "reputation_task tk evs = foldl reputation_step tk evs"

text \<open>A call through a handle: its own checks, then the task's answer or a closed channel.\<close>

definition closed_reply :: "command \<Rightarrow> 'c reply" where
  "closed_reply c =
    (case c of
       SubmitObservation _ _ \<Rightarrow> Re_Observation (Inl ChannelClosed)
     | RequestDecision _ _ _ _ _ _ \<Rightarrow> Re_Decision (Inl ChannelClosed)
     | GetView _ _ \<Rightarrow> Re_View (Inl ChannelClosed)
     | GetDossier _ \<Rightarrow> Re_Dossier (Inl ChannelClosed)
     | GetAppSourceReport _ \<Rightarrow> Re_AppReport (Inl ChannelClosed)
     | RetractAppSource _ _ \<Rightarrow> Re_Retraction (Inl ChannelClosed)
     | Subscribe _ _ \<Rightarrow> Re_Subscription (Inl ChannelClosed)
     | DeleteAppSourceData _ \<Rightarrow> Re_Count (Inl ChannelClosed)
     | RunGarbageCollection \<Rightarrow> Re_Count (Inl ChannelClosed)
     | _ \<Rightarrow> Re_Unit (Inl ChannelClosed))"

definition call :: "'c env \<Rightarrow> io \<Rightarrow> rep_error + command \<Rightarrow> 'c task \<Rightarrow> (rep_error + 'c reply) \<times> 'c task"
  where
  "call env io req tk =
    (case req of
       Inl e \<Rightarrow> (Inl e, tk)
     | Inr c \<Rightarrow>
        if tk_exited tk then (Inr (closed_reply c), tk)
        else (Inr (fst (handle_command env io c (tk_state tk, tk_disk tk))),
              reputation_step tk (env, io, Ev_Command c)))"

end
