(* ===== verification/Reputation_Invariant.thy ===== *)
theory Reputation_Invariant
  imports Reputation_Commands
begin

text \<open>
  The invariant of the reputation service. Of every entry: it is filed under its own subject,
  its identifiers are below the counters and distinct (until a counter saturates), it retains
  at most 64 observations and at most the quota of each source, and a decision of an app has
  that app's scope. Every operation keeps it, so every run of the task does.
\<close>

named_theorems entry_ok_intros "operations that keep an entry well-formed"

definition id_fresh :: "nat \<Rightarrow> nat \<Rightarrow> bool" where
  "id_fresh n i \<longleftrightarrow> u64_max \<le> n \<or> i < n"

definition bump_id :: "nat \<Rightarrow> nat" where
  "bump_id n = max 1 (sat_add u64_max n 1)"

lemma bump_id_fresh: "id_fresh n i \<Longrightarrow> id_fresh (bump_id n) i" "id_fresh (bump_id n) n"
  by (auto simp: id_fresh_def bump_id_def sat_add_def)

lemma bump_id_saturated: "bump_id n < u64_max \<Longrightarrow> n < u64_max"
  by (auto simp: bump_id_def sat_add_def)

definition observations_ok :: "nat \<Rightarrow> record_key \<Rightarrow> observation list \<Rightarrow> bool" where
  "observations_ok n k obs \<longleftrightarrow>
     (\<forall>ob \<in> set obs. obs_subject ob = k \<and> id_fresh n (obs_id ob)) \<and>
     (n < u64_max \<longrightarrow> distinct (map obs_id obs)) \<and>
     length obs \<le> MAX_RECENT_OBSERVATIONS_PER_NODE \<and>
     (\<forall>src. length (filter (\<lambda>ob. obs_source ob = src) obs) \<le>
        recent_observation_limit_for_source src)"

definition decision_scoped :: "decision \<Rightarrow> bool" where
  "decision_scoped d =
     (case dec_source d of Auth_App a \<Rightarrow> effective_scope d = Scope_App a
      | Auth_User \<Rightarrow> True | Auth_CoreModule _ \<Rightarrow> True)"

definition decisions_ok :: "nat \<Rightarrow> record_key \<Rightarrow> decision list \<Rightarrow> bool" where
  "decisions_ok n k ds \<longleftrightarrow>
     (\<forall>d \<in> set ds. dec_subject d = k \<and> id_fresh n (dec_id d) \<and> decision_scoped d) \<and>
     (n < u64_max \<longrightarrow> distinct (map dec_id ds))"

definition entry_ok :: "nat \<Rightarrow> nat \<Rightarrow> record_key \<Rightarrow> entry \<Rightarrow> bool" where
  "entry_ok no nd k e \<longleftrightarrow>
     subject e = k \<and> keys_distinct (historical_by_source e) \<and>
     observations_ok no k (recent_observations e) \<and> decisions_ok nd k (decisions e)"

definition store_ok :: "store \<Rightarrow> bool" where
  "store_ok st \<longleftrightarrow>
     keys_distinct (entries st) \<and> version st = REPUTATION_STORE_VERSION \<and>
     1 \<le> next_observation_id st \<and> 1 \<le> next_decision_id st \<and>
     (\<forall>(k, e) \<in> set (entries st).
        entry_ok (next_observation_id st) (next_decision_id st) k e)"

definition runtime_ok :: "'c runtime_state \<Rightarrow> bool" where
  "runtime_ok s \<longleftrightarrow>
     store_ok (rs_store s) \<and> set (dirty_shards s) \<subseteq> {..<REPUTATION_SHARD_COUNT}"

subsection \<open>Lists of observations and decisions\<close>

lemma observations_ok_remove: "observations_ok n k (ys @ ob # zs) \<Longrightarrow> observations_ok n k (ys @ zs)"
  unfolding observations_ok_def
  by (auto elim!: allE intro: le_trans [rotated])

lemma observations_ok_bump: "observations_ok n k obs \<Longrightarrow> observations_ok (bump_id n) k obs"
  by (auto simp: observations_ok_def bump_id_fresh dest: bump_id_saturated)

lemma observations_ok_snoc:
  assumes "observations_ok n k obs" "obs_id ob = n" "obs_subject ob = k"
    and "length obs < MAX_RECENT_OBSERVATIONS_PER_NODE"
    and "length (filter (\<lambda>x. obs_source x = obs_source ob) obs) <
      recent_observation_limit_for_source (obs_source ob)"
  shows "observations_ok (bump_id n) k (obs @ [ob])"
proof -
  have "n < u64_max \<Longrightarrow> n \<notin> obs_id ` set obs"
    using assms(1) by (auto simp: observations_ok_def id_fresh_def)
  with assms show ?thesis
    by (auto simp: observations_ok_def bump_id_fresh dest: bump_id_saturated)
qed

text \<open>Only the identifier, subject and source of an observation matter to the invariant.\<close>

definition obs_ident :: "observation \<Rightarrow> nat \<times> record_key \<times> authority_id" where
  "obs_ident ob = (obs_id ob, obs_subject ob, obs_source ob)"

lemma observations_ok_ident:
  "observations_ok n k obs \<longleftrightarrow>
     (\<forall>(i, s, _) \<in> set (map obs_ident obs). s = k \<and> id_fresh n i) \<and>
     (n < u64_max \<longrightarrow> distinct (map fst (map obs_ident obs))) \<and>
     length (map obs_ident obs) \<le> MAX_RECENT_OBSERVATIONS_PER_NODE \<and>
     (\<forall>src. length (filter (\<lambda>(_, _, s). s = src) (map obs_ident obs)) \<le>
        recent_observation_limit_for_source src)"
proof -
  have "length (filter (\<lambda>(_, _, s). s = src) (map obs_ident obs)) =
      length (filter (\<lambda>ob. obs_source ob = src) obs)" for src
    by (simp add: filter_map comp_def obs_ident_def)
  then show ?thesis by (simp add: observations_ok_def obs_ident_def comp_def)
qed

lemma observations_ok_cong:
  "map obs_ident obs' = map obs_ident obs \<Longrightarrow> observations_ok n k obs' = observations_ok n k obs"
  by (simp only: observations_ok_ident)

definition dec_ident :: "decision \<Rightarrow> nat \<times> record_key \<times> bool" where
  "dec_ident d = (dec_id d, dec_subject d, decision_scoped d)"

lemma decisions_ok_ident:
  "decisions_ok n k ds \<longleftrightarrow>
     (\<forall>(i, s, b) \<in> set (map dec_ident ds). s = k \<and> id_fresh n i \<and> b) \<and>
     (n < u64_max \<longrightarrow> distinct (map fst (map dec_ident ds)))"
  by (simp add: decisions_ok_def dec_ident_def comp_def)

lemma decisions_ok_cong:
  "map dec_ident ds' = map dec_ident ds \<Longrightarrow> decisions_ok n k ds' = decisions_ok n k ds"
  by (simp only: decisions_ok_ident)

lemma decisions_ok_bump: "decisions_ok n k ds \<Longrightarrow> decisions_ok (bump_id n) k ds"
  by (auto simp: decisions_ok_def bump_id_fresh dest: bump_id_saturated)

lemma decisions_ok_snoc:
  assumes "decisions_ok n k ds" "dec_id d = n" "dec_subject d = k" "decision_scoped d"
  shows "decisions_ok (bump_id n) k (ds @ [d])"
proof -
  have "n < u64_max \<Longrightarrow> n \<notin> dec_id ` set ds"
    using assms(1) by (auto simp: decisions_ok_def id_fresh_def)
  with assms show ?thesis
    by (auto simp: decisions_ok_def bump_id_fresh dest: bump_id_saturated)
qed

subsection \<open>Entries\<close>

lemma entry_ok_new [entry_ok_intros]: "entry_ok no nd k (entry_new k t)"
  by (simp add: entry_ok_def entry_new_def observations_ok_def decisions_ok_def)

lemma entry_ok_bump_obs: "entry_ok no nd k e \<Longrightarrow> entry_ok (bump_id no) nd k e"
  by (simp add: entry_ok_def observations_ok_bump)

lemma entry_ok_bump_dec: "entry_ok no nd k e \<Longrightarrow> entry_ok no (bump_id nd) k e"
  by (simp add: entry_ok_def decisions_ok_bump)

lemma entry_ok_compacts:
  "compacts e e' \<Longrightarrow> entry_ok no nd k e \<Longrightarrow> entry_ok no nd k e'"
proof (induction rule: compacts.induct)
  case (compacts_step e ys ob zs e')
  then have "observations_ok no k (ys @ zs)"
    by (auto simp: entry_ok_def intro: observations_ok_remove)
  with compacts_step show ?case by (simp add: entry_ok_def fold_keys_distinct)
qed

lemma entry_ok_expire: "entry_ok no nd k e \<Longrightarrow> entry_ok no nd k (expire_decisions e t)"
proof -
  have "map dec_ident (decisions (expire_decisions e t)) = map dec_ident (decisions e)"
    by (auto simp: expire_decisions_def dec_ident_def decision_scoped_def
        split: authority_id.splits)
  then show "entry_ok no nd k e \<Longrightarrow> ?thesis" by (simp add: entry_ok_def cong: decisions_ok_cong)
qed

lemma entry_ok_cong:
  assumes "subject e' = subject e" "historical_by_source e' = historical_by_source e"
    and "map obs_ident (recent_observations e') = map obs_ident (recent_observations e)"
    and "map dec_ident (decisions e') = map dec_ident (decisions e)"
  shows "entry_ok no nd k e' = entry_ok no nd k e"
  using observations_ok_cong [OF assms(3)] decisions_ok_cong [OF assms(4)] assms(1,2)
  by (simp add: entry_ok_def)

lemma entry_ok_recompute [entry_ok_intros]:
  assumes "entry_ok no nd k e"
  shows "entry_ok no nd k (recompute_entry pol t e)"
proof -
  let ?c = "compact_recent_observations (expire_decisions e t) t"
  have "entry_ok no nd k ?c"
    unfolding compact_recent_observations_def
    by (rule entry_ok_compacts [OF compact_before_compacts entry_ok_expire [OF assms]])
  moreover have "decisions (recompute_entry pol t e) = decisions ?c"
    "subject (recompute_entry pol t e) = subject ?c"
    by (simp_all add: recompute_entry_def Let_def split: prod.splits)
  ultimately show ?thesis
    using entry_ok_cong [of "recompute_entry pol t e" ?c] by (simp add: recompute_entry_evidence)
qed

lemma entry_ok_submit [entry_ok_intros]:
  assumes "entry_ok no nd k e" "obs_id ob = no" "obs_subject ob = k"
  shows "entry_ok (bump_id no) nd k (submit_entry ob t e)"
proof -
  define e1 where "e1 = compact_source_observation_quota (compact_recent_observations e t)
    (obs_source ob)"
  define e2 where "e2 = compact_to_capacity e1"
  have "entry_ok no nd k e1"
    unfolding e1_def compact_recent_observations_def
    by (intro entry_ok_compacts [OF compact_quota_compacts]
        entry_ok_compacts [OF compact_before_compacts] assms(1))
  then have ok: "entry_ok no nd k e2"
    unfolding e2_def by (rule entry_ok_compacts [OF compact_capacity_compacts])
  have quota: "source_count (obs_source ob) e2 <
      recent_observation_limit_for_source (obs_source ob)"
    using compacts_source_count [OF compact_capacity_compacts [of e1], of "obs_source ob"]
      quota_established [of "obs_source ob" "compact_recent_observations e t"]
    unfolding e2_def e1_def by linarith
  have "observations_ok (bump_id no) k (recent_observations e2 @ [ob])"
    using ok quota assms(2,3) capacity_established [of e1]
    by (intro observations_ok_snoc) (auto simp: entry_ok_def source_count_def e2_def)
  with ok show ?thesis by (simp add: submit_entry_def Let_def entry_ok_def e2_def e1_def)
qed

subsection \<open>Stores\<close>

lemma store_ok_iff:
  "store_ok st \<longleftrightarrow>
     keys_distinct (entries st) \<and> version st = REPUTATION_STORE_VERSION \<and>
     1 \<le> next_observation_id st \<and> 1 \<le> next_decision_id st \<and>
     (\<forall>k e. map_of (entries st) k = Some e \<longrightarrow>
        entry_ok (next_observation_id st) (next_decision_id st) k e)"
  by (auto simp: store_ok_def in_set_iff_map_of)

lemma store_ok_default: "store_ok store_default"
  by (simp add: store_ok_def store_default_def)

lemma take_observation_bump:
  "take_observation_id st =
     (next_observation_id st, st\<lparr>next_observation_id := bump_id (next_observation_id st)\<rparr>)"
  by (simp add: take_observation_id_def bump_id_def)

lemma take_decision_bump:
  "take_decision_id st =
     (next_decision_id st, st\<lparr>next_decision_id := bump_id (next_decision_id st)\<rparr>)"
  by (simp add: take_decision_id_def bump_id_def)

lemma bump_id_pos [simp]: "Suc 0 \<le> bump_id n" "0 < bump_id n"
  by (simp_all add: bump_id_def)

lemma store_ok_keys: "store_ok st \<Longrightarrow> keys_name_entries (entries st)"
  by (auto simp: store_ok_def keys_name_entries_def entry_ok_def)

lemma store_ok_modify:
  assumes "store_ok st"
    and "\<And>e. entry_ok (next_observation_id st) (next_decision_id st) k e \<Longrightarrow>
      entry_ok (next_observation_id st) (next_decision_id st) k (f e)"
  shows "store_ok (st\<lparr>entries := amodify k f (entries st)\<rparr>)"
    and "store_ok (st\<lparr>entries := amodify k f (or_insert k (entry_new k t) (entries st))\<rparr>)"
  using assms by (auto simp: store_ok_iff store_simps entry_ok_new split: option.splits if_splits)

lemma store_ok_recompute: "store_ok st \<Longrightarrow> store_ok (recompute_subject st k t)"
  unfolding recompute_subject_def by (rule store_ok_modify) (auto intro: entry_ok_intros)

lemma store_ok_recompute_all: "store_ok st \<Longrightarrow> store_ok (recompute_all t st)"
proof -
  have "store_ok st \<Longrightarrow> store_ok (foldl (\<lambda>st k. recompute_subject st k t) st ks)" for ks
    by (induction ks arbitrary: st) (simp_all add: store_ok_recompute)
  then show "store_ok st \<Longrightarrow> ?thesis" by (simp add: recompute_all_def)
qed

text \<open>A decision filed under its subject with the next identifier.\<close>

lemma store_ok_add_decision:
  assumes "store_ok st" "dec_id d = next_decision_id st" "dec_subject d = k" "decision_scoped d"
    and "\<And>e. historical_by_source (f e) = historical_by_source e \<and> subject (f e) = subject e \<and>
      recent_observations (f e) = recent_observations e \<and> decisions (f e) = decisions e @ [d]"
  shows "store_ok (st\<lparr>next_decision_id := bump_id (next_decision_id st),
      entries := amodify k f (entries st)\<rparr>)"
    and "store_ok (st\<lparr>next_decision_id := bump_id (next_decision_id st),
      entries := amodify k f (or_insert k (entry_new k t) (entries st))\<rparr>)"
proof -
  let ?no = "next_observation_id st" and ?nd = "next_decision_id st"
  have f: "entry_ok ?no (bump_id ?nd) k (f e)" if "entry_ok ?no ?nd k e" for e
    using that assms(2-5) decisions_ok_snoc [of ?nd k "decisions e" d] by (simp add: entry_ok_def)
  show "store_ok (st\<lparr>next_decision_id := bump_id (next_decision_id st),
      entries := amodify k f (entries st)\<rparr>)"
    using assms(1) f
    by (auto simp: store_ok_iff store_simps intro: entry_ok_bump_dec split: if_splits)
  show "store_ok (st\<lparr>next_decision_id := bump_id (next_decision_id st),
      entries := amodify k f (or_insert k (entry_new k t) (entries st))\<rparr>)"
    using assms(1) f
    by (auto simp: store_ok_iff store_simps entry_ok_new intro: entry_ok_bump_dec
        split: if_splits option.splits)
qed

lemma store_ok_ensure_ban:
  assumes "store_ok st"
  shows "store_ok (snd (ensure_automatic_integrity_ban st k t))"
proof (cases "fst (ensure_automatic_integrity_ban st k t)")
  case True
  with assms show ?thesis
    by (auto simp: ensure_automatic_integrity_ban_def take_decision_bump decision_scoped_def
        classifier_authority_def intro!: store_ok_add_decision split: option.splits if_splits)
next
  case False
  with assms show ?thesis
    by (auto simp: ensure_automatic_integrity_ban_def take_decision_bump
        split: option.splits if_splits)
qed

lemma store_ok_record:
  assumes "store_ok st" "obs_id ob = next_observation_id st" "obs_subject ob = k"
  shows "store_ok (st\<lparr>next_observation_id := bump_id (next_observation_id st),
      entries := amodify k (submit_entry ob t) (or_insert k (entry_new k t) (entries st))\<rparr>)"
  using assms
  by (auto simp: store_ok_iff store_simps intro: entry_ok_bump_obs entry_ok_intros
      split: option.splits if_splits)

subsection \<open>Operations\<close>

named_theorems runtime_ok_intros "operations that keep the runtime state well-formed"

lemma runtime_ok_store: "runtime_ok s \<Longrightarrow> store_ok (rs_store s)"
  by (simp add: runtime_ok_def)

lemma runtime_ok_set_store:
  "runtime_ok s \<Longrightarrow> store_ok st \<Longrightarrow> runtime_ok (s\<lparr>rs_store := st\<rparr>)"
  by (simp add: runtime_ok_def)

lemma runtime_ok_marks [simp]:
  "runtime_ok (mark_metadata_dirty s) = runtime_ok s"
  "runtime_ok (emit_notice env k kind s) = runtime_ok s"
  "runtime_ok (emit_entry_removed env k s) = runtime_ok s"
  "runtime_ok (s\<lparr>subscribers := subs\<rparr>) = runtime_ok s"
  "runtime_ok (s\<lparr>periodic_persist_retry_after := n\<rparr>) = runtime_ok s"
  "runtime_ok (s\<lparr>last_periodic_persist_error := r\<rparr>) = runtime_ok s"
  by (simp_all add: runtime_ok_def mark_metadata_dirty_def)

lemma runtime_ok_mark_subject [simp]: "runtime_ok s \<Longrightarrow> runtime_ok (mark_subject_dirty env k s)"
proof -
  have "reputation_shard_index env k < REPUTATION_SHARD_COUNT" by simp
  then show "runtime_ok s \<Longrightarrow> ?thesis" by (simp add: runtime_ok_def mark_subject_dirty_def)
qed

lemma runtime_ok_submit [runtime_ok_intros]:
  assumes "runtime_ok s"
  shows "runtime_ok (snd (submit_observation env prov inp s))"
proof (cases "details_validate (in_details inp)")
  case (Inr u)
  let ?k = "in_subject inp"
  define st where "st = (rs_store s)\<lparr>next_observation_id := bump_id (next_observation_id (rs_store s)),
    entries := amodify ?k
      (submit_entry (recorded_observation (next_observation_id (rs_store s)) (now env) prov inp)
        (now env))
      (or_insert ?k (entry_new ?k (now env)) (entries (rs_store s)))\<rparr>"
  have "store_ok st"
    unfolding st_def
    by (rule store_ok_record [OF runtime_ok_store [OF assms]])
      (simp_all add: recorded_observation_def)
  then have ok: "store_ok (recompute_subject (snd (ensure_automatic_integrity_ban st ?k (now env)))
      ?k (now env))"
    by (intro store_ok_recompute store_ok_ensure_ban)
  obtain b st' where e: "ensure_automatic_integrity_ban st ?k (now env) = (b, st')" by force
  then have "runtime_ok (s\<lparr>rs_store := recompute_subject st' ?k (now env)\<rparr>)"
    using ok assms by (simp add: runtime_ok_set_store)
  with Inr e show ?thesis
    by (simp add: submit_observation_def take_observation_bump Let_def flip: st_def)
qed (use assms in \<open>simp add: submit_observation_def\<close>)

lemma store_ok_replace:
  assumes "store_ok st" "map_of (entries st) k = Some e"
    and "subject e' = subject e" "historical_by_source e' = historical_by_source e"
    and "map obs_ident (recent_observations e') = map obs_ident (recent_observations e)"
    and "map dec_ident (decisions e') = map dec_ident (decisions e)"
  shows "store_ok (st\<lparr>entries := amodify k (\<lambda>_. e') (entries st)\<rparr>)"
proof -
  have "entry_ok (next_observation_id st) (next_decision_id st) k e"
    using assms(1,2) by (simp add: store_ok_iff)
  then have "entry_ok (next_observation_id st) (next_decision_id st) k e'"
    using entry_ok_cong [OF assms(3-6)] by simp
  with assms(1) show ?thesis by (intro store_ok_modify)
qed

lemma runtime_ok_retract_observation [runtime_ok_intros]:
  assumes "runtime_ok s"
  shows "runtime_ok (snd (retract_observation env k i src s))"
proof -
  have "map obs_ident (update_first p (\<lambda>ob. ob\<lparr>retracted_at := x\<rparr>) obs) = map obs_ident obs"
    for p x obs by (rule map_update_first) (simp add: obs_ident_def)
  then have "store_ok ((rs_store s)\<lparr>entries := amodify k (\<lambda>_. e\<lparr>recent_observations :=
      update_first p (\<lambda>ob. ob\<lparr>retracted_at := x\<rparr>) (recent_observations e), last_touched := t\<rparr>)
      (entries (rs_store s))\<rparr>)" if "map_of (entries (rs_store s)) k = Some e" for e p x t
    using that by (intro store_ok_replace [OF runtime_ok_store [OF assms]]) simp_all
  with assms show ?thesis
    by (auto simp: retract_observation_def Let_def
        intro!: runtime_ok_set_store store_ok_recompute runtime_ok_mark_subject
        split: option.splits)
qed

lemma runtime_ok_revoke_decision [runtime_ok_intros]:
  assumes "runtime_ok s"
  shows "runtime_ok (snd (revoke_decision env k i src s))"
proof -
  have "map dec_ident (update_first p (\<lambda>d. d\<lparr>status := x, revoked_at := y\<rparr>) ds) = map dec_ident ds"
    for p x y ds
    by (rule map_update_first) (simp add: dec_ident_def decision_scoped_def split: authority_id.split)
  then have "store_ok ((rs_store s)\<lparr>entries := amodify k (\<lambda>_. e\<lparr>decisions :=
      update_first p (\<lambda>d. d\<lparr>status := x, revoked_at := y\<rparr>) (decisions e), last_touched := t\<rparr>)
      (entries (rs_store s))\<rparr>)" if "map_of (entries (rs_store s)) k = Some e" for e p x y t
    using that by (intro store_ok_replace [OF runtime_ok_store [OF assms]]) simp_all
  with assms show ?thesis
    by (auto simp: revoke_decision_def Let_def
        intro!: runtime_ok_set_store store_ok_recompute runtime_ok_mark_subject
        split: option.splits)
qed

lemma runtime_ok_create_decision [runtime_ok_intros]:
  assumes "runtime_ok s"
  shows "runtime_ok (snd (create_decision env src k act sc why exp s))"
proof -
  have "decision_scoped \<lparr>dec_id = i, dec_subject = k, dec_source = src, dec_action = act,
      requested_scope = sc, effective_scope = effective_scope_for_source src sc, reason = why,
      created_at = t, expires_at = exp, status = st, revoked_at = None\<rparr>" for i t st
    by (simp add: decision_scoped_def effective_scope_for_source_def split: authority_id.split)
  with assms show ?thesis
    by (auto simp: create_decision_def take_decision_bump Let_def
        intro!: runtime_ok_set_store store_ok_recompute runtime_ok_mark_subject
          store_ok_add_decision(2) runtime_ok_store
        split: sum.splits option.splits)
qed

lemma runtime_ok_set_override [runtime_ok_intros]:
  assumes "runtime_ok s"
  shows "runtime_ok (snd (set_user_override env k mode note s))"
proof -
  have "store_ok ((rs_store s)\<lparr>entries := amodify k
      (\<lambda>e. e\<lparr>user_override := u, last_touched := now env\<rparr>)
      (or_insert k (entry_new k (now env)) (entries (rs_store s)))\<rparr>)" for u
    by (rule store_ok_modify(2) [OF runtime_ok_store [OF assms]]) (simp add: entry_ok_def)
  with assms show ?thesis
    by (auto simp: set_user_override_def Let_def
        intro!: runtime_ok_set_store store_ok_recompute runtime_ok_mark_subject
        split: option.splits)
qed

lemma runtime_ok_clear_override [runtime_ok_intros]:
  assumes "runtime_ok s"
  shows "runtime_ok (snd (clear_user_override env k s))"
proof -
  have "store_ok ((rs_store s)\<lparr>entries := amodify k
      (\<lambda>e. e\<lparr>user_override := None, last_touched := now env\<rparr>) (entries (rs_store s))\<rparr>)"
    by (rule store_ok_modify(1) [OF runtime_ok_store [OF assms]]) (simp add: entry_ok_def)
  with assms show ?thesis
    by (auto simp: clear_user_override_def Let_def
        intro!: runtime_ok_set_store store_ok_recompute runtime_ok_mark_subject
        split: option.splits)
qed

lemma retract_source_parts:
  "subject (fst (retract_source_entry src t e)) = subject e"
  "summary (fst (retract_source_entry src t e)) = summary e"
  "user_override (fst (retract_source_entry src t e)) = user_override e"
  "recent_observations (fst (retract_source_entry src t e)) =
     map (\<lambda>ob. if obs_source ob = src \<and> retracted_at ob = None
               then ob\<lparr>retracted_at := Some t\<rparr> else ob) (recent_observations e)"
  "decisions (fst (retract_source_entry src t e)) =
     map (\<lambda>d. if dec_source d = src \<and> status d = Active
              then d\<lparr>status := Revoked, revoked_at := Some t\<rparr> else d) (decisions e)"
  by (simp_all add: retract_source_entry_def Let_def split: option.splits prod.splits)

lemma retract_source_history:
  "historical_by_source (fst (retract_source_entry src t e)) =
     amodify src (\<lambda>h. snd (retract_active t h)) (historical_by_source e)"
  by (simp add: retract_source_entry_def Let_def amodify_def split: option.splits prod.splits)

lemma entry_ok_retract_source [entry_ok_intros]:
  assumes "entry_ok no nd k e"
  shows "entry_ok no nd k (fst (retract_source_entry src t e))"
proof -
  have "map obs_ident (recent_observations (fst (retract_source_entry src t e))) =
      map obs_ident (recent_observations e)"
    by (simp add: retract_source_parts obs_ident_def)
  note obs = observations_ok_cong [OF this]
  have "map dec_ident (decisions (fst (retract_source_entry src t e))) =
      map dec_ident (decisions e)"
    by (auto simp: retract_source_parts dec_ident_def decision_scoped_def
        split: authority_id.split)
  note dec = decisions_ok_cong [OF this]
  show ?thesis
    using assms by (simp add: entry_ok_def obs dec retract_source_history)
      (simp add: retract_source_parts)
qed

lemma store_ok_map:
  assumes "store_ok st"
    and "\<And>k e. entry_ok (next_observation_id st) (next_decision_id st) k e \<Longrightarrow>
      entry_ok (next_observation_id st) (next_decision_id st) k (f e)"
  shows "store_ok (st\<lparr>entries := map (\<lambda>(k, e). (k, f e)) (entries st)\<rparr>)"
  using assms by (auto simp: store_ok_iff map_of_map_vals keys_distinct_def simp del: map_map)

lemma store_ok_frame [simp]:
  "store_ok (st\<lparr>app_source_policies := p\<rparr>) = store_ok st"
  "store_ok (st\<lparr>app_source_retractions := r\<rparr>) = store_ok st"
  by (simp_all add: store_ok_def)

lemma runtime_ok_recompute_each:
  assumes "runtime_ok s" and "\<And>s k. runtime_ok s \<Longrightarrow> runtime_ok (g k s)"
  shows "runtime_ok (foldl (\<lambda>s k. g k s) s ks)"
  using assms by (induction ks arbitrary: s) simp_all

lemma runtime_ok_retract_app [runtime_ok_intros]:
  assumes "runtime_ok s"
  shows "runtime_ok (snd (retract_app_source env a why s))"
proof (cases "MAX_DESCRIPTION_BYTES < length why")
  case False
  have "store_ok ((rs_store s)\<lparr>entries := map (\<lambda>(k, e). (k, fst (retract_source_entry (Auth_App a)
      (now env) e))) (entries (rs_store s)), app_source_retractions := r\<rparr>)" for r
    using store_ok_map [OF runtime_ok_store [OF assms],
        where f = "\<lambda>e. fst (retract_source_entry (Auth_App a) (now env) e)"]
    by (simp add: store_ok_def entry_ok_retract_source)
  note this [unfolded case_prod_beta]
  then show ?thesis
    using assms False
    by (auto simp: retract_app_source_def Let_def comp_def case_prod_beta
        intro!: runtime_ok_recompute_each runtime_ok_set_store store_ok_recompute
          runtime_ok_mark_subject runtime_ok_store)
qed (use assms in \<open>simp add: retract_app_source_def\<close>)

lemma runtime_ok_set_policy [runtime_ok_intros]:
  "runtime_ok s \<Longrightarrow> runtime_ok (snd (set_app_source_policy env a p s))"
  by (auto simp: set_app_source_policy_def Let_def
      intro!: runtime_ok_recompute_each runtime_ok_set_store store_ok_recompute runtime_ok_store)

lemma runtime_ok_delete_app [runtime_ok_intros]:
  assumes "runtime_ok s"
  shows "runtime_ok (snd (delete_app_source_data env a s))"
  using runtime_ok_retract_app [OF assms, of env a
      "''Legacy delete request converted to provenance-preserving retraction''"]
  by (auto simp: delete_app_source_data_def Let_def
      intro!: runtime_ok_set_store runtime_ok_store split: prod.splits sum.splits)

lemma runtime_ok_gc [runtime_ok_intros]:
  assumes "runtime_ok s"
  shows "runtime_ok (snd (run_garbage_collection env t s))"
proof -
  let ?st = "recompute_all t (rs_store s)"
  have ok: "store_ok ?st" by (intro store_ok_recompute_all runtime_ok_store assms)
  then have "store_ok (?st\<lparr>entries := filter (\<lambda>(k, e). \<not> gc_candidate t e) (entries ?st)\<rparr>)"
    by (auto simp: store_ok_def)
  with ok have "store_ok (?st\<lparr>entries := foldl (\<lambda>m k. AList.delete k m) (entries ?st)
      (gc_selected t (entries ?st))\<rparr>)"
    by (simp add: gc_entries store_ok_def)
  with assms show ?thesis
    by (auto simp: run_garbage_collection_def Let_def
        intro!: runtime_ok_recompute_each runtime_ok_set_store)
qed

subsection \<open>The task\<close>

lemma runtime_ok_persist [simp]:
  assumes "runtime_ok s"
  shows "runtime_ok (fst (snd (persist_if_dirty env io (s, d))))"
proof (cases "persist_if_dirty env io (s, d)")
  case (fields r s' d')
  then show ?thesis
    using assms persist_error [of env io s d _ s' d'] persist_ok_clean [of env io s d _ s' d']
    by (cases r) (auto simp: runtime_ok_def)
qed

lemma runtime_ok_persisted:
  "persist_if_dirty env io (s, d) = (r, s', d') \<Longrightarrow> runtime_ok s \<Longrightarrow> runtime_ok s'"
  using runtime_ok_persist [of s env io d] by simp

lemma runtime_ok_and_then:
  "runtime_ok (snd rs) \<Longrightarrow> runtime_ok (fst (snd (and_then_persist env io rs d)))"
  by (auto simp: and_then_persist_def split: prod.splits sum.splits dest: runtime_ok_persisted)

lemma runtime_ok_replying: "fst (snd (replying (f, x))) = fst (snd x)"
  by (simp add: replying_def split: prod.split)

lemma runtime_ok_handle_submit:
  assumes "runtime_ok s"
  shows "runtime_ok (fst (snd (handle_submit env io src inp s d)))"
proof (cases "submit_observation env src inp s")
  case (Pair r s')
  with runtime_ok_submit [OF assms, of env src inp] have "runtime_ok s'" by simp
  with Pair show ?thesis
    by (auto simp: handle_submit_def runtime_ok_and_then split: sum.split)
qed

lemma runtime_ok_handle:
  assumes "runtime_ok s"
  shows "runtime_ok (fst (snd (handle_command env io c (s, d))))"
proof -
  obtain n s' where gc: "run_garbage_collection env (now env) s = (n, s')" by force
  with runtime_ok_gc [OF assms, of env "now env"] have "runtime_ok s'" by simp
  with assms gc show ?thesis
    by (cases c) (simp_all add: handle_command_def runtime_ok_replying runtime_ok_and_then
        runtime_ok_handle_submit runtime_ok_intros handle_subscribe_def)
qed

lemma runtime_ok_tick:
  assumes "runtime_ok s"
  shows "runtime_ok (fst (flush_tick env io (s, d)))"
  using assms
  by (auto simp: flush_tick_def split: prod.splits sum.splits dest: runtime_ok_persisted)

definition task_ok :: "'c task \<Rightarrow> bool" where
  "task_ok tk = runtime_ok (tk_state tk)"

lemma task_ok_step: "task_ok tk \<Longrightarrow> task_ok (reputation_step tk ev)"
  using runtime_ok_handle [of "tk_state tk"] runtime_ok_tick [of "tk_state tk"]
  by (auto simp: task_ok_def reputation_step_def split: prod.splits task_event.splits
      dest: runtime_ok_persisted) (metis fst_conv snd_conv)+

interpretation reputation: invariant_machine reputation_step task_ok
  by unfold_locales (rule task_ok_step)

text \<open>
  What a table read from disk must satisfy for the task to start well. Nothing is asked of the
  counters: the load repair moves them above every identifier in use.
\<close>

definition loaded_ok :: "store \<Rightarrow> bool" where
  "loaded_ok st \<longleftrightarrow>
     keys_distinct (entries st) \<and> version st = REPUTATION_STORE_VERSION \<and>
     (\<forall>(k, e) \<in> set (entries st). entry_ok u64_max u64_max k e \<and>
        distinct (map obs_id (recent_observations e)) \<and> distinct (map dec_id (decisions e)))"

lemma repair_counters_pos [simp]:
  "Suc 0 \<le> next_observation_id (repair_counters st)"
  "Suc 0 \<le> next_decision_id (repair_counters st)"
  by (simp_all add: repair_counters_def Let_def)

lemma store_ok_repaired:
  assumes "loaded_ok st"
  shows "store_ok (repair_counters st)"
proof -
  let ?r = "repair_counters st"
  have "entry_ok (next_observation_id ?r) (next_decision_id ?r) k e"
    if "(k, e) \<in> set (entries st)" for k e
  proof -
    have "entry_ok u64_max u64_max k e" "distinct (map obs_id (recent_observations e))"
      "distinct (map dec_id (decisions e))"
      using assms that by (auto simp: loaded_ok_def)
    with repair_counters_above [OF that] show ?thesis
      by (simp add: entry_ok_def observations_ok_def decisions_ok_def id_fresh_def)
  qed
  with assms show ?thesis by (auto simp: store_ok_def loaded_ok_def)
qed

lemma mark_all_shards [simp]:
  "set (dirty_shards (mark_all_shards_dirty s)) =
     set (dirty_shards s) \<union> {..<REPUTATION_SHARD_COUNT}"
proof -
  have "set (foldl (\<lambda>ds i. List.insert i ds) ds ix) = set ds \<union> set ix" for ds ix :: "nat list"
    by (induction ix arbitrary: ds) auto
  then show ?thesis by (auto simp: mark_all_shards_dirty_def)
qed

lemma task_ok_start: "loaded_ok st \<Longrightarrow> task_ok (start_task t st migrate d)"
  using store_ok_recompute_all [OF store_ok_repaired]
  by (simp add: task_ok_def start_task_def runtime_ok_def repair_loaded_store_def Let_def)

lemma loaded_ok_default: "loaded_ok store_default"
  by (simp add: loaded_ok_def store_default_def)

lemma task_ok_run: "task_ok tk \<Longrightarrow> task_ok (reputation_task tk evs)"
  unfolding reputation_task_def by (rule reputation.run_inv)

end
