(* ===== verification/Reputation_Security.thy ===== *)
theory Reputation_Security
  imports Reputation_Invariant
begin

text \<open>
  Who can block whom, and how far the reports of one source go: the authority of network
  bans, the bounds on retained evidence and on the influence of apps, and the automatic ban
  for protocol tampering. The lemmas before a property carry its proof.
\<close>

subsection \<open>Access levels of a view\<close>

lemma decided_network_Blocked:
  "fst (decided_access st t e ctx) = Blocked \<longleftrightarrow>
     user_override e = None \<and>
     (\<exists>d \<in> set (decisions e). dec_active_at t d \<and> source_enabled st (dec_source d) \<and>
        is_network_ban d)"
  by (auto simp: decided_access_def Let_def fold_network_access
      split: prod.split option.split user_override_mode.split)
    (metis (mono_tags) fst_conv fold_network_access mem_Collect_eq set_filter initial_not_Blocked)+

lemma view_network_access:
  "build_view st t k ctx = Inr v \<Longrightarrow>
   network_access v = (case map_of (entries st) k of None \<Rightarrow> Restricted
     | Some e \<Rightarrow> fst (decided_access st t e ctx))"
  by (auto simp: build_view_def Let_def split: option.splits prod.splits)

lemma entry_of_ok:
  "store_ok st \<Longrightarrow> map_of (entries st) k = Some e \<Longrightarrow>
   entry_ok (next_observation_id st) (next_decision_id st) k e"
  by (simp add: store_ok_iff)

lemma reached_entry:
  assumes "loaded_ok st" "tk = reputation_task (start_task t0 st migrate d) evs"
    and "map_of (entries (rs_store (tk_state tk))) k = Some e"
  shows "\<exists>no nd. entry_ok no nd k e"
proof -
  have "task_ok tk" using assms(1,2) by (simp add: task_ok_run task_ok_start)
  then show ?thesis
    using assms(3) by (auto simp: task_ok_def runtime_ok_def dest: entry_of_ok)
qed

lemma scoped_network_ban: "decision_scoped d \<Longrightarrow> is_network_ban d \<Longrightarrow> \<not> is_app (dec_source d)"
  by (auto simp: decision_scoped_def is_network_ban_def is_app_def split: authority_id.splits)

text \<open>
  C1. However the service is driven, from whatever well-formed table
  it is started with, a view reports the subject as blocked from network interaction only when
  an unexpired ban of the user or of a core module covers it and the user has not overridden
  it. No request of an app, whatever scope it asks for, blocks anyone on the network.
\<close>

theorem app_cannot_block_network:
  assumes "loaded_ok st" and "tk = reputation_task (start_task t0 st migrate d) evs"
    and "build_view (rs_store (tk_state tk)) t k ctx = Inr v" and "network_access v = Blocked"
  shows "\<exists>e dec. map_of (entries (rs_store (tk_state tk))) k = Some e \<and>
     user_override e = None \<and> dec \<in> set (decisions e) \<and> dec_active_at t dec \<and>
     is_network_ban dec \<and> \<not> is_app (dec_source dec)"
proof -
  obtain e where e: "map_of (entries (rs_store (tk_state tk))) k = Some e"
    and b: "fst (decided_access (rs_store (tk_state tk)) t e ctx) = Blocked"
    using view_network_access [OF assms(3)] assms(4) by (auto split: option.splits)
  from reached_entry [OF assms(1,2) e] have "\<forall>d \<in> set (decisions e). decision_scoped d"
    by (auto simp: entry_ok_def decisions_ok_def)
  with b e show ?thesis
    unfolding decided_network_Blocked by (blast dest: scoped_network_ban)
qed

text \<open>
  C2. In every state the service reaches, an entry retains at most
  64 observations, and at most 16 of one app and 32 of any other source.
\<close>

theorem retained_evidence_bounded:
  assumes "loaded_ok st" and "tk = reputation_task (start_task t0 st migrate d) evs"
    and "map_of (entries (rs_store (tk_state tk))) k = Some e"
  shows "length (recent_observations e) \<le> 64 \<and>
    source_count (Auth_App a) e \<le> 16 \<and> source_count (Auth_CoreModule m) e \<le> 32 \<and>
    source_count Auth_User e \<le> 32"
proof -
  have "source_count src e \<le> recent_observation_limit_for_source src" for src
    using reached_entry [OF assms] by (auto simp: entry_ok_def observations_ok_def source_count_def)
  from this [of "Auth_App a"] this [of "Auth_CoreModule m"] this [of Auth_User] show ?thesis
    using reached_entry [OF assms]
    by (auto simp: entry_ok_def observations_ok_def MAX_RECENT_OBSERVATIONS_PER_NODE_def
        recent_observation_limit_for_source_def)
qed

subsection \<open>The influence of apps\<close>

definition sources_of :: "entry \<Rightarrow> authority_id set" where
  "sources_of e = obs_source ` set (recent_observations e) \<union> fst ` set (historical_by_source e)"

lemma compacts_sources: "compacts e e' \<Longrightarrow> sources_of e' = sources_of e"
proof (induction rule: compacts.induct)
  case (compacts_step e ys ob zs e')
  have "sources_of (fold_observation (e\<lparr>recent_observations := ys @ zs\<rparr>) ob) = sources_of e"
    using compacts_step(1) by (auto simp: sources_of_def fold_observation_def Let_def)
  with compacts_step show ?case by simp
qed simp

lemma axes_within_mono: "axes_within b d \<Longrightarrow> b \<le> c \<Longrightarrow> axes_within c d"
  by (auto simp: axes_within_def)

lemma evidence_within_sources: "evidence_sources en e \<subseteq> sources_of e"
  by (auto simp: evidence_sources_def sources_of_def)

lemma recompute_summary:
  obtains c tot where
    "c = compact_recent_observations (expire_decisions e t) t"
    "tot = fst (combine_sources (sum_sources (policy_enabled pol) c))"
    "summary (recompute_entry pol t e) =
       summary (recompute_entry pol t e)\<lparr>
         reliability := normalized_score (d_reliability tot),
         usefulness := normalized_score (d_usefulness tot),
         suspicion := normalized_score (d_suspicion tot),
         automation_likelihood := normalized_score (d_automation tot),
         sybil_likelihood := normalized_score (d_sybil tot),
         integrity_risk := normalized_score (d_integrity tot),
         abuse_risk := normalized_score (d_abuse tot),
         s_class := classify (\<exists>d \<in> set (active_enabled_decisions (policy_enabled pol) t c).
           is_network_ban d) tot\<rparr>"
  by (rule that [OF refl refl]) (simp add: recompute_entry_def Let_def split: prod.split)

lemma classify_small:
  assumes "axes_within 60 tot"
  shows "classify b tot \<in> {Class_New, NormalUser} \<union> (if b then {NetworkBanned} else {})"
proof -
  have n: "normalized_score x \<le> 60" if "\<bar>x\<bar> \<le> 60" for x
    using normalized_score_abs [OF that] by simp
  have "\<not> 140 \<le> normalized_score (d_integrity tot)" "\<not> 110 \<le> normalized_score (d_sybil tot)"
    "\<not> 110 \<le> normalized_score (d_abuse tot)" "\<not> 90 \<le> normalized_score (d_automation tot)"
    "\<not> 110 \<le> normalized_score (d_reliability tot)" "\<not> 70 \<le> normalized_score (d_reliability tot)"
    using n [of "d_integrity tot"] n [of "d_sybil tot"] n [of "d_abuse tot"]
      n [of "d_automation tot"] n [of "d_reliability tot"] assms
    unfolding axes_within_def by linarith+
  then show ?thesis by (simp add: classify_def Let_def)
qed

definition scores_at_most :: "nat \<Rightarrow> reputation_summary \<Rightarrow> bool" where
  "scores_at_most c s \<longleftrightarrow>
     reliability s \<le> c \<and> usefulness s \<le> c \<and> suspicion s \<le> c \<and> automation_likelihood s \<le> c \<and>
     sybil_likelihood s \<le> c \<and> integrity_risk s \<le> c \<and> abuse_risk s \<le> c"

text \<open>What is known of a subject that only apps have reported.\<close>

lemma app_reports_bounded:
  assumes "sources_of e \<subseteq> Auth_App ` A" and "finite A"
  obtains b tot where "axes_within (60 * int (card A)) tot"
    "b \<longrightarrow> (\<exists>d \<in> set (decisions e). is_network_ban d)"
    "summary (recompute_entry pol t e) = summary (recompute_entry pol t e)\<lparr>
         reliability := normalized_score (d_reliability tot),
         usefulness := normalized_score (d_usefulness tot),
         suspicion := normalized_score (d_suspicion tot),
         automation_likelihood := normalized_score (d_automation tot),
         sybil_likelihood := normalized_score (d_sybil tot),
         integrity_risk := normalized_score (d_integrity tot),
         abuse_risk := normalized_score (d_abuse tot), s_class := classify b tot\<rparr>"
proof -
  obtain c tot where c: "c = compact_recent_observations (expire_decisions e t) t"
    and tot: "tot = fst (combine_sources (sum_sources (policy_enabled pol) c))"
    and s: "summary (recompute_entry pol t e) = summary (recompute_entry pol t e)\<lparr>
         reliability := normalized_score (d_reliability tot),
         usefulness := normalized_score (d_usefulness tot),
         suspicion := normalized_score (d_suspicion tot),
         automation_likelihood := normalized_score (d_automation tot),
         sybil_likelihood := normalized_score (d_sybil tot),
         integrity_risk := normalized_score (d_integrity tot),
         abuse_risk := normalized_score (d_abuse tot),
         s_class := classify (\<exists>d \<in> set (active_enabled_decisions (policy_enabled pol) t c).
           is_network_ban d) tot\<rparr>"
    by (rule recompute_summary)
  have cc: "compacts (expire_decisions e t) c"
    unfolding c compact_recent_observations_def by (rule compact_before_compacts)
  from cc have "sources_of c = sources_of e"
    by (simp add: compacts_sources) (simp add: sources_of_def)
  then have sub: "evidence_sources (policy_enabled pol) c \<subseteq> Auth_App ` A"
    using evidence_within_sources [of "policy_enabled pol" c] assms(1) by simp
  have "card (evidence_sources (policy_enabled pol) c) \<le> card (Auth_App ` A)"
    using assms(2) by (intro card_mono sub) simp
  also have "\<dots> \<le> card A" by (rule card_image_le [OF assms(2)])
  finally have cle: "card (evidence_sources (policy_enabled pol) c) \<le> card A" .
  have "\<forall>src \<in> evidence_sources (policy_enabled pol) c. is_app src"
    using sub by (auto simp: is_app_def)
  from axes_within_mono [OF apps_only_bound [OF this]] cle
  have w: "axes_within (60 * int (card A)) tot" by (simp add: tot)
  have "decisions c = decisions (expire_decisions e t)" using compacts_frame [OF cc] by simp
  then have ban: "(\<exists>d \<in> set (active_enabled_decisions (policy_enabled pol) t c). is_network_ban d) \<longrightarrow>
      (\<exists>d \<in> set (decisions e). is_network_ban d)"
    by (auto simp: active_enabled_decisions_def expire_decisions_def is_network_ban_def)
  show thesis by (rule that [OF w ban s])
qed

text \<open>
  C3. If everything known of a subject was reported by \<open>n\<close> apps, then
  after the summary is recomputed no score exceeds \<open>60 * n\<close>. With a single app the subject is
  therefore still new or a normal user, unless a network ban is in force: an app alone can
  neither praise a node into a trusted class nor accuse it into a suspicious one.
\<close>

theorem app_influence_bounded:
  assumes "sources_of e \<subseteq> Auth_App ` A" and "finite A"
  shows "scores_at_most (60 * card A) (summary (recompute_entry pol t e)) \<and>
    (card A = 1 \<longrightarrow> s_class (summary (recompute_entry pol t e))
       \<in> {Class_New, NormalUser} \<union>
         (if \<exists>d \<in> set (decisions e). is_network_ban d then {NetworkBanned} else {}))"
proof -
  obtain b tot where w: "axes_within (60 * int (card A)) tot"
    and ban: "b \<longrightarrow> (\<exists>d \<in> set (decisions e). is_network_ban d)"
    and s: "summary (recompute_entry pol t e) = summary (recompute_entry pol t e)\<lparr>
         reliability := normalized_score (d_reliability tot),
         usefulness := normalized_score (d_usefulness tot),
         suspicion := normalized_score (d_suspicion tot),
         automation_likelihood := normalized_score (d_automation tot),
         sybil_likelihood := normalized_score (d_sybil tot),
         integrity_risk := normalized_score (d_integrity tot),
         abuse_risk := normalized_score (d_abuse tot), s_class := classify b tot\<rparr>"
    by (rule app_reports_bounded [OF assms])
  have n: "normalized_score x \<le> 60 * card A" if "\<bar>x\<bar> \<le> 60 * int (card A)" for x
    using normalized_score_abs [OF that] by simp
  have "scores_at_most (60 * card A) (summary (recompute_entry pol t e))"
    using w by (subst s) (auto simp: scores_at_most_def axes_within_def intro!: n)
  moreover have "s_class (summary (recompute_entry pol t e)) \<in> {Class_New, NormalUser} \<union>
      (if \<exists>d \<in> set (decisions e). is_network_ban d then {NetworkBanned} else {})"
    if "card A = 1"
  proof -
    have "classify b tot \<in> {Class_New, NormalUser} \<union> (if b then {NetworkBanned} else {})"
      using w that by (intro classify_small) simp
    with ban show ?thesis by (subst s) (auto split: if_splits)
  qed
  ultimately show ?thesis by blast
qed

subsection \<open>The tampering counters\<close>

text \<open>A counter of a delta that saturates at \<open>u32_max\<close> when deltas are added.\<close>

definition tamper_counter :: "(score_delta \<Rightarrow> nat) \<Rightarrow> bool" where
  "tamper_counter pr \<longleftrightarrow>
     pr = impossible_protocol_events \<or> pr = invalid_signature_events \<or>
     pr = deliberate_corruption_events"

lemma tamper_counter_add: "tamper_counter pr \<Longrightarrow> pr (delta_add x y) = sat_add u32_max (pr x) (pr y)"
  by (auto simp: tamper_counter_def delta_add_def)

lemma tamper_counter_zero [simp]: "tamper_counter pr \<Longrightarrow> pr delta_zero = 0"
  by (auto simp: tamper_counter_def delta_zero_def)

definition is_core :: "authority_id \<Rightarrow> bool" where
  "is_core src = (case src of Auth_CoreModule _ \<Rightarrow> True | _ \<Rightarrow> False)"

definition core_history_sum :: "(score_delta \<Rightarrow> nat) \<Rightarrow> (authority_id \<times> historical_aggregate) list \<Rightarrow> nat"
  where
  "core_history_sum pr hs = sum_list (map (\<lambda>(src, a). if is_core src then pr (totals a) else 0) hs)"

definition core_recent_sum :: "(score_delta \<Rightarrow> nat) \<Rightarrow> observation list \<Rightarrow> nat" where
  "core_recent_sum pr obs = sum_list (map (\<lambda>ob. if obs_active ob \<and> is_core (obs_source ob)
      then pr (contribution_for (obs_source ob) (obs_kind ob)) else 0) obs)"

lemma sat_fold_history:
  "tamper_counter pr \<Longrightarrow> pr d0 \<le> u32_max \<Longrightarrow>
   pr (foldl (\<lambda>d (src, a). case src of Auth_CoreModule _ \<Rightarrow> delta_add d (totals a) | _ \<Rightarrow> d) d0 hs) =
     min u32_max (pr d0 + core_history_sum pr hs)"
proof (induction hs arbitrary: d0)
  case (Cons sa hs)
  obtain src a where sa: "sa = (src, a)" by (cases sa)
  let ?d = "case src of Auth_CoreModule _ \<Rightarrow> delta_add d0 (totals a) | _ \<Rightarrow> d0"
  have "pr ?d \<le> u32_max"
    using Cons.prems by (simp add: tamper_counter_add sat_add_def split: authority_id.split)
  from Cons.IH [OF Cons.prems(1) this] Cons.prems show ?case
    by (auto simp: sa core_history_sum_def is_core_def tamper_counter_add sat_add_def
        split: authority_id.splits)
qed (simp add: core_history_sum_def)

lemma sat_fold_recent:
  "tamper_counter pr \<Longrightarrow> pr d0 \<le> u32_max \<Longrightarrow>
   pr (foldl (\<lambda>d ob. if obs_active ob \<and>
          (case obs_source ob of Auth_CoreModule _ \<Rightarrow> True | _ \<Rightarrow> False)
        then delta_add d (contribution_for (obs_source ob) (obs_kind ob)) else d) d0 obs) =
     min u32_max (pr d0 + core_recent_sum pr obs)"
proof (induction obs arbitrary: d0)
  case (Cons ob obs)
  let ?c = "obs_active ob \<and> (case obs_source ob of Auth_CoreModule _ \<Rightarrow> True | _ \<Rightarrow> False)"
  let ?d = "if ?c then delta_add d0 (contribution_for (obs_source ob) (obs_kind ob)) else d0"
  have "pr ?d \<le> u32_max" using Cons.prems by (simp add: tamper_counter_add sat_add_def)
  from Cons.IH [OF Cons.prems(1) this] Cons.prems show ?case
    by (auto simp: core_recent_sum_def is_core_def tamper_counter_add sat_add_def
        split: authority_id.splits)
qed (simp add: core_recent_sum_def)

lemma core_counts_sum:
  assumes "tamper_counter pr"
  shows "pr (core_counts e) = min u32_max
    (core_history_sum pr (historical_by_source e) + core_recent_sum pr (recent_observations e))"
proof -
  have z: "pr delta_zero \<le> u32_max" using assms by simp
  note h = sat_fold_history [OF assms z, of "historical_by_source e"]
  show ?thesis
    unfolding core_counts_def
    by (subst sat_fold_recent [OF assms]) (use assms in \<open>simp_all add: h\<close>)
qed

lemma core_history_split:
  "keys_distinct hs \<Longrightarrow>
   core_history_sum pr hs =
     (case map_of hs src of Some a \<Rightarrow> if is_core src then pr (totals a) else 0 | None \<Rightarrow> 0) +
     core_history_sum pr (AList.delete src hs)"
proof (induction hs)
  case (Cons sa hs)
  obtain s a where sa: "sa = (s, a)" by (cases sa)
  have d: "keys_distinct hs" "s \<notin> fst ` set hs"
    using Cons.prems by (simp_all add: sa keys_distinct_def)
  show ?case
  proof (cases "s = src")
    case True
    then have "AList.delete src hs = hs" using d(2) by (simp add: delete_id)
    with True show ?thesis by (simp add: sa core_history_sum_def)
  next
    case False
    with Cons.IH [OF d(1)] show ?thesis by (simp add: sa core_history_sum_def)
  qed
qed (simp add: core_history_sum_def)

lemma delete_fold_observation:
  "AList.delete (obs_source ob) (historical_by_source (fold_observation e ob)) =
   AList.delete (obs_source ob) (historical_by_source e)"
  by (simp add: fold_observation_def Let_def amodify_def or_insert_def delete_update_same
      split: option.split)

lemma fold_core_sum:
  assumes "tamper_counter pr" "keys_distinct (historical_by_source e)"
    and "recent_observations e = ys @ ob # zs"
  shows "pr (core_counts (fold_observation (e\<lparr>recent_observations := ys @ zs\<rparr>) ob)) =
    pr (core_counts e)"
proof -
  let ?e = "fold_observation (e\<lparr>recent_observations := ys @ zs\<rparr>) ob"
  let ?c = "if obs_active ob \<and> is_core (obs_source ob)
    then pr (contribution_for (obs_source ob) (obs_kind ob)) else 0"
  let ?h = "case map_of (historical_by_source e) (obs_source ob) of
    Some a \<Rightarrow> if is_core (obs_source ob) then pr (totals a) else 0 | None \<Rightarrow> 0"
  let ?h' = "case map_of (historical_by_source ?e) (obs_source ob) of
    Some a \<Rightarrow> if is_core (obs_source ob) then pr (totals a) else 0 | None \<Rightarrow> 0"
  let ?rest = "core_history_sum pr (AList.delete (obs_source ob) (historical_by_source e))"
  have r: "core_recent_sum pr (recent_observations e) =
      core_recent_sum pr (recent_observations ?e) + ?c"
    by (simp add: assms(3) core_recent_sum_def)
  have h: "core_history_sum pr (historical_by_source e) = ?h + ?rest"
    by (rule core_history_split [OF assms(2)])
  have "keys_distinct (historical_by_source ?e)"
    using assms(2) by (simp add: fold_keys_distinct)
  from core_history_split [OF this, of pr "obs_source ob"]
  have h': "core_history_sum pr (historical_by_source ?e) = ?h' + ?rest"
    by (simp add: delete_fold_observation)
  have "?h' = ?h \<or> ?h' = min u32_max (?h + ?c)" "\<not> (obs_active ob \<and> is_core (obs_source ob)) \<Longrightarrow> ?h' = ?h"
    "obs_active ob \<and> is_core (obs_source ob) \<Longrightarrow> ?h' = min u32_max (?h + ?c)"
    using assms(1)
    by (auto simp: fold_observation_def Let_def store_simps obs_active_def tamper_counter_add
        sat_add_def aggregate_default_def split: option.splits)
  then show ?thesis
    by (auto simp: core_counts_sum [OF assms(1)] r h h' min_def)
qed

lemma compacts_core_counts:
  "compacts e e' \<Longrightarrow> keys_distinct (historical_by_source e) \<Longrightarrow> tamper_counter pr \<Longrightarrow>
   pr (core_counts e') = pr (core_counts e)"
  by (induction rule: compacts.induct) (simp_all add: fold_core_sum fold_keys_distinct)

lemma core_counts_cong:
  "recent_observations e' = recent_observations e \<Longrightarrow>
   historical_by_source e' = historical_by_source e \<Longrightarrow> core_counts e' = core_counts e"
  by (simp add: core_counts_def)

lemma core_counts_recompute:
  assumes "keys_distinct (historical_by_source e)" "tamper_counter pr"
  shows "pr (core_counts (recompute_entry pol t e)) = pr (core_counts e)"
proof -
  let ?c = "compact_recent_observations (expire_decisions e t) t"
  have "core_counts (recompute_entry pol t e) = core_counts ?c"
    by (rule core_counts_cong) (simp_all add: recompute_entry_evidence)
  moreover have "pr (core_counts ?c) = pr (core_counts (expire_decisions e t))"
    unfolding compact_recent_observations_def
    using assms by (intro compacts_core_counts compact_before_compacts) simp_all
  ultimately show ?thesis by (simp add: core_counts_cong [of "expire_decisions e t" e])
qed

lemma core_counts_snoc:
  assumes "tamper_counter pr"
  shows "pr (core_counts (c\<lparr>recent_observations := recent_observations c @ [ob],
      last_touched := t\<rparr>)) =
    min u32_max (pr (core_counts c) + (if obs_active ob \<and> is_core (obs_source ob)
      then pr (contribution_for (obs_source ob) (obs_kind ob)) else 0))"
  by (simp add: core_counts_sum [OF assms] core_recent_sum_def min_def)

text \<open>
  C4. Recording an observation adds exactly its own
  contribution to the counters of protocol tampering, whatever the three compaction loops
  fold away at the same time: evidence of a core module cannot be flushed out by flooding the
  entry with other observations. An app's observation contributes nothing.
\<close>

theorem tampering_counters_survive_compaction:
  assumes "entry_ok no nd k e" and "obs_active ob"
  shows "impossible_protocol_events (core_counts (submit_entry ob t e)) =
      min u32_max (impossible_protocol_events (core_counts e) +
        (if is_core (obs_source ob) \<and> obs_kind ob = ImpossibleProtocolState then 1 else 0)) \<and>
    invalid_signature_events (core_counts (submit_entry ob t e)) =
      min u32_max (invalid_signature_events (core_counts e) +
        (if is_core (obs_source ob) \<and> obs_kind ob = InvalidSignature then 1 else 0)) \<and>
    deliberate_corruption_events (core_counts (submit_entry ob t e)) =
      min u32_max (deliberate_corruption_events (core_counts e) +
        (if is_core (obs_source ob) \<and> obs_kind ob = DeliberateStateCorruption then 1 else 0))"
proof -
  let ?c = "compact_to_capacity (compact_source_observation_quota
    (compact_recent_observations e t) (obs_source ob))"
  have "compacts e ?c"
    unfolding compact_recent_observations_def by (blast intro: compacts_trans loops_compact)
  then have c: "pr (core_counts ?c) = pr (core_counts e)" if "tamper_counter pr" for pr
    using assms(1) that by (simp add: compacts_core_counts entry_ok_def)
  have "pr (core_counts (submit_entry ob t e)) = min u32_max (pr (core_counts e) +
      (if is_core (obs_source ob) then pr (contribution_for (obs_source ob) (obs_kind ob)) else 0))"
    if "tamper_counter pr" for pr
    using assms(2) c [OF that] by (simp add: submit_entry_def Let_def core_counts_snoc [OF that])
  from this [of impossible_protocol_events] this [of invalid_signature_events]
    this [of deliberate_corruption_events]
  show ?thesis
    by (auto simp: tamper_counter_def contribution_events is_core_def is_app_def
        split: authority_id.splits)
qed

lemma classifier_ban_recompute:
  "classifier_ban_active t (recompute_entry pol t e) = classifier_ban_active t e"
proof -
  have "classifier_ban_active t x \<longleftrightarrow> (\<exists>d \<in> set (filter (dec_active_at t) (decisions x)).
      dec_source d = classifier_authority \<and> is_network_ban d)" for x
    by (auto simp: classifier_ban_active_def)
  then show ?thesis
    by (simp only: recompute_entry_frame expire_active_at [OF order_refl])
qed

lemma thresholds_recompute:
  assumes "keys_distinct (historical_by_source e)"
  shows "integrity_thresholds_met (core_counts (recompute_entry pol t e)) =
    integrity_thresholds_met (core_counts e)"
  using core_counts_recompute [OF assms, of impossible_protocol_events]
    core_counts_recompute [OF assms, of invalid_signature_events]
    core_counts_recompute [OF assms, of deliberate_corruption_events]
  by (simp add: integrity_thresholds_met_def tamper_counter_def)

text \<open>What \<open>ensure_automatic_integrity_ban\<close> leaves of the entry it looks at.\<close>

lemma ensure_ban_entry:
  assumes "map_of (entries st) k = Some e"
  shows "\<exists>e'. map_of (entries (snd (ensure_automatic_integrity_ban st k t))) k = Some e' \<and>
    recent_observations e' = recent_observations e \<and>
    historical_by_source e' = historical_by_source e \<and> user_override e' = user_override e \<and>
    (integrity_thresholds_met (core_counts e) \<longrightarrow> classifier_ban_active t e')"
  using assms
  by (auto simp: ensure_automatic_integrity_ban_def take_decision_bump store_simps
      classifier_ban_active_def is_network_ban_def dec_active_at_def)

lemma submit_observation_cases:
  assumes "submit_observation env prov inp s = (Inr (i, b), s')"
  obtains st e where
    "entries st = amodify (in_subject inp)
       (submit_entry (recorded_observation i (now env) prov inp) (now env))
       (or_insert (in_subject inp) (entry_new (in_subject inp) (now env)) (entries (rs_store s)))"
    "app_source_policies st = app_source_policies (rs_store s)"
    "map_of (entries st) (in_subject inp) = Some e"
    "e = submit_entry (recorded_observation i (now env) prov inp) (now env)
       (case map_of (entries (rs_store s)) (in_subject inp) of
          None \<Rightarrow> entry_new (in_subject inp) (now env) | Some e0 \<Rightarrow> e0)"
    "i = next_observation_id (rs_store s)"
    "b = fst (ensure_automatic_integrity_ban st (in_subject inp) (now env))"
    "rs_store s' = recompute_subject (snd (ensure_automatic_integrity_ban st (in_subject inp)
       (now env))) (in_subject inp) (now env)"
proof -
  define st where "st = (rs_store s)\<lparr>next_observation_id := bump_id (next_observation_id (rs_store s)),
    entries := amodify (in_subject inp)
      (submit_entry (recorded_observation (next_observation_id (rs_store s)) (now env) prov inp)
        (now env))
      (or_insert (in_subject inp) (entry_new (in_subject inp) (now env)) (entries (rs_store s)))\<rparr>"
  obtain b1 st1 where e: "ensure_automatic_integrity_ban st (in_subject inp) (now env) = (b1, st1)"
    by force
  have "i = next_observation_id (rs_store s) \<and> b = b1 \<and>
      rs_store s' = recompute_subject st1 (in_subject inp) (now env)"
    using assms e
    by (auto simp: submit_observation_def take_observation_bump Let_def simp flip: st_def
        split: sum.splits if_splits)
  with e show ?thesis by (intro that [of st]) (simp_all add: st_def store_simps)
qed

text \<open>
  After an observation has been recorded, a subject whose core-module
  evidence reaches the tampering thresholds is under an active network ban of the classifier,
  and every view of it is blocked unless the user has overridden it. This holds as well when
  an earlier automatic ban was revoked: the next observation, from anyone, restores it.
\<close>

theorem tampering_is_banned:
  assumes "runtime_ok s" and "submit_observation env prov inp s = (Inr (i, b), s')"
    and "map_of (entries (rs_store s')) (in_subject inp) = Some e'"
    and "integrity_thresholds_met (core_counts e')"
  shows "classifier_ban_active (now env) e' \<and>
    (user_override e' = None \<longrightarrow>
      (\<exists>v. build_view (rs_store s') (now env) (in_subject inp) ctx = Inr v \<and>
        network_access v = Blocked))"
proof -
  obtain st e where st: "map_of (entries st) (in_subject inp) = Some e"
    and e: "e = submit_entry (recorded_observation i (now env) prov inp) (now env)
       (case map_of (entries (rs_store s)) (in_subject inp) of
          None \<Rightarrow> entry_new (in_subject inp) (now env) | Some e0 \<Rightarrow> e0)"
    and i: "i = next_observation_id (rs_store s)"
    and s': "rs_store s' = recompute_subject (snd (ensure_automatic_integrity_ban st
       (in_subject inp) (now env))) (in_subject inp) (now env)"
    by (rule submit_observation_cases [OF assms(2)])
  have "entry_ok i (next_decision_id (rs_store s)) (in_subject inp)
      (case map_of (entries (rs_store s)) (in_subject inp) of
          None \<Rightarrow> entry_new (in_subject inp) (now env) | Some e0 \<Rightarrow> e0)"
    using assms(1) unfolding i
    by (auto simp: runtime_ok_def entry_ok_new dest: entry_of_ok split: option.split)
  then have "entry_ok (bump_id i) (next_decision_id (rs_store s)) (in_subject inp) e"
    unfolding e by (rule entry_ok_submit) (simp_all add: recorded_observation_def)
  then have kd: "keys_distinct (historical_by_source e)" by (simp add: entry_ok_def)
  obtain e1 where e1: "map_of (entries (snd (ensure_automatic_integrity_ban st (in_subject inp)
      (now env)))) (in_subject inp) = Some e1"
    and same: "recent_observations e1 = recent_observations e"
      "historical_by_source e1 = historical_by_source e"
    and ban: "integrity_thresholds_met (core_counts e) \<longrightarrow> classifier_ban_active (now env) e1"
    using ensure_ban_entry [OF st] by blast
  obtain pol where e': "e' = recompute_entry pol (now env) e1"
    using assms(3) e1 by (auto simp: s' store_simps)
  have "integrity_thresholds_met (core_counts e)"
    using assms(4) kd same by (simp add: e' thresholds_recompute core_counts_cong [of e1 e])
  with ban have act: "classifier_ban_active (now env) e'"
    by (simp add: e' classifier_ban_recompute)
  have "\<exists>v. build_view (rs_store s') (now env) (in_subject inp) ctx = Inr v"
    by (simp add: build_view_def Let_def split: option.split prod.split)
  then obtain v where v: "build_view (rs_store s') (now env) (in_subject inp) ctx = Inr v" ..
  have "network_access v = Blocked" if "user_override e' = None"
  proof -
    from act obtain d where "d \<in> set (decisions e')" "dec_source d = classifier_authority"
      "is_network_ban d" "dec_active_at (now env) d"
      by (auto simp: classifier_ban_active_def)
    with that show ?thesis
      unfolding view_network_access [OF v] assms(3)
      by (auto simp: decided_network_Blocked source_enabled_def classifier_authority_def)
  qed
  with act v show ?thesis by blast
qed

end
