(* ===== verification/Reputation_Access.thy ===== *)
theory Reputation_Access
  imports Reputation_Security
begin

text \<open>
  What a view reports: exactly when it blocks the network or an app, the precedence of the
  user's override, and the bounds of the visibility weight.
\<close>

lemma fold_app_pair:
  "\<exists>net l'. foldl (apply_decision (Some a)) (net0, Some l) ds = (net, Some l') \<and>
     (l' = Blocked \<longleftrightarrow> l = Blocked \<or> (\<exists>d \<in> set ds. dec_action d = Ban \<and> covers_app a d))"
proof -
  obtain l' where l': "snd (foldl (apply_decision (Some a)) (net0, Some l) ds) = Some l'"
    "l' = Blocked \<longleftrightarrow> l = Blocked \<or> (\<exists>d \<in> set ds. dec_action d = Ban \<and> covers_app a d)"
    using fold_app_access [of a net0 l ds] by blast
  then have "foldl (apply_decision (Some a)) (net0, Some l) ds =
      (fst (foldl (apply_decision (Some a)) (net0, Some l) ds), Some l')"
    by (simp add: prod_eq_iff)
  with l'(2) show ?thesis by blast
qed

lemma decided_app_Blocked:
  "snd (decided_access st t e (Some a)) = Some Blocked \<longleftrightarrow>
     user_override e = None \<and>
     ((\<exists>d \<in> set (decisions e). dec_active_at t d \<and> source_enabled st (dec_source d) \<and>
         dec_action d = Ban \<and> covers_app a d) \<or>
      (5 \<le> length (broad_app_ban_sources st t e) \<and> 70 \<le> abuse_risk (summary e)))"
proof -
  let ?ds = "filter (\<lambda>d. dec_active_at t d \<and> source_enabled st (dec_source d)) (decisions e)"
  obtain net l where f: "foldl (apply_decision (Some a)) (initial_access e, Some (initial_access e)) ?ds
      = (net, Some l)"
    and l: "l = Blocked \<longleftrightarrow> (\<exists>d \<in> set ?ds. dec_action d = Ban \<and> covers_app a d)"
    using fold_app_pair [of a "initial_access e" "initial_access e" ?ds]
      initial_not_Blocked [of e] by blast
  show ?thesis
    by (auto simp: decided_access_def Let_def f corroborated_Blocked l
        split: option.split user_override_mode.split)
qed

lemma view_parts:
  "map_of (entries st) k = Some e \<Longrightarrow> build_view st t k ctx = Inr v \<Longrightarrow>
   network_access v = fst (decided_access st t e ctx) \<and>
   app_access v = snd (decided_access st t e ctx) \<and>
   v_visibility_weight v = visibility_weight e (network_access v) (app_access v) \<and>
   v_class v = s_class (summary e)"
  by (auto simp: build_view_def Let_def split: prod.splits)

text \<open>
  A view reports a known subject as blocked from the network exactly
  when the user has not overridden it and an active, enabled network ban covers it; and as
  blocked for the app that asks exactly when an active, enabled ban of the app, of all apps
  or of the network covers it, or at least five apps ask for a broad ban of a subject whose
  abuse risk is 70 or more.
\<close>

theorem view_blocks_exactly:
  assumes "map_of (entries st) k = Some e" and "build_view st t k (Some a) = Inr v"
  shows "(network_access v = Blocked \<longleftrightarrow> user_override e = None \<and>
      (\<exists>d \<in> set (decisions e). dec_active_at t d \<and> source_enabled st (dec_source d) \<and>
         is_network_ban d)) \<and>
    (app_access v = Some Blocked \<longleftrightarrow> user_override e = None \<and>
      ((\<exists>d \<in> set (decisions e). dec_active_at t d \<and> source_enabled st (dec_source d) \<and>
          dec_action d = Ban \<and> covers_app a d) \<or>
       (5 \<le> length (broad_app_ban_sources st t e) \<and> 70 \<le> abuse_risk (summary e))))"
  using view_parts [OF assms] by (simp add: decided_network_Blocked decided_app_Blocked)

text \<open>
  Whatever bans, restrictions and corroborated requests stand against a
  subject, an \<open>Allow\<close> override of the user makes its network and app access allowed, and an
  \<open>AllowRestricted\<close> override makes both restricted with a visibility weight of at most 35.
\<close>

theorem user_override_wins:
  assumes "map_of (entries st) k = Some e" and "build_view st t k (Some a) = Inr v"
    and "user_override e = Some u"
  shows "case uo_mode u of
      Allow \<Rightarrow> network_access v = Allowed \<and> app_access v = Some Allowed
    | AllowRestricted \<Rightarrow> network_access v = Restricted \<and> app_access v = Some Restricted \<and>
        v_visibility_weight v \<le> 35"
proof -
  obtain net l where "foldl (apply_decision (Some a)) (initial_access e, Some (initial_access e))
      (filter (\<lambda>d. dec_active_at t d \<and> source_enabled st (dec_source d)) (decisions e))
      = (net, Some l)"
    using fold_app_pair [of a "initial_access e" "initial_access e"] by blast
  then have "decided_access st t e (Some a) = (case uo_mode u of
      Allow \<Rightarrow> (Allowed, Some Allowed) | AllowRestricted \<Rightarrow> (Restricted, Some Restricted))"
    using assms(3) by (auto simp: decided_access_def Let_def split: user_override_mode.split)
  then show ?thesis
    using view_parts [OF assms(1,2)]
    by (auto simp: visibility_weight_restricted split: user_override_mode.splits)
qed

lemma recompute_scores_bounded: "scores_at_most 255 (summary (recompute_entry pol t e))"
  by (simp add: scores_at_most_def recompute_entry_def Let_def normalized_score_le
      split: prod.split)

text \<open>
  The visibility weight of an entry whose summary the service
  computed is at most 100; it is 0 exactly when the subject is blocked, at most 35 when it is
  restricted and at least 10 when it is not blocked, so no combination of bad scores hides a
  node that nobody has blocked.
\<close>

theorem visibility_weight_meaning:
  assumes "e = recompute_entry pol t e0"
  shows "visibility_weight e net app \<le> 100 \<and>
    (visibility_weight e net app = 0 \<longleftrightarrow> net = Blocked \<or> app = Some Blocked) \<and>
    (visibility_weight e net app < 10 \<longleftrightarrow> net = Blocked \<or> app = Some Blocked) \<and>
    (net = Restricted \<or> app = Some Restricted \<longrightarrow> visibility_weight e net app \<le> 35)"
proof (cases "net = Blocked \<or> app = Some Blocked")
  case False
  then have "10 \<le> visibility_weight e net app"
    using recompute_scores_bounded [of pol t e0]
    by (intro visibility_weight_pos) (auto simp: assms scores_at_most_def)
  with False show ?thesis
    using visibility_weight_le visibility_weight_restricted by fastforce
qed simp

end
