(* ===== verification/Reputation_Evidence.thy ===== *)
theory Reputation_Evidence
  imports Reputation_Security
begin

text \<open>
  What happens to evidence: recording an observation counts it once and loses nothing, an
  app-wide retraction takes back the influence of one app and keeps the provenance, and
  garbage collection removes exactly the entries that have outlived their class.
\<close>

lemma history_of_cong:
  "historical_by_source e' = historical_by_source e \<Longrightarrow> history_of src e' = history_of src e"
  by (simp add: history_of_def)

lemma evidence_cong:
  "recent_observations e' = recent_observations e \<Longrightarrow>
   historical_by_source e' = historical_by_source e \<Longrightarrow>
   active_evidence src e' = active_evidence src e \<and>
   retracted_evidence src e' = retracted_evidence src e"
  by (simp add: active_evidence_def retracted_evidence_def history_of_def)

lemma recompute_evidence:
  assumes "active_evidence src e \<le> u64_max" "retracted_evidence src e \<le> u64_max"
  shows "active_evidence src (recompute_entry pol t e) = active_evidence src e"
    and "retracted_evidence src (recompute_entry pol t e) = retracted_evidence src e"
proof -
  let ?x = "expire_decisions e t"
  let ?c = "compact_recent_observations ?x t"
  have c: "compacts ?x ?c"
    unfolding compact_recent_observations_def by (rule compact_before_compacts)
  have x: "active_evidence src ?x = active_evidence src e"
    "retracted_evidence src ?x = retracted_evidence src e"
    using evidence_cong [of ?x e] by simp_all
  have "active_evidence src ?c = active_evidence src e"
    "retracted_evidence src ?c = retracted_evidence src e"
    using compacts_active [OF c] compacts_retracted [OF c] assms by (simp_all add: x)
  then show "active_evidence src (recompute_entry pol t e) = active_evidence src e"
    and "retracted_evidence src (recompute_entry pol t e) = retracted_evidence src e"
    using evidence_cong [of "recompute_entry pol t e" ?c src] by (simp_all add: recompute_entry_evidence)
qed

lemma submit_entry_evidence:
  assumes "active_evidence src e \<le> u64_max" "retracted_evidence src e \<le> u64_max" "obs_active ob"
  shows "active_evidence src (submit_entry ob t e) =
      active_evidence src e + (if obs_source ob = src then 1 else 0)"
    and "retracted_evidence src (submit_entry ob t e) = retracted_evidence src e"
proof -
  let ?c = "compact_to_capacity (compact_source_observation_quota
    (compact_recent_observations e t) (obs_source ob))"
  have c: "compacts e ?c"
    unfolding compact_recent_observations_def by (blast intro: compacts_trans loops_compact)
  show "active_evidence src (submit_entry ob t e) =
      active_evidence src e + (if obs_source ob = src then 1 else 0)"
    using compacts_active [OF c assms(1)] assms(3)
    by (auto simp: submit_entry_def Let_def active_evidence_def history_of_def)
  show "retracted_evidence src (submit_entry ob t e) = retracted_evidence src e"
    using compacts_retracted [OF c assms(2)] assms(3)
    by (auto simp: submit_entry_def Let_def retracted_evidence_def history_of_def)
qed

lemma ensure_ban_evidence:
  "map_of (entries st) k = Some e \<Longrightarrow>
   map_of (entries (snd (ensure_automatic_integrity_ban st k t))) k = Some e' \<Longrightarrow>
   active_evidence src e' = active_evidence src e \<and>
   retracted_evidence src e' = retracted_evidence src e"
  using ensure_ban_entry [of st k e t] evidence_cong [of e' e src] by auto

definition entry_or_new :: "store \<Rightarrow> record_key \<Rightarrow> nat \<Rightarrow> entry" where
  "entry_or_new st k t = (case map_of (entries st) k of None \<Rightarrow> entry_new k t | Some e \<Rightarrow> e)"

text \<open>
  C5. A submission that the service accepts adds exactly one to
  the active evidence of its source about the subject, and changes neither the active evidence
  of any other source nor any retracted evidence, although it may fold older observations
  into the history, expire decisions and impose a ban on the way.
\<close>

theorem submission_conserves_evidence:
  assumes "submit_observation env prov inp s = (Inr (i, b), s')"
    and "e = entry_or_new (rs_store s) (in_subject inp) (now env)"
    and "active_evidence src e < u64_max" and "retracted_evidence src e \<le> u64_max"
  shows "\<exists>e'. map_of (entries (rs_store s')) (in_subject inp) = Some e' \<and>
    active_evidence src e' = active_evidence src e + (if prov_authority prov = src then 1 else 0) \<and>
    retracted_evidence src e' = retracted_evidence src e"
proof -
  obtain st e1 where st: "map_of (entries st) (in_subject inp) = Some e1"
    and e1': "e1 = submit_entry (recorded_observation i (now env) prov inp) (now env)
       (case map_of (entries (rs_store s)) (in_subject inp) of
          None \<Rightarrow> entry_new (in_subject inp) (now env) | Some e0 \<Rightarrow> e0)"
    and s': "rs_store s' = recompute_subject (snd (ensure_automatic_integrity_ban st
       (in_subject inp) (now env))) (in_subject inp) (now env)"
    by (rule submit_observation_cases [OF assms(1)])
  note e1 = e1' [folded entry_or_new_def, folded assms(2)]
  have one: "active_evidence src e1 =
      active_evidence src e + (if prov_authority prov = src then 1 else 0)"
    "retracted_evidence src e1 = retracted_evidence src e"
    using assms(3,4) submit_entry_evidence [of src e "recorded_observation i (now env) prov inp"]
    unfolding e1 by (simp_all add: recorded_observation_def obs_active_def)
  obtain e2 where e2: "map_of (entries (snd (ensure_automatic_integrity_ban st (in_subject inp)
      (now env)))) (in_subject inp) = Some e2"
    using ensure_ban_entry [OF st] by blast
  from ensure_ban_evidence [OF st e2, of src] one assms(3,4)
  have two: "active_evidence src e2 =
      active_evidence src e + (if prov_authority prov = src then 1 else 0)"
    "retracted_evidence src e2 = retracted_evidence src e"
    "active_evidence src e2 \<le> u64_max" "retracted_evidence src e2 \<le> u64_max" by simp_all
  then show ?thesis
    using recompute_evidence [OF two(3,4)] e2 by (auto simp: s' store_simps)
qed

subsection \<open>Retraction of an app\<close>

lemma retract_active_counts:
  "d_count (totals (snd (retract_active t h))) = 0"
  "d_count (retracted_totals (snd (retract_active t h))) =
     (if d_count (totals h) = 0 then d_count (retracted_totals h)
      else sat_add u64_max (d_count (retracted_totals h)) (d_count (totals h)))"
  by (auto simp: retract_active_def Let_def delta_add_count delta_zero_def)

lemma retract_source_history_of:
  "history_of src' (fst (retract_source_entry src t e)) =
     (if src' = src \<and> map_of (historical_by_source e) src \<noteq> None
      then snd (retract_active t (history_of src e)) else history_of src' e)"
  by (auto simp: history_of_def retract_source_history store_simps split: option.splits)

lemma retract_entry_evidence:
  assumes "active_evidence src e + retracted_evidence src e \<le> u64_max"
  shows "active_evidence src (fst (retract_source_entry src t e)) = 0"
    and "retracted_evidence src (fst (retract_source_entry src t e)) =
      active_evidence src e + retracted_evidence src e"
proof -
  let ?hit = "\<lambda>ob. if obs_source ob = src \<and> retracted_at ob = None
    then ob\<lparr>retracted_at := Some t\<rparr> else ob"
  have none: "filter (\<lambda>ob. obs_source ob = src \<and> obs_active ob) (map ?hit obs) = []" for obs
    by (induction obs) (auto simp: obs_active_def)
  have all: "length (filter (\<lambda>ob. obs_source ob = src \<and> \<not> obs_active ob) (map ?hit obs)) =
      length (filter (\<lambda>ob. obs_source ob = src \<and> obs_active ob) obs) +
      length (filter (\<lambda>ob. obs_source ob = src \<and> \<not> obs_active ob) obs)" for obs
    by (induction obs) (auto simp: obs_active_def)
  have z: "d_count (totals aggregate_default) = 0" "d_count (retracted_totals aggregate_default) = 0"
    by (simp_all add: aggregate_default_def delta_zero_def)
  have h: "d_count (totals (history_of src (fst (retract_source_entry src t e)))) = 0 \<and>
      (d_count (retracted_totals (history_of src e)) + d_count (totals (history_of src e)) \<le> u64_max
       \<longrightarrow> d_count (retracted_totals (history_of src (fst (retract_source_entry src t e)))) =
         d_count (retracted_totals (history_of src e)) + d_count (totals (history_of src e)))"
  proof (cases "map_of (historical_by_source e) src")
    case None
    then have "history_of src e = aggregate_default" by (simp add: history_of_def)
    with None show ?thesis by (simp add: retract_source_history_of z)
  next
    case (Some h)
    then show ?thesis by (simp add: retract_source_history_of retract_active_counts u64_simps)
  qed
  show "active_evidence src (fst (retract_source_entry src t e)) = 0"
    unfolding active_evidence_def retract_source_parts none using h by simp
  show "retracted_evidence src (fst (retract_source_entry src t e)) =
      active_evidence src e + retracted_evidence src e"
    unfolding active_evidence_def retracted_evidence_def retract_source_parts all
    using h assms unfolding active_evidence_def retracted_evidence_def by simp
qed

lemma retract_entry_others:
  assumes "src' \<noteq> src"
  shows "active_evidence src' (fst (retract_source_entry src t e)) = active_evidence src' e"
    and "retracted_evidence src' (fst (retract_source_entry src t e)) = retracted_evidence src' e"
proof -
  let ?hit = "\<lambda>ob. if obs_source ob = src \<and> retracted_at ob = None
    then ob\<lparr>retracted_at := Some t\<rparr> else ob"
  have "length (filter (\<lambda>ob. obs_source ob = src' \<and> obs_active ob) (map ?hit obs)) =
      length (filter (\<lambda>ob. obs_source ob = src' \<and> obs_active ob) obs)"
    "length (filter (\<lambda>ob. obs_source ob = src' \<and> \<not> obs_active ob) (map ?hit obs)) =
      length (filter (\<lambda>ob. obs_source ob = src' \<and> \<not> obs_active ob) obs)" for obs
    using assms by (induction obs) (auto simp: obs_active_def)
  with assms show "active_evidence src' (fst (retract_source_entry src t e)) = active_evidence src' e"
    and "retracted_evidence src' (fst (retract_source_entry src t e)) = retracted_evidence src' e"
    by (simp_all add: active_evidence_def retracted_evidence_def retract_source_parts
        retract_source_history_of)
qed

lemma recompute_times:
  "\<exists>n. map_of (entries (foldl (\<lambda>st k. recompute_subject st k t) st ks)) k =
     map_option (recompute_entry (app_source_policies st) t ^^ n) (map_of (entries st) k)"
proof (induction ks arbitrary: st)
  case Nil
  show ?case by (intro exI [of _ 0]) (simp add: option.map_id0 flip: id_def)
next
  case (Cons k' ks)
  from Cons.IH [of "recompute_subject st k' t"] obtain n where
    "map_of (entries (foldl (\<lambda>st k. recompute_subject st k t) (recompute_subject st k' t) ks)) k =
     map_option (recompute_entry (app_source_policies st) t ^^ n)
       (map_of (entries (recompute_subject st k' t)) k)" by auto
  then show ?case
    by (cases "k' = k")
      (auto simp: store_simps option.map_comp funpow_swap1 comp_def
        intro: exI [of _ "Suc n"] exI [of _ n])
qed

lemma retract_app_lookup:
  assumes "retract_app_source env a why s = (Inr rep, s')"
  shows "\<exists>n. map_of (entries (rs_store s')) k =
    map_option (\<lambda>e. (recompute_entry (app_source_policies (rs_store s)) (now env) ^^ n)
      (fst (retract_source_entry (Auth_App a) (now env) e))) (map_of (entries (rs_store s)) k)"
proof -
  have f: "rs_store (foldl (\<lambda>s k. emit_notice env k kind ((mark_subject_dirty env k s)
        \<lparr>rs_store := recompute_subject (rs_store s) k (now env)\<rparr>)) s0 ks) =
      foldl (\<lambda>st k. recompute_subject st k (now env)) (rs_store s0) ks" for s0 ks kind
    by (induction ks arbitrary: s0) simp_all
  define st where "st = (rs_store s)\<lparr>entries := map (\<lambda>x. (fst x, fst (retract_source_entry
    (Auth_App a) (now env) (snd x)))) (entries (rs_store s))\<rparr>"
  have "\<exists>ks r. rs_store s' = foldl (\<lambda>st k. recompute_subject st k (now env))
      (st\<lparr>app_source_retractions := r\<rparr>) ks"
    using assms
    by (auto simp: retract_app_source_def Let_def f st_def comp_def case_prod_beta
        split: if_splits intro!: exI)
  then obtain ks r where s': "rs_store s' = foldl (\<lambda>st k. recompute_subject st k (now env))
      (st\<lparr>app_source_retractions := r\<rparr>) ks" by blast
  have "map_of (entries st) k = map_option (\<lambda>e. fst (retract_source_entry (Auth_App a) (now env) e))
      (map_of (entries (rs_store s)) k)"
    using map_of_map_vals [of "\<lambda>e. fst (retract_source_entry (Auth_App a) (now env) e)"
        "entries (rs_store s)" k] by (simp add: st_def case_prod_unfold)
  then show ?thesis
    using recompute_times [of "now env" "st\<lparr>app_source_retractions := r\<rparr>" ks k]
    by (auto simp: s' st_def option.map_comp comp_def)
qed

lemma recompute_funpow_evidence:
  assumes "active_evidence src e \<le> u64_max" "retracted_evidence src e \<le> u64_max"
  shows "active_evidence src ((recompute_entry pol t ^^ n) e) = active_evidence src e \<and>
    retracted_evidence src ((recompute_entry pol t ^^ n) e) = retracted_evidence src e"
  using assms by (induction n) (simp_all add: recompute_evidence)

lemma recompute_funpow_no_active:
  assumes "\<forall>d \<in> set (decisions e). dec_source d = src \<longrightarrow> status d \<noteq> Active"
  shows "\<forall>d \<in> set (decisions ((recompute_entry pol t ^^ n) e)).
    dec_source d = src \<longrightarrow> status d \<noteq> Active"
proof (induction n)
  case (Suc n)
  then show ?case by (auto simp: recompute_entry_frame expire_decisions_def)
qed (simp add: assms)

text \<open>What a decision says, whether it still stands or has run out.\<close>

definition decision_terms :: "decision \<Rightarrow> decision" where
  "decision_terms d = d\<lparr>status := Active\<rparr>"

lemma decision_terms_expire:
  "map decision_terms (decisions (expire_decisions e t)) = map decision_terms (decisions e)"
  by (auto simp: expire_decisions_def decision_terms_def)

lemma recompute_funpow_others:
  "user_override ((recompute_entry pol t ^^ n) e) = user_override e \<and>
   map decision_terms (decisions ((recompute_entry pol t ^^ n) e)) =
     map decision_terms (decisions e) \<and>
   filter (dec_active_at t) (decisions ((recompute_entry pol t ^^ n) e)) =
     filter (dec_active_at t) (decisions e)"
  by (induction n) (simp_all add: recompute_entry_frame decision_terms_expire expire_active_at)

lemma retract_entry_other_decisions:
  "filter (\<lambda>d. dec_source d \<noteq> src) (decisions (fst (retract_source_entry src t e))) =
   filter (\<lambda>d. dec_source d \<noteq> src) (decisions e)"
proof -
  let ?f = "\<lambda>d. if dec_source d = src \<and> status d = Active
    then d\<lparr>status := Revoked, revoked_at := Some t\<rparr> else d"
  have "filter (\<lambda>d. dec_source d \<noteq> src) (map ?f ds) = filter (\<lambda>d. dec_source d \<noteq> src) ds" for ds
    by (induction ds) auto
  then show ?thesis by (simp add: retract_source_parts)
qed

text \<open>
  C6. When the user retracts an app, the app keeps no active
  evidence about any subject and no active decision, and what it had reported stays counted as
  retracted provenance. Every other source is left alone: its active and its retracted evidence,
  the decisions it made, which of them are active, and the user's override are as before.
\<close>

theorem app_retraction_removes_influence:
  assumes "retract_app_source env a why s = (Inr rep, s')"
    and "map_of (entries (rs_store s)) k = Some e"
    and "\<forall>src. active_evidence src e + retracted_evidence src e \<le> u64_max"
  shows "\<exists>e'. map_of (entries (rs_store s')) k = Some e' \<and>
    active_evidence (Auth_App a) e' = 0 \<and>
    retracted_evidence (Auth_App a) e' =
      active_evidence (Auth_App a) e + retracted_evidence (Auth_App a) e \<and>
    (\<forall>d \<in> set (decisions e'). dec_source d = Auth_App a \<longrightarrow> status d \<noteq> Active) \<and>
    (\<forall>src. src \<noteq> Auth_App a \<longrightarrow> active_evidence src e' = active_evidence src e \<and>
       retracted_evidence src e' = retracted_evidence src e) \<and>
    user_override e' = user_override e \<and>
    filter (\<lambda>d. dec_source d \<noteq> Auth_App a) (map decision_terms (decisions e')) =
      filter (\<lambda>d. dec_source d \<noteq> Auth_App a) (map decision_terms (decisions e)) \<and>
    filter (\<lambda>d. dec_source d \<noteq> Auth_App a \<and> dec_active_at (now env) d) (decisions e') =
      filter (\<lambda>d. dec_source d \<noteq> Auth_App a \<and> dec_active_at (now env) d) (decisions e)"
proof -
  let ?r = "fst (retract_source_entry (Auth_App a) (now env) e)"
  obtain n where e': "map_of (entries (rs_store s')) k =
      Some ((recompute_entry (app_source_policies (rs_store s)) (now env) ^^ n) ?r)"
    using retract_app_lookup [OF assms(1), of k] assms(2) by auto
  let ?rec = "recompute_entry (app_source_policies (rs_store s)) (now env) ^^ n"
  have le: "active_evidence src e \<le> u64_max \<and> retracted_evidence src e \<le> u64_max" for src
    using assms(3) [rule_format, of src] by linarith
  note own = retract_entry_evidence [OF spec [OF assms(3), of "Auth_App a"], of "now env"]
  note rec = recompute_funpow_others [of n "app_source_policies (rs_store s)" "now env" ?r]
  note same = retract_entry_other_decisions [of "Auth_App a" "now env" e]
  have "active_evidence (Auth_App a) (?rec ?r) = 0 \<and> retracted_evidence (Auth_App a) (?rec ?r) =
      active_evidence (Auth_App a) e + retracted_evidence (Auth_App a) e"
    using recompute_funpow_evidence [of "Auth_App a" ?r] own spec [OF assms(3), of "Auth_App a"]
    by simp
  moreover have "active_evidence src (?rec ?r) = active_evidence src e \<and>
      retracted_evidence src (?rec ?r) = retracted_evidence src e" if "src \<noteq> Auth_App a" for src
    using recompute_funpow_evidence [of src ?r] retract_entry_others [OF that] le [of src] by simp
  moreover have "\<forall>d \<in> set (decisions (?rec ?r)). dec_source d = Auth_App a \<longrightarrow> status d \<noteq> Active"
    by (rule recompute_funpow_no_active) (auto simp: retract_source_parts)
  moreover have "user_override (?rec ?r) = user_override e"
    using rec by (simp add: retract_source_parts)
  moreover have "filter (\<lambda>d. dec_source d \<noteq> Auth_App a) (map decision_terms (decisions (?rec ?r))) =
      filter (\<lambda>d. dec_source d \<noteq> Auth_App a) (map decision_terms (decisions e))"
    using rec same by (simp add: filter_map comp_def decision_terms_def)
  moreover have "filter (\<lambda>d. dec_source d \<noteq> Auth_App a \<and> dec_active_at (now env) d)
      (decisions (?rec ?r)) =
      filter (\<lambda>d. dec_source d \<noteq> Auth_App a \<and> dec_active_at (now env) d) (decisions e)"
  proof -
    have comm: "filter (\<lambda>d. dec_source d \<noteq> Auth_App a \<and> dec_active_at (now env) d) ds =
        filter (\<lambda>d. dec_source d \<noteq> Auth_App a) (filter (dec_active_at (now env)) ds)"
      "filter (\<lambda>d. dec_source d \<noteq> Auth_App a \<and> dec_active_at (now env) d) ds =
        filter (dec_active_at (now env)) (filter (\<lambda>d. dec_source d \<noteq> Auth_App a) ds)" for ds
      by (simp_all add: conj_commute)
    have "filter (\<lambda>d. dec_source d \<noteq> Auth_App a \<and> dec_active_at (now env) d) (decisions (?rec ?r)) =
        filter (\<lambda>d. dec_source d \<noteq> Auth_App a \<and> dec_active_at (now env) d) (decisions ?r)"
      unfolding comm(1) using rec by simp
    also have "\<dots> = filter (\<lambda>d. dec_source d \<noteq> Auth_App a \<and> dec_active_at (now env) d) (decisions e)"
      unfolding comm(2) same ..
    finally show ?thesis .
  qed
  ultimately show ?thesis using e' by blast
qed

subsection \<open>Garbage collection\<close>

lemma gc_lookup:
  assumes "runtime_ok s"
  shows "map_of (entries (rs_store (snd (run_garbage_collection env t s)))) k =
    (case map_of (entries (rs_store s)) k of
       None \<Rightarrow> None
     | Some e \<Rightarrow>
         (let e' = recompute_entry (app_source_policies (rs_store s)) t e
          in if gc_candidate t e' then None else Some e'))"
proof -
  have ok: "keys_name_entries (entries (rs_store s))"
    using assms by (simp add: runtime_ok_def store_ok_keys)
  let ?m = "map (\<lambda>(k, e). (k, recompute_entry (app_source_policies (rs_store s)) t e))
    (entries (rs_store s))"
  have "keys_distinct ?m"
    using ok by (simp add: keys_distinct_def keys_name_entries_def del: map_map)
  from map_of_filter_vals [OF this, of "\<lambda>e. \<not> gc_candidate t e" k] show ?thesis
    by (simp add: gc_store [OF ok] map_of_map_vals Let_def split: option.split)
qed

text \<open>
  Garbage collection recomputes every entry and then removes
  exactly those that have been idle for at least 30 days and for the lifetime of their class,
  and that carry no permanent state of the user. The size of the table plays no part: the
  target of 100000 entries never decides anything, because every candidate is stale by policy
  already.
\<close>

theorem gc_removes_exactly_expired:
  assumes "runtime_ok s" and "run_garbage_collection env t s = (n, s')"
  shows "map_of (entries (rs_store s')) k =
    (case map_of (entries (rs_store s)) k of
       None \<Rightarrow> None
     | Some e \<Rightarrow>
         (let e' = recompute_entry (app_source_policies (rs_store s)) t e
          in if MIN_GC_ELIGIBLE_AGE_SECS \<le> t - last_touched e' \<and>
                entry_max_idle e' t \<le> t - last_touched e' \<and> \<not> has_permanent_user_state e' t
             then None else Some e'))"
  using gc_lookup [OF assms(1), of env t k] assms(2)
  by (auto simp: gc_candidate_def Let_def not_less split: option.splits)

text \<open>
  Garbage collection never removes an entry that was touched in the
  last 30 days, that the user has overridden, or that stands under a permanent, active
  decision of the user.
\<close>

theorem gc_keeps_what_matters:
  assumes "runtime_ok s" and "run_garbage_collection env t s = (n, s')"
    and "map_of (entries (rs_store s)) k = Some e"
    and "t - last_touched e < 30 * 24 * 60 * 60 \<or> user_override e \<noteq> None \<or>
      (\<exists>d \<in> set (decisions e). dec_source d = Auth_User \<and> expires_at d = None \<and> status d = Active)"
  shows "\<exists>e'. map_of (entries (rs_store s')) k = Some e' \<and> user_override e' = user_override e \<and>
    last_touched e' = last_touched e \<and> filter (dec_active_at t) (decisions e') =
      filter (dec_active_at t) (decisions e)"
proof -
  let ?e = "recompute_entry (app_source_policies (rs_store s)) t e"
  have act: "filter (dec_active_at t) (decisions ?e) = filter (dec_active_at t) (decisions e)"
    by (simp only: recompute_entry_frame expire_active_at [OF order_refl])
  have perm: "has_permanent_user_state ?e t"
    if "\<exists>d \<in> set (decisions e). dec_source d = Auth_User \<and> expires_at d = None \<and> status d = Active"
  proof -
    from that obtain d where "d \<in> set (filter (dec_active_at t) (decisions e))"
      "dec_source d = Auth_User" "expires_at d = None" by (auto simp: dec_active_at_def)
    then have "d \<in> set (filter (dec_active_at t) (decisions ?e))" by (simp only: act)
    then show ?thesis
      using \<open>dec_source d = Auth_User\<close> \<open>expires_at d = None\<close>
      by (auto simp: has_permanent_user_state_def dec_permanent_def)
  qed
  have "\<not> gc_candidate t ?e"
    using assms(4) perm
    by (auto simp: gc_candidate_def recompute_entry_frame MIN_GC_ELIGIBLE_AGE_SECS_def
        has_permanent_user_state_def)
  then show ?thesis
    using gc_lookup [OF assms(1), of env t k] assms(2,3) act
    by (auto simp: recompute_entry_frame)
qed

end
