(* ===== verification/Reputation_Disk.thy ===== *)
theory Reputation_Disk
  imports Reputation_Evidence
begin

text \<open>
  What is on disk while the reputation task runs. Some operations bring entries up to date (a
  recomputation) without marking their shards for writing, so the clean part of the disk is not the
  table in memory but one from which recomputations lead to it. Every command keeps that, whatever
  writes fail.
\<close>

subsection \<open>Entries that were brought up to date\<close>

inductive recomputed :: "nat \<Rightarrow> entry \<Rightarrow> entry \<Rightarrow> bool" for T where
  recomputed_refl: "recomputed T e e"
| recomputed_step: "recomputed T e e' \<Longrightarrow> t \<le> T \<Longrightarrow> recomputed T e (recompute_entry pol t e')"

lemma recomputed_trans: "recomputed T b c \<Longrightarrow> recomputed T a b \<Longrightarrow> recomputed T a c"
  by (induction rule: recomputed.induct) (auto intro: recomputed_step)

lemma recomputed_one: "t \<le> T \<Longrightarrow> recomputed T e (recompute_entry pol t e)"
  by (intro recomputed_step recomputed_refl)

text \<open>What a restored entry has in common with the one in memory.\<close>

definition tamper_counts :: "entry \<Rightarrow> nat \<times> nat \<times> nat" where
  "tamper_counts e = (impossible_protocol_events (core_counts e),
     invalid_signature_events (core_counts e), deliberate_corruption_events (core_counts e))"

definition still_recent :: "nat \<Rightarrow> entry \<Rightarrow> observation list" where
  "still_recent t e = dropWhile (\<lambda>ob. observed_at ob < t - RECENT_OBSERVATION_MAX_AGE_SECS)
     (recent_observations e)"

definition restores :: "nat \<Rightarrow> entry \<Rightarrow> entry \<Rightarrow> bool" where
  "restores t e e' \<longleftrightarrow>
     subject e' = subject e \<and> user_override e' = user_override e \<and> last_touched e' = last_touched e \<and>
     still_recent t e' = still_recent t e \<and> tamper_counts e' = tamper_counts e \<and>
     map decision_terms (decisions e') = map decision_terms (decisions e) \<and>
     filter (dec_active_at t) (decisions e') = filter (dec_active_at t) (decisions e) \<and>
     (\<forall>src. active_evidence src e < u64_max \<longrightarrow> active_evidence src e' = active_evidence src e) \<and>
     (\<forall>src. retracted_evidence src e < u64_max \<longrightarrow> retracted_evidence src e' = retracted_evidence src e)"

lemma fold_active_or_full:
  assumes "recent_observations e = ys @ ob # zs"
  shows "active_evidence src (fold_observation (e\<lparr>recent_observations := ys @ zs\<rparr>) ob) =
      active_evidence src e \<or>
    u64_max \<le> active_evidence src (fold_observation (e\<lparr>recent_observations := ys @ zs\<rparr>) ob)"
  using assms
  by (auto simp: active_evidence_def history_of_fold delta_add_count obs_active_def Let_def
      sat_add_def contribution_for_def split: option.splits)

lemma fold_retracted_or_full:
  assumes "recent_observations e = ys @ ob # zs"
  shows "retracted_evidence src (fold_observation (e\<lparr>recent_observations := ys @ zs\<rparr>) ob) =
      retracted_evidence src e \<or>
    u64_max \<le> retracted_evidence src (fold_observation (e\<lparr>recent_observations := ys @ zs\<rparr>) ob)"
  using assms
  by (auto simp: retracted_evidence_def history_of_fold delta_add_count obs_active_def Let_def
      sat_add_def contribution_for_def split: option.splits)

lemma compacts_evidence:
  "compacts e e' \<Longrightarrow>
   (active_evidence src e' = active_evidence src e \<or> u64_max \<le> active_evidence src e') \<and>
   (retracted_evidence src e' = retracted_evidence src e \<or> u64_max \<le> retracted_evidence src e')"
proof (induction rule: compacts.induct)
  case (compacts_step e ys ob zs e')
  from compacts_step(3) fold_active_or_full [OF compacts_step(1), of src]
    fold_retracted_or_full [OF compacts_step(1), of src]
  show ?case by auto
qed simp

lemma recompute_compacts:
  "\<exists>c. compacts (expire_decisions e t) c \<and>
     recent_observations (recompute_entry pol t e) = recent_observations c \<and>
     historical_by_source (recompute_entry pol t e) = historical_by_source c"
  using compact_before_compacts by (auto simp: recompute_entry_evidence compact_recent_observations_def)

lemma recompute_evidence_or_full:
  "(active_evidence src (recompute_entry pol t e) = active_evidence src e \<or>
     u64_max \<le> active_evidence src (recompute_entry pol t e)) \<and>
   (retracted_evidence src (recompute_entry pol t e) = retracted_evidence src e \<or>
     u64_max \<le> retracted_evidence src (recompute_entry pol t e))"
proof -
  obtain c where c: "compacts (expire_decisions e t) c"
    "recent_observations (recompute_entry pol t e) = recent_observations c"
    "historical_by_source (recompute_entry pol t e) = historical_by_source c"
    using recompute_compacts by blast
  have "active_evidence src (recompute_entry pol t e) = active_evidence src c"
    "retracted_evidence src (recompute_entry pol t e) = retracted_evidence src c"
    "active_evidence src (expire_decisions e t) = active_evidence src e"
    "retracted_evidence src (expire_decisions e t) = retracted_evidence src e"
    by (simp_all add: active_evidence_def retracted_evidence_def history_of_def c(2,3))
  with compacts_evidence [OF c(1), of src] show ?thesis by simp
qed

lemma recent_compact_before:
  "recent_observations (compact_before c e) =
     dropWhile (\<lambda>ob. observed_at ob < c) (recent_observations e)"
proof (induction c e rule: compact_before.induct)
  case (1 c e)
  then show ?case by (simp add: compact_before.simps [of c e] split: list.split)
qed

lemma still_recent_recompute:
  assumes "t \<le> T"
  shows "still_recent T (recompute_entry pol t e) = still_recent T e"
proof -
  have "dropWhile (\<lambda>ob. observed_at ob < b) (dropWhile (\<lambda>ob. observed_at ob < a) obs) =
      dropWhile (\<lambda>ob. observed_at ob < b) obs" if "a \<le> b" for a b and obs :: "observation list"
    using that by (induction obs) auto
  with assms show ?thesis
    by (simp add: still_recent_def recompute_entry_evidence compact_recent_observations_def
        recent_compact_before)
qed

lemma tamper_counts_recompute:
  "keys_distinct (historical_by_source e) \<Longrightarrow> tamper_counts (recompute_entry pol t e) = tamper_counts e"
  by (simp add: tamper_counts_def core_counts_recompute tamper_counter_def)

lemma recompute_keys_distinct:
  assumes "keys_distinct (historical_by_source e)"
  shows "keys_distinct (historical_by_source (recompute_entry pol t e))"
proof -
  have "compacts (expire_decisions e t) (compact_recent_observations (expire_decisions e t) t)"
    unfolding compact_recent_observations_def by (rule compact_before_compacts)
  from compacts_keys_distinct [OF this] assms show ?thesis by (simp add: recompute_entry_evidence)
qed

lemma recomputed_counts:
  assumes "recomputed T e e'" "keys_distinct (historical_by_source e)"
  shows "keys_distinct (historical_by_source e') \<and> tamper_counts e' = tamper_counts e \<and>
    still_recent T e' = still_recent T e"
  using assms
  by (induction rule: recomputed.induct)
    (simp_all add: recompute_keys_distinct tamper_counts_recompute still_recent_recompute)

lemma recomputed_keeps:
  assumes "recomputed T e e'"
  shows "subject e' = subject e \<and> user_override e' = user_override e \<and> last_touched e' = last_touched e \<and>
     map decision_terms (decisions e') = map decision_terms (decisions e) \<and>
     filter (dec_active_at T) (decisions e') = filter (dec_active_at T) (decisions e) \<and>
     (active_evidence src e' = active_evidence src e \<or> u64_max \<le> active_evidence src e') \<and>
     (retracted_evidence src e' = retracted_evidence src e \<or> u64_max \<le> retracted_evidence src e')"
  using assms
proof (induction rule: recomputed.induct)
  case (recomputed_step e e' t pol)
  then show ?case
    using recompute_evidence_or_full [of src pol t e']
    by (auto simp: recompute_entry_frame decision_terms_expire expire_active_at)
qed simp

text \<open>Both the table in memory and the restored one come from what was on disk.\<close>

lemma restores_from_disk:
  assumes "recomputed T d e" "recomputed T d e'" "keys_distinct (historical_by_source d)"
  shows "restores T e e'"
proof -
  note mem = recomputed_keeps [OF assms(1)] and new = recomputed_keeps [OF assms(2)]
  have "active_evidence src e' = active_evidence src e" if "active_evidence src e < u64_max" for src
  proof -
    have "active_evidence src d < u64_max" using mem [of src] that by auto
    moreover have "active_evidence src e' = active_evidence src d"
      using assms(2) calculation
    proof (induction rule: recomputed.induct)
      case (recomputed_step d e' t pol)
      then obtain c where c: "compacts (expire_decisions e' t) c"
        "recent_observations (recompute_entry pol t e') = recent_observations c"
        "historical_by_source (recompute_entry pol t e') = historical_by_source c"
        using recompute_compacts by blast
      have x: "active_evidence src (expire_decisions e' t) = active_evidence src e'"
        "active_evidence src (recompute_entry pol t e') = active_evidence src c"
        by (simp_all add: active_evidence_def history_of_def c(2,3))
      with recomputed_step compacts_active [OF c(1), of src] show ?case by simp
    qed simp
    ultimately show ?thesis using mem [of src] that by auto
  qed
  moreover have "retracted_evidence src e' = retracted_evidence src e"
    if "retracted_evidence src e < u64_max" for src
  proof -
    have "retracted_evidence src d < u64_max" using mem [of src] that by auto
    moreover have "retracted_evidence src e' = retracted_evidence src d"
      using assms(2) calculation
    proof (induction rule: recomputed.induct)
      case (recomputed_step d e' t pol)
      then obtain c where c: "compacts (expire_decisions e' t) c"
        "recent_observations (recompute_entry pol t e') = recent_observations c"
        "historical_by_source (recompute_entry pol t e') = historical_by_source c"
        using recompute_compacts by blast
      have x: "retracted_evidence src (expire_decisions e' t) = retracted_evidence src e'"
        "retracted_evidence src (recompute_entry pol t e') = retracted_evidence src c"
        by (simp_all add: retracted_evidence_def history_of_def c(2,3))
      with recomputed_step compacts_retracted [OF c(1), of src] show ?case by simp
    qed simp
    ultimately show ?thesis using mem [of src] that by auto
  qed
  ultimately show ?thesis
    using mem new recomputed_counts [OF assms(1,3)] recomputed_counts [OF assms(2,3)]
    by (simp add: restores_def)
qed

lemma recomputed_funpow: "t \<le> T \<Longrightarrow> recomputed T e ((recompute_entry pol t ^^ n) e)"
  by (induction n) (auto intro: recomputed.intros)

lemma rel_recomputed_refl [simp]: "rel_option (recomputed T) x x"
  by (cases x) (simp_all add: recomputed_refl)

lemma rel_recomputed_trans:
  "rel_option (recomputed T) x y \<Longrightarrow> rel_option (recomputed T) y z \<Longrightarrow> rel_option (recomputed T) x z"
  by (cases x; cases y; cases z) (auto intro: recomputed_trans)

subsection \<open>The shard files\<close>

text \<open>The shard of a subject, for the hash function \<open>h\<close> of the build.\<close>

definition shard_index :: "(string \<Rightarrow> nat) \<Rightarrow> string \<Rightarrow> nat" where
  "shard_index h k = h k mod REPUTATION_SHARD_COUNT"

lemma shard_index_env: "shard_hash env = h \<Longrightarrow> reputation_shard_index env k = shard_index h k"
  by (simp add: reputation_shard_index_def shard_index_def)

lemma shard_number_less [simp]: "shard_index h k < REPUTATION_SHARD_COUNT"
  by (simp add: shard_index_def REPUTATION_SHARD_COUNT_def)

definition shard_at :: "disk \<Rightarrow> nat \<Rightarrow> reputation_shard" where
  "shard_at d i =
     (case map_of d (reputation_shard_key i) of Some (Stored_Shard sh) \<Rightarrow> sh | _ \<Rightarrow> [])"

text \<open>Every shard file that exists holds a shard, of subjects that hash to its number; the two maps
  in it are hash maps.\<close>

definition shards_formed :: "(string \<Rightarrow> nat) \<Rightarrow> disk \<Rightarrow> bool" where
  "shards_formed h d \<longleftrightarrow>
     (\<forall>i < REPUTATION_SHARD_COUNT.
        case map_of d (reputation_shard_key i) of
          None \<Rightarrow> True
        | Some (Stored_Shard sh) \<Rightarrow> keys_distinct sh \<and>
              (\<forall>(k, e) \<in> set sh. shard_index h k = i \<and> keys_distinct (historical_by_source e))
        | Some _ \<Rightarrow> False)"

lemma shards_formed_at:
  "shards_formed h d \<Longrightarrow> i < REPUTATION_SHARD_COUNT \<Longrightarrow>
   keys_distinct (shard_at d i) \<and> (\<forall>k e. map_of (shard_at d i) k = Some e \<longrightarrow>
     shard_index h k = i \<and> keys_distinct (historical_by_source e))"
  unfolding shards_formed_def shard_at_def
  by (drule spec [of _ i]) (auto simp: keys_distinct_def split: option.splits stored.splits
      dest!: map_of_SomeD)

lemma load_shards_lookup:
  assumes "shards_formed h d" and "set ix \<subseteq> {..<REPUTATION_SHARD_COUNT}"
    and "load_shards io d ix m = Inr m'"
  shows "map_of m' k =
    (if shard_index h k \<in> set ix
     then (map_of m ++ map_of (shard_at d (shard_index h k))) k else map_of m k)"
  using assms(2,3)
proof (induction ix arbitrary: m)
  case (Cons i ix)
  have i: "i < REPUTATION_SHARD_COUNT" using Cons.prems(1) by simp
  define m2 where "m2 = foldl (\<lambda>m (k, e). AList.update k e m) m (shard_at d i)"
  have load: "load_shards io d ix m2 = Inr m'"
    using Cons.prems(2)
    by (auto simp: m2_def shard_at_def read_user_encrypted_def split: option.splits sum.splits stored.splits)
  have m2: "map_of m2 = map_of m ++ map_of (shard_at d i)"
    unfolding m2_def using shards_formed_at [OF assms(1) i] by (simp add: map_of_extend)
  have other: "map_of (shard_at d i) k = None" if "shard_index h k \<noteq> i"
    using shards_formed_at [OF assms(1) i] that by (cases "map_of (shard_at d i) k") auto
  show ?case
    using Cons.IH [OF _ load] Cons.prems(1) other
    by (cases "shard_index h k = i") (auto simp: m2 map_add_def split: option.split)
qed simp

lemma all_shards: "set [0..<REPUTATION_SHARD_COUNT] \<subseteq> {..<REPUTATION_SHARD_COUNT}"
  by auto

lemma load_shards_total:
  assumes "shards_formed h d" and "set ix \<subseteq> {..<REPUTATION_SHARD_COUNT}"
    and "\<forall>key. read_error io key = None"
  shows "\<exists>m'. load_shards io d ix m = Inr m'"
  using assms(2)
proof (induction ix arbitrary: m)
  case (Cons i ix)
  then have "case map_of d (reputation_shard_key i) of None \<Rightarrow> True
      | Some (Stored_Shard sh) \<Rightarrow> keys_distinct sh \<and>
              (\<forall>(k, e) \<in> set sh. shard_index h k = i \<and> keys_distinct (historical_by_source e))
      | Some _ \<Rightarrow> False"
    using assms(1) by (simp add: shards_formed_def)
  with Cons assms(3) show ?case
    by (auto simp: read_user_encrypted_def split: option.splits stored.splits)
qed simp

subsection \<open>Operations and their dirty marks\<close>

text \<open>
  What an operation may do to a table: change entries of shards it marks, bring any entry up to
  date, and change the metadata if it marks it.
\<close>

definition tracks :: "(string \<Rightarrow> nat) \<Rightarrow> nat \<Rightarrow> 'c runtime_state \<Rightarrow> 'c runtime_state \<Rightarrow> bool" where
  "tracks h T s s' \<longleftrightarrow>
     set (dirty_shards s) \<subseteq> set (dirty_shards s') \<and> (dirty_metadata s \<longrightarrow> dirty_metadata s') \<and>
     (\<not> dirty_metadata s' \<longrightarrow> store_metadata (rs_store s') = store_metadata (rs_store s)) \<and>
     (\<forall>k. shard_index h k \<notin> set (dirty_shards s') \<longrightarrow>
        rel_option (recomputed T) (map_of (entries (rs_store s)) k)
          (map_of (entries (rs_store s')) k))"

named_theorems tracks_intros "operations that mark what they change"

lemma tracks_refl [simp]: "tracks h T s s"
  by (simp add: tracks_def)

lemma tracks_one:
  assumes "dirty_shards s' = List.insert (shard_index h k) (dirty_shards s)"
    and "dirty_metadata s \<longrightarrow> dirty_metadata s'"
    and "\<not> dirty_metadata s' \<longrightarrow> store_metadata (rs_store s') = store_metadata (rs_store s)"
    and "\<forall>k'. k' \<noteq> k \<longrightarrow> map_of (entries (rs_store s')) k' = map_of (entries (rs_store s)) k'"
  shows "tracks h T s s'"
  unfolding tracks_def
proof (intro conjI allI impI)
  fix k' assume "shard_index h k' \<notin> set (dirty_shards s')"
  then have "k' \<noteq> k" using assms(1) by auto
  then show "rel_option (recomputed T) (map_of (entries (rs_store s)) k')
      (map_of (entries (rs_store s')) k')"
    using assms(4) by simp
qed (use assms in auto)

lemma mark_subject_fields:
  "dirty_shards (mark_subject_dirty env k s) =
     List.insert (reputation_shard_index env k) (dirty_shards s)"
  "dirty_metadata (mark_metadata_dirty s) = True"
  by (simp_all add: mark_subject_dirty_def mark_metadata_dirty_def)

lemma ensure_ban_other:
  "k' \<noteq> k \<Longrightarrow> map_of (entries (snd (ensure_automatic_integrity_ban st k t))) k' =
     map_of (entries st) k'"
  by (auto simp: ensure_automatic_integrity_ban_def take_decision_id_def store_simps
      split: option.split)

lemma ensure_ban_result_other:
  "ensure_automatic_integrity_ban st k t = (b, st') \<Longrightarrow> k' \<noteq> k \<Longrightarrow>
   map_of (entries st') k' = map_of (entries st) k'"
  using ensure_ban_other [of k' k st t] by simp

text \<open>Each operation, run by a build with hash function \<open>h\<close> at a time up to \<open>T\<close>.\<close>

lemma tracks_submit [tracks_intros]:
  assumes "shard_hash env = h" "now env \<le> T"
  shows "tracks h T s (snd (submit_observation env prov inp s))"
proof (cases "details_validate (in_details inp)")
  case (Inr u)
  show ?thesis
    by (rule tracks_one [where k = "in_subject inp"])
      (auto simp: Inr submit_observation_def take_observation_id_def Let_def mark_subject_fields
        shard_index_env [OF assms(1)] store_simps recompute_subject_def
        split: prod.split dest: ensure_ban_result_other)
qed (simp add: submit_observation_def)

lemma tracks_retract_observation [tracks_intros]:
  assumes "shard_hash env = h"
  shows "tracks h T s (snd (retract_observation env k i src s))"
  by (auto simp: retract_observation_def Let_def mark_subject_fields shard_index_env [OF assms]
      store_simps recompute_subject_def store_metadata_def split: option.split
      intro!: tracks_one [where k = k])

lemma tracks_create_decision [tracks_intros]:
  assumes "shard_hash env = h"
  shows "tracks h T s (snd (create_decision env src k act sc why exp s))"
  by (auto simp: create_decision_def take_decision_id_def Let_def mark_subject_fields
      shard_index_env [OF assms] store_simps recompute_subject_def split: sum.split
      intro!: tracks_one [where k = k])

lemma tracks_revoke_decision [tracks_intros]:
  assumes "shard_hash env = h"
  shows "tracks h T s (snd (revoke_decision env k i src s))"
  by (auto simp: revoke_decision_def Let_def mark_subject_fields shard_index_env [OF assms]
      store_simps recompute_subject_def store_metadata_def split: option.split
      intro!: tracks_one [where k = k])

lemma tracks_set_override [tracks_intros]:
  assumes "shard_hash env = h"
  shows "tracks h T s (snd (set_user_override env k mode note s))"
  by (auto simp: set_user_override_def Let_def mark_subject_fields shard_index_env [OF assms]
      store_simps recompute_subject_def store_metadata_def intro!: tracks_one [where k = k])

lemma tracks_clear_override [tracks_intros]:
  assumes "shard_hash env = h"
  shows "tracks h T s (snd (clear_user_override env k s))"
  by (auto simp: clear_user_override_def Let_def mark_subject_fields shard_index_env [OF assms]
      store_simps recompute_subject_def store_metadata_def split: option.split
      intro!: tracks_one [where k = k])

text \<open>An app-wide retraction marks the subjects it takes something back from.\<close>

lemma update_same: "map_of m k = Some v \<Longrightarrow> AList.update k v m = m"
  by (induction m) auto

lemma untouched_entry:
  assumes "\<not> touched_by_retraction (retract_source_entry src t e)"
  shows "fst (retract_source_entry src t e) = e"
proof -
  let ?hit = "\<lambda>ob. obs_source ob = src \<and> retracted_at ob = None"
  let ?dhit = "\<lambda>d. dec_source d = src \<and> status d = Active"
  have none: "filter ?hit (recent_observations e) = []" "filter ?dhit (decisions e) = []"
    "\<forall>h. map_of (historical_by_source e) src = Some h \<longrightarrow> retract_active t h = (0, h)"
    using assms
    by (auto simp: touched_by_retraction_def retract_source_entry_def Let_def retract_active_def
        filter_empty_conv split: option.splits prod.splits if_splits)
  have same: "map (\<lambda>x. if p x then f x else x) xs = xs" if "filter p xs = []" for p f and xs :: "'x list"
    using that by (auto simp: filter_empty_conv intro: map_idI)
  have "fst (retract_source_entry src t e) = e\<lparr>historical_by_source := historical_by_source e\<rparr>"
    using none(3)
    by (auto simp: retract_source_entry_def Let_def none(1,2) same amodify_def update_same
        split: option.split)
  then show ?thesis by simp
qed

lemma retract_fold_dirty:
  assumes "shard_hash env = h"
  shows "set (dirty_shards (foldl (\<lambda>s k. emit_notice env k kind ((mark_subject_dirty env k s)
        \<lparr>rs_store := recompute_subject (rs_store s) k t\<rparr>)) s ks)) =
      set (dirty_shards s) \<union> shard_index h ` set ks"
    and "dirty_metadata (foldl (\<lambda>s k. emit_notice env k kind ((mark_subject_dirty env k s)
        \<lparr>rs_store := recompute_subject (rs_store s) k t\<rparr>)) s ks) = dirty_metadata s"
  by (induction ks arbitrary: s) (auto simp: mark_subject_fields shard_index_env [OF assms])

lemma tracks_retract_app [tracks_intros]:
  assumes "shard_hash env = h" "now env \<le> T" "runtime_ok s"
  shows "tracks h T s (snd (retract_app_source env a why s))"
proof (cases "MAX_DESCRIPTION_BYTES < length why")
  case False
  then obtain rep s' where r: "retract_app_source env a why s = (Inr rep, s')"
    by (simp add: retract_app_source_def Let_def)
  let ?out = "retract_source_entry (Auth_App a) (now env)"
  let ?changed = "map (\<lambda>(k, r). subject (fst r)) (filter (\<lambda>(k, r). touched_by_retraction r)
      (map (\<lambda>(k, e). (k, ?out e)) (entries (rs_store s))))"
  have s': "s' = snd (retract_app_source env a why s)" by (simp add: r)
  have dirty: "set (dirty_shards s') = set (dirty_shards s) \<union> shard_index h ` set ?changed"
    "dirty_metadata s'"
    unfolding s' retract_app_source_def Let_def using False
    by (simp_all add: retract_fold_dirty [OF assms(1)] mark_metadata_dirty_def)
  have "rel_option (recomputed T) (map_of (entries (rs_store s)) k) (map_of (entries (rs_store s')) k)"
    if clean: "shard_index h k \<notin> set (dirty_shards s')" for k
  proof (cases "map_of (entries (rs_store s)) k")
    case (Some e)
    have e: "(k, e) \<in> set (entries (rs_store s))" using Some by (rule map_of_SomeD)
    have "subject e = k"
      using assms(3) e by (auto simp: runtime_ok_def store_ok_def entry_ok_def)
    then have "\<not> touched_by_retraction (?out e)"
      using clean e unfolding dirty by (force simp: retract_source_parts)
    from untouched_entry [OF this] show ?thesis
      using retract_app_lookup [OF r, of k] recomputed_funpow [OF assms(2)] by (auto simp: Some)
  qed (use retract_app_lookup [OF r, of k] in auto)
  then show ?thesis using r dirty by (auto simp: tracks_def)
qed (simp add: retract_app_source_def)

lemma recomputed_all:
  "t \<le> T \<Longrightarrow> rel_option (recomputed T) (map_of (entries st) k)
     (map_of (entries (foldl (\<lambda>st k. recompute_subject st k t) st ks)) k)"
  using recompute_times [of t st ks k] recomputed_funpow by (cases "map_of (entries st) k") auto

lemma policy_fold:
  "rs_store (foldl (\<lambda>s k. emit_notice env k kind (s\<lparr>rs_store := recompute_subject (rs_store s) k t\<rparr>))
       s ks) = foldl (\<lambda>st k. recompute_subject st k t) (rs_store s) ks"
  "dirty_shards (foldl (\<lambda>s k. emit_notice env k kind (s\<lparr>rs_store := recompute_subject (rs_store s) k t\<rparr>))
       s ks) = dirty_shards s"
  by (induction ks arbitrary: s) simp_all

lemma tracks_set_policy [tracks_intros]:
  assumes "now env \<le> T"
  shows "tracks h T s (snd (set_app_source_policy env a p s))"
  using recomputed_all [OF assms, of "(rs_store s)\<lparr>app_source_policies :=
      AList.update a p (app_source_policies (rs_store s))\<rparr>"]
  by (simp add: tracks_def set_app_source_policy_def Let_def policy_fold mark_subject_fields)

lemma tracks_delete_app [tracks_intros]:
  assumes "shard_hash env = h" "now env \<le> T" "runtime_ok s"
  shows "tracks h T s (snd (delete_app_source_data env a s))"
  using tracks_retract_app [OF assms, of a
      "''Legacy delete request converted to provenance-preserving retraction''"]
  by (auto simp: tracks_def delete_app_source_data_def Let_def mark_subject_fields
      split: prod.split sum.split)

text \<open>Garbage collection marks the subjects it removes.\<close>

lemma mark_fold_dirty:
  assumes "shard_hash env = h"
  shows "set (dirty_shards (foldl (\<lambda>s k. mark_subject_dirty env k s) s ks)) =
      set (dirty_shards s) \<union> shard_index h ` set ks"
    and "dirty_metadata (foldl (\<lambda>s k. mark_subject_dirty env k s) s ks) = dirty_metadata s"
  by (induction ks arbitrary: s) (auto simp: mark_subject_fields shard_index_env [OF assms])

lemma removed_fold_frame:
  "dirty_shards (foldl (\<lambda>s k. emit_entry_removed env k s) s ks) = dirty_shards s"
  "dirty_metadata (foldl (\<lambda>s k. emit_entry_removed env k s) s ks) = dirty_metadata s"
  by (induction ks arbitrary: s) simp_all

lemma recompute_all_metadata: "store_metadata (recompute_all t st) = store_metadata st"
proof -
  have "store_metadata (foldl (\<lambda>st k. recompute_subject st k t) st ks) = store_metadata st" for ks
    by (induction ks arbitrary: st) (simp_all add: store_metadata_def)
  then show ?thesis by (simp add: recompute_all_def)
qed

lemma tracks_gc [tracks_intros]:
  assumes "shard_hash env = h" "t \<le> T" "runtime_ok s"
  shows "tracks h T s (snd (run_garbage_collection env t s))"
proof -
  let ?s = "snd (run_garbage_collection env t s)" and ?st = "recompute_all t (rs_store s)"
  let ?rec = "recompute_entry (app_source_policies (rs_store s)) t"
  let ?removed = "map subject (List.map_filter (map_of (entries ?st)) (gc_selected t (entries ?st)))"
  have dirty: "set (dirty_shards ?s) = set (dirty_shards s) \<union> shard_index h ` set ?removed"
    "dirty_metadata ?s = dirty_metadata s"
    by (simp_all add: run_garbage_collection_def Let_def mark_fold_dirty [OF assms(1)]
        removed_fold_frame del: set_map)
  have meta: "store_metadata (rs_store ?s) = store_metadata (rs_store s)"
    using recompute_all_metadata [of t "rs_store s"]
    by (simp add: run_garbage_collection_def Let_def store_metadata_def)
  have names: "keys_name_entries (entries (rs_store s))"
    using assms(3) by (simp add: runtime_ok_def store_ok_keys)
  have "rel_option (recomputed T) (map_of (entries (rs_store s)) k) (map_of (entries (rs_store ?s)) k)"
    if clean: "shard_index h k \<notin> set (dirty_shards ?s)" for k
  proof (cases "map_of (entries (rs_store s)) k")
    case (Some e)
    have k: "subject e = k" using names map_of_SomeD [OF Some] by (auto simp: keys_name_entries_def)
    have st: "map_of (entries ?st) k = Some (?rec e)"
      by (simp add: recompute_all_map [OF names] map_of_map_vals Some)
    have "\<not> gc_candidate t (?rec e)"
    proof
      assume "gc_candidate t (?rec e)"
      then have "k \<in> set (gc_selected t (entries ?st))"
        using map_of_SomeD [OF st] by (force simp: gc_selected_all set_gc_candidates)
      then have "?rec e \<in> set (List.map_filter (map_of (entries ?st)) (gc_selected t (entries ?st)))"
        using st by (force simp: List.map_filter_def)
      then have "subject (?rec e) \<in> set ?removed" by simp
      then show False using clean k unfolding dirty by (simp add: recompute_entry_frame del: set_map)
    qed
    then show ?thesis
      using gc_lookup [OF assms(3), of env t k] recomputed_one [OF assms(2)] by (simp add: Some)
  qed (use gc_lookup [OF assms(3), of env t k] in simp)
  then show ?thesis using dirty meta by (simp add: tracks_def)
qed

lemma tracks_subscribe [tracks_intros]: "tracks h T s (handle_subscribe env ctx f s)"
  by (simp add: handle_subscribe_def tracks_def)

subsection \<open>The disk behind a running task\<close>

text \<open>
  The metadata file has the policies and retraction records. Its counters are those of the table
  unless the load repair raised them (\<open>exact\<close> says it did not).
\<close>

definition saved_metadata :: "bool \<Rightarrow> store \<Rightarrow> disk \<Rightarrow> bool" where
  "saved_metadata exact st d \<longleftrightarrow>
     (\<exists>m. map_of d REPUTATION_METADATA_KEY = Some (Stored_Metadata m) \<and>
        m_version m = version st \<and> m_app_source_policies m = app_source_policies st \<and>
        m_app_source_retractions m = app_source_retractions st \<and>
        (exact \<longrightarrow> next_observation_id st \<le> max (m_next_observation_id m) 1 \<and>
          next_decision_id st \<le> max (m_next_decision_id m) 1))"

definition disk_tracks ::
  "bool \<Rightarrow> bool \<Rightarrow> (string \<Rightarrow> nat) \<Rightarrow> nat \<Rightarrow> 'c runtime_state \<Rightarrow> disk \<Rightarrow> bool" where
  "disk_tracks known exact h T s d \<longleftrightarrow>
     shards_formed h d \<and>
     (\<forall>k. shard_index h k \<notin> set (dirty_shards s) \<longrightarrow>
        rel_option (recomputed T) (map_of (shard_at d (shard_index h k)) k)
          (map_of (entries (rs_store s)) k)) \<and>
     (\<not> dirty_metadata s \<and> map_of d REPUTATION_METADATA_KEY \<noteq> None \<longrightarrow>
        saved_metadata exact (rs_store s) d) \<and>
     (known \<longrightarrow> dirty_metadata s \<or> map_of d REPUTATION_METADATA_KEY \<noteq> None)"

lemma saved_metadata_cong:
  "store_metadata st' = store_metadata st \<Longrightarrow> saved_metadata exact st' d = saved_metadata exact st d"
  by (simp add: saved_metadata_def store_metadata_def)

lemma disk_tracks_op:
  assumes "disk_tracks known exact h T s d" "tracks h T s s'"
  shows "disk_tracks known exact h T s' d"
  unfolding disk_tracks_def
proof (intro conjI allI impI)
  show "shards_formed h d" using assms(1) by (simp add: disk_tracks_def)
next
  fix k assume "shard_index h k \<notin> set (dirty_shards s')"
  with assms have "rel_option (recomputed T) (map_of (shard_at d (shard_index h k)) k)
      (map_of (entries (rs_store s)) k)"
    "rel_option (recomputed T) (map_of (entries (rs_store s)) k) (map_of (entries (rs_store s')) k)"
    by (auto simp: disk_tracks_def tracks_def)
  then show "rel_option (recomputed T) (map_of (shard_at d (shard_index h k)) k)
      (map_of (entries (rs_store s')) k)"
    by (rule rel_recomputed_trans)
next
  assume "\<not> dirty_metadata s' \<and> map_of d REPUTATION_METADATA_KEY \<noteq> None"
  with assms have clean: "\<not> dirty_metadata s"
    and same: "store_metadata (rs_store s') = store_metadata (rs_store s)"
    and "map_of d REPUTATION_METADATA_KEY \<noteq> None"
    by (auto simp: tracks_def)
  then have "saved_metadata exact (rs_store s) d" using assms(1) by (simp add: disk_tracks_def)
  then show "saved_metadata exact (rs_store s') d" by (simp only: saved_metadata_cong [OF same])
next
  assume known
  with assms show "dirty_metadata s' \<or> map_of d REPUTATION_METADATA_KEY \<noteq> None"
    by (auto simp: disk_tracks_def tracks_def)
qed

lemma disk_tracks_cong:
  assumes "rs_store s' = rs_store s" "dirty_metadata s' = dirty_metadata s"
    and "dirty_shards s' = dirty_shards s"
  shows "disk_tracks known exact h T s' d = disk_tracks known exact h T s d"
  by (simp add: disk_tracks_def assms)

text \<open>A write that stops at any file leaves old or new shards; only dirty ones are written.\<close>

lemma write_shards_frame:
  assumes "set ix \<subseteq> {..<REPUTATION_SHARD_COUNT}"
    and "write_shards env io st ix d = (r, d')"
  shows "map_of d' REPUTATION_METADATA_KEY = map_of d REPUTATION_METADATA_KEY \<and>
    map_of d' REPUTATION_STORE_KEY = map_of d REPUTATION_STORE_KEY \<and>
    (\<forall>i < REPUTATION_SHARD_COUNT. map_of d' (reputation_shard_key i) =
         map_of d (reputation_shard_key i) \<or>
       i \<in> set ix \<and>
       map_of d' (reputation_shard_key i) = Some (Stored_Shard (shard_of env i st)))"
  using assms
proof (induction ix arbitrary: d)
  case (Cons i ix)
  have key: "reputation_shard_key i \<noteq> REPUTATION_STORE_KEY" for i
    by (simp add: reputation_shard_key_def REPUTATION_STORE_KEY_def
        REPUTATION_SHARD_KEY_PREFIX_def)
  show ?case
  proof (cases "write_error io (reputation_shard_key i)")
    case None
    let ?d = "AList.update (reputation_shard_key i) (Stored_Shard (shard_of env i st)) d"
    have "write_shards env io st ix ?d = (r, d')"
      using Cons.prems(2) None by (simp add: write_user_encrypted_def)
    have inj: "j < REPUTATION_SHARD_COUNT \<Longrightarrow>
        (reputation_shard_key j = reputation_shard_key i) = (j = i)" for j
      using shard_key_inj [of j i] Cons.prems(1) by auto
    note IH = Cons.IH [OF _ \<open>write_shards env io st ix ?d = (r, d')\<close>]
    have "map_of d' (reputation_shard_key j) = map_of d (reputation_shard_key j) \<or>
        j \<in> set (i # ix) \<and>
        map_of d' (reputation_shard_key j) = Some (Stored_Shard (shard_of env j st))"
      if "j < REPUTATION_SHARD_COUNT" for j
      using IH Cons.prems(1) that inj [OF that] by (cases "j = i") (auto simp: store_simps)
    then show ?thesis
      using IH Cons.prems(1) by (auto simp: store_simps key key [symmetric])
  next
    case (Some e)
    with Cons.prems(2) show ?thesis by (simp add: write_user_encrypted_def)
  qed
qed simp

lemma persist_frame_disk:
  assumes "persist_if_dirty env io (s, d) = (r, s', d')"
    and "set (dirty_shards s) \<subseteq> {..<REPUTATION_SHARD_COUNT}"
  shows "map_of d' REPUTATION_STORE_KEY = map_of d REPUTATION_STORE_KEY \<and>
    (map_of d' REPUTATION_METADATA_KEY = map_of d REPUTATION_METADATA_KEY \<or>
      dirty_metadata s \<and>
      map_of d' REPUTATION_METADATA_KEY = Some (Stored_Metadata (store_metadata (rs_store s)))) \<and>
    (\<forall>i < REPUTATION_SHARD_COUNT. map_of d' (reputation_shard_key i) =
         map_of d (reputation_shard_key i) \<or>
       i \<in> set (dirty_shards s) \<and>
       map_of d' (reputation_shard_key i) = Some (Stored_Shard (shard_of env i (rs_store s))))"
proof (cases "\<not> dirty_metadata s \<and> dirty_shards s = []")
  case True
  with assms(1) show ?thesis by (simp add: persist_if_dirty_def)
next
  case False
  have key: "REPUTATION_STORE_KEY \<noteq> REPUTATION_METADATA_KEY"
    by (simp add: REPUTATION_STORE_KEY_def REPUTATION_METADATA_KEY_def)
  obtain w d1 where w: "write_shards env io (rs_store s) (dirty_shards s) d = (w, d1)" by force
  have "d' = d1 \<or> dirty_metadata s \<and>
      d' = AList.update REPUTATION_METADATA_KEY (Stored_Metadata (store_metadata (rs_store s))) d1"
    using False assms(1) w
    by (auto simp: persist_if_dirty_def write_user_encrypted_def Let_def
        split: option.splits if_splits sum.splits)
  with write_shards_frame [OF assms(2) w] show ?thesis by (auto simp: store_simps key)
qed

lemma shard_of_formed:
  assumes "store_ok st" "shard_hash env = h"
  shows "keys_distinct (shard_of env i st) \<and>
    (\<forall>(k, e) \<in> set (shard_of env i st). shard_index h k = i \<and> keys_distinct (historical_by_source e))"
  using assms(1)
  by (auto simp: shard_of_def store_ok_def entry_ok_def shard_index_env [OF assms(2)])

lemma persist_disk_tracks:
  assumes "persist_if_dirty env io (s, d) = (r, s', d')"
    and "runtime_ok s" "shard_hash env = h" "disk_tracks known exact h T s d"
  shows "disk_tracks known exact h T s' d'"
proof -
  have ix: "set (dirty_shards s) \<subseteq> {..<REPUTATION_SHARD_COUNT}" and ok: "store_ok (rs_store s)"
    using assms(2) by (simp_all add: runtime_ok_def)
  note frame = persist_frame_disk [OF assms(1) ix]
  note new = shard_of_formed [OF ok assms(3)]
  have formed: "shards_formed h d'"
    unfolding shards_formed_def
  proof (intro allI impI)
    fix i assume "i < REPUTATION_SHARD_COUNT"
    then consider "map_of d' (reputation_shard_key i) = map_of d (reputation_shard_key i)"
      | "map_of d' (reputation_shard_key i) = Some (Stored_Shard (shard_of env i (rs_store s)))"
      using frame by blast
    then show "case map_of d' (reputation_shard_key i) of None \<Rightarrow> True
        | Some (Stored_Shard sh) \<Rightarrow> keys_distinct sh \<and>
            (\<forall>(k, e) \<in> set sh. shard_index h k = i \<and> keys_distinct (historical_by_source e))
        | Some _ \<Rightarrow> False"
    proof cases
      case 1
      then show ?thesis
        using assms(4) \<open>i < REPUTATION_SHARD_COUNT\<close> by (simp add: disk_tracks_def shards_formed_def)
    next
      case 2
      then show ?thesis using new by simp
    qed
  qed
  have at: "shard_at d' i = shard_at d i \<or> i \<in> set (dirty_shards s) \<and> shard_at d' i = shard_of env i (rs_store s)"
    if "i < REPUTATION_SHARD_COUNT" for i
    using frame that by (auto simp: shard_at_def)
  have exact: "map_of (shard_of env (shard_index h k) (rs_store s)) k = map_of (entries (rs_store s)) k" for k
    by (simp add: shard_of_def store_simps shard_index_env [OF assms(3)])
  show ?thesis
  proof (cases r)
    case (Inl e)
    have s': "s' = s" using assms(1) by (auto simp: Inl dest: persist_error)
    have "shard_at d' (shard_index h k) = shard_at d (shard_index h k)"
      if "shard_index h k \<notin> set (dirty_shards s)" for k
      using at [of "shard_index h k"] that by simp
    moreover have "map_of d' REPUTATION_METADATA_KEY = map_of d REPUTATION_METADATA_KEY"
      if "\<not> dirty_metadata s" using frame that by simp
    ultimately show ?thesis
      using assms(4) formed by (auto simp: s' disk_tracks_def saved_metadata_def)
  next
    case (Inr u)
    have s': "s' = s\<lparr>dirty_metadata := False, dirty_shards := []\<rparr>"
      using assms(1) by (auto simp: Inr dest: persist_ok_clean)
    note split = persist_metadata_split [OF assms(1) [unfolded Inr] ix]
    have "rel_option (recomputed T) (map_of (shard_at d' (shard_index h k)) k)
        (map_of (entries (rs_store s)) k)" for k
    proof (cases "shard_index h k \<in> set (dirty_shards s)")
      case True
      then show ?thesis using split exact [of k] by (simp add: shard_at_def)
    next
      case False
      then show ?thesis using at [of "shard_index h k"] assms(4) by (simp add: disk_tracks_def)
    qed
    moreover have "map_of d' REPUTATION_METADATA_KEY \<noteq> None \<longrightarrow> saved_metadata exact (rs_store s) d'"
      "known \<longrightarrow> map_of d' REPUTATION_METADATA_KEY \<noteq> None"
      using split assms(4)
      by (auto simp: saved_metadata_def disk_tracks_def store_metadata_def split: if_splits)
    ultimately show ?thesis using formed by (simp add: s' disk_tracks_def)
  qed
qed

subsection \<open>Every step keeps it\<close>

text \<open>What a command does before it persists.\<close>

definition command_effect :: "'c env \<Rightarrow> command \<Rightarrow> 'c runtime_state \<Rightarrow> 'c runtime_state" where
  "command_effect env c s = (case c of
     SubmitObservation src inp \<Rightarrow> snd (submit_observation env src inp s)
   | RetractOwnObservation src k i \<Rightarrow> snd (retract_observation env k i (Some src) s)
   | RetractAnyObservation k i \<Rightarrow> snd (retract_observation env k i None s)
   | RequestDecision src k act sc why exp \<Rightarrow> snd (create_decision env src k act sc why exp s)
   | RevokeOwnDecision src k i \<Rightarrow> snd (revoke_decision env k i (Some src) s)
   | RevokeAnyDecision k i \<Rightarrow> snd (revoke_decision env k i None s)
   | SetUserOverride k mode note \<Rightarrow> snd (set_user_override env k mode note s)
   | ClearUserOverride k \<Rightarrow> snd (clear_user_override env k s)
   | RetractAppSource a why \<Rightarrow> snd (retract_app_source env a why s)
   | Subscribe ctx f \<Rightarrow> handle_subscribe env ctx f s
   | SetAppSourcePolicy a p \<Rightarrow> snd (set_app_source_policy env a p s)
   | DeleteAppSourceData a \<Rightarrow> snd (delete_app_source_data env a s)
   | RunGarbageCollection \<Rightarrow> snd (run_garbage_collection env (now env) s)
   | _ \<Rightarrow> s)"

lemma and_then_persist_state:
  "snd (and_then_persist env io rs d) = (snd rs, d) \<or>
   snd (and_then_persist env io rs d) = snd (persist_if_dirty env io (snd rs, d))"
  by (auto simp: and_then_persist_def split: prod.split sum.split)

lemma replying_state [simp]: "snd (replying (f, x)) = snd x"
  by (simp add: replying_def split: prod.split)

lemma handle_effect:
  "snd (handle_command env io c (s, d)) = (command_effect env c s, d) \<or>
   snd (handle_command env io c (s, d)) = snd (persist_if_dirty env io (command_effect env c s, d))"
proof -
  have submit: "snd (handle_submit env io src inp s d) = (snd (submit_observation env src inp s), d) \<or>
      snd (handle_submit env io src inp s d) =
        snd (persist_if_dirty env io (snd (submit_observation env src inp s), d))" for src inp
    using and_then_persist_state [of env io "(_, _)" d]
    by (auto simp: handle_submit_def split: prod.split sum.split)
  have gc: "(case run_garbage_collection env (now env) s of (n, s) \<Rightarrow> (Inr n, s)) =
      (Inr (fst (run_garbage_collection env (now env) s)) :: rep_error + nat,
       snd (run_garbage_collection env (now env) s))"
    by (simp add: case_prod_beta)
  show ?thesis
    by (cases c) (simp_all add: handle_command_def command_effect_def gc submit
        and_then_persist_state and_then_persist_state [of _ _ "(_, _)", simplified])
qed

lemma effect_ok: "runtime_ok s \<Longrightarrow> runtime_ok (command_effect env c s)"
  by (cases c) (simp_all add: command_effect_def runtime_ok_intros handle_subscribe_def)

lemma effect_tracks:
  assumes "runtime_ok s" "shard_hash env = h" "now env \<le> T"
  shows "tracks h T s (command_effect env c s)"
  using assms
  by (cases c) (simp_all add: command_effect_def tracks_intros)

lemma handle_disk_tracks:
  assumes "runtime_ok s" "shard_hash env = h" "now env \<le> T" "disk_tracks known exact h T s d"
    and "handle_command env io c (s, d) = (r, s', d')"
  shows "disk_tracks known exact h T s' d'"
proof -
  let ?s = "command_effect env c s"
  have op: "disk_tracks known exact h T ?s d"
    by (rule disk_tracks_op [OF assms(4) effect_tracks [OF assms(1-3)]])
  obtain y s2 d2 where p: "persist_if_dirty env io (?s, d) = (y, s2, d2)"
    by (cases "persist_if_dirty env io (?s, d)")
  from persist_disk_tracks [OF p effect_ok [OF assms(1)] assms(2) op]
    handle_effect [of env io c s d] op assms(5) p
  show ?thesis by auto
qed

lemma tick_disk_tracks:
  assumes "runtime_ok s" "shard_hash env = h" "disk_tracks known exact h T s d"
    and "flush_tick env io (s, d) = (s', d')"
  shows "disk_tracks known exact h T s' d'"
proof -
  obtain y s2 d2 where p: "persist_if_dirty env io (s, d) = (y, s2, d2)"
    by (cases "persist_if_dirty env io (s, d)")
  from persist_disk_tracks [OF p assms(1-3)] assms(3,4) p show ?thesis
    by (auto simp: flush_tick_def disk_tracks_def split: if_splits sum.splits)
qed

text \<open>The invariant of the task with its disk, over events of one build up to a time \<open>T\<close>.\<close>

definition task_tracks :: "bool \<Rightarrow> bool \<Rightarrow> (string \<Rightarrow> nat) \<Rightarrow> nat \<Rightarrow> 'c task \<Rightarrow> bool" where
  "task_tracks known exact h T tk \<longleftrightarrow> task_ok tk \<and> disk_tracks known exact h T (tk_state tk) (tk_disk tk)"

definition events_until :: "(string \<Rightarrow> nat) \<Rightarrow> nat \<Rightarrow> ('c env \<times> io \<times> task_event) list \<Rightarrow> bool" where
  "events_until h T evs \<longleftrightarrow> (\<forall>(env, _) \<in> set evs. shard_hash env = h \<and> now env \<le> T)"

lemma step_tracks:
  assumes "task_tracks known exact h T tk" "shard_hash env = h" "now env \<le> T"
  shows "task_tracks known exact h T (reputation_step tk (env, io, e))"
proof -
  have ok: "runtime_ok (tk_state tk)" and tr: "disk_tracks known exact h T (tk_state tk) (tk_disk tk)"
    using assms(1) by (simp_all add: task_tracks_def task_ok_def)
  have "task_ok (reputation_step tk (env, io, e))"
    using assms(1) by (intro task_ok_step) (simp add: task_tracks_def)
  moreover have "disk_tracks known exact h T (tk_state (reputation_step tk (env, io, e)))
      (tk_disk (reputation_step tk (env, io, e)))"
    using tr
    by (auto simp: reputation_step_def split: task_event.split prod.split
        dest: handle_disk_tracks [OF ok assms(2,3) tr] persist_disk_tracks [OF _ ok assms(2) tr]
          tick_disk_tracks [OF ok assms(2) tr])
  ultimately show ?thesis by (simp add: task_tracks_def)
qed

lemma run_tracks:
  "task_tracks known exact h T tk \<Longrightarrow> events_until h T evs \<Longrightarrow> task_tracks known exact h T (reputation_task tk evs)"
proof (induction evs arbitrary: tk)
  case (Cons ev evs)
  obtain env io e where ev: "ev = (env, io, e)" by (cases ev)
  have "task_tracks known exact h T (reputation_step tk ev)"
    unfolding ev using Cons.prems by (intro step_tracks) (auto simp: events_until_def ev)
  from Cons.IH [OF this] Cons.prems(2) show ?case
    by (simp add: events_until_def reputation_task_def)
qed (simp add: reputation_task_def)

subsection \<open>Start and restart\<close>

lemma read_ok: "read_user_encrypted io d key = Inr v \<Longrightarrow> v = map_of d key"
  by (auto simp: read_user_encrypted_def split: option.splits)

lemma start_tracks:
  assumes "load_sharded_store io d = Inr (st, migrate)" "loaded_ok st" "shards_formed h d"
    and "known \<longrightarrow> migrate \<or> map_of d REPUTATION_METADATA_KEY \<noteq> None" "t \<le> T"
    and "migrate \<or> map_of d REPUTATION_METADATA_KEY \<noteq> None \<or>
      (\<forall>i < REPUTATION_SHARD_COUNT. map_of d (reputation_shard_key i) = None)"
  shows "task_tracks known (repair_counters st = st) h T (start_task t st migrate d :: 'c task)"
proof -
  let ?tk = "start_task t st migrate d :: 'c task"
  have "disk_tracks known (repair_counters st = st) h T (tk_state ?tk) d"
  proof (cases "migrate \<or> map_of d REPUTATION_METADATA_KEY = None")
    case True
    show ?thesis
    proof (cases migrate)
      case True
      then show ?thesis
        using assms(3) by (simp add: disk_tracks_def start_task_def Let_def)
          (simp add: mark_all_shards_dirty_def)
    next
      case False
      with True have no_meta: "map_of d REPUTATION_METADATA_KEY = None" by simp
      with False assms(1) have st: "st = store_default"
        by (auto simp: load_sharded_store_def read_user_encrypted_def load_legacy_store_def
            split: sum.splits option.splits stored.splits if_splits)
      have empty: "shard_at d (shard_index h k) = []" for k
        using assms(6) False no_meta by (simp add: shard_at_def)
      have "entries (rs_store (tk_state ?tk)) = []"
        using False by (simp add: start_task_def Let_def repair_loaded_store_def recompute_all_def
            st store_default_def)
      then show ?thesis
        using False no_meta empty assms(3,4) by (simp add: disk_tracks_def)
    qed
  next
    case False
    then obtain m es where m: "map_of d REPUTATION_METADATA_KEY = Some (Stored_Metadata m)"
      "m_version m = REPUTATION_STORE_VERSION"
      "load_shards io d [0..<REPUTATION_SHARD_COUNT] [] = Inr es"
      "st = \<lparr>version = m_version m, next_observation_id = max (m_next_observation_id m) 1,
         next_decision_id = max (m_next_decision_id m) 1, entries = es,
         app_source_policies = m_app_source_policies m,
         app_source_retractions = m_app_source_retractions m\<rparr>"
      using assms(1)
      by (auto simp: load_sharded_store_def split: sum.splits option.splits stored.splits if_splits
          dest!: read_ok)
    have es: "map_of es k = map_of (shard_at d (shard_index h k)) k" for k
      using load_shards_lookup [OF assms(3) all_shards m(3), of k] by simp
    have store: "rs_store (tk_state ?tk) = recompute_all t (repair_counters st)"
      using False by (simp add: start_task_def Let_def repair_loaded_store_def)
    have "saved_metadata (repair_counters st = st) (repair_counters st) d"
      unfolding saved_metadata_def
    proof (intro exI conjI)
      show "map_of d REPUTATION_METADATA_KEY = Some (Stored_Metadata m)" by (rule m(1))
    qed (simp_all add: m(4), simp add: repair_counters_def Let_def)
    then have "saved_metadata (repair_counters st = st) (rs_store (tk_state ?tk)) d"
      by (simp only: store saved_metadata_cong [OF recompute_all_metadata])
    moreover have "rel_option (recomputed T) (map_of (shard_at d (shard_index h k)) k)
        (map_of (entries (rs_store (tk_state ?tk))) k)" for k
      using recomputed_all [OF assms(5), of "repair_counters st" k] False es [of k]
      by (simp add: start_task_def Let_def repair_loaded_store_def recompute_all_def m(4))
    moreover have "map_of d REPUTATION_METADATA_KEY \<noteq> None" by (simp add: m(1))
    ultimately show ?thesis using assms(3) unfolding disk_tracks_def by blast
  qed
  moreover have "tk_disk ?tk = d" by (simp add: start_task_def Let_def)
  ultimately show ?thesis using task_ok_start [OF assms(2)] by (simp add: task_tracks_def)
qed

lemma restart_finds:
  fixes tk :: "'c task"
  assumes "task_tracks known exact h t tk" "\<not> dirty_metadata (tk_state tk)" "dirty_shards (tk_state tk) = []"
    and "\<forall>key. read_error io key = None"
    and "known \<or> map_of (tk_disk tk) REPUTATION_METADATA_KEY \<noteq> None"
  shows "\<exists>tk' :: 'c task. spawn t io (tk_disk tk) = Inr tk' \<and> tk_disk tk' = tk_disk tk \<and>
    (\<forall>k. rel_option (restores t) (map_of (entries (rs_store (tk_state tk))) k)
       (map_of (entries (rs_store (tk_state tk'))) k)) \<and>
    app_source_policies (rs_store (tk_state tk')) = app_source_policies (rs_store (tk_state tk)) \<and>
    app_source_retractions (rs_store (tk_state tk')) = app_source_retractions (rs_store (tk_state tk)) \<and>
    (exact \<longrightarrow>
      next_observation_id (rs_store (tk_state tk)) \<le> next_observation_id (rs_store (tk_state tk')) \<and>
      next_decision_id (rs_store (tk_state tk)) \<le> next_decision_id (rs_store (tk_state tk')))"
proof -
  let ?s = "tk_state tk" and ?d = "tk_disk tk"
  have tr: "disk_tracks known exact h t ?s ?d" and ok: "store_ok (rs_store ?s)"
    using assms(1) by (simp_all add: task_tracks_def task_ok_def runtime_ok_def)
  have formed: "shards_formed h ?d"
    and rel: "rel_option (recomputed t) (map_of (shard_at ?d (shard_index h k)) k)
      (map_of (entries (rs_store ?s)) k)" for k
    using tr assms(3) by (simp_all add: disk_tracks_def)
  obtain m where m: "map_of ?d REPUTATION_METADATA_KEY = Some (Stored_Metadata m)"
    "m_version m = REPUTATION_STORE_VERSION"
    "m_app_source_policies m = app_source_policies (rs_store ?s)"
    "m_app_source_retractions m = app_source_retractions (rs_store ?s)"
    "exact \<longrightarrow> next_observation_id (rs_store ?s) \<le> max (m_next_observation_id m) 1 \<and>
       next_decision_id (rs_store ?s) \<le> max (m_next_decision_id m) 1"
    using tr assms(2,5) ok by (auto simp: disk_tracks_def saved_metadata_def store_ok_def)
  obtain es where es: "load_shards io ?d [0..<REPUTATION_SHARD_COUNT] [] = Inr es"
    using load_shards_total [OF formed all_shards assms(4)] by blast
  have look: "map_of es k = map_of (shard_at ?d (shard_index h k)) k" for k
    using load_shards_lookup [OF formed all_shards es, of k] by simp
  define st where "st = \<lparr>version = m_version m, next_observation_id = max (m_next_observation_id m) 1,
    next_decision_id = max (m_next_decision_id m) 1, entries = es,
    app_source_policies = m_app_source_policies m,
    app_source_retractions = m_app_source_retractions m\<rparr>"
  define tk' :: "'c task" where "tk' = start_task t st False ?d"
  have spawn: "spawn t io ?d = Inr tk'"
    using m(1,2) es assms(4)
    by (simp add: spawn_def load_sharded_store_def read_user_encrypted_def st_def tk'_def)
  have store: "rs_store (tk_state tk') = recompute_all t (repair_counters st)"
    by (simp add: tk'_def start_task_def Let_def repair_loaded_store_def)
  have "store_metadata (rs_store (tk_state tk')) = store_metadata (repair_counters st)"
    by (simp add: store recompute_all_metadata)
  then have meta: "app_source_policies (rs_store (tk_state tk')) = m_app_source_policies m"
    "app_source_retractions (rs_store (tk_state tk')) = m_app_source_retractions m"
    "max (m_next_observation_id m) 1 \<le> next_observation_id (rs_store (tk_state tk'))"
    "max (m_next_decision_id m) 1 \<le> next_decision_id (rs_store (tk_state tk'))"
    by (auto simp: store_metadata_def repair_counters_def Let_def st_def)
  have counters: "exact \<longrightarrow>
      next_observation_id (rs_store ?s) \<le> next_observation_id (rs_store (tk_state tk')) \<and>
      next_decision_id (rs_store ?s) \<le> next_decision_id (rs_store (tk_state tk'))"
    using m(5) meta(3,4) order_trans by blast
  have rec: "rel_option (recomputed t) (map_of es k) (map_of (entries (rs_store (tk_state tk'))) k)" for k
    using recomputed_all [OF order_refl, of t "repair_counters st" k]
    by (simp add: store recompute_all_def st_def)
  have restored: "rel_option (restores t) (map_of (entries (rs_store ?s)) k)
      (map_of (entries (rs_store (tk_state tk'))) k)" for k
  proof (cases "map_of es k")
    case None
    then show ?thesis using rel [of k] rec [of k] look [of k] by simp
  next
    case (Some d)
    then have kd: "keys_distinct (historical_by_source d)"
      using shards_formed_at [OF formed shard_number_less] unfolding look by blast
    obtain e where e: "map_of (entries (rs_store ?s)) k = Some e" "recomputed t d e"
      using rel [of k, folded look, unfolded Some] unfolding option_rel_Some1 by blast
    obtain e' where e': "map_of (entries (rs_store (tk_state tk'))) k = Some e'" "recomputed t d e'"
      using rec [of k, unfolded Some] unfolding option_rel_Some1 by blast
    from restores_from_disk [OF e(2) e'(2) kd] show ?thesis by (simp add: e(1) e'(1))
  qed
  have "tk_disk tk' = ?d" by (simp add: tk'_def start_task_def Let_def)
  then show ?thesis
    by (intro exI [of _ tk'] conjI allI)
      (rule spawn restored counters meta(1,2) [unfolded m(3,4)] | assumption)+
qed

end
