(* ===== verification/Reputation_Durability.thy ===== *)
theory Reputation_Durability
  imports Reputation_Disk
begin

text \<open>
  What a caller can rely on: fresh identifiers, withdrawal by the author only, notices to the
  subscribers that are still listening, and a table that survives restarts and failed writes.
\<close>

lemma recompute_keeps_fresh:
  assumes "recent_observations e = xs @ [ob]" "t - RECENT_OBSERVATION_MAX_AGE_SECS \<le> observed_at ob"
  shows "ob \<in> set (recent_observations (recompute_entry pol t e))"
proof -
  have "recent_observations (recompute_entry pol t e) =
      dropWhile (\<lambda>ob. observed_at ob < t - RECENT_OBSERVATION_MAX_AGE_SECS) (xs @ [ob])"
    using assms(1)
    by (simp add: recompute_entry_evidence compact_recent_observations_def recent_compact_before)
  also have "\<dots> = dropWhile (\<lambda>ob. observed_at ob < t - RECENT_OBSERVATION_MAX_AGE_SECS) xs @ [ob]"
    using assms(2) by (induction xs) auto
  finally show ?thesis by simp
qed

text \<open>
  Until the counter saturates, an accepted submission is given
  an identifier that no retained observation of any subject carries, and the observation is
  on record under it, attributed to its source.
\<close>

theorem submission_gets_fresh_id:
  assumes "runtime_ok s" and "submit_observation env prov inp s = (Inr (i, b), s')"
    and "next_observation_id (rs_store s) < u64_max"
  shows "(\<forall>(k, e) \<in> set (entries (rs_store s)). i \<notin> obs_id ` set (recent_observations e)) \<and>
    (\<exists>e' ob. map_of (entries (rs_store s')) (in_subject inp) = Some e' \<and>
       ob \<in> set (recent_observations e') \<and> obs_id ob = i \<and> obs_source ob = prov_authority prov \<and>
       obs_kind ob = in_kind inp \<and> obs_active ob)"
proof
  obtain st e where st: "map_of (entries st) (in_subject inp) = Some e"
    and e: "e = submit_entry (recorded_observation i (now env) prov inp) (now env)
       (case map_of (entries (rs_store s)) (in_subject inp) of
          None \<Rightarrow> entry_new (in_subject inp) (now env) | Some e0 \<Rightarrow> e0)"
    and i: "i = next_observation_id (rs_store s)"
    and s': "rs_store s' = recompute_subject (snd (ensure_automatic_integrity_ban st
       (in_subject inp) (now env))) (in_subject inp) (now env)"
    by (rule submit_observation_cases [OF assms(2)])
  show "\<forall>(k, e) \<in> set (entries (rs_store s)). i \<notin> obs_id ` set (recent_observations e)"
    using assms(1,3)
    by (force simp: runtime_ok_def store_ok_def entry_ok_def observations_ok_def id_fresh_def i)
  let ?ob = "recorded_observation i (now env) prov inp"
  obtain xs where xs: "recent_observations e = xs @ [?ob]"
    unfolding e by (simp add: submit_entry_def Let_def)
  obtain e1 where e1: "map_of (entries (snd (ensure_automatic_integrity_ban st (in_subject inp)
      (now env)))) (in_subject inp) = Some e1" "recent_observations e1 = recent_observations e"
    using ensure_ban_entry [OF st] by blast
  have "?ob \<in> set (recent_observations (recompute_entry pol (now env) e1))" for pol
    by (rule recompute_keeps_fresh) (simp_all add: e1(2) xs recorded_observation_def)
  then show "\<exists>e' ob. map_of (entries (rs_store s')) (in_subject inp) = Some e' \<and>
       ob \<in> set (recent_observations e') \<and> obs_id ob = i \<and> obs_source ob = prov_authority prov \<and>
       obs_kind ob = in_kind inp \<and> obs_active ob"
    using e1(1)
    by (auto simp: s' store_simps intro!: exI [of _ ?ob])
      (simp_all add: recorded_observation_def obs_active_def)
qed

text \<open>
  A module or an app that asks to retract an observation, or to
  revoke a decision, that another authority made is denied, and neither the state nor the disk
  changes.
\<close>

theorem withdrawal_by_author_only:
  assumes "map_of (entries (rs_store s)) k = Some e"
  shows "(\<forall>ob. List.find (\<lambda>ob. obs_id ob = i) (recent_observations e) = Some ob \<longrightarrow>
      obs_source ob \<noteq> src \<longrightarrow>
      handle_command env io (RetractOwnObservation src k i) (s, d) =
        (Re_Unit (Inl PermissionDenied), s, d)) \<and>
    (\<forall>dec. List.find (\<lambda>d. dec_id d = i) (decisions e) = Some dec \<longrightarrow> dec_source dec \<noteq> src \<longrightarrow>
      handle_command env io (RevokeOwnDecision src k i) (s, d) =
        (Re_Unit (Inl PermissionDenied), s, d))"
  using assms
  by (auto simp: handle_command_def retract_observation_def revoke_decision_def
      and_then_persist_def replying_def)

subsection \<open>Notices\<close>

lemma notify_one_None:
  "notify_one env st k kind sub = None \<longleftrightarrow>
     (if wants kind k sub \<and> \<not> below_minimum st k sub
      then fst (try_send env (sub_tx sub) \<lparr>n_kind = kind, n_subject = k,
        n_view = (case build_view st (now env) k (sub_app_context sub) of
                    Inl _ \<Rightarrow> None | Inr v \<Rightarrow> Some v)\<rparr>) = Channel_Closed
      else is_closed env (sub_tx sub))"
  by (simp add: notify_one_def keep_if_open_def send_notice_def split: prod.split send_result.split)

lemma length_map_filter: "length (List.map_filter f xs) = length (filter (\<lambda>x. f x \<noteq> None) xs)"
  by (simp add: List.map_filter_def)

lemma in_map_filter: "x \<in> set xs \<Longrightarrow> f x = Some y \<Longrightarrow> y \<in> set (List.map_filter f xs)"
  by (force simp: List.map_filter_def)

text \<open>
  Emitting a notice drops exactly the subscribers whose channel is
  found closed; a subscriber whose filter wants the notice is sent it with the view of its own
  app context, also when its channel is full (the notice is then lost, the subscription kept);
  any other subscriber is left as it is.
\<close>

theorem notices_reach_listeners:
  assumes "sub \<in> set (subscribers s)"
    and "\<And>c nt. fst (try_send env c nt) = Channel_Closed \<longleftrightarrow> is_closed env c"
    and "\<not> is_closed env (sub_tx sub)"
  shows "(if wants kind k sub \<and> \<not> below_minimum (rs_store s) k sub
     then sub\<lparr>sub_tx := snd (try_send env (sub_tx sub) \<lparr>n_kind = kind, n_subject = k,
        n_view = (case build_view (rs_store s) (now env) k (sub_app_context sub) of
                    Inl _ \<Rightarrow> None | Inr v \<Rightarrow> Some v)\<rparr>)\<rparr>
     else sub) \<in> set (subscribers (emit_notice env k kind s)) \<and>
    length (subscribers (emit_notice env k kind s)) =
      length (filter (\<lambda>sub. \<not> is_closed env (sub_tx sub)) (subscribers s))"
proof
  have "(notify_one env (rs_store s) k kind x \<noteq> None) = (\<not> is_closed env (sub_tx x))" for x
    by (simp add: notify_one_None assms(2))
  then show "length (subscribers (emit_notice env k kind s)) =
      length (filter (\<lambda>sub. \<not> is_closed env (sub_tx sub)) (subscribers s))"
    by (simp add: emit_notice_def length_map_filter)
  define nt where "nt = \<lparr>n_kind = kind, n_subject = k,
    n_view = (case build_view (rs_store s) (now env) k (sub_app_context sub) of
                Inl _ \<Rightarrow> None | Inr v \<Rightarrow> Some v)\<rparr>"
  have sent: "send_notice env sub nt = Some (sub\<lparr>sub_tx := snd (try_send env (sub_tx sub) nt)\<rparr>)"
    using assms(2) [of "sub_tx sub" nt] assms(3)
    by (auto simp: send_notice_def split: prod.split send_result.split)
  have "notify_one env (rs_store s) k kind sub =
      Some (if wants kind k sub \<and> \<not> below_minimum (rs_store s) k sub
        then sub\<lparr>sub_tx := snd (try_send env (sub_tx sub) nt)\<rparr> else sub)"
    using sent assms(3) by (simp add: notify_one_def keep_if_open_def nt_def)
  from in_map_filter [OF assms(1), of "notify_one env (rs_store s) k kind", OF this]
  show "(if wants kind k sub \<and> \<not> below_minimum (rs_store s) k sub
     then sub\<lparr>sub_tx := snd (try_send env (sub_tx sub) \<lparr>n_kind = kind, n_subject = k,
        n_view = (case build_view (rs_store s) (now env) k (sub_app_context sub) of
                    Inl _ \<Rightarrow> None | Inr v \<Rightarrow> Some v)\<rparr>)\<rparr>
     else sub) \<in> set (subscribers (emit_notice env k kind s))"
    unfolding nt_def by (simp add: emit_notice_def)
qed

subsection \<open>Storage\<close>

text \<open>
  When persisting fails, at whatever file, the service keeps
  its table and all its dirty marks, the metadata and the pre-migration snapshot on disk are
  the old ones, and each shard on disk is either the old one or the new one in full.
\<close>

theorem failed_write_keeps_old_table:
  assumes "runtime_ok s" and "persist_if_dirty env io (s, d) = (Inl e, s', d')"
  shows "s' = s \<and> (dirty_metadata s \<or> dirty_shards s \<noteq> []) \<and>
    map_of d' REPUTATION_METADATA_KEY = map_of d REPUTATION_METADATA_KEY \<and>
    map_of d' REPUTATION_STORE_KEY = map_of d REPUTATION_STORE_KEY \<and>
    (\<forall>i < REPUTATION_SHARD_COUNT. map_of d' (reputation_shard_key i) =
         map_of d (reputation_shard_key i) \<or>
       map_of d' (reputation_shard_key i) = Some (Stored_Shard (shard_of env i (rs_store s))))"
proof -
  have dirty: "dirty_metadata s \<or> dirty_shards s \<noteq> []"
    using assms(2) by (auto simp: persist_if_dirty_def)
  have ix: "set (dirty_shards s) \<subseteq> {..<REPUTATION_SHARD_COUNT}"
    using assms(1) by (simp add: runtime_ok_def)
  obtain r where w: "write_shards env io (rs_store s) (dirty_shards s) d = (r, d')"
    using assms(2) dirty
    by (auto simp: persist_if_dirty_def write_user_encrypted_def Let_def
        split: prod.splits sum.splits option.splits if_splits)
  from write_shards_frame [OF ix w] dirty persist_error [OF assms(2)] show ?thesis by auto
qed

text \<open>
  C7. Whatever commands ran and whichever writes failed on the
  way, once nothing is marked dirty any more a restart of the service finds the table again:
  the same subjects, for each the same decisions (up to those that have run out), override and
  last touch, the observations of the last 30 days one by one, the tampering counters, and the
  active and retracted evidence of every source (unless its count is saturated); the same source
  policies and retraction records; and, if the load repair had not raised them, counters no lower
  than before. The service was started on well-formed files, and the metadata file is on disk: it
  was there at the start, or the table was migrated from the old single file, or the profile was
  new and some command has written it since.
\<close>

theorem persisted_table_survives_restart:
  fixes tk :: "'c task"
  assumes start: "load_sharded_store io0 d0 = Inr (st0, migrate)" "loaded_ok st0"
      "shards_formed h d0" "t0 \<le> t"
    and run: "tk = reputation_task (start_task t0 st0 migrate d0) evs" "events_until h t evs"
    and clean: "\<not> dirty_metadata (tk_state tk)" "dirty_shards (tk_state tk) = []"
    and meta: "migrate \<or> map_of d0 REPUTATION_METADATA_KEY \<noteq> None \<or>
      (\<forall>i < REPUTATION_SHARD_COUNT. map_of d0 (reputation_shard_key i) = None) \<and>
      map_of (tk_disk tk) REPUTATION_METADATA_KEY \<noteq> None"
    and reads: "\<forall>key. read_error io key = None"
  shows "\<exists>tk' :: 'c task. spawn t io (tk_disk tk) = Inr tk' \<and> tk_disk tk' = tk_disk tk \<and>
    (\<forall>k. rel_option (restores t) (map_of (entries (rs_store (tk_state tk))) k)
       (map_of (entries (rs_store (tk_state tk'))) k)) \<and>
    app_source_policies (rs_store (tk_state tk')) = app_source_policies (rs_store (tk_state tk)) \<and>
    app_source_retractions (rs_store (tk_state tk')) =
      app_source_retractions (rs_store (tk_state tk)) \<and>
    (repair_counters st0 = st0 \<longrightarrow>
      next_observation_id (rs_store (tk_state tk)) \<le> next_observation_id (rs_store (tk_state tk')) \<and>
      next_decision_id (rs_store (tk_state tk)) \<le> next_decision_id (rs_store (tk_state tk')))"
proof -
  let ?known = "migrate \<or> map_of d0 REPUTATION_METADATA_KEY \<noteq> None"
  have "task_tracks ?known (repair_counters st0 = st0) h t (start_task t0 st0 migrate d0 :: 'c task)"
    using meta by (intro start_tracks [OF start(1-3) _ start(4)]) auto
  then have "task_tracks ?known (repair_counters st0 = st0) h t tk"
    unfolding run(1) by (rule run_tracks [OF _ run(2)])
  from restart_finds [OF this clean reads] meta show ?thesis by blast
qed

text \<open>
  Before the metadata file exists, a new override is lost: setting it marks the shard of the
  subject and not the metadata, so the write succeeds and leaves a shard and no metadata, and the
  next start takes the profile for an empty one.
\<close>

lemma override_on_new_profile_is_lost:
  assumes "map_of d REPUTATION_METADATA_KEY = None" "map_of d REPUTATION_STORE_KEY = None"
    and "\<not> dirty_metadata s" "set (dirty_shards s) \<subseteq> {..<REPUTATION_SHARD_COUNT}"
    and "handle_command env io (SetUserOverride k mode note) (s, d) = (rep, s', d')"
  shows "load_sharded_store io' d' = Inr (store_default, False)"
proof -
  let ?s = "command_effect env (SetUserOverride k mode note) s"
  have clean: "\<not> dirty_metadata ?s"
    using assms(3) by (simp add: command_effect_def set_user_override_def Let_def)
  have "reputation_shard_index env k < REPUTATION_SHARD_COUNT" by simp
  then have ix: "set (dirty_shards ?s) \<subseteq> {..<REPUTATION_SHARD_COUNT}"
    using assms(4) by (simp add: command_effect_def set_user_override_def Let_def mark_subject_fields)
  obtain r s2 d2 where p: "persist_if_dirty env io (?s, d) = (r, s2, d2)"
    by (cases "persist_if_dirty env io (?s, d)")
  from persist_frame_disk [OF p ix] clean handle_effect [of env io "SetUserOverride k mode note" s d]
    assms(1,2,5) p
  have "map_of d' REPUTATION_METADATA_KEY = None" "map_of d' REPUTATION_STORE_KEY = None"
    by auto
  then show ?thesis by (simp add: load_sharded_store_def load_legacy_store_def read_user_encrypted_def)
qed

end
