(* ===== verification/Reputation_Example.thy ===== *)
theory Reputation_Example
  imports Reputation_Access Reputation_Evidence Reputation_Durability
begin

text \<open>
  A concrete table of the reputation service, used to show that the hypotheses of its
  properties can be met: a clock, channels that count what they are sent, a node that a core
  module and an app have reported and the user has banned, and a peer the user has let in
  under a restriction.
\<close>

definition demo_env :: "nat env" where
  "demo_env = \<lparr>now = 5000000, shard_hash = length, try_send = (\<lambda>c nt. (Sent, Suc c)),
     is_closed = (\<lambda>_. False), new_channel = 0\<rparr>"

definition demo_io :: io where
  "demo_io = \<lparr>write_error = (\<lambda>_. None), read_error = (\<lambda>_. None)\<rparr>"

definition full_disk_io :: io where
  "full_disk_io = \<lparr>write_error = (\<lambda>_. Some ''no space left''), read_error = (\<lambda>_. None)\<rparr>"

definition demo_details :: observation_details where
  "demo_details = \<lparr>application_code = None, description = Some ''seen''\<rparr>"

definition demo_module :: authority_id where "demo_module = Auth_CoreModule ''handshake''"
definition demo_app :: authority_id where "demo_app = Auth_App ''chat''"

definition demo_corruption :: observation_input where
  "demo_corruption =
     \<lparr>in_subject = ''node'', in_kind = DeliberateStateCorruption, in_details = demo_details\<rparr>"

definition demo_report :: "nat \<Rightarrow> authority_id \<Rightarrow> observation_kind \<Rightarrow> string \<Rightarrow> observation" where
  "demo_report i src kind k =
     \<lparr>obs_id = i, obs_subject = k, obs_source = src, obs_kind = kind,
      obs_details = demo_details, observed_at = 4999000, retracted_at = None,
      obs_app_session = None\<rparr>"

definition demo_ban :: "nat \<Rightarrow> authority_id \<Rightarrow> ban_scope \<Rightarrow> string \<Rightarrow> decision" where
  "demo_ban i src sc k =
     \<lparr>dec_id = i, dec_subject = k, dec_source = src, dec_action = Ban, requested_scope = sc,
      effective_scope = sc, reason = ''harm'', created_at = 4999000, expires_at = None,
      status = Active, revoked_at = None\<rparr>"

definition demo_node :: entry where
  "demo_node = (entry_new ''node'' 4999000)\<lparr>
     recent_observations := [demo_report 1 demo_module DeliberateStateCorruption ''node'',
       demo_report 2 demo_app Spam ''node''],
     decisions := [demo_ban 1 Auth_User NetworkInteraction ''node'']\<rparr>"

definition demo_peer :: entry where
  "demo_peer = (entry_new ''peer'' 4999000)\<lparr>
     recent_observations := [demo_report 3 demo_app Spam ''peer''],
     decisions := [demo_ban 2 demo_app (Scope_App ''chat'') ''peer''],
     user_override := Some \<lparr>uo_mode = AllowRestricted, uo_created_at = 4999000, uo_note = None\<rparr>\<rparr>"

definition demo_store :: store where
  "demo_store = store_default\<lparr>entries := [(''node'', demo_node), (''peer'', demo_peer)],
     next_observation_id := 4, next_decision_id := 3\<rparr>"

definition demo_state :: "nat runtime_state" where
  "demo_state = \<lparr>rs_store = demo_store,
     subscribers = [\<lparr>sub_subjects = None, sub_events = MASK_ALL, sub_minimum_suspicion = None,
       sub_app_context = None, sub_tx = 7\<rparr>],
     dirty_metadata = True, dirty_shards = [0..<256], periodic_persist_retry_after = 0,
     last_periodic_persist_error = None\<rparr>"

lemmas demo_defs = demo_env_def demo_details_def demo_module_def demo_app_def
  demo_corruption_def demo_report_def demo_ban_def

lemma demo_entries [simp]:
  "map_of (entries demo_store) ''node'' = Some demo_node"
  "map_of (entries demo_store) ''peer'' = Some demo_peer"
  "app_source_policies demo_store = []"
  "next_observation_id demo_store = 4"
  "next_decision_id demo_store = 3"
  "rs_store demo_state = demo_store"
  "now demo_env = 5000000"
  by (simp_all add: demo_store_def store_default_def demo_state_def demo_env_def)

lemma demo_node_ok: "entry_ok 4 3 ''node'' demo_node"
  by (auto simp: entry_ok_def demo_node_def entry_new_def observations_ok_def decisions_ok_def
      decision_scoped_def demo_defs id_fresh_def u64_max_def MAX_RECENT_OBSERVATIONS_PER_NODE_def
      recent_observation_limit_for_source_def split: authority_id.split)

lemma demo_peer_ok: "entry_ok 4 3 ''peer'' demo_peer"
  by (auto simp: entry_ok_def demo_peer_def entry_new_def observations_ok_def decisions_ok_def
      decision_scoped_def demo_defs id_fresh_def u64_max_def MAX_RECENT_OBSERVATIONS_PER_NODE_def
      recent_observation_limit_for_source_def split: authority_id.split)

lemma demo_store_ok: "store_ok demo_store"
  using demo_node_ok demo_peer_ok
  by (simp add: store_ok_def demo_store_def store_default_def keys_distinct_def)

lemma demo_state_ok: "runtime_ok demo_state"
  using demo_store_ok by (auto simp: runtime_ok_def demo_state_def REPUTATION_SHARD_COUNT_def)

lemma entry_ok_max: "entry_ok no nd k e \<Longrightarrow> entry_ok u64_max u64_max k e"
  by (auto simp: entry_ok_def observations_ok_def decisions_ok_def id_fresh_def)

lemma demo_loaded: "loaded_ok demo_store"
  using entry_ok_max [OF demo_node_ok] entry_ok_max [OF demo_peer_ok]
  by (simp add: loaded_ok_def demo_store_def store_default_def keys_distinct_def)
    (simp add: demo_node_def demo_peer_def entry_new_def demo_defs)

subsection \<open>Views and bounds in the reached states\<close>

definition demo_task :: "nat task" where
  "demo_task = reputation_task (start_task 5000000 demo_store False []) []"

lemma demo_task_entry:
  "map_of (entries (rs_store (tk_state demo_task))) ''node'' =
     Some (recompute_entry [] 5000000 demo_node)"
proof -
  have "keys_name_entries (entries (repair_counters demo_store))"
    using store_ok_keys [OF demo_store_ok] by simp
  then show ?thesis
    by (simp add: demo_task_def reputation_task_def start_task_def repair_loaded_store_def
        recompute_all_map map_of_map_vals)
qed

lemma demo_node_banned:
  assumes "map_of (entries st) ''node'' = Some (recompute_entry pol 5000000 demo_node)"
  shows "\<exists>v. build_view st 5000000 ''node'' None = Inr v \<and> network_access v = Blocked"
proof -
  obtain v where v: "build_view st 5000000 ''node'' None = Inr v"
    by (fastforce simp: build_view_def Let_def split: option.split prod.split)
  have "fst (decided_access st 5000000 (recompute_entry pol 5000000 demo_node) None) = Blocked"
    by (simp add: decided_network_Blocked recompute_entry_frame)
      (simp add: demo_node_def entry_new_def expire_decisions_def demo_defs dec_active_at_def
        is_network_ban_def source_enabled_def)
  with v assms show ?thesis by (simp add: view_network_access)
qed

theorem app_cannot_block_network_witness:
  "\<exists>e dec. map_of (entries (rs_store (tk_state demo_task))) ''node'' = Some e \<and>
     user_override e = None \<and> dec \<in> set (decisions e) \<and> dec_active_at 5000000 dec \<and>
     is_network_ban dec \<and> \<not> is_app (dec_source dec)"
  using demo_node_banned [OF demo_task_entry]
    app_cannot_block_network [OF demo_loaded demo_task_def] by blast

theorem retained_evidence_bounded_witness:
  "length (recent_observations (recompute_entry [] 5000000 demo_node)) \<le> 64 \<and>
    source_count (Auth_App ''chat'') (recompute_entry [] 5000000 demo_node) \<le> 16 \<and>
    source_count (Auth_CoreModule ''handshake'') (recompute_entry [] 5000000 demo_node) \<le> 32 \<and>
    source_count Auth_User (recompute_entry [] 5000000 demo_node) \<le> 32"
  by (rule retained_evidence_bounded [OF demo_loaded demo_task_def demo_task_entry])

theorem app_influence_bounded_witness:
  "scores_at_most 60 (summary (recompute_entry [] 5000000 demo_peer)) \<and>
    s_class (summary (recompute_entry [] 5000000 demo_peer)) \<in> {Class_New, NormalUser}"
  using app_influence_bounded [of demo_peer "{''chat''}" "[]" 5000000]
  by (simp add: sources_of_def demo_peer_def entry_new_def demo_defs is_network_ban_def)

theorem view_blocks_exactly_witness:
  "\<exists>v. build_view demo_store 5000000 ''node'' (Some ''chat'') = Inr v \<and>
    network_access v = Blocked \<and> app_access v = Some Blocked"
proof -
  obtain v where v: "build_view demo_store 5000000 ''node'' (Some ''chat'') = Inr v"
    by (fastforce simp: build_view_def Let_def split: option.split prod.split)
  have "user_override demo_node = None \<and> (\<exists>d \<in> set (decisions demo_node).
      dec_active_at 5000000 d \<and> source_enabled demo_store (dec_source d) \<and> dec_action d = Ban \<and>
      is_network_ban d \<and> covers_app ''chat'' d)"
    by (simp add: demo_node_def entry_new_def demo_defs dec_active_at_def source_enabled_def
        is_network_ban_def covers_app_def)
  with view_blocks_exactly [OF demo_entries(1) v] v show ?thesis by blast
qed

theorem user_override_wins_witness:
  "\<exists>v. build_view demo_store 5000000 ''peer'' (Some ''chat'') = Inr v \<and>
    network_access v = Restricted \<and> app_access v = Some Restricted \<and> v_visibility_weight v \<le> 35"
proof -
  obtain v where v: "build_view demo_store 5000000 ''peer'' (Some ''chat'') = Inr v"
    by (fastforce simp: build_view_def Let_def split: option.split prod.split)
  have "user_override demo_peer =
      Some \<lparr>uo_mode = AllowRestricted, uo_created_at = 4999000, uo_note = None\<rparr>"
    by (simp add: demo_peer_def entry_new_def)
  from user_override_wins [OF demo_entries(2) v this] v show ?thesis by simp
qed

theorem visibility_weight_meaning_witness:
  "10 \<le> visibility_weight (recompute_entry [] 5000000 demo_node) Restricted None \<and>
    visibility_weight (recompute_entry [] 5000000 demo_node) Restricted None \<le> 35"
  using visibility_weight_meaning [OF refl, of "[]" 5000000 demo_node Restricted None]
  by (simp add: not_less)

subsection \<open>Recording and retracting evidence\<close>

lemma demo_submit:
  obtains i b s' where "submit_observation demo_env (provenance_authority demo_module)
    demo_corruption demo_state = (Inr (i, b), s')"
proof -
  have "details_validate (in_details demo_corruption) = Inr ()"
    by (simp add: details_validate_def demo_defs MAX_DESCRIPTION_BYTES_def)
  then have "\<exists>i b s'. submit_observation demo_env (provenance_authority demo_module)
      demo_corruption demo_state = (Inr (i, b), s')"
    by (simp add: submit_observation_def Let_def split: prod.split)
  then show ?thesis using that by blast
qed

lemma demo_subject [simp]: "in_subject demo_corruption = ''node''"
  by (simp add: demo_corruption_def)

theorem tampering_counters_survive_compaction_witness:
  "impossible_protocol_events (core_counts (submit_entry
      (demo_report 4 demo_module DeliberateStateCorruption ''node'') 5000000 demo_node)) = 0 \<and>
    deliberate_corruption_events (core_counts (submit_entry
      (demo_report 4 demo_module DeliberateStateCorruption ''node'') 5000000 demo_node)) = 2"
proof -
  have "impossible_protocol_events (core_counts demo_node) = 0"
    "deliberate_corruption_events (core_counts demo_node) = 1"
    by (simp_all add: core_counts_sum tamper_counter_def demo_node_def entry_new_def
        core_history_sum_def core_recent_sum_def demo_defs obs_active_def is_core_def
        contribution_events is_app_def u32_max_def)
  moreover have "obs_active (demo_report 4 demo_module DeliberateStateCorruption ''node'')"
    by (simp add: obs_active_def demo_report_def)
  ultimately show ?thesis
    using tampering_counters_survive_compaction [OF demo_node_ok,
        of "demo_report 4 demo_module DeliberateStateCorruption ''node''" 5000000]
    by (simp add: demo_report_def demo_module_def is_core_def u32_max_def)
qed

lemma demo_thresholds:
  assumes "submit_observation demo_env (provenance_authority demo_module) demo_corruption
      demo_state = (Inr (i, b), s')"
  shows "\<exists>e'. map_of (entries (rs_store s')) ''node'' = Some e' \<and> user_override e' = None \<and>
    integrity_thresholds_met (core_counts e')"
proof -
  obtain st e where st: "map_of (entries st) (in_subject demo_corruption) = Some e"
    and e: "e = submit_entry (recorded_observation i (now demo_env)
        (provenance_authority demo_module) demo_corruption) (now demo_env)
       (case map_of (entries (rs_store demo_state)) (in_subject demo_corruption) of
          None \<Rightarrow> entry_new (in_subject demo_corruption) (now demo_env) | Some e0 \<Rightarrow> e0)"
    and i: "i = next_observation_id (rs_store demo_state)"
    and s': "rs_store s' = recompute_subject (snd (ensure_automatic_integrity_ban st
       (in_subject demo_corruption) (now demo_env))) (in_subject demo_corruption) (now demo_env)"
    by (rule submit_observation_cases [OF assms])
  let ?ob = "recorded_observation 4 5000000 (provenance_authority demo_module) demo_corruption"
  have e: "e = submit_entry ?ob 5000000 demo_node" using e i by simp
  have kd: "keys_distinct (historical_by_source demo_node)"
    using demo_node_ok by (simp add: entry_ok_def)
  let ?c = "compact_to_capacity (compact_source_observation_quota
    (compact_recent_observations demo_node 5000000) demo_module)"
  have c: "compacts demo_node ?c"
    unfolding compact_recent_observations_def by (blast intro: compacts_trans loops_compact)
  have "deliberate_corruption_events (core_counts ?c) =
      deliberate_corruption_events (core_counts demo_node)"
    by (rule compacts_core_counts [OF c kd]) (simp add: tamper_counter_def)
  also have "\<dots> = 1"
    by (simp add: core_counts_sum tamper_counter_def demo_node_def entry_new_def
        core_history_sum_def core_recent_sum_def demo_defs obs_active_def is_core_def
        contribution_events is_app_def u32_max_def)
  finally have "deliberate_corruption_events (core_counts e) = 2"
    by (simp add: e submit_entry_def Let_def core_counts_snoc tamper_counter_def)
      (simp add: core_counts_snoc tamper_counter_def recorded_observation_def
        provenance_authority_def demo_defs obs_active_def is_core_def contribution_events
        is_app_def u32_max_def)
  then have met: "integrity_thresholds_met (core_counts e)"
    by (simp add: integrity_thresholds_met_def)
  have ue: "user_override e = None" "keys_distinct (historical_by_source e)"
    using compacts_frame [OF c] compacts_keys_distinct [OF c kd]
    by (simp_all add: e submit_entry_def Let_def recorded_observation_def
        provenance_authority_def demo_node_def entry_new_def)
  obtain e1 where e1: "map_of (entries (snd (ensure_automatic_integrity_ban st ''node'' 5000000)))
      ''node'' = Some e1" "recent_observations e1 = recent_observations e"
      "historical_by_source e1 = historical_by_source e" "user_override e1 = user_override e"
    using ensure_ban_entry [of st "''node''" e 5000000] st by auto
  then show ?thesis
    using met ue by (auto simp: s' store_simps recompute_entry_frame thresholds_recompute
        core_counts_cong [of e1 e])
qed

theorem tampering_is_banned_witness:
  "\<exists>(s' :: nat runtime_state) e' v. map_of (entries (rs_store s')) ''node'' = Some e' \<and>
    classifier_ban_active 5000000 e' \<and>
    build_view (rs_store s') 5000000 ''node'' None = Inr v \<and> network_access v = Blocked"
proof -
  obtain i b s' where s: "submit_observation demo_env (provenance_authority demo_module)
    demo_corruption demo_state = (Inr (i, b), s')" by (rule demo_submit)
  obtain e' where e': "map_of (entries (rs_store s')) ''node'' = Some e'"
    "user_override e' = None" "integrity_thresholds_met (core_counts e')"
    using demo_thresholds [OF s] by blast
  from tampering_is_banned [OF demo_state_ok s, of e' None] e' obtain v where
    "classifier_ban_active 5000000 e'" "build_view (rs_store s') 5000000 ''node'' None = Inr v"
    "network_access v = Blocked" by auto
  with e'(1) show ?thesis by blast
qed

lemma demo_node_evidence:
  "active_evidence src demo_node + retracted_evidence src demo_node \<le> u64_max"
  "active_evidence demo_module demo_node = 1" "active_evidence demo_app demo_node = 1"
  "retracted_evidence src demo_node = 0"
  by (simp_all add: active_evidence_def retracted_evidence_def demo_node_def entry_new_def
      history_of_def aggregate_default_def delta_zero_def demo_defs obs_active_def u64_max_def)

theorem submission_conserves_evidence_witness:
  "\<exists>(s' :: nat runtime_state) e'. map_of (entries (rs_store s')) ''node'' = Some e' \<and>
    active_evidence demo_module e' = 2 \<and> retracted_evidence demo_module e' = 0"
proof -
  obtain i b s' where s: "submit_observation demo_env (provenance_authority demo_module)
    demo_corruption demo_state = (Inr (i, b), s')" by (rule demo_submit)
  have e: "demo_node = entry_or_new (rs_store demo_state) (in_subject demo_corruption) (now demo_env)"
    by (simp add: entry_or_new_def)
  have "active_evidence demo_module demo_node < u64_max"
    by (simp add: demo_node_evidence u64_max_def)
  from submission_conserves_evidence [OF s e this] demo_node_evidence obtain e' where
    "map_of (entries (rs_store s')) ''node'' = Some e'" "active_evidence demo_module e' = 2"
    "retracted_evidence demo_module e' = 0"
    by (auto simp: provenance_authority_def)
  then show ?thesis by blast
qed

theorem app_retraction_removes_influence_witness:
  "\<exists>(s' :: nat runtime_state) e'. map_of (entries (rs_store s')) ''node'' = Some e' \<and>
    active_evidence demo_app e' = 0 \<and> retracted_evidence demo_app e' = 1 \<and>
    active_evidence demo_module e' = 1 \<and>
    demo_ban 1 Auth_User NetworkInteraction ''node'' \<in> set (decisions e')"
proof -
  obtain rep s' where s: "retract_app_source demo_env ''chat'' ''spam reports'' demo_state =
      (Inr rep, s')"
    by (simp add: retract_app_source_def MAX_DESCRIPTION_BYTES_def Let_def)
  have n: "map_of (entries (rs_store demo_state)) ''node'' = Some demo_node" by simp
  have all: "\<forall>src. active_evidence src demo_node + retracted_evidence src demo_node \<le> u64_max"
    using demo_node_evidence(1) by blast
  obtain e' where e': "map_of (entries (rs_store s')) ''node'' = Some e'"
    "active_evidence demo_app e' = 0" "retracted_evidence demo_app e' = 1"
    "active_evidence demo_module e' = 1"
    "filter (\<lambda>d. dec_source d \<noteq> demo_app \<and> dec_active_at 5000000 d) (decisions e') =
      filter (\<lambda>d. dec_source d \<noteq> demo_app \<and> dec_active_at 5000000 d) (decisions demo_node)"
    using app_retraction_removes_influence [OF s n all] demo_node_evidence
    by (auto simp: demo_app_def demo_module_def)
  have "demo_ban 1 Auth_User NetworkInteraction ''node'' \<in>
      set (filter (\<lambda>d. dec_source d \<noteq> demo_app \<and> dec_active_at 5000000 d) (decisions demo_node))"
    by (simp add: demo_node_def demo_defs dec_active_at_def)
  then show ?thesis using e'(1-4) unfolding e'(5) [symmetric] by auto
qed

theorem gc_removes_exactly_expired_witness:
  "map_of (entries (rs_store (snd (run_garbage_collection demo_env 900000000 demo_state))))
     ''nobody'' = None"
proof -
  obtain n s' where s: "run_garbage_collection demo_env 900000000 demo_state = (n, s')" by force
  have "map_of (entries demo_store) ''nobody'' = None" by (simp add: demo_store_def)
  with gc_removes_exactly_expired [OF demo_state_ok s, of "''nobody''"] s show ?thesis by simp
qed

theorem gc_keeps_what_matters_witness:
  "\<exists>e'. map_of (entries (rs_store (snd (run_garbage_collection demo_env 900000000 demo_state))))
     ''node'' = Some e' \<and> last_touched e' = 4999000"
proof -
  obtain n s' where s: "run_garbage_collection demo_env 900000000 demo_state = (n, s')" by force
  have "map_of (entries (rs_store demo_state)) ''node'' = Some demo_node" by simp
  from gc_keeps_what_matters [OF demo_state_ok s this] s show ?thesis
    by (auto simp: demo_node_def entry_new_def demo_ban_def)
qed

subsection \<open>Identifiers, withdrawal and notices\<close>

theorem submission_gets_fresh_id_witness:
  "\<exists>i (s' :: nat runtime_state) e' ob. i \<notin> obs_id ` set (recent_observations demo_node) \<and>
    map_of (entries (rs_store s')) ''node'' = Some e' \<and> ob \<in> set (recent_observations e') \<and>
    obs_id ob = i \<and> obs_source ob = demo_module"
proof -
  obtain i b s' where s: "submit_observation demo_env (provenance_authority demo_module)
    demo_corruption demo_state = (Inr (i, b), s')" by (rule demo_submit)
  have "next_observation_id (rs_store demo_state) < u64_max" by (simp add: u64_max_def)
  note r = submission_gets_fresh_id [OF demo_state_ok s this]
  have "(''node'', demo_node) \<in> set (entries (rs_store demo_state))"
    by (simp add: demo_store_def)
  from bspec [OF conjunct1 [OF r] this]
  have "i \<notin> obs_id ` set (recent_observations demo_node)" by simp
  moreover have "prov_authority (provenance_authority demo_module) = demo_module"
    by (simp add: provenance_authority_def)
  moreover obtain e' ob where "map_of (entries (rs_store s')) ''node'' = Some e'"
    "ob \<in> set (recent_observations e')" "obs_id ob = i"
    "obs_source ob = prov_authority (provenance_authority demo_module)"
    using conjunct2 [OF r] unfolding demo_subject by (elim exE conjE)
  ultimately show ?thesis by (intro exI [of _ i] exI [of _ s'] exI [of _ e'] exI [of _ ob]) simp
qed

theorem withdrawal_by_author_only_witness:
  "handle_command demo_env demo_io (RetractOwnObservation demo_app ''node'' 1) (demo_state, []) =
     (Re_Unit (Inl PermissionDenied), demo_state, []) \<and>
   handle_command demo_env demo_io (RevokeOwnDecision demo_app ''node'' 1) (demo_state, []) =
     (Re_Unit (Inl PermissionDenied), demo_state, [])"
proof -
  have "map_of (entries (rs_store demo_state)) ''node'' = Some demo_node" by simp
  from withdrawal_by_author_only [OF this, of 1 demo_app demo_env demo_io "[]"] show ?thesis
    by (simp add: demo_node_def entry_new_def demo_defs)
qed

theorem notices_reach_listeners_witness:
  "sub_tx (hd (subscribers (emit_notice demo_env ''node'' SummaryChanged demo_state))) = 8 \<and>
    length (subscribers (emit_notice demo_env ''node'' SummaryChanged demo_state)) = 1"
proof -
  let ?sub = "\<lparr>sub_subjects = None, sub_events = MASK_ALL, sub_minimum_suspicion = None,
    sub_app_context = None, sub_tx = 7 :: nat\<rparr>"
  have "?sub \<in> set (subscribers demo_state)" by (simp add: demo_state_def)
  from notices_reach_listeners [OF this, of demo_env, where k = "''node''" and kind = SummaryChanged]
  have r: "?sub\<lparr>sub_tx := 8\<rparr> \<in> set (subscribers (emit_notice demo_env ''node'' SummaryChanged
      demo_state))"
    "length (subscribers (emit_notice demo_env ''node'' SummaryChanged demo_state)) = 1"
    by (simp_all add: demo_env_def wants_def below_minimum_def mask_contains_def MASK_ALL_def
        event_bit_def demo_state_def)
  then show ?thesis
    by (cases "subscribers (emit_notice demo_env ''node'' SummaryChanged demo_state)") auto
qed

subsection \<open>Storage\<close>

lemma persist_full_disk:
  "dirty_shards s = i # ix \<Longrightarrow>
   fst (persist_if_dirty env full_disk_io (s, d)) = Inl (Persistence ''no space left'')"
  by (simp add: persist_if_dirty_def full_disk_io_def write_user_encrypted_def)

lemma write_shards_never_fails: "fst (write_shards env demo_io st ix d) = Inr ()"
  by (induction ix arbitrary: d) (simp_all add: write_user_encrypted_def demo_io_def)

lemma persist_never_fails: "fst (persist_if_dirty env demo_io (s, d)) = Inr ()"
  using write_shards_never_fails [of env "rs_store s" "dirty_shards s" d]
  by (auto simp: persist_if_dirty_def write_user_encrypted_def demo_io_def Let_def
      split: prod.split sum.split)

theorem failed_write_keeps_old_table_witness:
  "\<exists>e d'. persist_if_dirty demo_env full_disk_io (demo_state, []) = (Inl e, demo_state, d') \<and>
    map_of d' REPUTATION_METADATA_KEY = None"
proof -
  have "dirty_shards demo_state = 0 # [1..<256]"
    by (simp add: demo_state_def upt_rec [of 0])
  then obtain e s' d' where p: "persist_if_dirty demo_env full_disk_io (demo_state, []) =
      (Inl e, s', d')"
    by (metis persist_full_disk prod.collapse)
  from failed_write_keeps_old_table [OF demo_state_ok p] p show ?thesis by auto
qed

text \<open>
  A table that was in the old single file is migrated, the user lets \<open>node\<close> in, and the service
  writes everything and stops.
\<close>

definition demo_disk :: disk where
  "demo_disk = [(REPUTATION_STORE_KEY, Stored_Store demo_store)]"

definition demo_events :: "(nat env \<times> io \<times> task_event) list" where
  "demo_events = [(demo_env, demo_io, Ev_Command (SetUserOverride ''node'' Allow None)),
     (demo_env, demo_io, Ev_Command Flush)]"

lemma demo_load: "load_sharded_store demo_io demo_disk = Inr (demo_store, True)"
  by (simp add: load_sharded_store_def load_legacy_store_def read_user_encrypted_def demo_disk_def
      demo_io_def REPUTATION_STORE_KEY_def REPUTATION_METADATA_KEY_def demo_store_def
      store_default_def)

lemma demo_formed: "shards_formed length demo_disk"
  by (simp add: shards_formed_def demo_disk_def reputation_shard_key_def
      REPUTATION_SHARD_KEY_PREFIX_def REPUTATION_STORE_KEY_def)

lemma flush_cleans:
  assumes "\<not> tk_exited tk"
  shows "\<not> dirty_metadata (tk_state (reputation_step tk (env, demo_io, Ev_Command Flush))) \<and>
    dirty_shards (tk_state (reputation_step tk (env, demo_io, Ev_Command Flush))) = [] \<and>
    rs_store (tk_state (reputation_step tk (env, demo_io, Ev_Command Flush))) = rs_store (tk_state tk)"
proof -
  obtain s' d' where p: "persist_if_dirty env demo_io (tk_state tk, tk_disk tk) = (Inr (), s', d')"
    using persist_never_fails [of env "tk_state tk" "tk_disk tk"] by (metis prod.collapse)
  with persist_ok_clean [OF p] assms show ?thesis
    by (simp add: reputation_step_def handle_command_def replying_def)
qed

lemma override_in_table:
  assumes "\<not> tk_exited tk"
    and "tk' = reputation_step tk (demo_env, demo_io, Ev_Command (SetUserOverride k mode None))"
  shows "\<not> tk_exited tk' \<and> (\<exists>e. map_of (entries (rs_store (tk_state tk'))) k = Some e \<and>
    user_override e = Some \<lparr>uo_mode = mode, uo_created_at = 5000000, uo_note = None\<rparr>)"
proof -
  let ?c = "SetUserOverride k mode None" and ?s = "tk_state tk"
  obtain r s' d' where c: "handle_command demo_env demo_io ?c (?s, tk_disk tk) = (r, s', d')"
    by (cases "handle_command demo_env demo_io ?c (?s, tk_disk tk)")
  obtain y s2 d2 where p: "persist_if_dirty demo_env demo_io (command_effect demo_env ?c ?s,
      tk_disk tk) = (y, s2, d2)"
    by (cases "persist_if_dirty demo_env demo_io (command_effect demo_env ?c ?s, tk_disk tk)")
  have "rs_store s' = rs_store (command_effect demo_env ?c ?s)"
    using handle_effect [of demo_env demo_io ?c ?s "tk_disk tk"] c p
      persist_frame(1) [of demo_env demo_io "command_effect demo_env ?c ?s" "tk_disk tk"] by auto
  moreover have "tk' = \<lparr>tk_state = s', tk_disk = d', tk_exited = False\<rparr>"
    using c assms by (simp add: reputation_step_def)
  ultimately show ?thesis
    by (simp add: command_effect_def set_user_override_def Let_def store_simps
        recompute_subject_def recompute_entry_frame)
qed

theorem persisted_table_survives_restart_witness:
  "\<exists>(tk :: nat task) (tk' :: nat task) e' u.
     tk = reputation_task (start_task 5000000 demo_store True demo_disk) demo_events \<and>
     spawn 5000000 demo_io (tk_disk tk) = Inr tk' \<and>
     map_of (entries (rs_store (tk_state tk'))) ''node'' = Some e' \<and>
     user_override e' = Some u \<and> uo_mode u = Allow"
proof -
  define tk0 :: "nat task" where "tk0 = start_task 5000000 demo_store True demo_disk"
  define tk1 where "tk1 = reputation_step tk0
    (demo_env, demo_io, Ev_Command (SetUserOverride ''node'' Allow None))"
  define tk where "tk = reputation_task tk0 demo_events"
  have tk: "tk = reputation_step tk1 (demo_env, demo_io, Ev_Command Flush)"
    by (simp add: tk_def demo_events_def reputation_task_def tk1_def)
  have "\<not> tk_exited tk0" by (simp add: tk0_def start_task_def Let_def)
  from override_in_table [OF this tk1_def] obtain e where one: "\<not> tk_exited tk1"
    "map_of (entries (rs_store (tk_state tk1))) ''node'' = Some e"
    "user_override e = Some \<lparr>uo_mode = Allow, uo_created_at = 5000000, uo_note = None\<rparr>" by blast
  from flush_cleans [OF one(1), of demo_env] one(2)
  have clean: "\<not> dirty_metadata (tk_state tk)" "dirty_shards (tk_state tk) = []"
    "map_of (entries (rs_store (tk_state tk))) ''node'' = Some e" by (simp_all add: tk)
  have "events_until length 5000000 demo_events"
    by (simp add: events_until_def demo_events_def demo_env_def)
  moreover have "\<forall>key. read_error demo_io key = None" by (simp add: demo_io_def)
  ultimately obtain tk' :: "nat task" where tk': "spawn 5000000 demo_io (tk_disk tk) = Inr tk'"
    "rel_option (restores 5000000) (Some e) (map_of (entries (rs_store (tk_state tk'))) ''node'')"
    using persisted_table_survives_restart [OF demo_load demo_loaded demo_formed order_refl
        tk_def [unfolded tk0_def] _ clean(1,2) disjI1 [OF TrueI]] clean(3)
    by metis
  from tk'(2) obtain e' where
    "map_of (entries (rs_store (tk_state tk'))) ''node'' = Some e'" "restores 5000000 e e'"
    unfolding option_rel_Some1 by blast
  then show ?thesis
    using tk'(1) one(3) tk_def tk0_def by (auto simp: restores_def)
qed

end
