(* ===== verification/Node_Entry.thy ===== *)
theory Node_Entry
  imports Prelude
begin

text \<open>
  One node of the topology state (\<open>src/node_list/mod.rs\<close>): an unverified candidate, known only
  from the tables of others, and a verified list entry, with their advertiser observations and
  creation claims, the failure backoff and the presence of a node. Sorting a vector by a key and
  removing its head is \<open>make_room\<close>.
\<close>

definition MAX_ADVERTISERS_PER_NODE :: nat where "MAX_ADVERTISERS_PER_NODE = 32"
definition MAX_CREATION_CLAIMS_PER_NODE :: nat where "MAX_CREATION_CLAIMS_PER_NODE = 32"
definition MAX_CANDIDATE_FAILURE_BACKOFF_SECS :: nat where
  "MAX_CANDIDATE_FAILURE_BACKOFF_SECS = 6 * 60 * 60"
definition USER_PRESENCE_STALE_AFTER_SECS :: nat where
  "USER_PRESENCE_STALE_AFTER_SECS = 15 * 60"
definition NODE_PRESENCE_CACHE_TRUST_SECS :: nat where
  "NODE_PRESENCE_CACHE_TRUST_SECS = USER_PRESENCE_STALE_AFTER_SECS"

datatype node_verification_state = Advertised | DhtVerified | Authenticated

fun verification_rank :: "node_verification_state \<Rightarrow> nat" where
  "verification_rank Advertised = 0"
| "verification_rank DhtVerified = 1"
| "verification_rank Authenticated = 2"

instantiation node_verification_state :: linorder
begin
definition less_eq_node_verification_state ::
  "node_verification_state \<Rightarrow> node_verification_state \<Rightarrow> bool" where
  "less_eq_node_verification_state a b = (verification_rank a \<le> verification_rank b)"
definition less_node_verification_state ::
  "node_verification_state \<Rightarrow> node_verification_state \<Rightarrow> bool" where
  "less_node_verification_state a b = (verification_rank a < verification_rank b)"
instance
proof
  fix a b :: node_verification_state
  show "a \<le> b \<Longrightarrow> b \<le> a \<Longrightarrow> a = b"
    by (cases a; cases b) (simp_all add: less_eq_node_verification_state_def)
qed (auto simp: less_eq_node_verification_state_def less_node_verification_state_def)
end

record advertiser_observation =
  ao_advertiser :: record_key
  first_reported_at :: nat
  last_reported_at :: nat
  report_count :: nat

record account_creation_claim =
  claimed_created_at :: nat
  first_observed_at :: nat
  last_observed_at :: nat
  reported_by :: "record_key option"

record future_creation_event =
  fe_node :: record_key
  fe_claimed_created_at :: nat
  first_detected_at :: nat
  cluster_ban_requested :: bool

subsection \<open>The bounded lists of a node\<close>

text \<open>\<open>add_creation_claim\<close>, which candidates and list entries have in the same form.\<close>

definition add_claim ::
  "nat \<Rightarrow> record_key option \<Rightarrow> nat \<Rightarrow> account_creation_claim list \<Rightarrow> account_creation_claim list"
  where
  "add_claim created reporter t cs =
    (let same = (\<lambda>c. claimed_created_at c = created \<and> reported_by c = reporter) in
     if created = 0 then cs
     else if \<exists>c \<in> set cs. same c then update_first same (\<lambda>c. c\<lparr>last_observed_at := t\<rparr>) cs
     else make_room MAX_CREATION_CLAIMS_PER_NODE last_observed_at cs @
       [\<lparr>claimed_created_at = created, first_observed_at = t, last_observed_at = t,
         reported_by = reporter\<rparr>])"

text \<open>\<open>CandidateEntry::add_advertiser\<close>.\<close>

definition add_report ::
  "record_key \<Rightarrow> nat \<Rightarrow> advertiser_observation list \<Rightarrow> advertiser_observation list" where
  "add_report adv t os =
    (let same = (\<lambda>ob. ao_advertiser ob = adv) in
     if \<exists>ob \<in> set os. same ob
     then update_first same (\<lambda>ob. ob\<lparr>last_reported_at := t,
            report_count := sat_add u32_max (report_count ob) 1\<rparr>) os
     else make_room MAX_ADVERTISERS_PER_NODE last_reported_at os @
       [\<lparr>ao_advertiser = adv, first_reported_at = t, last_reported_at = t, report_count = 1\<rparr>])"

text \<open>\<open>ListEntry::add_advertiser_observation\<close>.\<close>

definition merge_report ::
  "advertiser_observation \<Rightarrow> advertiser_observation list \<Rightarrow> advertiser_observation list" where
  "merge_report new os =
    (let same = (\<lambda>ob. ao_advertiser ob = ao_advertiser new) in
     if \<exists>ob \<in> set os. same ob
     then update_first same (\<lambda>ob. ob\<lparr>
            first_reported_at := min (first_reported_at ob) (first_reported_at new),
            last_reported_at := max (last_reported_at ob) (last_reported_at new),
            report_count := sat_add u32_max (report_count ob) (report_count new)\<rparr>) os
     else make_room MAX_ADVERTISERS_PER_NODE last_reported_at os @ [new])"

text \<open>What the three operations keep: the bound, and one element per key.\<close>

definition advertisers_ok :: "advertiser_observation list \<Rightarrow> bool" where
  "advertisers_ok os \<longleftrightarrow>
     length os \<le> MAX_ADVERTISERS_PER_NODE \<and> distinct (map ao_advertiser os)"

definition claim_key :: "account_creation_claim \<Rightarrow> nat \<times> record_key option" where
  "claim_key c = (claimed_created_at c, reported_by c)"

definition claims_ok :: "account_creation_claim list \<Rightarrow> bool" where
  "claims_ok cs \<longleftrightarrow>
     length cs \<le> MAX_CREATION_CLAIMS_PER_NODE \<and> distinct (map claim_key cs) \<and>
     (\<forall>c \<in> set cs. claimed_created_at c \<noteq> 0)"

lemma advertisers_ok_Nil [simp]: "advertisers_ok []" and claims_ok_Nil [simp]: "claims_ok []"
  by (simp_all add: advertisers_ok_def claims_ok_def)

lemma advertisers_ok_snoc:
  assumes "advertisers_ok os" "\<forall>ob \<in> set os. ao_advertiser ob \<noteq> ao_advertiser new"
  shows "advertisers_ok (make_room MAX_ADVERTISERS_PER_NODE last_reported_at os @ [new])"
proof -
  let ?m = "make_room MAX_ADVERTISERS_PER_NODE last_reported_at os"
  have "length ?m < MAX_ADVERTISERS_PER_NODE" "distinct (map ao_advertiser ?m)"
    using assms(1) by (auto simp: advertisers_ok_def MAX_ADVERTISERS_PER_NODE_def
        intro: make_room_length make_room_distinct)
  moreover have "ao_advertiser new \<notin> ao_advertiser ` set ?m"
    using assms(2) make_room_subset [of MAX_ADVERTISERS_PER_NODE last_reported_at os] by force
  ultimately show ?thesis by (simp add: advertisers_ok_def)
qed

lemma add_report_ok: "advertisers_ok os \<Longrightarrow> advertisers_ok (add_report adv t os)"
  by (auto simp: add_report_def Let_def intro!: advertisers_ok_snoc)
    (simp add: advertisers_ok_def map_update_first)

lemma merge_report_ok: "advertisers_ok os \<Longrightarrow> advertisers_ok (merge_report new os)"
  by (auto simp: merge_report_def Let_def intro!: advertisers_ok_snoc)
    (simp add: advertisers_ok_def map_update_first)

lemma add_claim_ok:
  assumes "claims_ok cs"
  shows "claims_ok (add_claim created reporter t cs)"
proof -
  let ?same = "\<lambda>c. claimed_created_at c = created \<and> reported_by c = reporter"
  consider "created = 0" | (old) "created \<noteq> 0" "\<exists>c \<in> set cs. ?same c"
    | (new) "created \<noteq> 0" "\<forall>c \<in> set cs. \<not> ?same c" by blast
  then show ?thesis
  proof cases
    case old
    let ?u = "update_first ?same (\<lambda>c. c\<lparr>last_observed_at := t\<rparr>) cs"
    have "map claim_key ?u = map claim_key cs"
      by (rule map_update_first) (simp add: claim_key_def)
    moreover have "\<forall>c \<in> set ?u. claimed_created_at c \<noteq> 0"
      using assms by (auto simp: claims_ok_def dest!: set_update_first)
    ultimately show ?thesis
      using assms old by (simp add: add_claim_def Let_def claims_ok_def)
  next
    case new
    let ?m = "make_room MAX_CREATION_CLAIMS_PER_NODE last_observed_at cs"
    have sub: "set ?m \<subseteq> set cs" by (rule make_room_subset)
    have "length ?m < MAX_CREATION_CLAIMS_PER_NODE" "distinct (map claim_key ?m)"
      using assms by (auto simp: claims_ok_def MAX_CREATION_CLAIMS_PER_NODE_def
          intro: make_room_length make_room_distinct)
    moreover have "(created, reporter) \<notin> claim_key ` set ?m"
      using new(2) sub by (auto simp: claim_key_def)
    moreover have "\<forall>c \<in> set ?m. claimed_created_at c \<noteq> 0"
      using assms sub by (auto simp: claims_ok_def)
    moreover have "add_claim created reporter t cs = ?m @
        [\<lparr>claimed_created_at = created, first_observed_at = t, last_observed_at = t,
          reported_by = reporter\<rparr>]"
      using new by (auto simp: add_claim_def Let_def)
    ultimately show ?thesis using new(1) by (simp add: claims_ok_def claim_key_def)
  qed (use assms in \<open>simp add: add_claim_def\<close>)
qed

subsection \<open>Unverified candidates\<close>

record candidate_entry =
  ce_address :: record_key
  ce_first_advertised_at :: nat
  ce_last_advertised_at :: nat
  ce_advertisers :: "advertiser_observation list"
  ce_creation_claims :: "account_creation_claim list"
  failed_verifications :: nat
  last_verification_failure_at :: nat
  next_verification_attempt_at :: nat

definition candidate_new :: "record_key \<Rightarrow> nat \<Rightarrow> candidate_entry" where
  "candidate_new a t =
     \<lparr>ce_address = a, ce_first_advertised_at = t, ce_last_advertised_at = t, ce_advertisers = [],
      ce_creation_claims = [], failed_verifications = 0, last_verification_failure_at = 0,
      next_verification_attempt_at = 0\<rparr>"

definition add_advertiser :: "record_key \<Rightarrow> nat \<Rightarrow> candidate_entry \<Rightarrow> candidate_entry" where
  "add_advertiser adv t c = c\<lparr>ce_advertisers := add_report adv t (ce_advertisers c)\<rparr>"

definition candidate_add_creation_claim ::
  "nat \<Rightarrow> record_key option \<Rightarrow> nat \<Rightarrow> candidate_entry \<Rightarrow> candidate_entry" where
  "candidate_add_creation_claim created reporter t c =
     c\<lparr>ce_creation_claims := add_claim created reporter t (ce_creation_claims c)\<rparr>"

definition candidate_mark_failed :: "nat \<Rightarrow> candidate_entry \<Rightarrow> candidate_entry" where
  "candidate_mark_failed t c =
    (let failed = sat_add u16_max (failed_verifications c) 1;
         exponent = min (failed - 1) 12;
         delay = min (sat_mul u64_max 30 (2 ^ exponent)) MAX_CANDIDATE_FAILURE_BACKOFF_SECS
     in c\<lparr>failed_verifications := failed, last_verification_failure_at := t,
          next_verification_attempt_at := sat_add u64_max t delay\<rparr>)"

definition is_due_at :: "nat \<Rightarrow> candidate_entry \<Rightarrow> bool" where
  "is_due_at t c \<longleftrightarrow> next_verification_attempt_at c \<le> t"

subsection \<open>Verified list entries\<close>

datatype node_presence_state =
    Online | ExplicitlyOffline | StaleOnlineClaim | NeedsRefresh | Unknown

record list_entry =
  le_address :: record_key
  last_update :: nat
  mailbox_range :: "nat \<times> nat"
  mailbox_inlist :: "nat list"
  routingtable_minhash :: "nat list"
  first_seen :: nat
  last_seen :: nat
  verification_state :: node_verification_state
  first_advertised_at :: nat
  last_advertised_at :: nat
  last_direct_dht_read_at :: nat
  last_authenticated_at :: nat
  le_advertisers :: "advertiser_observation list"
  account_created_at :: "nat option"
  le_creation_claims :: "account_creation_claim list"
  presence_checked_at :: nat
  presence_read_succeeded :: bool
  advertised_online :: bool
  last_online :: nat
  last_login :: nat
  status_updated_at :: nat
  protocol_version :: nat
  capability_flags :: "64 word"
  application_ids :: "string list"
  app_info_updated_at :: nat
  seen_in :: "nat list"

definition list_entry_new :: "record_key \<Rightarrow> nat \<Rightarrow> list_entry" where
  "list_entry_new a t =
     \<lparr>le_address = a, last_update = t, mailbox_range = (0, 0), mailbox_inlist = [0, 0, 0, 0],
      routingtable_minhash = [0, 0, 0, 0], first_seen = 0, last_seen = 0,
      verification_state = Advertised, first_advertised_at = t, last_advertised_at = t,
      last_direct_dht_read_at = 0, last_authenticated_at = 0, le_advertisers = [],
      account_created_at = None, le_creation_claims = [], presence_checked_at = 0,
      presence_read_succeeded = False, advertised_online = False, last_online = 0,
      last_login = 0, status_updated_at = 0, protocol_version = 0, capability_flags = 0,
      application_ids = [], app_info_updated_at = 0, seen_in = []\<rparr>"

definition is_publishable :: "list_entry \<Rightarrow> bool" where
  "is_publishable e \<longleftrightarrow> DhtVerified \<le> verification_state e"

definition add_creation_claim ::
  "nat \<Rightarrow> record_key option \<Rightarrow> nat \<Rightarrow> list_entry \<Rightarrow> list_entry" where
  "add_creation_claim created reporter t e =
     e\<lparr>le_creation_claims := add_claim created reporter t (le_creation_claims e)\<rparr>"

definition add_advertiser_observation :: "advertiser_observation \<Rightarrow> list_entry \<Rightarrow> list_entry" where
  "add_advertiser_observation ob e = e\<lparr>le_advertisers := merge_report ob (le_advertisers e)\<rparr>"

definition touch_reachable :: "nat \<Rightarrow> list_entry \<Rightarrow> list_entry" where
  "touch_reachable t e =
     e\<lparr>first_seen := (if first_seen e = 0 then t else first_seen e), last_seen := t\<rparr>"

definition mark_dht_verified :: "nat \<Rightarrow> nat option \<Rightarrow> list_entry \<Rightarrow> list_entry" where
  "mark_dht_verified t created e =
    (let e = e\<lparr>first_seen := (if first_seen e = 0 then t else first_seen e), last_seen := t,
               last_update := t, last_direct_dht_read_at := t,
               verification_state := max (verification_state e) DhtVerified\<rparr>
     in case created of
          None \<Rightarrow> e
        | Some v \<Rightarrow> if v = 0 then e
            else add_creation_claim v None t (e\<lparr>account_created_at := Some v\<rparr>))"

definition entry_mark_authenticated :: "nat \<Rightarrow> list_entry \<Rightarrow> list_entry" where
  "entry_mark_authenticated t e =
     e\<lparr>first_seen := (if first_seen e = 0 then t else first_seen e), last_seen := t,
       last_update := t, last_authenticated_at := t, verification_state := Authenticated\<rparr>"

definition mark_presence_checked :: "nat \<Rightarrow> bool \<Rightarrow> list_entry \<Rightarrow> list_entry" where
  "mark_presence_checked t ok e =
     e\<lparr>presence_checked_at := t, presence_read_succeeded := ok\<rparr>"

definition is_advertised_online_at :: "nat \<Rightarrow> list_entry \<Rightarrow> bool" where
  "is_advertised_online_at t e \<longleftrightarrow>
     advertised_online e \<and> t - last_online e \<le> USER_PRESENCE_STALE_AFTER_SECS"

definition presence_state_at :: "nat \<Rightarrow> list_entry \<Rightarrow> node_presence_state" where
  "presence_state_at t e =
    (if presence_checked_at e = 0 \<or> \<not> presence_read_succeeded e then Unknown
     else if NODE_PRESENCE_CACHE_TRUST_SECS < t - presence_checked_at e then NeedsRefresh
     else if \<not> advertised_online e then ExplicitlyOffline
     else if is_advertised_online_at t e then Online
     else StaleOnlineClaim)"

definition account_creation_is_contested :: "list_entry \<Rightarrow> bool" where
  "account_creation_is_contested e =
    (case account_created_at e of
       None \<Rightarrow> False
     | Some direct \<Rightarrow> \<exists>c \<in> set (le_creation_claims e). claimed_created_at c \<noteq> direct)"

end
