(* ===== verification/Node_Wire.thy ===== *)
theory Node_Wire
  imports Node_Entry
begin

text \<open>
  The wire types a topology table is made of (\<open>src/types/mod.rs\<close>): 256-bit keys with their
  distances, the Bloom signatures of application names, and the table entry that a verified
  node is published as. Base64 decoding and the application fingerprint (\<open>blake3\<close>) are
  parameters.
\<close>

subsection \<open>Keys\<close>

type_synonym key_int = "8 word list"

fun splitn :: "nat \<Rightarrow> char \<Rightarrow> string \<Rightarrow> string list" where
  "splitn 0 c s = []"
| "splitn (Suc 0) c s = [s]"
| "splitn (Suc (Suc n)) c s =
     (case dropWhile (\<lambda>x. x \<noteq> c) s of
        [] \<Rightarrow> [s]
      | _ # rest \<Rightarrow> takeWhile (\<lambda>x. x \<noteq> c) s # splitn (Suc n) c rest)"

definition from_record_key :: "(string \<Rightarrow> 8 word list option) \<Rightarrow> record_key \<Rightarrow> key_int option" where
  "from_record_key decode k =
    (case splitn 3 (CHR '':'') k of
       _ # pubkey # _ \<Rightarrow>
         (case decode pubkey of
            None \<Rightarrow> None
          | Some bytes \<Rightarrow> if length bytes < 32 then None else Some (take 32 bytes))
     | _ \<Rightarrow> None)"

definition less_than :: "key_int \<Rightarrow> key_int \<Rightarrow> bool" where
  "less_than a b \<longleftrightarrow> a < b"

text \<open>The borrow loop of \<open>abs_diff\<close>, from the last byte to the first.\<close>

fun sub_borrow :: "8 word list \<Rightarrow> 8 word list \<Rightarrow> 8 word list \<times> int" where
  "sub_borrow (x # xs) (y # ys) =
     (let (rs, borrow) = sub_borrow xs ys; diff = uint x - uint y - borrow
      in if diff < 0 then (word_of_int (diff + 256) # rs, 1) else (word_of_int diff # rs, 0))"
| "sub_borrow _ _ = ([], 0)"

definition abs_diff :: "key_int \<Rightarrow> key_int \<Rightarrow> key_int" where
  "abs_diff a b =
     (let (larger, smaller) = (if b \<le> a then (a, b) else (b, a))
      in fst (sub_borrow larger smaller))"

definition xor_dist :: "key_int \<Rightarrow> key_int \<Rightarrow> key_int" where
  "xor_dist a b = map2 xor a b"

definition bitwise_not :: "key_int \<Rightarrow> key_int" where
  "bitwise_not a = map not a"

definition to_hex :: "key_int \<Rightarrow> string" where
  "to_hex a = concat (map (\<lambda>b. hex2 (unat b)) a)"

text \<open>The number a key stands for.\<close>

fun key_value :: "key_int \<Rightarrow> int" where
  "key_value [] = 0"
| "key_value (b # bs) = uint b * 256 ^ length bs + key_value bs"

lemma byte_range: "0 \<le> uint (b :: 8 word)" "uint (b :: 8 word) < 256"
  using uint_lt2p [of b] by simp_all

lemma key_value_range: "0 \<le> key_value bs \<and> key_value bs < 256 ^ length bs"
proof (induction bs)
  case (Cons b bs)
  let ?P = "256 ^ length bs :: int"
  have "(uint b + 1) * ?P \<le> 256 * ?P"
    by (rule mult_right_mono) (use byte_range(2) [of b] in linarith, simp)
  then have "uint b * ?P + ?P \<le> 256 * ?P" by (simp add: distrib_right)
  moreover have "0 \<le> uint b * ?P" using byte_range(1) [of b] by simp
  moreover have "key_value (b # bs) = uint b * ?P + key_value bs" "256 ^ length (b # bs) = 256 * ?P"
    by simp_all
  ultimately show ?case using Cons by linarith
qed simp

lemma key_value_less:
  "length xs = length ys \<Longrightarrow> xs < ys \<longleftrightarrow> key_value xs < key_value ys"
proof (induction xs ys rule: list_induct2)
  case (Cons x xs y ys)
  have vx: "0 \<le> key_value xs" "key_value xs < 256 ^ length ys"
    and vy: "0 \<le> key_value ys" "key_value ys < 256 ^ length ys"
    using key_value_range [of xs] key_value_range [of ys] Cons.hyps by simp_all
  consider "uint x < uint y" | "uint y < uint x" | "x = y"
    by (metis linorder_neqE word_uint_eq_iff)
  then show ?case
  proof cases
    case 1
    then have "(uint x + 1) * 256 ^ length ys \<le> uint y * 256 ^ length ys"
      by (intro mult_right_mono) simp_all
    with 1 vx vy Cons.hyps show ?thesis by (auto simp: algebra_simps word_less_def)
  next
    case 2
    then have "(uint y + 1) * 256 ^ length ys \<le> uint x * 256 ^ length ys"
      by (intro mult_right_mono) simp_all
    with 2 vx vy Cons.hyps show ?thesis by (auto simp: algebra_simps word_less_def)
  next
    case 3
    with Cons show ?thesis by simp
  qed
qed simp

lemma sub_borrow_value:
  "length xs = length ys \<Longrightarrow> sub_borrow xs ys = (rs, b) \<Longrightarrow>
   length rs = length xs \<and> b \<in> {0, 1} \<and>
   key_value rs = key_value xs - key_value ys + b * 256 ^ length xs"
proof (induction xs ys arbitrary: rs b rule: list_induct2)
  case (Cons x xs y ys)
  obtain rs' b' where s: "sub_borrow xs ys = (rs', b')" by (cases "sub_borrow xs ys")
  note ih = Cons.IH [OF s]
  let ?d = "uint x - uint y - b'"
  have range: "- 256 \<le> ?d" "?d < 256"
  proof -
    have "0 \<le> b'" "b' \<le> 1" using ih by auto
    then show "- 256 \<le> ?d" "?d < 256" using byte_range [of x] byte_range [of y] by linarith+
  qed
  have small: "uint (word_of_int v :: 8 word) = v" if "0 \<le> v" "v < 256" for v
    using that by (simp add: uint_word_of_int)
  show ?case
  proof (cases "?d < 0")
    case True
    define r :: "8 word" where "r = word_of_int (?d + 256)"
    have rs: "rs = r # rs'" "b = 1" using Cons.prems s True by (simp_all add: r_def Let_def)
    have "uint r = ?d + 256" unfolding r_def using True range by (intro small) linarith+
    then have "uint r * 256 ^ length ys = (?d + 256) * 256 ^ length ys" by simp
    with ih Cons.hyps rs show ?thesis by (auto simp: algebra_simps)
  next
    case False
    define r :: "8 word" where "r = word_of_int ?d"
    have rs: "rs = r # rs'" "b = 0" using Cons.prems s False by (simp_all add: r_def Let_def)
    have "uint r = ?d" unfolding r_def using False range by (intro small) linarith+
    then have "uint r * 256 ^ length ys = ?d * 256 ^ length ys" by simp
    with ih Cons.hyps rs show ?thesis by (auto simp: algebra_simps)
  qed
qed simp

lemma key_value_inj: "length xs = length ys \<Longrightarrow> key_value xs = key_value ys \<Longrightarrow> xs = ys"
  using key_value_less [of xs ys] key_value_less [of ys xs] by force

lemma sub_borrow_exact:
  assumes "length xs = length ys" "key_value ys \<le> key_value xs"
  shows "length (fst (sub_borrow xs ys)) = length xs \<and>
    key_value (fst (sub_borrow xs ys)) = key_value xs - key_value ys"
proof -
  obtain rs b where s: "sub_borrow xs ys = (rs, b)" by (cases "sub_borrow xs ys")
  note v = sub_borrow_value [OF assms(1) s]
  have "b = 0"
  proof (rule ccontr)
    assume "b \<noteq> 0"
    with v have "key_value rs = key_value xs - key_value ys + 256 ^ length rs" by auto
    moreover have "key_value rs < 256 ^ length rs" using key_value_range [of rs] by simp
    ultimately show False using assms(2) by simp
  qed
  with v s show ?thesis by simp
qed

lemma abs_diff_value:
  assumes "length a = length b"
  shows "length (abs_diff a b) = length a \<and> key_value (abs_diff a b) = \<bar>key_value a - key_value b\<bar>"
proof (cases "b \<le> a")
  case True
  then have "key_value b \<le> key_value a" using key_value_less [OF assms] by (simp add: not_less [symmetric])
  with True sub_borrow_exact [OF assms] show ?thesis by (simp add: abs_diff_def)
next
  case False
  then have "a < b" by (simp add: not_le)
  then have "key_value a \<le> key_value b" using key_value_less [OF assms] by simp
  with False sub_borrow_exact [OF assms [symmetric]] assms show ?thesis by (simp add: abs_diff_def)
qed

lemma xor_eq_zero: "xor x y = 0 \<longleftrightarrow> x = y" for x y :: "'a::len word"
  by (auto simp: bit_eq_iff bit_simps)

lemma xor_dist_zero: "length a = length b \<Longrightarrow> (key_value (xor_dist a b) = 0) = (a = b)"
proof -
  assume l: "length a = length b"
  have z: "key_value xs = 0 \<longleftrightarrow> set xs \<subseteq> {0}" for xs
  proof (induction xs)
    case (Cons x xs)
    have "0 \<le> uint x * 256 ^ length xs" "0 \<le> key_value xs"
      using key_value_range [of xs] by simp_all
    then have "key_value (x # xs) = 0 \<longleftrightarrow> uint x * 256 ^ length xs = 0 \<and> key_value xs = 0"
      by (simp add: add_nonneg_eq_0_iff)
    with Cons show ?case by (simp add: uint_0_iff)
  qed simp
  have "set (map2 xor a b) \<subseteq> {0} \<longleftrightarrow> a = b"
    using l by (induction a b rule: list_induct2) (auto simp: xor_eq_zero)
  then show ?thesis by (simp add: z xor_dist_def)
qed

subsection \<open>Bloom signatures of application names\<close>

definition APP_ENTRY_BLOOM_BITS :: nat where "APP_ENTRY_BLOOM_BITS = 64"
definition APP_PAGE_BLOOM_BITS :: nat where "APP_PAGE_BLOOM_BITS = 32"

type_synonym app_bloom_filter = "64 word"
type_synonym app_page_bloom_filter = "32 word"

definition bloom_insert :: "nat \<Rightarrow> app_bloom_filter \<Rightarrow> app_bloom_filter" where
  "bloom_insert fingerprint w = or w (push_bit (fingerprint mod APP_ENTRY_BLOOM_BITS) 1)"

definition bloom_might_contain :: "nat \<Rightarrow> app_bloom_filter \<Rightarrow> bool" where
  "bloom_might_contain fingerprint w \<longleftrightarrow>
     and w (push_bit (fingerprint mod APP_ENTRY_BLOOM_BITS) 1) \<noteq> 0"

definition page_might_contain :: "nat \<Rightarrow> app_page_bloom_filter \<Rightarrow> bool" where
  "page_might_contain fingerprint w \<longleftrightarrow>
     and w (push_bit (fingerprint mod APP_PAGE_BLOOM_BITS) 1) \<noteq> 0"

definition include_entry_filter ::
  "app_bloom_filter \<Rightarrow> app_page_bloom_filter \<Rightarrow> app_page_bloom_filter" where
  "include_entry_filter e w = or (or w (ucast e)) (ucast (drop_bit 32 e))"

definition union_with :: "app_page_bloom_filter \<Rightarrow> app_page_bloom_filter \<Rightarrow> app_page_bloom_filter"
  where
  "union_with w other = or w other"

lemma single_bit_and [simp]: "(and w (2 ^ n) = 0) = (\<not> bit w n)" for w :: "'a::len word"
  by (simp add: and_exp_eq_0_iff_not_bit)

lemma bloom_might_contain_bit: "bloom_might_contain f w = bit w (f mod 64)"
  by (simp add: bloom_might_contain_def APP_ENTRY_BLOOM_BITS_def)

lemma page_might_contain_bit: "page_might_contain f w = bit w (f mod 32)"
  by (simp add: page_might_contain_def APP_PAGE_BLOOM_BITS_def)

lemma bloom_insert_contains:
  "bloom_might_contain f (bloom_insert f w)"
  "bloom_might_contain g w \<Longrightarrow> bloom_might_contain g (bloom_insert f w)"
  by (simp_all add: bloom_might_contain_bit bloom_insert_def APP_ENTRY_BLOOM_BITS_def bit_simps)

text \<open>Folding the halves of an entry's signature into a page loses no name.\<close>

lemma page_includes_entry:
  assumes "bloom_might_contain f e"
  shows "page_might_contain f (include_entry_filter e w)"
proof -
  have half: "m = m mod 32 \<or> m = 32 + m mod 32" if "m < 64" for m :: nat
    using that by (cases "m < 32") (simp_all add: le_mod_geq)
  have "f mod 64 mod 32 = f mod 32" by (simp add: mod_mod_cancel)
  moreover have "f mod 64 = f mod 64 mod 32 \<or> f mod 64 = 32 + f mod 64 mod 32"
    by (rule half) simp
  ultimately have "f mod 64 = f mod 32 \<or> f mod 64 = 32 + f mod 32" by simp
  with assms show ?thesis
    by (auto simp: page_might_contain_bit bloom_might_contain_bit include_entry_filter_def
        bit_simps)
qed

lemma page_keeps_entry:
  "page_might_contain f w \<Longrightarrow> page_might_contain f (include_entry_filter e w)"
  "page_might_contain f w \<Longrightarrow> page_might_contain f (union_with w v)"
  by (simp_all add: page_might_contain_bit include_entry_filter_def union_with_def bit_simps)

subsection \<open>Published table entries\<close>

definition APP_DISCOVERY_ACTIVITY_TTL_SECS :: nat where
  "APP_DISCOVERY_ACTIVITY_TTL_SECS = 180 * 24 * 60 * 60"

record record_table_entry =
  rt_address :: record_key
  rt_account_created_at :: nat
  rt_last_update :: nat
  rt_app_bloom :: app_bloom_filter
  rt_mailbox_range :: "nat \<times> nat"
  rt_mailbox_inlist :: "nat list"
  rt_routingtable_minhash :: "nat list"
  rt_first_seen :: nat
  rt_last_seen :: nat
  rt_seen_in :: "nat list"

definition to_record_table_entry ::
  "(string \<Rightarrow> nat) \<Rightarrow> nat \<Rightarrow> list_entry \<Rightarrow> record_table_entry" where
  "to_record_table_entry app_fingerprint t e =
    (let app_cutoff = t - APP_DISCOVERY_ACTIVITY_TTL_SECS;
         bloom = (if app_cutoff \<le> app_info_updated_at e
                  then foldl (\<lambda>w a. bloom_insert (app_fingerprint a) w) 0 (application_ids e)
                  else 0)
     in \<lparr>rt_address = le_address e,
         rt_account_created_at = (case account_created_at e of None \<Rightarrow> 0 | Some c \<Rightarrow> c),
         rt_last_update = last_update e, rt_app_bloom = bloom, rt_mailbox_range = (0, 0),
         rt_mailbox_inlist = [0, 0, 0, 0], rt_routingtable_minhash = routingtable_minhash e,
         rt_first_seen = first_seen e, rt_last_seen = last_seen e, rt_seen_in = []\<rparr>)"

lemma to_record_table_address [simp]:
  "rt_address (to_record_table_entry fp t e) = le_address e"
  by (simp add: to_record_table_entry_def Let_def)

lemma bloom_fold_contains:
  "bloom_might_contain f w \<or> f \<in> fp ` set as \<Longrightarrow>
   bloom_might_contain f (foldl (\<lambda>w a. bloom_insert (fp a) w) w as)"
  by (induction as arbitrary: w) (auto simp: bloom_insert_contains)

end
