(* ===== verification/Node_List.thy ===== *)
theory Node_List
  imports Node_Wire
begin

text \<open>
  The topology state \<open>InternalNodeList\<close> (\<open>src/node_list/mod.rs\<close>): the vector of verified
  entries and the vector of candidates, each with an index from addresses to positions, and
  the operations that move nodes between them. An operation that indexes a vector returns
  \<open>None\<close> where the code would panic; the index invariant shows that it never does. Parsing a
  bootstrap address and the topology hash (\<open>blake3\<close>) are parameters, as is the clock that a
  fresh list entry reads.
\<close>

definition PUBLISH_RANDOM_ROTATION_SECS :: nat where "PUBLISH_RANDOM_ROTATION_SECS = 60 * 60"
definition MAX_FUTURE_CREATION_EVENTS :: nat where "MAX_FUTURE_CREATION_EVENTS = 1024"
definition PUBLIC_METADATA_MAX_FUTURE_SKEW_SECS :: nat where
  "PUBLIC_METADATA_MAX_FUTURE_SKEW_SECS = 2 * 60"

definition DEFAULT_BOOTSTRAP_DHTS :: "string list" where
  "DEFAULT_BOOTSTRAP_DHTS =
    [''VLD0:Ql5L4_BYpaHtBECl5khtcSIW-lAnnC5vV5PIZCl7vAs:9C9jBokYTHBBBaq7aev39a9ujPVCCzGLE0-Tx_N7FyQ'',
     ''VLD0:KrstLQEVgZ_MmFrsu7X_WSVMm4n5BXSnX5UvGF1E3EE:YPt6Ym5S2DXpwNyjkVgMgbiXKtn2vZSnF1Me8ESzz3s'',
     ''VLD0:qshUK5zVzIHg8dWfUSxkNRgBLNW_raHtb7p-vkgXPyM:FGmx1nvBk8gLIRlQBjTeI40iMmVYg3cMwlhwXkL7d-w'',
     ''VLD0:I9T8NP2GWb4vunxVv2V0JOjyD_lZ59ImMg8CnOvN4z0:ca9vj_ECFFSzUwMPUHElolQ_q-EqsZ8m-bLtROL-q4Y'']"

record internal_node_list =
  nl_entries :: "list_entry list"
  nl_candidates :: "candidate_entry list"
  future_creation_events :: "future_creation_event list"
  address_to_index :: "(string \<times> nat) list"
  candidate_to_index :: "(string \<times> nat) list"

definition node_list_new :: internal_node_list where
  "node_list_new =
     \<lparr>nl_entries = [], nl_candidates = [], future_creation_events = [], address_to_index = [],
      candidate_to_index = []\<rparr>"

definition usize_max :: nat where "usize_max = u64_max"

definition swap_remove :: "nat \<Rightarrow> 'a list \<Rightarrow> 'a list" where
  "swap_remove i xs = butlast (xs[i := last xs])"

subsection \<open>Lookups, insertion and removal\<close>

definition get_index :: "internal_node_list \<Rightarrow> record_key \<Rightarrow> nat option" where
  "get_index nl a = map_of (address_to_index nl) a"

definition get_candidate_index :: "internal_node_list \<Rightarrow> record_key \<Rightarrow> nat option" where
  "get_candidate_index nl a = map_of (candidate_to_index nl) a"

definition get_by_address :: "internal_node_list \<Rightarrow> record_key \<Rightarrow> list_entry option" where
  "get_by_address nl a =
    (case get_index nl a of
       None \<Rightarrow> None
     | Some i \<Rightarrow> if i < length (nl_entries nl) then Some (nl_entries nl ! i) else None)"

definition ensure_candidate ::
  "record_key \<Rightarrow> nat \<Rightarrow> internal_node_list \<Rightarrow> nat \<times> internal_node_list" where
  "ensure_candidate a t nl =
    (case get_candidate_index nl a of
       Some i \<Rightarrow> (i, nl)
     | None \<Rightarrow>
        if get_index nl a \<noteq> None then (usize_max, nl)
        else
         (let i = length (nl_candidates nl)
          in (i, nl\<lparr>nl_candidates := nl_candidates nl @ [candidate_new a t],
                    candidate_to_index := AList.update a i (candidate_to_index nl)\<rparr>)))"

definition ensure_verified_entry ::
  "nat \<Rightarrow> record_key \<Rightarrow> internal_node_list \<Rightarrow> nat \<times> internal_node_list" where
  "ensure_verified_entry clock a nl =
    (case get_index nl a of
       Some i \<Rightarrow> (i, nl)
     | None \<Rightarrow>
        (let i = length (nl_entries nl)
         in (i, nl\<lparr>nl_entries := nl_entries nl @ [list_entry_new a clock],
                   address_to_index := AList.update a i (address_to_index nl)\<rparr>)))"

text \<open>Dropping row \<open>i\<close> of a vector from its index, and pointing the moved row to its place.\<close>

definition reindex :: "('a \<Rightarrow> string) \<Rightarrow> string \<Rightarrow> nat \<Rightarrow> 'a list \<Rightarrow> (string \<times> nat) list \<Rightarrow>
    (string \<times> nat) list" where
  "reindex key a i rows m =
    (let m = AList.delete a m
     in if i < length rows then AList.update (key (rows ! i)) i m else m)"

definition remove_candidate ::
  "record_key \<Rightarrow> internal_node_list \<Rightarrow> (candidate_entry option \<times> internal_node_list) option" where
  "remove_candidate a nl =
    (case get_candidate_index nl a of
       None \<Rightarrow> Some (None, nl)
     | Some i \<Rightarrow>
        if length (nl_candidates nl) \<le> i then None
        else
         (let rows = swap_remove i (nl_candidates nl)
          in Some (Some (nl_candidates nl ! i),
               nl\<lparr>nl_candidates := rows,
                  candidate_to_index := reindex ce_address a i rows (candidate_to_index nl)\<rparr>)))"

definition remove_by_address ::
  "record_key \<Rightarrow> internal_node_list \<Rightarrow> (list_entry option \<times> internal_node_list) option" where
  "remove_by_address a nl =
    (case get_index nl a of
       None \<Rightarrow> Some (None, nl)
     | Some i \<Rightarrow>
        if length (nl_entries nl) \<le> i then None
        else
         (let rows = swap_remove i (nl_entries nl)
          in Some (Some (nl_entries nl ! i),
               nl\<lparr>nl_entries := rows,
                  address_to_index := reindex le_address a i rows (address_to_index nl)\<rparr>)))"

text \<open>\<open>&mut self.entries[idx]\<close> and \<open>&mut self.candidates[idx]\<close> with an update.\<close>

definition at_entry ::
  "nat \<Rightarrow> (list_entry \<Rightarrow> list_entry) \<Rightarrow> internal_node_list \<Rightarrow> internal_node_list option" where
  "at_entry i f nl =
    (if i < length (nl_entries nl)
     then Some (nl\<lparr>nl_entries := (nl_entries nl)[i := f (nl_entries nl ! i)]\<rparr>) else None)"

definition at_candidate ::
  "nat \<Rightarrow> (candidate_entry \<Rightarrow> candidate_entry) \<Rightarrow> internal_node_list \<Rightarrow> internal_node_list option"
  where
  "at_candidate i f nl =
    (if i < length (nl_candidates nl)
     then Some (nl\<lparr>nl_candidates := (nl_candidates nl)[i := f (nl_candidates nl ! i)]\<rparr>)
     else None)"

subsection \<open>Promotion, failure and quarantine\<close>

definition absorb_candidate :: "candidate_entry option \<Rightarrow> list_entry \<Rightarrow> list_entry" where
  "absorb_candidate cand e =
    (case cand of
       None \<Rightarrow> e
     | Some c \<Rightarrow>
        (let e = e\<lparr>first_advertised_at :=
                    (if first_advertised_at e = 0 then ce_first_advertised_at c
                     else min (first_advertised_at e) (ce_first_advertised_at c)),
                   last_advertised_at := max (last_advertised_at e) (ce_last_advertised_at c)\<rparr>;
             e = foldl (\<lambda>e ob. add_advertiser_observation ob e) e (ce_advertisers c)
         in foldl (\<lambda>e cl. add_creation_claim (claimed_created_at cl) (reported_by cl)
                     (last_observed_at cl) e) e (ce_creation_claims c)))"

definition promote ::
  "nat \<Rightarrow> record_key \<Rightarrow> (list_entry \<Rightarrow> list_entry) \<Rightarrow> internal_node_list \<Rightarrow>
   (nat \<times> internal_node_list) option" where
  "promote clock a f nl =
    (case remove_candidate a nl of
       None \<Rightarrow> None
     | Some (cand, nl) \<Rightarrow>
        (case ensure_verified_entry clock a nl of (i, nl) \<Rightarrow>
          map_option (Pair i) (at_entry i (f \<circ> absorb_candidate cand) nl)))"

definition promote_dht_verified ::
  "nat \<Rightarrow> record_key \<Rightarrow> nat option \<Rightarrow> nat \<Rightarrow> internal_node_list \<Rightarrow>
   (nat \<times> internal_node_list) option" where
  "promote_dht_verified clock a created t nl = promote clock a (mark_dht_verified t created) nl"

definition mark_authenticated ::
  "nat \<Rightarrow> record_key \<Rightarrow> nat \<Rightarrow> internal_node_list \<Rightarrow> (nat \<times> internal_node_list) option" where
  "mark_authenticated clock a t nl = promote clock a (entry_mark_authenticated t) nl"

definition mark_verification_failed ::
  "record_key \<Rightarrow> nat \<Rightarrow> internal_node_list \<Rightarrow> internal_node_list option" where
  "mark_verification_failed a t nl =
    (case get_candidate_index nl a of
       None \<Rightarrow> Some nl
     | Some i \<Rightarrow> at_candidate i (candidate_mark_failed t) nl)"

definition absorb_entry :: "list_entry option \<Rightarrow> candidate_entry \<Rightarrow> candidate_entry" where
  "absorb_entry prev c =
    (case prev of
       None \<Rightarrow> c
     | Some p \<Rightarrow>
        (let c = c\<lparr>ce_first_advertised_at :=
                    (if first_advertised_at p = 0 then ce_first_advertised_at c
                     else min (ce_first_advertised_at c) (first_advertised_at p)),
                   ce_last_advertised_at := max (ce_last_advertised_at c) (last_advertised_at p)\<rparr>;
             c = foldl (\<lambda>c ob. add_advertiser (ao_advertiser ob) (last_reported_at ob) c) c
                   (le_advertisers p)
         in foldl (\<lambda>c cl. candidate_add_creation_claim (claimed_created_at cl) (reported_by cl)
                     (last_observed_at cl) c) c (le_creation_claims p)))"

definition quarantine_failed_direct_verification ::
  "record_key \<Rightarrow> nat \<Rightarrow> internal_node_list \<Rightarrow> internal_node_list option" where
  "quarantine_failed_direct_verification a t nl =
    (case remove_by_address a nl of
       None \<Rightarrow> None
     | Some (prev, nl) \<Rightarrow>
        (case ensure_candidate a t nl of (i, nl) \<Rightarrow>
          if i = usize_max then Some nl
          else at_candidate i (candidate_mark_failed t \<circ> absorb_entry prev) nl))"

subsection \<open>Rebuilding the index\<close>

definition has_direct_evidence :: "list_entry \<Rightarrow> bool" where
  "has_direct_evidence e \<longleftrightarrow>
     last_direct_dht_read_at e \<noteq> 0 \<or> last_authenticated_at e \<noteq> 0 \<or>
     DhtVerified \<le> verification_state e"

definition migrate_entry :: "list_entry \<Rightarrow> list_entry" where
  "migrate_entry e =
    (let e = e\<lparr>mailbox_range := (0, 0), mailbox_inlist := [0, 0, 0, 0], seen_in := []\<rparr>
     in e\<lparr>verification_state :=
            (if verification_state e = Advertised
             then (if last_authenticated_at e \<noteq> 0 then Authenticated else DhtVerified)
             else verification_state e)\<rparr>)"

definition demote_entry :: "nat \<Rightarrow> list_entry \<Rightarrow> candidate_entry" where
  "demote_entry t e =
     (candidate_new (le_address e) t)\<lparr>
       ce_first_advertised_at := (if first_advertised_at e = 0 then t else first_advertised_at e),
       ce_last_advertised_at := (if last_advertised_at e = 0 then t else last_advertised_at e),
       ce_advertisers := le_advertisers e,
       ce_creation_claims := le_creation_claims e\<rparr>"

text \<open>\<open>retain(|x| seen.insert(key(x)))\<close>: the first row of each key, in order.\<close>

fun retain_first :: "('a \<Rightarrow> string) \<Rightarrow> string set \<Rightarrow> 'a list \<Rightarrow> 'a list" where
  "retain_first key seen [] = []"
| "retain_first key seen (x # xs) =
     (if key x \<in> seen then retain_first key seen xs
      else x # retain_first key (insert (key x) seen) xs)"

definition index_rows :: "('a \<Rightarrow> string) \<Rightarrow> 'a list \<Rightarrow> (string \<times> nat) list" where
  "index_rows key xs = foldl (\<lambda>m (i, x). AList.update (key x) i m) [] (enumerate 0 xs)"

definition rebuild_index ::
  "(string \<Rightarrow> record_key option) \<Rightarrow> nat \<Rightarrow> internal_node_list \<Rightarrow> internal_node_list" where
  "rebuild_index parse t nl =
    (let verified = map migrate_entry (filter has_direct_evidence (nl_entries nl));
         demoted = map (demote_entry t) (filter (\<lambda>e. \<not> has_direct_evidence e) (nl_entries nl));
         entries = retain_first le_address {} verified;
         candidates = retain_first ce_address (set (map le_address entries))
                        (nl_candidates nl @ demoted);
         nl = nl\<lparr>nl_entries := entries, address_to_index := index_rows le_address entries,
                 nl_candidates := candidates,
                 candidate_to_index := index_rows ce_address candidates\<rparr>
     in foldl (\<lambda>nl b. case parse b of Some k \<Rightarrow> snd (ensure_candidate k t nl) | None \<Rightarrow> nl)
          nl DEFAULT_BOOTSTRAP_DHTS)"

definition new_with_bootstrap ::
  "(string \<Rightarrow> record_key option) \<Rightarrow> nat \<Rightarrow> internal_node_list option" where
  "new_with_bootstrap parse t =
     foldl (\<lambda>r b. case r of None \<Rightarrow> None
         | Some nl \<Rightarrow> (case parse b of None \<Rightarrow> None | Some k \<Rightarrow> Some (snd (ensure_candidate k t nl))))
       (Some node_list_new) DEFAULT_BOOTSTRAP_DHTS"

definition descending :: "nat \<Rightarrow> int" where "descending n = - int n"

definition truncate_to_budget ::
  "(string \<Rightarrow> record_key option) \<Rightarrow> nat \<Rightarrow> nat \<Rightarrow> internal_node_list \<Rightarrow> internal_node_list" where
  "truncate_to_budget parse t max_entries nl =
    (if length (nl_entries nl) \<le> max_entries then nl
     else rebuild_index parse t (nl\<lparr>nl_entries := take max_entries (sort_key (\<lambda>e.
            (descending (verification_rank (verification_state e)),
             descending (last_authenticated_at e), descending (last_direct_dht_read_at e),
             descending (last_seen e))) (nl_entries nl))\<rparr>))"

definition candidate_order :: "candidate_entry \<Rightarrow> int \<times> nat \<times> int" where
  "candidate_order c =
     (descending (length (ce_advertisers c)), failed_verifications c,
      descending (ce_last_advertised_at c))"

definition truncate_candidates_to_budget ::
  "(string \<Rightarrow> record_key option) \<Rightarrow> nat \<Rightarrow> nat \<Rightarrow> internal_node_list \<Rightarrow> internal_node_list" where
  "truncate_candidates_to_budget parse t max_candidates nl =
    (if length (nl_candidates nl) \<le> max_candidates then nl
     else rebuild_index parse t
       (nl\<lparr>nl_candidates := take max_candidates (sort_key candidate_order (nl_candidates nl))\<rparr>))"

subsection \<open>Advertised candidates\<close>

definition verified_count :: "internal_node_list \<Rightarrow> nat" where
  "verified_count nl = length (filter is_publishable (nl_entries nl))"

definition adaptive_candidate_limit_per_advertiser :: "internal_node_list \<Rightarrow> nat" where
  "adaptive_candidate_limit_per_advertiser nl =
    (let n = verified_count nl in
     if n \<le> 2 then 256 else if n \<le> 5 then 201 else if n \<le> 25 then 128
     else if n \<le> 100 then 64 else 32)"

record candidate_insert_report =
  accepted :: "record_key list"
  new_candidates :: nat
  refreshed :: nat
  ignored_by_source_limit :: nat
  implausible_creation_claims :: "record_key list"

definition report_default :: candidate_insert_report where
  "report_default = \<lparr>accepted = [], new_candidates = 0, refreshed = 0,
     ignored_by_source_limit = 0, implausible_creation_claims = []\<rparr>"

definition plausible_claim :: "nat \<Rightarrow> record_table_entry \<Rightarrow> nat option" where
  "plausible_claim t r =
    (if rt_account_created_at r \<noteq> 0 \<and>
        rt_account_created_at r \<le> sat_add u64_max t PUBLIC_METADATA_MAX_FUTURE_SKEW_SECS
     then Some (rt_account_created_at r) else None)"

definition refresh_entry :: "record_key \<Rightarrow> nat \<Rightarrow> record_table_entry \<Rightarrow> list_entry \<Rightarrow> list_entry"
  where
  "refresh_entry adv t r e =
    (let e = add_advertiser_observation
               \<lparr>ao_advertiser = adv, first_reported_at = t, last_reported_at = t,
                report_count = 1\<rparr>
               (e\<lparr>last_advertised_at := max (last_advertised_at e) t\<rparr>)
     in case plausible_claim t r of
          None \<Rightarrow> e | Some c \<Rightarrow> add_creation_claim c (Some adv) t e)"

definition advertise_candidate ::
  "record_key \<Rightarrow> nat \<Rightarrow> record_table_entry \<Rightarrow> candidate_entry \<Rightarrow> candidate_entry" where
  "advertise_candidate adv t r c =
    (let c = add_advertiser adv t c
     in case plausible_claim t r of
          None \<Rightarrow> c | Some v \<Rightarrow> candidate_add_creation_claim v (Some adv) t c)"

type_synonym insert_state = "internal_node_list \<times> nat \<times> candidate_insert_report"

definition insert_remote ::
  "record_key \<Rightarrow> nat \<Rightarrow> record_table_entry \<Rightarrow> insert_state \<Rightarrow> insert_state option" where
  "insert_remote adv t r s =
    (case s of (nl, remaining, rep) \<Rightarrow>
      (let a = rt_address r;
           rep = (if sat_add u64_max t PUBLIC_METADATA_MAX_FUTURE_SKEW_SECS
                       < rt_account_created_at r
                  then rep\<lparr>implausible_creation_claims := implausible_creation_claims rep @ [a]\<rparr>
                  else rep)
       in case get_index nl a of
            Some i \<Rightarrow> map_option (\<lambda>nl. (nl, remaining, rep\<lparr>refreshed := refreshed rep + 1\<rparr>))
                       (at_entry i (refresh_entry adv t r) nl)
          | None \<Rightarrow>
            (case get_candidate_index nl a of
               Some i \<Rightarrow>
                 map_option (\<lambda>nl. (nl, remaining,
                     (let rep = rep\<lparr>refreshed := refreshed rep + 1\<rparr> in
                      if is_due_at t (nl_candidates nl ! i)
                      then rep\<lparr>accepted := accepted rep @ [a]\<rparr> else rep)))
                   (at_candidate i (\<lambda>c. advertise_candidate adv t r
                       (c\<lparr>ce_last_advertised_at := t\<rparr>)) nl)
             | None \<Rightarrow>
                 if remaining = 0
                 then Some (nl, remaining,
                        rep\<lparr>ignored_by_source_limit := ignored_by_source_limit rep + 1\<rparr>)
                 else (case ensure_candidate a t nl of (i, nl) \<Rightarrow>
                   if i = usize_max then Some (nl, remaining, rep)
                   else map_option (\<lambda>nl. (nl, remaining - 1,
                       rep\<lparr>new_candidates := new_candidates rep + 1,
                           accepted := accepted rep @ [a]\<rparr>))
                     (at_candidate i (advertise_candidate adv t r) nl)))))"

fun insert_remotes ::
  "record_key \<Rightarrow> nat \<Rightarrow> record_table_entry list \<Rightarrow> insert_state \<Rightarrow> insert_state option" where
  "insert_remotes adv t [] s = Some s"
| "insert_remotes adv t (r # rs) s = Option.bind (insert_remote adv t r s) (insert_remotes adv t rs)"

definition candidates_from :: "record_key \<Rightarrow> internal_node_list \<Rightarrow> nat" where
  "candidates_from adv nl =
     length (filter (\<lambda>c. \<exists>ob \<in> set (ce_advertisers c). ao_advertiser ob = adv) (nl_candidates nl))"

definition deduplicated ::
  "record_key \<Rightarrow> record_key \<Rightarrow> record_table_entry list \<Rightarrow> record_table_entry list" where
  "deduplicated adv own advertised =
     map snd (foldl (\<lambda>m r. or_insert (rt_address r) r m) []
       (filter (\<lambda>r. rt_address r \<noteq> own \<and> rt_address r \<noteq> adv) advertised))"

definition add_advertised_candidates ::
  "(record_key \<Rightarrow> record_key \<Rightarrow> nat \<Rightarrow> nat) \<Rightarrow> record_key \<Rightarrow> record_table_entry list \<Rightarrow>
   record_key \<Rightarrow> nat \<Rightarrow> internal_node_list \<Rightarrow>
   (candidate_insert_report \<times> internal_node_list) option" where
  "add_advertised_candidates topology_hash adv advertised own t nl =
    (let remaining = adaptive_candidate_limit_per_advertiser nl - candidates_from adv nl;
         epoch = t div PUBLISH_RANDOM_ROTATION_SECS;
         rs = sort_key (\<lambda>r. topology_hash adv (rt_address r) epoch)
                (deduplicated adv own advertised)
     in map_option (\<lambda>(nl, _, rep). (rep, nl))
          (insert_remotes adv t rs (nl, remaining, report_default)))"

subsection \<open>Future creation events\<close>

definition record_future_creation_event ::
  "record_key \<Rightarrow> nat \<Rightarrow> nat \<Rightarrow> nat \<Rightarrow> nat \<Rightarrow> internal_node_list \<Rightarrow>
   record_key list \<times> internal_node_list" where
  "record_future_creation_event node claimed t window threshold nl =
    (let evs = filter (\<lambda>ev. t - first_detected_at ev \<le> window) (future_creation_events nl);
         same = (\<lambda>ev. fe_node ev = node);
         evs = (if \<exists>ev \<in> set evs. same ev
                then update_first same (\<lambda>ev. ev\<lparr>fe_claimed_created_at := claimed\<rparr>) evs
                else make_room MAX_FUTURE_CREATION_EVENTS first_detected_at evs @
                  [\<lparr>fe_node = node, fe_claimed_created_at = claimed, first_detected_at = t,
                    cluster_ban_requested = False\<rparr>])
     in if length evs < threshold then ([], nl\<lparr>future_creation_events := evs\<rparr>)
        else (map fe_node (filter (\<lambda>ev. \<not> cluster_ban_requested ev) evs),
              nl\<lparr>future_creation_events :=
                   map (\<lambda>ev. ev\<lparr>cluster_ban_requested := True\<rparr>) evs\<rparr>))"

end
