(* ===== verification/Node_Invariant.thy ===== *)
theory Node_Invariant
  imports Node_List
begin

text \<open>
  The invariant of the topology state: each index is exactly the position of each address in
  its vector, no address is both verified and a candidate, every listed entry has direct
  evidence, and the advertiser and claim lists are bounded. No operation panics or breaks it,
  and rebuilding the index establishes its first part from any saved state.
\<close>

subsection \<open>Vectors with an index\<close>

definition indexed :: "('a \<Rightarrow> string) \<Rightarrow> 'a list \<Rightarrow> (string \<times> nat) list \<Rightarrow> bool" where
  "indexed key rows m \<longleftrightarrow>
     (\<forall>a i. map_of m a = Some i \<longleftrightarrow> i < length rows \<and> key (rows ! i) = a)"

lemma indexed_Nil [simp]: "indexed key [] []"
  by (simp add: indexed_def)

lemma indexed_bound: "indexed key rows m \<Longrightarrow> map_of m a = Some i \<Longrightarrow> i < length rows \<and> key (rows ! i) = a"
  by (simp add: indexed_def)

lemma indexed_distinct: "indexed key rows m \<Longrightarrow> distinct (map key rows)"
  unfolding indexed_def distinct_conv_nth by (metis length_map nth_map option.inject)

lemma indexed_None: "indexed key rows m \<Longrightarrow> map_of m a = None \<longleftrightarrow> a \<notin> key ` set rows"
proof -
  assume ix: "indexed key rows m"
  have "map_of m a \<noteq> None \<longleftrightarrow> (\<exists>i < length rows. key (rows ! i) = a)"
    using ix by (auto simp: indexed_def)
  also have "\<dots> \<longleftrightarrow> a \<in> key ` set rows" by (auto simp: set_conv_nth)
  finally show ?thesis by blast
qed

lemma indexed_push:
  "indexed key rows m \<Longrightarrow> map_of m (key x) = None \<Longrightarrow>
   indexed key (rows @ [x]) (AList.update (key x) (length rows) m)"
  by (auto simp: indexed_def store_simps nth_append less_Suc_eq split: if_splits)
    (metis option.distinct(1))

lemma indexed_update:
  "indexed key rows m \<Longrightarrow> (\<And>x. key (f x) = key x) \<Longrightarrow> indexed key (rows[i := f (rows ! i)]) m"
  by (simp add: indexed_def) (metis nth_list_update_eq nth_list_update_neq)

lemma swap_remove_nth:
  assumes "i < length rows" "j < length rows - 1"
  shows "swap_remove i rows ! j = (if j = i then last rows else rows ! j)"
  using assms by (simp add: swap_remove_def nth_butlast nth_list_update)

lemma length_swap_remove [simp]: "length (swap_remove i rows) = length rows - 1"
  by (simp add: swap_remove_def)

lemma indexed_swap_remove:
  assumes ix: "indexed key rows m" and a: "map_of m a = Some i"
  shows "indexed key (swap_remove i rows) (reindex key a i (swap_remove i rows) m)"
proof -
  let ?n = "length rows - 1"
  have i: "i < length rows" "key (rows ! i) = a" using indexed_bound [OF ix a] by simp_all
  have last: "last rows = rows ! ?n" using i(1) last_conv_nth [of rows] by force
  have pos: "map_of m (key (rows ! j)) = Some j" if "j < length rows" for j
    using ix that by (simp add: indexed_def)
  have inj: "key (rows ! j) = key (rows ! l) \<longleftrightarrow> j = l" if "j < length rows" "l < length rows" for j l
    using pos that by (metis option.inject)
  show ?thesis
  proof (cases "i < ?n")
    case True
    have moved: "swap_remove i rows ! i = rows ! ?n"
      using swap_remove_nth [OF i(1) True] last by simp
    have "map_of (reindex key a i (swap_remove i rows) m) b = Some j \<longleftrightarrow>
        j < length (swap_remove i rows) \<and> key (swap_remove i rows ! j) = b" for b j
    proof -
      have "map_of (reindex key a i (swap_remove i rows) m) b =
          (if b = key (rows ! ?n) then Some i else if b = a then None else map_of m b)"
        using True moved by (simp add: reindex_def store_simps Let_def)
      moreover have "key (rows ! ?n) \<noteq> a"
        using inj [OF i(1), of ?n] i True by (metis diff_less less_irrefl less_one not_gr_zero
            less_nat_zero_code)
      ultimately show ?thesis
        using ix i True inj last pos
        by (auto simp: indexed_def swap_remove_nth split: if_splits)
    qed
    then show ?thesis by (simp add: indexed_def)
  next
    case False
    then have "i = ?n" using i(1) by simp
    have "map_of (reindex key a i (swap_remove i rows) m) b = Some j \<longleftrightarrow>
        j < length (swap_remove i rows) \<and> key (swap_remove i rows ! j) = b" for b j
    proof -
      have "map_of (reindex key a i (swap_remove i rows) m) b = (if b = a then None else map_of m b)"
        using False by (simp add: reindex_def store_simps Let_def)
      then show ?thesis
        using ix i inj \<open>i = ?n\<close> by (auto simp: indexed_def swap_remove_nth split: if_splits)
    qed
    then show ?thesis by (simp add: indexed_def)
  qed
qed

lemma mset_swap_remove:
  assumes "i < length xs"
  shows "mset (swap_remove i xs) = mset xs - {#xs ! i#}"
proof -
  have ne: "xs[i := last xs] \<noteq> []" using assms by auto
  have "xs \<noteq> []" using assms by auto
  then have "last (xs[i := last xs]) = last xs"
    by (cases "i = length xs - 1") (simp_all add: last_conv_nth)
  moreover have "mset (xs[i := last xs]) = mset (butlast (xs[i := last xs])) + {#last (xs[i := last xs])#}"
    using ne by (metis append_butlast_last_id mset.simps mset_append)
  moreover have "mset (xs[i := last xs]) = add_mset (last xs) (mset xs - {#xs ! i#})"
    by (rule mset_update [OF assms])
  ultimately show ?thesis by (simp add: swap_remove_def)
qed

lemma set_swap_remove:
  assumes "indexed key rows m" and "map_of m a = Some i"
  shows "set (swap_remove i rows) \<subseteq> set rows"
    and "key ` set (swap_remove i rows) = key ` set rows - {a}"
proof -
  have i: "i < length rows" "key (rows ! i) = a" using indexed_bound [OF assms] by simp_all
  note ms = mset_swap_remove [OF i(1)]
  have "set_mset (mset (swap_remove i rows)) \<subseteq> set_mset (mset rows)"
    unfolding ms by (meson in_diffD subsetI)
  then show "set (swap_remove i rows) \<subseteq> set rows" by simp
  have "rows ! i \<in># mset rows" using i(1) by simp
  then have "mset (map key (swap_remove i rows)) = mset (map key rows) - {#a#}"
    by (simp add: ms image_mset_Diff i(2))
  then have "set_mset (mset (map key (swap_remove i rows))) = set_mset (mset (map key rows) - {#a#})"
    by simp
  also have "\<dots> = set (map key rows) - {a}"
  proof -
    have "b \<in># mset (map key rows) - {#a#} \<longleftrightarrow> b \<in> set (map key rows) - {a}" for b
      using indexed_distinct [OF assms(1)]
      by (auto simp: in_diff_count distinct_count_atmost_1 split: if_splits)
    then show ?thesis by blast
  qed
  finally show "key ` set (swap_remove i rows) = key ` set rows - {a}" by simp
qed

lemma set_update_key:
  assumes "\<And>x. key (f x) = key x"
  shows "key ` set (rows[i := f (rows ! i)]) = key ` set rows"
proof -
  have "map key (rows[i := f (rows ! i)]) = map key rows"
    using assms by (simp add: map_update) (metis list_update_id map_update)
  then show ?thesis by (metis set_map)
qed

lemma retain_first_set:
  "set (retain_first key seen xs) \<subseteq> set xs"
  "key ` set (retain_first key seen xs) = key ` set xs - seen"
  "distinct (map key (retain_first key seen xs))"
proof -
  have "x \<in> set (retain_first key seen xs) \<Longrightarrow> x \<in> set xs" for x
    by (induction xs arbitrary: seen) (auto split: if_splits)
  then show "set (retain_first key seen xs) \<subseteq> set xs" by blast
  have k: "key ` set (retain_first key seen xs) = key ` set xs - seen" for seen xs
    by (induction xs arbitrary: seen) auto
  show "key ` set (retain_first key seen xs) = key ` set xs - seen" by (rule k)
  show "distinct (map key (retain_first key seen xs))"
  proof (induction xs arbitrary: seen)
    case (Cons x xs)
    have "key x \<notin> key ` set (retain_first key (insert (key x) seen) xs)" by (simp add: k)
    with Cons show ?case by auto
  qed simp
qed

lemma indexed_rows:
  assumes "distinct (map key xs)"
  shows "indexed key xs (index_rows key xs)"
proof -
  have "indexed key (ys @ xs)
      (foldl (\<lambda>m (i, x). AList.update (key x) i m) m (enumerate (length ys) xs))"
    if "indexed key ys m" "distinct (map key (ys @ xs))" for ys m
    using that
  proof (induction xs arbitrary: ys m)
    case (Cons x xs)
    have "map_of m (key x) = None"
      using Cons.prems by (auto simp: indexed_None)
    from indexed_push [OF Cons.prems(1) this] Cons.IH [of "ys @ [x]"] Cons.prems(2)
    show ?case by simp
  qed simp
  from this [of "[]" "[]"] assms show ?thesis by (simp add: index_rows_def)
qed

subsection \<open>The invariant\<close>

definition entry_bounds :: "list_entry \<Rightarrow> bool" where
  "entry_bounds e \<longleftrightarrow> advertisers_ok (le_advertisers e) \<and> claims_ok (le_creation_claims e)"

definition candidate_bounds :: "candidate_entry \<Rightarrow> bool" where
  "candidate_bounds c \<longleftrightarrow> advertisers_ok (ce_advertisers c) \<and> claims_ok (ce_creation_claims c)"

definition nl_coherent :: "internal_node_list \<Rightarrow> bool" where
  "nl_coherent nl \<longleftrightarrow>
     indexed le_address (nl_entries nl) (address_to_index nl) \<and>
     indexed ce_address (nl_candidates nl) (candidate_to_index nl) \<and>
     le_address ` set (nl_entries nl) \<inter> ce_address ` set (nl_candidates nl) = {} \<and>
     (\<forall>e \<in> set (nl_entries nl). is_publishable e)"

definition nl_bounded :: "internal_node_list \<Rightarrow> bool" where
  "nl_bounded nl \<longleftrightarrow>
     (\<forall>e \<in> set (nl_entries nl). entry_bounds e) \<and> (\<forall>c \<in> set (nl_candidates nl). candidate_bounds c)"

definition nl_ok :: "internal_node_list \<Rightarrow> bool" where
  "nl_ok nl \<longleftrightarrow> nl_coherent nl \<and> nl_bounded nl"

lemma get_index_None: "nl_coherent nl \<Longrightarrow> get_index nl a = None \<longleftrightarrow> a \<notin> le_address ` set (nl_entries nl)"
  by (simp add: nl_coherent_def get_index_def indexed_None)

lemma get_candidate_index_None:
  "nl_coherent nl \<Longrightarrow> get_candidate_index nl a = None \<longleftrightarrow> a \<notin> ce_address ` set (nl_candidates nl)"
  by (simp add: nl_coherent_def get_candidate_index_def indexed_None)

lemma get_index_Some:
  "nl_coherent nl \<Longrightarrow> get_index nl a = Some i \<Longrightarrow>
   i < length (nl_entries nl) \<and> le_address (nl_entries nl ! i) = a"
  using indexed_bound [of le_address "nl_entries nl" "address_to_index nl" a i]
  by (simp add: nl_coherent_def get_index_def)

lemma get_candidate_index_Some:
  "nl_coherent nl \<Longrightarrow> get_candidate_index nl a = Some i \<Longrightarrow>
   i < length (nl_candidates nl) \<and> ce_address (nl_candidates nl ! i) = a"
  using indexed_bound [of ce_address "nl_candidates nl" "candidate_to_index nl" a i]
  by (simp add: nl_coherent_def get_candidate_index_def)

lemma candidate_new_simps [simp]:
  "ce_address (candidate_new a t) = a" "candidate_bounds (candidate_new a t)"
  by (simp_all add: candidate_new_def candidate_bounds_def)

lemma list_entry_new_simps [simp]:
  "le_address (list_entry_new a t) = a" "entry_bounds (list_entry_new a t)"
  by (simp_all add: list_entry_new_def entry_bounds_def)

lemma ensure_candidate_coherent:
  assumes "nl_coherent nl"
  shows "nl_coherent (snd (ensure_candidate a t nl))"
proof (cases "get_candidate_index nl a = None \<and> get_index nl a = None")
  case True
  then have "map_of (candidate_to_index nl) (ce_address (candidate_new a t)) = None"
    by (simp add: get_candidate_index_def)
  with assms have "indexed ce_address (nl_candidates nl @ [candidate_new a t])
      (AList.update a (length (nl_candidates nl)) (candidate_to_index nl))"
    using indexed_push [of ce_address "nl_candidates nl" _ "candidate_new a t"]
    by (simp add: nl_coherent_def)
  moreover have "a \<notin> le_address ` set (nl_entries nl)"
    using True get_index_None [OF assms] by simp
  ultimately show ?thesis
    using assms True by (simp add: ensure_candidate_def Let_def nl_coherent_def)
next
  case False
  with assms show ?thesis by (auto simp: ensure_candidate_def split: option.split)
qed

lemma ensure_candidate_bounded:
  "nl_bounded nl \<Longrightarrow> nl_bounded (snd (ensure_candidate a t nl))"
  by (auto simp: ensure_candidate_def nl_bounded_def Let_def split: option.split)

lemma ensure_candidate_ok: "nl_ok nl \<Longrightarrow> nl_ok (snd (ensure_candidate a t nl))"
  by (simp add: nl_ok_def ensure_candidate_coherent ensure_candidate_bounded)

lemma ensure_candidate_index:
  assumes "nl_coherent nl" "ensure_candidate a t nl = (i, nl')" "get_index nl a = None"
  shows "i < length (nl_candidates nl') \<and> ce_address (nl_candidates nl' ! i) = a"
  using assms get_candidate_index_Some [OF assms(1)]
  by (auto simp: ensure_candidate_def Let_def split: option.splits)

lemma each_updated:
  assumes "\<forall>x. P x \<longrightarrow> P (f x)" "\<forall>x \<in> set xs. P x" "i < length xs"
  shows "\<forall>x \<in> set (xs[i := f (xs ! i)]). P x"
  using assms set_update_subset_insert [of xs i "f (xs ! i)"] nth_mem [OF assms(3)] by blast

lemma at_candidate_ok:
  assumes "nl_coherent nl" "\<And>c. ce_address (f c) = ce_address c"
    and "i < length (nl_candidates nl)"
  shows "\<exists>nl'. at_candidate i f nl = Some nl' \<and> nl_coherent nl' \<and>
    (nl_bounded nl \<longrightarrow> (\<forall>c. candidate_bounds c \<longrightarrow> candidate_bounds (f c)) \<longrightarrow> nl_bounded nl')"
proof -
  let ?cs = "(nl_candidates nl)[i := f (nl_candidates nl ! i)]"
  let ?nl = "nl\<lparr>nl_candidates := ?cs\<rparr>"
  have ix: "indexed ce_address ?cs (candidate_to_index nl)"
    using assms(1,2) by (intro indexed_update) (simp_all add: nl_coherent_def)
  have keys: "ce_address ` set ?cs = ce_address ` set (nl_candidates nl)"
    using assms(2) by (rule set_update_key)
  have "at_candidate i f nl = Some ?nl" using assms(3) by (simp add: at_candidate_def)
  moreover have "nl_coherent ?nl"
    using assms(1) ix unfolding nl_coherent_def by (simp add: keys)
  moreover have "nl_bounded ?nl"
    if "nl_bounded nl" "\<forall>c. candidate_bounds c \<longrightarrow> candidate_bounds (f c)"
  proof -
    have "\<forall>c \<in> set ?cs. candidate_bounds c"
      using that(2) _ assms(3) by (rule each_updated) (use that(1) in \<open>simp add: nl_bounded_def\<close>)
    with that(1) show ?thesis unfolding nl_bounded_def by simp
  qed
  ultimately show ?thesis by blast
qed

lemma at_entry_ok:
  assumes "nl_coherent nl" "\<And>e. le_address (f e) = le_address e"
    and "\<And>e. is_publishable e \<Longrightarrow> is_publishable (f e)" and "i < length (nl_entries nl)"
  shows "\<exists>nl'. at_entry i f nl = Some nl' \<and> nl_coherent nl' \<and>
    (nl_bounded nl \<longrightarrow> (\<forall>e. entry_bounds e \<longrightarrow> entry_bounds (f e)) \<longrightarrow> nl_bounded nl')"
proof -
  let ?es = "(nl_entries nl)[i := f (nl_entries nl ! i)]"
  let ?nl = "nl\<lparr>nl_entries := ?es\<rparr>"
  have ix: "indexed le_address ?es (address_to_index nl)"
    using assms(1,2) by (intro indexed_update) (simp_all add: nl_coherent_def)
  have keys: "le_address ` set ?es = le_address ` set (nl_entries nl)"
    using assms(2) by (rule set_update_key)
  have pub: "\<forall>e \<in> set ?es. is_publishable e"
    using _ _ assms(4) by (rule each_updated) (use assms(1,3) in \<open>auto simp: nl_coherent_def\<close>)
  have "at_entry i f nl = Some ?nl" using assms(4) by (simp add: at_entry_def)
  moreover have "nl_coherent ?nl"
    using assms(1) ix pub unfolding nl_coherent_def by (simp add: keys)
  moreover have "nl_bounded ?nl"
    if "nl_bounded nl" "\<forall>e. entry_bounds e \<longrightarrow> entry_bounds (f e)"
  proof -
    have "\<forall>e \<in> set ?es. entry_bounds e"
      using that(2) _ assms(4) by (rule each_updated) (use that(1) in \<open>simp add: nl_bounded_def\<close>)
    with that(1) show ?thesis unfolding nl_bounded_def by simp
  qed
  ultimately show ?thesis by blast
qed

subsection \<open>Removal and insertion\<close>

lemma remove_candidate_ok:
  assumes "nl_coherent nl"
  shows "\<exists>c nl'. remove_candidate a nl = Some (c, nl') \<and> nl_coherent nl' \<and>
    get_candidate_index nl' a = None \<and>
    nl_entries nl' = nl_entries nl \<and> address_to_index nl' = address_to_index nl \<and>
    set (nl_candidates nl') \<subseteq> set (nl_candidates nl) \<and>
    (\<forall>x. c = Some x \<longrightarrow> x \<in> set (nl_candidates nl) \<and> ce_address x = a)"
proof (cases "get_candidate_index nl a")
  case None
  with assms show ?thesis by (simp add: remove_candidate_def)
next
  case (Some i)
  let ?rows = "swap_remove i (nl_candidates nl)"
  let ?nl = "nl\<lparr>nl_candidates := ?rows,
     candidate_to_index := reindex ce_address a i ?rows (candidate_to_index nl)\<rparr>"
  have ix: "indexed ce_address (nl_candidates nl) (candidate_to_index nl)"
    and m: "map_of (candidate_to_index nl) a = Some i"
    using assms Some by (simp_all add: nl_coherent_def get_candidate_index_def)
  have i: "i < length (nl_candidates nl)" "ce_address (nl_candidates nl ! i) = a"
    using get_candidate_index_Some [OF assms Some] by simp_all
  note rows = set_swap_remove [OF ix m]
  have coh: "nl_coherent ?nl"
    using assms indexed_swap_remove [OF ix m] rows(2) unfolding nl_coherent_def by auto
  have "remove_candidate a nl = Some (Some (nl_candidates nl ! i), ?nl)"
    using Some i(1) by (simp add: remove_candidate_def Let_def)
  moreover have "get_candidate_index ?nl a = None"
    using get_candidate_index_None [OF coh, of a] rows(2) by simp
  ultimately show ?thesis using coh rows(1) i by auto
qed

lemma remove_by_address_ok:
  assumes "nl_coherent nl"
  shows "\<exists>e nl'. remove_by_address a nl = Some (e, nl') \<and> nl_coherent nl' \<and>
    get_index nl' a = None \<and>
    nl_candidates nl' = nl_candidates nl \<and> candidate_to_index nl' = candidate_to_index nl \<and>
    set (nl_entries nl') \<subseteq> set (nl_entries nl) \<and>
    (\<forall>x. e = Some x \<longrightarrow> x \<in> set (nl_entries nl) \<and> le_address x = a)"
proof (cases "get_index nl a")
  case None
  with assms show ?thesis by (simp add: remove_by_address_def)
next
  case (Some i)
  let ?rows = "swap_remove i (nl_entries nl)"
  let ?nl = "nl\<lparr>nl_entries := ?rows,
     address_to_index := reindex le_address a i ?rows (address_to_index nl)\<rparr>"
  have ix: "indexed le_address (nl_entries nl) (address_to_index nl)"
    and m: "map_of (address_to_index nl) a = Some i"
    using assms Some by (simp_all add: nl_coherent_def get_index_def)
  have i: "i < length (nl_entries nl)" "le_address (nl_entries nl ! i) = a"
    using get_index_Some [OF assms Some] by simp_all
  note rows = set_swap_remove [OF ix m]
  have coh: "nl_coherent ?nl"
    using assms indexed_swap_remove [OF ix m] rows unfolding nl_coherent_def by auto
  have "remove_by_address a nl = Some (Some (nl_entries nl ! i), ?nl)"
    using Some i(1) by (simp add: remove_by_address_def Let_def)
  moreover have "get_index ?nl a = None"
    using get_index_None [OF coh, of a] rows(2) by simp
  ultimately show ?thesis using coh rows(1) i by auto
qed

lemma push_entry:
  assumes "nl_coherent nl" "get_index nl (le_address e) = None"
    and "get_candidate_index nl (le_address e) = None" "is_publishable e"
  shows "nl_coherent (nl\<lparr>nl_entries := nl_entries nl @ [e],
    address_to_index := AList.update (le_address e) (length (nl_entries nl)) (address_to_index nl)\<rparr>)"
proof -
  have "indexed le_address (nl_entries nl @ [e])
      (AList.update (le_address e) (length (nl_entries nl)) (address_to_index nl))"
    using assms(1,2) by (intro indexed_push) (simp_all add: nl_coherent_def get_index_def)
  moreover have "le_address e \<notin> ce_address ` set (nl_candidates nl)"
    using get_candidate_index_None [OF assms(1)] assms(3) by simp
  ultimately show ?thesis using assms(1,4) by (simp add: nl_coherent_def)
qed

subsection \<open>What the updates of a row keep\<close>

lemma candidate_updates [simp]:
  "ce_address (add_advertiser adv t c) = ce_address c"
  "ce_address (candidate_add_creation_claim v r t c) = ce_address c"
  "ce_address (candidate_mark_failed t c) = ce_address c"
  "candidate_bounds c \<Longrightarrow> candidate_bounds (add_advertiser adv t c)"
  "candidate_bounds c \<Longrightarrow> candidate_bounds (candidate_add_creation_claim v r t c)"
  "candidate_bounds c \<Longrightarrow> candidate_bounds (candidate_mark_failed t c)"
  by (simp_all add: add_advertiser_def candidate_add_creation_claim_def candidate_mark_failed_def
      candidate_bounds_def add_report_ok add_claim_ok Let_def)

lemma entry_updates [simp]:
  "le_address (add_advertiser_observation ob e) = le_address e"
  "le_address (add_creation_claim v r t e) = le_address e"
  "verification_state (add_advertiser_observation ob e) = verification_state e"
  "verification_state (add_creation_claim v r t e) = verification_state e"
  "entry_bounds e \<Longrightarrow> entry_bounds (add_advertiser_observation ob e)"
  "entry_bounds e \<Longrightarrow> entry_bounds (add_creation_claim v r t e)"
  by (simp_all add: add_advertiser_observation_def add_creation_claim_def entry_bounds_def
      merge_report_ok add_claim_ok)

lemma foldl_keeps: "(\<And>x y. g (f x y) = g x) \<Longrightarrow> g (foldl f x ys) = g x"
  by (induction ys arbitrary: x) simp_all

lemma foldl_invariant: "(\<And>x y. P x \<Longrightarrow> P (f x y)) \<Longrightarrow> P x \<Longrightarrow> P (foldl f x ys)"
  by (induction ys arbitrary: x) simp_all

lemma absorb_candidate_keeps [simp]:
  "le_address (absorb_candidate cand e) = le_address e"
  "verification_state (absorb_candidate cand e) = verification_state e"
  by (simp_all add: absorb_candidate_def Let_def foldl_keeps [where g = le_address]
      foldl_keeps [where g = verification_state] split: option.split)

lemma absorb_candidate_bounds:
  assumes "entry_bounds e"
  shows "entry_bounds (absorb_candidate cand e)"
proof (cases cand)
  case (Some c)
  have "entry_bounds (e\<lparr>first_advertised_at := a, last_advertised_at := b\<rparr>)" for a b
    using assms by (simp add: entry_bounds_def)
  then show ?thesis
    unfolding absorb_candidate_def Let_def Some option.case
    by (intro foldl_invariant [where P = entry_bounds]) simp_all
qed (use assms in \<open>simp add: absorb_candidate_def\<close>)

lemma absorb_entry_keeps [simp]: "ce_address (absorb_entry prev c) = ce_address c"
  by (simp add: absorb_entry_def Let_def foldl_keeps [where g = ce_address] split: option.split)

lemma absorb_entry_bounds:
  assumes "candidate_bounds c"
  shows "candidate_bounds (absorb_entry prev c)"
proof (cases prev)
  case (Some p)
  have "candidate_bounds (c\<lparr>ce_first_advertised_at := a, ce_last_advertised_at := b\<rparr>)" for a b
    using assms by (simp add: candidate_bounds_def)
  then show ?thesis
    unfolding absorb_entry_def Let_def Some option.case
    by (intro foldl_invariant [where P = candidate_bounds]) simp_all
qed (use assms in \<open>simp add: absorb_entry_def\<close>)

lemma marked_entries [simp]:
  "le_address (mark_dht_verified t v e) = le_address e"
  "le_address (entry_mark_authenticated t e) = le_address e"
  "is_publishable (mark_dht_verified t v e)"
  "is_publishable (entry_mark_authenticated t e)"
  by (simp_all add: mark_dht_verified_def entry_mark_authenticated_def is_publishable_def Let_def
      add_creation_claim_def less_eq_node_verification_state_def max_def split: option.split)

lemma marked_bounds:
  "entry_bounds e \<Longrightarrow> entry_bounds (mark_dht_verified t v e)"
  "entry_bounds e \<Longrightarrow> entry_bounds (entry_mark_authenticated t e)"
  by (auto simp: mark_dht_verified_def entry_mark_authenticated_def entry_bounds_def Let_def
      add_creation_claim_def add_claim_ok split: option.split)

lemma refreshed_entries [simp]:
  "le_address (refresh_entry adv t r e) = le_address e"
  "verification_state (refresh_entry adv t r e) = verification_state e"
  "ce_address (advertise_candidate adv t r c) = ce_address c"
  by (simp_all add: refresh_entry_def advertise_candidate_def Let_def split: option.split)

lemma refreshed_bounds:
  assumes "entry_bounds e" shows "entry_bounds (refresh_entry adv t r e)"
proof -
  have "entry_bounds (e\<lparr>last_advertised_at := b\<rparr>)" for b
    using assms by (simp add: entry_bounds_def)
  then show ?thesis by (simp add: refresh_entry_def Let_def split: option.split)
qed

lemma advertised_bounds:
  "candidate_bounds c \<Longrightarrow> candidate_bounds (advertise_candidate adv t r c)"
  by (simp add: advertise_candidate_def Let_def split: option.split)

subsection \<open>Promotion, failure and quarantine\<close>

lemma promote_ok:
  assumes ok: "nl_coherent nl" and addr: "\<And>e. le_address (f e) = le_address e"
    and pub: "\<And>e. is_publishable (f e)"
  shows "\<exists>i nl'. promote clock a f nl = Some (i, nl') \<and> nl_coherent nl' \<and>
    i < length (nl_entries nl') \<and> le_address (nl_entries nl' ! i) = a \<and>
    get_index nl' a = Some i \<and> get_candidate_index nl' a = None \<and>
    (nl_bounded nl \<longrightarrow> (\<forall>e. entry_bounds e \<longrightarrow> entry_bounds (f e)) \<longrightarrow> nl_bounded nl')"
proof -
  from remove_candidate_ok [OF ok, of a] obtain c nl1
    where rm: "remove_candidate a nl = Some (c, nl1)" "nl_coherent nl1"
      "get_candidate_index nl1 a = None" "nl_entries nl1 = nl_entries nl"
      "set (nl_candidates nl1) \<subseteq> set (nl_candidates nl)" by blast
  have bd: "nl_bounded nl \<Longrightarrow> nl_bounded nl1" using rm by (auto simp: nl_bounded_def)
  let ?f = "f \<circ> absorb_candidate c"
  have fb: "(\<forall>e. entry_bounds e \<longrightarrow> entry_bounds (f e)) \<Longrightarrow>
      \<forall>e. entry_bounds e \<longrightarrow> entry_bounds (?f e)" by (simp add: absorb_candidate_bounds)
  show ?thesis
  proof (cases "get_index nl1 a")
    case (Some i)
    note i = get_index_Some [OF rm(2) Some]
    have "\<exists>nl'. at_entry i ?f nl1 = Some nl' \<and> nl_coherent nl' \<and>
        (nl_bounded nl1 \<longrightarrow> (\<forall>e. entry_bounds e \<longrightarrow> entry_bounds (?f e)) \<longrightarrow> nl_bounded nl')"
      using rm(2) i by (intro at_entry_ok) (simp_all add: addr pub)
    then obtain nl' where nl': "at_entry i ?f nl1 = Some nl'" "nl_coherent nl'"
      "nl_bounded nl1 \<longrightarrow> (\<forall>e. entry_bounds e \<longrightarrow> entry_bounds (?f e)) \<longrightarrow> nl_bounded nl'" by blast
    have shape: "nl' = nl1\<lparr>nl_entries := (nl_entries nl1)[i := ?f (nl_entries nl1 ! i)]\<rparr>"
      using nl'(1) i by (simp add: at_entry_def)
    have "promote clock a f nl = Some (i, nl')"
      using rm(1) Some nl'(1) by (simp add: promote_def ensure_verified_entry_def)
    moreover have "i < length (nl_entries nl')" "le_address (nl_entries nl' ! i) = a"
      "get_index nl' a = Some i" "get_candidate_index nl' a = None"
      using i Some rm(3) addr by (simp_all add: shape get_index_def get_candidate_index_def)
    ultimately show ?thesis using nl' bd fb by blast
  next
    case None
    let ?e = "?f (list_entry_new a clock)" and ?n = "length (nl_entries nl1)"
    let ?nl = "nl1\<lparr>nl_entries := nl_entries nl1 @ [?e],
      address_to_index := AList.update (le_address ?e) ?n (address_to_index nl1)\<rparr>"
    have a: "le_address ?e = a" by (simp add: addr)
    have coh: "nl_coherent ?nl"
    proof (rule push_entry [OF rm(2)])
      show "is_publishable ?e" by (simp add: pub)
    qed (simp_all only: a None rm(3))
    have "promote clock a f nl = Some (?n, ?nl)"
      using rm(1) None a
      by (simp add: promote_def ensure_verified_entry_def at_entry_def Let_def)
    moreover have "?n < length (nl_entries ?nl)" "le_address (nl_entries ?nl ! ?n) = a"
      "get_index ?nl a = Some ?n" "get_candidate_index ?nl a = None"
      using rm(3) a by (simp_all add: get_index_def get_candidate_index_def store_simps)
    moreover have "nl_bounded ?nl" if "nl_bounded nl" "\<forall>e. entry_bounds e \<longrightarrow> entry_bounds (f e)"
      using bd [OF that(1)] fb [OF that(2)] by (auto simp: nl_bounded_def)
    ultimately show ?thesis using coh by blast
  qed
qed

lemma mark_verification_failed_ok:
  assumes "nl_coherent nl"
  shows "\<exists>nl'. mark_verification_failed a t nl = Some nl' \<and> nl_coherent nl' \<and>
    (nl_bounded nl \<longrightarrow> nl_bounded nl')"
proof (cases "get_candidate_index nl a")
  case None
  with assms show ?thesis by (simp add: mark_verification_failed_def)
next
  case (Some i)
  from get_candidate_index_Some [OF assms Some] have "i < length (nl_candidates nl)" by blast
  from at_candidate_ok [OF assms _ this, of "candidate_mark_failed t"] Some show ?thesis
    by (auto simp: mark_verification_failed_def)
qed

lemma quarantine_ok:
  assumes ok: "nl_coherent nl"
  shows "\<exists>nl'. quarantine_failed_direct_verification a t nl = Some nl' \<and> nl_coherent nl' \<and>
    get_index nl' a = None \<and> get_candidate_index nl' a \<noteq> None \<and>
    (nl_bounded nl \<longrightarrow> nl_bounded nl')"
proof -
  from remove_by_address_ok [OF ok, of a] obtain e nl1
    where rm: "remove_by_address a nl = Some (e, nl1)" "nl_coherent nl1" "get_index nl1 a = None"
      "nl_candidates nl1 = nl_candidates nl" "set (nl_entries nl1) \<subseteq> set (nl_entries nl)" by blast
  have bd: "nl_bounded nl \<Longrightarrow> nl_bounded nl1" using rm by (auto simp: nl_bounded_def)
  obtain i nl2 where en: "ensure_candidate a t nl1 = (i, nl2)" by fastforce
  have nl2: "nl_coherent nl2" "nl_bounded nl1 \<Longrightarrow> nl_bounded nl2"
    using ensure_candidate_coherent [OF rm(2), of a t] ensure_candidate_bounded [of nl1 a t]
    by (simp_all add: en)
  note i = ensure_candidate_index [OF rm(2) en rm(3)]
  have idx: "get_index nl2 a = None" "get_candidate_index nl2 a \<noteq> None"
    using en rm(3) i get_candidate_index_None [OF nl2(1), of a]
    by (auto simp: ensure_candidate_def Let_def get_index_def split: option.splits)
  let ?f = "candidate_mark_failed t \<circ> absorb_entry e"
  have "\<exists>nl'. at_candidate i ?f nl2 = Some nl' \<and> nl_coherent nl' \<and>
      (nl_bounded nl2 \<longrightarrow> (\<forall>c. candidate_bounds c \<longrightarrow> candidate_bounds (?f c)) \<longrightarrow> nl_bounded nl')"
    using nl2(1) i by (intro at_candidate_ok) simp_all
  then obtain nl' where nl': "at_candidate i ?f nl2 = Some nl'" "nl_coherent nl'"
    "nl_bounded nl2 \<Longrightarrow> nl_bounded nl'" by (auto simp: absorb_entry_bounds)
  have "get_index nl' a = get_index nl2 a" "get_candidate_index nl' a = get_candidate_index nl2 a"
    using nl'(1) by (auto simp: at_candidate_def get_index_def get_candidate_index_def split: if_splits)
  then show ?thesis
    using rm(1) en nl' nl2 bd idx
    by (auto simp: quarantine_failed_direct_verification_def)
qed

subsection \<open>Advertised candidates\<close>

lemma insert_remote_ok:
  assumes "nl_coherent nl"
  shows "\<exists>nl' m rep'. insert_remote adv t r (nl, n, rep) = Some (nl', m, rep') \<and>
    nl_coherent nl' \<and> (nl_bounded nl \<longrightarrow> nl_bounded nl') \<and>
    map verification_state (nl_entries nl') = map verification_state (nl_entries nl) \<and>
    map le_address (nl_entries nl') = map le_address (nl_entries nl)"
proof -
  let ?a = "rt_address r"
  show ?thesis
  proof (cases "get_index nl ?a")
    case (Some i)
    note i = get_index_Some [OF assms Some]
    have "\<exists>nl'. at_entry i (refresh_entry adv t r) nl = Some nl' \<and> nl_coherent nl' \<and>
        (nl_bounded nl \<longrightarrow> (\<forall>e. entry_bounds e \<longrightarrow> entry_bounds (refresh_entry adv t r e)) \<longrightarrow>
          nl_bounded nl')"
      using assms i by (intro at_entry_ok) (simp_all add: is_publishable_def)
    then obtain nl' where nl': "at_entry i (refresh_entry adv t r) nl = Some nl'"
      "nl_coherent nl'" "nl_bounded nl \<longrightarrow> nl_bounded nl'"
      by (auto simp: refreshed_bounds)
    have "nl_entries nl' = (nl_entries nl)[i := refresh_entry adv t r (nl_entries nl ! i)]"
      using nl'(1) i by (auto simp: at_entry_def)
    moreover have "(map g (nl_entries nl))[i := g (nl_entries nl ! i)] = map g (nl_entries nl)"
      for g :: "list_entry \<Rightarrow> 'z"
      using i by (metis list_update_id nth_map)
    ultimately have "map verification_state (nl_entries nl') = map verification_state (nl_entries nl)"
      "map le_address (nl_entries nl') = map le_address (nl_entries nl)"
      by (simp_all add: map_update)
    with nl' Some show ?thesis by (simp add: insert_remote_def Let_def)
  next
    case None
    show ?thesis
    proof (cases "get_candidate_index nl ?a")
      case (Some i)
      let ?f = "\<lambda>c. advertise_candidate adv t r (c\<lparr>ce_last_advertised_at := t\<rparr>)"
      have fb: "\<forall>c. candidate_bounds c \<longrightarrow> candidate_bounds (?f c)"
        by (auto intro!: advertised_bounds) (simp add: candidate_bounds_def)
      have "\<exists>nl'. at_candidate i ?f nl = Some nl' \<and> nl_coherent nl' \<and>
          (nl_bounded nl \<longrightarrow> (\<forall>c. candidate_bounds c \<longrightarrow> candidate_bounds (?f c)) \<longrightarrow> nl_bounded nl')"
        using assms get_candidate_index_Some [OF assms Some] by (intro at_candidate_ok) simp_all
      then obtain nl' where nl': "at_candidate i ?f nl = Some nl'"
        "nl_coherent nl'" "nl_bounded nl \<longrightarrow> nl_bounded nl'" using fb by blast
      have "nl_entries nl' = nl_entries nl"
        using nl'(1) by (auto simp: at_candidate_def split: if_splits)
      with nl' None Some show ?thesis by (simp add: insert_remote_def Let_def)
    next
      case fresh: None
      show ?thesis
      proof (cases "n = 0")
        case True
        with assms None fresh show ?thesis by (simp add: insert_remote_def Let_def)
      next
        case False
        obtain i nl1 where en: "ensure_candidate ?a t nl = (i, nl1)" by fastforce
        have nl1: "nl_coherent nl1" "nl_bounded nl \<longrightarrow> nl_bounded nl1"
          using ensure_candidate_coherent [OF assms, of ?a t] ensure_candidate_bounded [of nl ?a t]
          by (simp_all add: en)
        have es: "nl_entries nl1 = nl_entries nl"
          using en by (auto simp: ensure_candidate_def Let_def split: option.splits if_splits)
        have "\<exists>nl'. at_candidate i (advertise_candidate adv t r) nl1 = Some nl' \<and>
            nl_coherent nl' \<and> (nl_bounded nl1 \<longrightarrow> (\<forall>c. candidate_bounds c \<longrightarrow>
              candidate_bounds (advertise_candidate adv t r c)) \<longrightarrow> nl_bounded nl')"
          using nl1 ensure_candidate_index [OF assms en None] by (intro at_candidate_ok) simp_all
        then obtain nl' where nl': "at_candidate i (advertise_candidate adv t r) nl1 = Some nl'"
          "nl_coherent nl'" "nl_bounded nl1 \<longrightarrow> nl_bounded nl'" by (auto simp: advertised_bounds)
        have "nl_entries nl' = nl_entries nl"
          using nl'(1) es by (auto simp: at_candidate_def split: if_splits)
        with nl' nl1 None fresh False en es show ?thesis
          by (auto simp: insert_remote_def Let_def)
      qed
    qed
  qed
qed

lemma insert_remotes_ok:
  assumes "nl_coherent nl"
  shows "\<exists>nl' m rep'. insert_remotes adv t rs (nl, n, rep) = Some (nl', m, rep') \<and>
    nl_coherent nl' \<and> (nl_bounded nl \<longrightarrow> nl_bounded nl') \<and>
    map verification_state (nl_entries nl') = map verification_state (nl_entries nl) \<and>
    map le_address (nl_entries nl') = map le_address (nl_entries nl)"
  using assms
proof (induction rs arbitrary: nl n rep)
  case (Cons r rs)
  from insert_remote_ok [OF Cons.prems, of adv t r n rep] obtain nl' m rep'
    where step: "insert_remote adv t r (nl, n, rep) = Some (nl', m, rep')" "nl_coherent nl'"
      "nl_bounded nl \<longrightarrow> nl_bounded nl'"
      "map verification_state (nl_entries nl') = map verification_state (nl_entries nl)"
      "map le_address (nl_entries nl') = map le_address (nl_entries nl)" by blast
  from Cons.IH [OF step(2), of m rep'] step show ?case by (auto simp del: map_eq_conv)
qed simp

lemma add_advertised_candidates_ok:
  assumes "nl_coherent nl"
  shows "\<exists>rep nl'. add_advertised_candidates h adv ads own t nl = Some (rep, nl') \<and>
    nl_coherent nl' \<and> (nl_bounded nl \<longrightarrow> nl_bounded nl') \<and>
    map verification_state (nl_entries nl') = map verification_state (nl_entries nl) \<and>
    map le_address (nl_entries nl') = map le_address (nl_entries nl)"
proof -
  let ?rs = "sort_key (\<lambda>r. h adv (rt_address r) (t div PUBLISH_RANDOM_ROTATION_SECS))
    (deduplicated adv own ads)"
  let ?n = "adaptive_candidate_limit_per_advertiser nl - candidates_from adv nl"
  from insert_remotes_ok [OF assms, of adv t ?rs ?n report_default] obtain nl' m rep
    where "insert_remotes adv t ?rs (nl, ?n, report_default) = Some (nl', m, rep)"
      "nl_coherent nl' \<and> (nl_bounded nl \<longrightarrow> nl_bounded nl') \<and>
       map verification_state (nl_entries nl') = map verification_state (nl_entries nl) \<and>
       map le_address (nl_entries nl') = map le_address (nl_entries nl)" by blast
  then show ?thesis
    by (intro exI [of _ rep] exI [of _ nl']) (simp add: add_advertised_candidates_def Let_def)
qed

subsection \<open>Rebuilding the index\<close>

lemma migrate_entry_keeps [simp]:
  "le_address (migrate_entry e) = le_address e"
  "is_publishable (migrate_entry e)"
  "entry_bounds (migrate_entry e) = entry_bounds e"
  by (cases "verification_state e"; simp add: migrate_entry_def is_publishable_def
      entry_bounds_def Let_def less_eq_node_verification_state_def)+

lemma demote_entry_keeps [simp]:
  "ce_address (demote_entry t e) = le_address e"
  "candidate_bounds (demote_entry t e) = entry_bounds e"
  by (simp_all add: demote_entry_def candidate_new_def candidate_bounds_def entry_bounds_def)

lemma bootstraps_ok:
  fixes nl :: internal_node_list
  assumes "P nl" "\<And>k nl. P nl \<Longrightarrow> P (snd (ensure_candidate k t nl))"
  shows "P (foldl (\<lambda>nl b. case parse b of Some k \<Rightarrow> snd (ensure_candidate k t nl) | None \<Rightarrow> nl) nl bs)"
  using assms by (intro foldl_invariant [where P = P]) (auto split: option.split)

lemma rebuild_index_coherent: "nl_coherent (rebuild_index parse t nl)"
proof -
  let ?verified = "map migrate_entry (filter has_direct_evidence (nl_entries nl))"
  let ?demoted = "map (demote_entry t) (filter (\<lambda>e. \<not> has_direct_evidence e) (nl_entries nl))"
  let ?es = "retain_first le_address {} ?verified"
  let ?cs = "retain_first ce_address (set (map le_address ?es)) (nl_candidates nl @ ?demoted)"
  let ?nl = "nl\<lparr>nl_entries := ?es, address_to_index := index_rows le_address ?es,
    nl_candidates := ?cs, candidate_to_index := index_rows ce_address ?cs\<rparr>"
  have "indexed le_address ?es (index_rows le_address ?es)"
    by (rule indexed_rows, rule retain_first_set)
  moreover have "indexed ce_address ?cs (index_rows ce_address ?cs)"
    by (rule indexed_rows, rule retain_first_set)
  moreover have "le_address ` set ?es \<inter> ce_address ` set ?cs = {}"
    unfolding retain_first_set(2) [of ce_address] by auto
  moreover have "\<forall>e \<in> set ?es. is_publishable e"
    using retain_first_set(1) [of le_address "{}" ?verified] by auto
  ultimately have "nl_coherent ?nl" unfolding nl_coherent_def by simp
  then show ?thesis
    unfolding rebuild_index_def Let_def
    by (rule bootstraps_ok) (rule ensure_candidate_coherent)
qed

lemma rebuild_index_bounded:
  assumes "nl_bounded nl"
  shows "nl_bounded (rebuild_index parse t nl)"
  unfolding rebuild_index_def Let_def
proof (rule bootstraps_ok)
  show "nl_bounded (snd (ensure_candidate k t nl))" if "nl_bounded nl" for k nl
    using that by (rule ensure_candidate_bounded)
qed (use assms in \<open>auto simp: nl_bounded_def dest!: subsetD [OF retain_first_set(1)]\<close>)

lemma rebuild_index_ok: "nl_bounded nl \<Longrightarrow> nl_ok (rebuild_index parse t nl)"
  by (simp add: nl_ok_def rebuild_index_coherent rebuild_index_bounded)

lemma nl_bounded_take:
  assumes "nl_bounded nl"
  shows "nl_bounded (nl\<lparr>nl_entries := take n (sort_key f (nl_entries nl))\<rparr>)"
    and "nl_bounded (nl\<lparr>nl_candidates := take n (sort_key g (nl_candidates nl))\<rparr>)"
  using assms set_take_subset [of n "sort_key f (nl_entries nl)"]
    set_take_subset [of n "sort_key g (nl_candidates nl)"]
  unfolding nl_bounded_def by auto

lemma truncate_to_budget_ok: "nl_ok nl \<Longrightarrow> nl_ok (truncate_to_budget parse t n nl)"
  unfolding truncate_to_budget_def
  by (auto simp: nl_ok_def intro!: rebuild_index_ok [unfolded nl_ok_def] nl_bounded_take)

lemma truncate_candidates_to_budget_ok:
  "nl_ok nl \<Longrightarrow> nl_ok (truncate_candidates_to_budget parse t n nl)"
  unfolding truncate_candidates_to_budget_def
  by (auto simp: nl_ok_def intro!: rebuild_index_ok [unfolded nl_ok_def] nl_bounded_take)

lemma node_list_new_ok [simp]: "nl_ok node_list_new"
  unfolding node_list_new_def nl_ok_def nl_coherent_def nl_bounded_def by simp

lemma new_with_bootstrap_ok: "new_with_bootstrap parse t = Some nl \<Longrightarrow> nl_ok nl"
proof -
  let ?step = "\<lambda>r b. case r of None \<Rightarrow> None
     | Some nl \<Rightarrow> (case parse b of None \<Rightarrow> None | Some k \<Rightarrow> Some (snd (ensure_candidate k t nl)))"
  have "case foldl ?step (Some node_list_new) bs of None \<Rightarrow> True | Some nl \<Rightarrow> nl_ok nl" for bs
    by (rule foldl_invariant [where P = "\<lambda>r. case r of None \<Rightarrow> True | Some nl \<Rightarrow> nl_ok nl"])
      (auto simp: ensure_candidate_ok split: option.splits)
  from this [of DEFAULT_BOOTSTRAP_DHTS] show "new_with_bootstrap parse t = Some nl \<Longrightarrow> nl_ok nl"
    by (simp add: new_with_bootstrap_def)
qed

end
