(* ===== verification/Node_Publish.thy ===== *)
theory Node_Publish
  imports Node_Invariant
begin

text \<open>
  What is read out of the topology state (\<open>src/node_list/mod.rs\<close>): the walk's target list, the
  routing table that is published, and the dashboard counters. The application fingerprint and
  the topology hash (both \<open>blake3\<close>), base64 decoding and the clock are parameters; \<open>stamp i\<close> is
  the clock when the \<open>i\<close>-th selected entry is encoded.
\<close>

definition UNDER_REPLICATED_MIN_ACCOUNT_AGE_SECS :: nat where
  "UNDER_REPLICATED_MIN_ACCOUNT_AGE_SECS = 30 * 24 * 60 * 60"
definition RECENT_DIRECT_VERIFICATION_SECS :: nat where
  "RECENT_DIRECT_VERIFICATION_SECS = 7 * 24 * 60 * 60"
definition CAPABILITY_MAILBOX :: "64 word" where "CAPABILITY_MAILBOX = push_bit 3 1"

subsection \<open>Walk targets\<close>

definition candidate_targets ::
  "record_key \<Rightarrow> nat \<Rightarrow> internal_node_list \<Rightarrow> record_key list" where
  "candidate_targets own t nl =
     map ce_address (sort_key candidate_order
       (filter (\<lambda>c. ce_address c \<noteq> own \<and> is_due_at t c) (nl_candidates nl))) @
     map le_address (sort_key (\<lambda>e.
          (\<not> is_advertised_online_at t e, descending (last_authenticated_at e),
           descending (last_direct_dht_read_at e)))
       (filter (\<lambda>e. le_address e \<noteq> own \<and> is_publishable e) (nl_entries nl)))"

subsection \<open>The published routing table\<close>

text \<open>The selected entries with the set of their keys.\<close>

type_synonym selection = "list_entry list \<times> string set"

fun select_from :: "nat \<Rightarrow> nat \<Rightarrow> list_entry list \<Rightarrow> selection \<Rightarrow> selection" where
  "select_from start quota [] s = s"
| "select_from start quota (e # es) (sel, keys) =
     (if quota \<le> length sel - start then (sel, keys)
      else if le_address e \<in> keys then select_from start quota es (sel, keys)
      else select_from start quota es (sel @ [e], insert (le_address e) keys))"

definition select_unique :: "nat \<Rightarrow> list_entry list \<Rightarrow> selection \<Rightarrow> selection" where
  "select_unique quota es s =
     (if quota = 0 then s else select_from (length (fst s)) quota es s)"

definition publishable :: "record_key \<Rightarrow> internal_node_list \<Rightarrow> list_entry list" where
  "publishable own nl = filter (\<lambda>e. is_publishable e \<and> le_address e \<noteq> own) (nl_entries nl)"

definition by_distance ::
  "(string \<Rightarrow> 8 word list option) \<Rightarrow> key_int \<Rightarrow> list_entry list \<Rightarrow> list_entry list" where
  "by_distance decode own_key es =
     map fst (sort_key snd (List.map_filter
       (\<lambda>e. map_option (\<lambda>k. (e, xor_dist own_key k)) (from_record_key decode (le_address e))) es))"

definition quantiles :: "nat \<Rightarrow> nat \<Rightarrow> list_entry list \<Rightarrow> list_entry list" where
  "quantiles closest_quota far_quota ds =
    (let remaining = length ds - closest_quota in
     if remaining \<noteq> 0 \<and> far_quota \<noteq> 0
     then List.map_filter (\<lambda>slot.
            (let i = closest_quota + min (((slot + 1) * remaining) div (far_quota + 1))
                       (remaining - 1)
             in if i < length ds then Some (ds ! i) else None)) [0..<far_quota]
     else [])"

definition recently_verified :: "nat \<Rightarrow> list_entry \<Rightarrow> bool" where
  "recently_verified t e \<longleftrightarrow>
     t - last_direct_dht_read_at e \<le> RECENT_DIRECT_VERIFICATION_SECS \<or>
     t - last_authenticated_at e \<le> RECENT_DIRECT_VERIFICATION_SECS"

definition is_credible :: "nat \<Rightarrow> list_entry \<Rightarrow> bool" where
  "is_credible t e \<longleftrightarrow>
     (case account_created_at e of
        None \<Rightarrow> False
      | Some c \<Rightarrow> UNDER_REPLICATED_MIN_ACCOUNT_AGE_SECS \<le> t - c) \<and>
     recently_verified t e \<and> \<not> account_creation_is_contested e"

definition percent :: "nat \<Rightarrow> nat \<Rightarrow> nat" where
  "percent limit p = sat_mul u64_max limit p div 100"

definition table_selection ::
  "(string \<Rightarrow> 8 word list option) \<Rightarrow> (record_key \<Rightarrow> record_key \<Rightarrow> nat \<Rightarrow> nat) \<Rightarrow> record_key \<Rightarrow>
   key_int \<Rightarrow> nat \<Rightarrow> nat \<Rightarrow> list_entry list \<Rightarrow> selection" where
  "table_selection decode topology_hash own own_key t limit es =
    (let ds = by_distance decode own_key es;
         closest_quota = percent limit 40;
         far_quota = percent limit 20;
         authenticated_quota = percent limit 20;
         under_replicated_quota = percent limit 10;
         random_quota = limit - closest_quota - far_quota - authenticated_quota -
           under_replicated_quota;
         s = select_unique closest_quota (take closest_quota ds) ([], {});
         s = select_unique far_quota (quantiles closest_quota far_quota ds) s;
         s = select_unique authenticated_quota (filter (\<lambda>e. last_authenticated_at e \<noteq> 0)
               (sort_key (\<lambda>e. (descending (last_authenticated_at e),
                  descending (last_direct_dht_read_at e))) es)) s;
         s = select_unique under_replicated_quota
               (sort_key (\<lambda>e. (length (le_advertisers e), descending (last_seen e)))
                 (filter (is_credible t) es)) s;
         s = select_unique random_quota
               (sort_key (\<lambda>e. topology_hash own (le_address e)
                  (t div PUBLISH_RANDOM_ROTATION_SECS)) es) s
     in select_unique (limit - length (fst s))
          (sort_key (\<lambda>e.
             (descending (max (last_authenticated_at e) (last_direct_dht_read_at e)),
              descending (length (le_advertisers e)))) es) s)"

definition encode_all ::
  "(string \<Rightarrow> nat) \<Rightarrow> (nat \<Rightarrow> nat) \<Rightarrow> list_entry list \<Rightarrow> record_table_entry list" where
  "encode_all fp stamp es = map (\<lambda>(i, e). to_record_table_entry fp (stamp i) e) (enumerate 0 es)"

definition record_table_entries_for_publish ::
  "(string \<Rightarrow> 8 word list option) \<Rightarrow> (record_key \<Rightarrow> record_key \<Rightarrow> nat \<Rightarrow> nat) \<Rightarrow> (string \<Rightarrow> nat) \<Rightarrow>
   (nat \<Rightarrow> nat) \<Rightarrow> nat \<Rightarrow> record_key \<Rightarrow> nat \<Rightarrow> internal_node_list \<Rightarrow> record_table_entry list" where
  "record_table_entries_for_publish decode topology_hash fp stamp t own limit nl =
    (if limit = 0 then []
     else
      (case from_record_key decode own of
         None \<Rightarrow> encode_all fp stamp (take limit (publishable own nl))
       | Some own_key \<Rightarrow>
           encode_all fp stamp (take limit
             (fst (table_selection decode topology_hash own own_key t limit (publishable own nl))))))"

subsection \<open>Dashboard counters\<close>

record network_summary =
  ns_verified_nodes :: nat
  ns_candidate_nodes :: nat
  ns_authenticated_nodes :: nat
  ns_online :: nat
  ns_explicitly_offline :: nat
  ns_stale_online_claim :: nat
  ns_needs_refresh :: nat
  ns_unknown :: nat
  ns_presence_reads_ok :: nat
  ns_presence_reads_failed :: nat
  ns_presence_never_checked :: nat
  ns_active_app_headers :: nat
  ns_mailbox_capable :: nat

definition summary_default :: network_summary where
  "summary_default = \<lparr>ns_verified_nodes = 0, ns_candidate_nodes = 0, ns_authenticated_nodes = 0,
     ns_online = 0, ns_explicitly_offline = 0, ns_stale_online_claim = 0, ns_needs_refresh = 0,
     ns_unknown = 0, ns_presence_reads_ok = 0, ns_presence_reads_failed = 0,
     ns_presence_never_checked = 0, ns_active_app_headers = 0, ns_mailbox_capable = 0\<rparr>"

fun count_presence :: "node_presence_state \<Rightarrow> network_summary \<Rightarrow> network_summary" where
  "count_presence Online s = s\<lparr>ns_online := ns_online s + 1\<rparr>"
| "count_presence ExplicitlyOffline s = s\<lparr>ns_explicitly_offline := ns_explicitly_offline s + 1\<rparr>"
| "count_presence StaleOnlineClaim s = s\<lparr>ns_stale_online_claim := ns_stale_online_claim s + 1\<rparr>"
| "count_presence NeedsRefresh s = s\<lparr>ns_needs_refresh := ns_needs_refresh s + 1\<rparr>"
| "count_presence Unknown s = s\<lparr>ns_unknown := ns_unknown s + 1\<rparr>"

definition count_entry :: "nat \<Rightarrow> network_summary \<Rightarrow> list_entry \<Rightarrow> network_summary" where
  "count_entry t s e =
    (let s = (if verification_state e = Authenticated
              then s\<lparr>ns_authenticated_nodes := ns_authenticated_nodes s + 1\<rparr> else s);
         s = count_presence (presence_state_at t e) s;
         s = (if presence_checked_at e = 0
              then s\<lparr>ns_presence_never_checked := ns_presence_never_checked s + 1\<rparr>
              else if presence_read_succeeded e
              then s\<lparr>ns_presence_reads_ok := ns_presence_reads_ok s + 1\<rparr>
              else s\<lparr>ns_presence_reads_failed := ns_presence_reads_failed s + 1\<rparr>);
         s = (if t - APP_DISCOVERY_ACTIVITY_TTL_SECS \<le> app_info_updated_at e \<and>
                 application_ids e \<noteq> []
              then s\<lparr>ns_active_app_headers := ns_active_app_headers s + 1\<rparr> else s)
     in if and (capability_flags e) CAPABILITY_MAILBOX \<noteq> 0
        then s\<lparr>ns_mailbox_capable := ns_mailbox_capable s + 1\<rparr> else s)"

definition network_summary_at :: "nat \<Rightarrow> internal_node_list \<Rightarrow> network_summary" where
  "network_summary_at t nl =
     foldl (count_entry t)
       (summary_default\<lparr>ns_verified_nodes := length (nl_entries nl),
                        ns_candidate_nodes := length (nl_candidates nl)\<rparr>)
       (nl_entries nl)"

definition count_app :: "(string \<times> nat) list \<Rightarrow> string \<Rightarrow> (string \<times> nat) list" where
  "count_app m a = amodify a (\<lambda>n. n + 1) (or_insert a 0 m)"

definition observed_application_counts_at ::
  "nat \<Rightarrow> internal_node_list \<Rightarrow> (string \<times> nat) list" where
  "observed_application_counts_at t nl =
    (let counts = foldl (\<lambda>m e.
           if \<not> is_publishable e \<or> app_info_updated_at e < t - APP_DISCOVERY_ACTIVITY_TTL_SECS
           then m else foldl count_app m (application_ids e)) [] (nl_entries nl)
     in sort_key (\<lambda>(a, n). (descending n, a)) counts)"

subsection \<open>Lemmas on the selection\<close>

definition selection_ok :: "list_entry list \<Rightarrow> selection \<Rightarrow> bool" where
  "selection_ok es s \<longleftrightarrow>
     set (fst s) \<subseteq> set es \<and> distinct (map le_address (fst s)) \<and> snd s = le_address ` set (fst s)"

lemma select_from_ok:
  assumes "selection_ok all s" "set es \<subseteq> set all"
  shows "selection_ok all (select_from start quota es s)"
  using assms
  by (induction start quota es s rule: select_from.induct) (auto simp: selection_ok_def)

lemma select_from_extends:
  "\<exists>xs. fst (select_from start quota es s) = fst s @ xs"
  by (induction start quota es s rule: select_from.induct) auto

lemma select_from_length:
  "start \<le> length (fst s) \<Longrightarrow> length (fst s) \<le> start + quota \<Longrightarrow>
   length (fst (select_from start quota es s)) \<le> start + quota"
  by (induction start quota es s rule: select_from.induct) auto

lemma select_from_fills:
  "start \<le> length (fst s) \<Longrightarrow>
   start + quota \<le> length (fst (select_from start quota es s)) \<or>
   le_address ` set es \<subseteq> snd (select_from start quota es s)"
proof (induction start quota es s rule: select_from.induct)
  case (2 start quota e es sel keys)
  have mono: "snd s \<subseteq> snd (select_from start quota es s)" for start quota es and s :: selection
    by (induction start quota es s rule: select_from.induct) auto
  show ?case
  proof (cases "quota \<le> length sel - start")
    case False
    note full = this
    show ?thesis
    proof (cases "le_address e \<in> keys")
      case True
      with 2(1) [OF full True] 2(3) mono [of "(sel, keys)" start quota es] full
      show ?thesis by auto
    next
      case False
      with 2(2) [OF full False] 2(3) full
        mono [of "(sel @ [e], insert (le_address e) keys)" start quota es]
      show ?thesis by auto
    qed
  qed (use 2 in auto)
qed simp

lemma select_unique_ok:
  "selection_ok all s \<Longrightarrow> set es \<subseteq> set all \<Longrightarrow> selection_ok all (select_unique quota es s)"
  by (simp add: select_unique_def select_from_ok)

lemma select_unique_extends: "\<exists>xs. fst (select_unique quota es s) = fst s @ xs"
  using select_from_extends by (simp add: select_unique_def)

lemma select_unique_length: "length (fst (select_unique quota es s)) \<le> length (fst s) + quota"
  using select_from_length [of "length (fst s)" s quota es] by (simp add: select_unique_def)

lemma select_unique_fills:
  "length (fst (select_unique quota es s)) = length (fst s) + quota \<or>
   le_address ` set es \<subseteq> snd (select_unique quota es s)"
  using select_from_fills [of "length (fst s)" s quota es] select_unique_length [of quota es s]
  by (auto simp: select_unique_def)

lemma select_unique_all:
  assumes "distinct (map le_address es)" "length es \<le> quota" "le_address ` set es \<inter> snd s = {}"
  shows "fst (select_unique quota es s) = fst s @ es"
proof -
  have "fst (select_from start quota es s) = fst s @ es"
    if "distinct (map le_address es)" "le_address ` set es \<inter> snd s = {}"
      "length (fst s) - start + length es \<le> quota" "start \<le> length (fst s)" for start quota es s
    using that
  proof (induction start quota es s rule: select_from.induct)
    case (2 start quota e es sel keys)
    have "\<not> quota \<le> length sel - start" using 2(5,6) by simp
    moreover have "le_address e \<notin> keys" using 2(4) by auto
    ultimately show ?case using 2 by (auto simp: Suc_diff_le)
  qed simp
  from this [of es s "length (fst s)" quota] assms show ?thesis
    by (auto simp: select_unique_def)
qed

lemma by_distance_subset: "set (by_distance decode k es) \<subseteq> set es"
  by (auto simp: by_distance_def List.map_filter_def)

lemma by_distance_distinct:
  assumes "distinct (map le_address es)"
  shows "distinct (map le_address (by_distance decode k es))"
proof -
  let ?f = "\<lambda>e. map_option (\<lambda>x. (e, xor_dist k x)) (from_record_key decode (le_address e))"
  have sub: "set (map (\<lambda>p. le_address (fst p)) (List.map_filter ?f es)) \<subseteq> set (map le_address es)" for es
    by (induction es) (auto simp: List.map_filter_simps split: option.splits)
  have "distinct (map (\<lambda>p. le_address (fst p)) (List.map_filter ?f es))"
    using assms
  proof (induction es)
    case (Cons e es)
    have "le_address e \<notin> set (map (\<lambda>p. le_address (fst p)) (List.map_filter ?f es))"
      using Cons.prems sub [of es] by auto
    moreover have "distinct (map (\<lambda>p. le_address (fst p)) (List.map_filter ?f es))"
      using Cons by simp
    ultimately show ?case
      by (cases "from_record_key decode (le_address e)") (simp_all add: List.map_filter_simps)
  qed (simp add: List.map_filter_simps)
  moreover have "mset (map (\<lambda>p. le_address (fst p)) (sort_key snd (List.map_filter ?f es))) =
      mset (map (\<lambda>p. le_address (fst p)) (List.map_filter ?f es))" by simp
  ultimately have "distinct (map (\<lambda>p. le_address (fst p)) (sort_key snd (List.map_filter ?f es)))"
    using mset_eq_imp_distinct_iff by blast
  then show ?thesis by (simp add: by_distance_def comp_def)
qed

lemma quantiles_subset: "set (quantiles c f ds) \<subseteq> set ds"
  by (auto simp: quantiles_def Let_def List.map_filter_def split: if_splits)

lemma encode_all_addresses [simp]: "map rt_address (encode_all fp stamp es) = map le_address es"
proof -
  have "map rt_address (map (\<lambda>(i, e). to_record_table_entry fp (stamp i) e) (enumerate n es)) =
      map le_address es" for n
    by (induction es arbitrary: n) simp_all
  then show ?thesis by (simp only: encode_all_def)
qed

lemma length_encode_all [simp]: "length (encode_all fp stamp es) = length es"
  by (simp add: encode_all_def)

lemma percent_le: "percent limit p \<le> limit * p div 100"
  by (simp add: percent_def sat_mul_def div_le_mono)

lemma quotas_within:
  "percent limit 40 + percent limit 20 + percent limit 20 + percent limit 10 \<le> limit"
proof -
  have "percent limit 40 \<le> limit * 40 div 100" "percent limit 20 \<le> limit * 20 div 100"
    "percent limit 10 \<le> limit * 10 div 100" by (rule percent_le)+
  then show ?thesis by linarith
qed

text \<open>What every publish selects from a list of distinct publishable nodes.\<close>

lemma table_selection_ok:
  assumes es: "distinct (map le_address es)"
    and def_s: "s = table_selection decode h own k t limit es"
  shows "selection_ok es s" and "length (fst s) = min limit (length es)"
    and "\<exists>xs. fst s = take (percent limit 40) (by_distance decode k es) @ xs"
proof -
  let ?q = "percent limit"
  let ?ds = "by_distance decode k es"
  define s1 where "s1 = select_unique (?q 40) (take (?q 40) ?ds) ([], {})"
  define s2 where "s2 = select_unique (?q 20) (quantiles (?q 40) (?q 20) ?ds) s1"
  define s3 where "s3 = select_unique (?q 20) (filter (\<lambda>e. last_authenticated_at e \<noteq> 0)
     (sort_key (\<lambda>e. (descending (last_authenticated_at e),
        descending (last_direct_dht_read_at e))) es)) s2"
  define s4 where "s4 = select_unique (?q 10)
     (sort_key (\<lambda>e. (length (le_advertisers e), descending (last_seen e)))
       (filter (is_credible t) es)) s3"
  define r where "r = limit - ?q 40 - ?q 20 - ?q 20 - ?q 10"
  define s5 where "s5 = select_unique r
     (sort_key (\<lambda>e. h own (le_address e) (t div PUBLISH_RANDOM_ROTATION_SECS)) es) s4"
  define fb where "fb = sort_key (\<lambda>e.
     (descending (max (last_authenticated_at e) (last_direct_dht_read_at e)),
      descending (length (le_advertisers e)))) es"
  have s: "s = select_unique (limit - length (fst s5)) fb s5"
    unfolding def_s table_selection_def Let_def s1_def s2_def s3_def s4_def s5_def r_def fb_def ..
  have ds: "set ?ds \<subseteq> set es" by (rule by_distance_subset)
  have "selection_ok es ([], {})" by (simp add: selection_ok_def)
  then have "selection_ok es s1" unfolding s1_def
    using ds by (rule select_unique_ok [OF _ order_trans [OF set_take_subset]])
  then have "selection_ok es s2" unfolding s2_def
    using order_trans [OF quantiles_subset ds] by (rule select_unique_ok)
  then have "selection_ok es s3" unfolding s3_def by (rule select_unique_ok) auto
  then have "selection_ok es s4" unfolding s4_def by (rule select_unique_ok) auto
  then have ok5: "selection_ok es s5" unfolding s5_def by (rule select_unique_ok) auto
  then show ok: "selection_ok es s" unfolding s by (rule select_unique_ok) (simp add: fb_def)
  have card: "length (fst s) = card (le_address ` set (fst s))"
    using ok by (metis selection_ok_def distinct_card length_map set_map)
  have total: "length es = card (le_address ` set es)"
    using es by (metis distinct_card length_map set_map)
  have le: "length (fst s) \<le> length es"
    unfolding card total using ok by (intro card_mono) (auto simp: selection_ok_def)
  have l1: "length (fst s1) \<le> ?q 40"
    using select_unique_length [of "?q 40" "take (?q 40) ?ds" "([], {})"] by (simp add: s1_def)
  have l2: "length (fst s2) \<le> length (fst s1) + ?q 20"
    unfolding s2_def by (rule select_unique_length)
  have l3: "length (fst s3) \<le> length (fst s2) + ?q 20"
    unfolding s3_def by (rule select_unique_length)
  have l4: "length (fst s4) \<le> length (fst s3) + ?q 10"
    unfolding s4_def by (rule select_unique_length)
  have l5: "length (fst s5) \<le> length (fst s4) + r"
    unfolding s5_def by (rule select_unique_length)
  have "length (fst s5) \<le> ?q 40 + ?q 20 + ?q 20 + ?q 10 + r"
    using l1 l2 l3 l4 l5 by linarith
  then have five: "length (fst s5) \<le> limit" using quotas_within [of limit] by (simp add: r_def)
  have "length (fst s) = length (fst s5) + (limit - length (fst s5)) \<or>
      le_address ` set fb \<subseteq> snd s"
    unfolding s by (rule select_unique_fills)
  then have "limit \<le> length (fst s) \<or> length es \<le> length (fst s)"
  proof
    assume "le_address ` set fb \<subseteq> snd s"
    then have "le_address ` set es \<subseteq> le_address ` set (fst s)"
      using ok by (simp add: fb_def selection_ok_def)
    then show ?thesis unfolding card total by (simp add: card_mono)
  qed (use five in simp)
  moreover have "length (fst s) \<le> limit"
    using select_unique_length [of "limit - length (fst s5)" fb s5] five by (simp add: s)
  ultimately show "length (fst s) = min limit (length es)" using le by linarith
  have "fst s1 = take (?q 40) ?ds"
    using select_unique_all [of "take (?q 40) ?ds" "?q 40" "([], {})"] by_distance_distinct [OF es]
    by (simp add: s1_def take_map [symmetric])
  moreover obtain x2 where "fst s2 = fst s1 @ x2"
    using select_unique_extends unfolding s2_def by blast
  moreover obtain x3 where "fst s3 = fst s2 @ x3"
    using select_unique_extends unfolding s3_def by blast
  moreover obtain x4 where "fst s4 = fst s3 @ x4"
    using select_unique_extends unfolding s4_def by blast
  moreover obtain x5 where "fst s5 = fst s4 @ x5"
    using select_unique_extends unfolding s5_def by blast
  moreover obtain x6 where "fst s = fst s5 @ x6"
    using select_unique_extends unfolding s by blast
  ultimately show "\<exists>xs. fst s = take (?q 40) ?ds @ xs" by simp
qed

end
