(* ===== verification/Node_Machine.thy ===== *)
theory Node_Machine
  imports Node_Publish
begin

text \<open>
  The topology state as a machine: one step is one call that the walk task makes on
  \<open>InternalNodeList\<close>. \<open>None\<close> is a panic; the interpretation of the machine contract shows that
  it is never reached from a coherent state.
\<close>

definition check_presence ::
  "record_key \<Rightarrow> nat \<Rightarrow> bool \<Rightarrow> internal_node_list \<Rightarrow> internal_node_list option" where
  "check_presence a t ok nl =
    (case get_index nl a of
       None \<Rightarrow> Some nl
     | Some i \<Rightarrow>
        if i < length (nl_entries nl) then at_entry i (mark_presence_checked t ok) nl else Some nl)"

datatype node_command =
    EnsureCandidate record_key nat
  | PromoteDhtVerified record_key "nat option" nat nat
  | MarkAuthenticated record_key nat nat
  | MarkVerificationFailed record_key nat
  | Quarantine record_key nat
  | AddAdvertised record_key "record_table_entry list" record_key nat
  | CheckPresence record_key nat bool
  | RecordFutureCreation record_key nat nat nat nat
  | RemoveByAddress record_key
  | RebuildIndex nat
  | TruncateEntries nat nat
  | TruncateCandidates nat nat

fun node_call ::
  "(string \<Rightarrow> record_key option) \<Rightarrow> (record_key \<Rightarrow> record_key \<Rightarrow> nat \<Rightarrow> nat) \<Rightarrow> node_command \<Rightarrow>
   internal_node_list \<Rightarrow> internal_node_list option" where
  "node_call parse h (EnsureCandidate a t) nl = Some (snd (ensure_candidate a t nl))"
| "node_call parse h (PromoteDhtVerified a created t clock) nl =
     map_option snd (promote_dht_verified clock a created t nl)"
| "node_call parse h (MarkAuthenticated a t clock) nl =
     map_option snd (mark_authenticated clock a t nl)"
| "node_call parse h (MarkVerificationFailed a t) nl = mark_verification_failed a t nl"
| "node_call parse h (Quarantine a t) nl = quarantine_failed_direct_verification a t nl"
| "node_call parse h (AddAdvertised adv ads own t) nl =
     map_option snd (add_advertised_candidates h adv ads own t nl)"
| "node_call parse h (CheckPresence a t ok) nl = check_presence a t ok nl"
| "node_call parse h (RecordFutureCreation a v t window threshold) nl =
     Some (snd (record_future_creation_event a v t window threshold nl))"
| "node_call parse h (RemoveByAddress a) nl = map_option snd (remove_by_address a nl)"
| "node_call parse h (RebuildIndex t) nl = Some (rebuild_index parse t nl)"
| "node_call parse h (TruncateEntries n t) nl = Some (truncate_to_budget parse t n nl)"
| "node_call parse h (TruncateCandidates n t) nl =
     Some (truncate_candidates_to_budget parse t n nl)"

definition node_step ::
  "(string \<Rightarrow> record_key option) \<Rightarrow> (record_key \<Rightarrow> record_key \<Rightarrow> nat \<Rightarrow> nat) \<Rightarrow>
   internal_node_list option \<Rightarrow> node_command \<Rightarrow> internal_node_list option" where
  "node_step parse h s c = Option.bind s (node_call parse h c)"

subsection \<open>Every call keeps the invariant\<close>

lemma check_presence_ok:
  assumes "nl_coherent nl"
  shows "\<exists>nl'. check_presence a t ok nl = Some nl' \<and> nl_coherent nl' \<and>
    (nl_bounded nl \<longrightarrow> nl_bounded nl')"
proof (cases "get_index nl a")
  case (Some i)
  have "\<exists>nl'. at_entry i (mark_presence_checked t ok) nl = Some nl' \<and> nl_coherent nl' \<and>
      (nl_bounded nl \<longrightarrow> (\<forall>e. entry_bounds e \<longrightarrow> entry_bounds (mark_presence_checked t ok e)) \<longrightarrow>
        nl_bounded nl')"
    using assms get_index_Some [OF assms Some]
    by (intro at_entry_ok) (simp_all add: mark_presence_checked_def is_publishable_def)
  then show ?thesis
    using Some get_index_Some [OF assms Some]
    by (auto simp: check_presence_def mark_presence_checked_def entry_bounds_def)
qed (use assms in \<open>simp add: check_presence_def\<close>)

lemma record_future_keeps [simp]:
  "nl_entries (snd (record_future_creation_event a v t w n nl)) = nl_entries nl"
  "nl_candidates (snd (record_future_creation_event a v t w n nl)) = nl_candidates nl"
  "address_to_index (snd (record_future_creation_event a v t w n nl)) = address_to_index nl"
  "candidate_to_index (snd (record_future_creation_event a v t w n nl)) = candidate_to_index nl"
  by (simp_all add: record_future_creation_event_def Let_def)

lemma record_future_ok:
  "nl_coherent nl \<Longrightarrow> nl_coherent (snd (record_future_creation_event a v t w n nl))"
  "nl_bounded nl \<Longrightarrow> nl_bounded (snd (record_future_creation_event a v t w n nl))"
  by (simp_all add: nl_coherent_def nl_bounded_def)

lemma promote_calls_ok:
  assumes "nl_coherent nl"
  shows "\<exists>i nl'. promote_dht_verified clock a created t nl = Some (i, nl') \<and> nl_coherent nl' \<and>
      get_index nl' a = Some i \<and> (nl_bounded nl \<longrightarrow> nl_bounded nl')"
    and "\<exists>i nl'. mark_authenticated clock a t nl = Some (i, nl') \<and> nl_coherent nl' \<and>
      get_index nl' a = Some i \<and> (nl_bounded nl \<longrightarrow> nl_bounded nl')"
  using promote_ok [OF assms, of "mark_dht_verified t created" clock a]
    promote_ok [OF assms, of "entry_mark_authenticated t" clock a]
  by (auto simp: promote_dht_verified_def mark_authenticated_def marked_bounds)

lemma truncate_coherent:
  assumes "nl_coherent nl"
  shows "nl_coherent (truncate_to_budget parse t n nl)"
    and "nl_coherent (truncate_candidates_to_budget parse t n nl)"
  using assms
  by (simp_all add: truncate_to_budget_def truncate_candidates_to_budget_def rebuild_index_coherent)

lemma truncate_bounded:
  assumes "nl_bounded nl"
  shows "nl_bounded (truncate_to_budget parse t n nl)"
    and "nl_bounded (truncate_candidates_to_budget parse t n nl)"
  using assms
  by (simp_all add: truncate_to_budget_def truncate_candidates_to_budget_def
      rebuild_index_bounded nl_bounded_take)

lemma node_call_ok:
  assumes ok: "nl_coherent nl"
  shows "\<exists>nl'. node_call parse h c nl = Some nl' \<and> nl_coherent nl' \<and>
    (nl_bounded nl \<longrightarrow> nl_bounded nl')"
proof (cases c)
  case (PromoteDhtVerified a created t clock)
  then show ?thesis using promote_calls_ok(1) [OF ok, of clock a created t] by auto
next
  case (MarkAuthenticated a t clock)
  then show ?thesis using promote_calls_ok(2) [OF ok, of clock a t] by auto
next
  case (MarkVerificationFailed a t)
  then show ?thesis using mark_verification_failed_ok [OF ok, of a t] by auto
next
  case (Quarantine a t)
  then show ?thesis using quarantine_ok [OF ok, of a t] by auto
next
  case (AddAdvertised adv ads own t)
  then show ?thesis using add_advertised_candidates_ok [OF ok, of h adv ads own t] by auto
next
  case (CheckPresence a t p)
  then show ?thesis using check_presence_ok [OF ok, of a t p] by auto
next
  case (RemoveByAddress a)
  from remove_by_address_ok [OF ok, of a] obtain e nl'
    where "remove_by_address a nl = Some (e, nl')" "nl_coherent nl'"
      "nl_candidates nl' = nl_candidates nl" and sub: "set (nl_entries nl') \<subseteq> set (nl_entries nl)"
    by blast
  moreover have "nl_bounded nl \<longrightarrow> nl_bounded nl'"
    using calculation(3) subsetD [OF sub] by (simp add: nl_bounded_def)
  ultimately show ?thesis using RemoveByAddress by simp
qed (use ok in \<open>simp_all add: ensure_candidate_coherent ensure_candidate_bounded record_future_ok
    rebuild_index_coherent rebuild_index_bounded truncate_coherent truncate_bounded\<close>)

definition never_panicked :: "internal_node_list option \<Rightarrow> bool" where
  "never_panicked s \<longleftrightarrow> (case s of None \<Rightarrow> False | Some nl \<Rightarrow> nl_coherent nl)"

definition never_oversized :: "internal_node_list option \<Rightarrow> bool" where
  "never_oversized s \<longleftrightarrow> (case s of None \<Rightarrow> False | Some nl \<Rightarrow> nl_ok nl)"

interpretation topology: invariant_machine "node_step parse h" never_panicked
  for parse :: "string \<Rightarrow> record_key option" and h :: "record_key \<Rightarrow> record_key \<Rightarrow> nat \<Rightarrow> nat"
proof unfold_locales
  fix s c assume "never_panicked s"
  then obtain nl where "s = Some nl" "nl_coherent nl"
    by (auto simp: never_panicked_def split: option.splits)
  with node_call_ok [of nl parse h c] show "never_panicked (node_step parse h s c)"
    by (auto simp: never_panicked_def node_step_def)
qed

interpretation topology_bounds: invariant_machine "node_step parse h" never_oversized
  for parse :: "string \<Rightarrow> record_key option" and h :: "record_key \<Rightarrow> record_key \<Rightarrow> nat \<Rightarrow> nat"
proof unfold_locales
  fix s c assume "never_oversized s"
  then obtain nl where "s = Some nl" "nl_coherent nl" "nl_bounded nl"
    by (auto simp: never_oversized_def nl_ok_def split: option.splits)
  with node_call_ok [of nl parse h c] show "never_oversized (node_step parse h s c)"
    by (auto simp: never_oversized_def node_step_def nl_ok_def)
qed

subsection \<open>Only direct evidence makes a verified entry\<close>

fun verifies :: "record_key \<Rightarrow> node_command \<Rightarrow> bool" where
  "verifies a (PromoteDhtVerified b _ _ _) = (b = a)"
| "verifies a (MarkAuthenticated b _ _) = (b = a)"
| "verifies a _ = False"

definition verified_addresses :: "internal_node_list \<Rightarrow> record_key set" where
  "verified_addresses nl = le_address ` set (nl_entries nl)"

lemma verified_get_index:
  "nl_coherent nl \<Longrightarrow> a \<in> verified_addresses nl \<longleftrightarrow> get_index nl a \<noteq> None"
  by (simp add: verified_addresses_def get_index_None)

lemma at_entry_addresses:
  assumes "at_entry i f nl = Some nl'" "\<And>e. le_address (f e) = le_address e"
  shows "verified_addresses nl' = verified_addresses nl"
proof -
  have "nl' = nl\<lparr>nl_entries := (nl_entries nl)[i := f (nl_entries nl ! i)]\<rparr>"
    using assms(1) by (simp add: at_entry_def split: if_splits)
  then show ?thesis
    using set_update_key [of le_address f, OF assms(2)] by (simp add: verified_addresses_def)
qed

lemma at_candidate_entries: "at_candidate i f nl = Some nl' \<Longrightarrow> nl_entries nl' = nl_entries nl"
  by (auto simp: at_candidate_def split: if_splits)

lemma ensure_candidate_entries [simp]: "nl_entries (snd (ensure_candidate a t nl)) = nl_entries nl"
  by (simp add: ensure_candidate_def Let_def split: option.split)

lemma rebuild_index_entries:
  "nl_entries (rebuild_index parse t nl) =
     retain_first le_address {} (map migrate_entry (filter has_direct_evidence (nl_entries nl)))"
  unfolding rebuild_index_def Let_def
  by (rule foldl_keeps [where g = nl_entries, THEN trans]) (simp_all split: option.split)

lemma rebuild_index_addresses: "verified_addresses (rebuild_index parse t nl) \<subseteq> verified_addresses nl"
  unfolding verified_addresses_def rebuild_index_entries retain_first_set(2) by auto

lemma truncate_addresses:
  "verified_addresses (truncate_to_budget parse t n nl) \<subseteq> verified_addresses nl"
  "verified_addresses (truncate_candidates_to_budget parse t n nl) \<subseteq> verified_addresses nl"
proof -
  have "verified_addresses (nl\<lparr>nl_entries := take n (sort_key f (nl_entries nl))\<rparr>) \<subseteq>
      verified_addresses nl" for f :: "list_entry \<Rightarrow> int \<times> int \<times> int \<times> int"
    using set_take_subset [of n "sort_key f (nl_entries nl)"] by (auto simp: verified_addresses_def)
  then show "verified_addresses (truncate_to_budget parse t n nl) \<subseteq> verified_addresses nl"
    unfolding truncate_to_budget_def using order_trans [OF rebuild_index_addresses] by simp
  show "verified_addresses (truncate_candidates_to_budget parse t n nl) \<subseteq> verified_addresses nl"
    using rebuild_index_addresses [of parse t "nl\<lparr>nl_candidates := cs\<rparr>" for cs]
    by (simp add: truncate_candidates_to_budget_def verified_addresses_def)
qed

end
