(* ===== verification/Node_Properties.thy ===== *)
theory Node_Properties
  imports Node_Machine
begin

text \<open>
  What the topology state guarantees: no call panics and lookups are exact; only direct
  evidence makes a node publishable, however much is advertised; one source adds a bounded
  number of candidates; failures back off; the published table and the walk's targets.
\<close>

subsection \<open>Calls and indexes\<close>

lemma coherent_lookup:
  assumes "nl_coherent nl"
  shows "get_by_address nl a = List.find (\<lambda>e. le_address e = a) (nl_entries nl)"
proof (cases "get_index nl a")
  case None
  then have "\<forall>e \<in> set (nl_entries nl). le_address e \<noteq> a"
    using get_index_None [OF assms, of a] by auto
  with None show ?thesis by (simp add: get_by_address_def find_None_iff2)
next
  case (Some i)
  note i = get_index_Some [OF assms Some]
  have d: "distinct (map le_address (nl_entries nl))"
    using assms indexed_distinct by (auto simp: nl_coherent_def)
  have "le_address (nl_entries nl ! j) \<noteq> a" if "j < i" for j
    using that i nth_eq_iff_index_eq [OF d, of j i] by auto
  with i have "List.find (\<lambda>e. le_address e = a) (nl_entries nl) = Some (nl_entries nl ! i)"
    by (auto simp: find_Some_iff intro!: exI [of _ i])
  with Some i show ?thesis by (simp add: get_by_address_def)
qed

lemma coherent_distinct:
  assumes "nl_coherent nl"
  shows "distinct (map le_address (nl_entries nl) @ map ce_address (nl_candidates nl))"
proof -
  have "distinct (map le_address (nl_entries nl))" "distinct (map ce_address (nl_candidates nl))"
    "le_address ` set (nl_entries nl) \<inter> ce_address ` set (nl_candidates nl) = {}"
    using assms indexed_distinct unfolding nl_coherent_def by blast+
  then show ?thesis by (simp add: disjoint_iff)
qed

lemma calls_from_rebuild:
  "\<exists>nl. foldl (node_step parse h) (Some (rebuild_index parse t saved)) calls = Some nl \<and>
     nl_coherent nl"
  using topology.run_inv [of "Some (rebuild_index parse t saved)" parse h calls]
    rebuild_index_coherent [of parse t saved]
  by (simp add: never_panicked_def split: option.splits)

text \<open>
  C8. Whatever state was saved, once its index is rebuilt every
  sequence of calls returns: no call panics. A lookup by address then finds exactly the entry
  with that address, no address is listed twice or both verified and a candidate, and every
  listed entry is publishable.
\<close>

theorem topology_calls_never_panic:
  "\<exists>nl. foldl (node_step parse h) (Some (rebuild_index parse t saved)) calls = Some nl \<and>
     (\<forall>a. get_by_address nl a = List.find (\<lambda>e. le_address e = a) (nl_entries nl)) \<and>
     distinct (map le_address (nl_entries nl) @ map ce_address (nl_candidates nl)) \<and>
     list_all is_publishable (nl_entries nl)"
proof -
  obtain nl where nl: "foldl (node_step parse h) (Some (rebuild_index parse t saved)) calls = Some nl"
    "nl_coherent nl" using calls_from_rebuild by blast
  then have "list_all is_publishable (nl_entries nl)" by (simp add: nl_coherent_def list_all_iff)
  with nl coherent_lookup [OF nl(2)] coherent_distinct [OF nl(2)] show ?thesis by blast
qed

text \<open>
  From a saved state whose rows respect the bounds, no sequence of
  calls makes a row list more than 32 advertisers or 32 creation claims, or two observations of
  one advertiser.
\<close>

theorem topology_evidence_bounded:
  assumes "nl_bounded saved"
  shows "\<exists>nl. foldl (node_step parse h) (Some (rebuild_index parse t saved)) calls = Some nl \<and>
    list_all (\<lambda>e. length (le_advertisers e) \<le> 32 \<and> length (le_creation_claims e) \<le> 32 \<and>
      distinct (map ao_advertiser (le_advertisers e))) (nl_entries nl) \<and>
    list_all (\<lambda>c. length (ce_advertisers c) \<le> 32 \<and> length (ce_creation_claims c) \<le> 32 \<and>
      distinct (map ao_advertiser (ce_advertisers c))) (nl_candidates nl)"
  using topology_bounds.run_inv [of "Some (rebuild_index parse t saved)" parse h calls]
    rebuild_index_ok [OF assms, of parse t]
  by (auto simp: never_oversized_def nl_ok_def nl_bounded_def list_all_iff entry_bounds_def
      candidate_bounds_def advertisers_ok_def claims_ok_def MAX_ADVERTISERS_PER_NODE_def
      MAX_CREATION_CLAIMS_PER_NODE_def split: option.splits)

subsection \<open>Only direct evidence is published\<close>

lemma remove_calls_addresses:
  "remove_candidate a nl = Some (c, nl') \<Longrightarrow> nl_entries nl' = nl_entries nl"
  by (auto simp: remove_candidate_def Let_def split: option.splits if_splits)

lemma promote_addresses:
  assumes "promote clock a f nl = Some (i, nl')" "\<And>e. le_address (f e) = le_address e"
  shows "verified_addresses nl' \<subseteq> insert a (verified_addresses nl)"
proof -
  obtain c nl1 j nl2 where s: "remove_candidate a nl = Some (c, nl1)"
    "ensure_verified_entry clock a nl1 = (j, nl2)" "at_entry j (f \<circ> absorb_candidate c) nl2 = Some nl'"
    using assms(1) by (auto simp: promote_def split: option.splits prod.splits)
  have "verified_addresses nl' = verified_addresses nl2"
    using at_entry_addresses [OF s(3)] assms(2) by simp
  also have "\<dots> \<subseteq> insert a (verified_addresses nl1)"
    using s(2) by (auto simp: ensure_verified_entry_def verified_addresses_def Let_def
        split: option.splits)
  also have "verified_addresses nl1 = verified_addresses nl"
    using remove_calls_addresses [OF s(1)] by (simp add: verified_addresses_def)
  finally show ?thesis .
qed

lemma same_verified:
  "map le_address (nl_entries nl') = map le_address (nl_entries nl) \<Longrightarrow>
   verified_addresses nl' = verified_addresses nl"
  unfolding verified_addresses_def by (metis set_map)

lemma remove_by_address_verified:
  assumes "nl_coherent nl" "remove_by_address a nl = Some (e, nl')"
  shows "verified_addresses nl' \<subseteq> verified_addresses nl"
  using remove_by_address_ok [OF assms(1), of a] assms(2) by (auto simp: verified_addresses_def)

lemma quarantine_verified:
  assumes "nl_coherent nl" "quarantine_failed_direct_verification a t nl = Some nl'"
  shows "verified_addresses nl' \<subseteq> verified_addresses nl"
proof -
  obtain e nl1 where rm: "remove_by_address a nl = Some (e, nl1)"
    using assms(2) by (auto simp: quarantine_failed_direct_verification_def split: option.splits)
  have "nl_entries nl' = nl_entries nl1"
    using rm assms(2) ensure_candidate_entries [of a t nl1]
    by (auto simp: quarantine_failed_direct_verification_def simp del: ensure_candidate_entries
        dest!: at_candidate_entries split: prod.splits if_splits)
  with remove_by_address_verified [OF assms(1) rm] show ?thesis
    by (simp add: verified_addresses_def)
qed

lemma node_call_verified:
  assumes ok: "nl_coherent nl" and c: "node_call parse h c nl = Some nl'"
    and "a \<in> verified_addresses nl'"
  shows "a \<in> verified_addresses nl \<or> verifies a c"
proof -
  have "verified_addresses nl' \<subseteq> verified_addresses nl \<union> {a. verifies a c}"
  proof (cases c)
    case (PromoteDhtVerified b created t clock)
    with c show ?thesis using promote_addresses [of clock b "mark_dht_verified t created" nl]
      by (fastforce simp: promote_dht_verified_def)
  next
    case (MarkAuthenticated b t clock)
    with c show ?thesis using promote_addresses [of clock b "entry_mark_authenticated t" nl]
      by (fastforce simp: mark_authenticated_def)
  next
    case (MarkVerificationFailed b t)
    with c show ?thesis
      by (auto simp: mark_verification_failed_def verified_addresses_def dest!: at_candidate_entries
          split: option.splits)
  next
    case (Quarantine b t)
    with c quarantine_verified [OF ok, of b t nl'] show ?thesis by auto
  next
    case (AddAdvertised adv ads own t)
    with c add_advertised_candidates_ok [OF ok, of h adv ads own t] show ?thesis
      by (auto dest: same_verified)
  next
    case (CheckPresence b t p)
    have "le_address (mark_presence_checked t p e) = le_address e" for e
      by (simp add: mark_presence_checked_def)
    with CheckPresence c show ?thesis
      by (auto simp: check_presence_def dest!: at_entry_addresses split: option.splits if_splits)
  next
    case (RemoveByAddress b)
    with c remove_by_address_verified [OF ok, of b] show ?thesis by auto
  next
    case (RebuildIndex t)
    with c rebuild_index_addresses show ?thesis by auto
  next
    case (TruncateEntries n t)
    with c truncate_addresses(1) [of parse t n nl] show ?thesis by auto
  next
    case (TruncateCandidates n t)
    with c truncate_addresses(2) [of parse t n nl] show ?thesis by auto
  qed (use c in \<open>auto simp: verified_addresses_def\<close>)
  with assms(3) show ?thesis by blast
qed

lemma node_calls_verified:
  assumes "nl_coherent nl" "foldl (node_step parse h) (Some nl) calls = Some nl'"
    and "list_all (\<lambda>c. \<not> verifies a c) calls" "a \<notin> verified_addresses nl"
  shows "a \<notin> verified_addresses nl'"
  using assms
proof (induction calls arbitrary: nl)
  case (Cons c calls)
  from node_call_ok [OF Cons.prems(1), of parse h c] obtain nl1
    where nl1: "node_call parse h c nl = Some nl1" "nl_coherent nl1" by blast
  with node_call_verified [OF Cons.prems(1) nl1(1), of a] Cons.prems(3,4)
  have "a \<notin> verified_addresses nl1" by auto
  with Cons.IH [OF nl1(2)] Cons.prems(2,3) nl1(1) show ?case by (simp add: node_step_def)
qed simp

lemma publishable_addresses: "le_address ` set (publishable own nl) \<subseteq> verified_addresses nl - {own}"
  by (auto simp: publishable_def verified_addresses_def)

lemma publish_table_ok:
  assumes "nl_coherent nl"
    and def_table: "table = record_table_entries_for_publish decode h fp stamp t own limit nl"
  shows "distinct (map rt_address table)"
    and "set (map rt_address table) \<subseteq> le_address ` set (publishable own nl)"
    and "length table = min limit (length (publishable own nl))"
proof -
  let ?es = "publishable own nl"
  have d: "distinct (map le_address ?es)"
    using coherent_distinct [OF assms(1)] by (auto simp: publishable_def distinct_map_filter)
  consider "limit = 0" | "limit \<noteq> 0" "from_record_key decode own = None"
    | k where "limit \<noteq> 0" "from_record_key decode own = Some k" by blast
  then have "distinct (map rt_address table) \<and>
      set (map rt_address table) \<subseteq> le_address ` set ?es \<and> length table = min limit (length ?es)"
  proof cases
    case 2
    have "set (map le_address (take limit ?es)) \<subseteq> le_address ` set ?es"
      using set_take_subset by fastforce
    with 2 d show ?thesis
      by (simp add: def_table record_table_entries_for_publish_def distinct_take take_map
          flip: take_map)
  next
    case 3
    define sel where "sel = fst (table_selection decode h own k t limit ?es)"
    note sel = table_selection_ok [OF d refl, of decode h own k t limit, folded sel_def]
    have "take limit sel = sel" using sel(2) by simp
    then have table: "table = encode_all fp stamp sel"
      using 3 by (simp add: def_table record_table_entries_for_publish_def sel_def)
    have "distinct (map le_address sel)" "set sel \<subseteq> set ?es"
      using sel(1) by (simp_all add: selection_ok_def sel_def)
    with sel(2) show ?thesis unfolding table by auto
  qed (simp add: def_table record_table_entries_for_publish_def)
  then show "distinct (map rt_address table)"
    "set (map rt_address table) \<subseteq> le_address ` set ?es"
    "length table = min limit (length ?es)" by blast+
qed

text \<open>
  C9. An address that was not verified is never in a published
  table until a call verifies it: whatever others advertise, and whatever failures, quarantines,
  truncations and rebuilds happen meanwhile.
\<close>

theorem advertising_never_publishes:
  assumes "a \<notin> verified_addresses saved" and "list_all (\<lambda>c. \<not> verifies a c) calls"
    and "foldl (node_step parse h) (Some (rebuild_index parse t0 saved)) calls = Some nl"
  shows "a \<notin> set (map rt_address
    (record_table_entries_for_publish decode h fp stamp t own limit nl))"
proof -
  have "a \<notin> verified_addresses (rebuild_index parse t0 saved)"
    using assms(1) rebuild_index_addresses by blast
  then have "a \<notin> verified_addresses nl"
    using node_calls_verified [OF rebuild_index_coherent assms(3,2)] by simp
  moreover have "nl_coherent nl"
    using calls_from_rebuild [of parse h t0 saved calls] assms(3) by simp
  ultimately show ?thesis
    using publish_table_ok(2) [OF _ refl] publishable_addresses by blast
qed

text \<open>
  C10. A published table lists no address twice, lists only
  verified addresses and never the node itself, and has as many entries as the limit and the
  publishable nodes allow.
\<close>

theorem published_table_is_full_and_clean:
  assumes "nl_coherent nl"
    and "table = record_table_entries_for_publish decode h fp stamp t own limit nl"
  shows "distinct (map rt_address table) \<and> own \<notin> set (map rt_address table) \<and>
    set (map rt_address table) \<subseteq> verified_addresses nl \<and>
    length table = min limit (length (filter (\<lambda>e. le_address e \<noteq> own) (nl_entries nl)))"
proof -
  have "publishable own nl = filter (\<lambda>e. le_address e \<noteq> own) (nl_entries nl)"
    using assms(1) by (auto simp: publishable_def nl_coherent_def intro: filter_cong)
  then show ?thesis
    using publish_table_ok [OF assms(1) refl, of decode h fp stamp t own limit]
      publishable_addresses [of own nl] unfolding assms(2) by auto
qed

text \<open>
  C11. The nearest slice of a published table: a publishable node
  that is not among its first 40 percent is no nearer, in XOR distance, than any node that is.
\<close>

theorem published_table_prefers_nearest:
  assumes "nl_coherent nl" and "from_record_key decode own = Some k"
    and "table = record_table_entries_for_publish decode h fp stamp t own limit nl"
    and "e \<in> set (publishable own nl)" and "from_record_key decode (le_address e) = Some ke"
    and "le_address e \<notin> set (take (percent limit 40) (map rt_address table))"
    and "i < percent limit 40"
  shows "\<exists>ki. from_record_key decode (map rt_address table ! i) = Some ki \<and>
    xor_dist k ki \<le> xor_dist k ke"
proof -
  let ?es = "publishable own nl" and ?q = "percent limit 40"
  let ?f = "\<lambda>e. map_option (\<lambda>x. (e, xor_dist k x)) (from_record_key decode (le_address e))"
  define ps where "ps = sort_key snd (List.map_filter ?f ?es)"
  define sel where "sel = fst (table_selection decode h own k t limit ?es)"
  have ds: "by_distance decode k ?es = map fst ps" by (simp add: by_distance_def ps_def)
  have pair: "p \<in> set ps \<longleftrightarrow> (\<exists>x. fst p \<in> set ?es \<and> snd p = xor_dist k x \<and>
      from_record_key decode (le_address (fst p)) = Some x)" for p
    by (cases p) (force simp: ps_def List.map_filter_def)
  have d: "distinct (map le_address ?es)"
    using coherent_distinct [OF assms(1)] by (auto simp: publishable_def distinct_map_filter)
  note sel = table_selection_ok [OF d refl, of decode h own k t limit, folded sel_def]
  obtain xs where xs: "sel = take ?q (map fst ps) @ xs" using sel(3) ds by auto
  have "limit \<noteq> 0" using assms(7) by (auto simp: percent_def sat_mul_def)
  moreover have "take limit sel = sel" using sel(2) by simp
  ultimately have addr: "map rt_address table = map le_address sel"
    by (simp add: assms(2,3) record_table_entries_for_publish_def sel_def)
  have inps: "(e, xor_dist k ke) \<in> set ps" using assms(4,5) by (auto simp: pair)
  then obtain j where j: "j < length ps" "ps ! j = (e, xor_dist k ke)" by (auto simp: in_set_conv_nth)
  have "?q \<le> j"
  proof (rule ccontr)
    assume "\<not> ?q \<le> j"
    then have "take ?q (map fst ps) ! j = e" "j < length (take ?q (map fst ps))"
      using j by simp_all
    then have "e \<in> set (take ?q (map fst ps))" by (metis nth_mem)
    moreover have "take ?q (map le_address sel) = map le_address (take ?q sel)"
      by (simp add: take_map)
    moreover have "take ?q sel = take ?q (map fst ps) @ take (?q - length ps) xs"
      by (simp add: xs min_def)
    ultimately have "le_address e \<in> set (take ?q (map le_address sel))" by simp
    with assms(6) addr show False by simp
  qed
  with assms(7) j have i: "i < j" "i < length ps" by simp_all
  have "sorted (map snd ps)" by (simp add: ps_def)
  from sorted_nth_mono [OF this, of i j] have le: "snd (ps ! i) \<le> snd (ps ! j)" using i(1) j(1) by simp
  have "sel ! i = fst (ps ! i)" using i assms(7) by (simp add: xs nth_append)
  moreover have "i < length sel" using i assms(7) by (simp add: xs)
  ultimately have "map rt_address table ! i = le_address (fst (ps ! i))" by (simp add: addr)
  moreover have "ps ! i \<in> set ps" using i by simp
  then obtain x where "snd (ps ! i) = xor_dist k x"
    "from_record_key decode (le_address (fst (ps ! i))) = Some x" using pair [of "ps ! i"] by blast
  ultimately show ?thesis using le j(2) by simp
qed

end
