(* ===== verification/Node_Advertising.thy ===== *)
theory Node_Advertising
  imports Node_Properties
begin

text \<open>
  Advertised candidates: what an advertisement may change, how many candidates one source may
  add, how failures back off, what a quarantine withdraws, what the walk targets, how far the
  budgets hold, and when a cohort of future creation times is reported.
\<close>

subsection \<open>What an advertisement changes\<close>

text \<open>A verified entry without the three fields that record what others said of it.\<close>

definition local_view :: "list_entry \<Rightarrow> list_entry" where
  "local_view e = e\<lparr>last_advertised_at := 0, le_advertisers := [], le_creation_claims := []\<rparr>"

lemma local_view_refresh [simp]: "local_view (refresh_entry adv t r e) = local_view e"
  by (simp add: refresh_entry_def local_view_def Let_def add_advertiser_observation_def
      add_creation_claim_def split: option.split)

lemma map_update_same: "i < length xs \<Longrightarrow> g (f (xs ! i)) = g (xs ! i) \<Longrightarrow> map g (xs[i := f (xs ! i)]) = map g xs"
  by (metis list_update_id map_update)

lemma at_entry_view:
  assumes "at_entry i f nl = Some nl'" "\<And>e. g (f e) = g e"
  shows "map g (nl_entries nl') = map g (nl_entries nl)"
  using assms by (auto simp: at_entry_def map_update_same split: if_splits)

text \<open>The candidates with their failure state: an advertisement only appends to them.\<close>

definition failure_view :: "candidate_entry \<Rightarrow> record_key \<times> nat \<times> nat \<times> nat" where
  "failure_view c = (ce_address c, failed_verifications c, last_verification_failure_at c,
     next_verification_attempt_at c)"

lemma failure_view_advertise [simp]:
  "failure_view (advertise_candidate adv t r c) = failure_view c"
  "failure_view (c\<lparr>ce_last_advertised_at := t\<rparr>) = failure_view c"
  by (simp_all add: advertise_candidate_def failure_view_def Let_def add_advertiser_def
      candidate_add_creation_claim_def split: option.split)

lemma at_candidate_view:
  assumes "at_candidate i f nl = Some nl'" "\<And>c. g (f c) = g c"
  shows "map g (nl_candidates nl') = map g (nl_candidates nl)"
  using assms by (auto simp: at_candidate_def map_update_same split: if_splits)

lemma ensure_candidate_appends:
  "\<exists>cs. nl_candidates (snd (ensure_candidate a t nl)) = nl_candidates nl @ cs"
  by (simp add: ensure_candidate_def Let_def split: option.split)

lemma at_entry_candidates: "at_entry i f nl = Some nl' \<Longrightarrow> nl_candidates nl' = nl_candidates nl"
  by (auto simp: at_entry_def split: if_splits)

lemma insert_remote_frame:
  assumes "insert_remote adv t r (nl, n, rep) = Some (nl', m, rep')"
  shows "map local_view (nl_entries nl') = map local_view (nl_entries nl)"
    and "\<exists>xs. map failure_view (nl_candidates nl') = map failure_view (nl_candidates nl) @ xs"
proof -
  let ?a = "rt_address r"
  let ?new = "snd (ensure_candidate ?a t nl)"
  have "map local_view (nl_entries nl') = map local_view (nl_entries nl) \<and>
      (\<exists>xs. map failure_view (nl_candidates nl') = map failure_view (nl_candidates nl) @ xs)"
  proof (cases "get_index nl ?a")
    case (Some i)
    with assms have "at_entry i (refresh_entry adv t r) nl = Some nl'"
      by (auto simp: insert_remote_def Let_def)
    then show ?thesis using at_entry_view [of _ _ nl nl' local_view] at_entry_candidates by auto
  next
    case None
    show ?thesis
    proof (cases "get_candidate_index nl ?a")
      case (Some i)
      with None assms have at: "at_candidate i (\<lambda>c. advertise_candidate adv t r
          (c\<lparr>ce_last_advertised_at := t\<rparr>)) nl = Some nl'"
        by (auto simp: insert_remote_def Let_def)
      show ?thesis
        using at_candidate_view [OF at, of failure_view] at_candidate_entries [OF at] by simp
    next
      case fresh: None
      with None assms consider "nl' = nl \<or> nl' = ?new"
        | i where "at_candidate i (advertise_candidate adv t r) ?new = Some nl'"
        by (cases "ensure_candidate ?a t nl")
          (auto simp: insert_remote_def Let_def split: if_splits)
      then show ?thesis
      proof cases
        case 1
        then show ?thesis using ensure_candidate_appends [of ?a t nl] by auto
      next
        case at: 2
        then show ?thesis
          using at_candidate_view [OF at, of failure_view] at_candidate_entries [OF at]
            ensure_candidate_appends [of ?a t nl] by auto
      qed
    qed
  qed
  then show "map local_view (nl_entries nl') = map local_view (nl_entries nl)"
    "\<exists>xs. map failure_view (nl_candidates nl') = map failure_view (nl_candidates nl) @ xs"
    by blast+
qed

lemma insert_remotes_frame:
  assumes "insert_remotes adv t rs (nl, n, rep) = Some (nl', m, rep')"
  shows "map local_view (nl_entries nl') = map local_view (nl_entries nl) \<and>
    (\<exists>xs. map failure_view (nl_candidates nl') = map failure_view (nl_candidates nl) @ xs)"
  using assms
proof (induction rs arbitrary: nl n rep)
  case (Cons r rs)
  then obtain nl1 n1 rep1 where step: "insert_remote adv t r (nl, n, rep) = Some (nl1, n1, rep1)"
    and rest: "insert_remotes adv t rs (nl1, n1, rep1) = Some (nl', m, rep')"
    by (auto simp: Option.bind_eq_Some_conv)
  with Cons.IH [OF rest] insert_remote_frame [OF step] show ?case by auto
qed simp

lemma add_advertised_frame:
  assumes "add_advertised_candidates h adv ads own t nl = Some (rep, nl')"
  shows "map local_view (nl_entries nl') = map local_view (nl_entries nl)"
    and "\<exists>xs. map failure_view (nl_candidates nl') = map failure_view (nl_candidates nl) @ xs"
  using assms insert_remotes_frame
  by (fastforce simp: add_advertised_candidates_def Let_def)+

text \<open>
  Whatever a peer's table says, processing it leaves the
  verified entries as they were, except for the record of who advertised them and when: no
  timestamp, verification state, presence or application claim of a verified node comes from
  a third party.
\<close>

theorem advertising_changes_no_observation:
  assumes "add_advertised_candidates h adv ads own t nl = Some (rep, nl')"
  shows "map (\<lambda>e. e\<lparr>last_advertised_at := 0, le_advertisers := [], le_creation_claims := []\<rparr>)
      (nl_entries nl') =
    map (\<lambda>e. e\<lparr>last_advertised_at := 0, le_advertisers := [], le_creation_claims := []\<rparr>)
      (nl_entries nl)"
  using add_advertised_frame(1) [OF assms] unfolding local_view_def [abs_def] .

subsection \<open>The cap of one source\<close>

lemma insert_remote_counts:
  assumes "nl_coherent nl" "length (nl_candidates nl) < usize_max"
    and "insert_remote adv t r (nl, n, rep) = Some (nl', m, rep')"
  shows "m + new_candidates rep' = n + new_candidates rep"
    and "new_candidates rep' + refreshed rep' + ignored_by_source_limit rep' =
      Suc (new_candidates rep + refreshed rep + ignored_by_source_limit rep)"
    and "length (nl_candidates nl') + new_candidates rep = length (nl_candidates nl) + new_candidates rep'"
proof -
  let ?a = "rt_address r"
  have "m + new_candidates rep' = n + new_candidates rep \<and>
      new_candidates rep' + refreshed rep' + ignored_by_source_limit rep' =
        Suc (new_candidates rep + refreshed rep + ignored_by_source_limit rep) \<and>
      length (nl_candidates nl') + new_candidates rep = length (nl_candidates nl) + new_candidates rep'"
  proof (cases "get_index nl ?a = None \<and> get_candidate_index nl ?a = None \<and> n \<noteq> 0")
    case True
    then have "ensure_candidate ?a t nl = (length (nl_candidates nl), snd (ensure_candidate ?a t nl))"
      "length (nl_candidates (snd (ensure_candidate ?a t nl))) = Suc (length (nl_candidates nl))"
      by (simp_all add: ensure_candidate_def Let_def)
    with True assms(2,3) show ?thesis
      by (auto simp: insert_remote_def Let_def at_candidate_def split: if_splits prod.splits)
  next
    case False
    with assms(3) show ?thesis
      by (auto simp: insert_remote_def Let_def at_candidate_def at_entry_def
          split: option.splits if_splits)
  qed
  then show "m + new_candidates rep' = n + new_candidates rep"
    "new_candidates rep' + refreshed rep' + ignored_by_source_limit rep' =
      Suc (new_candidates rep + refreshed rep + ignored_by_source_limit rep)"
    "length (nl_candidates nl') + new_candidates rep = length (nl_candidates nl) + new_candidates rep'"
    by blast+
qed

lemma insert_remotes_counts:
  assumes "nl_coherent nl" "length (nl_candidates nl) + length rs < usize_max"
    and "insert_remotes adv t rs (nl, n, rep) = Some (nl', m, rep')"
  shows "m + new_candidates rep' = n + new_candidates rep \<and>
    new_candidates rep' + refreshed rep' + ignored_by_source_limit rep' =
      length rs + new_candidates rep + refreshed rep + ignored_by_source_limit rep \<and>
    length (nl_candidates nl') + new_candidates rep = length (nl_candidates nl) + new_candidates rep'"
  using assms
proof (induction rs arbitrary: nl n rep)
  case (Cons r rs)
  then obtain nl1 n1 rep1 where step: "insert_remote adv t r (nl, n, rep) = Some (nl1, n1, rep1)"
    and rest: "insert_remotes adv t rs (nl1, n1, rep1) = Some (nl', m, rep')"
    by (auto simp: Option.bind_eq_Some_conv)
  have ok: "nl_coherent nl1" using insert_remote_ok [OF Cons.prems(1), of adv t r n rep] step by auto
  have "length (nl_candidates nl) < usize_max" using Cons.prems(2) by simp
  note one = insert_remote_counts [OF Cons.prems(1) this step]
  have "new_candidates rep1 \<le> Suc (new_candidates rep)"
    using step by (auto simp: insert_remote_def Let_def split: option.splits if_splits prod.splits)
  then have "length (nl_candidates nl1) + length rs < usize_max"
    using one(3) Cons.prems(2) by simp
  from Cons.IH [OF ok this rest] one show ?case by simp
qed simp

text \<open>
  One table adds at most as many candidates as the advertiser's limit
  leaves, the limit being between 32 and 256; every distinct address it names is counted exactly
  once, as new, refreshed or ignored; and the pool grows by exactly the new ones.
\<close>

theorem source_cap_accounting:
  assumes "nl_coherent nl" and "length (nl_candidates nl) + length ads < usize_max"
    and "add_advertised_candidates h adv ads own t nl = Some (rep, nl')"
  shows "new_candidates rep \<le> adaptive_candidate_limit_per_advertiser nl - candidates_from adv nl \<and>
    adaptive_candidate_limit_per_advertiser nl \<in> {32..256} \<and>
    new_candidates rep + refreshed rep + ignored_by_source_limit rep =
      card (rt_address ` set ads - {own, adv}) \<and>
    length (nl_candidates nl') = length (nl_candidates nl) + new_candidates rep"
proof -
  let ?n = "adaptive_candidate_limit_per_advertiser nl - candidates_from adv nl"
  let ?keep = "filter (\<lambda>r. rt_address r \<noteq> own \<and> rt_address r \<noteq> adv) ads"
  let ?m = "foldl (\<lambda>m r. or_insert (rt_address r) r m) [] ?keep"
  define rs where "rs = sort_key (\<lambda>r. h adv (rt_address r) (t div PUBLISH_RANDOM_ROTATION_SECS))
    (deduplicated adv own ads)"
  obtain m where run: "insert_remotes adv t rs (nl, ?n, report_default) = Some (nl', m, rep)"
    using assms(3) by (auto simp: add_advertised_candidates_def Let_def rs_def)
  have "keys_distinct (foldl (\<lambda>m r. or_insert (rt_address r) r m) m0 xs)" if "keys_distinct m0"
    for m0 and xs :: "record_table_entry list"
    using that by (induction xs arbitrary: m0) simp_all
  then have d: "keys_distinct ?m" by simp
  have "fst ` set (foldl (\<lambda>m r. or_insert (rt_address r) r m) m0 xs) =
      fst ` set m0 \<union> rt_address ` set xs" for m0 and xs :: "record_table_entry list"
    by (induction xs arbitrary: m0) auto
  then have "fst ` set ?m = rt_address ` set ?keep" by simp
  also have "\<dots> = rt_address ` set ads - {own, adv}" by auto
  finally have keys: "fst ` set ?m = rt_address ` set ads - {own, adv}" .
  have len: "length rs = card (rt_address ` set ads - {own, adv})"
  proof -
    have "length rs = length (map fst ?m)" by (simp add: rs_def deduplicated_def)
    moreover have "length (map fst ?m) = card (set (map fst ?m))"
      using d by (simp only: keys_distinct_def distinct_card)
    ultimately show ?thesis using keys by simp
  qed
  have "length rs \<le> length ads"
  proof -
    have "card (rt_address ` set ads - {own, adv}) \<le> card (rt_address ` set ads)"
      by (intro card_mono) auto
    also have "\<dots> \<le> length ads" using card_image_le card_length order_trans by blast
    finally show ?thesis by (simp add: len)
  qed
  with assms(2) have "length (nl_candidates nl) + length rs < usize_max" by simp
  from insert_remotes_counts [OF assms(1) this run] len
  show ?thesis
    by (auto simp: report_default_def adaptive_candidate_limit_per_advertiser_def Let_def)
qed

end
