(* ===== verification/Node_Backoff.thy ===== *)
theory Node_Backoff
  imports Node_Advertising
begin

text \<open>
  Failures and budgets of the topology state: the backoff of a candidate that keeps failing,
  what a quarantine withdraws and for how long, whom the walk targets, how far the budgets hold,
  and when a cohort of future creation times is reported.
\<close>

subsection \<open>Backoff\<close>

lemma mark_failed_simps [simp]:
  "failed_verifications (candidate_mark_failed t c) = min u16_max (failed_verifications c + 1)"
  "last_verification_failure_at (candidate_mark_failed t c) = t"
  by (simp_all add: candidate_mark_failed_def Let_def sat_add_def)

lemma mark_failed_delay:
  "next_verification_attempt_at (candidate_mark_failed t c) = min u64_max
     (t + min (30 * 2 ^ min (min u16_max (failed_verifications c + 1) - 1) 12) 21600)"
proof -
  have "(2::nat) ^ min n 12 \<le> 2 ^ 12" for n by (intro power_increasing) auto
  then have "30 * (2::nat) ^ min n 12 \<le> u64_max" for n
    using order_trans [of "30 * (2::nat) ^ min n 12" "30 * 2 ^ 12" u64_max]
    by (simp add: u64_max_def)
  then show ?thesis
    by (simp add: candidate_mark_failed_def Let_def sat_add_def sat_mul_def
        MAX_CANDIDATE_FAILURE_BACKOFF_SECS_def)
qed

text \<open>
  A candidate that fails at the times \<open>ts\<close>, one after the other, is
  due again \<open>30 * 2 ^ (n - 1)\<close> seconds after its \<open>n\<close>-th failure, and never later than six hours
  after it.
\<close>

theorem failure_backoff_doubles:
  assumes "failed_verifications c = 0" and "length ts < u16_max" and "t + 21600 \<le> u64_max"
  shows "next_verification_attempt_at (foldl (\<lambda>c t. candidate_mark_failed t c) c (ts @ [t])) =
      t + min (30 * 2 ^ length ts) 21600 \<and>
    (is_due_at t' (foldl (\<lambda>c t. candidate_mark_failed t c) c (ts @ [t])) \<longleftrightarrow>
      t + min (30 * 2 ^ length ts) 21600 \<le> t')"
proof -
  let ?run = "\<lambda>ts. foldl (\<lambda>c t. candidate_mark_failed t c) c ts"
  have n: "failed_verifications (?run ts) = length ts" if "length ts \<le> u16_max" for ts
    using that by (induction ts rule: rev_induct) (simp_all add: assms(1))
  have "min (30 * (2::nat) ^ min k 12) 21600 = min (30 * 2 ^ k) 21600" for k
  proof (cases "k \<le> 12")
    case False
    then have "(2::nat) ^ 12 \<le> 2 ^ k" by (intro power_increasing) auto
    with False show ?thesis by (simp add: min_def)
  qed simp
  then have k: "min (30 * (2::nat) ^ min (length ts) 12) 21600 = min (30 * 2 ^ length ts) 21600" .
  have "min u16_max (failed_verifications (?run ts) + 1) - 1 = length ts"
    using n [of ts] assms(2) by simp
  then have "next_verification_attempt_at (?run (ts @ [t])) =
      min u64_max (t + min (30 * 2 ^ length ts) 21600)"
    by (simp only: foldl_append foldl.simps mark_failed_delay k)
  also have "\<dots> = t + min (30 * 2 ^ length ts) 21600" using assms(3) by linarith
  finally have "next_verification_attempt_at (?run (ts @ [t])) = t + min (30 * 2 ^ length ts) 21600" .
  then show ?thesis by (simp add: is_due_at_def)
qed

subsection \<open>Walk targets\<close>

lemma distinct_submultiset: "distinct ys \<Longrightarrow> mset xs \<subseteq># mset ys \<Longrightarrow> distinct xs"
  unfolding distinct_count_atmost_1 subseteq_mset_def
  by (metis count_greater_zero_iff in_multiset_in_set le_antisym le_zero_eq less_one not_less
      set_mset_mset)

lemma targets_set:
  "set (candidate_targets own t nl) =
     ce_address ` {c \<in> set (nl_candidates nl). ce_address c \<noteq> own \<and> is_due_at t c} \<union>
     le_address ` {e \<in> set (nl_entries nl). le_address e \<noteq> own \<and> is_publishable e}"
  by (auto simp: candidate_targets_def)

text \<open>
  The walk's targets are the candidates that are due, ahead of the
  verified nodes, each address once and never the node's own; candidates with more advertisers
  come first.
\<close>

theorem walk_targets_are_exact:
  assumes "nl_coherent nl"
  shows "\<exists>cs vs. candidate_targets own t nl = map ce_address cs @ vs \<and>
    mset cs = mset (filter (\<lambda>c. ce_address c \<noteq> own \<and> is_due_at t c) (nl_candidates nl)) \<and>
    sorted_wrt (\<lambda>a b. length (ce_advertisers b) \<le> length (ce_advertisers a)) cs \<and>
    mset vs = mset (filter (\<lambda>a. a \<noteq> own) (map le_address (nl_entries nl))) \<and>
    distinct (candidate_targets own t nl)"
proof -
  let ?cs = "sort_key candidate_order
    (filter (\<lambda>c. ce_address c \<noteq> own \<and> is_due_at t c) (nl_candidates nl))"
  define vs where "vs = map le_address (sort_key (\<lambda>e.
      (\<not> is_advertised_online_at t e, descending (last_authenticated_at e),
       descending (last_direct_dht_read_at e)))
    (filter (\<lambda>e. le_address e \<noteq> own \<and> is_publishable e) (nl_entries nl)))"
  have split: "candidate_targets own t nl = map ce_address ?cs @ vs"
    by (simp add: candidate_targets_def vs_def)
  have "filter (\<lambda>e. le_address e \<noteq> own \<and> is_publishable e) (nl_entries nl) =
      filter (\<lambda>e. le_address e \<noteq> own) (nl_entries nl)"
    using assms by (auto simp: nl_coherent_def intro: filter_cong)
  then have vs: "mset vs = mset (filter (\<lambda>a. a \<noteq> own) (map le_address (nl_entries nl)))"
    by (simp add: vs_def filter_map comp_def)
  have "sorted_wrt (\<lambda>a b. candidate_order a \<le> candidate_order b) ?cs"
    using sorted_sort_key [of candidate_order] by (simp only: sorted_map)
  then have sorted: "sorted_wrt (\<lambda>a b. length (ce_advertisers b) \<le> length (ce_advertisers a)) ?cs"
    by (rule sorted_wrt_mono_rel [rotated]) (auto simp: candidate_order_def descending_def)
  have "mset (candidate_targets own t nl) \<subseteq>#
      mset (map le_address (nl_entries nl) @ map ce_address (nl_candidates nl))"
  proof -
    have "mset (filter (\<lambda>a. a \<noteq> own) (map le_address (nl_entries nl))) \<subseteq>#
        mset (map le_address (nl_entries nl))" by (simp add: multiset_filter_subset)
    moreover have "mset (map ce_address ?cs) \<subseteq># mset (map ce_address (nl_candidates nl))"
      by (simp add: image_mset_subseteq_mono multiset_filter_subset)
    ultimately show ?thesis
      using vs unfolding split by (simp add: add.commute subset_mset.add_mono)
  qed
  from coherent_distinct [OF assms] this have "distinct (candidate_targets own t nl)"
    by (rule distinct_submultiset)
  with split sorted vs show ?thesis by (intro exI [of _ ?cs] exI [of _ vs]) simp
qed

subsection \<open>Quarantine\<close>

text \<open>
  A node whose direct data is impossible is no longer verified, and no
  walk targets it for thirty seconds, whatever its peers advertise meanwhile.
\<close>

theorem quarantine_withdraws:
  assumes "nl_coherent nl" and "length (nl_candidates nl) < usize_max"
    and "quarantine_failed_direct_verification a t nl = Some nl1"
    and "add_advertised_candidates h adv ads own t1 nl1 = Some (rep, nl2)"
    and "t' < t + 30" and "t + 30 \<le> u64_max"
  shows "get_by_address nl2 a = None \<and> a \<notin> set (candidate_targets own t' nl2)"
proof -
  obtain e nl0 where rm: "remove_by_address a nl = Some (e, nl0)" "nl_coherent nl0"
    "get_index nl0 a = None" "nl_candidates nl0 = nl_candidates nl"
    using remove_by_address_ok [OF assms(1), of a] by blast
  obtain i nlc where en: "ensure_candidate a t nl0 = (i, nlc)" by fastforce
  note i = ensure_candidate_index [OF rm(2) en rm(3)]
  have "i \<noteq> usize_max"
    using en rm(3,4) i assms(2) get_candidate_index_Some [OF rm(2), of a]
    by (auto simp: ensure_candidate_def Let_def split: option.splits)
  then have at: "at_candidate i (candidate_mark_failed t \<circ> absorb_entry e) nlc = Some nl1"
    using assms(3) rm(1) en by (simp add: quarantine_failed_direct_verification_def)
  let ?c = "candidate_mark_failed t (absorb_entry e (nl_candidates nlc ! i))"
  have "?c \<in> set (nl_candidates nl1)"
    using at i by (auto simp: at_candidate_def set_update_memI)
  then have view: "failure_view ?c \<in> set (map failure_view (nl_candidates nl1))" by simp
  obtain xs where "map failure_view (nl_candidates nl2) = map failure_view (nl_candidates nl1) @ xs"
    using add_advertised_frame(2) [OF assms(4)] by blast
  with view have "failure_view ?c \<in> failure_view ` set (nl_candidates nl2)"
    by (metis Un_iff list.set_map set_append)
  then obtain c where c: "c \<in> set (nl_candidates nl2)" "ce_address c = a"
    "next_verification_attempt_at c = next_verification_attempt_at ?c"
    using i by (auto simp: failure_view_def)
  have "(1::nat) \<le> 2 ^ n" for n by simp
  then have "t + 30 \<le> next_verification_attempt_at ?c"
    using assms(6) by (simp add: mark_failed_delay)
  with c(3) assms(5) have late: "\<not> is_due_at t' c" by (simp add: is_due_at_def)
  have ok1: "nl_coherent nl1" using quarantine_ok [OF assms(1), of a t] assms(3) by simp
  then have ok2: "nl_coherent nl2"
    using add_advertised_candidates_ok [OF ok1, of h adv ads own t1] assms(4) by simp
  note d = coherent_distinct [OF ok2]
  have "c' = c" if "c' \<in> set (nl_candidates nl2)" "ce_address c' = a" for c'
    using d c that by (auto simp: distinct_map inj_on_def)
  moreover have none: "a \<notin> le_address ` set (nl_entries nl2)"
    using d c by (auto simp: disjoint_iff)
  ultimately have "a \<notin> set (candidate_targets own t' nl2)"
    using late by (auto simp: targets_set)
  moreover have "get_by_address nl2 a = None"
    using none get_index_None [OF ok2, of a] by (simp add: get_by_address_def)
  ultimately show ?thesis by blast
qed

end
