(* ===== verification/Node_Budget.thy ===== *)
theory Node_Budget
  imports Node_Backoff
begin

text \<open>
  The budgets of the topology state, the reports of future creation times, and the application
  names that a published entry makes discoverable.
\<close>

subsection \<open>Budgets\<close>

lemma retain_first_distinct:
  "distinct (map key xs) \<Longrightarrow> key ` set xs \<inter> seen = {} \<Longrightarrow> retain_first key seen xs = xs"
  by (induction xs arbitrary: seen) auto

lemma coherent_evidence:
  assumes "list_all is_publishable es"
  shows "filter has_direct_evidence es = es"
  using assms by (intro filter_True) (auto simp: list_all_iff is_publishable_def has_direct_evidence_def)

lemma rebuild_keeps_addresses:
  assumes "list_all is_publishable (nl_entries nl)" "distinct (map le_address (nl_entries nl))"
  shows "map le_address (nl_entries (rebuild_index parse t nl)) = map le_address (nl_entries nl)"
proof -
  have keys: "map le_address (map migrate_entry (nl_entries nl)) = map le_address (nl_entries nl)"
    by simp
  then have "distinct (map le_address (map migrate_entry (nl_entries nl)))"
    using assms(2) by (simp only: keys)
  from retain_first_distinct [OF this, of "{}"] keys show ?thesis
    by (simp only: rebuild_index_entries coherent_evidence [OF assms(1)] inf_bot_right)
qed

definition entry_rank :: "list_entry \<Rightarrow> nat \<times> nat \<times> nat \<times> nat" where
  "entry_rank e = (verification_rank (verification_state e), last_authenticated_at e,
     last_direct_dht_read_at e, last_seen e)"

lemma descending_ranks:
  "(descending a, descending b, descending c, descending d) \<le>
     (descending a', descending b', descending c', descending d') \<longleftrightarrow>
   (a', b', c', d') \<le> (a, b, c, d)"
  by (auto simp: descending_def less_eq_prod_def)

text \<open>
  Truncating the verified entries to a budget keeps exactly as
  many as the budget allows, all of them nodes that were there, and never drops a node that
  ranks above one it keeps, by verification state, authentication, direct read and last contact.
\<close>

theorem truncation_keeps_best_nodes:
  assumes "nl_coherent nl"
    and kept_def: "kept = verified_addresses (truncate_to_budget parse t n nl)"
  shows "card kept = min n (length (nl_entries nl)) \<and> kept \<subseteq> verified_addresses nl \<and>
    (\<forall>e e'. e \<in> set (nl_entries nl) \<longrightarrow> le_address e \<in> kept \<longrightarrow> e' \<in> set (nl_entries nl) \<longrightarrow>
      le_address e' \<notin> kept \<longrightarrow> entry_rank e' \<le> entry_rank e)"
proof (cases "length (nl_entries nl) \<le> n")
  case True
  have "card (le_address ` set (nl_entries nl)) = length (nl_entries nl)"
    using coherent_distinct [OF assms(1)] by (metis distinct_append distinct_card length_map set_map)
  with True show ?thesis
    by (auto simp: kept_def truncate_to_budget_def verified_addresses_def)
next
  case False
  let ?key = "\<lambda>e. (descending (verification_rank (verification_state e)),
     descending (last_authenticated_at e), descending (last_direct_dht_read_at e),
     descending (last_seen e))"
  define ss where "ss = sort_key ?key (nl_entries nl)"
  let ?nl = "nl\<lparr>nl_entries := take n ss\<rparr>"
  have set: "set ss = set (nl_entries nl)" by (simp add: ss_def)
  have "mset (map le_address ss) = mset (map le_address (nl_entries nl))" by (simp add: ss_def)
  moreover have "distinct (map le_address (nl_entries nl))"
    using coherent_distinct [OF assms(1)] by simp
  ultimately have d: "distinct (map le_address ss)" using mset_eq_imp_distinct_iff by blast
  have dt: "distinct (map le_address (take n ss))"
    using distinct_take [OF d, of n] by (simp add: take_map)
  have "list_all is_publishable (nl_entries nl)"
    using assms(1) by (simp add: nl_coherent_def list_all_iff)
  then have "list_all is_publishable (take n ss)"
    using set set_take_subset [of n ss] by (auto simp: list_all_iff)
  then have "map le_address (nl_entries (rebuild_index parse t ?nl)) = map le_address (take n ss)"
    using rebuild_keeps_addresses [of ?nl] dt by simp
  then have kept: "kept = le_address ` set (take n ss)"
    using False unfolding kept_def truncate_to_budget_def ss_def [symmetric] verified_addresses_def
    by (simp flip: set_map)
  have "card kept = length (take n ss)"
    unfolding kept using dt by (metis distinct_card length_map set_map)
  moreover have "length ss = length (nl_entries nl)" by (simp add: ss_def)
  ultimately have "card kept = min n (length (nl_entries nl))" using False by simp
  moreover have "kept \<subseteq> verified_addresses nl"
    unfolding kept verified_addresses_def using set set_take_subset [of n ss] by auto
  moreover have "entry_rank e' \<le> entry_rank e"
    if e: "e \<in> set ss" "le_address e \<in> kept" and e': "e' \<in> set ss" "le_address e' \<notin> kept" for e e'
  proof -
    have inj: "inj_on le_address (set ss)" using d by (simp add: distinct_map)
    have "e \<in> set (take n ss)"
      using e kept inj set_take_subset [of n ss] by (auto simp: inj_on_def)
    moreover have "e' \<in> set (drop n ss)"
      using e' kept by (metis Un_iff append_take_drop_id imageI set_append)
    moreover have "sorted (map ?key (take n ss @ drop n ss))"
      unfolding append_take_drop_id ss_def by (rule sorted_sort_key)
    then have "\<forall>x \<in> ?key ` set (take n ss). \<forall>y \<in> ?key ` set (drop n ss). x \<le> y"
      unfolding map_append sorted_append set_map by blast
    ultimately have "?key e \<le> ?key e'" by blast
    then show ?thesis by (simp only: entry_rank_def descending_ranks)
  qed
  ultimately show ?thesis unfolding set by blast
qed

lemma ensure_candidate_length:
  "length (nl_candidates (snd (ensure_candidate a t nl))) \<le> Suc (length (nl_candidates nl))"
  by (simp add: ensure_candidate_def Let_def split: option.split)

lemma bootstraps_length:
  "length (nl_candidates (foldl (\<lambda>nl b. case parse b of
       Some k \<Rightarrow> snd (ensure_candidate k t nl) | None \<Rightarrow> nl) nl bs)) \<le>
   length (nl_candidates nl) + length bs"
proof (induction bs arbitrary: nl)
  case (Cons b bs)
  show ?case
  proof (cases "parse b")
    case (Some k)
    with Cons [of "snd (ensure_candidate k t nl)"] ensure_candidate_length [of k t nl]
    show ?thesis by simp
  qed (use Cons [of nl] in simp)
qed simp

lemma retain_first_length: "length (retain_first key seen xs) \<le> length xs"
  by (induction xs arbitrary: seen) (auto intro: le_SucI)

text \<open>
  Truncating the candidates keeps the pool within its budget and the
  four bootstrap nodes, which rebuilding the index adds again when they were cut, and touches no
  verified node.
\<close>

theorem candidate_budget_holds:
  assumes "nl_coherent nl"
  shows "length (nl_candidates (truncate_candidates_to_budget parse t n nl)) \<le> n + 4 \<and>
    verified_addresses (truncate_candidates_to_budget parse t n nl) = verified_addresses nl"
proof (cases "length (nl_candidates nl) \<le> n")
  case False
  define cs where "cs = take n (sort_key candidate_order (nl_candidates nl))"
  let ?nl = "nl\<lparr>nl_candidates := cs\<rparr>"
  have pub: "list_all is_publishable (nl_entries nl)"
    using assms by (simp add: nl_coherent_def list_all_iff)
  have none: "filter (\<lambda>e. \<not> has_direct_evidence e) (nl_entries nl) = []"
    using pub by (auto simp: filter_empty_conv list_all_iff is_publishable_def has_direct_evidence_def)
  have "length (nl_candidates (rebuild_index parse t ?nl)) \<le> n + 4"
    unfolding rebuild_index_def Let_def
    by (rule order_trans [OF bootstraps_length])
      (use retain_first_length [of ce_address _ cs] in
        \<open>auto simp: none DEFAULT_BOOTSTRAP_DHTS_def cs_def intro: order_trans\<close>)
  moreover have "distinct (map le_address (nl_entries ?nl))"
    using coherent_distinct [OF assms] by simp
  then have "map le_address (nl_entries (rebuild_index parse t ?nl)) = map le_address (nl_entries nl)"
    using rebuild_keeps_addresses [of ?nl parse t] pub by simp
  then have "verified_addresses (rebuild_index parse t ?nl) = verified_addresses nl"
    by (rule same_verified)
  ultimately show ?thesis using False by (simp add: truncate_candidates_to_budget_def cs_def)
qed (simp add: truncate_candidates_to_budget_def)

subsection \<open>Cohorts of future creation times\<close>

lemma update_first_map_key:
  "(\<And>x. key (f x) = key x) \<Longrightarrow> map key (update_first p f xs) = map key xs"
  by (rule map_update_first)

text \<open>
  The events are kept one per node and at most 1024. A report names
  nodes only when at least the threshold of distinct nodes, each first detected within the
  window, is on record; it names each such node that was not reported before exactly once, and a
  node that was reported is not named again while its event lasts.
\<close>

theorem future_ban_needs_cohort:
  assumes "distinct (map fe_node (future_creation_events nl))"
    and "length (future_creation_events nl) \<le> MAX_FUTURE_CREATION_EVENTS"
    and "record_future_creation_event node claimed t window threshold nl = (flagged, nl')"
  shows "distinct (map fe_node (future_creation_events nl')) \<and>
    length (future_creation_events nl') \<le> MAX_FUTURE_CREATION_EVENTS \<and>
    list_all (\<lambda>ev. t - first_detected_at ev \<le> window) (future_creation_events nl') \<and>
    (flagged \<noteq> [] \<longrightarrow> threshold \<le> length (future_creation_events nl') \<and>
      list_all cluster_ban_requested (future_creation_events nl')) \<and>
    distinct flagged \<and> set flagged \<subseteq> fe_node ` set (future_creation_events nl') \<and>
    (\<forall>ev. ev \<in> set (future_creation_events nl) \<longrightarrow> cluster_ban_requested ev \<longrightarrow>
      t - first_detected_at ev \<le> window \<longrightarrow> fe_node ev \<notin> set flagged)"
proof -
  let ?old = "filter (\<lambda>ev. t - first_detected_at ev \<le> window) (future_creation_events nl)"
  let ?same = "\<lambda>ev. fe_node ev = node"
  let ?upd = "update_first ?same (\<lambda>ev. ev\<lparr>fe_claimed_created_at := claimed\<rparr>) ?old"
  let ?room = "make_room MAX_FUTURE_CREATION_EVENTS first_detected_at ?old"
  let ?new = "\<lparr>fe_node = node, fe_claimed_created_at = claimed, first_detected_at = t,
    cluster_ban_requested = False\<rparr>"
  define evs where "evs = (if \<exists>ev \<in> set ?old. ?same ev then ?upd else ?room @ [?new])"
  have dold: "distinct (map fe_node ?old)" using assms(1) by (simp add: distinct_map_filter)
  have lold: "length ?old \<le> MAX_FUTURE_CREATION_EVENTS"
    using assms(2) length_filter_le order_trans by blast
  have upd: "map fe_node ?upd = map fe_node ?old"
    "map (\<lambda>ev. (fe_node ev, first_detected_at ev, cluster_ban_requested ev)) ?upd =
     map (\<lambda>ev. (fe_node ev, first_detected_at ev, cluster_ban_requested ev)) ?old"
    by (rule map_update_first, simp)+
  have dist: "distinct (map fe_node evs)"
  proof (cases "\<exists>ev \<in> set ?old. ?same ev")
    case False
    then have "node \<notin> fe_node ` set ?room"
      using make_room_subset [of MAX_FUTURE_CREATION_EVENTS first_detected_at ?old] by auto
    with False make_room_distinct [OF dold, of MAX_FUTURE_CREATION_EVENTS first_detected_at]
    show ?thesis by (simp add: evs_def)
  next
    case True
    then have "evs = ?upd" by (simp add: evs_def)
    with upd(1) dold show ?thesis by simp
  qed
  have len: "length evs \<le> MAX_FUTURE_CREATION_EVENTS"
    using make_room_length [OF lold, of first_detected_at] lold
    by (auto simp: evs_def MAX_FUTURE_CREATION_EVENTS_def)
  have kept: "(\<exists>ev0 \<in> set ?old. fe_node ev0 = fe_node ev \<and>
        first_detected_at ev0 = first_detected_at ev \<and>
        cluster_ban_requested ev0 = cluster_ban_requested ev) \<or>
      ev = ?new \<and> node \<notin> fe_node ` set ?old" if "ev \<in> set evs" for ev
  proof (cases "\<exists>ev \<in> set ?old. ?same ev")
    case True
    then have "evs = ?upd" by (simp add: evs_def)
    with that upd(2) have "(fe_node ev, first_detected_at ev, cluster_ban_requested ev) \<in>
        set (map (\<lambda>ev. (fe_node ev, first_detected_at ev, cluster_ban_requested ev)) ?old)"
      by (metis (no_types, lifting) image_eqI list.set_map)
    then show ?thesis by (auto simp del: set_filter)
  next
    case False
    then have "evs = ?room @ [?new]" by (simp add: evs_def)
    with that False make_room_subset [of MAX_FUTURE_CREATION_EVENTS first_detected_at ?old]
    show ?thesis by auto
  qed
  have window: "list_all (\<lambda>ev. t - first_detected_at ev \<le> window) evs"
    unfolding list_all_iff using kept by fastforce
  have old: "fe_node ev \<notin> fe_node ` set (filter (\<lambda>ev. \<not> cluster_ban_requested ev) evs)"
    if "ev \<in> set ?old" "cluster_ban_requested ev" for ev
  proof
    assume "fe_node ev \<in> fe_node ` set (filter (\<lambda>ev. \<not> cluster_ban_requested ev) evs)"
    then obtain ev1 where ev1: "ev1 \<in> set evs" "fe_node ev1 = fe_node ev" "\<not> cluster_ban_requested ev1"
      by auto
    have inj: "inj_on fe_node (set ?old)" using dold by (simp only: distinct_map)
    from kept [OF ev1(1)] ev1(2,3) that inj show False
      by (elim disjE bexE) (metis (no_types, lifting) inj_onD, auto)
  qed
  have run: "record_future_creation_event node claimed t window threshold nl =
     (if length evs < threshold then ([], nl\<lparr>future_creation_events := evs\<rparr>)
      else (map fe_node (filter (\<lambda>ev. \<not> cluster_ban_requested ev) evs),
        nl\<lparr>future_creation_events := map (\<lambda>ev. ev\<lparr>cluster_ban_requested := True\<rparr>) evs\<rparr>))"
    unfolding record_future_creation_event_def Let_def evs_def ..
  show ?thesis
  proof (cases "length evs < threshold")
    case True
    with assms(3) run dist len window show ?thesis by auto
  next
    case False
    then have res: "flagged = map fe_node (filter (\<lambda>ev. \<not> cluster_ban_requested ev) evs)"
      "future_creation_events nl' = map (\<lambda>ev. ev\<lparr>cluster_ban_requested := True\<rparr>) evs"
      using assms(3) run by auto
    have "distinct flagged" using dist by (simp add: res(1) distinct_map_filter)
    moreover have "map fe_node (future_creation_events nl') = map fe_node evs"
      by (simp add: res(2) comp_def)
    then have "distinct (map fe_node (future_creation_events nl'))" using dist by simp
    moreover have "list_all (\<lambda>ev. t - first_detected_at ev \<le> window) (future_creation_events nl')"
      using window by (simp add: res(2) list_all_iff)
    moreover have "set flagged \<subseteq> fe_node ` set (future_creation_events nl')"
      by (auto simp: res image_iff)
    moreover have "list_all cluster_ban_requested (future_creation_events nl')"
      by (simp add: res(2) list_all_iff)
    moreover have "length (future_creation_events nl') = length evs" by (simp add: res(2))
    ultimately show ?thesis using len False old unfolding res(1) by auto
  qed
qed

subsection \<open>Discoverable applications\<close>

text \<open>
  An application that a node announced within the last 180
  days is found again through the signature of the node's published entry, and through the
  signature of any page that includes the entry, whatever else the page includes later.
\<close>

theorem published_app_is_discoverable:
  assumes "a \<in> set (application_ids e)"
    and "t - APP_DISCOVERY_ACTIVITY_TTL_SECS \<le> app_info_updated_at e"
  shows "bloom_might_contain (fp a) (rt_app_bloom (to_record_table_entry fp t e)) \<and>
    page_might_contain (fp a) (foldl union_with
      (include_entry_filter (rt_app_bloom (to_record_table_entry fp t e)) w) ws)"
proof -
  have "bloom_might_contain (fp a) (rt_app_bloom (to_record_table_entry fp t e))"
    using assms bloom_fold_contains [of "fp a" 0 fp "application_ids e"]
    by (simp add: to_record_table_entry_def Let_def)
  moreover have "page_might_contain f (foldl union_with w ws)" if "page_might_contain f w" for f w
    using that by (induction ws arbitrary: w) (simp_all add: page_keeps_entry)
  ultimately show ?thesis using page_includes_entry by blast
qed

end
