(* ===== verification/Node_Example.thy ===== *)
theory Node_Example
  imports Node_Budget
begin

text \<open>
  A small topology on which every hypothesis of the node properties holds: the node \<open>V:a:\<close>
  knows the verified nodes \<open>V:b:\<close> and \<open>V:c:\<close> and the candidate \<open>V:d:\<close>.
\<close>

definition demo_key :: "char \<Rightarrow> record_key" where
  "demo_key c = ''V:'' @ [c] @ '':''"

definition demo_decode :: "string \<Rightarrow> 8 word list option" where
  "demo_decode s = Some (replicate 31 0 @ [of_nat (of_char (hd s) - 97)])"

definition demo_no_bootstrap :: "string \<Rightarrow> record_key option" where
  "demo_no_bootstrap s = None"

definition demo_hash :: "record_key \<Rightarrow> record_key \<Rightarrow> nat \<Rightarrow> nat" where
  "demo_hash a b n = length b"

definition demo_entry :: "char \<Rightarrow> nat \<Rightarrow> list_entry" where
  "demo_entry c t = (mark_dht_verified t (Some 5) (list_entry_new (demo_key c) t))
     \<lparr>application_ids := [''chat''], app_info_updated_at := t\<rparr>"

definition demo_saved :: internal_node_list where
  "demo_saved = node_list_new\<lparr>
     nl_entries := [demo_entry (CHR ''c'') 90, demo_entry (CHR ''b'') 80],
     nl_candidates := [candidate_new (demo_key (CHR ''d'')) 70]\<rparr>"

definition demo_nodes :: internal_node_list where
  "demo_nodes = rebuild_index demo_no_bootstrap 100 demo_saved"

definition demo_row :: "char \<Rightarrow> record_table_entry" where
  "demo_row c = to_record_table_entry length 100 (demo_entry c 95)"

definition demo_calls :: "node_command list" where
  "demo_calls =
     [PromoteDhtVerified (demo_key (CHR ''e'')) (Some 7) 101 101,
      AddAdvertised (demo_key (CHR ''b'')) [demo_row (CHR ''d''), demo_row (CHR ''f'')]
        (demo_key (CHR ''a'')) 102,
      Quarantine (demo_key (CHR ''c'')) 103]"

abbreviation demo_table :: "record_table_entry list" where
  "demo_table \<equiv> record_table_entries_for_publish demo_decode demo_hash length (\<lambda>i. 100) 100
     (demo_key (CHR ''a'')) 3 demo_nodes"

lemma demo_addresses [simp]:
  "le_address (demo_entry c t) = demo_key c" "rt_address (demo_row c) = demo_key c"
  "demo_key c = demo_key d \<longleftrightarrow> c = d"
  by (simp_all add: demo_entry_def demo_row_def demo_key_def)

lemma demo_coherent: "nl_coherent demo_nodes"
  by (simp add: demo_nodes_def rebuild_index_coherent)

lemma demo_bounded: "nl_bounded demo_saved"
  by (simp add: demo_saved_def nl_bounded_def node_list_new_def demo_entry_def)
    (simp add: mark_dht_verified_def entry_bounds_def list_entry_new_def add_creation_claim_def
      add_claim_ok Let_def)

lemma demo_rows:
  "nl_candidates demo_nodes = [candidate_new (demo_key (CHR ''d'')) 70]"
  "map le_address (nl_entries demo_nodes) = [demo_key (CHR ''c''), demo_key (CHR ''b'')]"
  by code_simp+

theorem topology_evidence_bounded_witness:
  "\<exists>nl. foldl (node_step demo_no_bootstrap demo_hash)
       (Some (rebuild_index demo_no_bootstrap 100 demo_saved)) demo_calls = Some nl \<and>
    list_all (\<lambda>e. length (le_advertisers e) \<le> 32) (nl_entries nl)"
  using topology_evidence_bounded [OF demo_bounded, of demo_no_bootstrap demo_hash 100 demo_calls]
  by (auto simp: list_all_iff)

theorem advertising_never_publishes_witness:
  "\<exists>nl. foldl (node_step demo_no_bootstrap demo_hash)
       (Some (rebuild_index demo_no_bootstrap 100 demo_saved)) demo_calls = Some nl \<and>
    demo_key (CHR ''f'') \<notin> set (map rt_address (record_table_entries_for_publish demo_decode
      demo_hash length (\<lambda>i. 104) 104 (demo_key (CHR ''a'')) 50 nl))"
proof -
  obtain nl where nl: "foldl (node_step demo_no_bootstrap demo_hash)
      (Some (rebuild_index demo_no_bootstrap 100 demo_saved)) demo_calls = Some nl"
    using calls_from_rebuild by blast
  have "demo_key (CHR ''f'') \<notin> verified_addresses demo_saved"
    by code_simp
  moreover have "list_all (\<lambda>c. \<not> verifies (demo_key (CHR ''f'')) c) demo_calls"
    by (simp add: demo_calls_def demo_key_def)
  ultimately show ?thesis using nl advertising_never_publishes [OF _ _ nl] by blast
qed

theorem published_table_is_full_and_clean_witness:
  "length demo_table = 2 \<and> distinct (map rt_address demo_table) \<and>
   demo_key (CHR ''a'') \<notin> set (map rt_address demo_table)"
proof -
  have "length (filter (\<lambda>e. le_address e \<noteq> demo_key (CHR ''a'')) (nl_entries demo_nodes)) = 2"
    by code_simp
  then show ?thesis
    using published_table_is_full_and_clean [OF demo_coherent refl, of demo_decode demo_hash length
        "\<lambda>i. 100" 100 "demo_key (CHR ''a'')" 3] by simp
qed

theorem published_table_prefers_nearest_witness:
  "\<exists>ki. from_record_key demo_decode (map rt_address demo_table ! 0) = Some ki \<and>
    xor_dist (replicate 32 0) ki \<le> xor_dist (replicate 32 0) (replicate 31 0 @ [2])"
proof -
  have own: "from_record_key demo_decode (demo_key (CHR ''a'')) = Some (replicate 32 0)"
    by code_simp
  have e: "hd (nl_entries demo_nodes) \<in> set (publishable (demo_key (CHR ''a'')) demo_nodes)"
    "le_address (hd (nl_entries demo_nodes)) = demo_key (CHR ''c'')"
    by (simp_all add: publishable_def) code_simp+
  have c: "from_record_key demo_decode (demo_key (CHR ''c'')) = Some (replicate 31 0 @ [2])"
    by code_simp
  have q: "percent 3 40 = 1" by (simp add: percent_def sat_mul_def u64_max_def)
  let ?es = "publishable (demo_key (CHR ''a'')) demo_nodes"
  have es: "length ?es = 2" "distinct (map le_address ?es)" by code_simp+
  have ds: "map le_address (take 1 (by_distance demo_decode (replicate 32 0) ?es)) =
      [demo_key (CHR ''b'')]" by code_simp
  note sel = table_selection_ok [OF es(2) refl, of demo_decode demo_hash "demo_key (CHR ''a'')"
      "replicate 32 0" 100 3, unfolded q es(1)]
  have "map rt_address demo_table = map le_address (fst (table_selection demo_decode demo_hash
      (demo_key (CHR ''a'')) (replicate 32 0) 100 3 ?es))"
    using own sel(2) by (simp add: record_table_entries_for_publish_def)
  then have "hd (map rt_address demo_table) = demo_key (CHR ''b'')" "demo_table \<noteq> []"
    using sel(2,3) ds by auto
  then have out: "demo_key (CHR ''c'') \<notin> set (take (percent 3 40) (map rt_address demo_table))"
    by (cases demo_table) (auto simp: q)
  have "from_record_key demo_decode (le_address (hd (nl_entries demo_nodes))) =
      Some (replicate 31 0 @ [2])" using c e(2) by simp
  moreover have "le_address (hd (nl_entries demo_nodes)) \<notin>
      set (take (percent 3 40) (map rt_address demo_table))" using out e(2) by simp
  ultimately show ?thesis
    by (rule published_table_prefers_nearest [OF demo_coherent own refl e(1)]) (simp add: q)
qed

theorem advertising_changes_no_observation_witness:
  "\<exists>rep nl. add_advertised_candidates demo_hash (demo_key (CHR ''b''))
      [demo_row (CHR ''c''), demo_row (CHR ''d'')] (demo_key (CHR ''a'')) 100 demo_nodes = Some (rep, nl) \<and>
    map (\<lambda>e. e\<lparr>last_advertised_at := 0, le_advertisers := [], le_creation_claims := []\<rparr>)
      (nl_entries nl) =
    map (\<lambda>e. e\<lparr>last_advertised_at := 0, le_advertisers := [], le_creation_claims := []\<rparr>)
      (nl_entries demo_nodes)"
proof -
  let ?r = "add_advertised_candidates demo_hash (demo_key (CHR ''b''))
    [demo_row (CHR ''c''), demo_row (CHR ''d'')] (demo_key (CHR ''a'')) 100 demo_nodes"
  obtain rep nl where r: "?r = Some (rep, nl)"
    using add_advertised_candidates_ok [OF demo_coherent] by blast
  with advertising_changes_no_observation [OF r] show ?thesis by auto
qed

theorem source_cap_accounting_witness:
  "\<exists>rep nl. add_advertised_candidates demo_hash (demo_key (CHR ''b''))
      [demo_row (CHR ''c''), demo_row (CHR ''d''), demo_row (CHR ''f'')] (demo_key (CHR ''a''))
      100 demo_nodes = Some (rep, nl) \<and>
    new_candidates rep + refreshed rep + ignored_by_source_limit rep = 3"
proof -
  let ?ads = "[demo_row (CHR ''c''), demo_row (CHR ''d''), demo_row (CHR ''f'')]"
  obtain rep nl where r: "add_advertised_candidates demo_hash (demo_key (CHR ''b''))
      ?ads (demo_key (CHR ''a'')) 100 demo_nodes = Some (rep, nl)"
    using add_advertised_candidates_ok [OF demo_coherent] by blast
  have "length (nl_candidates demo_nodes) + length ?ads < usize_max"
    by (simp add: demo_rows usize_max_def u64_max_def)
  moreover have "rt_address ` set ?ads - {demo_key (CHR ''a''), demo_key (CHR ''b'')} =
      {demo_key (CHR ''c''), demo_key (CHR ''d''), demo_key (CHR ''f'')}" by auto
  then have "card (rt_address ` set ?ads - {demo_key (CHR ''a''), demo_key (CHR ''b'')}) = 3"
    by simp
  ultimately show ?thesis using source_cap_accounting [OF demo_coherent _ r] r by auto
qed

theorem quarantine_withdraws_witness:
  "\<exists>nl1 nl2 rep. quarantine_failed_direct_verification (demo_key (CHR ''c'')) 100 demo_nodes = Some nl1 \<and>
    add_advertised_candidates demo_hash (demo_key (CHR ''b'')) [demo_row (CHR ''c'')]
      (demo_key (CHR ''a'')) 101 nl1 = Some (rep, nl2) \<and>
    demo_key (CHR ''c'') \<notin> set (candidate_targets (demo_key (CHR ''a'')) 129 nl2)"
proof -
  obtain nl1 where q: "quarantine_failed_direct_verification (demo_key (CHR ''c'')) 100 demo_nodes =
      Some nl1" "nl_coherent nl1"
    using quarantine_ok [OF demo_coherent] by blast
  obtain rep nl2 where r: "add_advertised_candidates demo_hash (demo_key (CHR ''b''))
      [demo_row (CHR ''c'')] (demo_key (CHR ''a'')) 101 nl1 = Some (rep, nl2)"
    using add_advertised_candidates_ok [OF q(2)] by blast
  have "length (nl_candidates demo_nodes) < usize_max"
    by (simp add: demo_rows usize_max_def u64_max_def)
  from quarantine_withdraws [OF demo_coherent this q(1) r, of 129] q(1) r show ?thesis
    by (auto simp: u64_max_def)
qed

theorem failure_backoff_doubles_witness:
  "next_verification_attempt_at (foldl (\<lambda>c t. candidate_mark_failed t c)
     (candidate_new (demo_key (CHR ''d'')) 70) ([100, 200] @ [300])) = 420"
proof -
  have h: "failed_verifications (candidate_new (demo_key (CHR ''d'')) 70) = 0"
    by (simp add: candidate_new_def)
  have l: "length [100, 200 :: nat] < u16_max" "300 + 21600 \<le> u64_max"
    by (simp_all add: u16_max_def u64_max_def)
  from failure_backoff_doubles [OF h l, of 0] show ?thesis by simp
qed

theorem future_ban_needs_cohort_witness:
  "\<exists>flagged nl. record_future_creation_event (demo_key (CHR ''c'')) 9999 100 3600 1 demo_nodes =
     (flagged, nl) \<and> flagged = [demo_key (CHR ''c'')] \<and>
     list_all cluster_ban_requested (future_creation_events nl)"
proof -
  let ?r = "record_future_creation_event (demo_key (CHR ''c'')) 9999 100 3600 1 demo_nodes"
  have none: "future_creation_events demo_nodes = []" by code_simp
  have f: "fst ?r = [demo_key (CHR ''c'')]" by code_simp
  have "distinct (map fe_node (future_creation_events demo_nodes))"
    "length (future_creation_events demo_nodes) \<le> MAX_FUTURE_CREATION_EVENTS"
    by (simp_all add: none)
  moreover obtain flagged nl where r: "?r = (flagged, nl)" by fastforce
  ultimately have "flagged = [demo_key (CHR ''c'')]"
    "flagged \<noteq> [] \<longrightarrow> list_all cluster_ban_requested (future_creation_events nl)"
    using future_ban_needs_cohort [OF _ _ r] f by auto
  with r show ?thesis by auto
qed

theorem walk_targets_are_exact_witness:
  "distinct (candidate_targets (demo_key (CHR ''a'')) 100 demo_nodes) \<and>
   length (candidate_targets (demo_key (CHR ''a'')) 100 demo_nodes) = 3"
proof -
  have "distinct (candidate_targets (demo_key (CHR ''a'')) 100 demo_nodes)"
    using walk_targets_are_exact [OF demo_coherent] by blast
  moreover have "length (candidate_targets (demo_key (CHR ''a'')) 100 demo_nodes) = 3"
    by code_simp
  ultimately show ?thesis by blast
qed

theorem truncation_keeps_best_nodes_witness:
  "card (verified_addresses (truncate_to_budget demo_no_bootstrap 100 1 demo_nodes)) = 1"
proof -
  have "length (nl_entries demo_nodes) = 2" by code_simp
  then show ?thesis
    using truncation_keeps_best_nodes [OF demo_coherent refl, of demo_no_bootstrap 100 1] by simp
qed

theorem candidate_budget_holds_witness:
  "length (nl_candidates (truncate_candidates_to_budget Some 100 0 demo_nodes)) \<le> 4"
  using candidate_budget_holds [OF demo_coherent, of Some 100 0] by simp

theorem published_app_is_discoverable_witness:
  "bloom_might_contain (length ''chat'')
     (rt_app_bloom (to_record_table_entry length 100 (demo_entry (CHR ''b'') 80)))"
proof -
  have "''chat'' \<in> set (application_ids (demo_entry (CHR ''b'') 80))"
    "100 - APP_DISCOVERY_ACTIVITY_TTL_SECS \<le> app_info_updated_at (demo_entry (CHR ''b'') 80)"
    by (simp_all add: demo_entry_def APP_DISCOVERY_ACTIVITY_TTL_SECS_def)
  from published_app_is_discoverable [OF this] show ?thesis by blast
qed

end
