(* ===== verification/Mailbox_Pages.thy ===== *)
theory Mailbox_Pages
  imports Node_Wire
begin

text \<open>
  The pages of a mailbox store (\<open>src/mailbox/page_store.rs\<close>, \<open>protocol.rs\<close>, \<open>persistence.rs\<close>):
  the copy-on-write index, its page descriptors and pages, their digests and their validation.
  An entry type comes with a \<open>codec\<close>: the key of an entry, the byte encoding of pages and
  indexes (\<open>bincode\<close>) and the hash of bytes (\<open>blake3\<close>), which are third-party code. The store's
  laws assume of it only that decoding inverts encoding within the wire limit.
\<close>

definition MAILBOX_PROTOCOL_VERSION :: nat where "MAILBOX_PROTOCOL_VERSION = 1"
definition INDEX_SLOT_A :: nat where "INDEX_SLOT_A = 0"
definition INDEX_SLOT_B :: nat where "INDEX_SLOT_B = 1"
definition FIRST_DATA_SUBKEY :: nat where "FIRST_DATA_SUBKEY = 2"
definition PAGED_DHT_TOTAL_SUBKEYS :: nat where "PAGED_DHT_TOTAL_SUBKEYS = 64"
definition MAX_NETWORK_DHT_VALUE_BYTES :: nat where "MAX_NETWORK_DHT_VALUE_BYTES = 64 * 1024"

datatype mailbox_error =
    ChannelClosed
  | Dht string
  | Auth string
  | Serialize string
  | Crypto string
  | InvalidAdvertisement string
  | InvalidMessage string
  | MessageTooLarge nat nat
  | PlaintextTooLarge nat nat
  | RecipientNotAccepting
  | ReceiveKeyUnavailable nat
  | MessageNotFound
  | ResponseNotExpected
  | QuotaExceeded string
  | NoFreePageSubkey
  | StoreCorrupt string
  | UnsupportedStoreVersion nat
  | Mailbox_Shutdown

text \<open>
  The policy of the mailbox, without the floating-point retention weights (\<open>RetentionWeights\<close>).
\<close>

record mailbox_config =
  participate_as_custodian :: bool
  page_target_size :: nat
  page_split_threshold :: nat
  complete_message_max_size :: nat
  max_plaintext_size :: nat
  max_service_request_size :: nat
  max_service_payload_size :: nat
  max_service_reply_route_size :: nat
  default_service_request_ttl_secs :: nat
  max_service_request_ttl_secs :: nat
  active_service_requests_per_sender :: nat
  active_service_requests_per_host :: nat
  recent_service_request_cache :: nat
  service_request_pointer_checks_per_walk :: nat
  normal_batch_interval_secs :: nat
  maintenance_interval_secs :: nat
  early_flush_queue_size :: nat
  dht_io_concurrency :: nat
  max_navigation_suggestions :: nat
  advertised_previous_key_epochs :: nat
  max_timestamp_skew_secs :: nat
  max_message_age_secs :: nat
  max_requested_expiry_secs :: nat
  minimum_bump_interval_secs :: nat
  active_messages_per_sender :: nat
  active_messages_per_sender_recipient :: nat
  active_messages_per_recipient :: nat
  active_messages_per_overflow_record :: nat
  candidate_messages_per_walk :: nat
  mailsend_pages_per_walk :: nat
  mailbox_pages_per_walk :: nat
  pending_validation_limit :: nat
  recipient_inline_pointer_limit :: nat
  recipient_inline_byte_limit :: nat
  overflow_demote_pointer_limit :: nat
  overflow_demote_byte_limit :: nat
  overflow_demote_hysteresis_secs :: nat
  max_overflow_dhts :: nat
  response_check_base_secs :: nat
  response_check_max_secs :: nat
  response_retention_secs :: nat
  close_grace_secs :: nat
  receive_region_prefix_bits :: nat

definition config_default :: mailbox_config where
  "config_default =
     \<lparr>participate_as_custodian = True, page_target_size = 12 * 1024,
      page_split_threshold = 14 * 1024, complete_message_max_size = 10 * 1024,
      max_plaintext_size = 8 * 1024, max_service_request_size = 8 * 1024,
      max_service_payload_size = 1024, max_service_reply_route_size = 4 * 1024,
      default_service_request_ttl_secs = 15 * 60, max_service_request_ttl_secs = 60 * 60,
      active_service_requests_per_sender = 32, active_service_requests_per_host = 8,
      recent_service_request_cache = 1024, service_request_pointer_checks_per_walk = 24,
      normal_batch_interval_secs = 120, maintenance_interval_secs = 30 * 60,
      early_flush_queue_size = 128, dht_io_concurrency = 128, max_navigation_suggestions = 12,
      advertised_previous_key_epochs = 64, max_timestamp_skew_secs = 15 * 60,
      max_message_age_secs = 365 * 24 * 60 * 60, max_requested_expiry_secs = 180 * 24 * 60 * 60,
      minimum_bump_interval_secs = 24 * 60 * 60, active_messages_per_sender = 256,
      active_messages_per_sender_recipient = 32, active_messages_per_recipient = 4096,
      active_messages_per_overflow_record = 1000, candidate_messages_per_walk = 128,
      mailsend_pages_per_walk = 16, mailbox_pages_per_walk = 24, pending_validation_limit = 2048,
      recipient_inline_pointer_limit = 48, recipient_inline_byte_limit = 9 * 1024,
      overflow_demote_pointer_limit = 24, overflow_demote_byte_limit = 6 * 1024,
      overflow_demote_hysteresis_secs = 14 * 24 * 60 * 60, max_overflow_dhts = 256,
      response_check_base_secs = 15 * 60, response_check_max_secs = 7 * 24 * 60 * 60,
      response_retention_secs = 180 * 24 * 60 * 60, close_grace_secs = 7 * 24 * 60 * 60,
      receive_region_prefix_bits = 12\<rparr>"

record cow_page_descriptor =
  pd_subkey :: nat
  first_key :: bytes
  last_key :: bytes
  pd_generation :: nat
  entry_count :: nat
  serialized_size :: nat
  pd_digest :: bytes

record cow_index =
  ix_version :: nat
  ix_generation :: nat
  previous_generation :: "nat option"
  ix_created_at :: nat
  ix_pages :: "cow_page_descriptor list"
  ix_digest :: bytes

record 'e cow_data_page =
  pg_version :: nat
  pg_generation :: nat
  pg_entries :: "'e list"
  pg_digest :: bytes

record 'e codec =
  page_key :: "'e \<Rightarrow> bytes"
  encode_page :: "'e cow_data_page \<Rightarrow> bytes"
  decode_page :: "bytes \<Rightarrow> 'e cow_data_page option"
  encode_index :: "cow_index \<Rightarrow> bytes"
  decode_index :: "bytes \<Rightarrow> cow_index option"
  hash_bytes :: "bytes \<Rightarrow> bytes"

definition deserialize :: "(bytes \<Rightarrow> 'a option) \<Rightarrow> bytes \<Rightarrow> mailbox_error + 'a" where
  "deserialize dec bs =
    (if bs = [] then Inl (Serialize ''network envelope is empty'')
     else if MAX_NETWORK_DHT_VALUE_BYTES < length bs
     then Inl (Serialize ''network envelope is too large'')
     else case dec bs of None \<Rightarrow> Inl (Serialize ''decode'') | Some x \<Rightarrow> Inr x)"

definition estimated_dht_value_limit :: "nat \<Rightarrow> nat" where
  "estimated_dht_value_limit n = max 256 (1048576 div max 1 n - 512)"

definition zero_digest :: bytes where "zero_digest = replicate 32 0"

definition page_digest :: "'e codec \<Rightarrow> 'e cow_data_page \<Rightarrow> bytes" where
  "page_digest c p = hash_bytes c (encode_page c (p\<lparr>pg_digest := zero_digest\<rparr>))"

definition index_digest :: "'e codec \<Rightarrow> cow_index \<Rightarrow> bytes" where
  "index_digest c ix = hash_bytes c (encode_index c (ix\<lparr>ix_digest := zero_digest\<rparr>))"

definition full_record_key_bytes ::
  "(string \<Rightarrow> bytes option) \<Rightarrow> (string \<Rightarrow> bytes) \<Rightarrow> record_key \<Rightarrow> bytes" where
  "full_record_key_bytes decode into_bytes text =
    (case splitn 3 (CHR '':'') text of
       _ # encoded # _ \<Rightarrow> (case decode encoded of Some bs \<Rightarrow> bs | None \<Rightarrow> into_bytes text)
     | _ \<Rightarrow> into_bytes text)"

subsection \<open>Validation\<close>

fun ranges_ordered :: "bytes option \<Rightarrow> cow_page_descriptor list \<Rightarrow> mailbox_error option" where
  "ranges_ordered prev [] = None"
| "ranges_ordered prev (d # ds) =
    (if pd_subkey d < FIRST_DATA_SUBKEY \<or> last_key d < first_key d
     then Some (StoreCorrupt ''invalid page range'')
     else if (case prev of None \<Rightarrow> False | Some l \<Rightarrow> first_key d \<le> l)
     then Some (StoreCorrupt ''overlapping or unsorted page ranges'')
     else ranges_ordered (Some (last_key d)) ds)"

definition validate_index_shape :: "cow_index \<Rightarrow> mailbox_error option" where
  "validate_index_shape ix =
    (if ix_version ix \<noteq> MAILBOX_PROTOCOL_VERSION
     then Some (StoreCorrupt ''unsupported index version'')
     else ranges_ordered None (ix_pages ix))"

fun strictly_sorted_from :: "bytes option \<Rightarrow> bytes list \<Rightarrow> bool" where
  "strictly_sorted_from prev [] = True"
| "strictly_sorted_from prev (k # ks) =
    ((case prev of None \<Rightarrow> True | Some p \<Rightarrow> p < k) \<and> strictly_sorted_from (Some k) ks)"

definition first_or_default :: "bytes list \<Rightarrow> bytes" where
  "first_or_default ks = (case ks of [] \<Rightarrow> [] | k # _ \<Rightarrow> k)"

definition last_or_default :: "bytes list \<Rightarrow> bytes" where
  "last_or_default ks = (if ks = [] then [] else last ks)"

definition validate_page ::
  "'e codec \<Rightarrow> 'e cow_data_page \<Rightarrow> cow_page_descriptor \<Rightarrow> mailbox_error option" where
  "validate_page c p d =
    (let ks = map (page_key c) (pg_entries p) in
     if pg_version p \<noteq> MAILBOX_PROTOCOL_VERSION \<or> pg_generation p \<noteq> pd_generation d \<or>
        length (pg_entries p) mod 2 ^ 32 \<noteq> entry_count d \<or> pg_digest p \<noteq> pd_digest d \<or>
        page_digest c p \<noteq> pd_digest d
     then Some (StoreCorrupt ''page metadata or digest mismatch'')
     else if \<not> strictly_sorted_from None ks
     then Some (StoreCorrupt ''page is not strictly sorted'')
     else if first_or_default ks \<noteq> first_key d \<or> last_or_default ks \<noteq> last_key d
     then Some (StoreCorrupt ''page key range mismatch'')
     else None)"

definition serialized_page_size :: "'e codec \<Rightarrow> 'e list \<Rightarrow> nat" where
  "serialized_page_size c es =
    (let p = \<lparr>pg_version = MAILBOX_PROTOCOL_VERSION, pg_generation = 0, pg_entries = es,
              pg_digest = zero_digest\<rparr>
     in length (encode_page c (p\<lparr>pg_digest := page_digest c p\<rparr>)))"

subsection \<open>Lemmas on keys and ranges\<close>

text \<open>What the store relies on of its codec.\<close>

definition codec_ok :: "'e codec \<Rightarrow> bool" where
  "codec_ok c \<longleftrightarrow>
     (\<forall>p. decode_page c (encode_page c p) = Some p \<and> encode_page c p \<noteq> []) \<and>
     (\<forall>ix. decode_index c (encode_index c ix) = Some ix \<and> encode_index c ix \<noteq> [])"

lemma strictly_sorted_from_iff:
  "strictly_sorted_from prev ks \<longleftrightarrow>
     sorted_wrt (<) ks \<and> (case prev of None \<Rightarrow> True | Some p \<Rightarrow> \<forall>k \<in> set ks. p < k)"
proof (induction prev ks rule: strictly_sorted_from.induct)
  case (2 prev k ks)
  then show ?case by (auto split: option.splits intro: less_trans)
qed (simp split: option.split)

lemma bytes_nil_least [simp]: "[] \<le> (k :: bytes)"
  by (cases k) simp_all

lemma not_less_nil [simp]: "\<not> k < ([] :: bytes)"
  by (cases k) simp_all

lemma sorted_last:
  assumes "sorted_wrt (<) (ks :: bytes list)" "k \<in> set ks"
  shows "k \<le> last_or_default ks"
proof -
  have "ks = butlast ks @ [last ks]" using assms(2) by (cases ks rule: rev_cases) simp_all
  with assms have "k \<in> set (butlast ks) \<longrightarrow> k < last ks" "k \<in> set (butlast ks) \<or> k = last ks"
    by (metis sorted_wrt_append list.set_intros(1), metis Un_iff empty_iff insert_iff list.set(1,2)
        set_append)
  with assms(2) show ?thesis by (auto simp: last_or_default_def)
qed

lemma sorted_first:
  "sorted_wrt (<) (ks :: bytes list) \<Longrightarrow> k \<in> set ks \<Longrightarrow> first_or_default ks \<le> k"
  by (cases ks) (auto simp: first_or_default_def)

lemma first_le_last:
  assumes "sorted_wrt (<) (ks :: bytes list)"
  shows "first_or_default ks \<le> last_or_default ks"
proof (cases ks)
  case (Cons k _)
  with sorted_last [OF assms, of k] show ?thesis by (simp add: first_or_default_def)
qed (simp add: first_or_default_def last_or_default_def)

lemma validate_page_None:
  assumes "validate_page c p d = None"
  defines "ks \<equiv> map (page_key c) (pg_entries p)"
  shows "sorted_wrt (<) ks" "first_key d = first_or_default ks" "last_key d = last_or_default ks"
  using assms by (auto simp: validate_page_def Let_def strictly_sorted_from_iff split: if_splits)

end
