(* ===== verification/Mailbox_Store.thy ===== *)
theory Mailbox_Store
  imports Mailbox_Pages
begin

text \<open>
  The copy-on-write paged store \<open>CowPagedStore\<close> (\<open>src/mailbox/page_store.rs\<close>): loading the newest
  fully valid generation, lookups and changes in memory, splitting of pages, and the commit that
  writes new pages to unreferenced subkeys before it swings the index slot. A DHT record is a map
  from subkeys to bytes; \<open>dht_io\<close> says which reads and writes fail during one call. Pages are
  written in any order, so the interesting states in between are all subsets of the writes.
\<close>

type_synonym dht_record = "nat \<Rightarrow> bytes option"

record dht_io =
  dio_read :: "nat \<Rightarrow> string option"
  dio_write :: "nat \<Rightarrow> string option"
  dio_log :: "string option"
  dio_log_again :: "string option"
  dio_now :: nat

definition read_from_dht :: "dht_io \<Rightarrow> dht_record \<Rightarrow> nat \<Rightarrow> mailbox_error + bytes" where
  "read_from_dht io d k =
    (case dio_read io k of
       Some e \<Rightarrow> Inl (Dht e)
     | None \<Rightarrow> (case d k of None \<Rightarrow> Inl (Dht ''NotFound'') | Some bs \<Rightarrow> Inr bs))"

record 'e local_page =
  lp_descriptor :: "cow_page_descriptor option"
  lp_entries :: "'e list"
  lp_dirty :: bool

record 'e cow_paged_store =
  cs_name :: string
  package_index :: nat
  total_subkeys :: nat
  active_index_slot :: nat
  current_index :: "cow_index option"
  previous_index :: "cow_index option"
  cs_pages :: "'e local_page list"

record pending_cow_transaction =
  tx_store_name :: string
  tx_package_index :: nat
  tx_generation :: nat
  target_index_slot :: nat
  new_page_subkeys :: "nat list"
  tx_started_at :: nat

subsection \<open>Loading\<close>

definition load_page ::
  "'e codec \<Rightarrow> dht_io \<Rightarrow> dht_record \<Rightarrow> cow_page_descriptor \<Rightarrow> mailbox_error + 'e local_page" where
  "load_page c io d ds =
    (case read_from_dht io d (pd_subkey ds) of
       Inl e \<Rightarrow> Inl e
     | Inr bs \<Rightarrow>
        if length bs \<noteq> serialized_size ds
        then Inl (StoreCorrupt ''page serialized-size mismatch'')
        else
         (case deserialize (decode_page c) bs of
            Inl e \<Rightarrow> Inl e
          | Inr p \<Rightarrow>
             (case validate_page c p ds of
                Some e \<Rightarrow> Inl e
              | None \<Rightarrow> Inr \<lparr>lp_descriptor = Some ds, lp_entries = pg_entries p,
                             lp_dirty = False\<rparr>)))"

fun load_all ::
  "'e codec \<Rightarrow> dht_io \<Rightarrow> dht_record \<Rightarrow> cow_page_descriptor list \<Rightarrow> mailbox_error + 'e local_page list"
  where
  "load_all c io d [] = Inr []"
| "load_all c io d (ds # dss) =
     (case load_page c io d ds of
        Inl e \<Rightarrow> Inl e
      | Inr p \<Rightarrow> (case load_all c io d dss of Inl e \<Rightarrow> Inl e | Inr ps \<Rightarrow> Inr (p # ps)))"

definition empty_page :: "'e local_page" where
  "empty_page = \<lparr>lp_descriptor = None, lp_entries = [], lp_dirty = False\<rparr>"

definition load_and_validate_owned_pages ::
  "'e codec \<Rightarrow> dht_io \<Rightarrow> dht_record \<Rightarrow> cow_index \<Rightarrow> mailbox_error + 'e local_page list" where
  "load_and_validate_owned_pages c io d ix =
    (case validate_index_shape ix of
       Some e \<Rightarrow> Inl e
     | None \<Rightarrow>
        (case load_all c io d (ix_pages ix) of
           Inl e \<Rightarrow> Inl e
         | Inr ps \<Rightarrow>
            (let ps = sort_key (\<lambda>p. case lp_descriptor p of None \<Rightarrow> [] | Some ds \<Rightarrow> first_key ds) ps
             in Inr (if ps = [] then [empty_page] else ps))))"

definition index_candidate ::
  "'e codec \<Rightarrow> dht_io \<Rightarrow> dht_record \<Rightarrow> nat \<Rightarrow> (nat \<times> cow_index) list" where
  "index_candidate c io d slot =
    (case read_from_dht io d slot of
       Inl _ \<Rightarrow> []
     | Inr bs \<Rightarrow>
        (case deserialize (decode_index c) bs of
           Inl _ \<Rightarrow> []
         | Inr ix \<Rightarrow>
            if validate_index_shape ix = None \<and> index_digest c ix = ix_digest ix
            then [(slot, ix)] else []))"

definition valid_generation ::
  "'e codec \<Rightarrow> dht_io \<Rightarrow> dht_record \<Rightarrow> nat \<times> cow_index \<Rightarrow>
   (nat \<times> cow_index \<times> 'e local_page list) option" where
  "valid_generation c io d si =
    (case load_and_validate_owned_pages c io d (snd si) of
       Inl _ \<Rightarrow> None | Inr ps \<Rightarrow> Some (fst si, snd si, ps))"

definition generation_order :: "nat \<times> cow_index \<Rightarrow> int" where
  "generation_order si = - int (ix_generation (snd si))"

definition load_owned ::
  "'e codec \<Rightarrow> dht_io \<Rightarrow> string \<Rightarrow> nat \<Rightarrow> nat option \<Rightarrow> dht_record \<Rightarrow>
   mailbox_error + 'e cow_paged_store" where
  "load_owned c io name package subkeys d =
    (case subkeys of
       None \<Rightarrow> Inl (Dht ''package not found'')
     | Some n \<Rightarrow>
        (let candidates = sort_key generation_order
               (index_candidate c io d INDEX_SLOT_A @ index_candidate c io d INDEX_SLOT_B);
             valid = List.map_filter (valid_generation c io d) candidates;
             older = (case valid of _ # (_, ix, _) # _ \<Rightarrow> Some ix | _ \<Rightarrow> None)
         in case valid of
              [] \<Rightarrow> Inr \<lparr>cs_name = name, package_index = package, total_subkeys = n,
                        active_index_slot = INDEX_SLOT_A, current_index = None,
                        previous_index = None, cs_pages = [empty_page]\<rparr>
            | (slot, ix, ps) # _ \<Rightarrow>
                Inr \<lparr>cs_name = name, package_index = package, total_subkeys = n,
                     active_index_slot = slot, current_index = Some ix,
                     previous_index = older, cs_pages = ps\<rparr>))"

subsection \<open>Entries in memory\<close>

definition store_generation :: "'e cow_paged_store \<Rightarrow> nat" where
  "store_generation s = (case current_index s of None \<Rightarrow> 0 | Some ix \<Rightarrow> ix_generation ix)"

definition all_entries :: "'e cow_paged_store \<Rightarrow> 'e list" where
  "all_entries s = concat (map lp_entries (cs_pages s))"

definition pending_changes :: "'e cow_paged_store \<Rightarrow> nat" where
  "pending_changes s = length (filter lp_dirty (cs_pages s))"

fun find_page_from :: "bytes \<Rightarrow> nat \<Rightarrow> 'e local_page list \<Rightarrow> nat option" where
  "find_page_from k i [] = None"
| "find_page_from k i (p # ps) =
     (case lp_descriptor p of
        None \<Rightarrow> Some i
      | Some ds \<Rightarrow> if k \<le> last_key ds then Some i else find_page_from k (i + 1) ps)"

definition find_page_index :: "bytes \<Rightarrow> 'e cow_paged_store \<Rightarrow> nat" where
  "find_page_index k s =
    (if length (cs_pages s) \<le> 1 then 0
     else case find_page_from k 0 (cs_pages s) of
       Some i \<Rightarrow> i | None \<Rightarrow> length (cs_pages s) - 1)"

text \<open>\<open>binary_search_by\<close> on entries sorted by key: the position of the key, or where it belongs.\<close>

fun binary_search :: "'e codec \<Rightarrow> bytes \<Rightarrow> 'e list \<Rightarrow> nat + nat" where
  "binary_search c k [] = Inl 0"
| "binary_search c k (e # es) =
     (if page_key c e = k then Inr 0
      else if k < page_key c e then Inl 0
      else case binary_search c k es of Inl j \<Rightarrow> Inl (Suc j) | Inr j \<Rightarrow> Inr (Suc j))"

definition upsert :: "'e codec \<Rightarrow> 'e \<Rightarrow> 'e cow_paged_store \<Rightarrow> 'e cow_paged_store option" where
  "upsert c e s =
    (let k = page_key c e; i = find_page_index k s
     in if i < length (cs_pages s)
        then (let p = cs_pages s ! i;
                  es = (case binary_search c k (lp_entries p) of
                          Inr j \<Rightarrow> (lp_entries p)[j := e]
                        | Inl j \<Rightarrow> take j (lp_entries p) @ e # drop j (lp_entries p))
              in Some (s\<lparr>cs_pages := (cs_pages s)[i := p\<lparr>lp_entries := es, lp_dirty := True\<rparr>]\<rparr>))
        else None)"

definition remove_entry ::
  "'e codec \<Rightarrow> bytes \<Rightarrow> 'e cow_paged_store \<Rightarrow> ('e option \<times> 'e cow_paged_store) option" where
  "remove_entry c k s =
    (let i = find_page_index k s
     in if i < length (cs_pages s)
        then (let p = cs_pages s ! i
              in case binary_search c k (lp_entries p) of
                   Inl _ \<Rightarrow> Some (None, s)
                 | Inr j \<Rightarrow> Some (Some (lp_entries p ! j),
                     s\<lparr>cs_pages := (cs_pages s)[i := p\<lparr>lp_entries := remove_at j (lp_entries p),
                                                     lp_dirty := True\<rparr>]\<rparr>))
        else None)"

definition get_entry :: "'e codec \<Rightarrow> bytes \<Rightarrow> 'e cow_paged_store \<Rightarrow> 'e option option" where
  "get_entry c k s =
    (let i = find_page_index k s
     in if i < length (cs_pages s)
        then (let p = cs_pages s ! i
              in case binary_search c k (lp_entries p) of
                   Inl _ \<Rightarrow> Some None | Inr j \<Rightarrow> Some (Some (lp_entries p ! j)))
        else None)"

subsection \<open>Splitting pages\<close>

text \<open>The stack of \<open>rebalance_dirty_pages\<close>: the left half of a page is split before the right.\<close>

function split_entries :: "'e codec \<Rightarrow> nat \<Rightarrow> 'e list \<Rightarrow> 'e list list" where
  "split_entries c target es =
     (if length es \<le> 1 \<or> serialized_page_size c es \<le> target then [es]
      else split_entries c target (take (length es div 2) es) @
           split_entries c target (drop (length es div 2) es))"
  by pat_completeness auto
termination by (relation "measure (\<lambda>(c, target, es). length es)") auto

declare split_entries.simps [simp del]

definition rebalance_page ::
  "'e codec \<Rightarrow> mailbox_config \<Rightarrow> 'e local_page \<Rightarrow> 'e local_page list" where
  "rebalance_page c cfg p =
    (let p = p\<lparr>lp_entries := sort_key (page_key c) (lp_entries p)\<rparr>
     in if \<not> lp_dirty p \<or> serialized_page_size c (lp_entries p) \<le> page_split_threshold cfg
        then [p]
        else map (\<lambda>es. \<lparr>lp_descriptor = None, lp_entries = es, lp_dirty = True\<rparr>)
               (split_entries c (page_target_size cfg) (lp_entries p)))"

definition page_first_key :: "'e codec \<Rightarrow> 'e local_page \<Rightarrow> bytes" where
  "page_first_key c p = first_or_default (map (page_key c) (lp_entries p))"

definition rebalance_dirty_pages ::
  "'e codec \<Rightarrow> mailbox_config \<Rightarrow> 'e cow_paged_store \<Rightarrow> 'e cow_paged_store" where
  "rebalance_dirty_pages c cfg s =
     s\<lparr>cs_pages := sort_key (page_first_key c) (concat (map (rebalance_page c cfg) (cs_pages s)))\<rparr>"

subsection \<open>Committing\<close>

definition index_subkeys :: "cow_index option \<Rightarrow> nat list" where
  "index_subkeys ix = (case ix of None \<Rightarrow> [] | Some ix \<Rightarrow> map pd_subkey (ix_pages ix))"

definition free_subkeys :: "'e cow_paged_store \<Rightarrow> nat list" where
  "free_subkeys s =
     filter (\<lambda>k. k \<notin> set (index_subkeys (current_index s)) \<union> set (index_subkeys (previous_index s)))
       [FIRST_DATA_SUBKEY..<total_subkeys s]"

definition wire_page :: "'e codec \<Rightarrow> nat \<Rightarrow> 'e list \<Rightarrow> 'e cow_data_page" where
  "wire_page c gen es =
    (let p = \<lparr>pg_version = MAILBOX_PROTOCOL_VERSION, pg_generation = gen, pg_entries = es,
              pg_digest = zero_digest\<rparr>
     in p\<lparr>pg_digest := page_digest c p\<rparr>)"

definition describe_page :: "'e codec \<Rightarrow> nat \<Rightarrow> nat \<Rightarrow> 'e list \<Rightarrow> cow_page_descriptor" where
  "describe_page c gen k es =
    (let p = wire_page c gen es; ks = map (page_key c) es
     in \<lparr>pd_subkey = k, first_key = first_or_default ks, last_key = last_or_default ks,
         pd_generation = gen, entry_count = length es mod 2 ^ 32,
         serialized_size = length (encode_page c p) mod 2 ^ 32, pd_digest = pg_digest p\<rparr>)"

type_synonym page_writes = "(cow_page_descriptor \<times> bytes) list"

fun plan_pages ::
  "'e codec \<Rightarrow> nat \<Rightarrow> nat \<Rightarrow> nat list \<Rightarrow> 'e local_page list \<Rightarrow>
   mailbox_error + cow_page_descriptor list \<times> page_writes" where
  "plan_pages c gen limit free [] = Inr ([], [])"
| "plan_pages c gen limit free (p # ps) =
     (if \<not> lp_dirty p
      then (case lp_descriptor p of
              None \<Rightarrow> Inl (StoreCorrupt ''clean page has no descriptor'')
            | Some ds \<Rightarrow>
               (case plan_pages c gen limit free ps of
                  Inl e \<Rightarrow> Inl e | Inr (dss, ws) \<Rightarrow> Inr (ds # dss, ws)))
      else (case free of
              [] \<Rightarrow> Inl NoFreePageSubkey
            | k # free \<Rightarrow>
               (let bs = encode_page c (wire_page c gen (lp_entries p));
                    ds = describe_page c gen k (lp_entries p)
                in if limit < length bs then Inl (StoreCorrupt ''page too large after splitting'')
                   else case plan_pages c gen limit free ps of
                     Inl e \<Rightarrow> Inl e | Inr (dss, ws) \<Rightarrow> Inr (ds # dss, (ds, bs) # ws))))"

definition put :: "dht_record \<Rightarrow> cow_page_descriptor \<times> bytes \<Rightarrow> dht_record" where
  "put d w = d(pd_subkey (fst w) \<mapsto> snd w)"

text \<open>All page writes are attempted; those that fail leave their subkey as it was.\<close>

definition write_pages :: "dht_io \<Rightarrow> page_writes \<Rightarrow> dht_record \<Rightarrow> dht_record" where
  "write_pages io ws d =
     foldl put d (filter (\<lambda>w. dio_write io (pd_subkey (fst w)) = None) ws)"

definition write_failed :: "dht_io \<Rightarrow> page_writes \<Rightarrow> string option" where
  "write_failed io ws =
    (case List.map_filter (\<lambda>w. dio_write io (pd_subkey (fst w))) ws of [] \<Rightarrow> None | e # _ \<Rightarrow> Some e)"

fun read_back ::
  "'e codec \<Rightarrow> dht_io \<Rightarrow> dht_record \<Rightarrow> page_writes \<Rightarrow> mailbox_error option" where
  "read_back c io d [] = None"
| "read_back c io d (w # ws) =
     (case read_from_dht io d (pd_subkey (fst w)) of
        Inl e \<Rightarrow> Some e
      | Inr bs \<Rightarrow>
         (case deserialize (decode_page c) bs of
            Inl e \<Rightarrow> Some e
          | Inr p \<Rightarrow>
             (case validate_page c p (fst w) of
                Some e \<Rightarrow> Some e
              | None \<Rightarrow> read_back c io d ws)))"

definition next_generation :: "'e cow_paged_store \<Rightarrow> nat" where
  "next_generation s = max 1 (sat_add u64_max (store_generation s) 1)"

definition other_slot :: "nat \<Rightarrow> nat" where
  "other_slot slot = (if slot = INDEX_SLOT_A then INDEX_SLOT_B else INDEX_SLOT_A)"

definition new_index ::
  "'e codec \<Rightarrow> dht_io \<Rightarrow> 'e cow_paged_store \<Rightarrow> cow_page_descriptor list \<Rightarrow> cow_index" where
  "new_index c io s dss =
    (let ix = \<lparr>ix_version = MAILBOX_PROTOCOL_VERSION, ix_generation = next_generation s,
               previous_generation = map_option ix_generation (current_index s),
               ix_created_at = dio_now io, ix_pages = dss, ix_digest = zero_digest\<rparr>
     in ix\<lparr>ix_digest := index_digest c ix\<rparr>)"

type_synonym 'e commit_state = "'e cow_paged_store \<times> pending_cow_transaction list \<times> dht_record"

text \<open>The commit after its pages have been written and read back.\<close>

definition commit_index ::
  "'e codec \<Rightarrow> dht_io \<Rightarrow> nat \<Rightarrow> cow_page_descriptor list \<Rightarrow> 'e commit_state \<Rightarrow>
   (mailbox_error + bool) \<times> 'e commit_state" where
  "commit_index c io limit dss = (\<lambda>(s, txs, d).
    (let ix = new_index c io s dss; bs = encode_index c ix; slot = other_slot (active_index_slot s)
     in if limit < length bs then (Inl (StoreCorrupt ''index too large''), s, txs, d)
        else case dio_write io slot of
          Some e \<Rightarrow> (Inl (Dht e), s, txs, d)
        | None \<Rightarrow>
           (let d = d(slot \<mapsto> bs)
            in case read_from_dht io d slot of
                 Inl e \<Rightarrow> (Inl e, s, txs, d)
               | Inr back \<Rightarrow>
                  (case deserialize (decode_index c) back of
                     Inl e \<Rightarrow> (Inl e, s, txs, d)
                   | Inr ix' \<Rightarrow>
                      if ix_digest ix' \<noteq> ix_digest ix \<or> index_digest c ix' \<noteq> ix_digest ix
                      then (Inl (StoreCorrupt ''index readback digest mismatch''), s, txs, d)
                      else case load_and_validate_owned_pages c io d ix' of
                        Inl e \<Rightarrow> (Inl e, s, txs, d)
                      | Inr ps \<Rightarrow>
                         (let txs = filter (\<lambda>tx. \<not> (tx_store_name tx = cs_name s \<and>
                                      tx_generation tx = next_generation s)) txs;
                              s' = s\<lparr>previous_index := current_index s, current_index := Some ix',
                                     active_index_slot := slot, cs_pages := ps\<rparr>
                          in case dio_log_again io of
                               Some e \<Rightarrow> (Inl (Auth e), s', txs, d)
                             | None \<Rightarrow> (Inr True, s', txs, d))))))"

definition commit ::
  "'e codec \<Rightarrow> mailbox_config \<Rightarrow> dht_io \<Rightarrow> 'e commit_state \<Rightarrow>
   (mailbox_error + bool) \<times> 'e commit_state" where
  "commit c cfg io = (\<lambda>(s, txs, d).
    if pending_changes s = 0 then (Inr False, s, txs, d)
    else
     (let s = rebalance_dirty_pages c cfg s;
          dht_limit = estimated_dht_value_limit (total_subkeys s);
          limit = min (page_split_threshold cfg) dht_limit
      in case plan_pages c (next_generation s) limit (free_subkeys s) (cs_pages s) of
           Inl e \<Rightarrow> (Inl e, s, txs, d)
         | Inr (dss, ws) \<Rightarrow>
            (let dss = sort_key first_key dss;
                 txs = txs @ [\<lparr>tx_store_name = cs_name s, tx_package_index = package_index s,
                   tx_generation = next_generation s,
                   target_index_slot = other_slot (active_index_slot s),
                   new_page_subkeys = map (\<lambda>w. pd_subkey (fst w)) ws, tx_started_at = dio_now io\<rparr>]
             in case dio_log io of
                  Some e \<Rightarrow> (Inl (Auth e), s, txs, d)
                | None \<Rightarrow>
                   (let d = write_pages io ws d
                    in case write_failed io ws of
                         Some e \<Rightarrow> (Inl (Dht e), s, txs, d)
                       | None \<Rightarrow>
                          (case read_back c io d ws of
                             Some e \<Rightarrow> (Inl e, s, txs, d)
                           | None \<Rightarrow> commit_index c io dht_limit dss (s, txs, d))))))"

subsection \<open>Stores of other nodes\<close>

text \<open>
  \<open>fetch\<close> is the read of a set of subkeys of a foreign record: it fails as a whole, or returns a
  result for each subkey. The newest valid generation within the page limit is taken.
\<close>

type_synonym foreign_reads = "nat list \<Rightarrow> mailbox_error + (nat \<Rightarrow> mailbox_error + bytes)"

definition foreign_record :: "(nat \<Rightarrow> mailbox_error + bytes) \<Rightarrow> dht_record" where
  "foreign_record reads k = (case reads k of Inl _ \<Rightarrow> None | Inr bs \<Rightarrow> Some bs)"

fun read_generations ::
  "'e codec \<Rightarrow> dht_io \<Rightarrow> foreign_reads \<Rightarrow> nat \<Rightarrow> cow_index list \<Rightarrow>
   mailbox_error + cow_index \<times> 'e list" where
  "read_generations c io fetch maximum_pages [] =
     Inl (StoreCorrupt ''no completely valid index generation'')"
| "read_generations c io fetch maximum_pages (ix # ixs) =
     (if maximum_pages < length (ix_pages ix) then read_generations c io fetch maximum_pages ixs
      else case fetch (map pd_subkey (ix_pages ix)) of
        Inl e \<Rightarrow> Inl e
      | Inr reads \<Rightarrow>
         (case load_all c io (foreign_record reads) (ix_pages ix) of
            Inl _ \<Rightarrow> read_generations c io fetch maximum_pages ixs
          | Inr ps \<Rightarrow> Inr (ix, concat (map lp_entries ps))))"

definition read_foreign_store ::
  "'e codec \<Rightarrow> dht_io \<Rightarrow> foreign_reads \<Rightarrow> nat \<Rightarrow> mailbox_error + cow_index \<times> 'e list" where
  "read_foreign_store c io fetch maximum_pages =
    (case fetch [INDEX_SLOT_A, INDEX_SLOT_B] of
       Inl e \<Rightarrow> Inl e
     | Inr reads \<Rightarrow>
        read_generations c io fetch maximum_pages (map snd (sort_key generation_order
          (index_candidate c io (foreign_record reads) INDEX_SLOT_A @
           index_candidate c io (foreign_record reads) INDEX_SLOT_B))))"

end
