(* ===== verification/Mailbox_Map.thy ===== *)
theory Mailbox_Map
  imports Mailbox_Store
begin

text \<open>
  The paged store in memory refines a finite map from keys to entries: as long as its pages
  cover ordered key ranges, lookup, insertion and removal act on the one page that may hold the
  key, and the other pages do not hold it.
\<close>

definition page_keys :: "'e codec \<Rightarrow> 'e local_page \<Rightarrow> bytes list" where
  "page_keys c p = map (page_key c) (lp_entries p)"

definition above :: "bytes option \<Rightarrow> bytes \<Rightarrow> bool" where
  "above lo k = (case lo of None \<Rightarrow> True | Some l \<Rightarrow> l < k)"

fun pages_ok :: "'e codec \<Rightarrow> bytes option \<Rightarrow> 'e local_page list \<Rightarrow> bool" where
  "pages_ok c lo [] = False"
| "pages_ok c lo [p] = (sorted_wrt (<) (page_keys c p) \<and> (\<forall>k \<in> set (page_keys c p). above lo k))"
| "pages_ok c lo (p # q # ps) =
     (sorted_wrt (<) (page_keys c p) \<and> (\<forall>k \<in> set (page_keys c p). above lo k) \<and>
      (case lp_descriptor p of
         None \<Rightarrow> False
       | Some ds \<Rightarrow> (\<forall>k \<in> set (page_keys c p). k \<le> last_key ds) \<and>
           (case lo of None \<Rightarrow> True | Some l \<Rightarrow> l \<le> last_key ds) \<and>
           pages_ok c (Some (last_key ds)) (q # ps)))"

definition store_ok :: "'e codec \<Rightarrow> 'e cow_paged_store \<Rightarrow> bool" where
  "store_ok c s \<longleftrightarrow> pages_ok c None (cs_pages s)"

text \<open>The map that a store stands for.\<close>

definition store_map :: "'e codec \<Rightarrow> 'e cow_paged_store \<Rightarrow> bytes \<Rightarrow> 'e option" where
  "store_map c s = map_of (map (\<lambda>e. (page_key c e, e)) (all_entries s))"

definition entries_map :: "'e codec \<Rightarrow> 'e list \<Rightarrow> bytes \<Rightarrow> 'e option" where
  "entries_map c es = map_of (map (\<lambda>e. (page_key c e, e)) es)"

lemma store_map_entries: "store_map c s = entries_map c (all_entries s)"
  by (simp add: store_map_def entries_map_def)

lemma entries_map_None: "entries_map c es k = None \<longleftrightarrow> k \<notin> page_key c ` set es"
  by (simp add: entries_map_def map_of_eq_None_iff image_image)

lemma entries_map_append: "entries_map c (xs @ ys) = entries_map c ys ++ entries_map c xs"
  by (simp add: entries_map_def)

subsection \<open>Searching one page\<close>

lemma binary_search_Inr:
  "binary_search c k es = Inr j \<Longrightarrow> j < length es \<and> page_key c (es ! j) = k"
  by (induction es arbitrary: j) (auto split: if_splits sum.splits)

lemma binary_search_Inl:
  "binary_search c k es = Inl j \<Longrightarrow> sorted_wrt (<) (map (page_key c) es) \<Longrightarrow>
   (\<forall>e \<in> set (take j es). page_key c e < k) \<and> (\<forall>e \<in> set (drop j es). k < page_key c e)"
proof (induction es arbitrary: j)
  case (Cons e es)
  consider (here) "k < page_key c e" "j = 0"
    | (later) i where "page_key c e < k" "binary_search c k es = Inl i" "j = Suc i"
    using Cons.prems(1) by (auto split: if_splits sum.splits)
  then show ?case
  proof cases
    case here
    with Cons.prems(2) show ?thesis by (auto intro: less_trans)
  next
    case later
    with Cons.IH [OF later(2)] Cons.prems(2) show ?thesis by auto
  qed
qed simp

text \<open>What each outcome means for the map of a page, and for its keys.\<close>

lemma entries_map_middle:
  assumes "page_key c e \<notin> page_key c ` set xs"
  shows "entries_map c (xs @ e # ys) = (entries_map c (xs @ ys))(page_key c e \<mapsto> e)"
proof -
  have "entries_map c xs (page_key c e) = None" using assms by (simp add: entries_map_None)
  then have "(entries_map c ys)(page_key c e \<mapsto> e) ++ entries_map c xs =
      (entries_map c ys ++ entries_map c xs)(page_key c e \<mapsto> e)"
    by (auto simp: map_add_def fun_eq_iff split: option.splits)
  moreover have "entries_map c (e # ys) = (entries_map c ys)(page_key c e \<mapsto> e)"
    by (simp add: entries_map_def)
  ultimately show ?thesis by (simp add: entries_map_append)
qed

lemma sorted_middle:
  assumes "sorted_wrt (<) (map (page_key c) (xs @ e # ys))"
  shows "page_key c e \<notin> page_key c ` set (xs @ ys)"
    and "sorted_wrt (<) (map (page_key c) (xs @ ys))"
  using assms by (auto simp: sorted_wrt_append)

lemma insert_sorted:
  assumes "binary_search c (page_key c e) es = Inl j" "sorted_wrt (<) (map (page_key c) es)"
    and es': "es' = take j es @ e # drop j es"
  shows "sorted_wrt (<) (map (page_key c) es')"
    and "entries_map c es' = (entries_map c es)(page_key c e \<mapsto> e)"
    and "page_key c ` set es' = insert (page_key c e) (page_key c ` set es)"
proof -
  note split = binary_search_Inl [OF assms(1,2)]
  have parts: "sorted_wrt (<) (map (page_key c) (take j es))"
    "sorted_wrt (<) (map (page_key c) (drop j es))"
    using sorted_wrt_take [OF assms(2), of j] sorted_wrt_drop [OF assms(2), of j]
    by (simp_all add: take_map drop_map)
  show "sorted_wrt (<) (map (page_key c) es')"
    using parts split by (auto simp: es' sorted_wrt_append intro: less_trans)
  have "page_key c ` set es = page_key c ` set (take j es) \<union> page_key c ` set (drop j es)"
    by (metis append_take_drop_id image_Un set_append)
  then show "page_key c ` set es' = insert (page_key c e) (page_key c ` set es)"
    by (auto simp: es')
  have "page_key c e \<notin> page_key c ` set (take j es)" using split by auto
  from entries_map_middle [OF this, of "drop j es"] show
    "entries_map c es' = (entries_map c es)(page_key c e \<mapsto> e)" by (simp add: es')
qed

lemma split_at:
  assumes "j < length es" "sorted_wrt (<) (map (page_key c) es)"
  obtains xs ys where "es = xs @ es ! j # ys" "length xs = j"
    "page_key c (es ! j) \<notin> page_key c ` set (xs @ ys)"
    "sorted_wrt (<) (map (page_key c) (xs @ ys))"
proof -
  let ?xs = "take j es" and ?ys = "drop (Suc j) es"
  have es: "es = ?xs @ es ! j # ?ys" using assms(1) by (rule id_take_nth_drop)
  have "sorted_wrt (<) (map (page_key c) (?xs @ es ! j # ?ys))"
    using assms(2) by (simp only: es [symmetric])
  from es sorted_middle [OF this] assms(1) show ?thesis by (intro that [of ?xs ?ys]) simp_all
qed

lemma entries_map_nth:
  assumes "j < length es" "sorted_wrt (<) (map (page_key c) es)"
  shows "entries_map c es (page_key c (es ! j)) = Some (es ! j)"
proof -
  obtain xs ys where s: "es = xs @ es ! j # ys" "page_key c (es ! j) \<notin> page_key c ` set (xs @ ys)"
    using split_at [OF assms] by metis
  then have "page_key c (es ! j) \<notin> page_key c ` set xs" by auto
  from entries_map_middle [OF this, of ys] s(1) show ?thesis by simp
qed

lemma replace_sorted:
  assumes "page_key c (es ! j) = page_key c e" "j < length es"
    and "sorted_wrt (<) (map (page_key c) es)"
  shows "map (page_key c) (es[j := e]) = map (page_key c) es"
    and "entries_map c (es[j := e]) = (entries_map c es)(page_key c e \<mapsto> e)"
proof -
  obtain xs ys where s: "es = xs @ es ! j # ys" "length xs = j"
    "page_key c (es ! j) \<notin> page_key c ` set (xs @ ys)"
    using split_at [OF assms(2,3)] by metis
  have upd: "es[j := e] = xs @ e # ys" using s(1,2) by (metis list_update_length)
  have "map (page_key c) es = map (page_key c) (xs @ es ! j # ys)" using s(1) by simp
  then show "map (page_key c) (es[j := e]) = map (page_key c) es" using assms(1) upd by simp
  have "page_key c e \<notin> page_key c ` set xs" "page_key c (es ! j) \<notin> page_key c ` set xs"
    using s(3) assms(1) by auto
  from entries_map_middle [OF this(1), of ys] entries_map_middle [OF this(2), of ys] s(1) assms(1)
  show "entries_map c (es[j := e]) = (entries_map c es)(page_key c e \<mapsto> e)"
    by (simp add: upd)
qed

lemma remove_sorted:
  assumes "j < length es" "sorted_wrt (<) (map (page_key c) es)"
  shows "sorted_wrt (<) (map (page_key c) (remove_at j es))"
    and "entries_map c (remove_at j es) = (entries_map c es)(page_key c (es ! j) := None)"
    and "set (remove_at j es) \<subseteq> set es"
proof -
  obtain xs ys where s: "es = xs @ es ! j # ys" "length xs = j"
    "page_key c (es ! j) \<notin> page_key c ` set (xs @ ys)"
    "sorted_wrt (<) (map (page_key c) (xs @ ys))"
    using split_at [OF assms] by metis
  have rm: "remove_at j es = xs @ ys" using s(1,2) by (metis remove_at_split)
  with s(4) show "sorted_wrt (<) (map (page_key c) (remove_at j es))" by simp
  have "page_key c (es ! j) \<notin> page_key c ` set xs" using s(3) by auto
  from entries_map_middle [OF this, of ys] s(1)
  have "entries_map c es = (entries_map c (xs @ ys))(page_key c (es ! j) \<mapsto> es ! j)" by simp
  moreover have "entries_map c (xs @ ys) (page_key c (es ! j)) = None"
    using s(3) by (simp only: entries_map_None not_False_eq_True)
  ultimately show "entries_map c (remove_at j es) = (entries_map c es)(page_key c (es ! j) := None)"
    by (simp add: rm fun_upd_idem)
  show "set (remove_at j es) \<subseteq> set es" unfolding rm by (subst s(1)) auto
qed

subsection \<open>Finding the page\<close>

lemma pages_ok_concat:
  "pages_ok c lo ps \<Longrightarrow> sorted_wrt (<) (map (page_key c) (concat (map lp_entries ps))) \<and>
     (\<forall>k \<in> page_key c ` set (concat (map lp_entries ps)). above lo k)"
proof (induction c lo ps rule: pages_ok.induct)
  case (3 c lo p q ps)
  from 3(2) obtain ds where ds: "lp_descriptor p = Some ds"
    "\<forall>k \<in> set (page_keys c p). k \<le> last_key ds"
    "case lo of None \<Rightarrow> True | Some l \<Rightarrow> l \<le> last_key ds"
    "pages_ok c (Some (last_key ds)) (q # ps)" by (auto split: option.splits)
  let ?E = "concat (map lp_entries (q # ps))"
  note tl = 3(1) [OF ds(1,4)]
  have up: "last_key ds < k" if "k \<in> page_key c ` set ?E" for k
    using tl that by (simp only: above_def option.case)
  have lo: "above lo k" if "last_key ds < k" for k
    using that ds(3) by (auto simp: above_def split: option.splits)
  have p: "sorted_wrt (<) (map (page_key c) (lp_entries p))"
    "\<forall>k \<in> page_key c ` set (lp_entries p). above lo k \<and> k \<le> last_key ds"
    using 3(2) ds(2) by (auto simp: page_keys_def split: option.splits)
  have "sorted_wrt (<) (map (page_key c) (lp_entries p) @ map (page_key c) ?E)"
    unfolding sorted_wrt_append set_map using p tl up by (blast intro: le_less_trans)
  moreover have "\<forall>k \<in> page_key c ` set (lp_entries p @ ?E). above lo k"
    unfolding set_append image_Un using p(2) up lo by blast
  moreover have "concat (map lp_entries (p # q # ps)) = lp_entries p @ ?E" by simp
  ultimately show ?case by (simp only: map_append)
qed (auto simp: page_keys_def)

text \<open>The page that a search stops at is the only one that may hold the key.\<close>

lemma locate:
  assumes "pages_ok c lo ps" "above lo k"
  shows "\<exists>xs p ys. ps = xs @ p # ys \<and>
    (case find_page_from k n ps of Some i \<Rightarrow> i | None \<Rightarrow> n + length ps - 1) = n + length xs \<and>
    sorted_wrt (<) (page_keys c p) \<and>
    (\<forall>q \<in> set xs \<union> set ys. k \<notin> set (page_keys c q)) \<and>
    (\<forall>es d. sorted_wrt (<) (map (page_key c) es) \<longrightarrow>
      page_key c ` set es \<subseteq> insert k (set (page_keys c p)) \<longrightarrow>
      pages_ok c lo (xs @ p\<lparr>lp_entries := es, lp_dirty := d\<rparr> # ys))"
  using assms
proof (induction c lo ps arbitrary: n rule: pages_ok.induct)
  case (2 c lo p)
  then show ?case
    by (intro exI [of _ "[]"] exI [of _ p]) (auto simp: page_keys_def split: option.split)
next
  case (3 c lo p q ps)
  from 3(2) obtain ds where ds: "lp_descriptor p = Some ds" "sorted_wrt (<) (page_keys c p)"
    "\<forall>k \<in> set (page_keys c p). above lo k \<and> k \<le> last_key ds"
    "case lo of None \<Rightarrow> True | Some l \<Rightarrow> l \<le> last_key ds"
    "pages_ok c (Some (last_key ds)) (q # ps)" by (auto split: option.splits)
  show ?case
  proof (cases "k \<le> last_key ds")
    case True
    have "above (Some (last_key ds)) k'" if "k' \<in> page_key c ` set (concat (map lp_entries (q # ps)))"
      for k' using pages_ok_concat [OF ds(5)] that by blast
    then have "k \<notin> set (page_keys c r)" if "r \<in> set (q # ps)" for r
      using that True by (force simp: above_def page_keys_def)
    moreover have "pages_ok c lo (p\<lparr>lp_entries := es, lp_dirty := d\<rparr> # q # ps)"
      if "sorted_wrt (<) (map (page_key c) es)"
        "page_key c ` set es \<subseteq> insert k (set (page_keys c p))" for es d
      using that ds 3(3) True by (auto simp: page_keys_def)
    ultimately show ?thesis
      using ds True by (intro exI [of _ "[]"] exI [of _ p] exI [of _ "q # ps"]) simp
  next
    case False
    then have lo: "above (Some (last_key ds)) k" by (simp add: above_def not_le)
    from 3(1) [OF ds(1,5) lo, of "n + 1"] obtain xs r ys where rest: "q # ps = xs @ r # ys"
      "(case find_page_from k (n + 1) (q # ps) of Some i \<Rightarrow> i | None \<Rightarrow> n + 1 + length (q # ps) - 1) =
        n + 1 + length xs"
      "sorted_wrt (<) (page_keys c r)" "\<forall>q \<in> set xs \<union> set ys. k \<notin> set (page_keys c q)"
      "\<forall>es d. sorted_wrt (<) (map (page_key c) es) \<longrightarrow>
        page_key c ` set es \<subseteq> insert k (set (page_keys c r)) \<longrightarrow>
        pages_ok c (Some (last_key ds)) (xs @ r\<lparr>lp_entries := es, lp_dirty := d\<rparr> # ys)" by blast
    have "k \<notin> set (page_keys c p)" using ds(3) False by auto
    moreover have "pages_ok c lo ((p # xs) @ r\<lparr>lp_entries := es, lp_dirty := d\<rparr> # ys)"
      if "sorted_wrt (<) (map (page_key c) es)"
        "page_key c ` set es \<subseteq> insert k (set (page_keys c r))" for es d
      using rest(5) that ds by (cases xs) auto
    ultimately show ?thesis
      using rest(1-4) ds(1) False
      by (intro exI [of _ "p # xs"] exI [of _ r] exI [of _ ys]) (auto split: option.splits)
  qed
qed simp

lemma find_page:
  assumes "store_ok c s"
  obtains xs p ys where "cs_pages s = xs @ p # ys" "find_page_index k s = length xs"
    "sorted_wrt (<) (page_keys c p)" "\<forall>q \<in> set xs \<union> set ys. k \<notin> set (page_keys c q)"
    "\<forall>es d. sorted_wrt (<) (map (page_key c) es) \<longrightarrow>
      page_key c ` set es \<subseteq> insert k (set (page_keys c p)) \<longrightarrow>
      pages_ok c None (xs @ p\<lparr>lp_entries := es, lp_dirty := d\<rparr> # ys)"
proof -
  obtain xs p ys where l: "cs_pages s = xs @ p # ys"
    "(case find_page_from k 0 (cs_pages s) of Some i \<Rightarrow> i | None \<Rightarrow> 0 + length (cs_pages s) - 1) =
      0 + length xs"
    "sorted_wrt (<) (page_keys c p)" "\<forall>q \<in> set xs \<union> set ys. k \<notin> set (page_keys c q)"
    "\<forall>es d. sorted_wrt (<) (map (page_key c) es) \<longrightarrow>
      page_key c ` set es \<subseteq> insert k (set (page_keys c p)) \<longrightarrow>
      pages_ok c None (xs @ p\<lparr>lp_entries := es, lp_dirty := d\<rparr> # ys)"
    using locate [of c None "cs_pages s" k 0] assms by (auto simp: store_ok_def above_def)
  have "find_page_index k s = length xs"
  proof (cases "length (cs_pages s) \<le> 1")
    case False
    with l(2) show ?thesis by (simp add: find_page_index_def split: option.splits)
  qed (use l(1) in \<open>simp add: find_page_index_def\<close>)
  with l show ?thesis using that by blast
qed

lemma entries_map_pages:
  assumes "\<forall>q \<in> set xs \<union> set ys. k \<notin> set (page_keys c q)"
  shows "entries_map c (concat (map lp_entries (xs @ p # ys))) k = entries_map c (lp_entries p) k"
proof -
  have "entries_map c (concat (map lp_entries qs)) k = None" if "set qs \<subseteq> set xs \<union> set ys" for qs
    using assms that by (auto simp: entries_map_None page_keys_def)
  from this [of xs] this [of ys] show ?thesis
    by (simp add: entries_map_append map_add_def split: option.split)
qed

lemma entries_map_replaced:
  assumes "\<forall>q \<in> set xs \<union> set ys. k \<notin> set (page_keys c q)"
    and "entries_map c es = (entries_map c (lp_entries p))(k := v)"
  shows "entries_map c (concat (map lp_entries (xs @ p\<lparr>lp_entries := es, lp_dirty := d\<rparr> # ys))) =
    (entries_map c (concat (map lp_entries (xs @ p # ys))))(k := v)"
proof
  fix k'
  have none: "entries_map c (concat (map lp_entries qs)) k = None" if "set qs \<subseteq> set xs \<union> set ys"
    for qs using assms(1) that by (auto simp: entries_map_None page_keys_def)
  show "entries_map c (concat (map lp_entries (xs @ p\<lparr>lp_entries := es, lp_dirty := d\<rparr> # ys))) k' =
    ((entries_map c (concat (map lp_entries (xs @ p # ys))))(k := v)) k'"
    using none [of xs] none [of ys]
    by (auto simp: entries_map_append map_add_def assms(2) split: option.splits)
qed

end
