(* ===== verification/Mailbox_Commit.thy ===== *)
theory Mailbox_Commit
  imports Mailbox_Map
begin

text \<open>
  What a commit puts on the DHT, step by step: the planned page writes, the states in between
  (any subset of them), and the state after the index slot has been written. Reloading any of
  them gives the generation before the commit or the one it writes.
\<close>

subsection \<open>Splitting and rebalancing keep the entries\<close>

lemma split_entries_concat: "concat (split_entries c t es) = es"
proof (induction c t es rule: split_entries.induct)
  case (1 c t es)
  show ?case
  proof (cases "length es \<le> 1 \<or> serialized_page_size c es \<le> t")
    case False
    with 1 show ?thesis by (subst split_entries.simps) simp
  qed (subst split_entries.simps, simp)
qed

lemma mset_concat_sort:
  "mset (concat (map f (sort_key g xs))) = mset (concat (map f xs))"
proof -
  have "mset (concat (map f ys)) = (\<Sum>x \<in># mset ys. mset (f x))" for ys
    by (induction ys) simp_all
  then show ?thesis by simp
qed

lemma rebalance_page_entries: "mset (concat (map lp_entries (rebalance_page c cfg p))) = mset (lp_entries p)"
  by (simp add: rebalance_page_def Let_def comp_def split_entries_concat)

lemma rebalance_entries: "mset (all_entries (rebalance_dirty_pages c cfg s)) = mset (all_entries s)"
proof -
  have "mset (concat (map lp_entries (concat (map (rebalance_page c cfg) ps)))) =
      mset (concat (map lp_entries ps))" for ps
    by (induction ps) (simp_all add: rebalance_page_entries)
  then show ?thesis by (simp add: all_entries_def rebalance_dirty_pages_def mset_concat_sort)
qed

subsection \<open>The plan\<close>

text \<open>How a descriptor of the new index stands for a page in memory.\<close>

definition planned ::
  "'e codec \<Rightarrow> nat \<Rightarrow> nat \<Rightarrow> page_writes \<Rightarrow> 'e local_page \<Rightarrow> cow_page_descriptor \<Rightarrow> bool" where
  "planned c gen limit ws p ds \<longleftrightarrow>
     (if lp_dirty p
      then (\<exists>k. ds = describe_page c gen k (lp_entries p)) \<and>
           (ds, encode_page c (wire_page c gen (lp_entries p))) \<in> set ws \<and>
           length (encode_page c (wire_page c gen (lp_entries p))) \<le> limit
      else lp_descriptor p = Some ds)"

lemma planned_mono: "planned c gen limit ws p ds \<Longrightarrow> set ws \<subseteq> set ws' \<Longrightarrow> planned c gen limit ws' p ds"
  by (auto simp: planned_def)

lemma describe_page_subkey [simp]: "pd_subkey (describe_page c gen k es) = k"
  by (simp add: describe_page_def Let_def)

lemma plan_pages_ok:
  "plan_pages c gen limit free ps = Inr (dss, ws) \<Longrightarrow> distinct free \<Longrightarrow>
   list_all2 (planned c gen limit ws) ps dss \<and>
   set (map (\<lambda>w. pd_subkey (fst w)) ws) \<subseteq> set free \<and> distinct (map (\<lambda>w. pd_subkey (fst w)) ws)"
proof (induction c gen limit free ps arbitrary: dss ws rule: plan_pages.induct)
  case (2 c gen limit free p ps)
  show ?case
  proof (cases "lp_dirty p")
    case False
    then obtain ds dss' where ds: "lp_descriptor p = Some ds"
      "plan_pages c gen limit free ps = Inr (dss', ws)" "dss = ds # dss'"
      using 2(3) by (auto split: option.splits sum.splits)
    with 2(1) [OF _ ds(1,2)] 2(4) False show ?thesis by (simp add: planned_def)
  next
    case True
    let ?bs = "encode_page c (wire_page c gen (lp_entries p))"
    obtain k fr dss' ws' where k: "free = k # fr" "length ?bs \<le> limit"
      "plan_pages c gen limit fr ps = Inr (dss', ws')"
      "dss = describe_page c gen k (lp_entries p) # dss'"
      "ws = (describe_page c gen k (lp_entries p), ?bs) # ws'"
      using 2(3) True by (auto simp: Let_def split: list.splits sum.splits if_splits)
    have IH: "list_all2 (planned c gen limit ws') ps dss' \<and>
        set (map (\<lambda>w. pd_subkey (fst w)) ws') \<subseteq> set fr \<and> distinct (map (\<lambda>w. pd_subkey (fst w)) ws')"
      using 2(2) [OF _ k(1) refl refl _ k(3)] True 2(4) k(1,2) by simp
    have "set ws' \<subseteq> set ws" by (auto simp: k(5))
    with IH have "list_all2 (planned c gen limit ws) ps dss'"
      by (auto elim!: list_all2_mono planned_mono)
    moreover have "planned c gen limit ws p (describe_page c gen k (lp_entries p))"
      using True k by (auto simp: planned_def)
    ultimately show ?thesis using IH 2(4) k by auto
  qed
qed simp

subsection \<open>Writing pages\<close>

lemma put_other: "k \<notin> set (map (\<lambda>w. pd_subkey (fst w)) ws) \<Longrightarrow> foldl put d ws k = d k"
  by (induction ws arbitrary: d) (auto simp: put_def)

lemma put_written:
  "(ds, bs) \<in> set ws \<Longrightarrow> distinct (map (\<lambda>w. pd_subkey (fst w)) ws) \<Longrightarrow>
   foldl put d ws (pd_subkey ds) = Some bs"
proof (induction ws arbitrary: d)
  case (Cons w ws)
  show ?case
  proof (cases "w = (ds, bs)")
    case True
    then have "pd_subkey ds \<notin> set (map (\<lambda>w. pd_subkey (fst w)) ws)" using Cons.prems(2) by simp
    from put_other [OF this, of "put d w"] True have "foldl put (put d w) ws (pd_subkey ds) = Some bs"
      by (simp add: put_def del: foldl.simps)
    then show ?thesis by simp
  qed (use Cons in auto)
qed simp

lemma page_digest_digest [simp]: "page_digest c (p\<lparr>pg_digest := x\<rparr>) = page_digest c p"
  by (simp add: page_digest_def)

lemma index_digest_digest [simp]: "index_digest c (ix\<lparr>ix_digest := x\<rparr>) = index_digest c ix"
  by (simp add: index_digest_def)

definition no_faults :: dht_io where
  "no_faults = \<lparr>dio_read = (\<lambda>k. None), dio_write = (\<lambda>k. None), dio_log = None,
     dio_log_again = None, dio_now = 0\<rparr>"

lemma read_no_faults [simp]:
  "read_from_dht no_faults d k =
     (case d k of None \<Rightarrow> Inl (Dht ''NotFound'') | Some bs \<Rightarrow> Inr bs)"
  by (simp add: read_from_dht_def no_faults_def)

text \<open>A written page that passes validation is read back with its own entries.\<close>

lemma load_written_page:
  assumes "codec_ok c" and "length (encode_page c (wire_page c gen es)) \<le> limit"
    and "limit \<le> MAX_NETWORK_DHT_VALUE_BYTES"
    and "d k = Some (encode_page c (wire_page c gen es))"
    and "load_page c io d (describe_page c gen k es) = Inr q"
  shows "lp_entries q = es"
proof -
  have "deserialize (decode_page c) (encode_page c (wire_page c gen es)) = Inr (wire_page c gen es)"
    using assms(1-3) by (simp add: deserialize_def codec_ok_def)
  with assms(4,5) show ?thesis
    by (auto simp: load_page_def read_from_dht_def wire_page_def Let_def
        split: option.splits if_splits)
qed

lemma load_all_list:
  "load_all c io d dss = Inr qs \<Longrightarrow> list_all2 (\<lambda>ds q. load_page c io d ds = Inr q) dss qs"
  by (induction c io d dss arbitrary: qs rule: load_all.induct) (auto split: sum.splits)

lemma load_all_entries:
  assumes "load_all c io d dss = Inr qs"
  shows "mset (concat (map lp_entries qs)) =
    (\<Sum>ds \<in># mset dss. mset (lp_entries (projr (load_page c io d ds))))"
proof -
  have "list_all2 (\<lambda>ds q. load_page c io d ds = Inr q) dss qs" using load_all_list [OF assms] .
  then show ?thesis by (induction rule: list_all2_induct) simp_all
qed

lemma load_all_sorted_entries:
  assumes "load_all c io d (sort_key f dss) = Inr qs"
    and "list_all2 (\<lambda>p ds. \<forall>q. load_page c io d ds = Inr q \<longrightarrow> mset (lp_entries q) = mset (lp_entries p)) ps dss"
  shows "mset (concat (map lp_entries qs)) = mset (concat (map lp_entries ps))"
proof -
  have loaded: "\<exists>q. load_page c io d ds = Inr q" if "ds \<in> set dss" for ds
  proof -
    have "ds \<in> set (sort_key f dss)" using that by simp
    then obtain i where "i < length (sort_key f dss)" "sort_key f dss ! i = ds"
      by (auto simp only: in_set_conv_nth)
    with list_all2_nthD [OF load_all_list [OF assms(1)], of i] show ?thesis by auto
  qed
  have "mset (concat (map lp_entries qs)) =
      (\<Sum>ds \<in># mset dss. mset (lp_entries (projr (load_page c io d ds))))"
    using load_all_entries [OF assms(1)] by simp
  also have "\<dots> = mset (concat (map lp_entries ps))"
    using assms(2) loaded
  proof (induction rule: list_all2_induct)
    case (Cons p ps ds dss)
    then obtain q where "load_page c io d ds = Inr q" by auto
    with Cons show ?case by simp
  qed simp
  finally show ?thesis .
qed

end
