(* ===== verification/Mailbox_Crash.thy ===== *)
theory Mailbox_Crash
  imports Mailbox_Commit
begin

text \<open>
  Crash safety of the copy-on-write commit. \<open>crash_state\<close> holds of every state of the DHT record
  that an interrupted or failed commit can leave: any subset of the page writes, or all of them
  and the new index. Reloading gives the old generation or the new one, never a mixture.
\<close>

definition reload :: "'e codec \<Rightarrow> 'e cow_paged_store \<Rightarrow> dht_record \<Rightarrow> 'e cow_paged_store" where
  "reload c s d = projr (load_owned c no_faults (cs_name s) (package_index s)
     (Some (total_subkeys s)) d)"

text \<open>The store in memory was loaded from this record, and nothing newer is on it.\<close>

definition disk_current :: "'e codec \<Rightarrow> 'e cow_paged_store \<Rightarrow> dht_record \<Rightarrow> bool" where
  "disk_current c s d \<longleftrightarrow>
     active_index_slot s \<in> {INDEX_SLOT_A, INDEX_SLOT_B} \<and>
     (case current_index s of
        None \<Rightarrow> index_candidate c no_faults d INDEX_SLOT_A = [] \<and>
               index_candidate c no_faults d INDEX_SLOT_B = []
      | Some ix \<Rightarrow>
          index_candidate c no_faults d (active_index_slot s) = [(active_index_slot s, ix)] \<and>
          (\<exists>ps. load_and_validate_owned_pages c no_faults d ix = Inr ps) \<and>
          (\<forall>ix' \<in> snd ` set (index_candidate c no_faults d (other_slot (active_index_slot s))).
             ix_generation ix' < ix_generation ix)) \<and>
     (\<forall>p \<in> set (cs_pages s). \<forall>ds. \<not> lp_dirty p \<longrightarrow> lp_descriptor p = Some ds \<longrightarrow>
        load_page c no_faults d ds = Inr p \<and>
        pd_subkey ds \<in> set (index_subkeys (current_index s)))"

definition commit_plan ::
  "'e codec \<Rightarrow> mailbox_config \<Rightarrow> 'e cow_paged_store \<Rightarrow>
   mailbox_error + cow_page_descriptor list \<times> page_writes" where
  "commit_plan c cfg s =
    (let s = rebalance_dirty_pages c cfg s
     in plan_pages c (next_generation s)
          (min (page_split_threshold cfg) (estimated_dht_value_limit (total_subkeys s)))
          (free_subkeys s) (cs_pages s))"

inductive crash_state ::
  "'e codec \<Rightarrow> mailbox_config \<Rightarrow> nat \<Rightarrow> 'e cow_paged_store \<Rightarrow> dht_record \<Rightarrow> dht_record \<Rightarrow> bool"
  for c cfg t s d where
  untouched: "crash_state c cfg t s d d"
| pages: "commit_plan c cfg s = Inr (dss, ws) \<Longrightarrow> set ws' \<subseteq> set ws \<Longrightarrow> distinct ws' \<Longrightarrow>
    crash_state c cfg t s d (foldl put d ws')"
| index: "commit_plan c cfg s = Inr (dss, ws) \<Longrightarrow>
    bs = encode_index c (new_index c (no_faults\<lparr>dio_now := t\<rparr>) s (sort_key first_key dss)) \<Longrightarrow>
    length bs \<le> estimated_dht_value_limit (total_subkeys s) \<Longrightarrow>
    crash_state c cfg t s d ((foldl put d ws)(other_slot (active_index_slot s) \<mapsto> bs))"

subsection \<open>What reloading depends on\<close>

lemma read_cong: "d' k = d k \<Longrightarrow> read_from_dht io d' k = read_from_dht io d k"
  by (cases "dio_read io k") (simp_all add: read_from_dht_def)

lemma load_page_cong:
  assumes "d' (pd_subkey ds) = d (pd_subkey ds)"
  shows "load_page c io d' ds = load_page c io d ds"
  unfolding load_page_def by (simp only: read_cong [of d' "pd_subkey ds" d, OF assms])

lemma load_all_cong:
  "(\<And>ds. ds \<in> set dss \<Longrightarrow> d' (pd_subkey ds) = d (pd_subkey ds)) \<Longrightarrow>
   load_all c io d' dss = load_all c io d dss"
proof (induction dss)
  case (Cons ds dss)
  have "d' (pd_subkey ds) = d (pd_subkey ds)" by (rule Cons.prems) simp
  then have p: "load_page c io d' ds = load_page c io d ds" by (rule load_page_cong)
  have r: "load_all c io d' dss = load_all c io d dss"
    by (rule Cons.IH, rule Cons.prems) simp
  show ?case unfolding load_all.simps p r ..
qed simp

lemma load_and_validate_cong:
  "(\<And>ds. ds \<in> set (ix_pages ix) \<Longrightarrow> d' (pd_subkey ds) = d (pd_subkey ds)) \<Longrightarrow>
   load_and_validate_owned_pages c io d' ix = load_and_validate_owned_pages c io d ix"
  unfolding load_and_validate_owned_pages_def
  by (simp only: load_all_cong [of "ix_pages ix" d' d])

lemma index_candidate_cong:
  "d' sl = d sl \<Longrightarrow> index_candidate c io d' sl = index_candidate c io d sl"
  unfolding index_candidate_def by (simp only: read_cong [of d' sl d])

lemma index_candidate_cases:
  obtains "index_candidate c io d sl = []"
  | ix where "index_candidate c io d sl = [(sl, ix)]" "validate_index_shape ix = None"
proof -
  show ?thesis
  proof (cases "index_candidate c io d sl")
    case (Cons x xs)
    then obtain ix where "index_candidate c io d sl = [(sl, ix)]" "validate_index_shape ix = None"
      by (auto simp: index_candidate_def split: sum.splits if_splits)
    then show ?thesis by (rule that(2))
  qed (rule that(1))
qed

lemma slots: "INDEX_SLOT_A \<noteq> INDEX_SLOT_B" "other_slot INDEX_SLOT_A = INDEX_SLOT_B"
  "other_slot INDEX_SLOT_B = INDEX_SLOT_A" "INDEX_SLOT_A < FIRST_DATA_SUBKEY"
  "INDEX_SLOT_B < FIRST_DATA_SUBKEY"
  by (simp_all add: INDEX_SLOT_A_def INDEX_SLOT_B_def FIRST_DATA_SUBKEY_def other_slot_def)

lemma shape_subkeys:
  "validate_index_shape ix = None \<Longrightarrow> ds \<in> set (ix_pages ix) \<Longrightarrow> FIRST_DATA_SUBKEY \<le> pd_subkey ds"
proof -
  have "ranges_ordered prev dss = None \<Longrightarrow> ds \<in> set dss \<Longrightarrow> FIRST_DATA_SUBKEY \<le> pd_subkey ds"
    for prev dss by (induction prev dss rule: ranges_ordered.induct) (auto split: if_splits)
  then show "validate_index_shape ix = None \<Longrightarrow> ds \<in> set (ix_pages ix) \<Longrightarrow>
      FIRST_DATA_SUBKEY \<le> pd_subkey ds"
    by (auto simp: validate_index_shape_def split: if_splits)
qed

text \<open>The valid generations on a record, newest first.\<close>

definition generations ::
  "'e codec \<Rightarrow> dht_record \<Rightarrow> (nat \<times> cow_index \<times> 'e local_page list) list" where
  "generations c d = List.map_filter (valid_generation c no_faults d) (sort_key generation_order
     (index_candidate c no_faults d INDEX_SLOT_A @ index_candidate c no_faults d INDEX_SLOT_B))"

lemma reload_generations:
  "generations c d = (sl, ix, ps) # gs \<Longrightarrow> active_index_slot (reload c s d) = sl \<and>
     current_index (reload c s d) = Some ix \<and> cs_pages (reload c s d) = ps"
  "generations c d = [] \<Longrightarrow> active_index_slot (reload c s d) = INDEX_SLOT_A \<and>
     current_index (reload c s d) = None \<and> cs_pages (reload c s d) = [empty_page]"
  by (simp_all add: generations_def reload_def load_owned_def Let_def)

lemma map_filter_two:
  "List.map_filter f [] = []"
  "List.map_filter f [x] = (case f x of None \<Rightarrow> [] | Some y \<Rightarrow> [y])"
  "List.map_filter f [x, y] = (case f x of None \<Rightarrow> [] | Some u \<Rightarrow> [u]) @
     (case f y of None \<Rightarrow> [] | Some v \<Rightarrow> [v])"
  by (simp_all add: List.map_filter_simps split: option.split)

lemma generations_newer:
  assumes "sl \<in> {INDEX_SLOT_A, INDEX_SLOT_B}"
    and "index_candidate c no_faults d sl = [(sl, ix)]"
    and "\<forall>ix' \<in> snd ` set (index_candidate c no_faults d (other_slot sl)).
      ix_generation ix' < ix_generation ix"
  shows "generations c d =
    (case valid_generation c no_faults d (sl, ix) of None \<Rightarrow> [] | Some g \<Rightarrow> [g]) @
    List.map_filter (valid_generation c no_faults d) (index_candidate c no_faults d (other_slot sl))"
proof -
  consider (none) "index_candidate c no_faults d (other_slot sl) = []"
    | (one) ix' where "index_candidate c no_faults d (other_slot sl) = [(other_slot sl, ix')]"
    by (rule index_candidate_cases)
  then show ?thesis
  proof cases
    case none
    with assms(1,2) show ?thesis
      by (auto simp: generations_def slots map_filter_two split: option.split)
  next
    case one
    with assms(3) have "ix_generation ix' < ix_generation ix" by simp
    then show ?thesis
      using assms(1,2) one
      by (auto simp: generations_def slots map_filter_two generation_order_def split: option.split)
  qed
qed

lemma valid_generation_load:
  "valid_generation c io d (sl, ix) =
     (case load_and_validate_owned_pages c io d ix of Inl _ \<Rightarrow> None | Inr ps \<Rightarrow> Some (sl, ix, ps))"
  by (simp add: valid_generation_def split: sum.split)

text \<open>As long as the slots and the pages of the current index keep their bytes, reloading gives
  the current generation.\<close>

lemma reload_unchanged:
  assumes cur: "disk_current c s d"
    and slots: "d' INDEX_SLOT_A = d INDEX_SLOT_A" "d' INDEX_SLOT_B = d INDEX_SLOT_B"
    and keys: "\<And>k. k \<in> set (index_subkeys (current_index s)) \<Longrightarrow> d' k = d k"
  shows "current_index (reload c s d') = current_index s"
    and "cs_pages (reload c s d') = cs_pages (reload c s d)"
proof -
  have cand: "index_candidate c no_faults d' sl = index_candidate c no_faults d sl"
    if "sl \<in> {INDEX_SLOT_A, INDEX_SLOT_B}" for sl
    using that slots by (auto intro: index_candidate_cong)
  have oth: "other_slot sl \<in> {INDEX_SLOT_A, INDEX_SLOT_B}" for sl by (simp add: other_slot_def)
  have "current_index (reload c s d') = current_index s \<and>
      cs_pages (reload c s d') = cs_pages (reload c s d)"
  proof (cases "current_index s")
    case None
    with cur have "generations c d = []" "generations c d' = []"
      by (simp_all add: disk_current_def generations_def cand map_filter_two)
    with None show ?thesis
      using reload_generations(2) [of c d s] reload_generations(2) [of c d' s] by simp
  next
    case (Some ix)
    let ?sl = "active_index_slot s"
    have s: "?sl \<in> {INDEX_SLOT_A, INDEX_SLOT_B}"
      "index_candidate c no_faults d ?sl = [(?sl, ix)]"
      "\<forall>ix' \<in> snd ` set (index_candidate c no_faults d (other_slot ?sl)).
         ix_generation ix' < ix_generation ix"
      using cur Some by (simp_all add: disk_current_def)
    obtain ps where ps: "load_and_validate_owned_pages c no_faults d ix = Inr ps"
      using cur Some by (auto simp: disk_current_def)
    have ps': "load_and_validate_owned_pages c no_faults d' ix = Inr ps"
      using keys Some ps by (subst load_and_validate_cong) (auto simp: index_subkeys_def)
    have "\<exists>gs. generations c d = (?sl, ix, ps) # gs"
      unfolding generations_newer [OF s] by (simp add: valid_generation_load ps)
    moreover have "\<exists>gs. generations c d' = (?sl, ix, ps) # gs"
      by (subst generations_newer [of ?sl _ _ ix])
        (use s cand [OF s(1)] cand [OF oth] in \<open>simp_all add: valid_generation_load ps'\<close>)
    ultimately show ?thesis
      using reload_generations(1) [of c d _ _ _ _ s] reload_generations(1) [of c d' _ _ _ _ s] Some
      by fastforce
  qed
  then show "current_index (reload c s d') = current_index s"
    "cs_pages (reload c s d') = cs_pages (reload c s d)" by blast+
qed

subsection \<open>The states of a commit\<close>

lemma rebalance_frame [simp]:
  "cs_name (rebalance_dirty_pages c cfg s) = cs_name s"
  "package_index (rebalance_dirty_pages c cfg s) = package_index s"
  "total_subkeys (rebalance_dirty_pages c cfg s) = total_subkeys s"
  "active_index_slot (rebalance_dirty_pages c cfg s) = active_index_slot s"
  "current_index (rebalance_dirty_pages c cfg s) = current_index s"
  "previous_index (rebalance_dirty_pages c cfg s) = previous_index s"
  "store_generation (rebalance_dirty_pages c cfg s) = store_generation s"
  "next_generation (rebalance_dirty_pages c cfg s) = next_generation s"
  "free_subkeys (rebalance_dirty_pages c cfg s) = free_subkeys s"
  "new_index c io (rebalance_dirty_pages c cfg s) = new_index c io s"
  by (simp_all add: rebalance_dirty_pages_def store_generation_def next_generation_def
      free_subkeys_def new_index_def fun_eq_iff)

lemma free_subkeys_ok:
  "distinct (free_subkeys s)"
  "k \<in> set (free_subkeys s) \<Longrightarrow> FIRST_DATA_SUBKEY \<le> k \<and> k \<notin> set (index_subkeys (current_index s))"
  by (auto simp: free_subkeys_def)

lemma commit_plan_ok:
  assumes "commit_plan c cfg s = Inr (dss, ws)"
  shows "list_all2 (planned c (next_generation s)
      (min (page_split_threshold cfg) (estimated_dht_value_limit (total_subkeys s))) ws)
      (cs_pages (rebalance_dirty_pages c cfg s)) dss"
    and "set (map (\<lambda>w. pd_subkey (fst w)) ws) \<subseteq> set (free_subkeys s)"
    and "distinct (map (\<lambda>w. pd_subkey (fst w)) ws)"
  using plan_pages_ok [of c "next_generation s" _ "free_subkeys s"
      "cs_pages (rebalance_dirty_pages c cfg s)" dss ws] assms free_subkeys_ok(1)
  by (auto simp: commit_plan_def Let_def)

lemma writes_elsewhere:
  assumes "commit_plan c cfg s = Inr (dss, ws)" "set ws' \<subseteq> set ws"
    and "k < FIRST_DATA_SUBKEY \<or> k \<in> set (index_subkeys (current_index s))"
  shows "foldl put d ws' k = d k"
proof (rule put_other)
  have "set (map (\<lambda>w. pd_subkey (fst w)) ws') \<subseteq> set (free_subkeys s)"
    using commit_plan_ok(2) [OF assms(1)] assms(2) by auto
  then show "k \<notin> set (map (\<lambda>w. pd_subkey (fst w)) ws')"
    using assms(3) free_subkeys_ok(2) by fastforce
qed

lemma clean_page_kept:
  assumes "disk_current c s d" "p \<in> set (cs_pages (rebalance_dirty_pages c cfg s))"
    and "\<not> lp_dirty p" "lp_descriptor p = Some ds"
  shows "pd_subkey ds \<in> set (index_subkeys (current_index s))"
    and "load_page c no_faults d ds = Inr q \<Longrightarrow> mset (lp_entries q) = mset (lp_entries p)"
proof -
  have "\<exists>p0 \<in> set (cs_pages s). p \<in> set (rebalance_page c cfg p0)"
    using assms(2) by (auto simp: rebalance_dirty_pages_def)
  then obtain p0 where p0: "p0 \<in> set (cs_pages s)" "\<not> lp_dirty p0"
    "lp_descriptor p0 = Some ds" "mset (lp_entries p) = mset (lp_entries p0)"
    using assms(3,4) by (auto simp: rebalance_page_def Let_def split: if_splits)
  with assms(1) have "load_page c no_faults d ds = Inr p0"
    "pd_subkey ds \<in> set (index_subkeys (current_index s))"
    by (auto simp: disk_current_def)
  with p0(4) show "pd_subkey ds \<in> set (index_subkeys (current_index s))"
    "load_page c no_faults d ds = Inr q \<Longrightarrow> mset (lp_entries q) = mset (lp_entries p)" by auto
qed

text \<open>The pages of a completed commit, if they validate, hold the entries of the store.\<close>

lemma committed_pages:
  assumes "codec_ok c" "disk_current c s d" "commit_plan c cfg s = Inr (dss, ws)"
    and "estimated_dht_value_limit (total_subkeys s) \<le> MAX_NETWORK_DHT_VALUE_BYTES"
    and "load_all c no_faults ((foldl put d ws)(slot \<mapsto> bs)) (sort_key first_key dss) = Inr qs"
    and "slot < FIRST_DATA_SUBKEY" "\<forall>ds \<in> set dss. FIRST_DATA_SUBKEY \<le> pd_subkey ds"
  shows "mset (concat (map lp_entries qs)) = mset (all_entries s)"
proof -
  let ?d = "(foldl put d ws)(slot \<mapsto> bs)"
  let ?rs = "cs_pages (rebalance_dirty_pages c cfg s)"
  note plan = commit_plan_ok [OF assms(3)]
  have "list_all2 (\<lambda>p ds. \<forall>q. load_page c no_faults ?d ds = Inr q \<longrightarrow>
      mset (lp_entries q) = mset (lp_entries p)) ?rs dss"
  proof (rule list_all2_all_nthI)
    show "length ?rs = length dss" using plan(1) by (rule list_all2_lengthD)
    fix i assume i: "i < length ?rs"
    let ?p = "?rs ! i" and ?ds = "dss ! i"
    have pl: "planned c (next_generation s)
        (min (page_split_threshold cfg) (estimated_dht_value_limit (total_subkeys s))) ws ?p ?ds"
      using list_all2_nthD [OF plan(1) i] .
    have "?ds \<in> set dss" using i plan(1) by (simp add: list_all2_lengthD)
    then have "pd_subkey ?ds \<noteq> slot" using assms(6,7) by auto
    then have disk: "?d (pd_subkey ?ds) = foldl put d ws (pd_subkey ?ds)" by simp
    show "\<forall>q. load_page c no_faults ?d ?ds = Inr q \<longrightarrow> mset (lp_entries q) = mset (lp_entries ?p)"
    proof (intro allI impI)
      fix q assume q: "load_page c no_faults ?d ?ds = Inr q"
      show "mset (lp_entries q) = mset (lp_entries ?p)"
      proof (cases "lp_dirty ?p")
        case True
        let ?bs = "encode_page c (wire_page c (next_generation s) (lp_entries ?p))"
        obtain k where k: "?ds = describe_page c (next_generation s) k (lp_entries ?p)"
          "(?ds, ?bs) \<in> set ws"
          "length ?bs \<le> min (page_split_threshold cfg) (estimated_dht_value_limit (total_subkeys s))"
          using pl True by (auto simp: planned_def)
        have "?d k = Some ?bs"
          using put_written [OF k(2) plan(3)] disk k(1) by simp
        from load_written_page [OF assms(1) k(3) _ this q [unfolded k(1)]] assms(4)
        show ?thesis by simp
      next
        case False
        then have ds: "lp_descriptor ?p = Some ?ds" using pl by (simp add: planned_def)
        note kept = clean_page_kept [OF assms(2) nth_mem [OF i] False ds]
        have "foldl put d ws (pd_subkey ?ds) = d (pd_subkey ?ds)"
          using writes_elsewhere [OF assms(3) order_refl] kept(1) by blast
        with q disk have "load_page c no_faults d ?ds = Inr q"
          by (simp add: load_page_cong [of ?d ?ds d])
        then show ?thesis by (rule kept(2))
      qed
    qed
  qed
  from load_all_sorted_entries [OF assms(5) this] rebalance_entries [of c cfg s]
  show ?thesis by (simp add: all_entries_def)
qed

lemma next_generation_newer:
  "store_generation s < u64_max \<Longrightarrow> next_generation s = Suc (store_generation s)"
  by (simp add: next_generation_def sat_add_def)

lemma new_index_frame [simp]:
  "ix_generation (new_index c io s dss) = next_generation s"
  "ix_pages (new_index c io s dss) = dss"
  "index_digest c (new_index c io s dss) = ix_digest (new_index c io s dss)"
  by (simp_all add: new_index_def index_digest_def Let_def)

lemma active_older:
  assumes "disk_current c s d" "store_generation s < u64_max"
    and "ix' \<in> snd ` set (index_candidate c no_faults d (active_index_slot s))"
    and ix: "ix = new_index c io s dss"
  shows "ix_generation ix' < ix_generation ix"
proof (cases "current_index s")
  case None
  with assms(1) have "index_candidate c no_faults d (active_index_slot s) = []"
    by (auto simp: disk_current_def)
  with assms(3) show ?thesis by simp
next
  case (Some ix0)
  with assms(1,3) have "ix' = ix0" by (simp add: disk_current_def)
  then show ?thesis
    using Some next_generation_newer [OF assms(2)] by (simp add: ix store_generation_def)
qed

text \<open>The outcomes of reloading a completed commit.\<close>

lemma completed_generations:
  assumes "codec_ok c" "disk_current c s d" "store_generation s < u64_max"
    and "commit_plan c cfg s = Inr (dss, ws)"
    and ix: "ix = new_index c io s (sort_key first_key dss)"
    and "length (encode_index c ix) \<le> MAX_NETWORK_DHT_VALUE_BYTES"
    and d': "d' = (foldl put d ws)(other_slot (active_index_slot s) \<mapsto> encode_index c ix)"
    and "validate_index_shape ix = None"
    and "load_and_validate_owned_pages c no_faults d' ix = Inr ps"
  shows "\<exists>gs. generations c d' = (other_slot (active_index_slot s), ix, ps) # gs"
proof -
  let ?sl = "other_slot (active_index_slot s)"
  have act: "active_index_slot s \<in> {INDEX_SLOT_A, INDEX_SLOT_B}"
    using assms(2) by (simp add: disk_current_def)
  then have other: "other_slot ?sl = active_index_slot s" "?sl \<noteq> active_index_slot s"
    "?sl \<in> {INDEX_SLOT_A, INDEX_SLOT_B}" using slots(1) by (auto simp: slots slots(1) [symmetric])
  have "deserialize (decode_index c) (encode_index c ix) = Inr ix"
    using assms(1,6) by (simp add: deserialize_def codec_ok_def)
  then have new: "index_candidate c no_faults d' ?sl = [(?sl, ix)]"
    using assms(8) by (simp add: index_candidate_def d' ix)
  have "active_index_slot s < FIRST_DATA_SUBKEY" using act slots by auto
  then have "d' (active_index_slot s) = d (active_index_slot s)"
    using other(2) writes_elsewhere [OF assms(4) order_refl] by (simp add: d')
  then have old: "index_candidate c no_faults d' (active_index_slot s) =
      index_candidate c no_faults d (active_index_slot s)" by (rule index_candidate_cong)
  have "ix_generation ix' < ix_generation ix"
    if "ix' \<in> snd ` set (index_candidate c no_faults d (active_index_slot s))" for ix'
    by (rule active_older [OF assms(2,3) that ix])
  then show ?thesis
    using generations_newer [OF other(3) new] old other(1) assms(9)
    by (simp add: valid_generation_load)
qed

text \<open>If the new generation does not validate, the one before the commit is loaded.\<close>

lemma candidates_none:
  assumes "index_candidate c no_faults d INDEX_SLOT_A = []"
    and "index_candidate c no_faults d INDEX_SLOT_B = []"
  shows "generations c d = []"
  using assms by (simp add: generations_def map_filter_two)

lemma generations_either:
  assumes "sl \<in> {INDEX_SLOT_A, INDEX_SLOT_B}"
    and "\<forall>si \<in> set (index_candidate c no_faults d (other_slot sl)).
      valid_generation c no_faults d si = None"
  shows "generations c d = List.map_filter (valid_generation c no_faults d)
    (index_candidate c no_faults d sl)"
proof -
  have act: "sl = INDEX_SLOT_A \<and> other_slot sl = INDEX_SLOT_B \<or>
      sl = INDEX_SLOT_B \<and> other_slot sl = INDEX_SLOT_A" using assms(1) by (auto simp: slots)
  show ?thesis
    by (rule index_candidate_cases [of c no_faults d sl];
        rule index_candidate_cases [of c no_faults d "other_slot sl"])
      (use act assms(2) in \<open>auto simp: generations_def map_filter_two split: option.split\<close>)
qed

lemma current_generations:
  assumes "disk_current c s d"
    and "index_candidate c no_faults d' (active_index_slot s) =
      index_candidate c no_faults d (active_index_slot s)"
    and "\<forall>si \<in> set (index_candidate c no_faults d' (other_slot (active_index_slot s))).
      valid_generation c no_faults d' si = None"
    and keys: "\<And>k. k \<in> set (index_subkeys (current_index s)) \<Longrightarrow> d' k = d k"
  shows "current_index (reload c s d') = current_index s"
    and "cs_pages (reload c s d') = cs_pages (reload c s d)"
proof -
  let ?sl = "active_index_slot s"
  have act: "?sl \<in> {INDEX_SLOT_A, INDEX_SLOT_B}" using assms(1) by (simp add: disk_current_def)
  note gens = generations_either [OF act assms(3), unfolded assms(2)]
  have "current_index (reload c s d') = current_index s \<and>
      cs_pages (reload c s d') = cs_pages (reload c s d)"
  proof (cases "current_index s")
    case None
    with assms(1) act have "generations c d = []" "generations c d' = []"
      by (auto simp: disk_current_def gens candidates_none map_filter_two)
    with None show ?thesis
      using reload_generations(2) [of c d s] reload_generations(2) [of c d' s] by simp
  next
    case (Some ix)
    have s: "index_candidate c no_faults d ?sl = [(?sl, ix)]"
      "\<forall>ix' \<in> snd ` set (index_candidate c no_faults d (other_slot ?sl)).
         ix_generation ix' < ix_generation ix"
      using assms(1) Some by (simp_all add: disk_current_def)
    obtain ps where ps: "load_and_validate_owned_pages c no_faults d ix = Inr ps"
      using assms(1) Some by (auto simp: disk_current_def)
    have ps': "load_and_validate_owned_pages c no_faults d' ix = Inr ps"
      using keys Some ps by (subst load_and_validate_cong) (auto simp: index_subkeys_def)
    have "\<exists>gs. generations c d = (?sl, ix, ps) # gs"
      unfolding generations_newer [OF act s] by (simp add: valid_generation_load ps)
    moreover have "\<exists>gs. generations c d' = (?sl, ix, ps) # gs"
      unfolding gens s(1) by (simp add: valid_generation_load ps' map_filter_two)
    ultimately show ?thesis
      using reload_generations(1) [of c d _ _ _ _ s] reload_generations(1) [of c d' _ _ _ _ s] Some
      by fastforce
  qed
  then show "current_index (reload c s d') = current_index s"
    "cs_pages (reload c s d') = cs_pages (reload c s d)" by blast+
qed

subsection \<open>Reloading an interrupted commit\<close>

definition same_generation :: "'e codec \<Rightarrow> 'e cow_paged_store \<Rightarrow> dht_record \<Rightarrow> dht_record \<Rightarrow> bool" where
  "same_generation c s d d' \<longleftrightarrow>
     current_index (reload c s d') = current_index s \<and>
     cs_pages (reload c s d') = cs_pages (reload c s d)"

definition full_generation :: "'e codec \<Rightarrow> 'e cow_paged_store \<Rightarrow> dht_record \<Rightarrow> bool" where
  "full_generation c s d' \<longleftrightarrow>
     map_option ix_generation (current_index (reload c s d')) = Some (next_generation s) \<and>
     active_index_slot (reload c s d') = other_slot (active_index_slot s) \<and>
     mset (all_entries (reload c s d')) = mset (all_entries s)"

lemma loaded_entries:
  assumes "load_and_validate_owned_pages c io d ix = Inr ps"
  obtains qs where "load_all c io d (ix_pages ix) = Inr qs" "validate_index_shape ix = None"
    "mset (concat (map lp_entries ps)) = mset (concat (map lp_entries qs))"
proof -
  obtain qs where qs: "load_all c io d (ix_pages ix) = Inr qs" "validate_index_shape ix = None"
    "(let ps = sort_key (\<lambda>p. case lp_descriptor p of None \<Rightarrow> [] | Some ds \<Rightarrow> first_key ds) qs
      in if ps = [] then [empty_page] else ps) = ps"
    using assms by (auto simp: load_and_validate_owned_pages_def Let_def
        split: option.splits sum.splits)
  show ?thesis
  proof (cases "qs = []")
    case True
    with qs(3) show ?thesis
      by (intro that [OF qs(1,2)]) (auto simp: empty_page_def Let_def)
  next
    case False
    then have "sort_key f qs \<noteq> []" for f :: "'a local_page \<Rightarrow> bytes"
      by (metis length_0_conv length_sort)
    with qs(3) show ?thesis
      by (intro that [OF qs(1,2)]) (auto simp: Let_def mset_concat_sort)
  qed
qed

lemma slots_written:
  assumes "disk_current c s d" "commit_plan c cfg s = Inr (dss, ws)"
    and "d' = (foldl put d ws)(other_slot (active_index_slot s) \<mapsto> bs)"
    and "k = active_index_slot s \<or>
      k \<in> set (index_subkeys (current_index s)) \<and> FIRST_DATA_SUBKEY \<le> k"
  shows "d' k = d k"
proof -
  have act: "active_index_slot s \<in> {INDEX_SLOT_A, INDEX_SLOT_B}"
    using assms(1) by (simp add: disk_current_def)
  have "k \<noteq> other_slot (active_index_slot s)" using act assms(4) slots slots(1) [symmetric] by auto
  moreover have "foldl put d ws k = d k"
    by (rule writes_elsewhere [OF assms(2) order_refl]) (use act assms(4) slots in auto)
  ultimately show ?thesis by (simp add: assms(3))
qed

lemma current_subkeys:
  assumes "disk_current c s d" "k \<in> set (index_subkeys (current_index s))"
  shows "FIRST_DATA_SUBKEY \<le> k"
proof -
  obtain ix where ix: "current_index s = Some ix" "k \<in> pd_subkey ` set (ix_pages ix)"
    using assms(2) by (cases "current_index s") (auto simp: index_subkeys_def)
  with assms(1) obtain ps where "load_and_validate_owned_pages c no_faults d ix = Inr ps"
    by (auto simp: disk_current_def)
  then obtain qs where "validate_index_shape ix = None" by (rule loaded_entries)
  with ix(2) show ?thesis using shape_subkeys by auto
qed

lemma crash_safe:
  assumes ok: "codec_ok c" "disk_current c s d" "store_generation s < u64_max"
    "estimated_dht_value_limit (total_subkeys s) \<le> MAX_NETWORK_DHT_VALUE_BYTES"
    and crash: "crash_state c cfg t s d d'"
  shows "same_generation c s d d' \<or> full_generation c s d'"
  using crash
proof cases
  case untouched
  then show ?thesis
    using reload_unchanged [OF ok(2), of d] by (simp add: same_generation_def)
next
  case (pages dss ws ws')
  have "d' k = d k" if "k < FIRST_DATA_SUBKEY \<or> k \<in> set (index_subkeys (current_index s))" for k
    unfolding pages(1) by (rule writes_elsewhere [OF pages(2,3) that])
  then have "same_generation c s d d'"
    unfolding same_generation_def using slots
    by (intro conjI; intro reload_unchanged [OF ok(2)]) simp_all
  then show ?thesis ..
next
  case (index dss ws bs)
  let ?sl = "other_slot (active_index_slot s)"
  let ?ix = "new_index c (no_faults\<lparr>dio_now := t\<rparr>) s (sort_key first_key dss)"
  have len: "length (encode_index c ?ix) \<le> MAX_NETWORK_DHT_VALUE_BYTES" using index(3,4) ok(4) by simp
  have act: "active_index_slot s \<in> {INDEX_SLOT_A, INDEX_SLOT_B}" "?sl < FIRST_DATA_SUBKEY"
    using ok(2) slots by (auto simp: disk_current_def)
  have cand: "index_candidate c no_faults d' ?sl =
      (if validate_index_shape ?ix = None then [(?sl, ?ix)] else [])"
    using ok(1) len by (simp add: index(1,3) index_candidate_def deserialize_def codec_ok_def)
  show ?thesis
  proof (cases "\<exists>ps. load_and_validate_owned_pages c no_faults d' ?ix = Inr ps")
    case True
    then obtain ps where ps: "load_and_validate_owned_pages c no_faults d' ?ix = Inr ps" ..
    then obtain qs where qs: "load_all c no_faults d' (ix_pages ?ix) = Inr qs"
      "validate_index_shape ?ix = None"
      "mset (concat (map lp_entries ps)) = mset (concat (map lp_entries qs))" by (rule loaded_entries)
    obtain gs where "generations c d' = (?sl, ?ix, ps) # gs"
      using completed_generations [OF ok(1-3) index(2) refl len _ qs(2) ps] index(1,3) by auto
    note new = reload_generations(1) [OF this, of s]
    have "\<forall>ds \<in> set dss. FIRST_DATA_SUBKEY \<le> pd_subkey ds"
      using shape_subkeys [OF qs(2)] by simp
    from committed_pages [OF ok(1,2) index(2) ok(4) _ act(2) this, of bs qs] qs(1,3) index(1)
    have "mset (concat (map lp_entries ps)) = mset (all_entries s)" by simp
    with new have "full_generation c s d'" by (simp add: full_generation_def all_entries_def)
    then show ?thesis ..
  next
    case False
    then obtain e where "load_and_validate_owned_pages c no_faults d' ?ix = Inl e"
      by (cases "load_and_validate_owned_pages c no_faults d' ?ix") auto
    then have "\<forall>si \<in> set (index_candidate c no_faults d' ?sl). valid_generation c no_faults d' si = None"
      by (simp add: cand valid_generation_load)
    moreover have "index_candidate c no_faults d' (active_index_slot s) =
        index_candidate c no_faults d (active_index_slot s)"
      by (rule index_candidate_cong, rule slots_written [OF ok(2) index(2,1)]) simp
    moreover have "d' k = d k" if "k \<in> set (index_subkeys (current_index s))" for k
      by (rule slots_written [OF ok(2) index(2,1)]) (use that current_subkeys [OF ok(2)] in simp)
    ultimately have "same_generation c s d d'"
      unfolding same_generation_def by (intro conjI; intro current_generations [OF ok(2)]) simp_all
    then show ?thesis ..
  qed
qed

end
