(* ===== verification/Mailbox_Durable.thy ===== *)
theory Mailbox_Durable
  imports Mailbox_Crash
begin

text \<open>
  What \<open>CowPagedStore::commit\<close> promises: whatever reads and writes fail during the call, the
  record is one of the crash states of the commit; when it returns \<open>true\<close>, the store in memory
  is what a restart would load, and the next commit may start from it.
\<close>

subsection \<open>Reads that succeed do not depend on the faults\<close>

lemma read_faults: "read_from_dht io d k = Inr bs \<Longrightarrow> read_from_dht no_faults d k = Inr bs"
  by (simp add: read_from_dht_def no_faults_def split: option.splits)

lemma load_page_faults:
  assumes "load_page c io d ds = Inr p" shows "load_page c no_faults d ds = Inr p"
proof -
  obtain bs where "read_from_dht io d (pd_subkey ds) = Inr bs"
    using assms by (auto simp: load_page_def split: sum.splits)
  with read_faults [OF this] assms show ?thesis unfolding load_page_def by (simp only: sum.case)
qed

lemma load_all_faults: "load_all c io d dss = Inr qs \<Longrightarrow> load_all c no_faults d dss = Inr qs"
  by (induction dss arbitrary: qs) (auto dest: load_page_faults split: sum.splits)

lemma load_and_validate_faults:
  assumes "load_and_validate_owned_pages c io d ix = Inr ps"
  shows "load_and_validate_owned_pages c no_faults d ix = Inr ps"
proof -
  obtain qs where "load_all c io d (ix_pages ix) = Inr qs"
    using assms by (auto simp: load_and_validate_owned_pages_def split: option.splits sum.splits)
  with load_all_faults [OF this] assms show ?thesis
    unfolding load_and_validate_owned_pages_def by (simp only: sum.case)
qed

subsection \<open>The record after a commit\<close>

lemma write_failed_None:
  "write_failed io ws = None \<Longrightarrow> write_pages io ws d = foldl put d ws"
proof -
  have none: "List.map_filter f ws = [] \<Longrightarrow> filter (\<lambda>w. f w = None) ws = ws"
    for f :: "cow_page_descriptor \<times> bytes \<Rightarrow> string option"
    by (induction ws) (auto simp: List.map_filter_simps split: option.splits)
  show "write_failed io ws = None \<Longrightarrow> write_pages io ws d = foldl put d ws"
    using none [of "\<lambda>w. dio_write io (pd_subkey (fst w))"]
    by (simp add: write_failed_def write_pages_def split: list.splits)
qed

lemma new_index_time:
  "new_index c io s dss = new_index c (no_faults\<lparr>dio_now := dio_now io\<rparr>) s dss"
  by (simp add: new_index_def)

lemma commit_index_record:
  assumes "commit_index c io limit dss (s, txs, d) = (r, s', txs', d')"
  shows "d' = d \<or> length (encode_index c (new_index c io s dss)) \<le> limit \<and>
    d' = d(other_slot (active_index_slot s) \<mapsto> encode_index c (new_index c io s dss))"
  using assms
  by (auto simp: commit_index_def Let_def split: if_splits option.splits sum.splits)

lemma commit_plan_eq:
  "plan_pages c (next_generation s) (min (page_split_threshold cfg)
     (estimated_dht_value_limit (total_subkeys s))) (free_subkeys s)
     (cs_pages (rebalance_dirty_pages c cfg s)) = commit_plan c cfg s"
  by (simp add: commit_plan_def Let_def)

lemma commit_idle: "pending_changes s = 0 \<Longrightarrow> commit c cfg io (s, txs, d) = (Inr False, s, txs, d)"
  unfolding commit_def by simp

lemma commit_dirty:
  assumes "pending_changes s \<noteq> 0"
  shows "commit c cfg io (s, txs, d) =
    (let s' = rebalance_dirty_pages c cfg s
     in case commit_plan c cfg s of
          Inl e \<Rightarrow> (Inl e, s', txs, d)
        | Inr (dss, ws) \<Rightarrow>
           (let txs = txs @ [\<lparr>tx_store_name = cs_name s, tx_package_index = package_index s,
                  tx_generation = next_generation s,
                  target_index_slot = other_slot (active_index_slot s),
                  new_page_subkeys = map (\<lambda>w. pd_subkey (fst w)) ws, tx_started_at = dio_now io\<rparr>]
            in case dio_log io of
                 Some e \<Rightarrow> (Inl (Auth e), s', txs, d)
               | None \<Rightarrow>
                  (case write_failed io ws of
                     Some e \<Rightarrow> (Inl (Dht e), s', txs, write_pages io ws d)
                   | None \<Rightarrow>
                      (case read_back c io (write_pages io ws d) ws of
                         Some e \<Rightarrow> (Inl e, s', txs, write_pages io ws d)
                       | None \<Rightarrow> commit_index c io (estimated_dht_value_limit (total_subkeys s))
                           (sort_key first_key dss) (s', txs, write_pages io ws d)))))"
  using assms unfolding commit_def Let_def by (simp only: prod.case if_False rebalance_frame commit_plan_eq)

lemma commit_cases:
  assumes "commit c cfg io (s, txs, d) = (r, s', txs', d')"
  obtains (idle) "pending_changes s = 0" "r = Inr False" "s' = s" "d' = d"
  | (early) e where "r = Inl e" "s' = rebalance_dirty_pages c cfg s" "d' = d"
  | (pages) e dss ws where "commit_plan c cfg s = Inr (dss, ws)" "r = Inl e"
      "s' = rebalance_dirty_pages c cfg s" "d' = write_pages io ws d"
  | (index) dss ws txs0 where "commit_plan c cfg s = Inr (dss, ws)"
      "read_back c io (foldl put d ws) ws = None"
      "commit_index c io (estimated_dht_value_limit (total_subkeys s)) (sort_key first_key dss)
        (rebalance_dirty_pages c cfg s, txs0, foldl put d ws) = (r, s', txs', d')"
proof (cases "pending_changes s = 0")
  case True
  with assms show ?thesis by (intro idle) (simp_all add: commit_idle)
next
  case False
  note step = assms [unfolded commit_dirty [OF False] Let_def]
  show ?thesis
  proof (cases "commit_plan c cfg s")
    case (Inl e)
    with step show ?thesis by (intro early [of e]) simp_all
  next
    case (Inr plan)
    then obtain dss ws where plan: "commit_plan c cfg s = Inr (dss, ws)" by (cases plan) auto
    show ?thesis
    proof (cases "dio_log io")
      case (Some e)
      with step plan show ?thesis by (intro early [of "Auth e"]) simp_all
    next
      case log: None
      show ?thesis
      proof (cases "write_failed io ws")
        case (Some e)
        with step plan log show ?thesis by (intro pages [OF plan, of "Dht e"]) simp_all
      next
        case ok: None
        show ?thesis
        proof (cases "read_back c io (write_pages io ws d) ws")
          case (Some e)
          with step plan log ok show ?thesis by (intro pages [OF plan, of e]) simp_all
        next
          case None
          with step plan log ok show ?thesis
            by (intro index [OF plan]) (simp_all add: write_failed_None)
        qed
      qed
    qed
  qed
qed

lemma distinct_writes: "distinct (map (\<lambda>w. pd_subkey (fst w)) ws) \<Longrightarrow> distinct ws"
  by (simp add: distinct_map)

lemma commit_crash_state:
  assumes "commit c cfg io (s, txs, d) = (r, s', txs', d')"
  shows "crash_state c cfg (dio_now io) s d d'"
  using assms
proof (cases rule: commit_cases)
  case (pages e dss ws)
  then show ?thesis
    unfolding pages(4) write_pages_def
    by (intro crash_state.pages [OF pages(1)] distinct_filter distinct_writes
        commit_plan_ok(3) [OF pages(1)]) auto
next
  case (index dss ws txs0)
  from commit_index_record [OF index(3)] show ?thesis
  proof
    assume "d' = foldl put d ws"
    then show ?thesis
      using crash_state.pages [OF index(1) order_refl]
        distinct_writes [OF commit_plan_ok(3) [OF index(1)]] by simp
  qed (use crash_state.index [OF index(1) refl] in \<open>simp add: new_index_time [of c io]\<close>)
qed (auto intro: crash_state.untouched)

subsection \<open>Loaded pages are in order\<close>

lemma load_page_ok:
  assumes "load_page c io d ds = Inr p"
  shows "lp_descriptor p = Some ds" "\<not> lp_dirty p" "sorted_wrt (<) (page_keys c p)"
    "first_key ds = first_or_default (page_keys c p)" "last_key ds = last_or_default (page_keys c p)"
proof -
  obtain pg where "validate_page c pg ds = None"
    "p = \<lparr>lp_descriptor = Some ds, lp_entries = pg_entries pg, lp_dirty = False\<rparr>"
    using assms by (auto simp: load_page_def split: sum.splits if_splits option.splits)
  with validate_page_None [of c pg ds] show "lp_descriptor p = Some ds" "\<not> lp_dirty p"
    "sorted_wrt (<) (page_keys c p)" "first_key ds = first_or_default (page_keys c p)"
    "last_key ds = last_or_default (page_keys c p)" by (simp_all add: page_keys_def)
qed

lemma page_keys_range:
  assumes "load_page c io d ds = Inr p" "k \<in> set (page_keys c p)"
  shows "first_key ds \<le> k \<and> k \<le> last_key ds"
  using load_page_ok [OF assms(1)] assms(2) sorted_first sorted_last by metis

lemma loaded_pages_ok:
  assumes "list_all2 (\<lambda>ds p. load_page c io d ds = Inr p) dss ps" "ranges_ordered lo dss = None"
    and "dss \<noteq> []"
  shows "pages_ok c lo ps"
  using assms
proof (induction dss arbitrary: lo ps)
  case (Cons ds dss)
  then obtain p qs where ps: "ps = p # qs" "load_page c io d ds = Inr p"
    "list_all2 (\<lambda>ds p. load_page c io d ds = Inr p) dss qs" by (auto simp: list_all2_Cons1)
  have range: "case lo of None \<Rightarrow> True | Some l \<Rightarrow> l < first_key ds" "first_key ds \<le> last_key ds"
    "ranges_ordered (Some (last_key ds)) dss = None"
    using Cons.prems(2) by (auto simp: not_le split: if_splits option.splits)
  have lo: "above lo k" if "k \<in> set (page_keys c p)" for k
    using range(1) page_keys_range [OF ps(2) that] by (auto simp: above_def split: option.splits)
  show ?case
  proof (cases dss)
    case Nil
    with ps lo load_page_ok(3) [OF ps(2)] show ?thesis by simp
  next
    case (Cons ds' dss')
    with ps(3) obtain q qs' where q: "qs = q # qs'" by (auto simp: list_all2_Cons1)
    have "pages_ok c (Some (last_key ds)) qs"
      by (rule Cons.IH [OF ps(3) range(3)]) (simp add: Cons)
    with q ps lo load_page_ok(1,3) [OF ps(2)] page_keys_range [OF ps(2)] range(1,2)
    show ?thesis by (auto split: option.splits)
  qed
qed simp

lemma ranges_sorted:
  "ranges_ordered lo dss = None \<Longrightarrow>
   sorted (map first_key dss) \<and> (\<forall>l ds. lo = Some l \<longrightarrow> ds \<in> set dss \<longrightarrow> l < first_key ds)"
proof (induction lo dss rule: ranges_ordered.induct)
  case (2 lo ds dss)
  then show ?case by (force simp: not_le split: if_splits option.splits)
qed simp

lemma load_and_validate_ok:
  assumes "load_and_validate_owned_pages c io d ix = Inr ps"
  shows "pages_ok c None ps"
    and "p \<in> set ps \<Longrightarrow> (ps = [empty_page] \<and> ix_pages ix = []) \<or>
      (\<exists>ds \<in> set (ix_pages ix). lp_descriptor p = Some ds \<and> load_page c io d ds = Inr p)"
proof -
  obtain qs where qs: "load_all c io d (ix_pages ix) = Inr qs"
    "ranges_ordered None (ix_pages ix) = None"
    "(let ps = sort_key (\<lambda>p. case lp_descriptor p of None \<Rightarrow> [] | Some ds \<Rightarrow> first_key ds) qs
      in if ps = [] then [empty_page] else ps) = ps"
    using assms by (auto simp: load_and_validate_owned_pages_def validate_index_shape_def Let_def
        split: option.splits sum.splits if_splits)
  note l = load_all_list [OF qs(1)]
  let ?key = "\<lambda>p :: 'a local_page. case lp_descriptor p of None \<Rightarrow> [] | Some ds \<Rightarrow> first_key ds"
  have "map ?key qs = map first_key (ix_pages ix)"
    using l by (induction rule: list_all2_induct) (simp_all add: load_page_ok(1))
  then have "sort_key ?key qs = qs" using ranges_sorted [OF qs(2)] by (simp add: sort_key_id_if_sorted)
  with qs(3) have ps: "ps = (if qs = [] then [empty_page] else qs)" by (simp add: Let_def)
  show "pages_ok c None ps"
  proof (cases "qs = []")
    case True
    with ps show ?thesis by (simp add: empty_page_def page_keys_def)
  next
    case False
    with l have "ix_pages ix \<noteq> []" by auto
    from loaded_pages_ok [OF l qs(2) this] ps False show ?thesis by simp
  qed
  show "(ps = [empty_page] \<and> ix_pages ix = []) \<or>
      (\<exists>ds \<in> set (ix_pages ix). lp_descriptor p = Some ds \<and> load_page c io d ds = Inr p)"
    if "p \<in> set ps"
  proof (cases "qs = []")
    case True
    with l ps show ?thesis by simp
  next
    case False
    with that ps obtain i where i: "i < length qs" "qs ! i = p" by (auto simp: in_set_conv_nth)
    with list_all2_lengthD [OF l] list_all2_nthD2 [OF l i(1)] load_page_ok(1)
    show ?thesis by (intro disjI2 bexI [of _ "ix_pages ix ! i"]) auto
  qed
qed

subsection \<open>A commit that succeeds\<close>

lemma commit_index_True:
  assumes "codec_ok c" "limit \<le> MAX_NETWORK_DHT_VALUE_BYTES"
    and "commit_index c io limit dss (s, txs, d) = (Inr True, s', txs', d')"
  obtains ps where "length (encode_index c (new_index c io s dss)) \<le> limit"
    "d' = d(other_slot (active_index_slot s) \<mapsto> encode_index c (new_index c io s dss))"
    "load_and_validate_owned_pages c no_faults d' (new_index c io s dss) = Inr ps"
    "s' = s\<lparr>previous_index := current_index s, current_index := Some (new_index c io s dss),
            active_index_slot := other_slot (active_index_slot s), cs_pages := ps\<rparr>"
proof -
  let ?ix = "new_index c io s dss" and ?sl = "other_slot (active_index_slot s)"
  have len: "length (encode_index c ?ix) \<le> limit" and dec:
    "deserialize (decode_index c) (encode_index c ?ix) = Inr ?ix"
    using assms by (auto simp: deserialize_def codec_ok_def commit_index_def Let_def split: if_splits)
  have rd: "read_from_dht io (d(?sl \<mapsto> encode_index c ?ix)) ?sl = Inr (encode_index c ?ix)"
    using assms(3) by (auto simp: commit_index_def Let_def read_from_dht_def
        split: if_splits option.splits)
  note step = assms(3) [unfolded commit_index_def Let_def prod.case]
  obtain ps where "d' = d(?sl \<mapsto> encode_index c ?ix)"
    "load_and_validate_owned_pages c io d' ?ix = Inr ps"
    "s' = s\<lparr>previous_index := current_index s, current_index := Some ?ix,
            active_index_slot := ?sl, cs_pages := ps\<rparr>"
    using step by (auto simp: rd dec split: if_splits option.splits sum.splits)
  with len show ?thesis by (intro that) (auto dest: load_and_validate_faults)
qed

lemma commit_success:
  assumes ok: "codec_ok c" "disk_current c s d" "store_generation s < u64_max"
    "estimated_dht_value_limit (total_subkeys s) \<le> MAX_NETWORK_DHT_VALUE_BYTES"
    and run: "commit c cfg io (s, txs, d) = (Inr True, s', txs', d')"
  shows "current_index (reload c s d') = current_index s'"
    and "active_index_slot (reload c s d') = active_index_slot s'"
    and "cs_pages (reload c s d') = cs_pages s'"
    and "mset (all_entries s') = mset (all_entries s)"
    and "store_generation s' = store_generation s + 1"
    and "store_ok c s'" and "disk_current c s' d'"
    and "total_subkeys s' = total_subkeys s"
proof -
  obtain dss ws txs0 where plan: "commit_plan c cfg s = Inr (dss, ws)"
    and fin: "commit_index c io (estimated_dht_value_limit (total_subkeys s)) (sort_key first_key dss)
        (rebalance_dirty_pages c cfg s, txs0, foldl put d ws) = (Inr True, s', txs', d')"
    using run by (cases rule: commit_cases) auto
  let ?ix = "new_index c io s (sort_key first_key dss)" and ?sl = "other_slot (active_index_slot s)"
  obtain ps where len: "length (encode_index c ?ix) \<le> estimated_dht_value_limit (total_subkeys s)"
    and d': "d' = (foldl put d ws)(?sl \<mapsto> encode_index c ?ix)"
    and ps: "load_and_validate_owned_pages c no_faults d' ?ix = Inr ps"
    and s': "s' = (rebalance_dirty_pages c cfg s)\<lparr>previous_index := current_index s,
        current_index := Some ?ix, active_index_slot := ?sl, cs_pages := ps\<rparr>"
    using commit_index_True [OF ok(1,4) fin] by (auto simp: rebalance_frame)
  have len': "length (encode_index c ?ix) \<le> MAX_NETWORK_DHT_VALUE_BYTES" using len ok(4) by simp
  have act: "active_index_slot s \<in> {INDEX_SLOT_A, INDEX_SLOT_B}" using ok(2) by (simp add: disk_current_def)
  then have other: "other_slot ?sl = active_index_slot s" "?sl < FIRST_DATA_SUBKEY"
    "?sl \<in> {INDEX_SLOT_A, INDEX_SLOT_B}" by (auto simp: slots slots(1) [symmetric])
  obtain qs where qs: "load_all c no_faults d' (ix_pages ?ix) = Inr qs"
    "validate_index_shape ?ix = None"
    "mset (concat (map lp_entries ps)) = mset (concat (map lp_entries qs))" by (rule loaded_entries [OF ps])
  obtain gs where "generations c d' = (?sl, ?ix, ps) # gs"
    using completed_generations [OF ok(1-3) plan refl len' d' qs(2) ps] by auto
  note new = reload_generations(1) [OF this, of s]
  show "current_index (reload c s d') = current_index s'"
    "active_index_slot (reload c s d') = active_index_slot s'"
    "cs_pages (reload c s d') = cs_pages s'" using new by (simp_all add: s')
  have "\<forall>ds \<in> set dss. FIRST_DATA_SUBKEY \<le> pd_subkey ds" using shape_subkeys [OF qs(2)] by simp
  from committed_pages [OF ok(1,2) plan ok(4) _ other(2) this, of _ qs] qs(1,3)
  show "mset (all_entries s') = mset (all_entries s)"
    by (simp add: s' d' all_entries_def)
  show gen: "store_generation s' = store_generation s + 1"
    using next_generation_newer [OF ok(3)] by (simp add: s' store_generation_def)
  show "store_ok c s'" using load_and_validate_ok(1) [OF ps] by (simp add: s' store_ok_def)
  show "total_subkeys s' = total_subkeys s" by (simp add: s')
  have cand: "index_candidate c no_faults d' ?sl = [(?sl, ?ix)]"
    using ok(1) len' qs(2) by (simp add: d' index_candidate_def deserialize_def codec_ok_def)
  have "index_candidate c no_faults d' (active_index_slot s) =
      index_candidate c no_faults d (active_index_slot s)"
    by (rule index_candidate_cong, rule slots_written [OF ok(2) plan d']) simp
  moreover have "ix_generation ix' < ix_generation ?ix"
    if "ix' \<in> snd ` set (index_candidate c no_faults d (active_index_slot s))" for ix'
    by (rule active_older [OF ok(2,3) that refl])
  moreover have "load_page c no_faults d' ds = Inr p \<and> pd_subkey ds \<in> set (index_subkeys (Some ?ix))"
    if "p \<in> set ps" "lp_descriptor p = Some ds" for p ds
    using load_and_validate_ok(2) [OF ps that(1)] that
    by (auto simp: empty_page_def index_subkeys_def)
  ultimately show "disk_current c s' d'"
    using cand other ps by (simp add: disk_current_def s')
qed

end
