(* ===== verification/Mailbox_Refine.thy ===== *)
theory Mailbox_Refine
  imports Mailbox_Durable
begin

text \<open>
  The interface of a keyed store, as the mailbox runtime uses it, and the paged store as an
  instance: its operations never fail on a well-formed store and refine lookup, update and
  deletion in the map of its entries.
\<close>

datatype 'e store_change = Put 'e | Del bytes

locale keyed_store =
  fixes inv :: "'s \<Rightarrow> bool"
    and view :: "'s \<Rightarrow> bytes \<Rightarrow> 'e option"
    and key :: "'e \<Rightarrow> bytes"
    and ins :: "'e \<Rightarrow> 's \<Rightarrow> 's option"
    and del :: "bytes \<Rightarrow> 's \<Rightarrow> ('e option \<times> 's) option"
    and get :: "bytes \<Rightarrow> 's \<Rightarrow> 'e option option"
  assumes get: "inv s \<Longrightarrow> get k s = Some (view s k)"
    and ins: "inv s \<Longrightarrow> \<exists>s'. ins e s = Some s' \<and> inv s' \<and> view s' = (view s)(key e \<mapsto> e)"
    and del: "inv s \<Longrightarrow> \<exists>s'. del k s = Some (view s k, s') \<and> inv s' \<and> view s' = (view s)(k := None)"

fun run_changes ::
  "('e \<Rightarrow> 's \<Rightarrow> 's option) \<Rightarrow> (bytes \<Rightarrow> 's \<Rightarrow> ('e option \<times> 's) option) \<Rightarrow>
   'e store_change list \<Rightarrow> 's \<Rightarrow> 's option" where
  "run_changes ins del [] s = Some s"
| "run_changes ins del (Put e # cs) s =
     (case ins e s of None \<Rightarrow> None | Some s' \<Rightarrow> run_changes ins del cs s')"
| "run_changes ins del (Del k # cs) s =
     (case del k s of None \<Rightarrow> None | Some (_, s') \<Rightarrow> run_changes ins del cs s')"

fun change_map :: "('e \<Rightarrow> bytes) \<Rightarrow> 'e store_change \<Rightarrow> (bytes \<Rightarrow> 'e option) \<Rightarrow> (bytes \<Rightarrow> 'e option)"
  where
  "change_map key (Put e) m = m(key e \<mapsto> e)"
| "change_map key (Del k) m = m(k := None)"

context keyed_store
begin

lemma run_refines:
  "inv s \<Longrightarrow> \<exists>s'. run_changes ins del cs s = Some s' \<and> inv s' \<and>
     view s' = fold (change_map key) cs (view s)"
proof (induction cs arbitrary: s)
  case (Cons ch cs)
  show ?case
  proof (cases ch)
    case (Put e)
    obtain s1 where "ins e s = Some s1" "inv s1" "view s1 = (view s)(key e \<mapsto> e)"
      using ins [OF Cons.prems] by blast
    with Cons.IH [of s1] Put show ?thesis by (simp add: fun_upd_def)
  next
    case (Del k)
    obtain s1 where "del k s = Some (view s k, s1)" "inv s1" "view s1 = (view s)(k := None)"
      using del [OF Cons.prems] by blast
    with Cons.IH [of s1] Del show ?thesis by (simp add: fun_upd_def)
  qed
qed simp

lemma get_after_run:
  assumes "inv s" "run_changes ins del cs s = Some s'"
  shows "get k s' = Some (fold (change_map key) cs (view s) k)"
  using run_refines [OF assms(1), of cs] assms(2) get by auto

end

subsection \<open>The paged store is a keyed store\<close>

lemma update_page:
  assumes "cs_pages s = xs @ p # ys" "i = length xs"
  shows "(cs_pages s)[i := q] = xs @ q # ys" "i < length (cs_pages s)" "cs_pages s ! i = p"
  using assms by simp_all

lemma get_store_map:
  assumes "store_ok c s" shows "get_entry c k s = Some (store_map c s k)"
proof -
  obtain xs p ys where l: "cs_pages s = xs @ p # ys" "find_page_index k s = length xs"
    "sorted_wrt (<) (page_keys c p)" "\<forall>q \<in> set xs \<union> set ys. k \<notin> set (page_keys c q)"
    using find_page [OF assms] by metis
  note sorted = l(3) [unfolded page_keys_def]
  have v: "store_map c s k = entries_map c (lp_entries p) k"
    using entries_map_pages [OF l(4)] l(1) by (simp add: store_map_entries all_entries_def)
  show ?thesis
  proof (cases "binary_search c k (lp_entries p)")
    case (Inl j)
    have "page_key c e \<noteq> k" if "e \<in> set (lp_entries p)" for e
    proof -
      have "e \<in> set (take j (lp_entries p)) \<union> set (drop j (lp_entries p))"
        using that by (metis append_take_drop_id set_append)
      with binary_search_Inl [OF Inl sorted] show ?thesis by auto
    qed
    then have "entries_map c (lp_entries p) k = None" by (auto simp: entries_map_None)
    with v Inl l(1,2) show ?thesis by (simp add: get_entry_def)
  next
    case (Inr j)
    from entries_map_nth [OF _ sorted, of j] binary_search_Inr [OF Inr]
    have "entries_map c (lp_entries p) k = Some (lp_entries p ! j)" by auto
    with v Inr l(1,2) show ?thesis by (simp add: get_entry_def)
  qed
qed

lemma upsert_store_map:
  assumes "store_ok c s"
  shows "\<exists>s'. upsert c e s = Some s' \<and> store_ok c s' \<and>
    store_map c s' = (store_map c s)(page_key c e \<mapsto> e)"
proof -
  let ?k = "page_key c e"
  obtain xs p ys where l: "cs_pages s = xs @ p # ys" "find_page_index ?k s = length xs"
    "sorted_wrt (<) (page_keys c p)" "\<forall>q \<in> set xs \<union> set ys. ?k \<notin> set (page_keys c q)"
    "\<forall>es d. sorted_wrt (<) (map (page_key c) es) \<longrightarrow>
      page_key c ` set es \<subseteq> insert ?k (set (page_keys c p)) \<longrightarrow>
      pages_ok c None (xs @ p\<lparr>lp_entries := es, lp_dirty := d\<rparr> # ys)" by (rule find_page [OF assms])
  note sorted = l(3) [unfolded page_keys_def]
  define es where "es = (case binary_search c ?k (lp_entries p) of
      Inr j \<Rightarrow> (lp_entries p)[j := e]
    | Inl j \<Rightarrow> take j (lp_entries p) @ e # drop j (lp_entries p))"
  have es: "sorted_wrt (<) (map (page_key c) es) \<and>
      entries_map c es = (entries_map c (lp_entries p))(?k \<mapsto> e) \<and>
      page_key c ` set es \<subseteq> insert ?k (set (page_keys c p))"
  proof (cases "binary_search c ?k (lp_entries p)")
    case (Inl j)
    from insert_sorted [OF Inl sorted, of es] show ?thesis by (auto simp: es_def Inl page_keys_def)
  next
    case (Inr j)
    from binary_search_Inr [OF Inr] replace_sorted [OF _ _ sorted, of j e]
    have rep: "map (page_key c) es = map (page_key c) (lp_entries p)"
      "entries_map c es = (entries_map c (lp_entries p))(?k \<mapsto> e)" by (simp_all add: es_def Inr)
    have "page_key c ` set es = set (map (page_key c) es)" by simp
    also have "\<dots> = set (page_keys c p)" unfolding rep(1) page_keys_def ..
    finally have "page_key c ` set es \<subseteq> insert ?k (set (page_keys c p))" by blast
    moreover have "sorted_wrt (<) (map (page_key c) es)" unfolding rep(1) by (rule sorted)
    ultimately show ?thesis using rep(2) by blast
  qed
  let ?s = "s\<lparr>cs_pages := xs @ p\<lparr>lp_entries := es, lp_dirty := True\<rparr> # ys\<rparr>"
  have "upsert c e s = Some ?s"
    using l(1,2) by (simp add: upsert_def Let_def es_def update_page [OF l(1)] split: sum.split)
  moreover have "store_ok c ?s" using l(5) es by (simp add: store_ok_def)
  moreover have "store_map c ?s = (store_map c s)(?k \<mapsto> e)"
    using entries_map_replaced [OF l(4), of es p "Some e" True] es l(1)
    by (simp add: store_map_entries all_entries_def)
  ultimately show ?thesis by blast
qed

lemma remove_store_map:
  assumes "store_ok c s"
  shows "\<exists>s'. remove_entry c k s = Some (store_map c s k, s') \<and> store_ok c s' \<and>
    store_map c s' = (store_map c s)(k := None)"
proof -
  obtain xs p ys where l: "cs_pages s = xs @ p # ys" "find_page_index k s = length xs"
    "sorted_wrt (<) (page_keys c p)" "\<forall>q \<in> set xs \<union> set ys. k \<notin> set (page_keys c q)"
    "\<forall>es d. sorted_wrt (<) (map (page_key c) es) \<longrightarrow>
      page_key c ` set es \<subseteq> insert k (set (page_keys c p)) \<longrightarrow>
      pages_ok c None (xs @ p\<lparr>lp_entries := es, lp_dirty := d\<rparr> # ys)" by (rule find_page [OF assms])
  note sorted = l(3) [unfolded page_keys_def]
  show ?thesis
  proof (cases "binary_search c k (lp_entries p)")
    case (Inl j)
    have "get_entry c k s = Some None" using Inl l(1,2) by (simp add: get_entry_def)
    with get_store_map [OF assms] have "store_map c s k = None" by simp
    with assms l(1,2) Inl show ?thesis by (simp add: remove_entry_def fun_upd_idem)
  next
    case (Inr j)
    let ?es = "remove_at j (lp_entries p)"
    have g: "store_map c s k = Some (lp_entries p ! j)"
      using get_store_map [OF assms, of k] Inr l(1,2) by (simp add: get_entry_def)
    note at = binary_search_Inr [OF Inr]
    note rem = remove_sorted [OF _ sorted, of j]
    let ?s = "s\<lparr>cs_pages := xs @ p\<lparr>lp_entries := ?es, lp_dirty := True\<rparr> # ys\<rparr>"
    have "remove_entry c k s = Some (Some (lp_entries p ! j), ?s)"
      using l(1,2) Inr by (simp add: remove_entry_def)
    moreover have "store_ok c ?s" using l(5) rem at by (auto simp: store_ok_def page_keys_def)
    moreover have "store_map c ?s = (store_map c s)(k := None)"
      using entries_map_replaced [OF l(4), of ?es p None True] rem at l(1)
      by (simp add: store_map_entries all_entries_def)
    ultimately show ?thesis using g by auto
  qed
qed

interpretation paged: keyed_store "store_ok c" "store_map c" "page_key c" "upsert c"
  "remove_entry c" "get_entry c" for c
  by unfold_locales (simp_all only: get_store_map upsert_store_map remove_store_map)

end
