(* ===== verification/Mailbox_Quota.thy ===== *)
theory Mailbox_Quota
  imports Mailbox_Refine
begin

text \<open>
  The quota counters of a mailbox custodian (\<open>src/mailbox/quota.rs\<close>): how many active messages it
  holds per sender, per sender and recipient, per recipient and per overflow record, and the
  records they are counted from (\<open>protocol.rs\<close>). The counters are a cache: they are changed with
  every pointer that is added or removed, and can be rebuilt from the stores.
\<close>

record mail_source_pointer =
  message_id :: bytes
  sender_main_dht :: record_key
  mail_send_dht :: record_key
  posted_at :: nat
  bumped_at :: nat
  requested_expires_at :: nat
  first_observed_at :: nat
  last_observed_at :: nat
  last_verified_at :: nat
  failed_verification_count :: nat

datatype recipient_source_storage =
    Inline "mail_source_pointer list"
  | Overflow (overflow_key: record_key) (overflow_epoch: bytes) (overflow_entry_count: nat)
      (overflow_size: nat) (overflow_digest: bytes) (below_since: "nat option")

record mailbox_recipient_entry =
  recipient_main_dht :: record_key
  storage :: recipient_source_storage
  newest_posted_at :: nat
  newest_first_seen_at :: nat
  last_recipient_check :: nat
  last_sender_check :: nat

type_synonym mailbox_store = "mailbox_recipient_entry cow_paged_store"
type_synonym overflow_stores = "(record_key \<times> mail_source_pointer cow_paged_store) list"

definition MAILBOX_QUOTA_STATE_VERSION :: nat where "MAILBOX_QUOTA_STATE_VERSION = 1"

type_synonym counters = "(record_key \<times> nat) list"

record mailbox_quota_state =
  quota_version :: nat
  quota_generation :: nat
  rebuilt_at :: nat
  sender_counts :: counters
  sender_recipient_counts :: "(record_key \<times> counters) list"
  recipient_counts :: counters
  overflow_record_counts :: counters

definition quota_default :: mailbox_quota_state where
  "quota_default =
     \<lparr>quota_version = MAILBOX_QUOTA_STATE_VERSION, quota_generation = 0, rebuilt_at = 0,
      sender_counts = [], sender_recipient_counts = [], recipient_counts = [],
      overflow_record_counts = []\<rparr>"

subsection \<open>Counter maps\<close>

definition increment_map :: "'k \<Rightarrow> ('k \<times> nat) list \<Rightarrow> ('k \<times> nat) list" where
  "increment_map k m = amodify k (\<lambda>v. sat_add u32_max v 1) (or_insert k 0 m)"

definition increment_nested_map ::
  "'k \<times> 'l \<Rightarrow> ('k \<times> ('l \<times> nat) list) list \<Rightarrow> ('k \<times> ('l \<times> nat) list) list" where
  "increment_nested_map kl m = amodify (fst kl) (increment_map (snd kl)) (or_insert (fst kl) [] m)"

definition decrement_map :: "'k \<Rightarrow> ('k \<times> nat) list \<Rightarrow> ('k \<times> nat) list" where
  "decrement_map k m =
    (case map_of m k of
       Some v \<Rightarrow> if 1 < v then AList.update k (v - 1) m else AList.delete k m
     | None \<Rightarrow> m)"

definition decrement_nested_map ::
  "'k \<times> 'l \<Rightarrow> ('k \<times> ('l \<times> nat) list) list \<Rightarrow> ('k \<times> ('l \<times> nat) list) list" where
  "decrement_nested_map kl m =
    (case map_of m (fst kl) of
       Some inner \<Rightarrow>
         (let inner = decrement_map (snd kl) inner
          in if inner = [] then AList.delete (fst kl) m else AList.update (fst kl) inner m)
     | None \<Rightarrow> m)"

text \<open>Equality of hash maps, whose values are compared with \<open>eq\<close>.\<close>

definition same_map :: "('v \<Rightarrow> 'v \<Rightarrow> bool) \<Rightarrow> ('k \<times> 'v) list \<Rightarrow> ('k \<times> 'v) list \<Rightarrow> bool" where
  "same_map eq m m' \<longleftrightarrow> list_all (\<lambda>k. rel_option eq (map_of m k) (map_of m' k)) (map fst (m @ m'))"

subsection \<open>The operations\<close>

definition same_counts :: "mailbox_quota_state \<Rightarrow> mailbox_quota_state \<Rightarrow> bool" where
  "same_counts q q' \<longleftrightarrow>
     same_map (=) (sender_counts q) (sender_counts q') \<and>
     same_map (same_map (=)) (sender_recipient_counts q) (sender_recipient_counts q') \<and>
     same_map (=) (recipient_counts q) (recipient_counts q') \<and>
     same_map (=) (overflow_record_counts q) (overflow_record_counts q')"

definition tally :: "('k \<times> nat) list \<Rightarrow> 'k \<Rightarrow> nat" where
  "tally m k = (case map_of m k of Some v \<Rightarrow> v | None \<Rightarrow> 0)"

definition nested_tally :: "('k \<times> ('l \<times> nat) list) list \<Rightarrow> 'k \<times> 'l \<Rightarrow> nat" where
  "nested_tally m kl = (case map_of m (fst kl) of Some inner \<Rightarrow> tally inner (snd kl) | None \<Rightarrow> 0)"

definition ensure_can_add ::
  "mailbox_config \<Rightarrow> record_key \<Rightarrow> mail_source_pointer \<Rightarrow> record_key option \<Rightarrow>
   mailbox_quota_state \<Rightarrow> mailbox_error option" where
  "ensure_can_add cfg recipient p overflow_record q =
    (let sender = sender_main_dht p in
     if active_messages_per_sender cfg \<le> tally (sender_counts q) sender
     then Some (QuotaExceeded ''custodian messages per sender'')
     else if active_messages_per_sender_recipient cfg \<le>
       nested_tally (sender_recipient_counts q) (sender, recipient)
     then Some (QuotaExceeded ''custodian messages per sender-recipient'')
     else if active_messages_per_recipient cfg \<le> tally (recipient_counts q) recipient
     then Some (QuotaExceeded ''custodian messages per recipient'')
     else case overflow_record of
       None \<Rightarrow> None
     | Some k \<Rightarrow>
        if active_messages_per_overflow_record cfg \<le> tally (overflow_record_counts q) k
        then Some (QuotaExceeded ''messages in one overflow record'')
        else None)"

definition next_quota_generation :: "mailbox_quota_state \<Rightarrow> mailbox_quota_state" where
  "next_quota_generation q = q\<lparr>quota_generation := max 1 (sat_add u64_max (quota_generation q) 1)\<rparr>"

definition add_pointer_counts ::
  "record_key \<Rightarrow> mail_source_pointer \<Rightarrow> mailbox_quota_state \<Rightarrow> mailbox_quota_state" where
  "add_pointer_counts recipient p q =
    (let sender = sender_main_dht p in
     q\<lparr>sender_counts := increment_map sender (sender_counts q),
       sender_recipient_counts :=
         increment_nested_map (sender, recipient) (sender_recipient_counts q),
       recipient_counts := increment_map recipient (recipient_counts q)\<rparr>)"

definition note_added ::
  "record_key \<Rightarrow> mail_source_pointer \<Rightarrow> record_key option \<Rightarrow>
   mailbox_quota_state \<Rightarrow> mailbox_quota_state" where
  "note_added recipient p overflow_record q =
    (let q = add_pointer_counts recipient p q;
         q = (case overflow_record of
                Some k \<Rightarrow> q\<lparr>overflow_record_counts := increment_map k (overflow_record_counts q)\<rparr>
              | None \<Rightarrow> q)
     in next_quota_generation q)"

definition note_removed ::
  "record_key \<Rightarrow> mail_source_pointer \<Rightarrow> record_key option \<Rightarrow>
   mailbox_quota_state \<Rightarrow> mailbox_quota_state" where
  "note_removed recipient p overflow_record q =
    (let sender = sender_main_dht p;
         q = q\<lparr>sender_counts := decrement_map sender (sender_counts q),
               sender_recipient_counts :=
                 decrement_nested_map (sender, recipient) (sender_recipient_counts q),
               recipient_counts := decrement_map recipient (recipient_counts q)\<rparr>;
         q = (case overflow_record of
                Some k \<Rightarrow> q\<lparr>overflow_record_counts := decrement_map k (overflow_record_counts q)\<rparr>
              | None \<Rightarrow> q)
     in next_quota_generation q)"

definition set_overflow_count ::
  "record_key \<Rightarrow> nat \<Rightarrow> mailbox_quota_state \<Rightarrow> mailbox_quota_state" where
  "set_overflow_count k n q =
     next_quota_generation (q\<lparr>overflow_record_counts :=
       (if n = 0 then AList.delete k (overflow_record_counts q)
        else AList.update k (min n u32_max) (overflow_record_counts q))\<rparr>)"

definition remove_overflow_record :: "record_key \<Rightarrow> mailbox_quota_state \<Rightarrow> mailbox_quota_state" where
  "remove_overflow_record k q =
    (case map_of (overflow_record_counts q) k of
       Some _ \<Rightarrow> next_quota_generation
         (q\<lparr>overflow_record_counts := AList.delete k (overflow_record_counts q)\<rparr>)
     | None \<Rightarrow> q)"

text \<open>Rebuilding: every pointer of a recipient is counted once.\<close>

type_synonym rebuild_state = "(record_key \<times> bytes) list \<times> mailbox_quota_state \<times> nat"

fun count_sources ::
  "record_key \<Rightarrow> mail_source_pointer list \<Rightarrow> rebuild_state \<Rightarrow> rebuild_state" where
  "count_sources r [] st = st"
| "count_sources r (p # ps) (seen, q, n) =
     (if (r, message_id p) \<in> set seen then count_sources r ps (seen, q, n)
      else count_sources r ps
        ((r, message_id p) # seen, add_pointer_counts r p q, sat_add u32_max n 1))"

fun rebuild_entries ::
  "overflow_stores \<Rightarrow> mailbox_recipient_entry list \<Rightarrow>
   (record_key \<times> bytes) list \<Rightarrow> mailbox_quota_state \<Rightarrow> mailbox_quota_state" where
  "rebuild_entries ovs [] seen q = q"
| "rebuild_entries ovs (e # es) seen q =
     (let r = recipient_main_dht e in
      case storage e of
        Inline sources \<Rightarrow>
          (let (seen, q, _) = count_sources r sources (seen, q, 0)
           in rebuild_entries ovs es seen q)
      | Overflow record_key _ _ _ _ _ \<Rightarrow>
          (let sources = (case map_of ovs r of Some s \<Rightarrow> all_entries s | None \<Rightarrow> []);
               (seen, q, n) = count_sources r sources (seen, q, 0);
               q = (if n \<noteq> 0
                    then q\<lparr>overflow_record_counts :=
                             AList.update record_key n (overflow_record_counts q)\<rparr>
                    else q)
           in rebuild_entries ovs es seen q))"

definition rebuild ::
  "nat \<Rightarrow> mailbox_store option \<Rightarrow> overflow_stores \<Rightarrow> mailbox_quota_state" where
  "rebuild now mailbox ovs =
    (let q = quota_default\<lparr>quota_generation := 1, rebuilt_at := now\<rparr>
     in case mailbox of None \<Rightarrow> q | Some s \<Rightarrow> rebuild_entries ovs (all_entries s) [] q)"

subsection \<open>Counter maps as tallies\<close>

definition tally_ok :: "('k \<times> nat) list \<Rightarrow> bool" where
  "tally_ok m \<longleftrightarrow> keys_distinct m \<and> (\<forall>v \<in> snd ` set m. 0 < v)"

definition nested_ok :: "('k \<times> ('l \<times> nat) list) list \<Rightarrow> bool" where
  "nested_ok m \<longleftrightarrow> keys_distinct m \<and> (\<forall>inner \<in> snd ` set m. inner \<noteq> [] \<and> tally_ok inner)"

text \<open>What the counting relies on of a map of counters.\<close>

locale tally_map =
  fixes inv :: "'m \<Rightarrow> bool"
    and view :: "'m \<Rightarrow> 'k \<Rightarrow> nat"
    and inc :: "'k \<Rightarrow> 'm \<Rightarrow> 'm"
    and dec :: "'k \<Rightarrow> 'm \<Rightarrow> 'm"
  assumes inc_inv: "inv m \<Longrightarrow> inv (inc k m)"
    and inc_view: "inv m \<Longrightarrow> view (inc k m) = (view m)(k := sat_add u32_max (view m k) 1)"
    and dec_inv: "inv m \<Longrightarrow> inv (dec k m)"
    and dec_view: "inv m \<Longrightarrow> view (dec k m) = (view m)(k := view m k - 1)"

text \<open>Such a map counts a multiset.\<close>

definition counts :: "('m \<Rightarrow> bool) \<Rightarrow> ('m \<Rightarrow> 'k \<Rightarrow> nat) \<Rightarrow> 'm \<Rightarrow> 'k multiset \<Rightarrow> bool" where
  "counts ok view m M \<longleftrightarrow> ok m \<and> view m = count M"

context tally_map
begin

lemma counts_add:
  assumes "counts inv view m M" "count M k < u32_max"
  shows "counts inv view (inc k m) (add_mset k M)"
  using assms inc_inv [of m k] inc_view [of m k]
  by (auto simp: counts_def fun_eq_iff sat_add_exact)

lemma counts_remove:
  assumes "counts inv view m (add_mset k M)"
  shows "counts inv view (dec k m) M"
  using assms dec_inv [of m k] dec_view [of m k] by (auto simp: counts_def fun_eq_iff)

end

lemma all_vals:
  "keys_distinct m \<Longrightarrow> (\<forall>v \<in> snd ` set m. P v) \<longleftrightarrow> (\<forall>k v. map_of m k = Some v \<longrightarrow> P v)"
  by (auto simp: in_set_iff_map_of dest: map_of_in_vals)

lemma tally_ok_iff: "tally_ok m \<longleftrightarrow> keys_distinct m \<and> (\<forall>k. map_of m k \<noteq> Some 0)"
proof -
  have "(\<forall>k v. map_of m k = Some v \<longrightarrow> 0 < v) \<longleftrightarrow> (\<forall>k. map_of m k \<noteq> Some 0)"
    by (metis gr0I less_numeral_extra(3))
  then show ?thesis using all_vals [of m "\<lambda>v. 0 < v"] by (metis tally_ok_def)
qed

lemma tally_ok_val: "tally_ok m \<Longrightarrow> map_of m k = Some v \<Longrightarrow> 0 < v"
  by (metis tally_ok_iff gr0I)

lemma tally_increment: "tally (increment_map k m) l =
    (if l = k then sat_add u32_max (tally m k) 1 else tally m l)"
  by (simp add: tally_def increment_map_def store_simps split: option.split)

lemma tally_decrement: "tally_ok m \<Longrightarrow>
    tally (decrement_map k m) l = (if l = k then tally m k - 1 else tally m l)"
  using tally_ok_val [of m k] by (auto simp: tally_def decrement_map_def store_simps split: option.split)

lemma nested_ok_iff:
  "nested_ok m \<longleftrightarrow> keys_distinct m \<and>
     (\<forall>k inner. map_of m k = Some inner \<longrightarrow> inner \<noteq> [] \<and> tally_ok inner)"
  using all_vals [of m "\<lambda>inner. inner \<noteq> [] \<and> tally_ok inner"] by (auto simp: nested_ok_def)

lemma tally_ok_increment: "tally_ok m \<Longrightarrow> tally_ok (increment_map k m)"
  by (auto simp: tally_ok_iff increment_map_def store_simps sat_add_def u32_max_def)

lemma increment_nonempty: "increment_map k m \<noteq> []"
proof
  assume "increment_map k m = []"
  then have "k \<notin> fst ` set (increment_map k m)" by simp
  then show False by (simp add: increment_map_def)
qed

lemma tally_ok_decrement: "tally_ok m \<Longrightarrow> tally_ok (decrement_map k m)"
  by (auto simp: tally_ok_iff decrement_map_def store_simps split: option.split)

interpretation flat: tally_map tally_ok tally increment_map decrement_map
  by unfold_locales
    (simp_all add: tally_ok_increment tally_ok_decrement tally_increment tally_decrement fun_eq_iff)

lemma tally_Nil [simp]: "tally [] k = 0" "tally_ok []" "nested_tally [] kl = 0" "nested_ok []"
  by (simp_all add: tally_def nested_tally_def tally_ok_def nested_ok_def)

lemma nested_inner: "nested_ok m \<Longrightarrow> map_of m k = Some inner \<Longrightarrow> inner \<noteq> [] \<and> tally_ok inner"
  by (simp add: nested_ok_iff)

lemma nested_ok_increment: "nested_ok m \<Longrightarrow> nested_ok (increment_nested_map kl m)"
  by (auto simp: nested_ok_iff increment_nested_map_def store_simps increment_nonempty
      tally_ok_increment split: option.splits)

lemma nested_ok_decrement:
  assumes "nested_ok m" shows "nested_ok (decrement_nested_map kl m)"
proof (cases "map_of m (fst kl)")
  case (Some inner)
  with nested_inner [OF assms] have "tally_ok (decrement_map (snd kl) inner)"
    by (simp add: tally_ok_decrement)
  with assms Some show ?thesis
    by (auto simp: nested_ok_iff decrement_nested_map_def Let_def store_simps)
qed (use assms in \<open>simp add: decrement_nested_map_def\<close>)

lemma nested_tally_increment: "nested_tally (increment_nested_map k m) l =
    (if l = k then sat_add u32_max (nested_tally m k) 1 else nested_tally m l)"
  by (cases k; cases l)
    (auto simp: nested_tally_def increment_nested_map_def store_simps tally_increment
      split: option.split)

lemma nested_tally_decrement:
  assumes "nested_ok m"
  shows "nested_tally (decrement_nested_map k m) l =
    (if l = k then nested_tally m k - 1 else nested_tally m l)"
proof (cases "map_of m (fst k)")
  case None
  then show ?thesis by (simp add: nested_tally_def decrement_nested_map_def)
next
  case (Some inner)
  note dec = tally_decrement [OF conjunct2 [OF nested_inner [OF assms Some]], of "snd k"]
  have emp: "tally inner i = (if i = snd k then tally inner i else 0)" "tally inner (snd k) \<le> 1"
    if "decrement_map (snd k) inner = []" for i
    using dec [of i] dec [of "snd k"] by (simp_all add: that split: if_splits)
  show ?thesis
  proof (cases "fst l = fst k")
    case True
    then show ?thesis
      using Some dec [of "snd l"] emp(1) [of "snd l"] emp(2)
      by (auto simp: nested_tally_def decrement_nested_map_def Let_def store_simps prod_eq_iff
          split: if_splits)
  next
    case False
    then have "l \<noteq> k" by auto
    with False Some show ?thesis
      by (simp add: nested_tally_def decrement_nested_map_def Let_def store_simps)
  qed
qed

interpretation nested: tally_map nested_ok nested_tally increment_nested_map decrement_nested_map
  by unfold_locales
    (simp_all add: nested_ok_increment nested_ok_decrement nested_tally_increment
      nested_tally_decrement fun_eq_iff)

end
