(* ===== verification/Mailbox_Counters.thy ===== *)
theory Mailbox_Counters
  imports Mailbox_Quota
begin

text \<open>
  What the quota counters count. \<open>P\<close> is the multiset of the (sender, recipient) pairs of the
  pointers held, \<open>R\<close> the multiset of the overflow records they lie in; \<open>quota_counts q P R\<close> says
  that the counters are exact. Every operation of \<open>quota.rs\<close> moves them as its name says, and a
  rebuild from the stores counts the pointers in them.
\<close>

definition quota_counts ::
  "mailbox_quota_state \<Rightarrow> (record_key \<times> record_key) multiset \<Rightarrow> record_key multiset \<Rightarrow> bool" where
  "quota_counts q P R \<longleftrightarrow>
     counts tally_ok tally (sender_counts q) (image_mset fst P) \<and>
     counts nested_ok nested_tally (sender_recipient_counts q) P \<and>
     counts tally_ok tally (recipient_counts q) (image_mset snd P) \<and>
     counts tally_ok tally (overflow_record_counts q) R"

text \<open>No counter of \<open>P\<close> needs more than 32 bits.\<close>

definition fits_u32 :: "(record_key \<times> record_key) multiset \<Rightarrow> bool" where
  "fits_u32 P \<longleftrightarrow> (\<forall>k. count (image_mset fst P) k \<le> u32_max \<and> count (image_mset snd P) k \<le> u32_max)"

definition within_limits ::
  "mailbox_config \<Rightarrow> (record_key \<times> record_key) multiset \<Rightarrow> record_key multiset \<Rightarrow> bool" where
  "within_limits cfg P R \<longleftrightarrow>
     (\<forall>s. count (image_mset fst P) s \<le> active_messages_per_sender cfg) \<and>
     (\<forall>x. count P x \<le> active_messages_per_sender_recipient cfg) \<and>
     (\<forall>r. count (image_mset snd P) r \<le> active_messages_per_recipient cfg) \<and>
     (\<forall>k. count R k \<le> active_messages_per_overflow_record cfg)"

definition limits_ok :: "mailbox_config \<Rightarrow> bool" where
  "limits_ok cfg \<longleftrightarrow> active_messages_per_sender cfg \<le> u32_max \<and>
     active_messages_per_recipient cfg \<le> u32_max \<and>
     active_messages_per_overflow_record cfg \<le> u32_max"

lemma count_image_le: "count P x \<le> count (image_mset f P) (f x)"
proof -
  have "replicate_mset (count P x) x \<subseteq># P"
    by (simp only: count_le_replicate_mset_subset_eq [symmetric] order_refl)
  then have "image_mset f (replicate_mset (count P x) x) \<subseteq># image_mset f P"
    by (rule image_mset_subseteq_mono)
  then show ?thesis by (metis count_le_replicate_mset_subset_eq image_replicate_mset)
qed

lemma image_count_mono: "P \<subseteq># Q \<Longrightarrow> count (image_mset f P) k \<le> count (image_mset f Q) k"
  by (meson image_mset_subseteq_mono mset_subset_eq_count)

lemma fits_mono: "fits_u32 Q \<Longrightarrow> P \<subseteq># Q \<Longrightarrow> fits_u32 P"
  unfolding fits_u32_def by (meson image_count_mono le_trans)

lemma limits_fit: "within_limits cfg P R \<Longrightarrow> limits_ok cfg \<Longrightarrow> fits_u32 P"
  unfolding within_limits_def limits_ok_def fits_u32_def by (meson le_trans)

lemma within_limits_mono:
  "within_limits cfg Q S \<Longrightarrow> P \<subseteq># Q \<Longrightarrow> R \<subseteq># S \<Longrightarrow> within_limits cfg P R"
  unfolding within_limits_def by (meson image_count_mono mset_subset_eq_count le_trans)

lemma next_quota_generation_frame [simp]:
  "sender_counts (next_quota_generation q) = sender_counts q"
  "sender_recipient_counts (next_quota_generation q) = sender_recipient_counts q"
  "recipient_counts (next_quota_generation q) = recipient_counts q"
  "overflow_record_counts (next_quota_generation q) = overflow_record_counts q"
  by (simp_all add: next_quota_generation_def)

lemma quota_counts_generation [simp]:
  "quota_counts (next_quota_generation q) P R = quota_counts q P R"
  by (simp add: quota_counts_def)

lemma quota_counts_default: "quota_counts (quota_default\<lparr>quota_generation := g, rebuilt_at := t\<rparr>) {#} {#}"
  by (simp add: quota_counts_def quota_default_def counts_def fun_eq_iff)

subsection \<open>The operations\<close>

text \<open>The overflow record of a pointer, as a multiset.\<close>

definition of_record :: "record_key option \<Rightarrow> record_key multiset" where
  "of_record rec = (case rec of None \<Rightarrow> {#} | Some k \<Rightarrow> {#k#})"

lemma add_pointer_counts_counts:
  assumes "quota_counts q P R" "fits_u32 (add_mset (sender_main_dht p, r) P)"
  shows "quota_counts (add_pointer_counts r p q) (add_mset (sender_main_dht p, r) P) R"
proof -
  let ?s = "sender_main_dht p"
  have "count (image_mset fst P) ?s < u32_max \<and> count (image_mset snd P) r < u32_max"
    using assms(2) unfolding fits_u32_def
    by (metis count_add_mset fst_conv image_mset_add_mset less_eq_Suc_le snd_conv)
  moreover from this have "count P (?s, r) < u32_max"
    using count_image_le [of P "(?s, r)" fst] by simp
  ultimately show ?thesis
    using assms(1) by (simp add: quota_counts_def add_pointer_counts_def Let_def
        flat.counts_add nested.counts_add)
qed

lemma note_added_counts:
  assumes "quota_counts q P R" "fits_u32 (add_mset (sender_main_dht p, r) P)"
    and "\<forall>k. rec = Some k \<longrightarrow> count R k < u32_max"
  shows "quota_counts (note_added r p rec q) (add_mset (sender_main_dht p, r) P) (of_record rec + R)"
  unfolding note_added_def Let_def quota_counts_generation
  using add_pointer_counts_counts [OF assms(1,2)] assms(3)
  by (cases rec) (simp_all add: quota_counts_def of_record_def flat.counts_add)

lemma note_removed_counts:
  assumes "quota_counts q (add_mset (sender_main_dht p, r) P) (of_record rec + R)"
  shows "quota_counts (note_removed r p rec q) P R"
  unfolding note_removed_def Let_def quota_counts_generation
  using assms
  by (cases rec) (simp_all add: quota_counts_def of_record_def flat.counts_remove nested.counts_remove)

lemma tally_update: "tally (AList.update k v m) = (tally m)(k := v)"
  by (simp add: tally_def fun_eq_iff store_simps)

lemma tally_delete: "tally (AList.delete k m) = (tally m)(k := 0)"
  by (simp add: tally_def fun_eq_iff store_simps)

lemma tally_ok_update: "tally_ok m \<Longrightarrow> 0 < v \<Longrightarrow> tally_ok (AList.update k v m)"
  by (simp add: tally_ok_iff store_simps)

lemma tally_ok_delete: "tally_ok m \<Longrightarrow> tally_ok (AList.delete k m)"
  by (simp add: tally_ok_iff store_simps)

lemma counts_set:
  assumes "counts tally_ok tally m R" "k \<notin># R"
  shows "n = 0 \<Longrightarrow> counts tally_ok tally (AList.delete k m) (R + replicate_mset n k)"
    and "0 < n \<Longrightarrow> counts tally_ok tally (AList.update k n m) (R + replicate_mset n k)"
  using assms
  by (auto simp: counts_def fun_eq_iff tally_update tally_delete tally_ok_update tally_ok_delete
      not_in_iff)

lemma set_overflow_counts:
  assumes "quota_counts q P R" "k \<notin># R" "n \<le> u32_max"
  shows "quota_counts (set_overflow_count k n q) P (R + replicate_mset n k)"
  using assms counts_set [of "overflow_record_counts q" R k n]
  by (cases "n = 0") (simp_all add: quota_counts_def set_overflow_count_def)

lemma remove_overflow_counts:
  assumes "quota_counts q P R"
  shows "quota_counts (remove_overflow_record k q) P (filter_mset (\<lambda>x. x \<noteq> k) R)"
proof (cases "map_of (overflow_record_counts q) k")
  case None
  then have "count R k = 0"
    using assms by (metis quota_counts_def counts_def tally_def option.case(1))
  then have "filter_mset (\<lambda>x. x \<noteq> k) R = R" by (auto simp: multiset_eq_iff)
  with assms None show ?thesis by (simp add: remove_overflow_record_def)
next
  case (Some v)
  with assms show ?thesis
    by (auto simp: remove_overflow_record_def quota_counts_def counts_def fun_eq_iff
        tally_delete tally_ok_delete)
qed

lemma ensure_can_add_None:
  assumes "ensure_can_add cfg r p rec q = None" "quota_counts q P R"
    and "within_limits cfg P R"
  shows "within_limits cfg (add_mset (sender_main_dht p, r) P) (of_record rec + R)"
  using assms
  by (auto simp: ensure_can_add_def Let_def quota_counts_def counts_def within_limits_def
      of_record_def Suc_le_eq not_le split: if_splits option.splits)

subsection \<open>Exact counters agree\<close>

lemma tally_map_of: "tally_ok m \<Longrightarrow> map_of m k = (if tally m k = 0 then None else Some (tally m k))"
  using tally_ok_val [of m k] by (auto simp: tally_def split: option.splits)

lemma same_map_tally:
  "tally_ok m \<Longrightarrow> tally_ok m' \<Longrightarrow> tally m = tally m' \<Longrightarrow> same_map (=) m m'"
  by (simp add: same_map_def list_all_iff tally_map_of option.rel_eq)

lemma tally_nonempty:
  assumes "tally_ok m" "m \<noteq> []" shows "\<exists>k. tally m k \<noteq> 0"
proof -
  obtain k v where "(k, v) \<in> set m" using assms(2) by (cases m) auto
  then have "map_of m k \<noteq> None" using weak_map_of_SomeI by fastforce
  with tally_ok_val [OF assms(1)] show ?thesis by (force simp: tally_def split: option.splits)
qed

lemma same_map_nested:
  assumes "nested_ok m" "nested_ok m'" "nested_tally m = nested_tally m'"
  shows "same_map (same_map (=)) m m'"
proof -
  have eq: "nested_tally m (k, l) = nested_tally m' (k, l)" for k l using assms(3) by simp
  have "rel_option (same_map (=)) (map_of m k) (map_of m' k)" for k
  proof (cases "map_of m k"; cases "map_of m' k")
    fix i i' assume i: "map_of m k = Some i" "map_of m' k = Some i'"
    then have "tally i = tally i'" using eq [of k] by (simp add: nested_tally_def fun_eq_iff)
    with i nested_inner [OF assms(1) i(1)] nested_inner [OF assms(2) i(2)] show ?thesis
      by (simp add: same_map_tally)
  next
    fix i assume i: "map_of m k = Some i" "map_of m' k = None"
    then have "tally i l = 0" for l using eq [of k l] by (simp add: nested_tally_def)
    with nested_inner [OF assms(1) i(1)] tally_nonempty show ?thesis by metis
  next
    fix i assume i: "map_of m k = None" "map_of m' k = Some i"
    then have "tally i l = 0" for l using eq [of k l] by (simp add: nested_tally_def)
    with nested_inner [OF assms(2) i(2)] tally_nonempty show ?thesis by metis
  qed simp
  then show ?thesis by (simp add: same_map_def list_all_iff)
qed

lemma exact_same_counts: "quota_counts q P R \<Longrightarrow> quota_counts q' P R \<Longrightarrow> same_counts q q'"
  by (simp add: quota_counts_def counts_def same_counts_def same_map_tally same_map_nested)

subsection \<open>Rebuilding\<close>

text \<open>What an entry holds: its pointers, their pairs, and its overflow record.\<close>

definition entry_sources ::
  "overflow_stores \<Rightarrow> mailbox_recipient_entry \<Rightarrow> mail_source_pointer list" where
  "entry_sources ovs e =
    (case storage e of
       Inline ps \<Rightarrow> ps
     | Overflow _ _ _ _ _ _ \<Rightarrow>
        (case map_of ovs (recipient_main_dht e) of Some s \<Rightarrow> all_entries s | None \<Rightarrow> []))"

definition entry_record :: "mailbox_recipient_entry \<Rightarrow> record_key option" where
  "entry_record e =
    (case storage e of Inline _ \<Rightarrow> None | Overflow k _ _ _ _ _ \<Rightarrow> Some k)"

definition source_pairs ::
  "record_key \<Rightarrow> mail_source_pointer list \<Rightarrow> (record_key \<times> record_key) multiset" where
  "source_pairs r ps = image_mset (\<lambda>p. (sender_main_dht p, r)) (mset ps)"

definition entry_pairs ::
  "overflow_stores \<Rightarrow> mailbox_recipient_entry \<Rightarrow> (record_key \<times> record_key) multiset" where
  "entry_pairs ovs e = source_pairs (recipient_main_dht e) (entry_sources ovs e)"

definition entry_records :: "overflow_stores \<Rightarrow> mailbox_recipient_entry \<Rightarrow> record_key multiset" where
  "entry_records ovs e =
    (case entry_record e of
       None \<Rightarrow> {#} | Some k \<Rightarrow> replicate_mset (length (entry_sources ovs e)) k)"

definition pairs_of ::
  "overflow_stores \<Rightarrow> mailbox_recipient_entry multiset \<Rightarrow> (record_key \<times> record_key) multiset" where
  "pairs_of ovs es = (\<Sum>e \<in># es. entry_pairs ovs e)"

definition records_of ::
  "overflow_stores \<Rightarrow> mailbox_recipient_entry multiset \<Rightarrow> record_key multiset" where
  "records_of ovs es = (\<Sum>e \<in># es. entry_records ovs e)"

text \<open>The overflow records named by a multiset of entries.\<close>

definition record_keys_of :: "mailbox_recipient_entry multiset \<Rightarrow> record_key multiset" where
  "record_keys_of es = (\<Sum>e \<in># es. of_record (entry_record e))"

definition ids_distinct :: "overflow_stores \<Rightarrow> mailbox_recipient_entry \<Rightarrow> bool" where
  "ids_distinct ovs e \<longleftrightarrow> distinct (map message_id (entry_sources ovs e))"

lemma count_sources_counts:
  assumes "quota_counts q P R" "fits_u32 (source_pairs r ps + P)"
    and "distinct (map message_id ps)" "\<forall>p \<in> set ps. (r, message_id p) \<notin> set seen"
    and "n + length ps \<le> u32_max"
  shows "\<exists>seen' q'. count_sources r ps (seen, q, n) = (seen', q', n + length ps) \<and>
    quota_counts q' (source_pairs r ps + P) R \<and>
    (\<forall>x. fst x \<noteq> r \<longrightarrow> x \<in> set seen' \<longrightarrow> x \<in> set seen)"
  using assms
proof (induction ps arbitrary: seen q n P)
  case Nil
  then show ?case by (simp add: source_pairs_def)
next
  case (Cons p ps)
  let ?P = "add_mset (sender_main_dht p, r) P"
  have P: "source_pairs r (p # ps) + P = source_pairs r ps + ?P" by (simp add: source_pairs_def)
  have "fits_u32 ?P" using Cons.prems(2) unfolding P by (rule fits_mono) simp
  then have "quota_counts (add_pointer_counts r p q) ?P R"
    using Cons.prems(1) by (rule add_pointer_counts_counts [rotated])
  moreover have "distinct (map message_id ps)"
    "\<forall>p' \<in> set ps. (r, message_id p') \<notin> set ((r, message_id p) # seen)" "n + 1 + length ps \<le> u32_max"
    using Cons.prems(3-5) by (auto simp: image_iff)
  ultimately obtain seen' q' where rec: "count_sources r ps
      ((r, message_id p) # seen, add_pointer_counts r p q, n + 1) = (seen', q', n + 1 + length ps)"
    "quota_counts q' (source_pairs r ps + ?P) R"
    "\<forall>x. fst x \<noteq> r \<longrightarrow> x \<in> set seen' \<longrightarrow> x \<in> set ((r, message_id p) # seen)"
    using Cons.IH [OF _ Cons.prems(2) [unfolded P]] by blast
  have "count_sources r (p # ps) (seen, q, n) =
      count_sources r ps ((r, message_id p) # seen, add_pointer_counts r p q, n + 1)"
    using Cons.prems(4,5) by (simp add: sat_add_exact)
  with rec show ?case unfolding P by (intro exI [of _ seen'] exI [of _ q']) auto
qed

lemma count_entry:
  assumes "quota_counts q P R" "fits_u32 (entry_pairs ovs e + P)" "ids_distinct ovs e"
    and "\<forall>i. (recipient_main_dht e, i) \<notin> set seen" "\<forall>k. entry_record e = Some k \<longrightarrow> k \<notin># R"
  shows "\<exists>seen' q'. rebuild_entries ovs (e # es) seen q = rebuild_entries ovs es seen' q' \<and>
    quota_counts q' (entry_pairs ovs e + P) (entry_records ovs e + R) \<and>
    (\<forall>x. fst x \<noteq> recipient_main_dht e \<longrightarrow> x \<in> set seen' \<longrightarrow> x \<in> set seen)"
proof -
  let ?r = "recipient_main_dht e" and ?ps = "entry_sources ovs e"
  have "length ?ps = count (image_mset snd (entry_pairs ovs e)) ?r"
    by (simp add: entry_pairs_def source_pairs_def image_mset.compositionality comp_def
        image_mset_const_eq)
  also have "\<dots> \<le> u32_max" using assms(2) unfolding fits_u32_def
    by (metis image_mset_union count_union le_add1 le_trans)
  finally have len: "length ?ps \<le> u32_max" .
  obtain seen' q' where run: "count_sources ?r ?ps (seen, q, 0) = (seen', q', length ?ps)"
    "quota_counts q' (entry_pairs ovs e + P) R"
    "\<forall>x. fst x \<noteq> ?r \<longrightarrow> x \<in> set seen' \<longrightarrow> x \<in> set seen"
    using count_sources_counts [of q P R ?r ?ps seen 0] assms len
    by (auto simp: entry_pairs_def ids_distinct_def)
  show ?thesis
  proof (cases "storage e")
    case (Inline ps)
    with run show ?thesis
      by (intro exI [of _ seen'] exI [of _ q'])
        (simp add: entry_sources_def entry_records_def entry_record_def)
  next
    case (Overflow k ep n sz dg since)
    let ?q = "if length ?ps \<noteq> 0 then q'\<lparr>overflow_record_counts :=
      AList.update k (length ?ps) (overflow_record_counts q')\<rparr> else q'"
    have "k \<notin># R" using assms(5) Overflow by (simp add: entry_record_def)
    then have "quota_counts ?q (entry_pairs ovs e + P) (entry_records ovs e + R)"
      using run(2) counts_set(2) [of "overflow_record_counts q'" R k "length ?ps"] Overflow
      by (simp add: quota_counts_def entry_records_def entry_record_def add.commute)
    moreover have "rebuild_entries ovs (e # es) seen q = rebuild_entries ovs es seen' ?q"
      using run(1) Overflow by (simp add: entry_sources_def Let_def)
    ultimately show ?thesis using run(3) by blast
  qed
qed

lemma rebuild_entries_counts:
  assumes "quota_counts q P R" "fits_u32 (pairs_of ovs (mset es) + P)"
    and "\<forall>e \<in> set es. ids_distinct ovs e" "distinct (map recipient_main_dht es)"
    and "\<forall>e \<in> set es. \<forall>i. (recipient_main_dht e, i) \<notin> set seen"
    and "\<forall>k. count (record_keys_of (mset es)) k \<le> 1" "\<forall>k \<in># record_keys_of (mset es). k \<notin># R"
  shows "quota_counts (rebuild_entries ovs es seen q)
    (pairs_of ovs (mset es) + P) (records_of ovs (mset es) + R)"
  using assms
proof (induction es arbitrary: seen q P R)
  case Nil
  then show ?case by (simp add: pairs_of_def records_of_def)
next
  case (Cons e es)
  let ?P = "entry_pairs ovs e + P" and ?R = "entry_records ovs e + R"
  have sums: "pairs_of ovs (mset (e # es)) + P = pairs_of ovs (mset es) + ?P"
    "records_of ovs (mset (e # es)) + R = records_of ovs (mset es) + ?R"
    by (simp_all add: pairs_of_def records_of_def add_ac)
  have keys: "record_keys_of (mset (e # es)) = of_record (entry_record e) + record_keys_of (mset es)"
    by (simp add: record_keys_of_def)
  have fits: "fits_u32 ?P" using Cons.prems(2) unfolding sums by (rule fits_mono) simp
  have own: "\<forall>k. entry_record e = Some k \<longrightarrow> k \<notin># R"
    using Cons.prems(7) unfolding keys by (auto simp: of_record_def)
  obtain seen' q' where step: "rebuild_entries ovs (e # es) seen q = rebuild_entries ovs es seen' q'"
    "quota_counts q' ?P ?R" "\<forall>x. fst x \<noteq> recipient_main_dht e \<longrightarrow> x \<in> set seen' \<longrightarrow> x \<in> set seen"
    using count_entry [OF Cons.prems(1) fits _ _ own, of seen es] Cons.prems(3,5) by auto
  have rest: "\<forall>k. count (record_keys_of (mset es)) k \<le> 1"
    using Cons.prems(6) unfolding keys count_union by (metis add_leD2)
  have "k \<notin># ?R" if "k \<in># record_keys_of (mset es)" for k
  proof -
    have "entry_record e \<noteq> Some k"
      using Cons.prems(6) that unfolding keys count_union
      by (metis add_le_same_cancel1 count_greater_zero_iff of_record_def option.case(2)
          count_single not_less add_le_cancel_right le_add_same_cancel1 One_nat_def Suc_leI)
    then have "k \<notin># entry_records ovs e"
      by (auto simp: entry_records_def split: option.split)
    with Cons.prems(7) that keys show ?thesis by auto
  qed
  then have fresh: "\<forall>k \<in># record_keys_of (mset es). k \<notin># ?R" by blast
  have unseen: "\<forall>e' \<in> set es. \<forall>i. (recipient_main_dht e', i) \<notin> set seen'"
  proof (intro ballI allI)
    fix e' i assume e': "e' \<in> set es"
    then have "recipient_main_dht e' \<noteq> recipient_main_dht e" using Cons.prems(4)
      by (metis distinct.simps(2) image_eqI list.simps(9) set_map)
    with step(3) Cons.prems(5) e' show "(recipient_main_dht e', i) \<notin> set seen'" by auto
  qed
  show ?case unfolding sums step(1)
    by (rule Cons.IH [OF step(2) Cons.prems(2) [unfolded sums] _ _ unseen rest fresh])
      (use Cons.prems(3,4) in simp_all)
qed

text \<open>A rebuild counts exactly the pointers in the stores.\<close>

lemma rebuild_counts:
  assumes "fits_u32 (pairs_of ovs (mset (all_entries s)))"
    and "\<forall>e \<in> set (all_entries s). ids_distinct ovs e"
    and "distinct (map recipient_main_dht (all_entries s))"
    and "\<forall>k. count (record_keys_of (mset (all_entries s))) k \<le> 1"
  shows "quota_counts (rebuild now (Some s) ovs)
    (pairs_of ovs (mset (all_entries s))) (records_of ovs (mset (all_entries s)))"
  using rebuild_entries_counts [of "quota_default\<lparr>quota_generation := 1, rebuilt_at := now\<rparr>"
      "{#}" "{#}" ovs "all_entries s" "[]"] assms
  by (simp add: rebuild_def quota_counts_default)

end
