(* ===== verification/Mailbox_Entries.thy ===== *)
theory Mailbox_Entries
  imports Mailbox_Refine
begin

text \<open>
  A paged store seen as the multiset of its entries: what insertion, removal and commit do to it,
  and that they keep the store backed by its record.
\<close>

text \<open>Inserting and removing several entries in turn.\<close>

fun upsert_all ::
  "'e codec \<Rightarrow> 'e list \<Rightarrow> 'e cow_paged_store \<Rightarrow> 'e cow_paged_store option" where
  "upsert_all c [] s = Some s"
| "upsert_all c (e # es) s = (case upsert c e s of None \<Rightarrow> None | Some s \<Rightarrow> upsert_all c es s)"

fun remove_all ::
  "'e codec \<Rightarrow> bytes list \<Rightarrow> 'e cow_paged_store \<Rightarrow> ('e list \<times> 'e cow_paged_store) option" where
  "remove_all c [] s = Some ([], s)"
| "remove_all c (k # ks) s =
     (case remove_entry c k s of
        None \<Rightarrow> None
      | Some (x, s) \<Rightarrow>
         (case remove_all c ks s of
            None \<Rightarrow> None
          | Some (xs, s) \<Rightarrow> Some (case x of None \<Rightarrow> xs | Some e \<Rightarrow> e # xs, s)))"

definition backed :: "'e codec \<Rightarrow> 'e cow_paged_store \<Rightarrow> dht_record \<Rightarrow> bool" where
  "backed c s d \<longleftrightarrow> store_ok c s \<and> disk_current c s d \<and>
     estimated_dht_value_limit (total_subkeys s) \<le> MAX_NETWORK_DHT_VALUE_BYTES"

definition without :: "'e codec \<Rightarrow> bytes \<Rightarrow> 'e multiset \<Rightarrow> 'e multiset" where
  "without c k M = filter_mset (\<lambda>e. page_key c e \<noteq> k) M"

lemma store_ok_distinct:
  assumes "store_ok c s" shows "distinct (map (page_key c) (all_entries s))"
proof -
  have "sorted_wrt (<) (map (page_key c) (all_entries s))"
    using pages_ok_concat [of c None "cs_pages s"] assms by (simp add: store_ok_def all_entries_def)
  then show ?thesis by (simp add: strict_sorted_iff)
qed

lemma store_map_Some:
  assumes "store_ok c s"
  shows "store_map c s k = Some e \<longleftrightarrow> e \<in> set (all_entries s) \<and> page_key c e = k"
proof -
  have "distinct (map fst (map (\<lambda>e. (page_key c e, e)) (all_entries s)))"
    using store_ok_distinct [OF assms] by (simp add: comp_def)
  from map_of_eq_Some_iff [OF this] show ?thesis by (auto simp: store_map_def)
qed

lemma store_map_None:
  "store_map c s k = None \<longleftrightarrow> (\<forall>e \<in> set (all_entries s). page_key c e \<noteq> k)"
  by (auto simp: store_map_entries entries_map_None)

lemma entries_mset_eq:
  assumes "store_ok c s" "distinct ys" "set (all_entries s) = set ys"
  shows "mset (all_entries s) = mset ys"
  using store_ok_distinct [OF assms(1)] assms(2,3)
  by (simp add: set_eq_iff_mset_eq_distinct distinct_map)

text \<open>The entry under a key, and the others.\<close>

lemma entries_split:
  assumes "store_ok c s"
  shows "mset (all_entries s) =
    (case store_map c s k of None \<Rightarrow> {#} | Some e \<Rightarrow> {#e#}) + without c k (mset (all_entries s))"
proof (cases "store_map c s k")
  case None
  then have "without c k (mset (all_entries s)) = mset (all_entries s)"
    by (simp add: without_def store_map_None filter_mset_eq_conv)
  with None show ?thesis by simp
next
  case (Some e)
  note e = Some [unfolded store_map_Some [OF assms]]
  note inj = store_ok_distinct [OF assms]
  have "filter_mset (\<lambda>x. page_key c x = k) (mset (all_entries s)) = {#e#}"
  proof -
    obtain xs ys where s: "all_entries s = xs @ e # ys" using e by (meson split_list)
    have "page_key c e \<notin> page_key c ` (set xs \<union> set ys)" using inj unfolding s by (simp add: image_Un)
    then have "\<forall>x \<in> set xs \<union> set ys. page_key c x \<noteq> k" using e by blast
    then have "filter (\<lambda>x. page_key c x = k) (all_entries s) = [e]" using e unfolding s
      by (auto simp: filter_empty_conv)
    then show ?thesis by (metis mset_filter mset_single_iff_right)
  qed
  then show ?thesis using Some multiset_partition [of "mset (all_entries s)" "\<lambda>x. page_key c x = k"]
    by (simp add: without_def)
qed

lemma map_to_entries:
  assumes "store_ok c s" "store_ok c s'" "store_map c s' = (store_map c s)(k := v)"
    and "page_key c ` set_option v \<subseteq> {k}"
  shows "mset (all_entries s') =
    (case v of None \<Rightarrow> {#} | Some e \<Rightarrow> {#e#}) + without c k (mset (all_entries s))"
proof -
  have "without c k (mset (all_entries s')) = without c k (mset (all_entries s))"
  proof -
    let ?f = "\<lambda>s. filter (\<lambda>e. page_key c e \<noteq> k) (all_entries s)"
    have "e \<in> set (all_entries s') \<longleftrightarrow> e \<in> set (all_entries s)" if "page_key c e \<noteq> k" for e
    proof -
      have "store_map c s' (page_key c e) = store_map c s (page_key c e)" using assms(3) that by simp
      then show ?thesis
        using store_map_Some [OF assms(1), of "page_key c e" e]
          store_map_Some [OF assms(2), of "page_key c e" e] by simp
    qed
    then have "set (?f s') = set (?f s)" by auto
    moreover have "distinct (?f s')" "distinct (?f s)"
      using store_ok_distinct [OF assms(1)] store_ok_distinct [OF assms(2)]
      by (simp_all add: distinct_map)
    ultimately have "mset (?f s') = mset (?f s)"
      using set_eq_iff_mset_eq_distinct [of "?f s'" "?f s"] by blast
    then show ?thesis by (simp add: without_def)
  qed
  then show ?thesis using entries_split [OF assms(2), of k] assms(3) by simp
qed

lemma without_idem [simp]: "without c k (without c k M) = without c k M"
  by (simp add: without_def filter_filter_mset)

subsection \<open>In-memory changes keep the record current\<close>

lemma changed_pages_current:
  assumes "disk_current c s d" "\<forall>p \<in> set ps. lp_dirty p \<or> p \<in> set (cs_pages s)"
  shows "disk_current c (s\<lparr>cs_pages := ps\<rparr>) d"
  using assms by (cases "current_index s") (auto simp: disk_current_def)

lemma updated_page: "lp_dirty q \<Longrightarrow> \<forall>p \<in> set (ps[i := q]). lp_dirty p \<or> p \<in> set ps"
  using set_update_subset_insert [of ps i q] by auto

lemma changed_frame:
  assumes "\<exists>i q. s' = s\<lparr>cs_pages := (cs_pages s)[i := q]\<rparr> \<and> lp_dirty q" "disk_current c s d"
  shows "disk_current c s' d \<and> total_subkeys s' = total_subkeys s \<and>
    package_index s' = package_index s \<and> current_index s' = current_index s"
  using changed_pages_current [OF assms(2) updated_page] assms(1) by force

lemma upsert_frame:
  assumes "upsert c e s = Some s'" "disk_current c s d"
  shows "disk_current c s' d \<and> total_subkeys s' = total_subkeys s \<and>
    package_index s' = package_index s \<and> current_index s' = current_index s"
proof (rule changed_frame [OF _ assms(2)])
  show "\<exists>i q. s' = s\<lparr>cs_pages := (cs_pages s)[i := q]\<rparr> \<and> lp_dirty q"
    using assms(1) by (clarsimp simp: upsert_def Let_def split: if_splits)
      (intro exI conjI, rule refl, simp)
qed

lemma remove_frame:
  assumes "remove_entry c k s = Some (x, s')" "disk_current c s d"
  shows "disk_current c s' d \<and> total_subkeys s' = total_subkeys s \<and>
    package_index s' = package_index s \<and> current_index s' = current_index s"
proof (cases "s' = s")
  case False
  then have "\<exists>i q. s' = s\<lparr>cs_pages := (cs_pages s)[i := q]\<rparr> \<and> lp_dirty q"
    using assms(1) by (clarsimp simp: remove_entry_def Let_def split: if_splits sum.splits)
      (intro exI conjI, rule refl, simp)
  then show ?thesis by (rule changed_frame [OF _ assms(2)])
qed (use assms(2) in simp)

lemma upsert_backed:
  assumes "backed c s d"
  obtains s' where "upsert c e s = Some s'" "backed c s' d"
    "mset (all_entries s') = add_mset e (without c (page_key c e) (mset (all_entries s)))"
    "package_index s' = package_index s" "store_generation s' = store_generation s"
proof -
  note b = assms [unfolded backed_def]
  obtain s' where s': "upsert c e s = Some s'" "store_ok c s'"
    "store_map c s' = (store_map c s)(page_key c e \<mapsto> e)" using paged.ins [OF conjunct1 [OF b], of e] by blast
  note fr = upsert_frame [OF s'(1) conjunct1 [OF conjunct2 [OF b]]]
  have "backed c s' d" using b s'(2) fr by (simp add: backed_def)
  moreover have "store_generation s' = store_generation s" using fr by (simp add: store_generation_def)
  ultimately show ?thesis using fr map_to_entries [OF conjunct1 [OF b] s'(2,3)]
    by (intro that [OF s'(1)]) simp_all
qed

lemma remove_backed:
  assumes "backed c s d"
  obtains s' where "remove_entry c k s = Some (store_map c s k, s')" "backed c s' d"
    "mset (all_entries s') = without c k (mset (all_entries s))"
    "package_index s' = package_index s" "store_generation s' = store_generation s"
proof -
  note b = assms [unfolded backed_def]
  obtain s' where s': "remove_entry c k s = Some (store_map c s k, s')" "store_ok c s'"
    "store_map c s' = (store_map c s)(k := None)" using paged.del [OF conjunct1 [OF b], of k] by blast
  note fr = remove_frame [OF s'(1) conjunct1 [OF conjunct2 [OF b]]]
  have "backed c s' d" using b s'(2) fr by (simp add: backed_def)
  moreover have "store_generation s' = store_generation s" using fr by (simp add: store_generation_def)
  ultimately show ?thesis using fr map_to_entries [OF conjunct1 [OF b] s'(2,3)]
    by (intro that [OF s'(1)]) simp_all
qed

subsection \<open>Commits\<close>

lemma commit_frame:
  assumes "commit c cfg io (s, txs, d) = (r, s', txs', d')"
  shows "package_index s' = package_index s"
  using assms
  by (auto simp: commit_def commit_index_def rebalance_dirty_pages_def Let_def
      split: if_splits option.splits sum.splits prod.splits)

lemma commit_backed:
  assumes "codec_ok c" "backed c s d" "store_generation s < u64_max"
    and "commit c cfg io (s, txs, d) = (Inr b, s', txs', d')"
  shows "backed c s' d' \<and> mset (all_entries s') = mset (all_entries s) \<and>
    package_index s' = package_index s \<and> store_generation s' \<le> store_generation s + 1"
proof (cases b)
  case True
  with assms(4) have run: "commit c cfg io (s, txs, d) = (Inr True, s', txs', d')" by simp
  note ok = assms(2) [unfolded backed_def]
  note committed = commit_success [OF assms(1) conjunct1 [OF conjunct2 [OF ok]] assms(3)
      conjunct2 [OF conjunct2 [OF ok]] run]
  show ?thesis using committed(4-8) commit_frame [OF run] ok by (simp add: backed_def)
next
  case False
  have no: "commit_index c io l dss x \<noteq> (Inr False, y)" for l dss x y
    by (cases x) (auto simp: commit_index_def Let_def split: if_splits option.splits sum.splits)
  from assms(4) False have "s' = s \<and> d' = d" by (cases rule: commit_cases) (use no in auto)
  with assms(2) show ?thesis by simp
qed

subsection \<open>Sequences of changes, and a new record\<close>

lemma upsert_all_backed:
  assumes "backed c s d" "distinct (map (page_key c) es)"
    and "\<forall>e \<in> set es. \<forall>x \<in> set (all_entries s). page_key c x \<noteq> page_key c e"
  obtains s' where "upsert_all c es s = Some s'" "backed c s' d"
    "mset (all_entries s') = mset es + mset (all_entries s)"
    "package_index s' = package_index s" "store_generation s' = store_generation s"
proof -
  have "\<exists>s'. upsert_all c es s = Some s' \<and> backed c s' d \<and>
      mset (all_entries s') = mset es + mset (all_entries s) \<and>
      package_index s' = package_index s \<and> store_generation s' = store_generation s"
    using assms
  proof (induction es arbitrary: s)
    case (Cons e es)
    obtain s1 where s1: "upsert c e s = Some s1" "backed c s1 d"
      "mset (all_entries s1) = add_mset e (without c (page_key c e) (mset (all_entries s)))"
      "package_index s1 = package_index s" "store_generation s1 = store_generation s"
      by (rule upsert_backed [OF Cons.prems(1)])
    have "without c (page_key c e) (mset (all_entries s)) = mset (all_entries s)"
      using Cons.prems(3) by (auto simp: without_def intro!: multiset_eqI)
    then have m: "mset (all_entries s1) = add_mset e (mset (all_entries s))" using s1(3) by simp
    then have "set (all_entries s1) = insert e (set (all_entries s))" by (metis set_mset_add_mset_insert set_mset_mset)
    with Cons.prems(2,3) have "\<forall>e' \<in> set es. \<forall>x \<in> set (all_entries s1). page_key c x \<noteq> page_key c e'"
      by auto
    from Cons.IH [OF s1(2) _ this] Cons.prems(2) s1 m show ?case by auto
  qed simp
  then show ?thesis using that by blast
qed

lemma remove_all_backed:
  assumes "backed c s d"
  obtains xs s' where "remove_all c ks s = Some (xs, s')" "backed c s' d"
    "mset (all_entries s) = mset xs + mset (all_entries s')"
    "package_index s' = package_index s" "store_generation s' = store_generation s"
    "mset (all_entries s') = filter_mset (\<lambda>x. page_key c x \<notin> set ks) (mset (all_entries s))"
proof -
  have "\<exists>xs s'. remove_all c ks s = Some (xs, s') \<and> backed c s' d \<and>
      mset (all_entries s) = mset xs + mset (all_entries s') \<and>
      package_index s' = package_index s \<and> store_generation s' = store_generation s \<and>
      mset (all_entries s') = filter_mset (\<lambda>x. page_key c x \<notin> set ks) (mset (all_entries s))"
    using assms
  proof (induction ks arbitrary: s)
    case (Cons k ks)
    obtain s1 where s1: "remove_entry c k s = Some (store_map c s k, s1)" "backed c s1 d"
      "mset (all_entries s1) = without c k (mset (all_entries s))"
      "package_index s1 = package_index s" "store_generation s1 = store_generation s"
      by (rule remove_backed [OF Cons.prems])
    obtain xs s2 where s2: "remove_all c ks s1 = Some (xs, s2)" "backed c s2 d"
      "mset (all_entries s1) = mset xs + mset (all_entries s2)"
      "package_index s2 = package_index s1" "store_generation s2 = store_generation s1"
      "mset (all_entries s2) = filter_mset (\<lambda>x. page_key c x \<notin> set ks) (mset (all_entries s1))"
      using Cons.IH [OF s1(2)] by blast
    let ?xs = "case store_map c s k of None \<Rightarrow> xs | Some e \<Rightarrow> e # xs"
    have "remove_all c (k # ks) s = Some (?xs, s2)" using s1(1) s2(1) by simp
    moreover have "mset (all_entries s2) =
        filter_mset (\<lambda>x. page_key c x \<notin> set (k # ks)) (mset (all_entries s))"
      unfolding s2(6) s1(3) without_def by (simp add: filter_filter_mset)
    moreover have "mset (all_entries s) = mset ?xs + mset (all_entries s2)"
    proof -
      have "store_ok c s" using Cons.prems by (simp add: backed_def)
      note entries_split [OF this, of k, folded s1(3)]
      then show ?thesis unfolding s2(3) by (simp split: option.splits)
    qed
    ultimately show ?case using s1(4,5) s2(2,4,5) by auto
  qed simp
  then show ?thesis using that by blast
qed

lemma load_empty:
  assumes "estimated_dht_value_limit n \<le> MAX_NETWORK_DHT_VALUE_BYTES"
    and "load_owned c io name package (Some n) Map.empty = Inr s"
  shows "backed c s Map.empty \<and> all_entries s = [] \<and> package_index s = package \<and>
    store_generation s = 0"
proof -
  have none: "index_candidate c io' Map.empty k = []" for io' k
    by (simp add: index_candidate_def read_from_dht_def split: option.split)
  then show ?thesis using assms
    by (auto simp: load_owned_def Let_def List.map_filter_simps backed_def store_ok_def
        page_keys_def empty_page_def all_entries_def disk_current_def store_generation_def)
qed

end
