(* ===== verification/Mailbox_Custodian.thy ===== *)
theory Mailbox_Custodian
  imports Mailbox_Counters Mailbox_Entries
begin

text \<open>
  The custodian side of the mailbox runtime: pointers to messages are added to the recipient they
  are for (\<open>src/mailbox/walk_integration.rs\<close>), a recipient with many pointers gets an overflow
  record of its own and falls back when it has few (\<open>maintenance.rs\<close>), withdrawn and expired
  pointers are removed, and everything is committed by a flush (\<open>outbox.rs\<close>). A call returns, fails
  with the state it leaves behind, or panics on an index out of range. What other modules decide
  during a call (the clock, the DHT, the encrypted local store) is \<open>custodian_calls\<close>; the current
  time is read once per call.
\<close>

datatype ('a, 's) outcome = Returned 'a 's | Failed mailbox_error 's | Panicked

definition and_then :: "('a, 's) outcome \<Rightarrow> ('a \<Rightarrow> 's \<Rightarrow> ('b, 's) outcome) \<Rightarrow> ('b, 's) outcome" where
  "and_then x f = (case x of Returned a s \<Rightarrow> f a s | Failed e s \<Rightarrow> Failed e s | Panicked \<Rightarrow> Panicked)"

fun for_each :: "('x \<Rightarrow> 's \<Rightarrow> (unit, 's) outcome) \<Rightarrow> 'x list \<Rightarrow> 's \<Rightarrow> (unit, 's) outcome" where
  "for_each f [] s = Returned () s"
| "for_each f (x # xs) s = and_then (f x s) (\<lambda>_ s. for_each f xs s)"

record overflow_local_state =
  ol_recipient :: record_key
  ol_record_key :: record_key
  ol_package_index :: nat
  ol_epoch :: bytes
  ol_below_since :: "nat option"
  retired :: bool

record observed_recipient =
  or_recipient :: record_key
  first_seen :: nat
  last_seen :: nat
  last_verified_receiving :: "nat option"
  source_count :: nat
  stored_locally :: bool

record custodian =
  mailbox :: "mailbox_store option"
  overflow_stores :: overflow_stores
  overflow_records :: "(record_key \<times> overflow_local_state) list"
  quota_state :: mailbox_quota_state
  observed_recipients :: "(record_key \<times> observed_recipient) list"
  pending_transactions :: "pending_cow_transaction list"
  dht_records :: "nat \<Rightarrow> dht_record"

record custodian_params =
  config :: mailbox_config
  entry_codec :: "mailbox_recipient_entry codec"
  pointer_codec :: "mail_source_pointer codec"
  key_bytes :: "record_key \<Rightarrow> bytes"
  serialize_pointers :: "mail_source_pointer list \<Rightarrow> mailbox_error + bytes"

record custodian_calls =
  now :: nat
  random_epoch :: bytes
  create_dht :: "mailbox_error + nat"
  package_key :: "mailbox_error + record_key"
  package_subkeys :: "nat option"
  overflow_io :: dht_io
  mailbox_io :: dht_io
  flush_io :: "nat \<Rightarrow> dht_io"
  persist :: "mailbox_error option"
  persist_again :: "mailbox_error option"

definition or_fail :: "mailbox_error option \<Rightarrow> 's \<Rightarrow> (unit, 's) outcome" where
  "or_fail x s = (case x of None \<Rightarrow> Returned () s | Some e \<Rightarrow> Failed e s)"

subsection \<open>Small parts\<close>

definition merge_pointer :: "mail_source_pointer \<Rightarrow> mail_source_pointer \<Rightarrow> mail_source_pointer" where
  "merge_pointer p old =
     old\<lparr>bumped_at := max (bumped_at old) (bumped_at p), last_observed_at := last_observed_at p,
         last_verified_at := last_verified_at p, requested_expires_at := requested_expires_at p\<rparr>"

definition upsert_pointer ::
  "mail_source_pointer \<Rightarrow> mail_source_pointer list \<Rightarrow> mail_source_pointer list" where
  "upsert_pointer p ps =
    (if list_ex (\<lambda>x. message_id x = message_id p) ps
     then update_first (\<lambda>x. message_id x = message_id p) (merge_pointer p) ps
     else ps @ [p])"

definition upsert_entry ::
  "custodian_params \<Rightarrow> mailbox_recipient_entry \<Rightarrow> custodian \<Rightarrow> (unit, custodian) outcome" where
  "upsert_entry cp e cu =
    (case mailbox cu of
       None \<Rightarrow> Returned () cu
     | Some m \<Rightarrow>
        (case upsert (entry_codec cp) e m of
           None \<Rightarrow> Panicked | Some m \<Rightarrow> Returned () (cu\<lparr>mailbox := Some m\<rparr>)))"

definition commit_mailbox ::
  "custodian_params \<Rightarrow> dht_io \<Rightarrow> custodian \<Rightarrow> (bool, custodian) outcome" where
  "commit_mailbox cp io cu =
    (case mailbox cu of
       None \<Rightarrow> Returned False cu
     | Some m \<Rightarrow>
        (case commit (entry_codec cp) (config cp) io
                (m, pending_transactions cu, dht_records cu (package_index m)) of
           (r, m', txs, d) \<Rightarrow>
             (let cu = cu\<lparr>mailbox := Some m', pending_transactions := txs,
                          dht_records := (dht_records cu)(package_index m := d)\<rparr>
              in case r of Inl e \<Rightarrow> Failed e cu | Inr changed \<Rightarrow> Returned changed cu)))"

text \<open>The count, size and digest that an entry keeps of its overflow record.\<close>

definition describe_overflow ::
  "custodian_params \<Rightarrow> mail_source_pointer list \<Rightarrow> bytes \<Rightarrow> nat option \<Rightarrow>
   recipient_source_storage \<Rightarrow> recipient_source_storage" where
  "describe_overflow cp all encoded since st =
    (case st of
       Inline ps \<Rightarrow> Inline ps
     | Overflow k epoch _ _ _ _ \<Rightarrow>
         Overflow k epoch (length all mod 2 ^ 32) (length encoded mod 2 ^ 32)
           (hash_bytes (pointer_codec cp) encoded) since)"

subsection \<open>Adding a pointer\<close>

definition promote_recipient_to_overflow ::
  "custodian_params \<Rightarrow> custodian_calls \<Rightarrow> record_key \<Rightarrow> mail_source_pointer list \<Rightarrow>
   custodian \<Rightarrow> (recipient_source_storage, custodian) outcome" where
  "promote_recipient_to_overflow cp calls r sources cu =
    (case create_dht calls of
       Inl e \<Rightarrow> Failed e cu
     | Inr package \<Rightarrow>
        (let cu = cu\<lparr>dht_records := (dht_records cu)(package := Map.empty)\<rparr> in
         case package_key calls of
           Inl e \<Rightarrow> Failed e cu
         | Inr k \<Rightarrow>
            (case load_owned (pointer_codec cp) (overflow_io calls) (''overflow:'' @ r) package
                    (package_subkeys calls) (dht_records cu package) of
               Inl e \<Rightarrow> Failed e cu
             | Inr store \<Rightarrow>
                (case upsert_all (pointer_codec cp) sources store of
                   None \<Rightarrow> Panicked
                 | Some store \<Rightarrow>
                    (case commit (pointer_codec cp) (config cp) (overflow_io calls)
                            (store, pending_transactions cu, dht_records cu package) of
                       (res, store, txs, d) \<Rightarrow>
                         (let cu = cu\<lparr>pending_transactions := txs,
                                      dht_records := (dht_records cu)(package := d)\<rparr>;
                              all = all_entries store
                          in case res of
                               Inl e \<Rightarrow> Failed e cu
                             | Inr _ \<Rightarrow>
                                if active_messages_per_overflow_record (config cp) < length all
                                then Failed (QuotaExceeded ''messages in one overflow record'') cu
                                else
                                 (case serialize_pointers cp all of
                                    Inl e \<Rightarrow> Failed e cu
                                  | Inr bs \<Rightarrow>
                                     (let cu = cu\<lparr>quota_state :=
                                            set_overflow_count k (length all) (quota_state cu),
                                          overflow_records := AList.update r
                                            \<lparr>ol_recipient = r, ol_record_key = k,
                                             ol_package_index = package,
                                             ol_epoch = random_epoch calls,
                                             ol_below_since = None, retired = False\<rparr>
                                            (overflow_records cu),
                                          overflow_stores :=
                                            AList.update r store (overflow_stores cu)\<rparr>;
                                          st = Overflow k (random_epoch calls)
                                            (length all mod 2 ^ 32) (length bs mod 2 ^ 32)
                                            (hash_bytes (pointer_codec cp) bs) None
                                      in and_then (or_fail (persist calls) cu)
                                           (\<lambda>_ cu. Returned st cu)))))))))"

definition find_entry ::
  "custodian_params \<Rightarrow> record_key \<Rightarrow> custodian \<Rightarrow> mailbox_recipient_entry option option" where
  "find_entry cp r cu =
    (case mailbox cu of None \<Rightarrow> Some None | Some m \<Rightarrow> get_entry (entry_codec cp) (key_bytes cp r) m)"

definition existing_pointer ::
  "custodian_params \<Rightarrow> record_key \<Rightarrow> bytes \<Rightarrow> mailbox_recipient_entry option \<Rightarrow> custodian \<Rightarrow>
   mail_source_pointer option option" where
  "existing_pointer cp r i current cu =
    (case current of
       None \<Rightarrow> Some None
     | Some e \<Rightarrow>
        (case storage e of
           Inline ps \<Rightarrow> Some (List.find (\<lambda>x. message_id x = i) ps)
         | Overflow _ _ _ _ _ _ \<Rightarrow>
            (case map_of (overflow_stores cu) r of
               None \<Rightarrow> Some None
             | Some s \<Rightarrow> get_entry (pointer_codec cp) i s)))"

definition new_entry ::
  "custodian_calls \<Rightarrow> record_key \<Rightarrow> mail_source_pointer \<Rightarrow> mailbox_recipient_entry" where
  "new_entry calls r p =
     \<lparr>recipient_main_dht = r, storage = Inline [], newest_posted_at = posted_at p,
      newest_first_seen_at = first_observed_at p, last_recipient_check = now calls,
      last_sender_check = now calls\<rparr>"

text \<open>The entry with the pointer in it, and the sources to promote when it has become too big.\<close>

definition store_pointer ::
  "custodian_params \<Rightarrow> record_key \<Rightarrow> mail_source_pointer \<Rightarrow> mailbox_recipient_entry \<Rightarrow> custodian \<Rightarrow>
   (mailbox_recipient_entry \<times> mail_source_pointer list option, custodian) outcome" where
  "store_pointer cp r p entry cu =
    (case storage entry of
       Inline sources \<Rightarrow>
         (let sources = sort_key message_id (upsert_pointer p sources) in
          case serialize_pointers cp sources of
            Inl e \<Rightarrow> Failed e cu
          | Inr bs \<Rightarrow>
             if (recipient_inline_pointer_limit (config cp) < length sources \<or>
                 recipient_inline_byte_limit (config cp) < length bs) \<and>
                length (overflow_records cu) < max_overflow_dhts (config cp)
             then Returned (entry\<lparr>storage := Inline []\<rparr>, Some sources) cu
             else Returned (entry\<lparr>storage := Inline sources\<rparr>, None) cu)
     | Overflow k epoch _ _ _ _ \<Rightarrow>
         (case map_of (overflow_stores cu) r of
            None \<Rightarrow> Failed (StoreCorrupt ''overflow store missing'') cu
          | Some s \<Rightarrow>
             (case upsert (pointer_codec cp) p s of
                None \<Rightarrow> Panicked
              | Some s \<Rightarrow>
                 (let cu = cu\<lparr>overflow_stores := AList.update r s (overflow_stores cu)\<rparr>;
                      all = all_entries s
                  in if active_messages_per_overflow_record (config cp) < length all
                     then Failed (QuotaExceeded ''messages in one overflow record'') cu
                     else
                      (case serialize_pointers cp all of
                         Inl e \<Rightarrow> Failed e cu
                       | Inr bs \<Rightarrow>
                          (case map_of (overflow_records cu) r of
                             None \<Rightarrow> Failed (StoreCorrupt ''overflow metadata missing'') cu
                           | Some local \<Rightarrow>
                              if ol_record_key local \<noteq> k \<or> ol_epoch local \<noteq> epoch
                              then Failed (StoreCorrupt ''overflow epoch/key mismatch'') cu
                              else Returned
                                (entry\<lparr>storage := describe_overflow cp all bs None (storage entry)\<rparr>,
                                 None) cu))))))"

definition observe_recipient ::
  "custodian_calls \<Rightarrow> record_key \<Rightarrow> bool \<Rightarrow> custodian \<Rightarrow> custodian" where
  "observe_recipient calls r is_new cu =
     cu\<lparr>observed_recipients := amodify r
          (\<lambda>x. x\<lparr>last_seen := now calls,
                 source_count := (if is_new then sat_add u32_max (source_count x) 1
                                  else source_count x),
                 stored_locally := True\<rparr>)
          (or_insert r \<lparr>or_recipient = r, first_seen = now calls, last_seen = now calls,
             last_verified_receiving = Some (now calls), source_count = 0, stored_locally = True\<rparr>
             (observed_recipients cu))\<rparr>"

definition promote_sources ::
  "custodian_params \<Rightarrow> custodian_calls \<Rightarrow> record_key \<Rightarrow>
   mailbox_recipient_entry \<times> mail_source_pointer list option \<Rightarrow> custodian \<Rightarrow>
   (mailbox_recipient_entry, custodian) outcome" where
  "promote_sources cp calls r ep cu =
    (case snd ep of
       None \<Rightarrow> Returned (fst ep) cu
     | Some sources \<Rightarrow>
        if active_messages_per_overflow_record (config cp) < length sources
        then Failed (QuotaExceeded ''messages in one overflow record'') cu
        else and_then (promote_recipient_to_overflow cp calls r sources cu)
               (\<lambda>st cu. Returned ((fst ep)\<lparr>storage := st\<rparr>) cu))"

definition note_if_new ::
  "bool \<Rightarrow> record_key \<Rightarrow> mail_source_pointer \<Rightarrow> record_key option \<Rightarrow> custodian \<Rightarrow> custodian" where
  "note_if_new is_new r p rec cu =
    (if is_new then cu\<lparr>quota_state := note_added r p rec (quota_state cu)\<rparr> else cu)"

text \<open>The pointer is put into the entry and the entry into the mailbox; was the recipient promoted?\<close>

definition place_pointer ::
  "custodian_params \<Rightarrow> custodian_calls \<Rightarrow> record_key \<Rightarrow> mail_source_pointer \<Rightarrow>
   mailbox_recipient_entry \<Rightarrow> bool \<Rightarrow> record_key option \<Rightarrow> custodian \<Rightarrow> (bool, custodian) outcome" where
  "place_pointer cp calls r p entry is_new rec cu =
     and_then (store_pointer cp r p entry cu) (\<lambda>ep cu.
     and_then (promote_sources cp calls r ep cu) (\<lambda>entry cu.
       let promoted = (snd ep \<noteq> None);
           entry = entry\<lparr>newest_posted_at := max (newest_posted_at entry) (posted_at p),
                         newest_first_seen_at :=
                           max (newest_first_seen_at entry) (first_observed_at p)\<rparr>
       in if mailbox cu = None
          then Failed (StoreCorrupt ''custodian mailbox store missing'') cu
          else and_then (upsert_entry cp entry cu) (\<lambda>_ cu.
            Returned promoted (note_if_new is_new r p (if promoted then None else rec) cu))))"

definition reused_id :: "mail_source_pointer \<Rightarrow> mail_source_pointer option \<Rightarrow> bool" where
  "reused_id p existing =
    (case existing of
       None \<Rightarrow> False
     | Some x \<Rightarrow> sender_main_dht x \<noteq> sender_main_dht p \<or> mail_send_dht x \<noteq> mail_send_dht p)"

definition add_pointer_to_custodian_mailbox ::
  "custodian_params \<Rightarrow> custodian_calls \<Rightarrow> record_key \<Rightarrow> mail_source_pointer \<Rightarrow>
   custodian \<Rightarrow> (unit, custodian) outcome" where
  "add_pointer_to_custodian_mailbox cp calls r p cu =
    (case find_entry cp r cu of
       None \<Rightarrow> Panicked
     | Some current \<Rightarrow>
    (case existing_pointer cp r (message_id p) current cu of
       None \<Rightarrow> Panicked
     | Some existing \<Rightarrow>
        if reused_id p existing
        then Failed (InvalidMessage
          ''message id was reused with a different sender or MailSend DHT'') cu
        else
         (let rec = Option.bind current entry_record;
              is_new = (existing = None);
              entry = (case current of Some e \<Rightarrow> e | None \<Rightarrow> new_entry calls r p)
          in and_then (or_fail (if is_new then ensure_can_add (config cp) r p rec (quota_state cu)
                                else None) cu) (\<lambda>_ cu.
             and_then (place_pointer cp calls r p entry is_new rec cu) (\<lambda>promoted cu.
             and_then
               (if promoted
                then and_then (commit_mailbox cp (mailbox_io calls) cu)
                       (\<lambda>_ cu. or_fail (persist_again calls) cu)
                else Returned () cu)
               (\<lambda>_ cu. Returned () (observe_recipient calls r is_new cu)))))))"

subsection \<open>Removing pointers\<close>

definition note_all_removed ::
  "record_key \<Rightarrow> (mail_source_pointer \<times> record_key option) list \<Rightarrow> custodian \<Rightarrow> custodian" where
  "note_all_removed r removed cu =
     cu\<lparr>quota_state := foldl (\<lambda>q (p, rec). note_removed r p rec q) (quota_state cu) removed\<rparr>"

definition remove_pointer_from ::
  "custodian_params \<Rightarrow> bytes \<Rightarrow> mailbox_recipient_entry \<Rightarrow> custodian \<Rightarrow> (unit, custodian) outcome" where
  "remove_pointer_from cp i e cu =
    (let r = recipient_main_dht e in
     case storage e of
       Inline sources \<Rightarrow>
         (case position (\<lambda>x. message_id x = i) sources of
            None \<Rightarrow> Returned () cu
          | Some j \<Rightarrow>
             upsert_entry cp (e\<lparr>storage := Inline (remove_at j sources)\<rparr>)
               (note_all_removed r [(sources ! j, None)] cu))
     | Overflow k _ _ _ _ since \<Rightarrow>
         (case map_of (overflow_stores cu) r of
            None \<Rightarrow> Returned () cu
          | Some s \<Rightarrow>
             (case remove_entry (pointer_codec cp) i s of
                None \<Rightarrow> Panicked
              | Some (None, s) \<Rightarrow> Returned () cu
              | Some (Some p, s) \<Rightarrow>
                 (let cu = cu\<lparr>overflow_stores := AList.update r s (overflow_stores cu)\<rparr> in
                  case serialize_pointers cp (all_entries s) of
                    Inl err \<Rightarrow> Failed err cu
                  | Inr bs \<Rightarrow>
                     upsert_entry cp
                       (e\<lparr>storage := describe_overflow cp (all_entries s) bs since (storage e)\<rparr>)
                       (note_all_removed r [(p, Some k)] cu)))))"

definition entries_of :: "custodian \<Rightarrow> mailbox_recipient_entry list" where
  "entries_of cu = (case mailbox cu of None \<Rightarrow> [] | Some m \<Rightarrow> all_entries m)"

definition remove_pointer_everywhere ::
  "custodian_params \<Rightarrow> bytes \<Rightarrow> custodian \<Rightarrow> (unit, custodian) outcome" where
  "remove_pointer_everywhere cp i cu = for_each (remove_pointer_from cp i) (entries_of cu) cu"

definition pointer_expired :: "mailbox_config \<Rightarrow> nat \<Rightarrow> mail_source_pointer \<Rightarrow> bool" where
  "pointer_expired cfg t p \<longleftrightarrow>
     requested_expires_at p \<le> t \<or> sat_add u64_max (posted_at p) (max_message_age_secs cfg) \<le> t"

definition expire_entry ::
  "custodian_params \<Rightarrow> nat \<Rightarrow> mailbox_recipient_entry \<Rightarrow> custodian \<Rightarrow> (unit, custodian) outcome" where
  "expire_entry cp t e cu =
    (let r = recipient_main_dht e; gone = pointer_expired (config cp) t in
     case storage e of
       Inline sources \<Rightarrow>
         (let removed = filter gone sources in
          if removed = [] then Returned () cu
          else upsert_entry cp (e\<lparr>storage := Inline (filter (\<lambda>x. \<not> gone x) sources)\<rparr>)
                 (note_all_removed r (map (\<lambda>p. (p, None)) removed) cu))
     | Overflow k _ _ _ _ since \<Rightarrow>
         (case map_of (overflow_stores cu) r of
            None \<Rightarrow> Returned () cu
          | Some s \<Rightarrow>
             (case remove_all (pointer_codec cp) (map message_id (filter gone (all_entries s))) s of
                None \<Rightarrow> Panicked
              | Some (removed, s) \<Rightarrow>
                 (let cu = cu\<lparr>overflow_stores := AList.update r s (overflow_stores cu)\<rparr> in
                  if removed = [] then Returned () cu
                  else
                   (case serialize_pointers cp (all_entries s) of
                      Inl err \<Rightarrow> Failed err cu
                    | Inr bs \<Rightarrow>
                       upsert_entry cp
                         (e\<lparr>storage := describe_overflow cp (all_entries s) bs since (storage e)\<rparr>)
                         (note_all_removed r (map (\<lambda>p. (p, Some k)) removed) cu))))))"

definition expire_custodian_entries ::
  "custodian_params \<Rightarrow> nat \<Rightarrow> custodian \<Rightarrow> (unit, custodian) outcome" where
  "expire_custodian_entries cp t cu = for_each (expire_entry cp t) (entries_of cu) cu"

subsection \<open>Falling back to an inline entry\<close>

definition set_below_since ::
  "record_key \<Rightarrow> nat option \<Rightarrow> custodian \<Rightarrow> custodian" where
  "set_below_since r since cu =
     cu\<lparr>overflow_records := amodify r (\<lambda>l. l\<lparr>ol_below_since := since\<rparr>) (overflow_records cu)\<rparr>"

definition demote_recipient ::
  "custodian_params \<Rightarrow> custodian_calls \<Rightarrow> mailbox_recipient_entry \<Rightarrow> custodian \<Rightarrow>
   (unit, custodian) outcome" where
  "demote_recipient cp calls e cu =
    (case storage e of
       Inline _ \<Rightarrow> Returned () cu
     | Overflow k epoch n len digest below \<Rightarrow>
         (let r = recipient_main_dht e in
          if \<not> (n \<le> overflow_demote_pointer_limit (config cp) \<and>
                len \<le> overflow_demote_byte_limit (config cp))
          then upsert_entry cp (e\<lparr>storage := Overflow k epoch n len digest None\<rparr>)
                 (set_below_since r None cu)
          else
           (let since = (case below of Some t \<Rightarrow> t | None \<Rightarrow> now calls);
                cu = set_below_since r (Some since) cu
            in if now calls < sat_add u64_max since (overflow_demote_hysteresis_secs (config cp))
               then upsert_entry cp (e\<lparr>storage := Overflow k epoch n len digest (Some since)\<rparr>) cu
               else case map_of (overflow_stores cu) r of
                 None \<Rightarrow> Failed (StoreCorrupt ''overflow store missing'') cu
               | Some s \<Rightarrow>
                  and_then (upsert_entry cp (e\<lparr>storage := Inline (all_entries s)\<rparr>) cu) (\<lambda>_ cu.
                  and_then (commit_mailbox cp (mailbox_io calls) cu) (\<lambda>_ cu.
                  Returned ()
                    (cu\<lparr>overflow_records :=
                          amodify r (\<lambda>l. l\<lparr>retired := True\<rparr>) (overflow_records cu),
                        overflow_stores := AList.delete r (overflow_stores cu),
                        quota_state := remove_overflow_record k (quota_state cu)\<rparr>))))))"

definition consider_overflow_demotion ::
  "custodian_params \<Rightarrow> custodian_calls \<Rightarrow> custodian \<Rightarrow> (unit, custodian) outcome" where
  "consider_overflow_demotion cp calls cu = for_each (demote_recipient cp calls) (entries_of cu) cu"

subsection \<open>Flushing\<close>

definition flush_overflow_store ::
  "custodian_params \<Rightarrow> custodian_calls \<Rightarrow> record_key \<Rightarrow> custodian \<Rightarrow> (unit, custodian) outcome" where
  "flush_overflow_store cp calls r cu =
    (case map_of (overflow_stores cu) r of
       None \<Rightarrow> Returned () cu
     | Some s \<Rightarrow>
        (case commit (pointer_codec cp) (config cp) (flush_io calls (package_index s))
                (s, pending_transactions cu, dht_records cu (package_index s)) of
           (res, s', txs, d) \<Rightarrow>
             (let cu = cu\<lparr>overflow_stores := AList.update r s' (overflow_stores cu),
                          pending_transactions := txs,
                          dht_records := (dht_records cu)(package_index s := d)\<rparr>
              in case res of Inl e \<Rightarrow> Failed e cu | Inr _ \<Rightarrow> Returned () cu)))"

text \<open>
  \<open>flush_pending_writes\<close> up to the mailbox: the overflow records are committed before the mailbox
  that points to them. The result says whether the advertisement has to be published again. The
  outbox and the response store that follow are separate stores with the same commit.
\<close>

definition flush_custodian ::
  "custodian_params \<Rightarrow> custodian_calls \<Rightarrow> custodian \<Rightarrow> (bool, custodian) outcome" where
  "flush_custodian cp calls cu =
     and_then (for_each (flush_overflow_store cp calls) (map fst (overflow_stores cu)) cu)
       (\<lambda>_ cu. and_then (commit_mailbox cp (mailbox_io calls) cu)
         (\<lambda>changed cu. and_then (or_fail (persist calls) cu) (\<lambda>_ cu. Returned changed cu)))"

subsection \<open>Start-up repair\<close>

definition reconcile_entry ::
  "custodian_params \<Rightarrow> mailbox_recipient_entry \<Rightarrow> bool \<times> custodian \<Rightarrow>
   (bool, custodian) outcome" where
  "reconcile_entry cp e bcu =
    (let (changed, cu) = bcu; r = recipient_main_dht e in
     case (storage e, map_of (overflow_records cu) r, map_of (overflow_stores cu) r) of
       (Overflow k epoch n len digest since, Some local, Some s) \<Rightarrow>
         if ol_record_key local \<noteq> k \<or> ol_epoch local \<noteq> epoch then Returned changed cu
         else
          (let all = all_entries s in
           case serialize_pointers cp all of
             Inl err \<Rightarrow> Failed err cu
           | Inr bs \<Rightarrow>
              (let st = Overflow k epoch (min (length all) u32_max) (min (length bs) u32_max)
                          (hash_bytes (pointer_codec cp) bs) since
               in if st = storage e then Returned changed cu
                  else and_then (upsert_entry cp (e\<lparr>storage := st\<rparr>) cu)
                         (\<lambda>_ cu. Returned True cu)))
     | _ \<Rightarrow> Returned changed cu)"

fun reconcile_entries ::
  "custodian_params \<Rightarrow> mailbox_recipient_entry list \<Rightarrow> bool \<Rightarrow> custodian \<Rightarrow>
   (bool, custodian) outcome" where
  "reconcile_entries cp [] changed cu = Returned changed cu"
| "reconcile_entries cp (e # es) changed cu =
     and_then (reconcile_entry cp e (changed, cu)) (reconcile_entries cp es)"

definition reconcile_overflow_parent_metadata ::
  "custodian_params \<Rightarrow> custodian_calls \<Rightarrow> custodian \<Rightarrow> (bool, custodian) outcome" where
  "reconcile_overflow_parent_metadata cp calls cu =
     and_then (reconcile_entries cp (entries_of cu) False cu) (\<lambda>changed cu.
       if changed
       then and_then (commit_mailbox cp (mailbox_io calls) cu) (\<lambda>_ cu. Returned True cu)
       else Returned False cu)"

end
