(* ===== verification/Mailbox_Custody.thy ===== *)
theory Mailbox_Custody
  imports Mailbox_Custodian
begin

text \<open>
  The state of a custodian between calls: every store is backed by its record, every recipient with
  an overflow record has the store and the metadata for it, no record is shared, the counters are
  exact and no limit is exceeded. The lemmas here say what replacing the entry of one recipient does
  to all of that.
\<close>

text \<open>What is assumed of the parameters.\<close>

definition params_ok :: "custodian_params \<Rightarrow> bool" where
  "params_ok cp \<longleftrightarrow> codec_ok (entry_codec cp) \<and> codec_ok (pointer_codec cp) \<and>
     (\<forall>e. page_key (entry_codec cp) e = key_bytes cp (recipient_main_dht e)) \<and>
     (\<forall>p. page_key (pointer_codec cp) p = message_id p) \<and> limits_ok (config cp)"

definition overflow_backed :: "custodian_params \<Rightarrow> custodian \<Rightarrow> bool" where
  "overflow_backed cp cu \<longleftrightarrow> keys_distinct (overflow_stores cu) \<and>
     (\<forall>r s. map_of (overflow_stores cu) r = Some s \<longrightarrow>
        backed (pointer_codec cp) s (dht_records cu (package_index s)) \<and>
        (\<forall>m. mailbox cu = Some m \<longrightarrow> package_index s \<noteq> package_index m) \<and>
        (\<forall>r' s'. map_of (overflow_stores cu) r' = Some s' \<longrightarrow> r' \<noteq> r \<longrightarrow>
           package_index s' \<noteq> package_index s))"

definition entry_linked :: "custodian \<Rightarrow> mailbox_recipient_entry \<Rightarrow> bool" where
  "entry_linked cu e \<longleftrightarrow>
     (case storage e of
        Inline ps \<Rightarrow> distinct (map message_id ps)
      | Overflow k epoch _ _ _ _ \<Rightarrow>
          map_of (overflow_stores cu) (recipient_main_dht e) \<noteq> None \<and>
          (case map_of (overflow_records cu) (recipient_main_dht e) of
             None \<Rightarrow> False | Some l \<Rightarrow> ol_record_key l = k \<and> ol_epoch l = epoch))"

definition custodian_shape :: "custodian_params \<Rightarrow> custodian \<Rightarrow> bool" where
  "custodian_shape cp cu \<longleftrightarrow>
     (case mailbox cu of
        None \<Rightarrow> False | Some m \<Rightarrow> backed (entry_codec cp) m (dht_records cu (package_index m))) \<and>
     overflow_backed cp cu \<and> (\<forall>e \<in> set (entries_of cu). entry_linked cu e) \<and>
     (\<forall>k. count (record_keys_of (mset (entries_of cu))) k \<le> 1)"

abbreviation held_pairs :: "custodian \<Rightarrow> (record_key \<times> record_key) multiset" where
  "held_pairs cu \<equiv> pairs_of (overflow_stores cu) (mset (entries_of cu))"

abbreviation held_records :: "custodian \<Rightarrow> record_key multiset" where
  "held_records cu \<equiv> records_of (overflow_stores cu) (mset (entries_of cu))"

definition custodian_ok :: "custodian_params \<Rightarrow> custodian \<Rightarrow> bool" where
  "custodian_ok cp cu \<longleftrightarrow> custodian_shape cp cu \<and>
     quota_counts (quota_state cu) (held_pairs cu) (held_records cu) \<and>
     within_limits (config cp) (held_pairs cu) (held_records cu)"

text \<open>The other entries: those whose key differs from the recipient's.\<close>

definition rest_of :: "custodian_params \<Rightarrow> record_key \<Rightarrow> custodian \<Rightarrow> mailbox_recipient_entry multiset"
  where "rest_of cp r cu = without (entry_codec cp) (key_bytes cp r) (mset (entries_of cu))"

text \<open>The pointers held for a recipient.\<close>

definition held_for :: "custodian \<Rightarrow> record_key \<Rightarrow> mail_source_pointer list" where
  "held_for cu r = concat (map (entry_sources (overflow_stores cu))
     (filter (\<lambda>e. recipient_main_dht e = r) (entries_of cu)))"

definition holds_message :: "custodian \<Rightarrow> record_key \<Rightarrow> bytes \<Rightarrow> bool" where
  "holds_message cu r i \<longleftrightarrow> list_ex (\<lambda>x. message_id x = i) (held_for cu r)"

definition mailbox_generation :: "custodian \<Rightarrow> nat" where
  "mailbox_generation cu = (case mailbox cu of None \<Rightarrow> 0 | Some m \<Rightarrow> store_generation m)"

subsection \<open>Splitting off one recipient\<close>

lemma pairs_of_simps [simp]:
  "pairs_of ovs {#} = {#}" "pairs_of ovs (add_mset e M) = entry_pairs ovs e + pairs_of ovs M"
  by (simp_all add: pairs_of_def)

lemma records_of_simps [simp]:
  "records_of ovs {#} = {#}" "records_of ovs (add_mset e M) = entry_records ovs e + records_of ovs M"
  by (simp_all add: records_of_def)

lemma record_keys_of_simps [simp]:
  "record_keys_of {#} = {#}"
  "record_keys_of (add_mset e M) = of_record (entry_record e) + record_keys_of M"
  by (simp_all add: record_keys_of_def)

lemma agree_off:
  assumes "\<forall>e \<in># M. recipient_main_dht e \<noteq> r" "\<forall>r'. r' \<noteq> r \<longrightarrow> map_of ovs' r' = map_of ovs r'"
  shows "pairs_of ovs' M = pairs_of ovs M" "records_of ovs' M = records_of ovs M"
proof -
  have "entry_sources ovs' e = entry_sources ovs e" if "e \<in># M" for e
    using assms that by (simp add: entry_sources_def split: recipient_source_storage.split)
  then have "entry_pairs ovs' e = entry_pairs ovs e \<and> entry_records ovs' e = entry_records ovs e"
    if "e \<in># M" for e
    using that by (simp add: entry_pairs_def entry_records_def split: option.split)
  then show "pairs_of ovs' M = pairs_of ovs M" "records_of ovs' M = records_of ovs M"
    by (simp_all add: pairs_of_def records_of_def cong: image_mset_cong)
qed

lemma rest_names: "params_ok cp \<Longrightarrow> e \<in># rest_of cp r cu \<Longrightarrow> recipient_main_dht e \<noteq> r"
  by (auto simp: rest_of_def without_def params_ok_def)

lemma rest_subset: "e \<in># rest_of cp r cu \<Longrightarrow> e \<in> set (entries_of cu)"
  by (simp add: rest_of_def without_def)

lemma entries_with:
  assumes "params_ok cp" "custodian_shape cp cu" "e \<in> set (entries_of cu)"
    "recipient_main_dht e = r"
  shows "mset (entries_of cu) = add_mset e (rest_of cp r cu)"
proof -
  obtain m where m: "mailbox cu = Some m" "store_ok (entry_codec cp) m"
    using assms(2) by (auto simp: custodian_shape_def backed_def split: option.splits)
  have "store_map (entry_codec cp) m (key_bytes cp r) = Some e"
    using assms m store_map_Some [OF m(2)] by (simp add: entries_of_def params_ok_def)
  with entries_split [OF m(2), of "key_bytes cp r"] m(1) show ?thesis
    by (simp add: rest_of_def entries_of_def)
qed

lemma set_held_for:
  "set (held_for cu r) =
     (\<Union>e \<in> {e. e \<in># mset (entries_of cu) \<and> recipient_main_dht e = r}. set (entry_sources (overflow_stores cu) e))"
  by (auto simp: held_for_def)

lemma held_for_own:
  assumes "params_ok cp" "mset (entries_of cu') = add_mset e (rest_of cp r cu)"
    "recipient_main_dht e = r"
  shows "set (held_for cu' r) = set (entry_sources (overflow_stores cu') e)"
  using rest_names [OF assms(1), of _ r cu] by (auto simp: set_held_for assms(2,3))

lemma held_for_other:
  assumes "params_ok cp" "mset (entries_of cu') = add_mset e (rest_of cp r cu)"
    "recipient_main_dht e = r" "custodian_shape cp cu" "e0 \<in> set (entries_of cu)"
    "recipient_main_dht e0 = r"
    "\<forall>r'. r' \<noteq> r \<longrightarrow> map_of (overflow_stores cu') r' = map_of (overflow_stores cu) r'" "r' \<noteq> r"
  shows "set (held_for cu' r') = set (held_for cu r')"
proof -
  have "entry_sources (overflow_stores cu') x = entry_sources (overflow_stores cu) x"
    if "recipient_main_dht x = r'" for x
    using assms(7,8) that by (simp add: entry_sources_def split: recipient_source_storage.split)
  then show ?thesis using assms(3,6,8)
    by (auto simp: set_held_for assms(2) entries_with [OF assms(1,4,5,6)])
qed

lemma put_entry:
  assumes cp: "params_ok cp" and shape: "custodian_shape cp cu"
    and same: "mailbox cu1 = mailbox cu"
      "\<forall>m. mailbox cu = Some m \<longrightarrow> dht_records cu1 (package_index m) = dht_records cu (package_index m)"
    and ovs: "overflow_backed cp cu1"
      "\<forall>r'. r' \<noteq> r \<longrightarrow> map_of (overflow_stores cu1) r' = map_of (overflow_stores cu) r' \<and>
         map_of (overflow_records cu1) r' = map_of (overflow_records cu) r'"
    and e: "recipient_main_dht e = r" "entry_linked cu1 e"
      "\<forall>k. entry_record e = Some k \<longrightarrow> k \<notin># record_keys_of (rest_of cp r cu)"
  obtains cu2 where "upsert_entry cp e cu1 = Returned () cu2" "custodian_shape cp cu2"
    "cu2 = cu1\<lparr>mailbox := mailbox cu2\<rparr>"
    "held_pairs cu2 = entry_pairs (overflow_stores cu1) e +
       pairs_of (overflow_stores cu) (rest_of cp r cu)"
    "held_records cu2 = entry_records (overflow_stores cu1) e +
       records_of (overflow_stores cu) (rest_of cp r cu)"
    "rest_of cp r cu2 = rest_of cp r cu" "mailbox_generation cu2 = mailbox_generation cu"
    "mset (entries_of cu2) = add_mset e (rest_of cp r cu)"
proof -
  let ?c = "entry_codec cp" and ?k = "key_bytes cp r"
  obtain m where m: "mailbox cu = Some m" "backed ?c m (dht_records cu (package_index m))"
    using shape by (auto simp: custodian_shape_def split: option.splits)
  have key: "page_key ?c e = ?k" using cp e(1) by (simp add: params_ok_def)
  obtain m' where m': "upsert ?c e m = Some m'" "backed ?c m' (dht_records cu (package_index m))"
    "mset (all_entries m') = add_mset e (without ?c ?k (mset (all_entries m)))"
    "package_index m' = package_index m" "store_generation m' = store_generation m"
    using upsert_backed [OF m(2), of e] by (auto simp: key)
  let ?cu2 = "cu1\<lparr>mailbox := Some m'\<rparr>"
  have rest: "rest_of cp r cu = without ?c ?k (mset (all_entries m))"
    by (simp add: rest_of_def entries_of_def m(1))
  have mset2: "mset (entries_of ?cu2) = add_mset e (rest_of cp r cu)"
    by (simp add: entries_of_def m'(3) rest)
  have "\<forall>x \<in># rest_of cp r cu. recipient_main_dht x \<noteq> r" using rest_names [OF cp] by blast
  note off = agree_off [OF this, of "overflow_stores cu1" "overflow_stores cu"]
  have sums: "held_pairs ?cu2 = entry_pairs (overflow_stores cu1) e +
       pairs_of (overflow_stores cu) (rest_of cp r cu)"
    "held_records ?cu2 = entry_records (overflow_stores cu1) e +
       records_of (overflow_stores cu) (rest_of cp r cu)"
    using off ovs(2) by (simp_all add: mset2)
  have "entry_linked ?cu2 x" if "x \<in> set (entries_of ?cu2)" for x
  proof -
    have "x = e \<or> x \<in># rest_of cp r cu" using that mset2 by (metis insert_iff set_mset_add_mset_insert set_mset_mset)
    then show ?thesis
    proof
      assume "x = e"
      then show ?thesis using e(2) by (cases "storage e") (simp_all add: entry_linked_def)
    next
      assume x: "x \<in># rest_of cp r cu"
      then have "entry_linked cu x" using shape rest_subset [OF x] by (simp add: custodian_shape_def)
      then show ?thesis using ovs(2) rest_names [OF cp x]
        by (cases "storage x") (simp_all add: entry_linked_def)
    qed
  qed
  moreover have "count (record_keys_of (mset (entries_of ?cu2))) k \<le> 1" for k
  proof -
    have "rest_of cp r cu \<subseteq># mset (entries_of cu)" by (simp add: rest_of_def without_def)
    then have "record_keys_of (rest_of cp r cu) \<subseteq># record_keys_of (mset (entries_of cu))"
      by (metis record_keys_of_def image_mset_union mset_subset_eq_add_left mset_subset_eq_exists_conv sum_mset.union)
    then have "count (record_keys_of (rest_of cp r cu)) k \<le> 1"
      using shape by (metis custodian_shape_def le_trans mset_subset_eq_count)
    then show ?thesis unfolding mset2 using e(3)
      by (auto simp: of_record_def not_in_iff split: option.split)
  qed
  moreover have "overflow_backed cp ?cu2"
    using ovs(1) same(1) m'(4) m(1) by (simp add: overflow_backed_def)
  ultimately have "custodian_shape cp ?cu2"
    using m' same m(1) by (simp add: custodian_shape_def)
  moreover have "upsert_entry cp e cu1 = Returned () ?cu2"
    using same(1) m(1) m'(1) by (simp add: upsert_entry_def)
  moreover have "rest_of cp r ?cu2 = rest_of cp r cu"
    using key by (simp add: rest_of_def [of cp r ?cu2] mset2) (simp add: rest_of_def without_def filter_filter_mset)
  ultimately show ?thesis using sums m'(5) m(1) mset2
    by (intro that [of ?cu2]) (simp_all add: mailbox_generation_def)
qed

subsection \<open>Shrinking an entry\<close>

definition tagged :: "record_key option \<Rightarrow> nat \<Rightarrow> record_key multiset" where
  "tagged rec n = (case rec of None \<Rightarrow> {#} | Some k \<Rightarrow> replicate_mset n k)"

lemma entry_records_tagged:
  "entry_records ovs e = tagged (entry_record e) (length (entry_sources ovs e))"
  by (simp add: entry_records_def tagged_def)

lemma tagged_Suc: "tagged rec (Suc n) = of_record rec + tagged rec n"
  by (simp add: tagged_def of_record_def split: option.split)

lemma tagged_add: "tagged rec (m + n) = tagged rec m + tagged rec n"
  by (simp add: tagged_def multiset_eq_iff split: option.split)

lemma note_all_removed_counts:
  "quota_counts q (source_pairs r ps + P) (tagged rec (length ps) + R) \<Longrightarrow>
   quota_counts (foldl (\<lambda>q (p, rec). note_removed r p rec q) q (map (\<lambda>p. (p, rec)) ps)) P R"
proof (induction ps arbitrary: q)
  case Nil
  then show ?case by (simp add: source_pairs_def tagged_def split: option.splits)
next
  case (Cons p ps)
  then have "quota_counts q (add_mset (sender_main_dht p, r) (source_pairs r ps + P))
      (of_record rec + (tagged rec (length ps) + R))"
    by (simp add: source_pairs_def tagged_Suc add.assoc)
  from Cons.IH [OF note_removed_counts [OF this]] show ?case by simp
qed

lemma source_pairs_union: "source_pairs r ps + source_pairs r qs = source_pairs r (ps @ qs)"
  by (simp add: source_pairs_def)

lemma source_pairs_mset: "mset ps = mset qs \<Longrightarrow> source_pairs r ps = source_pairs r qs"
  by (simp add: source_pairs_def)

lemma shrink_entry:
  assumes cp: "params_ok cp" and ok: "custodian_ok cp cu" "e \<in> set (entries_of cu)"
    and same: "mailbox cu1 = mailbox cu" "quota_state cu1 = quota_state cu"
      "dht_records cu1 = dht_records cu"
    and ovs: "overflow_backed cp cu1"
      "\<forall>r'. r' \<noteq> recipient_main_dht e \<longrightarrow>
         map_of (overflow_stores cu1) r' = map_of (overflow_stores cu) r' \<and>
         map_of (overflow_records cu1) r' = map_of (overflow_records cu) r'"
    and e': "recipient_main_dht e' = recipient_main_dht e" "entry_record e' = entry_record e"
      "entry_linked cu1 e'"
    and less: "mset (entry_sources (overflow_stores cu) e) =
      mset ps + mset (entry_sources (overflow_stores cu1) e')"
    and run: "upsert_entry cp e' (note_all_removed (recipient_main_dht e)
      (map (\<lambda>p. (p, entry_record e)) ps) cu1) = Returned () cu2"
  shows "custodian_ok cp cu2 \<and> rest_of cp (recipient_main_dht e) cu2 = rest_of cp (recipient_main_dht e) cu \<and>
    mailbox_generation cu2 = mailbox_generation cu \<and>
    (\<forall>r. r \<noteq> recipient_main_dht e \<longrightarrow> set (held_for cu2 r) = set (held_for cu r)) \<and>
    set (held_for cu2 (recipient_main_dht e)) = set (entry_sources (overflow_stores cu1) e')"
proof -
  let ?r = "recipient_main_dht e" and ?S = "overflow_stores cu" and ?S1 = "overflow_stores cu1"
  let ?cu1 = "note_all_removed ?r (map (\<lambda>p. (p, entry_record e)) ps) cu1"
  note ok' = ok(1) [unfolded custodian_ok_def]
  have shape: "custodian_shape cp cu" using ok' by simp
  note M = entries_with [OF cp shape ok(2) refl]
  have backed: "overflow_backed cp ?cu1"
    using ovs(1) by (simp add: overflow_backed_def note_all_removed_def)
  have linked: "entry_linked ?cu1 e'"
    using e'(3) by (cases "storage e'") (simp_all add: entry_linked_def note_all_removed_def)
  have f: "mailbox ?cu1 = mailbox cu1" "overflow_stores ?cu1 = ?S1"
    "overflow_records ?cu1 = overflow_records cu1" "dht_records ?cu1 = dht_records cu1"
    by (simp_all add: note_all_removed_def)
  have fresh: "\<forall>k. entry_record e' = Some k \<longrightarrow> k \<notin># record_keys_of (rest_of cp ?r cu)"
  proof (intro allI impI)
    fix k assume k: "entry_record e' = Some k"
    have "count (record_keys_of (mset (entries_of cu))) k \<le> 1"
      using shape by (simp add: custodian_shape_def)
    then show "k \<notin># record_keys_of (rest_of cp ?r cu)"
      unfolding M using k e'(2) by (simp add: of_record_def not_in_iff)
  qed
  obtain cu2' where put: "upsert_entry cp e' ?cu1 = Returned () cu2'" "custodian_shape cp cu2'"
    "cu2' = ?cu1\<lparr>mailbox := mailbox cu2'\<rparr>"
    "held_pairs cu2' = entry_pairs (overflow_stores ?cu1) e' + pairs_of ?S (rest_of cp ?r cu)"
    "held_records cu2' = entry_records (overflow_stores ?cu1) e' + records_of ?S (rest_of cp ?r cu)"
    "rest_of cp ?r cu2' = rest_of cp ?r cu" "mailbox_generation cu2' = mailbox_generation cu"
    "mset (entries_of cu2') = add_mset e' (rest_of cp ?r cu)"
    by (rule put_entry [OF cp shape _ _ backed _ e'(1) linked fresh])
      (use same ovs(2) in \<open>simp_all only: f, auto\<close>)
  have cu2: "cu2' = cu2" using run put(1) by simp
  have pairs: "entry_pairs ?S e = source_pairs ?r ps + entry_pairs ?S1 e'"
    using source_pairs_mset [of "entry_sources ?S e" "ps @ entry_sources ?S1 e'"] less
    by (simp add: entry_pairs_def e'(1) source_pairs_union)
  have "length (entry_sources ?S e) = length ps + length (entry_sources ?S1 e')"
    using less by (metis size_mset size_union)
  then have recs: "entry_records ?S e = tagged (entry_record e) (length ps) + entry_records ?S1 e'"
    by (simp add: entry_records_tagged tagged_add e'(2))
  have held: "held_pairs cu = source_pairs ?r ps + held_pairs cu2"
    "held_records cu = tagged (entry_record e) (length ps) + held_records cu2"
    using put(4,5) unfolding cu2 M f by (simp_all add: pairs recs add.assoc)
  have "quota_state cu2 = quota_state ?cu1" using put(3) unfolding cu2 by (metis custodian.ext_inject custodian.surjective custodian.update_convs(1))
  then have "quota_counts (quota_state cu2) (held_pairs cu2) (held_records cu2)"
    using note_all_removed_counts ok' held same(2) by (simp add: note_all_removed_def)
  moreover have "within_limits (config cp) (held_pairs cu2) (held_records cu2)"
    by (rule within_limits_mono [of _ "held_pairs cu" "held_records cu"])
      (use ok' held in simp_all)
  ultimately have "custodian_ok cp cu2" using put(2) by (simp add: custodian_ok_def cu2)
  moreover have S2: "overflow_stores cu2 = ?S1"
    using put(3) unfolding cu2
    by (metis f(2) custodian.select_convs(2) custodian.surjective custodian.update_convs(1))
  then have "\<forall>r'. r' \<noteq> ?r \<longrightarrow> map_of (overflow_stores cu2) r' = map_of ?S r'" using ovs(2) by simp
  note other = held_for_other [OF cp put(8) [unfolded cu2] e'(1) shape ok(2) refl this]
  moreover have "set (held_for cu2 ?r) = set (entry_sources ?S1 e')"
    using held_for_own [OF cp put(8) [unfolded cu2] e'(1)] S2 by simp
  ultimately show ?thesis using put(6,7) by (simp add: cu2)
qed

subsection \<open>Loops over the entries\<close>

lemma for_each_entries:
  assumes cp: "params_ok cp"
    and step: "\<And>e es cu cu'. I (e # es) cu \<Longrightarrow> e \<in> set (entries_of cu) \<Longrightarrow> f e cu = Returned () cu' \<Longrightarrow>
      I es cu' \<and> rest_of cp (recipient_main_dht e) cu' = rest_of cp (recipient_main_dht e) cu"
    and "I es cu" "set es \<subseteq> set (entries_of cu)" "distinct (map (page_key (entry_codec cp)) es)"
    and "for_each f es cu = Returned () cu'"
  shows "I [] cu'"
  using assms(3-)
proof (induction es arbitrary: cu)
  case (Cons e es)
  obtain cu1 where run: "f e cu = Returned () cu1" "for_each f es cu1 = Returned () cu'"
    using Cons.prems(4) by (auto simp: and_then_def split: outcome.splits)
  have st: "I es cu1" "rest_of cp (recipient_main_dht e) cu1 = rest_of cp (recipient_main_dht e) cu"
    using step [OF Cons.prems(1) _ run(1)] Cons.prems(2) by simp_all
  have "x \<in> set (entries_of cu1)" if x: "x \<in> set es" for x
  proof -
    have "page_key (entry_codec cp) x \<noteq> page_key (entry_codec cp) e"
      using Cons.prems(3) x by (metis distinct.simps(2) image_eqI list.simps(9) set_map)
    then have "x \<in># rest_of cp (recipient_main_dht e) cu"
      using x Cons.prems(2) cp by (auto simp: rest_of_def without_def params_ok_def)
    then show ?thesis using st(2) rest_subset by metis
  qed
  with Cons.IH [OF st(1) _ _ run(2)] Cons.prems(3) show ?case by auto
qed simp

lemma entries_distinct:
  "custodian_shape cp cu \<Longrightarrow> distinct (map (page_key (entry_codec cp)) (entries_of cu))"
  by (auto simp: custodian_shape_def backed_def entries_of_def store_ok_distinct split: option.splits)

lemma custodian_recipients:
  assumes "params_ok cp" "custodian_shape cp cu"
  shows "distinct (map recipient_main_dht (entries_of cu))"
proof -
  have "map (page_key (entry_codec cp)) (entries_of cu) =
      map (key_bytes cp) (map recipient_main_dht (entries_of cu))"
    using assms(1) by (simp add: params_ok_def)
  with entries_distinct [OF assms(2)] show ?thesis by (metis distinct_map)
qed

end
