(* ===== verification/Mailbox_Custody_Steps.thy ===== *)
theory Mailbox_Custody_Steps
  imports Mailbox_Custody
begin

text \<open>
  The operations of a custodian keep its state in order: removing and expiring pointers, and
  flushing.
\<close>

definition step_ok :: "custodian_params \<Rightarrow> record_key \<Rightarrow> custodian \<Rightarrow> custodian \<Rightarrow> bool" where
  "step_ok cp r cu cu' \<longleftrightarrow> custodian_ok cp cu' \<and> rest_of cp r cu' = rest_of cp r cu \<and>
     mailbox_generation cu' = mailbox_generation cu \<and>
     (\<forall>r'. r' \<noteq> r \<longrightarrow> set (held_for cu' r') = set (held_for cu r'))"

lemma step_ok_refl: "custodian_ok cp cu \<Longrightarrow> step_ok cp r cu cu"
  by (simp add: step_ok_def)

lemma pointer_key: "params_ok cp \<Longrightarrow> page_key (pointer_codec cp) = message_id"
  by (simp add: params_ok_def fun_eq_iff)

lemma stored_ids_distinct:
  "params_ok cp \<Longrightarrow> backed (pointer_codec cp) s d \<Longrightarrow> distinct (map message_id (all_entries s))"
  using store_ok_distinct [of "pointer_codec cp" s] by (simp add: backed_def pointer_key)

lemma backed_store:
  "custodian_ok cp cu \<Longrightarrow> map_of (overflow_stores cu) r = Some s \<Longrightarrow>
   backed (pointer_codec cp) s (dht_records cu (package_index s))"
  by (simp add: custodian_ok_def custodian_shape_def overflow_backed_def)

lemma custodian_overflow: "custodian_ok cp cu \<Longrightarrow> overflow_backed cp cu"
  by (simp add: custodian_ok_def custodian_shape_def)

lemma custodian_linked: "custodian_ok cp cu \<Longrightarrow> e \<in> set (entries_of cu) \<Longrightarrow> entry_linked cu e"
  by (simp add: custodian_ok_def custodian_shape_def)

lemma overflow_backed_update:
  assumes "overflow_backed cp cu" "map_of (overflow_stores cu) r = Some s"
    "backed (pointer_codec cp) s' (dht_records cu (package_index s))"
    "package_index s' = package_index s"
  shows "overflow_backed cp (cu\<lparr>overflow_stores := AList.update r s' (overflow_stores cu)\<rparr>)"
  using assms by (auto simp: overflow_backed_def store_simps)

lemma overflow_backed_records [simp]:
  "overflow_backed cp (cu\<lparr>overflow_records := x\<rparr>) = overflow_backed cp cu"
  "overflow_backed cp (cu\<lparr>quota_state := q\<rparr>) = overflow_backed cp cu"
  "overflow_backed cp (cu\<lparr>pending_transactions := y\<rparr>) = overflow_backed cp cu"
  "overflow_backed cp (cu\<lparr>observed_recipients := z\<rparr>) = overflow_backed cp cu"
  by (simp_all add: overflow_backed_def)

text \<open>Removing pointers from an overflow record, whose entry then describes what is left.\<close>

lemma shrink_overflow:
  assumes cp: "params_ok cp" and ok: "custodian_ok cp cu" "e \<in> set (entries_of cu)"
    and e: "storage e = Overflow k epoch n len dg since"
      "map_of (overflow_stores cu) (recipient_main_dht e) = Some s"
    and s': "backed (pointer_codec cp) s' (dht_records cu (package_index s))"
      "package_index s' = package_index s" "mset (all_entries s) = mset ps + mset (all_entries s')"
    and run: "upsert_entry cp (e\<lparr>storage := describe_overflow cp (all_entries s') bs since (storage e)\<rparr>)
      (note_all_removed (recipient_main_dht e) (map (\<lambda>p. (p, Some k)) ps)
        (cu\<lparr>overflow_stores := AList.update (recipient_main_dht e) s' (overflow_stores cu)\<rparr>)) =
      Returned () cu'"
  shows "step_ok cp (recipient_main_dht e) cu cu'"
    "set (held_for cu' (recipient_main_dht e)) = set (all_entries s')"
proof -
  let ?r = "recipient_main_dht e"
  let ?cu1 = "cu\<lparr>overflow_stores := AList.update ?r s' (overflow_stores cu)\<rparr>"
  let ?e = "e\<lparr>storage := describe_overflow cp (all_entries s') bs since (storage e)\<rparr>"
  have rec: "entry_record e = Some k" by (simp add: entry_record_def e(1))
  have linked: "entry_linked ?cu1 ?e"
    using custodian_linked [OF ok] by (simp add: entry_linked_def e describe_overflow_def store_simps)
  note backed = overflow_backed_update [OF custodian_overflow [OF ok(1)] e(2) s'(1,2)]
  have "mset (entry_sources (overflow_stores cu) e) =
      mset ps + mset (entry_sources (overflow_stores ?cu1) ?e)"
    by (simp add: store_simps describe_overflow_def entry_sources_def e s'(3))
  from shrink_entry [OF cp ok _ _ _ backed _ _ _ linked this run [folded rec]]
  show "step_ok cp ?r cu cu'" "set (held_for cu' ?r) = set (all_entries s')"
    by (simp_all add: step_ok_def store_simps entry_record_def describe_overflow_def
        entry_sources_def e)
qed

lemma shrink_inline:
  assumes cp: "params_ok cp" and ok: "custodian_ok cp cu" "e \<in> set (entries_of cu)"
    and e: "storage e = Inline sources" "mset sources = mset ps + mset qs"
    and run: "upsert_entry cp (e\<lparr>storage := Inline qs\<rparr>)
      (note_all_removed (recipient_main_dht e) (map (\<lambda>p. (p, None)) ps) cu) = Returned () cu'"
  shows "step_ok cp (recipient_main_dht e) cu cu'"
    "set (held_for cu' (recipient_main_dht e)) = set qs"
proof -
  let ?e = "e\<lparr>storage := Inline qs\<rparr>"
  have rec: "entry_record e = None" by (simp add: entry_record_def e(1))
  have "distinct (map message_id sources)"
    using custodian_linked [OF ok] by (simp add: entry_linked_def e(1))
  moreover have "mset (map message_id sources) = mset (map message_id (ps @ qs))"
    using e(2) by simp
  ultimately have "distinct (map message_id (ps @ qs))" by (metis mset_eq_imp_distinct_iff)
  then have linked: "entry_linked cu ?e" by (simp add: entry_linked_def)
  have "mset (entry_sources (overflow_stores cu) e) =
      mset ps + mset (entry_sources (overflow_stores cu) ?e)"
    by (simp add: entry_sources_def e)
  from shrink_entry [OF cp ok _ _ _ custodian_overflow [OF ok(1)] _ _ _ linked this run [folded rec]]
  show "step_ok cp (recipient_main_dht e) cu cu'"
    "set (held_for cu' (recipient_main_dht e)) = set qs"
    by (simp_all add: step_ok_def entry_record_def entry_sources_def e)
qed

text \<open>Replacing an overflow store by one with the same entries.\<close>

lemma swap_store:
  assumes ok: "custodian_ok cp cu" and s: "map_of (overflow_stores cu) r = Some s"
    and s': "backed (pointer_codec cp) s' d'" "package_index s' = package_index s"
      "mset (all_entries s') = mset (all_entries s)"
  shows "custodian_ok cp (cu\<lparr>overflow_stores := AList.update r s' (overflow_stores cu),
    pending_transactions := txs, dht_records := (dht_records cu)(package_index s := d')\<rparr>)"
    (is "custodian_ok cp ?cu")
    and "set (held_for (cu\<lparr>overflow_stores := AList.update r s' (overflow_stores cu),
      pending_transactions := txs, dht_records := (dht_records cu)(package_index s := d')\<rparr>) r') =
      set (held_for cu r')"
proof -
  let ?S = "overflow_stores cu" and ?S' = "overflow_stores ?cu"
  have src: "mset (entry_sources ?S' e) = mset (entry_sources ?S e)" for e
    using s s'(3) by (simp add: entry_sources_def store_simps split: recipient_source_storage.split)
  have "entry_pairs ?S' e = entry_pairs ?S e \<and> entry_records ?S' e = entry_records ?S e" for e
    using source_pairs_mset [OF src] arg_cong [OF src, of size]
    by (simp add: entry_pairs_def entry_records_tagged)
  then have sums: "pairs_of ?S' M = pairs_of ?S M" "records_of ?S' M = records_of ?S M" for M
    by (simp_all add: pairs_of_def records_of_def)
  have ents: "entries_of ?cu = entries_of cu" by (simp add: entries_of_def)
  have sh: "custodian_shape cp cu" using ok by (simp add: custodian_ok_def)
  then have ov: "overflow_backed cp cu" by (simp add: custodian_shape_def)
  have "overflow_backed cp ?cu"
    using ov s s'(1,2) by (auto simp: overflow_backed_def store_simps)
  moreover have "entry_linked ?cu e" if "entry_linked cu e" for e
    using that by (cases "storage e") (auto simp: entry_linked_def store_simps)
  moreover have "package_index m \<noteq> package_index s" if "mailbox cu = Some m" for m
    using ov s that by (metis overflow_backed_def)
  ultimately have "custodian_shape cp ?cu"
    using sh by (simp add: custodian_shape_def ents split: option.splits)
  then show "custodian_ok cp ?cu" using ok sums by (simp add: custodian_ok_def ents)
  have "set (entry_sources ?S' e) = set (entry_sources ?S e)" for e using src by (metis set_mset_mset)
  then show "set (held_for ?cu r') = set (held_for cu r')" by (simp add: set_held_for ents)
qed

text \<open>A step that keeps exactly the pointers of the recipient that satisfy \<open>keep\<close>.\<close>

definition keeps_exactly ::
  "(mail_source_pointer \<Rightarrow> bool) \<Rightarrow> record_key \<Rightarrow> custodian \<Rightarrow> custodian \<Rightarrow> bool" where
  "keeps_exactly keep r cu cu' \<longleftrightarrow> set (held_for cu' r) = {x \<in> set (held_for cu r). keep x}"

lemma held_sources:
  assumes "params_ok cp" "custodian_ok cp cu" "e \<in> set (entries_of cu)"
  shows "set (held_for cu (recipient_main_dht e)) = set (entry_sources (overflow_stores cu) e)"
  using held_for_own [OF assms(1) entries_with [OF assms(1) _ assms(3) refl] refl] assms(2)
  by (simp add: custodian_ok_def)

lemma unchanged_step:
  "custodian_ok cp cu \<Longrightarrow> set (held_for cu r) = A \<Longrightarrow> \<forall>x \<in> A. keep x \<Longrightarrow>
   step_ok cp r cu cu \<and> keeps_exactly keep r cu cu"
  by (auto simp: keeps_exactly_def step_ok_refl)

lemma remove_pointer_step:
  assumes "params_ok cp" "custodian_ok cp cu" "e \<in> set (entries_of cu)"
    and "remove_pointer_from cp i e cu = Returned () cu'"
  shows "step_ok cp (recipient_main_dht e) cu cu' \<and>
    keeps_exactly (\<lambda>x. message_id x \<noteq> i) (recipient_main_dht e) cu cu'"
proof (cases "storage e")
  case (Inline sources)
  note held = held_sources [OF assms(1-3), unfolded entry_sources_def Inline recipient_source_storage.case]
  show ?thesis
  proof (cases "position (\<lambda>x. message_id x = i) sources")
    case None
    have "\<forall>x \<in> set sources. message_id x \<noteq> i" using None by (simp add: position_None)
    from unchanged_step [OF assms(2) held this] show ?thesis
      using assms(4) Inline None by (simp add: remove_pointer_from_def)
  next
    case (Some j)
    then obtain ys z zs where s: "sources = ys @ z # zs" "j = length ys" "message_id z = i"
      using position_split [OF Some] by blast
    have "distinct (map message_id sources)"
      using custodian_linked [OF assms(2,3)] by (simp add: entry_linked_def Inline)
    then have "set (ys @ zs) = {x \<in> set sources. message_id x \<noteq> i}" unfolding s by (auto simp: s(3))
    moreover have "step_ok cp (recipient_main_dht e) cu cu' \<and>
        set (held_for cu' (recipient_main_dht e)) = set (ys @ zs)"
      using shrink_inline [OF assms(1-3) Inline, of "[z]" "ys @ zs" cu'] assms(4) Inline Some s
      by (simp add: remove_pointer_from_def)
    ultimately show ?thesis unfolding keeps_exactly_def held by (simp only: simp_thms)
  qed
next
  case (Overflow k epoch n len dg since)
  let ?r = "recipient_main_dht e" and ?c = "pointer_codec cp"
  note held = held_sources [OF assms(1-3), unfolded entry_sources_def Overflow recipient_source_storage.case]
  show ?thesis
  proof (cases "map_of (overflow_stores cu) ?r")
    case None
    with unchanged_step [OF assms(2) held] assms(4) Overflow show ?thesis
      by (simp add: remove_pointer_from_def)
  next
    case (Some s)
    note b = backed_store [OF assms(2) Some]
    obtain s' where s': "remove_entry ?c i s = Some (store_map ?c s i, s')"
      "backed ?c s' (dht_records cu (package_index s))"
      "mset (all_entries s') = without ?c i (mset (all_entries s))"
      "package_index s' = package_index s" by (rule remove_backed [OF b])
    have left: "set (all_entries s') = {x \<in> set (all_entries s). message_id x \<noteq> i}"
      using arg_cong [OF s'(3), of set_mset] by (simp add: without_def pointer_key [OF assms(1)])
    show ?thesis
    proof (cases "store_map ?c s i")
      case None
      then have "\<forall>x \<in> set (all_entries s). message_id x \<noteq> i"
        by (simp add: store_map_None pointer_key [OF assms(1)])
      with unchanged_step [OF assms(2) held] assms(4) Overflow Some None s'(1) show ?thesis
        by (simp add: remove_pointer_from_def)
    next
      case p: (Some p)
      have ms: "mset (all_entries s) = mset [p] + mset (all_entries s')"
        using entries_split [of ?c s i] b p s'(3) by (simp add: backed_def)
      obtain bs where "serialize_pointers cp (all_entries s') = Inr bs"
        using assms(4) Overflow Some s'(1) p
        by (cases "serialize_pointers cp (all_entries s')") (simp_all add: remove_pointer_from_def)
      then show ?thesis using assms(4) Overflow Some s'(1) p held left
          shrink_overflow [OF assms(1-3) Overflow Some s'(2,4) ms, of bs cu']
        by (simp add: remove_pointer_from_def Let_def keeps_exactly_def)
    qed
  qed
qed

lemma expire_step:
  assumes "params_ok cp" "custodian_ok cp cu" "e \<in> set (entries_of cu)"
    and "expire_entry cp t e cu = Returned () cu'"
  shows "step_ok cp (recipient_main_dht e) cu cu' \<and>
    keeps_exactly (\<lambda>x. \<not> pointer_expired (config cp) t x) (recipient_main_dht e) cu cu'"
proof (cases "storage e")
  case (Inline sources)
  note held = held_sources [OF assms(1-3), unfolded entry_sources_def Inline recipient_source_storage.case]
  let ?gone = "pointer_expired (config cp) t"
  show ?thesis
  proof (cases "filter ?gone sources = []")
    case True
    then have "\<forall>x \<in> set sources. \<not> ?gone x" by (simp add: filter_empty_conv)
    from unchanged_step [OF assms(2) held this] show ?thesis
      using assms(4) Inline True by (simp add: expire_entry_def Let_def)
  next
    case False
    then show ?thesis
      using shrink_inline [OF assms(1-3) Inline, of "filter ?gone sources" "filter (\<lambda>x. \<not> ?gone x) sources" cu']
        assms(4) Inline held
      by (simp add: expire_entry_def Let_def keeps_exactly_def flip: multiset_partition)
  qed
next
  case (Overflow k epoch n len dg since)
  let ?r = "recipient_main_dht e" and ?c = "pointer_codec cp" and ?gone = "pointer_expired (config cp) t"
  note held = held_sources [OF assms(1-3), unfolded entry_sources_def Overflow recipient_source_storage.case]
  show ?thesis
  proof (cases "map_of (overflow_stores cu) ?r")
    case None
    with unchanged_step [OF assms(2) held] assms(4) Overflow show ?thesis
      by (simp add: expire_entry_def)
  next
    case (Some s)
    let ?ids = "map message_id (filter ?gone (all_entries s))"
    note b = backed_store [OF assms(2) Some]
    obtain ps s' where s': "remove_all ?c ?ids s = Some (ps, s')"
      "backed ?c s' (dht_records cu (package_index s))"
      "mset (all_entries s) = mset ps + mset (all_entries s')" "package_index s' = package_index s"
      "mset (all_entries s') = filter_mset (\<lambda>x. page_key ?c x \<notin> set ?ids) (mset (all_entries s))"
      by (rule remove_all_backed [OF b])
    have "inj_on message_id (set (all_entries s))"
      using stored_ids_distinct [OF assms(1) b] by (simp add: distinct_map)
    then have left: "set (all_entries s') = {x \<in> set (all_entries s). \<not> ?gone x}"
      using arg_cong [OF s'(5), of set_mset]
      by (auto simp: pointer_key [OF assms(1)] inj_on_def)
    show ?thesis
    proof (cases "ps = []")
      case True
      have cu': "cu' = cu\<lparr>overflow_stores := AList.update ?r s' (overflow_stores cu)\<rparr>"
        using assms(4) Overflow Some s'(1) True by (simp add: expire_entry_def Let_def)
      have same: "mset (all_entries s') = mset (all_entries s)" using s'(3) True by simp
      then have "set (all_entries s') = set (all_entries s)" by (metis set_mset_mset)
      then have "keeps_exactly (\<lambda>x. \<not> ?gone x) ?r cu cu'"
        using left held Some swap_store(2) [OF assms(2) Some s'(2,4) same, of "pending_transactions cu" ?r]
        by (auto simp: cu' keeps_exactly_def)
      moreover have "step_ok cp ?r cu cu'"
        using swap_store [OF assms(2) Some s'(2,4) same, of "pending_transactions cu"]
        by (simp add: cu' step_ok_def rest_of_def entries_of_def mailbox_generation_def)
      ultimately show ?thesis by simp
    next
      case False
      then obtain bs where "serialize_pointers cp (all_entries s') = Inr bs"
        using assms(4) Overflow Some s'(1)
        by (cases "serialize_pointers cp (all_entries s')") (simp_all add: expire_entry_def Let_def)
      then show ?thesis using assms(4) Overflow Some s'(1) False held left
          shrink_overflow [OF assms(1-3) Overflow Some s'(2,4,3), of bs cu']
        by (simp add: expire_entry_def Let_def keeps_exactly_def)
    qed
  qed
qed

text \<open>A loop of such steps over all entries.\<close>

lemma for_each_keeps:
  assumes cp: "params_ok cp" and ok: "custodian_ok cp cu0"
    and step: "\<And>e cu cu'. custodian_ok cp cu \<Longrightarrow> e \<in> set (entries_of cu) \<Longrightarrow> f e cu = Returned () cu' \<Longrightarrow>
      step_ok cp (recipient_main_dht e) cu cu' \<and> keeps_exactly keep (recipient_main_dht e) cu cu'"
    and run: "for_each f (entries_of cu0) cu0 = Returned () cu'"
  shows "custodian_ok cp cu' \<and> (\<forall>r. keeps_exactly keep r cu0 cu')"
proof -
  let ?done = "\<lambda>es r cu. if r \<in> recipient_main_dht ` set es
    then set (held_for cu r) = set (held_for cu0 r) else keeps_exactly keep r cu0 cu"
  let ?I = "\<lambda>(es :: mailbox_recipient_entry list) cu.
    custodian_ok cp cu \<and> distinct (map recipient_main_dht es) \<and> (\<forall>r. ?done es r cu)"
  have shape: "custodian_shape cp cu0" using ok by (simp add: custodian_ok_def)
  have "?I [] cu'"
  proof (rule for_each_entries [OF cp, of ?I f])
    show "?I (entries_of cu0) cu0"
      using ok custodian_recipients [OF cp shape]
      by (auto simp: keeps_exactly_def set_held_for)
    fix e es cu cu'
    assume I: "?I (e # es) cu" and e: "e \<in> set (entries_of cu)" and run: "f e cu = Returned () cu'"
    let ?r = "recipient_main_dht e"
    have ok': "custodian_ok cp cu" using I by simp
    note st = step [OF ok' e run, unfolded step_ok_def]
    have "?done es r cu'" for r
    proof (cases "r = ?r")
      case True
      have "r \<notin> recipient_main_dht ` set es" "?done (e # es) r cu" using I True by auto
      then show ?thesis using st True by (simp add: keeps_exactly_def)
    next
      case False
      have "?done (e # es) r cu" using I by blast
      then show ?thesis using st False by (auto simp: keeps_exactly_def split: if_splits)
    qed
    then show "?I es cu' \<and> rest_of cp ?r cu' = rest_of cp ?r cu" using st I by auto
  next
    show "distinct (map (page_key (entry_codec cp)) (entries_of cu0))"
      using shape entries_distinct by blast
  qed (use run in simp_all)
  then show ?thesis by simp
qed

lemma remove_everywhere_ok:
  assumes "params_ok cp" "custodian_ok cp cu"
    and "remove_pointer_everywhere cp i cu = Returned () cu'"
  shows "custodian_ok cp cu' \<and> (\<forall>r. keeps_exactly (\<lambda>x. message_id x \<noteq> i) r cu cu')"
  using for_each_keeps [OF assms(1,2) remove_pointer_step [OF assms(1)]] assms(3)
  by (simp add: remove_pointer_everywhere_def)

lemma expire_ok:
  assumes "params_ok cp" "custodian_ok cp cu"
    and "expire_custodian_entries cp t cu = Returned () cu'"
  shows "custodian_ok cp cu' \<and>
    (\<forall>r. keeps_exactly (\<lambda>x. \<not> pointer_expired (config cp) t x) r cu cu')"
  using for_each_keeps [OF assms(1,2) expire_step [OF assms(1)]] assms(3)
  by (simp add: expire_custodian_entries_def)

subsection \<open>Commits\<close>

lemma commit_mailbox_shape:
  assumes "params_ok cp" "custodian_shape cp cu" "mailbox_generation cu < u64_max"
    and "commit_mailbox cp io cu = Returned b cu'"
  shows "custodian_shape cp cu'" "mset (entries_of cu') = mset (entries_of cu)"
    "mailbox_generation cu' \<le> mailbox_generation cu + 1"
    "overflow_stores cu' = overflow_stores cu" "overflow_records cu' = overflow_records cu"
    "quota_state cu' = quota_state cu"
proof -
  note sh = assms(2) [unfolded custodian_shape_def]
  obtain m where m: "mailbox cu = Some m" "backed (entry_codec cp) m (dht_records cu (package_index m))"
    using sh by (auto split: option.splits)
  obtain m' txs d where run: "commit (entry_codec cp) (config cp) io
      (m, pending_transactions cu, dht_records cu (package_index m)) = (Inr b, m', txs, d)"
    and cu': "cu' = cu\<lparr>mailbox := Some m', pending_transactions := txs,
      dht_records := (dht_records cu)(package_index m := d)\<rparr>"
    using assms(4) m(1) by (auto simp: commit_mailbox_def Let_def split: prod.splits sum.splits)
  have gen: "store_generation m < u64_max" using assms(3) m(1) by (simp add: mailbox_generation_def)
  have m': "backed (entry_codec cp) m' d" "mset (all_entries m') = mset (all_entries m)"
    "package_index m' = package_index m" "store_generation m' \<le> store_generation m + 1"
    using commit_backed [OF _ m(2) gen run] assms(1) by (simp_all add: params_ok_def)
  show ents: "mset (entries_of cu') = mset (entries_of cu)"
    by (simp add: cu' entries_of_def m(1) m'(2))
  then have "set (entries_of cu') = set (entries_of cu)" by (metis set_mset_mset)
  moreover have "entry_linked cu' e" if "entry_linked cu e" for e
    using that by (cases "storage e") (auto simp: entry_linked_def cu')
  moreover have "overflow_backed cp cu'"
    using sh m(1) m'(3) by (auto simp: overflow_backed_def cu')
  ultimately show "custodian_shape cp cu'"
    using sh m'(1,3) by (simp add: custodian_shape_def ents) (simp add: cu')
  show "mailbox_generation cu' \<le> mailbox_generation cu + 1"
    using m'(4) m(1) by (simp add: cu' mailbox_generation_def)
qed (use assms(4) in \<open>auto simp: commit_mailbox_def Let_def split: prod.splits sum.splits option.splits\<close>)

lemma commit_mailbox_ok:
  assumes "params_ok cp" "custodian_ok cp cu" "mailbox_generation cu < u64_max"
    and "commit_mailbox cp io cu = Returned b cu'"
  shows "custodian_ok cp cu'"
  using assms(2) commit_mailbox_shape [OF assms(1) _ assms(3,4)] by (simp add: custodian_ok_def)

lemma flush_store_ok:
  assumes "params_ok cp" "custodian_ok cp cu"
    and gen: "\<forall>s. map_of (overflow_stores cu) r = Some s \<longrightarrow> store_generation s < u64_max"
    and run: "flush_overflow_store cp calls r cu = Returned () cu'"
  shows "custodian_ok cp cu' \<and> mailbox_generation cu' = mailbox_generation cu \<and>
    map fst (overflow_stores cu') = map fst (overflow_stores cu) \<and>
    (\<forall>r'. r' \<noteq> r \<longrightarrow> map_of (overflow_stores cu') r' = map_of (overflow_stores cu) r')"
proof (cases "map_of (overflow_stores cu) r")
  case None
  with run assms(2) show ?thesis by (simp add: flush_overflow_store_def)
next
  case (Some s)
  obtain b s' txs d where c: "commit (pointer_codec cp) (config cp) (flush_io calls (package_index s))
      (s, pending_transactions cu, dht_records cu (package_index s)) = (Inr b, s', txs, d)"
    and cu': "cu' = cu\<lparr>overflow_stores := AList.update r s' (overflow_stores cu),
      pending_transactions := txs, dht_records := (dht_records cu)(package_index s := d)\<rparr>"
    using run Some by (auto simp: flush_overflow_store_def Let_def split: prod.splits sum.splits)
  have s': "backed (pointer_codec cp) s' d" "mset (all_entries s') = mset (all_entries s)"
    "package_index s' = package_index s"
    using commit_backed [OF _ backed_store [OF assms(2) Some] _ c] gen Some assms(1)
    by (simp_all add: params_ok_def)
  have "r \<in> set (map fst (overflow_stores cu))" using Some by (force dest: map_of_SomeD)
  then have "map fst (overflow_stores cu') = map fst (overflow_stores cu)"
    by (simp add: cu' update_keys)
  with swap_store(1) [OF assms(2) Some s'(1,3,2), of txs] show ?thesis
    by (simp add: cu' [symmetric]) (simp add: cu' mailbox_generation_def store_simps)
qed

lemma flush_stores_ok:
  assumes "params_ok cp" "custodian_ok cp cu" "distinct rs"
    and "\<forall>r \<in> set rs. \<forall>s. map_of (overflow_stores cu) r = Some s \<longrightarrow> store_generation s < u64_max"
    and "for_each (flush_overflow_store cp calls) rs cu = Returned () cu'"
  shows "custodian_ok cp cu' \<and> mailbox_generation cu' = mailbox_generation cu"
  using assms(2-)
proof (induction rs arbitrary: cu)
  case (Cons r rs)
  obtain cu1 where run: "flush_overflow_store cp calls r cu = Returned () cu1"
    "for_each (flush_overflow_store cp calls) rs cu1 = Returned () cu'"
    using Cons.prems(4) by (auto simp: and_then_def split: outcome.splits)
  have "\<forall>s. map_of (overflow_stores cu) r = Some s \<longrightarrow> store_generation s < u64_max"
    using Cons.prems(3) by simp
  note st = flush_store_ok [OF assms(1) Cons.prems(1) this run(1)]
  have "r' \<noteq> r" if "r' \<in> set rs" for r' using Cons.prems(2) that by auto
  with Cons.IH [OF _ _ _ run(2)] st Cons.prems(2,3) show ?case by simp
qed simp

lemma flush_ok:
  assumes "params_ok cp" "custodian_ok cp cu" "mailbox_generation cu < u64_max"
    and "\<forall>r s. map_of (overflow_stores cu) r = Some s \<longrightarrow> store_generation s < u64_max"
    and "flush_custodian cp calls cu = Returned b cu'"
  shows "custodian_ok cp cu'"
proof -
  obtain cu1 where run: "for_each (flush_overflow_store cp calls) (map fst (overflow_stores cu)) cu =
      Returned () cu1" "commit_mailbox cp (mailbox_io calls) cu1 = Returned b cu'"
    using assms(5) by (auto simp: flush_custodian_def and_then_def or_fail_def split: outcome.splits option.splits)
  have "custodian_ok cp cu1 \<and> mailbox_generation cu1 = mailbox_generation cu"
    by (rule flush_stores_ok [OF assms(1,2) _ _ run(1)])
      (use assms(4) custodian_overflow [OF assms(2)]
        in \<open>simp_all add: overflow_backed_def keys_distinct_def\<close>)
  with commit_mailbox_ok [OF assms(1) _ _ run(2)] assms(3) show ?thesis by simp
qed

lemma records_keys: "k \<in># records_of ovs M \<Longrightarrow> k \<in># record_keys_of M"
  by (induction M) (auto simp: entry_records_def of_record_def split: option.splits if_splits)

lemma own_record:
  assumes "params_ok cp" "custodian_shape cp cu" "e \<in> set (entries_of cu)" "entry_record e = Some k"
  shows "k \<notin># record_keys_of (rest_of cp (recipient_main_dht e) cu)"
proof -
  have "count (record_keys_of (mset (entries_of cu))) k \<le> 1"
    using assms(2) by (simp add: custodian_shape_def)
  then show ?thesis unfolding entries_with [OF assms(1-3) refl]
    using assms(4) by (simp add: of_record_def not_in_iff)
qed

end
