(* ===== verification/Mailbox_Demotion.thy ===== *)
theory Mailbox_Demotion
  imports Mailbox_Custody_Steps
begin

text \<open>
  A recipient with few pointers falls back from its overflow record to an inline entry, and the
  start-up repair of what an entry says of its record: both keep the custodian's state in order.
\<close>

subsection \<open>Falling back to an inline entry\<close>

lemma note_none_removed [simp]: "note_all_removed r [] cu = cu"
  by (simp add: note_all_removed_def)

lemma set_below_since_frame [simp]:
  "mailbox (set_below_since r t cu) = mailbox cu"
  "quota_state (set_below_since r t cu) = quota_state cu"
  "dht_records (set_below_since r t cu) = dht_records cu"
  "overflow_stores (set_below_since r t cu) = overflow_stores cu"
  "overflow_backed cp (set_below_since r t cu) = overflow_backed cp cu"
  by (simp_all add: set_below_since_def)

text \<open>An entry that keeps its overflow record may change what it says of it.\<close>

lemma redescribe_step:
  assumes cp: "params_ok cp" and ok: "custodian_ok cp cu" "e \<in> set (entries_of cu)"
    and e: "storage e = Overflow k epoch n len dg since"
    and cu1: "cu1 = cu \<or> cu1 = set_below_since (recipient_main_dht e) t cu"
    and run: "upsert_entry cp (e\<lparr>storage := Overflow k epoch n' len' dg' since'\<rparr>) cu1 = Returned () cu'"
  shows "step_ok cp (recipient_main_dht e) cu cu'"
proof -
  let ?e = "e\<lparr>storage := Overflow k epoch n' len' dg' since'\<rparr>"
  have linked: "entry_linked cu1 ?e"
    using custodian_linked [OF ok] cu1
    by (auto simp: entry_linked_def e set_below_since_def store_simps split: option.splits)
  have backed: "overflow_backed cp cu1" using custodian_overflow [OF ok(1)] cu1 by auto
  have off: "\<forall>r'. r' \<noteq> recipient_main_dht e \<longrightarrow>
      map_of (overflow_stores cu1) r' = map_of (overflow_stores cu) r' \<and>
      map_of (overflow_records cu1) r' = map_of (overflow_records cu) r'"
    using cu1 by (auto simp: set_below_since_def store_simps)
  have frame: "mailbox cu1 = mailbox cu" "quota_state cu1 = quota_state cu"
    "dht_records cu1 = dht_records cu" "overflow_stores cu1 = overflow_stores cu"
    using cu1 by auto
  have "upsert_entry cp ?e (note_all_removed (recipient_main_dht e)
      (map (\<lambda>p. (p, entry_record e)) []) cu1) = Returned () cu'" using run by simp
  from shrink_entry [OF cp ok frame(1-3) backed off _ _ linked _ this] show ?thesis
    by (simp add: step_ok_def entry_record_def entry_sources_def e frame(4))
qed

text \<open>An overflow store that no entry names any more is dropped.\<close>

lemma drop_store:
  assumes sh: "custodian_shape cp cu"
    and off: "\<forall>e \<in> set (entries_of cu). recipient_main_dht e = r \<longrightarrow> entry_record e = None"
  shows "custodian_shape cp (cu\<lparr>overflow_records := amodify r f (overflow_records cu),
    overflow_stores := AList.delete r (overflow_stores cu), quota_state := q\<rparr>)"
    (is "custodian_shape cp ?cu")
proof -
  have ents: "entries_of ?cu = entries_of cu" by (simp add: entries_of_def)
  have "entry_linked ?cu e" if "e \<in> set (entries_of cu)" for e
  proof -
    have "entry_linked cu e" using sh that by (simp add: custodian_shape_def)
    then show ?thesis using off that
      by (cases "storage e") (auto simp: entry_linked_def entry_record_def store_simps)
  qed
  moreover have "overflow_backed cp ?cu"
    using sh by (auto simp: custodian_shape_def overflow_backed_def store_simps)
  ultimately show ?thesis using sh by (simp add: custodian_shape_def ents split: option.splits)
qed

lemma fall_back_step:
  assumes cp: "params_ok cp" and ok: "custodian_ok cp cu" "e \<in> set (entries_of cu)"
    and gen: "mailbox_generation cu < u64_max"
    and e: "storage e = Overflow k epoch n len dg since"
      "map_of (overflow_stores cu) (recipient_main_dht e) = Some s"
    and up: "upsert_entry cp (e\<lparr>storage := Inline (all_entries s)\<rparr>)
      (set_below_since (recipient_main_dht e) t cu) = Returned () cu2"
    and com: "commit_mailbox cp io cu2 = Returned b cu3"
    and cu': "cu' = cu3\<lparr>overflow_records := amodify (recipient_main_dht e) f (overflow_records cu3),
      overflow_stores := AList.delete (recipient_main_dht e) (overflow_stores cu3),
      quota_state := remove_overflow_record k (quota_state cu3)\<rparr>"
  shows "custodian_ok cp cu' \<and>
    rest_of cp (recipient_main_dht e) cu' = rest_of cp (recipient_main_dht e) cu \<and>
    mailbox_generation cu' \<le> mailbox_generation cu + 1"
proof -
  let ?r = "recipient_main_dht e" and ?e = "e\<lparr>storage := Inline (all_entries s)\<rparr>"
  let ?cu1 = "set_below_since ?r t cu" and ?S = "overflow_stores cu"
  note ok' = ok(1) [unfolded custodian_ok_def]
  have shape: "custodian_shape cp cu" using ok' by simp
  have "distinct (map message_id (all_entries s))"
    by (rule stored_ids_distinct [OF cp backed_store [OF ok(1) e(2)]])
  then have linked: "entry_linked ?cu1 ?e" by (simp add: entry_linked_def)
  obtain cu2' where put: "upsert_entry cp ?e ?cu1 = Returned () cu2'" "custodian_shape cp cu2'"
    "cu2' = ?cu1\<lparr>mailbox := mailbox cu2'\<rparr>"
    "held_pairs cu2' = entry_pairs (overflow_stores ?cu1) ?e + pairs_of ?S (rest_of cp ?r cu)"
    "held_records cu2' = entry_records (overflow_stores ?cu1) ?e + records_of ?S (rest_of cp ?r cu)"
    "rest_of cp ?r cu2' = rest_of cp ?r cu" "mailbox_generation cu2' = mailbox_generation cu"
    "mset (entries_of cu2') = add_mset ?e (rest_of cp ?r cu)"
    by (rule put_entry [OF cp shape, of ?cu1 ?r ?e])
      (use linked custodian_overflow [OF ok(1)] in
        \<open>simp_all add: entry_record_def set_below_since_def store_simps\<close>)
  have cu2: "cu2' = cu2" using up put(1) by simp
  have gen2: "mailbox_generation cu2 < u64_max" using gen put(7) by (simp add: cu2)
  note com' = commit_mailbox_shape [OF cp put(2) [unfolded cu2] gen2 com]
  have frame2: "overflow_stores cu2 = ?S" "quota_state cu2 = quota_state cu"
    using put(3) unfolding cu2 by (metis custodian.select_convs custodian.surjective custodian.update_convs(1) set_below_since_frame(2,4))+
  have M3: "mset (entries_of cu3) = add_mset ?e (rest_of cp ?r cu)"
    using com'(2) put(8) by (simp add: cu2)
  have names: "\<forall>x \<in># rest_of cp ?r cu. recipient_main_dht x \<noteq> ?r" using rest_names [OF cp] by blast
  have "\<forall>x \<in> set (entries_of cu3). recipient_main_dht x = ?r \<longrightarrow> entry_record x = None"
  proof (intro ballI impI)
    fix x assume x: "x \<in> set (entries_of cu3)" "recipient_main_dht x = ?r"
    have "x \<in># add_mset ?e (rest_of cp ?r cu)" using x(1) M3 by (metis set_mset_mset)
    with x(2) names have "x = ?e" by auto
    then show "entry_record x = None" by (simp add: entry_record_def)
  qed
  from drop_store [OF com'(1) this] have shape': "custodian_shape cp cu'" by (simp add: cu')
  have ents: "entries_of cu' = entries_of cu3" by (simp add: cu' entries_of_def)
  have "\<forall>r'. r' \<noteq> ?r \<longrightarrow> map_of (overflow_stores cu') r' = map_of ?S r'"
    by (simp add: cu' com'(4) frame2 store_simps)
  note off = agree_off [OF names this]
  have pairs: "entry_pairs ?S e = entry_pairs (overflow_stores cu') ?e"
    by (simp add: entry_pairs_def entry_sources_def e)
  note M = entries_with [OF cp shape ok(2) refl]
  have held: "held_pairs cu' = held_pairs cu"
    "held_records cu' = filter_mset (\<lambda>x. x \<noteq> k) (held_records cu)"
  proof -
    show "held_pairs cu' = held_pairs cu" by (simp add: ents M3 M off pairs)
    have "k \<notin># records_of ?S (rest_of cp ?r cu)"
      using own_record [OF cp shape ok(2)] records_keys by (force simp: entry_record_def e)
    then have "filter_mset (\<lambda>x. x \<noteq> k) (records_of ?S (rest_of cp ?r cu)) =
        records_of ?S (rest_of cp ?r cu)" by (auto simp: filter_mset_eq_conv)
    then show "held_records cu' = filter_mset (\<lambda>x. x \<noteq> k) (held_records cu)"
      by (simp add: ents M3 M off entry_records_def entry_record_def e)
  qed
  have "quota_state cu' = remove_overflow_record k (quota_state cu)"
    by (simp add: cu' com'(6) frame2)
  then have "quota_counts (quota_state cu') (held_pairs cu') (held_records cu')"
    using remove_overflow_counts ok' by (simp add: held)
  moreover have "within_limits (config cp) (held_pairs cu') (held_records cu')"
    by (rule within_limits_mono [of _ "held_pairs cu" "held_records cu"])
      (use ok' in \<open>simp_all add: held\<close>)
  moreover have "rest_of cp ?r cu' = rest_of cp ?r cu"
    using put(6,8) by (simp add: rest_of_def [of _ _ cu'] ents M3) (simp add: cu2 rest_of_def)
  moreover have "mailbox_generation cu' \<le> mailbox_generation cu + 1"
    using com'(3) put(7) by (simp add: cu2 cu' mailbox_generation_def)
  ultimately show ?thesis using shape' by (simp add: custodian_ok_def)
qed

lemma demote_step:
  assumes cp: "params_ok cp" and ok: "custodian_ok cp cu" "e \<in> set (entries_of cu)"
    and gen: "mailbox_generation cu < u64_max"
    and run: "demote_recipient cp calls e cu = Returned () cu'"
  shows "custodian_ok cp cu' \<and>
    rest_of cp (recipient_main_dht e) cu' = rest_of cp (recipient_main_dht e) cu \<and>
    mailbox_generation cu' \<le> mailbox_generation cu + 1"
proof (cases "storage e")
  case (Inline ps)
  with run ok(1) show ?thesis by (simp add: demote_recipient_def)
next
  case (Overflow k epoch n len dg since)
  let ?r = "recipient_main_dht e"
  let ?since = "case since of Some t \<Rightarrow> t | None \<Rightarrow> now calls"
  note def = run [unfolded demote_recipient_def Overflow recipient_source_storage.case Let_def]
  have redescribe: ?thesis
    if "upsert_entry cp (e\<lparr>storage := Overflow k epoch n len dg since'\<rparr>) (set_below_since ?r t cu) =
      Returned () cu'" for since' t
    using redescribe_step [OF cp ok Overflow disjI2 [OF refl] that] by (simp add: step_ok_def)
  consider
    (above) "\<not> (n \<le> overflow_demote_pointer_limit (config cp) \<and> len \<le> overflow_demote_byte_limit (config cp))"
    | (waiting) "n \<le> overflow_demote_pointer_limit (config cp)" "len \<le> overflow_demote_byte_limit (config cp)"
        "now calls < sat_add u64_max ?since (overflow_demote_hysteresis_secs (config cp))"
    | (due) "n \<le> overflow_demote_pointer_limit (config cp)" "len \<le> overflow_demote_byte_limit (config cp)"
        "\<not> now calls < sat_add u64_max ?since (overflow_demote_hysteresis_secs (config cp))"
    by blast
  then show ?thesis
  proof cases
    case above
    with def redescribe show ?thesis by simp
  next
    case waiting
    with def redescribe show ?thesis by simp
  next
    case due
    with def obtain s cu2 b cu3 where s: "map_of (overflow_stores cu) ?r = Some s"
      and up: "upsert_entry cp (e\<lparr>storage := Inline (all_entries s)\<rparr>)
        (set_below_since ?r (Some ?since) cu) = Returned () cu2"
      and com: "commit_mailbox cp (mailbox_io calls) cu2 = Returned b cu3"
      and cu': "cu' = cu3\<lparr>overflow_records := amodify ?r (\<lambda>l. l\<lparr>retired := True\<rparr>) (overflow_records cu3),
        overflow_stores := AList.delete ?r (overflow_stores cu3),
        quota_state := remove_overflow_record k (quota_state cu3)\<rparr>"
      by (auto simp: and_then_def split: option.splits outcome.splits)
    show ?thesis by (rule fall_back_step [OF cp ok gen Overflow s up com cu'])
  qed
qed

lemma demotion_ok:
  assumes "params_ok cp" "custodian_ok cp cu"
    and "mailbox_generation cu + length (entries_of cu) < u64_max"
    and "consider_overflow_demotion cp calls cu = Returned () cu'"
  shows "custodian_ok cp cu'"
proof -
  let ?I = "\<lambda>(es :: mailbox_recipient_entry list) cu.
    custodian_ok cp cu \<and> mailbox_generation cu + length es < u64_max"
  have "?I [] cu'"
  proof (rule for_each_entries [OF assms(1), of ?I "demote_recipient cp calls"])
    show "for_each (demote_recipient cp calls) (entries_of cu) cu = Returned () cu'"
      using assms(4) by (simp add: consider_overflow_demotion_def)
    show "distinct (map (page_key (entry_codec cp)) (entries_of cu))"
      using assms(2) entries_distinct by (simp add: custodian_ok_def)
    show "?I es cu2 \<and> rest_of cp (recipient_main_dht e) cu2 = rest_of cp (recipient_main_dht e) cu1"
      if "?I (e # es) cu1" "e \<in> set (entries_of cu1)" "demote_recipient cp calls e cu1 = Returned () cu2"
      for e es cu1 cu2
      using demote_step [OF assms(1) _ that(2) _ that(3)] that(1) by simp
  qed (use assms(2,3) in auto)
  then show ?thesis by simp
qed

subsection \<open>Start-up repair\<close>

lemma reconcile_step:
  assumes "params_ok cp" "custodian_ok cp cu" "e \<in> set (entries_of cu)"
    and "reconcile_entry cp e (b, cu) = Returned b' cu'"
  shows "step_ok cp (recipient_main_dht e) cu cu'"
proof (cases "cu' = cu")
  case True
  with assms(2) show ?thesis by (simp add: step_ok_def)
next
  case False
  then obtain k epoch n len dg since n' len' dg' where
    "storage e = Overflow k epoch n len dg since"
    "upsert_entry cp (e\<lparr>storage := Overflow k epoch n' len' dg' since\<rparr>) cu = Returned () cu'"
    using assms(4)
    by (auto simp: reconcile_entry_def Let_def and_then_def
        split: recipient_source_storage.splits option.splits if_splits sum.splits outcome.splits)
  then show ?thesis using redescribe_step [OF assms(1-3)] by blast
qed

lemma reconcile_entries_ok:
  assumes "params_ok cp" "custodian_ok cp cu" "set es \<subseteq> set (entries_of cu)"
    "distinct (map (page_key (entry_codec cp)) es)"
    and "reconcile_entries cp es b cu = Returned b' cu'"
  shows "custodian_ok cp cu' \<and> mailbox_generation cu' = mailbox_generation cu"
  using assms(2-)
proof (induction es arbitrary: b cu)
  case (Cons e es)
  obtain b1 cu1 where run: "reconcile_entry cp e (b, cu) = Returned b1 cu1"
    "reconcile_entries cp es b1 cu1 = Returned b' cu'"
    using Cons.prems(4) by (auto simp: and_then_def split: outcome.splits)
  have e: "e \<in> set (entries_of cu)" using Cons.prems(2) by simp
  note st = reconcile_step [OF assms(1) Cons.prems(1) e run(1), unfolded step_ok_def]
  have "x \<in> set (entries_of cu1)" if x: "x \<in> set es" for x
  proof -
    have "page_key (entry_codec cp) x \<noteq> page_key (entry_codec cp) e"
      using Cons.prems(3) x by (metis distinct.simps(2) image_eqI list.simps(9) set_map)
    then have "x \<in># rest_of cp (recipient_main_dht e) cu"
      using x Cons.prems(2) assms(1) by (auto simp: rest_of_def without_def params_ok_def)
    then show ?thesis using st rest_subset by metis
  qed
  with Cons.IH [OF _ _ _ run(2)] st Cons.prems(3) show ?case by auto
qed simp

lemma reconcile_ok:
  assumes "params_ok cp" "custodian_ok cp cu" "mailbox_generation cu < u64_max"
    and "reconcile_overflow_parent_metadata cp calls cu = Returned b cu'"
  shows "custodian_ok cp cu'"
proof -
  obtain b1 cu1 where run: "reconcile_entries cp (entries_of cu) False cu = Returned b1 cu1"
    "cu' = cu1 \<or> (\<exists>b2. commit_mailbox cp (mailbox_io calls) cu1 = Returned b2 cu')"
    using assms(4) by (auto simp: reconcile_overflow_parent_metadata_def and_then_def
        split: outcome.splits if_splits)
  have "custodian_ok cp cu1 \<and> mailbox_generation cu1 = mailbox_generation cu"
    by (rule reconcile_entries_ok [OF assms(1,2) _ _ run(1)])
      (use assms(2) entries_distinct in \<open>simp_all add: custodian_ok_def\<close>)
  with run(2) commit_mailbox_ok [OF assms(1)] assms(3) show ?thesis by auto
qed

end
