(* ===== verification/Mailbox_Adding.thy ===== *)
theory Mailbox_Adding
  imports Mailbox_Demotion
begin

text \<open>
  Adding a pointer to the mailbox of a custodian, with and without a promotion of the recipient to
  an overflow record: the custodian's state stays in order, and the pointer is stored.
\<close>

subsection \<open>The sources with the pointer\<close>

abbreviation new_pair :: "bool \<Rightarrow> record_key \<Rightarrow> mail_source_pointer \<Rightarrow> (record_key \<times> record_key) multiset"
  where "new_pair is_new r p \<equiv> (if is_new then {#(sender_main_dht p, r)#} else {#})"

lemma merge_pointer_frame [simp]:
  "message_id (merge_pointer p x) = message_id x"
  "sender_main_dht (merge_pointer p x) = sender_main_dht x"
  by (simp_all add: merge_pointer_def)

lemma upsert_pointer_ids:
  assumes "distinct (map message_id ps)"
  shows "distinct (map message_id (upsert_pointer p ps))"
proof (cases "list_ex (\<lambda>x. message_id x = message_id p) ps")
  case True
  with assms show ?thesis by (simp add: upsert_pointer_def map_update_first)
next
  case False
  with assms show ?thesis by (auto simp: upsert_pointer_def list_ex_iff)
qed

lemma upsert_pointer_id: "message_id p \<in> message_id ` set (upsert_pointer p ps)"
proof (cases "list_ex (\<lambda>x. message_id x = message_id p) ps")
  case True
  then obtain x where "x \<in> set ps" "message_id x = message_id p" by (auto simp: list_ex_iff)
  then have "message_id p \<in> set (map message_id ps)" by (metis image_eqI set_map)
  also have "map message_id ps = map message_id (upsert_pointer p ps)"
    using True by (simp add: upsert_pointer_def map_update_first)
  finally show ?thesis by simp
qed (simp add: upsert_pointer_def)

lemma upsert_pointer_pairs:
  "source_pairs r (upsert_pointer p ps) =
     new_pair (List.find (\<lambda>x. message_id x = message_id p) ps = None) r p + source_pairs r ps"
proof (cases "list_ex (\<lambda>x. message_id x = message_id p) ps")
  case True
  then have "List.find (\<lambda>x. message_id x = message_id p) ps \<noteq> None"
    by (auto simp: find_None_iff list_ex_iff)
  moreover have "map sender_main_dht (upsert_pointer p ps) = map sender_main_dht ps"
    using True by (simp add: upsert_pointer_def map_update_first)
  then have "source_pairs r (upsert_pointer p ps) = source_pairs r ps"
    by (simp add: source_pairs_def image_mset.compositionality [unfolded comp_def]
        flip: mset_map image_mset.compositionality [of "\<lambda>s. (s, r)" sender_main_dht, unfolded comp_def])
  ultimately show ?thesis by simp
next
  case False
  then have "List.find (\<lambda>x. message_id x = message_id p) ps = None"
    by (auto simp: find_None_iff list_ex_iff)
  with False show ?thesis by (simp add: upsert_pointer_def source_pairs_def)
qed

lemma store_pointer_inline:
  assumes run: "store_pointer cp r p entry cu = Returned (entry', promote) cu1"
    and st: "storage entry = Inline ps" "distinct (map message_id ps)"
  obtains qs where "cu1 = cu" "distinct (map message_id qs)"
    "source_pairs r qs =
      new_pair (List.find (\<lambda>x. message_id x = message_id p) ps = None) r p + source_pairs r ps"
    "recipient_main_dht entry' = recipient_main_dht entry"
    "promote = None \<and> storage entry' = Inline qs \<or> promote = Some qs"
    "message_id p \<in> message_id ` set qs"
proof -
  let ?qs = "sort_key message_id (upsert_pointer p ps)"
  have ids: "distinct (map message_id ?qs)"
    using upsert_pointer_ids [OF st(2), of p]
    by (metis mset_map mset_sort mset_eq_imp_distinct_iff)
  have pairs: "source_pairs r ?qs =
      new_pair (List.find (\<lambda>x. message_id x = message_id p) ps = None) r p + source_pairs r ps"
    using source_pairs_mset [of ?qs "upsert_pointer p ps"] by (simp add: upsert_pointer_pairs)
  show ?thesis
    by (rule that [OF _ ids pairs])
      (use run upsert_pointer_id [of p ps] in
        \<open>auto simp: store_pointer_def st(1) Let_def split: sum.splits if_splits\<close>)
qed

lemma store_pointer_overflow:
  assumes cp: "params_ok cp" and ok: "custodian_ok cp cu"
    and run: "store_pointer cp r p entry cu = Returned (entry', promote) cu1"
    and st: "storage entry = Overflow k epoch n len dg since" "map_of (overflow_stores cu) r = Some s"
    and sender: "\<forall>x. store_map (pointer_codec cp) s (message_id p) = Some x \<longrightarrow>
      sender_main_dht x = sender_main_dht p"
  obtains s' where "upsert (pointer_codec cp) p s = Some s'"
    "backed (pointer_codec cp) s' (dht_records cu (package_index s))"
    "package_index s' = package_index s"
    "cu1 = cu\<lparr>overflow_stores := AList.update r s' (overflow_stores cu)\<rparr>" "promote = None"
    "\<exists>n' len' dg'. entry' = entry\<lparr>storage := Overflow k epoch n' len' dg' None\<rparr>"
    "source_pairs r (all_entries s') =
      new_pair (store_map (pointer_codec cp) s (message_id p) = None) r p +
      source_pairs r (all_entries s)"
    "length (all_entries s') = (if store_map (pointer_codec cp) s (message_id p) = None then 1 else 0) +
      length (all_entries s)"
    "length (all_entries s') \<le> active_messages_per_overflow_record (config cp)"
proof -
  let ?c = "pointer_codec cp" and ?i = "message_id p"
  note b = backed_store [OF ok st(2)]
  have key: "page_key ?c p = ?i" using cp by (simp add: pointer_key)
  obtain s' where s': "upsert ?c p s = Some s'"
    "backed ?c s' (dht_records cu (package_index s))"
    "mset (all_entries s') = add_mset p (without ?c ?i (mset (all_entries s)))"
    "package_index s' = package_index s" using upsert_backed [OF b, of p] by (auto simp: key)
  define W where "W = without ?c ?i (mset (all_entries s))"
  have "store_ok ?c s" using b by (simp add: backed_def)
  note W = s'(3) [folded W_def] entries_split [OF this, of ?i, folded W_def]
  have pairs: "source_pairs r (all_entries s') =
      new_pair (store_map ?c s ?i = None) r p + source_pairs r (all_entries s)"
  proof (cases "store_map ?c s ?i")
    case None
    then show ?thesis unfolding source_pairs_def W by simp
  next
    case (Some x)
    then have x: "sender_main_dht x = sender_main_dht p" using sender by blast
    show ?thesis unfolding source_pairs_def W by (simp add: Some x)
  qed
  have len: "length (all_entries s') = (if store_map ?c s ?i = None then 1 else 0) + length (all_entries s)"
    using arg_cong [OF W(1), of size] arg_cong [OF W(2), of size] by (simp split: option.splits)
  show ?thesis
    by (rule that [OF s'(1,2,4) _ _ _ pairs len])
      (use run s'(1) in \<open>auto simp: store_pointer_def st Let_def describe_overflow_def
        split: sum.splits if_splits option.splits\<close>)
qed

subsection \<open>Promotion\<close>

definition fresh_calls :: "custodian_calls \<Rightarrow> custodian \<Rightarrow> bool" where
  "fresh_calls calls cu \<longleftrightarrow>
     (case create_dht calls of
        Inl _ \<Rightarrow> True
      | Inr package \<Rightarrow>
          (case mailbox cu of None \<Rightarrow> True | Some m \<Rightarrow> package_index m \<noteq> package) \<and>
          (\<forall>s \<in> snd ` set (overflow_stores cu). package_index s \<noteq> package)) \<and>
     (case package_key calls of
        Inl _ \<Rightarrow> True | Inr k \<Rightarrow> list_all (\<lambda>e. entry_record e \<noteq> Some k) (entries_of cu)) \<and>
     (case package_subkeys calls of
        None \<Rightarrow> True | Some n \<Rightarrow> estimated_dht_value_limit n \<le> MAX_NETWORK_DHT_VALUE_BYTES)"

lemma record_keys_iff: "k \<in># record_keys_of M \<longleftrightarrow> (\<exists>e \<in># M. entry_record e = Some k)"
  by (induction M) (auto simp: of_record_def split: option.splits)

lemma promote_returned:
  assumes cp: "params_ok cp" and fresh: "fresh_calls calls cu" and ids: "distinct (map message_id qs)"
    and run: "promote_recipient_to_overflow cp calls r qs cu = Returned st cu2"
  obtains package k s' txs d n len dg where "create_dht calls = Inr package" "package_key calls = Inr k"
    "backed (pointer_codec cp) s' d" "package_index s' = package" "mset (all_entries s') = mset qs"
    "length qs \<le> active_messages_per_overflow_record (config cp)"
    "st = Overflow k (random_epoch calls) n len dg None"
    "cu2 = cu\<lparr>dht_records := (dht_records cu)(package := d), pending_transactions := txs,
       quota_state := set_overflow_count k (length qs) (quota_state cu),
       overflow_records := AList.update r
         \<lparr>ol_recipient = r, ol_record_key = k, ol_package_index = package,
          ol_epoch = random_epoch calls, ol_below_since = None, retired = False\<rparr>
         (overflow_records cu),
       overflow_stores := AList.update r s' (overflow_stores cu)\<rparr>"
proof -
  let ?c = "pointer_codec cp" and ?io = "overflow_io calls"
  obtain package k s0 s1 b s' txs d bs where calls: "create_dht calls = Inr package"
      "package_key calls = Inr k"
    and s0: "load_owned ?c ?io (''overflow:'' @ r) package (package_subkeys calls) Map.empty = Inr s0"
    and s1: "upsert_all ?c qs s0 = Some s1"
    and com: "commit ?c (config cp) ?io (s1, pending_transactions cu, Map.empty) = (Inr b, s', txs, d)"
    and few: "length (all_entries s') \<le> active_messages_per_overflow_record (config cp)"
    and st: "st = Overflow k (random_epoch calls) (length (all_entries s') mod 2 ^ 32)
      (length bs mod 2 ^ 32) (hash_bytes ?c bs) None"
    and cu2: "cu2 = cu\<lparr>dht_records := (dht_records cu)(package := d), pending_transactions := txs,
       quota_state := set_overflow_count k (length (all_entries s')) (quota_state cu),
       overflow_records := AList.update r
         \<lparr>ol_recipient = r, ol_record_key = k, ol_package_index = package,
          ol_epoch = random_epoch calls, ol_below_since = None, retired = False\<rparr>
         (overflow_records cu),
       overflow_stores := AList.update r s' (overflow_stores cu)\<rparr>"
    using run unfolding promote_recipient_to_overflow_def Let_def and_then_def or_fail_def
    by (auto simp: not_less split: sum.splits option.splits prod.splits if_splits)
  obtain subkeys where sub: "package_subkeys calls = Some subkeys"
    using s0 by (auto simp: load_owned_def split: option.splits)
  have "estimated_dht_value_limit subkeys \<le> MAX_NETWORK_DHT_VALUE_BYTES"
    using fresh sub by (simp add: fresh_calls_def split: sum.splits)
  from load_empty [OF this s0 [unfolded sub]] have empty: "backed ?c s0 Map.empty"
    "all_entries s0 = []" "package_index s0 = package" "store_generation s0 = 0" by simp_all
  have "backed ?c s1 Map.empty \<and> mset (all_entries s1) = mset qs \<and> package_index s1 = package \<and>
      store_generation s1 = 0"
    using upsert_all_backed [OF empty(1), of qs] ids empty(2-4) s1 cp
    by (auto simp: pointer_key)
  then have s': "backed ?c s' d" "mset (all_entries s') = mset qs" "package_index s' = package"
    using commit_backed [OF _ _ _ com] cp by (simp_all add: params_ok_def u64_max_def)
  have "length (all_entries s') = length qs" using s'(2) by (metis size_mset)
  with that [OF calls s'(1,3,2) _ st] few cu2 show ?thesis by simp
qed

subsection \<open>The whole call\<close>

definition names_agree :: "custodian_params \<Rightarrow> record_key \<Rightarrow> custodian \<Rightarrow> bool" where
  "names_agree cp r cu \<longleftrightarrow>
     (\<forall>e \<in> set (entries_of cu). key_bytes cp (recipient_main_dht e) = key_bytes cp r \<longrightarrow>
        recipient_main_dht e = r)"

lemma find_entry_cases:
  assumes cp: "params_ok cp" and shape: "custodian_shape cp cu" and names: "names_agree cp r cu"
    and found: "find_entry cp r cu = Some current"
  shows "case current of
      None \<Rightarrow> mset (entries_of cu) = rest_of cp r cu
    | Some e \<Rightarrow> e \<in> set (entries_of cu) \<and> recipient_main_dht e = r"
proof -
  obtain m where m: "mailbox cu = Some m" "store_ok (entry_codec cp) m"
    using shape by (auto simp: custodian_shape_def backed_def split: option.splits)
  have cur: "current = store_map (entry_codec cp) m (key_bytes cp r)"
    using found m get_store_map [OF m(2)] by (simp add: find_entry_def)
  show ?thesis
  proof (cases current)
    case None
    with cur entries_split [OF m(2), of "key_bytes cp r"] m(1) show ?thesis
      by (simp add: rest_of_def entries_of_def)
  next
    case (Some e)
    with cur store_map_Some [OF m(2), of "key_bytes cp r" e] have "e \<in> set (entries_of cu)"
      "key_bytes cp (recipient_main_dht e) = key_bytes cp r"
      using cp m(1) by (auto simp: entries_of_def params_ok_def)
    with names Some show ?thesis by (simp add: names_agree_def)
  qed
qed

text \<open>The counters follow the new pointer.\<close>

lemma finish_add:
  assumes cp: "params_ok cp" and shape: "custodian_shape cp cu"
    and held: "held_pairs cu = new_pair is_new r p + P"
      "held_records cu = (if is_new then of_record rec else {#}) + R"
    and counts: "quota_counts (quota_state cu) P R"
    and limits: "within_limits (config cp) (held_pairs cu) (held_records cu)"
  shows "custodian_ok cp (note_if_new is_new r p rec cu)"
proof (cases is_new)
  case False
  with assms show ?thesis by (simp add: note_if_new_def custodian_ok_def)
next
  case True
  let ?q = "note_added r p rec (quota_state cu)"
  let ?cu = "cu\<lparr>quota_state := ?q\<rparr>"
  have lim: "limits_ok (config cp)" using cp by (simp add: params_ok_def)
  have fits: "fits_u32 (add_mset (sender_main_dht p, r) P)"
    using limits_fit [OF limits lim] held(1) True by simp
  have "count R k < u32_max" if "rec = Some k" for k
  proof -
    have "count (held_records cu) k \<le> active_messages_per_overflow_record (config cp)"
      using limits by (simp add: within_limits_def)
    then show ?thesis using held(2) True that lim by (simp add: of_record_def limits_ok_def)
  qed
  then have "quota_counts ?q (held_pairs cu) (held_records cu)"
    using note_added_counts [OF counts fits, of rec] held True by simp
  moreover have "entries_of ?cu = entries_of cu" by (simp add: entries_of_def)
  moreover have "entry_linked ?cu e = entry_linked cu e" for e
    by (cases "storage e") (simp_all add: entry_linked_def)
  then have "custodian_shape cp ?cu" using shape
    by (simp add: custodian_shape_def entries_of_def split: option.splits)
  ultimately show ?thesis using limits True by (simp add: note_if_new_def custodian_ok_def)
qed

lemma place_pointer_returned:
  assumes "place_pointer cp calls r p entry is_new rec cu = Returned promoted cu4"
  obtains ep cu1 e2 cu2 e3 cu3 where "store_pointer cp r p entry cu = Returned ep cu1"
    "promote_sources cp calls r ep cu1 = Returned e2 cu2"
    "recipient_main_dht e3 = recipient_main_dht e2" "storage e3 = storage e2"
    "upsert_entry cp e3 cu2 = Returned () cu3" "promoted = (snd ep \<noteq> None)"
    "cu4 = note_if_new is_new r p (if promoted then None else rec) cu3"
proof -
  obtain ep cu1 where st: "store_pointer cp r p entry cu = Returned ep cu1"
    using assms by (auto simp: place_pointer_def and_then_def split: outcome.splits)
  obtain e2 cu2 where pr: "promote_sources cp calls r ep cu1 = Returned e2 cu2"
    using assms st by (auto simp: place_pointer_def and_then_def split: outcome.splits)
  let ?e3 = "e2\<lparr>newest_posted_at := max (newest_posted_at e2) (posted_at p),
    newest_first_seen_at := max (newest_first_seen_at e2) (first_observed_at p)\<rparr>"
  obtain cu3 where up: "upsert_entry cp ?e3 cu2 = Returned () cu3"
    using assms st pr
    by (auto simp: place_pointer_def and_then_def Let_def split: outcome.splits if_splits)
  have "promoted = (snd ep \<noteq> None) \<and>
      cu4 = note_if_new is_new r p (if snd ep \<noteq> None then None else rec) cu3"
    using assms by (simp add: place_pointer_def and_then_def Let_def st pr up split: if_splits)
  then show ?thesis by (intro that [OF st pr _ _ up]) simp_all
qed

lemma add_pointer_returned:
  assumes "add_pointer_to_custodian_mailbox cp calls r p cu = Returned () cu'"
  obtains current existing promoted cu4 cu5 where
    "find_entry cp r cu = Some current"
    "existing_pointer cp r (message_id p) current cu = Some existing" "\<not> reused_id p existing"
    "existing = None \<longrightarrow>
       ensure_can_add (config cp) r p (Option.bind current entry_record) (quota_state cu) = None"
    "place_pointer cp calls r p (case current of Some e \<Rightarrow> e | None \<Rightarrow> new_entry calls r p)
       (existing = None) (Option.bind current entry_record) cu = Returned promoted cu4"
    "if promoted then \<exists>b. commit_mailbox cp (mailbox_io calls) cu4 = Returned b cu5 else cu5 = cu4"
    "cu' = observe_recipient calls r (existing = None) cu5"
proof -
  obtain current where cur: "find_entry cp r cu = Some current"
    using assms by (auto simp: add_pointer_to_custodian_mailbox_def split: option.splits)
  obtain existing where ex: "existing_pointer cp r (message_id p) current cu = Some existing"
    using assms cur by (auto simp: add_pointer_to_custodian_mailbox_def split: option.splits)
  note run = assms [unfolded add_pointer_to_custodian_mailbox_def cur ex option.case(2) Let_def]
  have nr: "\<not> reused_id p existing" using run by (cases "reused_id p existing") simp_all
  let ?rec = "Option.bind current entry_record"
  have ens: "existing = None \<longrightarrow> ensure_can_add (config cp) r p ?rec (quota_state cu) = None"
    using run nr by (cases existing; cases "ensure_can_add (config cp) r p ?rec (quota_state cu)")
      (simp_all add: and_then_def or_fail_def)
  then obtain promoted cu4 where place: "place_pointer cp calls r p
      (case current of Some e \<Rightarrow> e | None \<Rightarrow> new_entry calls r p) (existing = None) ?rec cu =
      Returned promoted cu4" and fin: "and_then (if promoted
       then and_then (commit_mailbox cp (mailbox_io calls) cu4) (\<lambda>_ cu. or_fail (persist_again calls) cu)
       else Returned () cu4) (\<lambda>_ cu. Returned () (observe_recipient calls r (existing = None) cu)) =
      Returned () cu'"
    using run nr by (auto simp: and_then_def or_fail_def split: outcome.splits if_splits)
  then obtain cu5 where "if promoted then \<exists>b. commit_mailbox cp (mailbox_io calls) cu4 = Returned b cu5
      else cu5 = cu4" "cu' = observe_recipient calls r (existing = None) cu5"
    by (auto simp: and_then_def or_fail_def split: outcome.splits if_splits option.splits)
  with that [OF cur ex nr ens place] show ?thesis by blast
qed

lemma holds_message_cong:
  "overflow_stores cu' = overflow_stores cu \<Longrightarrow> mset (entries_of cu') = mset (entries_of cu) \<Longrightarrow>
   holds_message cu' r i = holds_message cu r i"
  by (simp add: holds_message_def list_ex_iff set_held_for)

lemma note_if_new_frame [simp]:
  "entries_of (note_if_new b r p rec cu) = entries_of cu"
  "overflow_stores (note_if_new b r p rec cu) = overflow_stores cu"
  "mailbox_generation (note_if_new b r p rec cu) = mailbox_generation cu"
  by (simp_all add: note_if_new_def entries_of_def mailbox_generation_def)

lemma holds_put:
  assumes "mset (entries_of cu) = add_mset e M" "recipient_main_dht e = r"
    and "i \<in> message_id ` set (entry_sources (overflow_stores cu) e)"
  shows "holds_message cu r i"
proof -
  have "e \<in> set (entries_of cu)" using assms(1) by (metis set_mset_mset union_single_eq_member)
  with assms(2,3) show ?thesis by (auto simp: holds_message_def held_for_def list_ex_iff)
qed

text \<open>The recipient keeps its overflow record.\<close>

lemma place_overflow:
  assumes cp: "params_ok cp" and ok: "custodian_ok cp cu" "entry \<in> set (entries_of cu)"
    and r: "recipient_main_dht entry = r"
    and st: "storage entry = Overflow k epoch n len dg since" "map_of (overflow_stores cu) r = Some s"
    and sender: "\<forall>x. store_map (pointer_codec cp) s (message_id p) = Some x \<longrightarrow>
      sender_main_dht x = sender_main_dht p"
    and new: "is_new = (store_map (pointer_codec cp) s (message_id p) = None)"
    and ens: "is_new \<longrightarrow> ensure_can_add (config cp) r p (Some k) (quota_state cu) = None"
    and run: "place_pointer cp calls r p entry is_new (Some k) cu = Returned promoted cu4"
  shows "custodian_ok cp cu4 \<and> mailbox_generation cu4 = mailbox_generation cu \<and>
    holds_message cu4 r (message_id p)"
proof -
  let ?S = "overflow_stores cu" and ?i = "message_id p"
  note ok' = ok(1) [unfolded custodian_ok_def]
  have shape: "custodian_shape cp cu" using ok' by simp
  obtain ep cu1 e2 cu2 e3 cu3 where pl: "store_pointer cp r p entry cu = Returned ep cu1"
    "promote_sources cp calls r ep cu1 = Returned e2 cu2"
    "recipient_main_dht e3 = recipient_main_dht e2" "storage e3 = storage e2"
    "upsert_entry cp e3 cu2 = Returned () cu3" "promoted = (snd ep \<noteq> None)"
    "cu4 = note_if_new is_new r p (if promoted then None else Some k) cu3"
    by (rule place_pointer_returned [OF run])
  obtain s' n' len' dg' where s': "upsert (pointer_codec cp) p s = Some s'"
    "backed (pointer_codec cp) s' (dht_records cu (package_index s))"
    "package_index s' = package_index s" "cu1 = cu\<lparr>overflow_stores := AList.update r s' ?S\<rparr>"
    "snd ep = None" "fst ep = entry\<lparr>storage := Overflow k epoch n' len' dg' None\<rparr>"
    "source_pairs r (all_entries s') = new_pair is_new r p + source_pairs r (all_entries s)"
    "length (all_entries s') = (if is_new then 1 else 0) + length (all_entries s)"
  proof -
    have "store_pointer cp r p entry cu = Returned (fst ep, snd ep) cu1" using pl(1) by simp
    note st' = store_pointer_overflow [OF cp ok(1) this st sender, folded new]
    show thesis by (rule st') (elim exE, rule that, assumption+)
  qed
  have e2: "cu2 = cu1" "e2 = fst ep" using pl(2) s'(5) by (simp_all add: promote_sources_def)
  have e3: "storage e3 = Overflow k epoch n' len' dg' None" "recipient_main_dht e3 = r"
    using pl(3,4) by (simp_all add: e2 s'(6) r)
  have rec: "entry_record entry = Some k" "entry_record e3 = Some k"
    by (simp_all add: entry_record_def e3(1) st(1))
  have linked: "entry_linked cu1 e3"
    using custodian_linked [OF ok] by (simp add: entry_linked_def e3 st(1) r s'(4) store_simps)
  have backed: "overflow_backed cp cu1" unfolding s'(4)
    by (rule overflow_backed_update [OF custodian_overflow [OF ok(1)] st(2) s'(2,3)])
  have fresh: "\<forall>k'. entry_record e3 = Some k' \<longrightarrow> k' \<notin># record_keys_of (rest_of cp r cu)"
    using own_record [OF cp shape ok(2) rec(1)] by (simp add: rec(2) r)
  obtain cu3' where put: "upsert_entry cp e3 cu1 = Returned () cu3'" "custodian_shape cp cu3'"
    "cu3' = cu1\<lparr>mailbox := mailbox cu3'\<rparr>"
    "held_pairs cu3' = entry_pairs (overflow_stores cu1) e3 + pairs_of ?S (rest_of cp r cu)"
    "held_records cu3' = entry_records (overflow_stores cu1) e3 + records_of ?S (rest_of cp r cu)"
    "rest_of cp r cu3' = rest_of cp r cu" "mailbox_generation cu3' = mailbox_generation cu"
    "mset (entries_of cu3') = add_mset e3 (rest_of cp r cu)"
    by (rule put_entry [OF cp shape _ _ backed _ e3(2) linked fresh])
      (simp_all add: s'(4) store_simps)
  have cu3: "cu3' = cu3" using put(1) pl(5) by (simp add: e2)
  have S3: "overflow_stores cu3 = overflow_stores cu1" "quota_state cu3 = quota_state cu"
    using put(3) unfolding cu3 s'(4)
    by (metis custodian.select_convs(2) custodian.surjective custodian.update_convs(1),
        metis custodian.select_convs(4) custodian.surjective custodian.update_convs(1,2))
  have src: "entry_sources ?S entry = all_entries s" "entry_sources (overflow_stores cu1) e3 = all_entries s'"
    by (simp_all add: entry_sources_def st e3 r s'(4) store_simps)
  note M = entries_with [OF cp shape ok(2) r]
  have held: "held_pairs cu3 = new_pair is_new r p + held_pairs cu"
    "held_records cu3 = (if is_new then of_record (Some k) else {#}) + held_records cu"
    using put(4,5) unfolding cu3 M pairs_of_simps records_of_simps
    by (simp_all add: entry_pairs_def src e3(2) r s'(7,8) entry_records_tagged rec tagged_def of_record_def)
  have "within_limits (config cp) (held_pairs cu3) (held_records cu3)"
    using ensure_can_add_None [of "config cp" r p "Some k" "quota_state cu"] ens ok' held
    by (cases is_new) simp_all
  from finish_add [OF cp put(2) [unfolded cu3] held _ this] ok'
  have "custodian_ok cp cu4" by (simp add: pl(6,7) s'(5) S3(2))
  moreover have "?i \<in> message_id ` set (all_entries s')"
  proof -
    have "store_map (pointer_codec cp) s' ?i = Some p"
      using paged.ins [of "pointer_codec cp" s p] s'(1) backed_store [OF ok(1) st(2)] cp
      by (auto simp: backed_def pointer_key)
    then show ?thesis using store_map_Some [of "pointer_codec cp" s'] s'(2)
      by (auto simp: backed_def)
  qed
  then have "holds_message cu3 r ?i"
    using holds_put [OF put(8) [unfolded cu3] e3(2)] by (simp add: S3(1) src)
  then have "holds_message cu4 r ?i" by (simp add: pl(7) holds_message_def held_for_def)
  ultimately show ?thesis using put(7) by (simp add: pl(7) cu3)
qed

text \<open>The recipient has an inline entry, or none yet.\<close>

lemma overflow_backed_promoted:
  assumes "overflow_backed cp cu" "fresh_calls calls cu" "create_dht calls = Inr package"
    and "backed (pointer_codec cp) s' d" "package_index s' = package"
  shows "overflow_backed cp (cu\<lparr>dht_records := (dht_records cu)(package := d),
    pending_transactions := txs, quota_state := q, overflow_records := recs,
    overflow_stores := AList.update r s' (overflow_stores cu)\<rparr>)"
proof -
  have "\<forall>x s. map_of (overflow_stores cu) x = Some s \<longrightarrow> package_index s \<noteq> package"
    using assms(2,3) map_of_in_vals by (fastforce simp: fresh_calls_def)
  moreover have "\<forall>m. mailbox cu = Some m \<longrightarrow> package_index m \<noteq> package"
    using assms(2,3) by (auto simp: fresh_calls_def)
  ultimately show ?thesis using assms(1,4,5)
    by (auto simp: overflow_backed_def store_simps) blast
qed

lemma within_limits_promoted:
  assumes "within_limits cfg P R" "k \<notin># R" "n \<le> active_messages_per_overflow_record cfg"
  shows "within_limits cfg P (R + replicate_mset n k)"
  using assms by (auto simp: within_limits_def not_in_iff)

lemma place_inline:
  assumes cp: "params_ok cp" and ok: "custodian_ok cp cu" and fresh: "fresh_calls calls cu"
    and entry: "recipient_main_dht entry = r" "storage entry = Inline ps"
      "distinct (map message_id ps)"
    and held: "held_pairs cu = source_pairs r ps + pairs_of (overflow_stores cu) (rest_of cp r cu)"
      "held_records cu = records_of (overflow_stores cu) (rest_of cp r cu)"
    and new: "is_new = (List.find (\<lambda>x. message_id x = message_id p) ps = None)"
    and ens: "is_new \<longrightarrow> ensure_can_add (config cp) r p None (quota_state cu) = None"
    and run: "place_pointer cp calls r p entry is_new None cu = Returned promoted cu4"
  shows "custodian_ok cp cu4 \<and> mailbox_generation cu4 = mailbox_generation cu \<and>
    holds_message cu4 r (message_id p)"
proof -
  let ?S = "overflow_stores cu" and ?i = "message_id p" and ?rest = "rest_of cp r cu"
  note ok' = ok [unfolded custodian_ok_def]
  have shape: "custodian_shape cp cu" using ok' by simp
  obtain ep cu1 e2 cu2 e3 cu3 where pl: "store_pointer cp r p entry cu = Returned ep cu1"
    "promote_sources cp calls r ep cu1 = Returned e2 cu2"
    "recipient_main_dht e3 = recipient_main_dht e2" "storage e3 = storage e2"
    "upsert_entry cp e3 cu2 = Returned () cu3" "promoted = (snd ep \<noteq> None)"
    "cu4 = note_if_new is_new r p (if promoted then None else None) cu3"
    by (rule place_pointer_returned [OF run])
  have "store_pointer cp r p entry cu = Returned (fst ep, snd ep) cu1" using pl(1) by simp
  from store_pointer_inline [OF this entry(2,3)] obtain qs where qs: "cu1 = cu"
    "distinct (map message_id qs)" "source_pairs r qs = new_pair is_new r p + source_pairs r ps"
    "recipient_main_dht (fst ep) = r" "snd ep = None \<and> storage (fst ep) = Inline qs \<or> snd ep = Some qs"
    "?i \<in> message_id ` set qs" unfolding new entry(1) by metis
  have lim: "within_limits (config cp) (new_pair is_new r p + held_pairs cu) (held_records cu)"
    using ensure_can_add_None [of "config cp" r p None "quota_state cu"] ens ok'
    by (cases is_new) (simp_all add: of_record_def)
  have main: "custodian_ok cp cu4 \<and> mailbox_generation cu4 = mailbox_generation cu \<and>
      holds_message cu4 r ?i"
    if cu2: "mailbox cu2 = mailbox cu" "overflow_backed cp cu2" "entry_linked cu2 e3"
      "\<forall>m. mailbox cu = Some m \<longrightarrow> dht_records cu2 (package_index m) = dht_records cu (package_index m)"
      "\<forall>r'. r' \<noteq> r \<longrightarrow> map_of (overflow_stores cu2) r' = map_of ?S r' \<and>
         map_of (overflow_records cu2) r' = map_of (overflow_records cu) r'"
    and e3: "recipient_main_dht e3 = r" "\<forall>k. entry_record e3 = Some k \<longrightarrow> k \<notin># record_keys_of ?rest"
      "mset (entry_sources (overflow_stores cu2) e3) = mset qs"
    and q: "quota_counts (quota_state cu2) (held_pairs cu)
        (tagged (entry_record e3) (length qs) + held_records cu)"
      "within_limits (config cp) (new_pair is_new r p + held_pairs cu)
        (tagged (entry_record e3) (length qs) + held_records cu)"
  proof -
    obtain cu3' where put: "upsert_entry cp e3 cu2 = Returned () cu3'" "custodian_shape cp cu3'"
      "cu3' = cu2\<lparr>mailbox := mailbox cu3'\<rparr>"
      "held_pairs cu3' = entry_pairs (overflow_stores cu2) e3 + pairs_of ?S ?rest"
      "held_records cu3' = entry_records (overflow_stores cu2) e3 + records_of ?S ?rest"
      "rest_of cp r cu3' = ?rest" "mailbox_generation cu3' = mailbox_generation cu"
      "mset (entries_of cu3') = add_mset e3 ?rest"
      by (rule put_entry [OF cp shape cu2(1,4,2,5) e3(1) cu2(3) e3(2)])
    have cu3: "cu3' = cu3" using put(1) pl(5) by simp
    have S3: "overflow_stores cu3 = overflow_stores cu2" "quota_state cu3 = quota_state cu2"
      using put(3) unfolding cu3
      by (metis custodian.select_convs(2) custodian.surjective custodian.update_convs(1),
          metis custodian.select_convs(4) custodian.surjective custodian.update_convs(1))
    have len: "length (entry_sources (overflow_stores cu2) e3) = length qs"
      using e3(3) by (metis size_mset)
    have held3: "held_pairs cu3 = new_pair is_new r p + held_pairs cu"
      "held_records cu3 = (if is_new then of_record None else {#}) +
        (tagged (entry_record e3) (length qs) + held_records cu)"
      using put(4,5) source_pairs_mset [OF e3(3)] unfolding cu3 held
      by (simp_all add: entry_pairs_def e3(1) qs(3) entry_records_tagged len of_record_def)
    have "within_limits (config cp) (held_pairs cu3) (held_records cu3)"
      using q(2) held3 by (cases is_new) (simp_all add: of_record_def)
    from finish_add [OF cp put(2) [unfolded cu3] held3 _ this] q(1)
    have "custodian_ok cp cu4" by (simp add: pl(7) S3(2))
    moreover have "message_id ` set (entry_sources (overflow_stores cu3) e3) = message_id ` set qs"
      using e3(3) S3(1) by (metis set_mset_mset)
    then have "holds_message cu3 r ?i"
      using holds_put [OF put(8) [unfolded cu3] e3(1)] qs(6) by simp
    then have "holds_message cu4 r ?i" by (simp add: pl(7) holds_message_def held_for_def)
    ultimately show ?thesis using put(7) by (simp add: pl(7) cu3)
  qed
  show ?thesis
  proof (cases "snd ep")
    case None
    then have e2: "cu2 = cu" "e2 = fst ep" using pl(2) qs(1) by (simp_all add: promote_sources_def)
    have e3: "storage e3 = Inline qs" "recipient_main_dht e3 = r"
      using pl(3,4) qs(4,5) None by (simp_all add: e2)
    then have rec: "entry_record e3 = None" by (simp add: entry_record_def)
    show ?thesis
      by (rule main)
        (use e3 rec qs(2) lim ok' custodian_overflow [OF ok] in
          \<open>simp_all add: e2 entry_linked_def entry_sources_def tagged_def\<close>)
  next
    case (Some qs')
    then have some: "snd ep = Some qs" using qs(5) by auto
    then obtain st where prom: "promote_recipient_to_overflow cp calls r qs cu = Returned st cu2"
      and e2: "e2 = (fst ep)\<lparr>storage := st\<rparr>"
      using pl(2) qs(1) by (auto simp: promote_sources_def and_then_def split: if_splits outcome.splits)
    obtain package k s' txs d n len dg where pr: "create_dht calls = Inr package"
      "package_key calls = Inr k" "backed (pointer_codec cp) s' d" "package_index s' = package"
      "mset (all_entries s') = mset qs"
      "length qs \<le> active_messages_per_overflow_record (config cp)"
      "st = Overflow k (random_epoch calls) n len dg None"
      "cu2 = cu\<lparr>dht_records := (dht_records cu)(package := d), pending_transactions := txs,
         quota_state := set_overflow_count k (length qs) (quota_state cu),
         overflow_records := AList.update r
           \<lparr>ol_recipient = r, ol_record_key = k, ol_package_index = package,
            ol_epoch = random_epoch calls, ol_below_since = None, retired = False\<rparr>
           (overflow_records cu),
         overflow_stores := AList.update r s' ?S\<rparr>"
      by (rule promote_returned [OF cp fresh qs(2) prom])
    have e3: "storage e3 = Overflow k (random_epoch calls) n len dg None" "recipient_main_dht e3 = r"
      using pl(3,4) qs(4) by (simp_all add: e2 pr(7))
    then have rec: "entry_record e3 = Some k" by (simp add: entry_record_def)
    have k: "k \<notin># record_keys_of (mset (entries_of cu))"
      using fresh pr(2) by (simp add: fresh_calls_def list_all_iff record_keys_iff)
    then have kR: "k \<notin># held_records cu" using records_keys by blast
    have "?rest \<subseteq># mset (entries_of cu)" by (simp add: rest_of_def without_def)
    then have "record_keys_of ?rest \<subseteq># record_keys_of (mset (entries_of cu))"
      by (metis record_keys_of_def image_mset_union mset_subset_eq_add_left mset_subset_eq_exists_conv sum_mset.union)
    then have krest: "k \<notin># record_keys_of ?rest" using k by (meson mset_subset_eqD)
    have small: "length qs \<le> u32_max"
      using pr(6) cp by (simp add: params_ok_def limits_ok_def)
    have q: "quota_counts (quota_state cu2) (held_pairs cu)
        (tagged (entry_record e3) (length qs) + held_records cu)"
      using set_overflow_counts [OF _ kR small] ok' by (simp add: pr(8) rec tagged_def add.commute)
    have l: "within_limits (config cp) (new_pair is_new r p + held_pairs cu)
        (tagged (entry_record e3) (length qs) + held_records cu)"
      using within_limits_promoted [OF lim kR pr(6)] by (simp add: rec tagged_def add.commute)
    have backed: "overflow_backed cp cu2" unfolding pr(8)
      by (rule overflow_backed_promoted [OF custodian_overflow [OF ok] fresh pr(1,3,4)])
    have linked: "entry_linked cu2 e3" by (simp add: entry_linked_def e3 pr(8) store_simps)
    show ?thesis
      by (rule main [OF _ backed linked _ _ e3(2) _ _ q l])
        (use krest pr(1,5) fresh in
          \<open>auto simp: pr(8) rec entry_sources_def e3 store_simps fresh_calls_def\<close>)
  qed
qed

lemma add_pointer_ok:
  assumes cp: "params_ok cp" and ok: "custodian_ok cp cu" and names: "names_agree cp r cu"
    and fresh: "fresh_calls calls cu" and gen: "mailbox_generation cu < u64_max"
    and run: "add_pointer_to_custodian_mailbox cp calls r p cu = Returned () cu'"
  shows "custodian_ok cp cu' \<and> holds_message cu' r (message_id p)"
proof -
  let ?i = "message_id p" and ?S = "overflow_stores cu"
  have shape: "custodian_shape cp cu" using ok by (simp add: custodian_ok_def)
  obtain current existing promoted cu4 cu5 where ad:
    "find_entry cp r cu = Some current" "existing_pointer cp r ?i current cu = Some existing"
    "\<not> reused_id p existing"
    "existing = None \<longrightarrow>
       ensure_can_add (config cp) r p (Option.bind current entry_record) (quota_state cu) = None"
    "place_pointer cp calls r p (case current of Some e \<Rightarrow> e | None \<Rightarrow> new_entry calls r p)
       (existing = None) (Option.bind current entry_record) cu = Returned promoted cu4"
    "if promoted then \<exists>b. commit_mailbox cp (mailbox_io calls) cu4 = Returned b cu5 else cu5 = cu4"
    "cu' = observe_recipient calls r (existing = None) cu5"
    by (rule add_pointer_returned [OF run])
  note found = find_entry_cases [OF cp shape names ad(1)]
  have staged: "custodian_ok cp cu4 \<and> mailbox_generation cu4 = mailbox_generation cu \<and>
      holds_message cu4 r ?i"
  proof (cases current)
    case None
    have rest: "mset (entries_of cu) = rest_of cp r cu" using found None by simp
    show ?thesis
      by (rule place_inline [OF cp ok fresh, of "new_entry calls r p" r "[]"])
        (use ad(2,4,5) None rest in
          \<open>simp_all add: existing_pointer_def new_entry_def source_pairs_def\<close>)
  next
    case (Some e)
    have e: "e \<in> set (entries_of cu)" "recipient_main_dht e = r" using found Some by simp_all
    note M = entries_with [OF cp shape e]
    show ?thesis
    proof (cases "storage e")
      case (Inline ps)
      have ids: "distinct (map message_id ps)"
        using custodian_linked [OF ok e(1)] by (simp add: entry_linked_def Inline)
      have "held_pairs cu = source_pairs r ps + pairs_of ?S (rest_of cp r cu)"
        "held_records cu = records_of ?S (rest_of cp r cu)"
        by (simp_all add: M entry_pairs_def entry_records_def entry_record_def entry_sources_def
            Inline e(2))
      then show ?thesis
        by (intro place_inline [OF cp ok fresh e(2) Inline ids])
          (use ad(2,4,5) Some in \<open>simp_all add: existing_pointer_def Inline entry_record_def\<close>)
    next
      case (Overflow k epoch n len dg since)
      obtain s where s: "map_of ?S r = Some s"
        using custodian_linked [OF ok e(1)] by (auto simp: entry_linked_def Overflow e(2))
      have "existing = store_map (pointer_codec cp) s ?i"
        using ad(2) Some Overflow s get_store_map [of "pointer_codec cp" s ?i] backed_store [OF ok s]
        by (simp add: existing_pointer_def backed_def)
      then show ?thesis
        by (intro place_overflow [OF cp ok e Overflow s])
          (use ad(3-5) Some in \<open>auto simp: reused_id_def Overflow entry_record_def\<close>)
    qed
  qed
  have fin: "custodian_ok cp cu5 \<and> holds_message cu5 r ?i"
  proof (cases promoted)
    case True
    then obtain b where com: "commit_mailbox cp (mailbox_io calls) cu4 = Returned b cu5"
      using ad(6) by auto
    have sh: "custodian_shape cp cu4" using staged by (simp add: custodian_ok_def)
    have gen4: "mailbox_generation cu4 < u64_max" using staged gen by simp
    show ?thesis
      using commit_mailbox_ok [OF cp _ gen4 com] commit_mailbox_shape [OF cp sh gen4 com] staged
        holds_message_cong by blast
  qed (use ad(6) staged in simp)
  have "custodian_shape cp cu' = custodian_shape cp cu5"
  proof -
    have "entry_linked cu' e = entry_linked cu5 e" for e
      by (cases "storage e") (simp_all add: entry_linked_def ad(7) observe_recipient_def)
    then show ?thesis
      by (simp add: custodian_shape_def entries_of_def ad(7) observe_recipient_def split: option.split)
  qed
  then show ?thesis using fin
    by (simp add: custodian_ok_def holds_message_def held_for_def entries_of_def ad(7) observe_recipient_def)
qed

end
