(* ===== verification/Mailbox_Custody_Properties.thy ===== *)
theory Mailbox_Custody_Properties
  imports Mailbox_Adding
begin

text \<open>
  The reachable states of a custodian, and its properties: the quota counters are always those of a
  rebuild, no limit is exceeded, an accepted pointer is held, and a refused one changes nothing.
\<close>

datatype custodian_op =
    Add_Pointer record_key mail_source_pointer
  | Remove_Pointer bytes
  | Expire_Entries nat
  | Demote_Overflow
  | Flush_Stores
  | Repair_Metadata

definition run_op ::
  "custodian_params \<Rightarrow> custodian_calls \<Rightarrow> custodian_op \<Rightarrow> custodian \<Rightarrow> (unit, custodian) outcome" where
  "run_op cp calls op cu =
    (case op of
       Add_Pointer r p \<Rightarrow> add_pointer_to_custodian_mailbox cp calls r p cu
     | Remove_Pointer i \<Rightarrow> remove_pointer_everywhere cp i cu
     | Expire_Entries t \<Rightarrow> expire_custodian_entries cp t cu
     | Demote_Overflow \<Rightarrow> consider_overflow_demotion cp calls cu
     | Flush_Stores \<Rightarrow> and_then (flush_custodian cp calls cu) (\<lambda>_ cu. Returned () cu)
     | Repair_Metadata \<Rightarrow>
         and_then (reconcile_overflow_parent_metadata cp calls cu) (\<lambda>_ cu. Returned () cu))"

text \<open>
  What is assumed of a call: generation numbers do not run out, new packages and record keys are
  new, and the recipient of a pointer is written as in the mailbox (record keys with the same
  bytes have the same text).
\<close>

definition generations_left :: "custodian \<Rightarrow> bool" where
  "generations_left cu \<longleftrightarrow> mailbox_generation cu + length (entries_of cu) < u64_max \<and>
     (\<forall>s \<in> snd ` set (overflow_stores cu). store_generation s < u64_max)"

definition op_possible ::
  "custodian_params \<Rightarrow> custodian_calls \<Rightarrow> custodian_op \<Rightarrow> custodian \<Rightarrow> bool" where
  "op_possible cp calls op cu \<longleftrightarrow> generations_left cu \<and>
     (case op of Add_Pointer r p \<Rightarrow> names_agree cp r cu \<and> fresh_calls calls cu | _ \<Rightarrow> True)"

text \<open>A custodian that starts on the empty record of a new package.\<close>

definition new_custodian :: "nat \<Rightarrow> mailbox_store \<Rightarrow> custodian" where
  "new_custodian t m =
     \<lparr>mailbox = Some m, overflow_stores = [], overflow_records = [],
      quota_state = rebuild t (Some m) [], observed_recipients = [], pending_transactions = [],
      dht_records = (\<lambda>_. Map.empty)\<rparr>"

inductive custodian_reachable :: "custodian_params \<Rightarrow> custodian \<Rightarrow> bool" for cp where
  start: "load_owned (entry_codec cp) io name package (Some n) Map.empty = Inr m \<Longrightarrow>
    estimated_dht_value_limit n \<le> MAX_NETWORK_DHT_VALUE_BYTES \<Longrightarrow>
    custodian_reachable cp (new_custodian t m)"
| step: "custodian_reachable cp cu \<Longrightarrow> op_possible cp calls op cu \<Longrightarrow>
    run_op cp calls op cu = Returned () cu' \<Longrightarrow> custodian_reachable cp cu'"

subsection \<open>The invariant\<close>

lemma new_custodian_ok:
  assumes "load_owned (entry_codec cp) io name package (Some n) Map.empty = Inr m"
    and "estimated_dht_value_limit n \<le> MAX_NETWORK_DHT_VALUE_BYTES"
  shows "custodian_ok cp (new_custodian t m)"
  using load_empty [OF assms(2,1)] quota_counts_default [of t 1]
  by (simp add: custodian_ok_def custodian_shape_def new_custodian_def overflow_backed_def
      entries_of_def within_limits_def rebuild_def)

lemma run_op_ok:
  assumes "params_ok cp" "custodian_ok cp cu" "op_possible cp calls op cu"
    and "run_op cp calls op cu = Returned () cu'"
  shows "custodian_ok cp cu'"
proof -
  have gen: "mailbox_generation cu + length (entries_of cu) < u64_max" "mailbox_generation cu < u64_max"
    and ogen: "\<forall>r s. map_of (overflow_stores cu) r = Some s \<longrightarrow> store_generation s < u64_max"
    using assms(3) map_of_in_vals
    by (force simp: op_possible_def generations_left_def)+
  show ?thesis
  proof (cases op)
    case (Add_Pointer r p)
    with add_pointer_ok [OF assms(1,2) _ _ gen(2), of r calls p cu'] assms(3,4) show ?thesis
      by (simp add: run_op_def op_possible_def)
  next
    case (Remove_Pointer i)
    with remove_everywhere_ok [OF assms(1,2)] assms(4) show ?thesis by (simp add: run_op_def)
  next
    case (Expire_Entries t)
    with expire_ok [OF assms(1,2)] assms(4) show ?thesis by (simp add: run_op_def)
  next
    case Demote_Overflow
    with demotion_ok [OF assms(1,2) gen(1)] assms(4) show ?thesis by (simp add: run_op_def)
  next
    case Flush_Stores
    with flush_ok [OF assms(1,2) gen(2) ogen] assms(4) show ?thesis
      by (auto simp: run_op_def and_then_def split: outcome.splits)
  next
    case Repair_Metadata
    with reconcile_ok [OF assms(1,2) gen(2)] assms(4) show ?thesis
      by (auto simp: run_op_def and_then_def split: outcome.splits)
  qed
qed

lemma reachable_ok:
  assumes "custodian_reachable cp cu" "params_ok cp" shows "custodian_ok cp cu"
  using assms
proof (induction rule: custodian_reachable.induct)
  case (start io name package n m t)
  then show ?case using new_custodian_ok by blast
next
  case (step cu calls op cu')
  then show ?case using run_op_ok by blast
qed

lemma custodian_ids:
  assumes "params_ok cp" "custodian_ok cp cu" "e \<in> set (entries_of cu)"
  shows "ids_distinct (overflow_stores cu) e"
  using custodian_linked [OF assms(2,3)] stored_ids_distinct [OF assms(1) backed_store [OF assms(2)]]
  by (cases "storage e")
    (auto simp: ids_distinct_def entry_sources_def entry_linked_def split: option.split)

text \<open>
  C17. After any sequence of completed operations of a custodian (pointers
  added, promoted to an overflow record, withdrawn, expired, demoted, flushed, repaired), its
  incremental quota counters equal those that \<open>MailboxQuotaState::rebuild\<close> would compute from the
  stores, provided that every pointer was added under the text by which the mailbox already names
  its recipient, if it holds one with the same key bytes, that new packages and record keys were
  new, and that generation numbers did not run out. Under a second spelling of the key the claim
  fails (\<open>aliased_recipient_is_miscounted\<close>). Operations that stop with an error part of the way are
  not among them.\<close>

theorem quota_counters_match_rebuild:
  assumes "custodian_reachable cp cu" "params_ok cp"
  shows "same_counts (quota_state cu) (rebuild t (mailbox cu) (overflow_stores cu))"
proof -
  have ok: "custodian_ok cp cu" by (rule reachable_ok [OF assms])
  then have shape: "custodian_shape cp cu" by (simp add: custodian_ok_def)
  then obtain m where m: "mailbox cu = Some m" by (auto simp: custodian_shape_def split: option.splits)
  then have ents: "entries_of cu = all_entries m" by (simp add: entries_of_def)
  have "fits_u32 (held_pairs cu)"
    using ok assms(2) limits_fit by (auto simp: custodian_ok_def params_ok_def)
  moreover have "\<forall>e \<in> set (all_entries m). ids_distinct (overflow_stores cu) e"
    using custodian_ids [OF assms(2) ok] by (simp add: ents)
  ultimately have "quota_counts (rebuild t (Some m) (overflow_stores cu)) (held_pairs cu) (held_records cu)"
    using rebuild_counts [of "overflow_stores cu" m t] custodian_recipients [OF assms(2) shape] shape
    by (simp add: ents custodian_shape_def)
  with ok m exact_same_counts show ?thesis by (metis custodian_ok_def)
qed

text \<open>
  C18. No sequence of completed operations makes a custodian hold more than the configured
  number of pointers of one sender, of one sender for one recipient, for one recipient, or in one
  overflow record, under the conditions of the property before: above all, no recipient is
  addressed by two spellings of its key (with two, the limit per recipient can be passed).\<close>

theorem custodian_limits_hold:
  assumes "custodian_reachable cp cu" "params_ok cp"
  shows "count (image_mset fst (held_pairs cu)) sender \<le> active_messages_per_sender (config cp) \<and>
    count (held_pairs cu) (sender, recipient) \<le> active_messages_per_sender_recipient (config cp) \<and>
    count (image_mset snd (held_pairs cu)) recipient \<le> active_messages_per_recipient (config cp) \<and>
    count (held_records cu) record \<le> active_messages_per_overflow_record (config cp)"
  using reachable_ok [OF assms] by (simp add: custodian_ok_def within_limits_def)

text \<open>
  C19. When adding a pointer returns, the message is held for its recipient,
  inline or in an overflow record.\<close>

theorem accepted_pointer_is_held:
  assumes "custodian_reachable cp cu" "params_ok cp" "op_possible cp calls (Add_Pointer r p) cu"
    and "add_pointer_to_custodian_mailbox cp calls r p cu = Returned () cu'"
  shows "holds_message cu' r (message_id p)"
proof -
  have "mailbox_generation cu < u64_max" "names_agree cp r cu" "fresh_calls calls cu"
    using assms(3) by (simp_all add: op_possible_def generations_left_def)
  from add_pointer_ok [OF assms(2) reachable_ok [OF assms(1,2)] this(2,3,1) assms(4)]
  show ?thesis ..
qed

subsection \<open>Withdrawal, expiry and refusals\<close>

text \<open>
  Withdrawing a message removes it from every recipient,
  inline and overflow, and nothing else.\<close>

theorem withdrawal_removes_exactly_the_message:
  assumes "custodian_reachable cp cu" "params_ok cp"
    and "remove_pointer_everywhere cp i cu = Returned () cu'"
  shows "set (held_for cu' r) = {x \<in> set (held_for cu r). message_id x \<noteq> i}"
  using remove_everywhere_ok [OF assms(2) reachable_ok [OF assms(1,2)] assms(3)]
  by (simp add: keeps_exactly_def)


text \<open>What the lookup of an existing pointer finds.\<close>

lemma existing_pointer_held:
  assumes cp: "params_ok cp" and ok: "custodian_ok cp cu" and names: "names_agree cp r cu"
  obtains current existing where "find_entry cp r cu = Some current"
    "existing_pointer cp r i current cu = Some existing"
    "case existing of
       None \<Rightarrow> \<forall>x \<in> set (held_for cu r). message_id x \<noteq> i
     | Some x \<Rightarrow> x \<in> set (held_for cu r) \<and> message_id x = i \<and>
         (\<forall>y \<in> set (held_for cu r). message_id y = i \<longrightarrow> y = x)"
proof -
  have shape: "custodian_shape cp cu" using ok by (simp add: custodian_ok_def)
  then obtain m where m: "mailbox cu = Some m" "store_ok (entry_codec cp) m"
    by (auto simp: custodian_shape_def backed_def split: option.splits)
  obtain current where cur: "find_entry cp r cu = Some current"
    using get_store_map [OF m(2)] m(1) by (simp add: find_entry_def)
  note found = find_entry_cases [OF cp shape names cur]
  show ?thesis
  proof (cases current)
    case None
    have "\<forall>e \<in># mset (entries_of cu). recipient_main_dht e \<noteq> r"
      using found None rest_names [OF cp] by simp
    then have "set (held_for cu r) = {}" by (auto simp: set_held_for)
    with that [OF cur, of None] show ?thesis by (simp add: existing_pointer_def None)
  next
    case (Some e)
    then have e: "e \<in> set (entries_of cu)" "recipient_main_dht e = r" using found by simp_all
    have held: "set (held_for cu r) = set (entry_sources (overflow_stores cu) e)"
      using held_sources [OF cp ok e(1)] e(2) by simp
    have "inj_on message_id (set (held_for cu r))"
      using custodian_ids [OF cp ok e(1)] by (simp add: held ids_distinct_def distinct_map)
    then have unique: "\<forall>y \<in> set (held_for cu r). message_id y = i \<longrightarrow> y = x"
      if "x \<in> set (held_for cu r)" "message_id x = i" for x
      using that by (auto simp: inj_on_def)
    show ?thesis
    proof (cases "storage e")
      case (Inline ps)
      let ?x = "List.find (\<lambda>x. message_id x = i) ps"
      have ps: "set (held_for cu r) = set ps" by (simp add: held entry_sources_def Inline)
      have "case ?x of None \<Rightarrow> \<forall>x \<in> set (held_for cu r). message_id x \<noteq> i
         | Some x \<Rightarrow> x \<in> set (held_for cu r) \<and> message_id x = i \<and>
             (\<forall>y \<in> set (held_for cu r). message_id y = i \<longrightarrow> y = x)"
        using unique by (auto simp: find_None_iff find_Some_iff ps split: option.split)
      then show ?thesis
        by (rule that [OF cur, rotated]) (simp add: existing_pointer_def Some Inline)
    next
      case (Overflow k epoch n len dg since)
      obtain s where s: "map_of (overflow_stores cu) r = Some s"
        using custodian_linked [OF ok e(1)] by (auto simp: entry_linked_def Overflow e(2))
      have sok: "store_ok (pointer_codec cp) s" using backed_store [OF ok s] by (simp add: backed_def)
      let ?x = "store_map (pointer_codec cp) s i"
      have ps: "set (held_for cu r) = set (all_entries s)"
        by (simp add: held entry_sources_def Overflow e(2) s)
      have "case ?x of None \<Rightarrow> \<forall>x \<in> set (held_for cu r). message_id x \<noteq> i
         | Some x \<Rightarrow> x \<in> set (held_for cu r) \<and> message_id x = i \<and>
             (\<forall>y \<in> set (held_for cu r). message_id y = i \<longrightarrow> y = x)"
        using unique store_map_Some [OF sok] store_map_None [of "pointer_codec cp" s]
        by (auto simp: pointer_key [OF cp] ps split: option.split)
      then show ?thesis
        by (rule that [OF cur, rotated])
          (simp add: existing_pointer_def Some Overflow s get_store_map [OF sok])
    qed
  qed
qed

text \<open>
  A pointer whose message id is already held for the recipient from
  another sender, or from another MailSend record, is refused, and nothing changes.\<close>

theorem reused_message_id_is_refused:
  assumes "custodian_reachable cp cu" "params_ok cp" "names_agree cp r cu"
    and "x \<in> set (held_for cu r)" "message_id x = message_id p"
    and "sender_main_dht x \<noteq> sender_main_dht p \<or> mail_send_dht x \<noteq> mail_send_dht p"
  shows "add_pointer_to_custodian_mailbox cp calls r p cu =
    Failed (InvalidMessage ''message id was reused with a different sender or MailSend DHT'') cu"
proof -
  obtain current existing where ex: "find_entry cp r cu = Some current"
    "existing_pointer cp r (message_id p) current cu = Some existing"
    "case existing of
       None \<Rightarrow> \<forall>x \<in> set (held_for cu r). message_id x \<noteq> message_id p
     | Some x \<Rightarrow> x \<in> set (held_for cu r) \<and> message_id x = message_id p \<and>
         (\<forall>y \<in> set (held_for cu r). message_id y = message_id p \<longrightarrow> y = x)"
    by (rule existing_pointer_held [OF assms(2) reachable_ok [OF assms(1,2)] assms(3)])
  then have "existing = Some x" using assms(4,5) by (auto split: option.splits)
  with ex(1,2) assms(6) show ?thesis by (simp add: add_pointer_to_custodian_mailbox_def reused_id_def)
qed

text \<open>
  C21. A new message of a sender, or for a recipient, that already has as many
  pointers as the configuration allows is refused with the quota that is exhausted, and nothing
  changes, provided that the message names the recipient by the text that the mailbox uses for it,
  as did all before it. Under a second spelling of the key the message is counted for that spelling
  and may be taken.\<close>

theorem full_custodian_refuses:
  assumes "custodian_reachable cp cu" "params_ok cp" "names_agree cp r cu"
    and "\<not> holds_message cu r (message_id p)"
    and "active_messages_per_sender (config cp) \<le> count (image_mset fst (held_pairs cu)) (sender_main_dht p) \<or>
      active_messages_per_sender_recipient (config cp) \<le> count (held_pairs cu) (sender_main_dht p, r) \<or>
      active_messages_per_recipient (config cp) \<le> count (image_mset snd (held_pairs cu)) r"
  shows "\<exists>quota. add_pointer_to_custodian_mailbox cp calls r p cu = Failed (QuotaExceeded quota) cu"
proof -
  have ok: "custodian_ok cp cu" by (rule reachable_ok [OF assms(1,2)])
  obtain current existing where ex: "find_entry cp r cu = Some current"
    "existing_pointer cp r (message_id p) current cu = Some existing"
    "case existing of
       None \<Rightarrow> \<forall>x \<in> set (held_for cu r). message_id x \<noteq> message_id p
     | Some x \<Rightarrow> x \<in> set (held_for cu r) \<and> message_id x = message_id p \<and>
         (\<forall>y \<in> set (held_for cu r). message_id y = message_id p \<longrightarrow> y = x)"
    by (rule existing_pointer_held [OF assms(2) ok assms(3)])
  then have none: "existing = None"
    using assms(4) by (auto simp: holds_message_def list_ex_iff split: option.splits)
  have exact: "tally (sender_counts (quota_state cu)) = count (image_mset fst (held_pairs cu))"
    "nested_tally (sender_recipient_counts (quota_state cu)) = count (held_pairs cu)"
    "tally (recipient_counts (quota_state cu)) = count (image_mset snd (held_pairs cu))"
    using ok by (simp_all add: custodian_ok_def quota_counts_def counts_def)
  have "\<exists>quota. ensure_can_add (config cp) r p (Option.bind current entry_record) (quota_state cu) =
      Some (QuotaExceeded quota)"
    using assms(5) unfolding ensure_can_add_def Let_def exact
    by (elim disjE) simp_all
  then obtain quota where "ensure_can_add (config cp) r p (Option.bind current entry_record)
      (quota_state cu) = Some (QuotaExceeded quota)" ..
  with ex(1,2) none show ?thesis
    by (simp add: add_pointer_to_custodian_mailbox_def reused_id_def or_fail_def and_then_def)
qed

end
