(* ===== verification/Mailbox_Properties.thy ===== *)
theory Mailbox_Properties
  imports Mailbox_Refine
begin

text \<open>The properties of the mailbox page store.\<close>

subsection \<open>Stores with the same entries stand for the same map\<close>

lemma entries_map_mset:
  assumes "mset es = mset fs" "distinct (map (page_key c) es)"
  shows "entries_map c es = entries_map c fs"
proof -
  have "distinct (map (page_key c) fs)"
    using assms by (metis mset_map mset_eq_imp_distinct_iff)
  moreover have "set es = set fs" using assms(1) by (rule mset_eq_setD)
  ultimately show ?thesis
    unfolding entries_map_def using assms(2)
    by (intro map_of_inject_set [THEN iffD2]) (simp_all add: comp_def)
qed

lemma pages_distinct:
  "pages_ok c lo ps \<Longrightarrow> distinct (map (page_key c) (concat (map lp_entries ps)))"
proof (induction c lo ps rule: pages_ok.induct)
  case (2 c lo p)
  then show ?case by (simp add: page_keys_def strict_sorted_iff)
next
  case (3 c lo p q ps)
  then obtain ds where ds: "lp_descriptor p = Some ds" "sorted_wrt (<) (page_keys c p)"
    "\<forall>k \<in> set (page_keys c p). k \<le> last_key ds" "pages_ok c (Some (last_key ds)) (q # ps)"
    by (auto split: option.splits)
  have "\<forall>k \<in> page_key c ` set (concat (map lp_entries (q # ps))). last_key ds < k"
    using pages_ok_concat [OF ds(4)] by (auto simp: above_def)
  with ds(3) have "set (page_keys c p) \<inter> page_key c ` set (concat (map lp_entries (q # ps))) = {}"
    by (meson disjoint_iff leD)
  moreover have "distinct (map (page_key c) (concat (map lp_entries (q # ps))))"
    by (rule 3(1) [OF ds(1,4)])
  moreover have "distinct (page_keys c p)" using ds(2) by (simp add: strict_sorted_iff)
  ultimately show ?case by (simp add: page_keys_def image_Un)
qed simp

lemma same_entries_same_map:
  "store_ok c s \<Longrightarrow> mset (all_entries s') = mset (all_entries s) \<Longrightarrow> store_map c s' = store_map c s"
  unfolding store_map_entries store_ok_def
  by (rule entries_map_mset [symmetric]) (simp_all add: all_entries_def pages_distinct)

text \<open>The one update of the transaction log that comes after the new index is in place.\<close>

definition last_log_failed :: "dht_io \<Rightarrow> mailbox_error \<Rightarrow> bool" where
  "last_log_failed io e \<longleftrightarrow> (\<exists>x. e = Auth x \<and> dio_log io = None \<and> dio_log_again io = Some x)"

lemma commit_index_keeps_entries:
  assumes "commit_index c io limit dss (s, txs, d) = (Inl e, s', txs', d')"
    and "\<not> (\<exists>x. e = Auth x \<and> dio_log_again io = Some x)"
  shows "s' = s"
  using assms by (auto simp: commit_index_def Let_def split: if_splits option.splits sum.splits)

lemma first_log_failure:
  assumes "commit c cfg io (s, txs, d) = (r, s', txs', d')" "dio_log io = Some x"
  shows "d' = d \<and> (\<forall>e. r = Inl e \<longrightarrow> s' = rebalance_dirty_pages c cfg s)"
proof (cases "pending_changes s = 0")
  case True
  with assms show ?thesis by (auto simp: commit_idle)
next
  case False
  from assms(1) [unfolded commit_dirty [OF False] Let_def] assms(2) show ?thesis
    by (auto split: sum.splits prod.splits)
qed

lemma failed_commit_store:
  assumes "commit c cfg io (s, txs, d) = (Inl e, s', txs', d')" "\<not> last_log_failed io e"
  shows "s' = rebalance_dirty_pages c cfg s"
proof (cases "dio_log io")
  case (Some x)
  with first_log_failure [OF assms(1)] show ?thesis by blast
next
  case None
  with assms(2) have no: "\<not> (\<exists>x. e = Auth x \<and> dio_log_again io = Some x)"
    by (simp add: last_log_failed_def)
  from assms(1) show ?thesis
  proof (cases rule: commit_cases)
    case (index dss ws txs0)
    then show ?thesis using commit_index_keeps_entries [OF index(3) no] by simp
  qed auto
qed

subsection \<open>Properties\<close>

text \<open>
  C12. Any sequence of insertions and removals succeeds on a well-formed paged store,
  keeps it well formed, and a lookup afterwards gives what the same updates and deletions make of
  the map of its entries.\<close>

theorem paged_store_refines_map:
  assumes "store_ok c s"
  shows "\<exists>s'. run_changes (upsert c) (remove_entry c) chs s = Some s' \<and> store_ok c s' \<and>
    (\<forall>k. get_entry c k s' = Some (fold (change_map (page_key c)) chs (store_map c s) k))"
  using paged.run_refines [OF assms, of chs] paged.get_after_run [OF assms, of chs] by blast

text \<open>
  C13. A commit interrupted at any point - after any subset of its page writes, or after the
  new index - leaves a record from which a restart loads the generation before the commit,
  page for page, or the next generation with exactly the entries of the store.\<close>

theorem commit_is_crash_safe:
  assumes "codec_ok c" "disk_current c s d" "store_generation s < u64_max"
    and "estimated_dht_value_limit (total_subkeys s) \<le> MAX_NETWORK_DHT_VALUE_BYTES"
    and "crash_state c cfg t s d d'"
  shows "current_index (reload c s d') = current_index s \<and>
      cs_pages (reload c s d') = cs_pages (reload c s d) \<or>
    map_option ix_generation (current_index (reload c s d')) = Some (store_generation s + 1) \<and>
      mset (all_entries (reload c s d')) = mset (all_entries s)"
  using crash_safe [OF assms] next_generation_newer [OF assms(3)]
  by (auto simp: same_generation_def full_generation_def)

text \<open>
  C14. Whatever reads, writes and log updates fail during a call of \<open>commit\<close>, the record
  it leaves is one of the states of an interrupted commit. If it fails, the store in memory keeps
  its index and its entries, with one exception: the update of the transaction log that comes
  after the new index has been written and read back. If the first update of the log fails, or
  there is nothing to commit, the record is not touched at all.\<close>

theorem commit_implements_crash_states:
  "case commit c cfg io (s, txs, d) of (r, s', txs', d') \<Rightarrow>
     crash_state c cfg (dio_now io) s d d' \<and>
     (dio_log io = None \<or> d' = d) \<and>
     (case r of
        Inl e \<Rightarrow> last_log_failed io e \<or>
          current_index s' = current_index s \<and> mset (all_entries s') = mset (all_entries s)
      | Inr True \<Rightarrow> dio_log io = None \<and> dio_log_again io = None
      | Inr False \<Rightarrow> s' = s \<and> d' = d)"
proof -
  obtain r s' txs' d' where run: "commit c cfg io (s, txs, d) = (r, s', txs', d')"
    by (cases "commit c cfg io (s, txs, d)") auto
  have no: "commit_index c io l dss x \<noteq> (Inr False, y)" for l dss x y
    by (cases x) (auto simp: commit_index_def Let_def split: if_splits option.splits sum.splits)
  from run have "r = Inr False \<Longrightarrow> s' = s \<and> d' = d" by (cases rule: commit_cases) (use no in auto)
  moreover have "dio_log io = None \<and> dio_log_again io = None" if "r = Inr True"
  proof -
    have again: "dio_log_again io = None" if "commit_index c io l dss x = (Inr True, y)" for l dss x y
      using that by (cases x) (auto simp: commit_index_def Let_def split: if_splits option.splits sum.splits)
    have dirty: "pending_changes s \<noteq> 0"
    proof
      assume "pending_changes s = 0"
      with run that show False by (simp add: commit_idle)
    qed
    then have "dio_log io = None"
      using run [unfolded commit_dirty [OF dirty] Let_def] that by (auto split: sum.splits option.splits)
    moreover from run have "dio_log_again io = None"
      by (cases rule: commit_cases) (use that again in auto)
    ultimately show ?thesis ..
  qed
  moreover have "s' = rebalance_dirty_pages c cfg s" if "r = Inl e" "\<not> last_log_failed io e" for e
    using failed_commit_store run that by blast
  moreover have "d' = d" if "dio_log io \<noteq> None"
    using first_log_failure [OF run] that by blast
  ultimately show ?thesis
    using commit_crash_state [OF run] rebalance_entries [of c cfg s]
    by (auto simp: run split: sum.split bool.split)
qed

text \<open>
  C15. When \<open>commit\<close> returns \<open>true\<close>, a restart loads exactly the store in memory, which
  stands for the same map as before the commit, one generation on, and is ready for the next
  commit.\<close>

theorem successful_commit_is_durable:
  assumes "codec_ok c" "disk_current c s d" "store_generation s < u64_max" "store_ok c s"
    and "estimated_dht_value_limit (total_subkeys s) \<le> MAX_NETWORK_DHT_VALUE_BYTES"
    and "commit c cfg io (s, txs, d) = (Inr True, s', txs', d')"
  shows "current_index (reload c s d') = current_index s' \<and>
    active_index_slot (reload c s d') = active_index_slot s' \<and>
    cs_pages (reload c s d') = cs_pages s' \<and>
    store_map c s' = store_map c s \<and> store_generation s' = store_generation s + 1 \<and>
    store_ok c s' \<and> disk_current c s' d'"
proof -
  note committed = commit_success [OF assms(1-3,5,6)]
  show ?thesis
    by (intro conjI same_entries_same_map [OF assms(4)] committed)
qed






end
