(* ===== verification/Example_Codec.thy ===== *)
theory Example_Codec
  imports Prelude "HOL-Library.Code_Target_Nat"
begin

text \<open>
  A small byte encoding with its decoder, for the concrete inputs of the witnesses: where the
  theorems take the encodings of the program (\<open>bincode\<close>, JSON) as parameters with a round trip as
  hypothesis, these functions show that the hypothesis can hold.
\<close>

definition enc_nat :: "nat \<Rightarrow> bytes" where
  "enc_nat n = replicate n 1 @ [0]"

fun dec_nat :: "bytes \<Rightarrow> (nat \<times> bytes) option" where
  "dec_nat [] = None"
| "dec_nat (b # bs) =
     (if b = 0 then Some (0, bs)
      else case dec_nat bs of None \<Rightarrow> None | Some (n, bs) \<Rightarrow> Some (Suc n, bs))"

fun dec_many :: "(bytes \<Rightarrow> ('a \<times> bytes) option) \<Rightarrow> nat \<Rightarrow> bytes \<Rightarrow> ('a list \<times> bytes) option" where
  "dec_many dec 0 bs = Some ([], bs)"
| "dec_many dec (Suc n) bs =
     (case dec bs of None \<Rightarrow> None
      | Some (x, bs) \<Rightarrow>
         (case dec_many dec n bs of None \<Rightarrow> None | Some (xs, bs) \<Rightarrow> Some (x # xs, bs)))"

definition enc_list :: "('a \<Rightarrow> bytes) \<Rightarrow> 'a list \<Rightarrow> bytes" where
  "enc_list enc xs = enc_nat (length xs) @ concat (map enc xs)"

definition dec_list :: "(bytes \<Rightarrow> ('a \<times> bytes) option) \<Rightarrow> bytes \<Rightarrow> ('a list \<times> bytes) option" where
  "dec_list dec bs = (case dec_nat bs of None \<Rightarrow> None | Some (n, bs) \<Rightarrow> dec_many dec n bs)"

definition enc_bytes :: "bytes \<Rightarrow> bytes" where "enc_bytes = enc_list (\<lambda>b. [b])"

definition dec_byte :: "bytes \<Rightarrow> (8 word \<times> bytes) option" where
  "dec_byte bs = (case bs of [] \<Rightarrow> None | b # bs \<Rightarrow> Some (b, bs))"

definition dec_bytes :: "bytes \<Rightarrow> (bytes \<times> bytes) option" where "dec_bytes = dec_list dec_byte"

lemma dec_enc_nat [simp]: "dec_nat (enc_nat n @ bs) = Some (n, bs)"
  by (induction n) (simp_all add: enc_nat_def)

lemma dec_enc_many:
  "(\<And>x bs. dec (enc x @ bs) = Some (x, bs)) \<Longrightarrow>
   dec_many dec (length xs) (concat (map enc xs) @ bs) = Some (xs, bs)"
  by (induction xs) simp_all

lemma dec_enc_list:
  "(\<And>x bs. dec (enc x @ bs) = Some (x, bs)) \<Longrightarrow> dec_list dec (enc_list enc xs @ bs) = Some (xs, bs)"
  by (simp add: dec_list_def enc_list_def dec_enc_many)

lemma dec_enc_bytes [simp]: "dec_bytes (enc_bytes xs @ bs) = Some (xs, bs)"
  unfolding dec_bytes_def enc_bytes_def by (rule dec_enc_list) (simp add: dec_byte_def)

lemma at_end: "dec (xs @ []) = y \<Longrightarrow> dec xs = y" by simp

text \<open>Strings as the codes of their characters.\<close>

definition string_bytes :: "string \<Rightarrow> bytes" where "string_bytes = map (\<lambda>ch. of_nat (of_char ch))"

definition bytes_string :: "bytes \<Rightarrow> string" where "bytes_string = map (\<lambda>b. char_of (unat b))"

definition enc_string :: "string \<Rightarrow> bytes" where "enc_string s = enc_bytes (string_bytes s)"

definition dec_string :: "bytes \<Rightarrow> (string \<times> bytes) option" where
  "dec_string bs = Option.bind (dec_bytes bs) (\<lambda>(s, bs). Some (bytes_string s, bs))"

lemma char_code [simp]: "unat (of_nat (of_char ch :: nat) :: 8 word) = of_char ch"
proof -
  have "(of_char ch :: nat) < 256" using nat_of_char_less_256 [of ch] by simp
  then show ?thesis by (simp add: unat_of_nat)
qed

lemma byte_code [simp]: "unat (b :: 8 word) mod 256 = unat b"
proof -
  have "unat b < 2 ^ 8" using unsigned_less [of b, where ?'a = nat] by simp
  then show ?thesis by simp
qed

lemma bytes_string_bytes [simp]: "bytes_string (string_bytes s) = s"
  by (induction s) (simp_all add: bytes_string_def string_bytes_def)

lemma string_bytes_string [simp]: "string_bytes (bytes_string bs) = bs"
  by (induction bs) (simp_all add: bytes_string_def string_bytes_def)

lemma dec_enc_string [simp]: "dec_string (enc_string s @ bs) = Some (s, bs)"
  by (simp add: dec_string_def enc_string_def)

end
