(* ===== verification/Mailbox_Example.thy ===== *)
theory Mailbox_Example
  imports Mailbox_Properties Example_Codec
begin

text \<open>
  A concrete codec, a store that is filled, committed and interrupted, and the witnesses of the
  properties of the page store.
\<close>

subsection \<open>A codec\<close>

definition enc_descriptor :: "cow_page_descriptor \<Rightarrow> bytes" where
  "enc_descriptor ds = enc_nat (pd_subkey ds) @ enc_bytes (first_key ds) @ enc_bytes (last_key ds) @
     enc_nat (pd_generation ds) @ enc_nat (entry_count ds) @ enc_nat (serialized_size ds) @
     enc_bytes (pd_digest ds)"

definition dec_descriptor :: "bytes \<Rightarrow> (cow_page_descriptor \<times> bytes) option" where
  "dec_descriptor bs =
    Option.bind (dec_nat bs) (\<lambda>(k, bs). Option.bind (dec_bytes bs) (\<lambda>(f, bs).
    Option.bind (dec_bytes bs) (\<lambda>(l, bs). Option.bind (dec_nat bs) (\<lambda>(g, bs).
    Option.bind (dec_nat bs) (\<lambda>(n, bs). Option.bind (dec_nat bs) (\<lambda>(z, bs).
    Option.bind (dec_bytes bs) (\<lambda>(h, bs).
      Some (\<lparr>pd_subkey = k, first_key = f, last_key = l, pd_generation = g, entry_count = n,
             serialized_size = z, pd_digest = h\<rparr>, bs))))))))"

definition enc_index :: "cow_index \<Rightarrow> bytes" where
  "enc_index ix = enc_nat (ix_version ix) @ enc_nat (ix_generation ix) @
     enc_nat (case previous_generation ix of None \<Rightarrow> 0 | Some g \<Rightarrow> Suc g) @
     enc_nat (ix_created_at ix) @ enc_list enc_descriptor (ix_pages ix) @ enc_bytes (ix_digest ix)"

definition dec_index :: "bytes \<Rightarrow> cow_index option" where
  "dec_index bs =
    Option.bind (dec_nat bs) (\<lambda>(v, bs). Option.bind (dec_nat bs) (\<lambda>(g, bs).
    Option.bind (dec_nat bs) (\<lambda>(prev, bs). Option.bind (dec_nat bs) (\<lambda>(t, bs).
    Option.bind (dec_list dec_descriptor bs) (\<lambda>(ps, bs). Option.bind (dec_bytes bs) (\<lambda>(h, bs).
      Some \<lparr>ix_version = v, ix_generation = g,
            previous_generation = (if prev = 0 then None else Some (prev - 1)), ix_created_at = t,
            ix_pages = ps, ix_digest = h\<rparr>))))))"

definition enc_page :: "8 word cow_data_page \<Rightarrow> bytes" where
  "enc_page p = enc_nat (pg_version p) @ enc_nat (pg_generation p) @ enc_bytes (pg_entries p) @
     enc_bytes (pg_digest p)"

definition dec_page :: "bytes \<Rightarrow> 8 word cow_data_page option" where
  "dec_page bs =
    Option.bind (dec_nat bs) (\<lambda>(v, bs). Option.bind (dec_nat bs) (\<lambda>(g, bs).
    Option.bind (dec_bytes bs) (\<lambda>(es, bs). Option.bind (dec_bytes bs) (\<lambda>(h, bs).
      Some \<lparr>pg_version = v, pg_generation = g, pg_entries = es, pg_digest = h\<rparr>))))"

text \<open>Entries are bytes, keyed by themselves; the hash is the sum of the bytes.\<close>

definition example_codec :: "8 word codec" where
  "example_codec = \<lparr>page_key = (\<lambda>e. [e]), encode_page = enc_page, decode_page = dec_page,
     encode_index = enc_index, decode_index = dec_index, hash_bytes = (\<lambda>bs. [fold (+) bs 0])\<rparr>"

lemma dec_enc_descriptor [simp]: "dec_descriptor (enc_descriptor ds @ bs) = Some (ds, bs)"
  by (simp add: dec_descriptor_def enc_descriptor_def)

lemma example_codec_ok: "codec_ok example_codec"
proof -
  have "dec_page (enc_page p) = Some p" for p
    using dec_enc_bytes [of "pg_digest p" "[]"] by (simp add: dec_page_def enc_page_def)
  moreover have "dec_index (enc_index ix) = Some ix" for ix
    using dec_enc_bytes [of "ix_digest ix" "[]"]
    by (simp add: dec_index_def enc_index_def dec_enc_list split: option.split)
  ultimately show ?thesis by (simp add: codec_ok_def example_codec_def enc_page_def enc_index_def enc_nat_def)
qed

subsection \<open>A store\<close>

definition small_pages :: mailbox_config where
  "small_pages = config_default\<lparr>page_target_size := 12, page_split_threshold := 13\<rparr>"

definition fresh_store :: "8 word cow_paged_store" where
  "fresh_store = \<lparr>cs_name = ''mailbox'', package_index = 0, total_subkeys = 64,
     active_index_slot = INDEX_SLOT_A, current_index = None, previous_index = None,
     cs_pages = [empty_page]\<rparr>"

definition filled_store :: "8 word cow_paged_store" where
  "filled_store = the (run_changes (upsert example_codec) (remove_entry example_codec)
     [Put 3, Put 1, Put 2, Put 5, Put 4, Del [2]] fresh_store)"

definition empty_record :: dht_record where
  "empty_record = (\<lambda>k. None)"

text \<open>The store after its first commit, and the record that commit leaves.\<close>

definition committed :: "(mailbox_error + bool) \<times> 8 word commit_state" where
  "committed = commit example_codec small_pages no_faults (filled_store, [], empty_record)"

definition committed_store :: "8 word cow_paged_store" where
  "committed_store = fst (snd committed)"

definition committed_record :: dht_record where
  "committed_record = snd (snd (snd committed))"

lemma fresh_ok: "store_ok example_codec fresh_store"
  by (simp add: store_ok_def fresh_store_def empty_page_def page_keys_def)

lemma filled_ok: "store_ok example_codec filled_store"
  using paged.run_refines [OF fresh_ok, of "[Put 3, Put 1, Put 2, Put 5, Put 4, Del [2]]"]
  by (auto simp: filled_store_def)

lemma filled_pages: "cs_pages filled_store =
    [\<lparr>lp_descriptor = None, lp_entries = [1, 3, 4, 5], lp_dirty = True\<rparr>]"
  "current_index filled_store = None" "active_index_slot filled_store = INDEX_SLOT_A"
  "store_generation filled_store = 0"
  "estimated_dht_value_limit (total_subkeys filled_store) \<le> MAX_NETWORK_DHT_VALUE_BYTES"
  by code_simp+

lemma filled_current: "disk_current example_codec filled_store empty_record"
  by (simp add: disk_current_def filled_pages index_candidate_def empty_record_def)

lemma committed_True: "fst committed = Inr True"
  by code_simp

lemma committed_eq:
  "commit example_codec small_pages no_faults (filled_store, [], empty_record) =
     (Inr True, committed_store, fst (snd (snd committed)), committed_record)"
  using committed_True
  by (simp add: committed_def committed_store_def committed_record_def prod_eq_iff)

subsection \<open>Witnesses\<close>

lemma paged_store_refines_map_witness:
  "\<exists>s'. run_changes (upsert example_codec) (remove_entry example_codec) [Put 7, Del [3]] fresh_store
      = Some s' \<and> store_ok example_codec s' \<and>
    (\<forall>k. get_entry example_codec k s' = Some (fold (change_map (page_key example_codec))
       [Put 7, Del [3]] (store_map example_codec fresh_store) k))"
  by (rule paged_store_refines_map [OF fresh_ok])

lemma commit_is_crash_safe_witness:
  "current_index (reload example_codec filled_store committed_record) = current_index filled_store \<and>
      cs_pages (reload example_codec filled_store committed_record) =
      cs_pages (reload example_codec filled_store empty_record) \<or>
    map_option ix_generation (current_index (reload example_codec filled_store committed_record)) =
      Some (store_generation filled_store + 1) \<and>
      mset (all_entries (reload example_codec filled_store committed_record)) =
      mset (all_entries filled_store)"
  by (rule commit_is_crash_safe [OF example_codec_ok filled_current _ filled_pages(5)
        commit_crash_state [OF committed_eq]]) (simp add: filled_pages u64_max_def)

lemma successful_commit_is_durable_witness:
  "current_index (reload example_codec filled_store committed_record) =
      current_index committed_store \<and>
    active_index_slot (reload example_codec filled_store committed_record) =
      active_index_slot committed_store \<and>
    cs_pages (reload example_codec filled_store committed_record) = cs_pages committed_store \<and>
    store_map example_codec committed_store = store_map example_codec filled_store \<and>
    store_generation committed_store = store_generation filled_store + 1 \<and>
    store_ok example_codec committed_store \<and>
    disk_current example_codec committed_store committed_record"
  by (rule successful_commit_is_durable [OF example_codec_ok filled_current _ filled_ok
        filled_pages(5) committed_eq]) (simp add: filled_pages u64_max_def)




subsection \<open>A lookup after a failed commit\<close>

text \<open>
  The pages split by a commit have no descriptor until the commit has succeeded. After a commit
  that failed, a lookup stops at the first of them: the entry with key 4 is still in the store,
  and was found before the commit, but is no longer found.
\<close>

lemma failed_commit_hides_entries:
  "let failing = no_faults\<lparr>dio_log := Some ''disk full''\<rparr>;
       (r, s, txs, d) = commit example_codec small_pages failing (filled_store, [], empty_record)
   in r = Inl (Auth ''disk full'') \<and> 4 \<in> set (all_entries s) \<and>
      get_entry example_codec [4] filled_store = Some (Some 4) \<and>
      get_entry example_codec [4] s = Some None"
  by code_simp

end
