(* ===== verification/Mailbox_Custody_Example.thy ===== *)
theory Mailbox_Custody_Example
  imports Mailbox_Custody_Properties Mailbox_Example
begin

text \<open>
  A custodian with small limits: the second pointer for a recipient promotes it to an overflow
  record. The witnesses of the properties of the custodian are states of this run.
\<close>

subsection \<open>Codecs\<close>

definition enc_option :: "('a \<Rightarrow> bytes) \<Rightarrow> 'a option \<Rightarrow> bytes" where
  "enc_option enc x = (case x of None \<Rightarrow> enc_nat 0 | Some y \<Rightarrow> enc_nat 1 @ enc y)"

definition dec_option :: "(bytes \<Rightarrow> ('a \<times> bytes) option) \<Rightarrow> bytes \<Rightarrow> ('a option \<times> bytes) option" where
  "dec_option dec bs = Option.bind (dec_nat bs) (\<lambda>(n, bs).
     if n = 0 then Some (None, bs) else Option.bind (dec bs) (\<lambda>(y, bs). Some (Some y, bs)))"

definition enc_pointer :: "mail_source_pointer \<Rightarrow> bytes" where
  "enc_pointer p = enc_bytes (message_id p) @ enc_string (sender_main_dht p) @
     enc_string (mail_send_dht p) @ enc_nat (posted_at p) @ enc_nat (bumped_at p) @
     enc_nat (requested_expires_at p) @ enc_nat (first_observed_at p) @
     enc_nat (last_observed_at p) @ enc_nat (last_verified_at p) @
     enc_nat (failed_verification_count p)"

definition dec_pointer :: "bytes \<Rightarrow> (mail_source_pointer \<times> bytes) option" where
  "dec_pointer bs =
    Option.bind (dec_bytes bs) (\<lambda>(i, bs). Option.bind (dec_string bs) (\<lambda>(s, bs).
    Option.bind (dec_string bs) (\<lambda>(m, bs). Option.bind (dec_nat bs) (\<lambda>(t1, bs).
    Option.bind (dec_nat bs) (\<lambda>(t2, bs). Option.bind (dec_nat bs) (\<lambda>(t3, bs).
    Option.bind (dec_nat bs) (\<lambda>(t4, bs). Option.bind (dec_nat bs) (\<lambda>(t5, bs).
    Option.bind (dec_nat bs) (\<lambda>(t6, bs). Option.bind (dec_nat bs) (\<lambda>(f, bs).
      Some (\<lparr>message_id = i, sender_main_dht = s, mail_send_dht = m, posted_at = t1,
             bumped_at = t2, requested_expires_at = t3, first_observed_at = t4,
             last_observed_at = t5, last_verified_at = t6, failed_verification_count = f\<rparr>,
            bs)))))))))))"

definition enc_storage :: "recipient_source_storage \<Rightarrow> bytes" where
  "enc_storage st =
    (case st of
       Inline ps \<Rightarrow> enc_nat 0 @ enc_list enc_pointer ps
     | Overflow k e n l d b \<Rightarrow> enc_nat 1 @ enc_string k @ enc_bytes e @ enc_nat n @ enc_nat l @
         enc_bytes d @ enc_option enc_nat b)"

definition dec_storage :: "bytes \<Rightarrow> (recipient_source_storage \<times> bytes) option" where
  "dec_storage bs = Option.bind (dec_nat bs) (\<lambda>(tag, bs).
     if tag = 0 then Option.bind (dec_list dec_pointer bs) (\<lambda>(ps, bs). Some (Inline ps, bs))
     else
      Option.bind (dec_string bs) (\<lambda>(k, bs). Option.bind (dec_bytes bs) (\<lambda>(e, bs).
      Option.bind (dec_nat bs) (\<lambda>(n, bs). Option.bind (dec_nat bs) (\<lambda>(l, bs).
      Option.bind (dec_bytes bs) (\<lambda>(d, bs). Option.bind (dec_option dec_nat bs) (\<lambda>(b, bs).
        Some (Overflow k e n l d b, bs))))))))"

definition enc_entry :: "mailbox_recipient_entry \<Rightarrow> bytes" where
  "enc_entry e = enc_string (recipient_main_dht e) @ enc_storage (storage e) @
     enc_nat (newest_posted_at e) @ enc_nat (newest_first_seen_at e) @
     enc_nat (last_recipient_check e) @ enc_nat (last_sender_check e)"

definition dec_entry :: "bytes \<Rightarrow> (mailbox_recipient_entry \<times> bytes) option" where
  "dec_entry bs =
    Option.bind (dec_string bs) (\<lambda>(r, bs). Option.bind (dec_storage bs) (\<lambda>(st, bs).
    Option.bind (dec_nat bs) (\<lambda>(t1, bs). Option.bind (dec_nat bs) (\<lambda>(t2, bs).
    Option.bind (dec_nat bs) (\<lambda>(t3, bs). Option.bind (dec_nat bs) (\<lambda>(t4, bs).
      Some (\<lparr>recipient_main_dht = r, storage = st, newest_posted_at = t1,
             newest_first_seen_at = t2, last_recipient_check = t3, last_sender_check = t4\<rparr>,
            bs)))))))"

definition enc_page_of :: "('e \<Rightarrow> bytes) \<Rightarrow> 'e cow_data_page \<Rightarrow> bytes" where
  "enc_page_of enc p = enc_nat (pg_version p) @ enc_nat (pg_generation p) @
     enc_list enc (pg_entries p) @ enc_bytes (pg_digest p)"

definition dec_page_of :: "(bytes \<Rightarrow> ('e \<times> bytes) option) \<Rightarrow> bytes \<Rightarrow> 'e cow_data_page option" where
  "dec_page_of dec bs =
    Option.bind (dec_nat bs) (\<lambda>(v, bs). Option.bind (dec_nat bs) (\<lambda>(g, bs).
    Option.bind (dec_list dec bs) (\<lambda>(es, bs). Option.bind (dec_bytes bs) (\<lambda>(h, bs).
      Some \<lparr>pg_version = v, pg_generation = g, pg_entries = es, pg_digest = h\<rparr>))))"

definition codec_of ::
  "('e \<Rightarrow> bytes) \<Rightarrow> ('e \<Rightarrow> bytes) \<Rightarrow> (bytes \<Rightarrow> ('e \<times> bytes) option) \<Rightarrow> 'e codec" where
  "codec_of key enc dec = \<lparr>page_key = key, encode_page = enc_page_of enc,
     decode_page = dec_page_of dec, encode_index = enc_index, decode_index = dec_index,
     hash_bytes = (\<lambda>bs. take 1 bs)\<rparr>"

lemma dec_enc_option: "(\<And>x bs. dec (enc x @ bs) = Some (x, bs)) \<Longrightarrow>
    dec_option dec (enc_option enc x @ bs) = Some (x, bs)"
  by (simp add: dec_option_def enc_option_def split: option.split)

lemma dec_enc_pointer [simp]: "dec_pointer (enc_pointer p @ bs) = Some (p, bs)"
  by (simp add: dec_pointer_def enc_pointer_def)

lemma dec_enc_storage [simp]: "dec_storage (enc_storage st @ bs) = Some (st, bs)"
  by (cases st) (simp_all add: dec_storage_def enc_storage_def dec_enc_list dec_enc_option)

lemma dec_enc_entry [simp]: "dec_entry (enc_entry e @ bs) = Some (e, bs)"
  by (simp add: dec_entry_def enc_entry_def)

lemma codec_of_ok:
  assumes "\<And>x bs. dec (enc x @ bs) = Some (x, bs)"
  shows "codec_ok (codec_of key enc dec)"
proof -
  have "dec_page_of dec (enc_page_of enc p) = Some p" for p
    using dec_enc_bytes [of "pg_digest p" "[]"] assms
    by (simp add: dec_page_of_def enc_page_of_def dec_enc_list)
  moreover have "decode_index example_codec (encode_index example_codec ix) = Some ix \<and>
      encode_index example_codec ix \<noteq> []" for ix
    using example_codec_ok by (simp add: codec_ok_def)
  ultimately show ?thesis
    by (simp add: codec_ok_def codec_of_def example_codec_def enc_page_of_def enc_nat_def)
qed

subsection \<open>A custodian and its run\<close>

definition custody_params :: custodian_params where
  "custody_params =
     \<lparr>config = config_default\<lparr>active_messages_per_sender := 2,
        active_messages_per_sender_recipient := 2, active_messages_per_recipient := 3,
        active_messages_per_overflow_record := 3, recipient_inline_pointer_limit := 1\<rparr>,
      entry_codec = codec_of (\<lambda>e. string_bytes (recipient_main_dht e)) enc_entry dec_entry,
      pointer_codec = codec_of message_id enc_pointer dec_pointer,
      key_bytes = string_bytes,
      serialize_pointers = (\<lambda>ps. Inr (enc_list enc_pointer ps))\<rparr>"

definition custody_calls :: custodian_calls where
  "custody_calls =
     \<lparr>now = 1, random_epoch = [7], create_dht = Inr 1, package_key = Inr ''v'',
      package_subkeys = Some 64, overflow_io = no_faults, mailbox_io = no_faults,
      flush_io = (\<lambda>_. no_faults), persist = None, persist_again = None\<rparr>"

definition mail_pointer :: "bytes \<Rightarrow> nat \<Rightarrow> mail_source_pointer" where
  "mail_pointer i expires =
     \<lparr>message_id = i, sender_main_dht = ''a'', mail_send_dht = ''o'', posted_at = 0,
      bumped_at = 0, requested_expires_at = expires, first_observed_at = 1, last_observed_at = 1,
      last_verified_at = 1, failed_verification_count = 0\<rparr>"

definition empty_mailbox :: mailbox_store where
  "empty_mailbox = \<lparr>cs_name = ''mailbox'', package_index = 0, total_subkeys = 64,
     active_index_slot = INDEX_SLOT_A, current_index = None, previous_index = None,
     cs_pages = [empty_page]\<rparr>"

definition after_op :: "custodian_op \<Rightarrow> custodian \<Rightarrow> custodian" where
  "after_op op cu =
    (case run_op custody_params custody_calls op cu of Returned _ cu \<Rightarrow> cu | _ \<Rightarrow> cu)"

definition returns :: "custodian_op \<Rightarrow> custodian \<Rightarrow> bool" where
  "returns op cu =
    (case run_op custody_params custody_calls op cu of Returned _ _ \<Rightarrow> True | _ \<Rightarrow> False)"

lemma after_returns:
  "returns op cu \<Longrightarrow> run_op custody_params custody_calls op cu = Returned () (after_op op cu)"
  by (simp add: returns_def after_op_def split: outcome.splits)

definition custody0 :: custodian where "custody0 = new_custodian 1 empty_mailbox"
definition add1 :: custodian_op where "add1 = Add_Pointer ''b'' (mail_pointer [1] 2)"
definition add2 :: custodian_op where "add2 = Add_Pointer ''b'' (mail_pointer [2] 3)"
definition custody1 :: custodian where "custody1 = after_op add1 custody0"
definition custody2 :: custodian where "custody2 = after_op add2 custody1"

lemma custody_params_ok: "params_ok custody_params"
  by (simp add: params_ok_def custody_params_def codec_of_ok)
    (simp add: codec_of_def limits_ok_def config_default_def u32_max_def)

lemma custody_start: "custodian_reachable custody_params custody0"
proof -
  have "load_owned (entry_codec custody_params) no_faults ''mailbox'' 0 (Some 64) Map.empty =
      Inr empty_mailbox"
    by (simp add: load_owned_def index_candidate_def List.map_filter_simps empty_mailbox_def)
  then show ?thesis unfolding custody0_def
    by (rule custodian_reachable.start) code_simp
qed

lemma possible1: "op_possible custody_params custody_calls add1 custody0"
  by code_simp

lemma returns1: "returns add1 custody0"
  by code_simp

lemma possible2: "op_possible custody_params custody_calls add2 custody1"
  by code_simp

lemma returns2: "returns add2 custody1"
  by code_simp

lemma custody_reachable:
  "custodian_reachable custody_params custody1" "custodian_reachable custody_params custody2"
proof -
  show one: "custodian_reachable custody_params custody1"
    unfolding custody1_def
    by (rule custodian_reachable.step [OF custody_start possible1 after_returns [OF returns1]])
  show "custodian_reachable custody_params custody2"
    unfolding custody2_def
    by (rule custodian_reachable.step [OF one possible2 after_returns [OF returns2]])
qed

text \<open>What the second state holds: the recipient has been promoted.\<close>

lemma custody2_sources:
  "map (\<lambda>e. (recipient_main_dht e, entry_record e, map message_id (entry_sources (overflow_stores custody2) e),
      map sender_main_dht (entry_sources (overflow_stores custody2) e)))
    (entries_of custody2) = [(''b'', Some ''v'', [[1], [2]], [''a'', ''a''])]"
  by code_simp

subsection \<open>Witnesses\<close>

lemma quota_counters_match_rebuild_witness:
  "same_counts (quota_state custody2) (rebuild 9 (mailbox custody2) (overflow_stores custody2))"
  by (rule quota_counters_match_rebuild [OF custody_reachable(2) custody_params_ok])

lemma custodian_limits_hold_witness:
  "count (image_mset fst (held_pairs custody2)) ''a'' \<le>
      active_messages_per_sender (config custody_params) \<and>
    count (held_pairs custody2) (''a'', ''b'') \<le>
      active_messages_per_sender_recipient (config custody_params) \<and>
    count (image_mset snd (held_pairs custody2)) ''b'' \<le>
      active_messages_per_recipient (config custody_params) \<and>
    count (held_records custody2) ''v'' \<le>
      active_messages_per_overflow_record (config custody_params)"
  by (rule custodian_limits_hold [OF custody_reachable(2) custody_params_ok])

lemma accepted_pointer_is_held_witness: "holds_message custody2 ''b'' [2]"
  using accepted_pointer_is_held [OF custody_reachable(1) custody_params_ok possible2 [unfolded add2_def],
      of custody2] after_returns [OF returns2]
  by (simp add: run_op_def add2_def custody2_def mail_pointer_def)

definition withdrawn :: custodian where "withdrawn = after_op (Remove_Pointer [1]) custody2"

lemma returns_withdraw: "returns (Remove_Pointer [1]) custody2"
  by code_simp


lemma withdrawal_removes_exactly_the_message_witness:
  "set (held_for withdrawn ''b'') = {x \<in> set (held_for custody2 ''b''). message_id x \<noteq> [1]}"
  using withdrawal_removes_exactly_the_message [OF custody_reachable(2) custody_params_ok]
    after_returns [OF returns_withdraw] by (simp add: run_op_def withdrawn_def)


lemma custody2_holds:
  "names_agree custody_params ''b'' custody2" "held_for custody2 ''b'' = [mail_pointer [1] 2, mail_pointer [2] 3]"
  by code_simp+

lemma reused_message_id_is_refused_witness:
  "add_pointer_to_custodian_mailbox custody_params custody_calls ''b''
      ((mail_pointer [1] 2)\<lparr>sender_main_dht := ''c''\<rparr>) custody2 =
    Failed (InvalidMessage ''message id was reused with a different sender or MailSend DHT'') custody2"
  by (rule reused_message_id_is_refused [OF custody_reachable(2) custody_params_ok custody2_holds(1),
        of "mail_pointer [1] 2"])
    (simp_all add: custody2_holds(2) mail_pointer_def)

lemma custody2_pairs: "held_pairs custody2 = {#(''a'', ''b''), (''a'', ''b'')#}"
proof -
  obtain e where e: "entries_of custody2 = [e]" "recipient_main_dht e = ''b''"
    "map sender_main_dht (entry_sources (overflow_stores custody2) e) = [''a'', ''a'']"
    using custody2_sources by (cases "entries_of custody2") auto
  have "entry_pairs (overflow_stores custody2) e =
      image_mset (\<lambda>s. (s, ''b'')) (mset (map sender_main_dht (entry_sources (overflow_stores custody2) e)))"
    by (simp add: entry_pairs_def source_pairs_def e(2) image_mset.compositionality comp_def)
  then show ?thesis by (simp add: e)
qed

lemma full_custodian_refuses_witness:
  "\<exists>quota. add_pointer_to_custodian_mailbox custody_params custody_calls ''b''
    (mail_pointer [3] 3) custody2 = Failed (QuotaExceeded quota) custody2"
  by (rule full_custodian_refuses [OF custody_reachable(2) custody_params_ok custody2_holds(1)])
    (simp_all add: custody2_pairs holds_message_def custody2_holds(2) mail_pointer_def custody_params_def)

subsection \<open>Two spellings of a recipient\<close>

text \<open>
  The mailbox finds a recipient by the bytes of its key, the counters by its text. When two texts
  have the same bytes, a pointer added under the second is counted there, but lies in the entry of
  the first, where a rebuild counts it.
\<close>

lemma aliased_recipient_is_miscounted:
  "let key = full_record_key_bytes (\<lambda>e. Some (string_bytes e)) string_bytes;
       cp = custody_params\<lparr>config := config_default, key_bytes := key,
              entry_codec := codec_of (\<lambda>e. key (recipient_main_dht e)) enc_entry dec_entry\<rparr>;
       add = (\<lambda>r i cu. add_pointer_to_custodian_mailbox cp custody_calls r (mail_pointer i 9) cu)
   in case add ''VLD0:k'' [1] custody0 of
        Returned _ cu \<Rightarrow>
          (case add ''VLD0:k:e'' [2] cu of
             Returned _ cu \<Rightarrow> \<not> same_counts (quota_state cu) (rebuild 9 (mailbox cu) (overflow_stores cu))
           | _ \<Rightarrow> False)
      | _ \<Rightarrow> False"
  by code_simp

end
