(* ===== verification/Stream_Types.thy ===== *)
theory Stream_Types
  imports Prelude
begin

text \<open>
  The data of the live stream transport (\<open>src/stream_transport/mod.rs\<close>): packets, segment
  commitments and their signed pages, the messages between peers, the events for applications,
  and the state of a node as the source or as a viewer of a stream. Hashing, signatures and byte
  encodings (\<open>sha2\<close>, \<open>ed25519\<close>, \<open>bincode\<close>, \<open>hex\<close>, \<open>base64\<close>) are third-party code and the fields of
  \<open>stream_crypto\<close>; \<open>stream_net\<close> gives the outcome of sending a message to a peer.
\<close>

definition STREAM_PROTOCOL_VERSION :: nat where "STREAM_PROTOCOL_VERSION = 1"
definition STREAM_DESCRIPTOR_DOMAIN :: string where
  "STREAM_DESCRIPTOR_DOMAIN = ''veilknit.stream.descriptor.v1''"
definition STREAM_RECORD_HEADER_DOMAIN :: string where
  "STREAM_RECORD_HEADER_DOMAIN = ''veilknit.stream.record-header.v1''"
definition STREAM_COMMITMENT_PAGE_DOMAIN :: string where
  "STREAM_COMMITMENT_PAGE_DOMAIN = ''veilknit.stream.commitment-page.v1''"
definition STREAM_SEGMENT_HASH_DOMAIN :: string where
  "STREAM_SEGMENT_HASH_DOMAIN = ''veilknit.stream.segment-hash.v1''"
definition STREAM_PACKET_BYTES :: nat where "STREAM_PACKET_BYTES = 24 * 1024"
definition STREAM_MAX_WRITE_BYTES :: nat where "STREAM_MAX_WRITE_BYTES = 512 * 1024"
definition STREAM_PACKETS_PER_SEGMENT :: nat where "STREAM_PACKETS_PER_SEGMENT = 32"
definition STREAM_COMMITMENT_SUBKEYS :: nat where "STREAM_COMMITMENT_SUBKEYS = 64"
definition STREAM_COMMITMENT_PAGES_PER_RECORD :: nat where
  "STREAM_COMMITMENT_PAGES_PER_RECORD = 63"
definition STREAM_COMMITMENTS_PER_PAGE :: nat where "STREAM_COMMITMENTS_PER_PAGE = 16"
definition STREAM_MAX_METADATA_BYTES :: nat where "STREAM_MAX_METADATA_BYTES = 8 * 1024"
definition STREAM_MAX_CLOSE_REASON_BYTES :: nat where "STREAM_MAX_CLOSE_REASON_BYTES = 256"
definition STREAM_MAX_VIEWERS :: nat where "STREAM_MAX_VIEWERS = 256"
definition STREAM_MAX_RELAY_CHILDREN :: nat where "STREAM_MAX_RELAY_CHILDREN = 4"
definition STREAM_SOURCE_DIRECT_CHILDREN :: nat where "STREAM_SOURCE_DIRECT_CHILDREN = 2"
definition STREAM_RETRANSMIT_SEGMENTS :: nat where "STREAM_RETRANSMIT_SEGMENTS = 8"
definition STREAM_RECEIVED_SEGMENT_WINDOW :: nat where "STREAM_RECEIVED_SEGMENT_WINDOW = 16"
definition STREAM_MAX_SEGMENT_AHEAD :: nat where "STREAM_MAX_SEGMENT_AHEAD = 64"
definition STREAM_MAX_PENDING_COMMITMENTS :: nat where "STREAM_MAX_PENDING_COMMITMENTS = 4096"
definition STREAM_MAX_RETRANSMIT_INDICES :: nat where "STREAM_MAX_RETRANSMIT_INDICES = 64"
definition STREAM_JOIN_TIMEOUT_SECS :: nat where "STREAM_JOIN_TIMEOUT_SECS = 30"
definition STREAM_CLOSED_RETENTION_SECS :: nat where "STREAM_CLOSED_RETENTION_SECS = 120"
definition STREAM_MAX_WIRE_BYTES :: nat where "STREAM_MAX_WIRE_BYTES = 32 * 1024"
definition STREAM_MAX_SERIALIZED_BYTES :: nat where "STREAM_MAX_SERIALIZED_BYTES = 64 * 1024"

datatype stream_error =
    InvalidStreamId
  | StreamNotFound
  | StreamAlreadyClosed
  | NotStreamOwner
  | InvalidDescriptor string
  | InvalidMetadata
  | InvalidCloseReason
  | EmptyWrite
  | WriteTooLarge nat
  | ViewerLimitReached
  | CommitmentBacklogFull
  | JoinRejected string
  | Transport string
  | Storage string
  | Serialization string
  | Integrity string

record stream_descriptor =
  sd_version :: nat
  sd_stream_id :: string
  sd_application_id :: string
  streamer_main_dht :: record_key
  sd_generation :: nat
  commitment_root_record_key :: record_key
  signing_public_key_hex :: string
  signing_key_generation :: nat
  opaque_metadata_base64 :: string
  packet_bytes :: nat
  packets_per_segment :: nat
  sd_created_at :: nat
  sd_signature_hex :: string

text \<open>\<open>unsigned\<close> is the descriptor without its signature, which is what is signed.\<close>

definition unsigned :: "stream_descriptor \<Rightarrow> stream_descriptor" where
  "unsigned ds = ds\<lparr>sd_signature_hex := []\<rparr>"

record stream_segment_commitment =
  cm_segment_number :: nat
  cm_first_sequence :: nat
  cm_packet_count :: nat
  cm_payload_bytes :: nat
  cm_sha256 :: bytes
  previous_commitment_hash :: bytes
  cm_published_at :: nat

record stream_commitment_hint =
  ht_stream_id :: string
  ht_generation :: nat
  ht_segment_number :: nat
  ht_record_key :: record_key
  page_location :: nat

record stream_packet =
  pk_stream_id :: string
  pk_generation :: nat
  pk_sequence :: nat
  pk_segment_number :: nat
  pk_index :: nat
  retransmission :: bool
  pk_payload :: bytes

datatype stream_wire_message =
    M_JoinRequest stream_descriptor record_key nat nat
  | M_JoinAccepted stream_descriptor record_key "record_key option" nat nat
  | M_JoinRejected string nat string
  | M_AssignChild string nat record_key
  | M_ParentAssignment string nat record_key "record_key option"
  | M_Packet stream_packet
  | M_CommitmentHint stream_commitment_hint
  | M_RetransmitRequest string nat nat "nat list"
  | M_Leave string nat record_key
  | M_End string nat string

datatype stream_event =
    Started string stream_descriptor
  | JoinPending string string record_key
  | ViewerJoined string string record_key record_key nat
  | Joined string stream_descriptor record_key "record_key option"
  | TopologyChanged string string "record_key option" nat
  | Data string stream_packet
  | SegmentCommitted string string stream_segment_commitment stream_commitment_hint
  | SegmentVerified string string nat bytes
  | SegmentMissingPackets string string nat "nat list"
  | IntegrityFailure string string nat
  | ViewerLeft string string record_key nat
  | Ended string string string
  | Warning string string string

fun event_application :: "stream_event \<Rightarrow> string" where
  "event_application (Started app _) = app"
| "event_application (JoinPending app _ _) = app"
| "event_application (ViewerJoined app _ _ _ _) = app"
| "event_application (Joined app _ _ _) = app"
| "event_application (TopologyChanged app _ _ _) = app"
| "event_application (Data app _) = app"
| "event_application (SegmentCommitted app _ _ _) = app"
| "event_application (SegmentVerified app _ _ _) = app"
| "event_application (SegmentMissingPackets app _ _ _) = app"
| "event_application (IntegrityFailure app _ _) = app"
| "event_application (ViewerLeft app _ _ _) = app"
| "event_application (Ended app _ _) = app"
| "event_application (Warning app _ _) = app"

text \<open>Messages of the data plane are sent without setting up a session first.\<close>

definition is_data_plane :: "stream_wire_message \<Rightarrow> bool" where
  "is_data_plane m \<longleftrightarrow> (case m of M_Packet _ \<Rightarrow> True | M_CommitmentHint _ \<Rightarrow> True
     | M_Leave _ _ _ \<Rightarrow> True | M_End _ _ _ \<Rightarrow> True | _ \<Rightarrow> False)"

text \<open>Messages that a call sends and events that it emits, in order.\<close>

datatype stream_output =
    Send record_key stream_wire_message
  | Emit stream_event

record commitment_page =
  cp_version :: nat
  cp_stream_id :: string
  cp_generation :: nat
  cp_record_index :: nat
  cp_page_index :: nat
  cp_commitments :: "stream_segment_commitment list"

record signed_commitment_page =
  sp_unsigned :: commitment_page
  sp_signature_hex :: string

record commitment_record_header =
  ch_version :: nat
  ch_stream_id :: string
  ch_generation :: nat
  ch_record_index :: nat
  root_record_key :: record_key
  ch_first_segment :: nat
  next_record_key :: "record_key option"
  ch_descriptor :: "stream_descriptor option"

record signed_record_header =
  sh_unsigned :: commitment_record_header
  sh_signature_hex :: string

record commitment_record_state =
  store_id :: string
  cr_record_key :: record_key
  cr_record_index :: nat
  cr_page_index :: nat
  cr_first_segment :: nat
  page_commitments :: "stream_segment_commitment list"

record pending_segment =
  ps_segment_number :: nat
  ps_first_sequence :: nat
  ps_packet_count :: nat
  ps_payload_bytes :: nat
  ps_sha256 :: bytes

record participant_state =
  parent_main_dht :: record_key
  pt_children :: "record_key list"
  pt_relay_capacity :: nat
  depth :: nat
  joined_at :: nat

record outgoing_stream =
  owner :: string
  os_descriptor :: stream_descriptor
  os_running :: bool
  os_closed_at :: "nat option"
  participants :: "(record_key \<times> participant_state) list"
  direct_children :: "record_key list"
  next_sequence :: nat
  current_segment :: nat
  current_packets :: "stream_packet list"
  os_packet_cache :: "stream_packet list"
  pending_segments :: "pending_segment list"
  commitment_records :: "commitment_record_state list"
  os_previous_commitment_hash :: bytes

record received_segment =
  rs_packets :: "(nat \<times> stream_packet) list"
  rs_hint :: "stream_commitment_hint option"
  verified :: bool
  last_retransmit_at :: nat

record incoming_stream =
  is_application_id :: string
  is_descriptor :: stream_descriptor
  is_running :: bool
  is_closed_at :: "nat option"
  is_relay_capacity :: nat
  is_parent :: "record_key option"
  is_standby :: "record_key option"
  is_children :: "record_key list"
  is_packet_cache :: "stream_packet list"
  received_segments :: "(nat \<times> received_segment) list"
  verified_commitment_hashes :: "(nat \<times> bytes) list"
  latest_sequence :: nat
  latest_segment :: nat
  join_requested_at :: nat

record stream_state =
  outgoing :: "(string \<times> outgoing_stream) list"
  incoming :: "(string \<times> incoming_stream) list"

record stream_write_result =
  accepted_bytes :: nat
  emitted_packets :: nat
  audience_count :: nat
  transmitted :: bool
  wr_next_sequence :: nat
  wr_current_segment :: nat

datatype stream_role = Streamer | Viewer

record stream_summary =
  sm_descriptor :: stream_descriptor
  sm_role :: stream_role
  sm_running :: bool
  viewer_count :: nat
  direct_child_count :: nat
  sm_parent_main_dht :: "record_key option"
  sm_standby_parent_main_dht :: "record_key option"
  sm_next_sequence :: nat
  sm_current_segment :: nat

record app_store_read_value =
  rv_error :: "string option"
  is_null :: bool
  value_base64 :: "string option"

text \<open>Third-party code and the outcomes of the environment.\<close>

record stream_crypto =
  sha256 :: "bytes \<Rightarrow> bytes"
  utf8 :: "string \<Rightarrow> bytes"
  commitment_bytes :: "stream_segment_commitment \<Rightarrow> bytes"
  page_bytes :: "commitment_page \<Rightarrow> bytes"
  header_bytes :: "commitment_record_header \<Rightarrow> bytes"
  descriptor_bytes :: "stream_descriptor \<Rightarrow> bytes"
  wire_bytes :: "stream_wire_message \<Rightarrow> bytes"
  page_value :: "signed_commitment_page \<Rightarrow> bytes"
  decode_page_value :: "bytes \<Rightarrow> signed_commitment_page option"
  header_value :: "signed_record_header \<Rightarrow> bytes"
  parse_uuid :: "string \<Rightarrow> bool"
  parse_record_key :: "string \<Rightarrow> bool"
  encode_base64 :: "bytes \<Rightarrow> string"
  decode_base64 :: "string \<Rightarrow> bytes option"
  hex_decode :: "string \<Rightarrow> bytes option"
  verify_signature :: "bytes \<Rightarrow> string \<Rightarrow> bytes \<Rightarrow> bytes \<Rightarrow> stream_error + bool"

text \<open>
  The application services of one call: the signing identity, creating a store (its id and record key), signing in a
  domain, and writing a value. A public read of a record is a function of its key and locations.
\<close>

record stream_storage =
  identity :: "stream_error + string \<times> nat"
  create_store :: "string \<Rightarrow> stream_error + string \<times> record_key"
  sign :: "string \<Rightarrow> bytes \<Rightarrow> stream_error + string"
  write_own :: "string \<Rightarrow> nat \<Rightarrow> stream_error option"

type_synonym stream_reads = "record_key \<Rightarrow> nat list \<Rightarrow> stream_error + app_store_read_value list"
type_synonym stream_dht = "record_key \<Rightarrow> nat \<Rightarrow> bytes option"

type_synonym stream_net = "record_key \<Rightarrow> stream_wire_message \<Rightarrow> stream_error option"

definition insert_child :: "record_key \<Rightarrow> record_key list \<Rightarrow> record_key list" where
  "insert_child k ks = (if k \<in> set ks then ks else ks @ [k])"

lemma set_insert_child [simp]: "set (insert_child k ks) = insert k (set ks)"
  by (auto simp: insert_child_def)

lemma distinct_insert_child [simp]: "distinct (insert_child k ks) = distinct ks"
  by (simp add: insert_child_def)

definition remove_child :: "record_key \<Rightarrow> record_key list \<Rightarrow> record_key list" where
  "remove_child k ks = filter (\<lambda>x. x \<noteq> k) ks"

lemma set_remove_child [simp]: "set (remove_child k ks) = set ks - {k}"
  by (auto simp: remove_child_def)

lemma distinct_remove_child [simp]: "distinct ks \<Longrightarrow> distinct (remove_child k ks)"
  by (simp add: remove_child_def)

lemma length_remove_child: "length (remove_child k ks) \<le> length ks"
  by (simp add: remove_child_def)

end
