(* ===== verification/Stream_Source.thy ===== *)
theory Stream_Source
  imports Stream_Types
begin

text \<open>
  The source side of a stream: cutting written bytes into packets, sealing segments, admitting
  viewers into the relay tree, reassigning the children of a viewer that leaves, and publishing
  signed segment commitments. Each handler is one step; the messages it sends and the events it
  emits are its outputs.
\<close>

subsection \<open>Descriptors and hashes\<close>

definition validate_stream_id :: "stream_crypto \<Rightarrow> string \<Rightarrow> stream_error option" where
  "validate_stream_id c stream_id = (if parse_uuid c stream_id then None else Some InvalidStreamId)"

definition serialize :: "bytes \<Rightarrow> stream_error + bytes" where
  "serialize bs =
    (if STREAM_MAX_SERIALIZED_BYTES < length bs then Inl (Serialization ''size limit'') else Inr bs)"

definition decode_fixed :: "stream_crypto \<Rightarrow> nat \<Rightarrow> string \<Rightarrow> stream_error + bytes" where
  "decode_fixed c n value =
    (case hex_decode c value of
       None \<Rightarrow> Inl (Integrity ''invalid hex'')
     | Some bs \<Rightarrow> if length bs = n then Inr bs else Inl (Integrity ''wrong length''))"

definition verify_signed_bytes ::
  "stream_crypto \<Rightarrow> string \<Rightarrow> string \<Rightarrow> bytes \<Rightarrow> string \<Rightarrow> stream_error option" where
  "verify_signed_bytes c public_key_hex domain payload signature_hex =
    (case decode_fixed c 32 public_key_hex of
       Inl e \<Rightarrow> Some e
     | Inr key \<Rightarrow>
        (case decode_fixed c 64 signature_hex of
           Inl e \<Rightarrow> Some e
         | Inr sig \<Rightarrow>
            (case verify_signature c key domain payload sig of
               Inl e \<Rightarrow> Some e
             | Inr valid \<Rightarrow>
                if valid then None else Some (Integrity ''signature verification failed''))))"

definition verify_descriptor :: "stream_crypto \<Rightarrow> stream_descriptor \<Rightarrow> stream_error option" where
  "verify_descriptor c ds =
    (if validate_stream_id c (sd_stream_id ds) \<noteq> None then Some InvalidStreamId
     else if sd_version ds \<noteq> STREAM_PROTOCOL_VERSION
     then Some (InvalidDescriptor ''unsupported stream protocol'')
     else if \<not> parse_record_key c (streamer_main_dht ds)
     then Some (InvalidDescriptor ''invalid streamer key'')
     else if \<not> parse_record_key c (commitment_root_record_key ds)
     then Some (InvalidDescriptor ''invalid commitment root'')
     else case decode_base64 c (opaque_metadata_base64 ds) of
       None \<Rightarrow> Some (InvalidDescriptor ''invalid metadata encoding'')
     | Some metadata \<Rightarrow>
        if STREAM_MAX_METADATA_BYTES < length metadata then Some InvalidMetadata
        else if packet_bytes ds \<noteq> STREAM_PACKET_BYTES \<or>
                packets_per_segment ds \<noteq> STREAM_PACKETS_PER_SEGMENT
        then Some (InvalidDescriptor ''unsupported packet or segment sizing'')
        else case serialize (descriptor_bytes c (unsigned ds)) of
          Inl e \<Rightarrow> Some e
        | Inr bs \<Rightarrow> verify_signed_bytes c (signing_public_key_hex ds) STREAM_DESCRIPTOR_DOMAIN bs
            (sd_signature_hex ds))"

fun split_once :: "string \<Rightarrow> string \<Rightarrow> (string \<times> string) option" where
  "split_once pat s =
     (if take (length pat) s = pat then Some ([], drop (length pat) s)
      else case s of [] \<Rightarrow> None
        | ch # s' \<Rightarrow> map_option (\<lambda>(a, b). (ch # a, b)) (split_once pat s'))"

definition application_family :: "string \<Rightarrow> string" where
  "application_family value =
    (case split_once ''::profile::'' value of Some (base, _) \<Rightarrow> base | None \<Rightarrow> value)"

definition same_stream_application_family :: "string \<Rightarrow> string \<Rightarrow> bool" where
  "same_stream_application_family left right \<longleftrightarrow> application_family left = application_family right"

definition packet_hash_bytes :: "stream_packet \<Rightarrow> bytes" where
  "packet_hash_bytes p = le_bytes 8 (pk_sequence p) @ le_bytes 4 (pk_index p) @
     le_bytes 4 (length (pk_payload p)) @ pk_payload p"

definition segment_hash_input :: "stream_crypto \<Rightarrow> stream_packet list \<Rightarrow> bytes" where
  "segment_hash_input c ps = utf8 c STREAM_SEGMENT_HASH_DOMAIN @
     (case ps of
        [] \<Rightarrow> []
      | p # _ \<Rightarrow> le_bytes 4 (length (utf8 c (pk_stream_id p))) @ utf8 c (pk_stream_id p) @
          le_bytes 8 (pk_generation p) @ le_bytes 8 (pk_segment_number p)) @
     concat (map packet_hash_bytes ps)"

definition hash_packet_sequence :: "stream_crypto \<Rightarrow> stream_packet list \<Rightarrow> bytes" where
  "hash_packet_sequence c ps = sha256 c (segment_hash_input c ps)"

subsection \<open>Writing\<close>

definition cache_packet :: "stream_packet list \<Rightarrow> stream_packet \<Rightarrow> nat \<Rightarrow> stream_packet list" where
  "cache_packet cache p current =
     dropWhile (\<lambda>q. pk_segment_number q < current - STREAM_RETRANSMIT_SEGMENTS) (cache @ [p])"

definition seal_current_segment :: "stream_crypto \<Rightarrow> outgoing_stream \<Rightarrow> bool \<times> outgoing_stream" where
  "seal_current_segment c s =
    (case current_packets s of
       [] \<Rightarrow> (False, s)
     | first # _ \<Rightarrow>
        (True, s\<lparr>current_packets := [],
                pending_segments := pending_segments s @
                  [\<lparr>ps_segment_number = current_segment s, ps_first_sequence = pk_sequence first,
                    ps_packet_count = length (current_packets s),
                    ps_payload_bytes = sum_list (map (length \<circ> pk_payload) (current_packets s)),
                    ps_sha256 = hash_packet_sequence c (current_packets s)\<rparr>],
                current_segment := sat_add u64_max (current_segment s) 1\<rparr>))"

function chunks :: "nat \<Rightarrow> 'a list \<Rightarrow> 'a list list" where
  "chunks n xs = (if xs = [] \<or> n = 0 then [] else take n xs # chunks n (drop n xs))"
  by pat_completeness auto
termination by (relation "measure (\<lambda>(n, xs). length xs)") auto

declare chunks.simps [simp del]

definition ensure_stream_owner :: "string \<Rightarrow> outgoing_stream \<Rightarrow> stream_error option" where
  "ensure_stream_owner app s =
    (if sd_application_id (os_descriptor s) = app then None else Some NotStreamOwner)"

definition next_packet :: "string \<Rightarrow> bytes \<Rightarrow> outgoing_stream \<Rightarrow> stream_packet" where
  "next_packet stream_id chunk s =
     \<lparr>pk_stream_id = stream_id, pk_generation = sd_generation (os_descriptor s),
      pk_sequence = next_sequence s, pk_segment_number = current_segment s,
      pk_index = length (current_packets s) mod 2 ^ 32, retransmission = False,
      pk_payload = chunk\<rparr>"

text \<open>One packet of a write: the packet, whether it sealed its segment, and the new state.\<close>

definition write_packet ::
  "stream_crypto \<Rightarrow> string \<Rightarrow> string \<Rightarrow> bytes \<Rightarrow> outgoing_stream \<Rightarrow>
   stream_error + stream_packet \<times> outgoing_stream" where
  "write_packet c app stream_id chunk s =
    (if ensure_stream_owner app s \<noteq> None then Inl NotStreamOwner
     else if \<not> os_running s then Inl StreamAlreadyClosed
     else if STREAM_MAX_PENDING_COMMITMENTS \<le> length (pending_segments s) \<and>
             STREAM_PACKETS_PER_SEGMENT \<le> length (current_packets s) + 1
     then Inl CommitmentBacklogFull
     else
      (let p = next_packet stream_id chunk s;
           s = s\<lparr>next_sequence := sat_add u64_max (next_sequence s) 1,
                 current_packets := current_packets s @ [p],
                 os_packet_cache := cache_packet (os_packet_cache s) p (current_segment s)\<rparr>
       in Inr (p, if STREAM_PACKETS_PER_SEGMENT \<le> length (current_packets s)
                  then snd (seal_current_segment c s) else s)))"

fun write_chunks ::
  "stream_crypto \<Rightarrow> string \<Rightarrow> string \<Rightarrow> bytes list \<Rightarrow> outgoing_stream \<Rightarrow>
   stream_error option \<times> outgoing_stream \<times> stream_output list" where
  "write_chunks c app stream_id [] s = (None, s, [])"
| "write_chunks c app stream_id (chunk # cs) s =
     (case write_packet c app stream_id chunk s of
        Inl e \<Rightarrow> (Some e, s, [])
      | Inr (p, s') \<Rightarrow>
         (let (e, s'', outs) = write_chunks c app stream_id cs s'
          in (e, s'', map (\<lambda>k. Send k (M_Packet p)) (direct_children s) @ outs)))"

definition write_result :: "nat \<Rightarrow> nat \<Rightarrow> outgoing_stream \<Rightarrow> stream_write_result" where
  "write_result accepted emitted s =
     \<lparr>accepted_bytes = accepted, emitted_packets = emitted,
      audience_count = length (participants s), transmitted = 0 < emitted,
      wr_next_sequence = next_sequence s, wr_current_segment = current_segment s\<rparr>"

definition write_stream ::
  "stream_crypto \<Rightarrow> string \<Rightarrow> string \<Rightarrow> bytes \<Rightarrow> stream_state \<Rightarrow>
   (stream_error + stream_write_result) \<times> stream_state \<times> stream_output list" where
  "write_stream c app stream_id data st =
    (case validate_stream_id c stream_id of
       Some e \<Rightarrow> (Inl e, st, [])
     | None \<Rightarrow>
       if data = [] then (Inl EmptyWrite, st, [])
       else if STREAM_MAX_WRITE_BYTES < length data then (Inl (WriteTooLarge (length data)), st, [])
       else case map_of (outgoing st) stream_id of
         None \<Rightarrow> (Inl StreamNotFound, st, [])
       | Some s \<Rightarrow>
          if ensure_stream_owner app s \<noteq> None then (Inl NotStreamOwner, st, [])
          else if \<not> os_running s then (Inl StreamAlreadyClosed, st, [])
          else if participants s = [] then (Inr (write_result (length data) 0 s), st, [])
          else
           (let cs = chunks STREAM_PACKET_BYTES data;
                (e, s', outs) = write_chunks c app stream_id cs s;
                st' = st\<lparr>outgoing := AList.update stream_id s' (outgoing st)\<rparr>
            in case e of
                 Some e \<Rightarrow> (Inl e, st', outs)
               | None \<Rightarrow> (Inr (write_result (length data) (length cs) s'), st', outs)))"

subsection \<open>The relay tree\<close>

definition choose_parent_excluding ::
  "outgoing_stream \<Rightarrow> record_key \<Rightarrow> record_key \<Rightarrow> record_key \<times> nat" where
  "choose_parent_excluding s source excluded =
    (let candidates = sort (map (\<lambda>(peer, p). (depth p, length (pt_children p), joined_at p, peer))
           (filter (\<lambda>(peer, p). peer \<noteq> excluded \<and>
              length (pt_children p) mod 2 ^ 16 < pt_relay_capacity p) (participants s)))
     in case candidates of
          (d, _, _, peer) # _ \<Rightarrow> (peer, sat_add u16_max d 1)
        | [] \<Rightarrow> if length (direct_children s) < STREAM_SOURCE_DIRECT_CHILDREN
               then (source, 1) else (source, 1))"

definition choose_parent :: "outgoing_stream \<Rightarrow> record_key \<Rightarrow> record_key \<times> nat" where
  "choose_parent s source = choose_parent_excluding s source []"

definition choose_standby :: "outgoing_stream \<Rightarrow> record_key \<Rightarrow> record_key option" where
  "choose_standby s parent =
    (if parent \<noteq> streamer_main_dht (os_descriptor s)
     then Some (streamer_main_dht (os_descriptor s)) else None)"

definition drop_child_everywhere :: "record_key \<Rightarrow> outgoing_stream \<Rightarrow> outgoing_stream" where
  "drop_child_everywhere k s = s\<lparr>participants := map (\<lambda>(peer, p).
     (peer, p\<lparr>pt_children := remove_child k (pt_children p)\<rparr>)) (participants s)\<rparr>"

definition attach_viewer ::
  "record_key \<Rightarrow> nat \<Rightarrow> record_key \<Rightarrow> nat \<Rightarrow> outgoing_stream \<Rightarrow> record_key \<times> outgoing_stream" where
  "attach_viewer me now viewer capacity s =
    (let (parent, d) = choose_parent s me;
         s = (if parent = me then s\<lparr>direct_children := insert_child viewer (direct_children s)\<rparr>
              else s\<lparr>participants := amodify parent
                (\<lambda>p. p\<lparr>pt_children := insert_child viewer (pt_children p)\<rparr>) (participants s)\<rparr>);
         s = s\<lparr>participants := AList.update viewer
                \<lparr>parent_main_dht = parent, pt_children = [],
                 pt_relay_capacity = min capacity STREAM_MAX_RELAY_CHILDREN, depth = d,
                 joined_at = now\<rparr> (participants s)\<rparr>
     in (parent, s))"

text \<open>The viewer is taken out again when a message of its admission could not be sent.\<close>

definition undo_assignment :: "record_key \<Rightarrow> outgoing_stream \<Rightarrow> outgoing_stream" where
  "undo_assignment viewer s =
     drop_child_everywhere viewer (s\<lparr>participants := AList.delete viewer (participants s)\<rparr>)"

definition undo_acceptance :: "record_key \<Rightarrow> outgoing_stream \<Rightarrow> outgoing_stream" where
  "undo_acceptance viewer s =
     drop_child_everywhere viewer (s\<lparr>participants := AList.delete viewer (participants s),
       direct_children := remove_child viewer (direct_children s)\<rparr>)"

definition send_wire ::
  "stream_crypto \<Rightarrow> stream_net \<Rightarrow> record_key \<Rightarrow> stream_wire_message \<Rightarrow> stream_error option" where
  "send_wire c net peer m =
    (case serialize (wire_bytes c m) of
       Inl e \<Rightarrow> Some e
     | Inr bs \<Rightarrow>
        if STREAM_MAX_WIRE_BYTES < length bs then Some (Serialization ''route limit'')
        else net peer m)"

definition set_outgoing :: "string \<Rightarrow> outgoing_stream \<Rightarrow> stream_state \<Rightarrow> stream_state" where
  "set_outgoing k s st = st\<lparr>outgoing := AList.update k s (outgoing st)\<rparr>"

text \<open>
  Admission of an authenticated sender. The two sends are attempted in order; a viewer that was
  not admitted before is removed again when one fails.
\<close>

definition notify_admission ::
  "stream_crypto \<Rightarrow> stream_net \<Rightarrow> record_key \<Rightarrow> stream_descriptor \<Rightarrow> record_key \<Rightarrow> record_key \<Rightarrow> bool \<Rightarrow>
   outgoing_stream \<Rightarrow> stream_state \<Rightarrow> stream_error option \<times> stream_state \<times> stream_output list"
  where
  "notify_admission c net me ds viewer parent existing s st =
    (let k = sd_stream_id ds;
         assign = M_AssignChild k (sd_generation ds) viewer;
         accept = M_JoinAccepted (os_descriptor s) parent (choose_standby s parent)
           (next_sequence s) (current_segment s);
         joined = ViewerJoined (sd_application_id (os_descriptor s))
           (sd_stream_id (os_descriptor s)) viewer parent (length (participants s));
         first = (if parent = me then None else send_wire c net parent assign);
         outs = (if parent = me then [] else [Send parent assign])
     in case first of
          Some e \<Rightarrow>
            (Some e, if existing then st else set_outgoing k (undo_assignment viewer s) st, outs)
        | None \<Rightarrow>
           (case send_wire c net viewer accept of
              Some e \<Rightarrow> (Some e,
                if existing then st else set_outgoing k (undo_acceptance viewer s) st,
                outs @ [Send viewer accept])
            | None \<Rightarrow> (None, st, outs @ [Send viewer accept, Emit joined])))"

definition handle_join_request ::
  "stream_crypto \<Rightarrow> stream_net \<Rightarrow> record_key \<Rightarrow> nat \<Rightarrow> record_key \<Rightarrow> stream_descriptor \<Rightarrow> record_key \<Rightarrow>
   nat \<Rightarrow> nat \<Rightarrow> stream_state \<Rightarrow> stream_error option \<times> stream_state \<times> stream_output list" where
  "handle_join_request c net me now sender ds viewer capacity requested_at st =
    (if sender \<noteq> viewer
     then (Some (InvalidDescriptor ''join sender does not match the viewer identity''), st, [])
     else if sat_add u64_max requested_at STREAM_JOIN_TIMEOUT_SECS < now \<or>
             sat_add u64_max now (5 * 60) < requested_at
     then (Some (JoinRejected ''join request expired''), st, [])
     else case verify_descriptor c ds of
       Some e \<Rightarrow> (Some e, st, [])
     | None \<Rightarrow>
       if streamer_main_dht ds \<noteq> me
       then (Some (InvalidDescriptor ''join request targets a different streamer''), st, [])
       else case map_of (outgoing st) (sd_stream_id ds) of
         None \<Rightarrow> (Some StreamNotFound, st, [])
       | Some s \<Rightarrow>
         if sd_generation (os_descriptor s) \<noteq> sd_generation ds \<or> \<not> os_running s
         then (Some StreamAlreadyClosed, st, [])
         else if STREAM_MAX_VIEWERS \<le> length (participants s)
         then (Some ViewerLimitReached, st, [])
         else case map_of (participants s) viewer of
           Some p \<Rightarrow> notify_admission c net me ds viewer (parent_main_dht p) True s st
         | None \<Rightarrow>
            (let (parent, s') = attach_viewer me now viewer capacity s
             in notify_admission c net me ds viewer parent False s'
                  (set_outgoing (sd_stream_id ds) s' st)))"

fun reassign_children ::
  "record_key \<Rightarrow> record_key list \<Rightarrow> outgoing_stream \<Rightarrow>
   (record_key \<times> record_key \<times> record_key option) list \<times> outgoing_stream" where
  "reassign_children me [] s = ([], s)"
| "reassign_children me (child # cs) s =
     (if map_of (participants s) child = None then reassign_children me cs s
      else
       (let s' = s\<lparr>direct_children := insert_child child (direct_children s),
                   participants := amodify child
                     (\<lambda>p. p\<lparr>parent_main_dht := me, depth := 1\<rparr>) (participants s)\<rparr>;
            (as, s'') = reassign_children me cs s'
        in ((child, me, choose_standby s me) # as, s'')))"

definition remove_participant_and_reassign ::
  "record_key \<Rightarrow> record_key \<Rightarrow> outgoing_stream \<Rightarrow>
   (record_key \<times> record_key \<times> record_key option) list \<times> outgoing_stream" where
  "remove_participant_and_reassign me viewer s =
    (let removed = map_of (participants s) viewer;
         s = drop_child_everywhere viewer (s\<lparr>participants := AList.delete viewer (participants s),
           direct_children := remove_child viewer (direct_children s)\<rparr>)
     in reassign_children me (case removed of None \<Rightarrow> [] | Some p \<Rightarrow> pt_children p) s)"

definition reassignment_outputs ::
  "record_key \<Rightarrow> string \<Rightarrow> nat \<Rightarrow> record_key \<times> record_key \<times> record_key option \<Rightarrow> stream_output list"
  where
  "reassignment_outputs me stream_id gen = (\<lambda>(child, parent, standby).
     (if parent \<noteq> me then [Send parent (M_AssignChild stream_id gen child)] else []) @
     [Send child (M_ParentAssignment stream_id gen parent standby)])"

end
