(* ===== verification/Stream_Publish.thy ===== *)
theory Stream_Publish
  imports Stream_Source
begin

text \<open>
  Publication of segment commitments by the source: a signed page of up to 16 commitments per
  subkey, 63 pages per record, and a new record linked from the header of the one before when it
  is full. A failed write leaves the segment queued. The network storage is a map from record
  keys and locations to values; a write to an own store goes to the record of that store.
\<close>

definition dht_put :: "record_key \<Rightarrow> nat \<Rightarrow> bytes \<Rightarrow> stream_dht \<Rightarrow> stream_dht" where
  "dht_put k loc bs d = d(k := (d k)(loc \<mapsto> bs))"

definition write_store_value ::
  "stream_storage \<Rightarrow> string \<Rightarrow> record_key \<Rightarrow> nat \<Rightarrow> bytes \<Rightarrow> stream_dht \<Rightarrow> stream_error option \<times> stream_dht"
  where
  "write_store_value io store key loc value d =
    (case serialize value of
       Inl e \<Rightarrow> (Some e, d)
     | Inr bs \<Rightarrow>
        (case write_own io store loc of
           Some e \<Rightarrow> (Some e, d)
         | None \<Rightarrow> (None, dht_put key loc bs d)))"

definition sign_value ::
  "stream_storage \<Rightarrow> string \<Rightarrow> bytes \<Rightarrow> stream_error + string" where
  "sign_value io domain bs =
    (case serialize bs of Inl e \<Rightarrow> Inl e | Inr bs \<Rightarrow> sign io domain bs)"

definition signed_record_header ::
  "stream_crypto \<Rightarrow> stream_storage \<Rightarrow> commitment_record_header \<Rightarrow> stream_error + signed_record_header"
  where
  "signed_record_header c io h =
    (case sign_value io STREAM_RECORD_HEADER_DOMAIN (header_bytes c h) of
       Inl e \<Rightarrow> Inl e | Inr sig \<Rightarrow> Inr \<lparr>sh_unsigned = h, sh_signature_hex = sig\<rparr>)"

definition record_header ::
  "stream_descriptor \<Rightarrow> nat \<Rightarrow> nat \<Rightarrow> record_key option \<Rightarrow> stream_descriptor option \<Rightarrow>
   commitment_record_header" where
  "record_header ds index first next_key embedded =
     \<lparr>ch_version = STREAM_PROTOCOL_VERSION, ch_stream_id = sd_stream_id ds,
      ch_generation = sd_generation ds, ch_record_index = index,
      root_record_key = commitment_root_record_key ds, ch_first_segment = first,
      next_record_key = next_key, ch_descriptor = embedded\<rparr>"

definition last_record :: "outgoing_stream \<Rightarrow> commitment_record_state option" where
  "last_record s =
    (if commitment_records s = [] then None else Some (last (commitment_records s)))"

definition create_next_commitment_record ::
  "stream_crypto \<Rightarrow> stream_storage \<Rightarrow> stream_descriptor \<Rightarrow> nat \<Rightarrow> outgoing_stream \<times> stream_dht \<Rightarrow>
   stream_error option \<times> outgoing_stream \<times> stream_dht" where
  "create_next_commitment_record c io ds first = (\<lambda>(s, d).
    case last_record s of
      None \<Rightarrow> (Some StreamNotFound, s, d)
    | Some prev \<Rightarrow>
       (let index = sat_add u32_max (cr_record_index prev) 1;
            name = ''stream:'' @ sd_stream_id ds @ '':commitments:'' @ show_nat index
        in case create_store io name of
             Inl e \<Rightarrow> (Some e, s, d)
           | Inr (sid, key) \<Rightarrow>
              (case signed_record_header c io (record_header ds index first None None) of
                 Inl e \<Rightarrow> (Some e, s, d)
               | Inr header \<Rightarrow>
                  (case write_store_value io sid key 0 (header_value c header) d of
                     (Some e, d) \<Rightarrow> (Some e, s, d)
                   | (None, d) \<Rightarrow>
                      (case signed_record_header c io
                              (record_header ds (cr_record_index prev) (cr_first_segment prev)
                                (Some key) (if cr_record_index prev = 0 then Some ds else None)) of
                         Inl e \<Rightarrow> (Some e, s, d)
                       | Inr linked \<Rightarrow>
                          (case write_store_value io (store_id prev) (cr_record_key prev) 0
                                  (header_value c linked) d of
                             (Some e, d) \<Rightarrow> (Some e, s, d)
                           | (None, d) \<Rightarrow>
                              (None, s\<lparr>commitment_records := commitment_records s @
                                 [\<lparr>store_id = sid, cr_record_key = key, cr_record_index = index,
                                   cr_page_index = 0, cr_first_segment = first,
                                   page_commitments = []\<rparr>]\<rparr>, d)))))))"

definition need_new_record :: "commitment_record_state \<Rightarrow> bool" where
  "need_new_record r \<longleftrightarrow> STREAM_COMMITMENT_PAGES_PER_RECORD \<le> cr_page_index r \<and> page_commitments r = []"

definition page_for ::
  "stream_descriptor \<Rightarrow> commitment_record_state \<Rightarrow> stream_segment_commitment \<Rightarrow> commitment_page" where
  "page_for ds r cm =
     \<lparr>cp_version = STREAM_PROTOCOL_VERSION, cp_stream_id = sd_stream_id ds,
      cp_generation = sd_generation ds, cp_record_index = cr_record_index r,
      cp_page_index = cr_page_index r, cp_commitments = page_commitments r @ [cm]\<rparr>"

definition advance_page :: "stream_segment_commitment \<Rightarrow> commitment_record_state \<Rightarrow> commitment_record_state"
  where
  "advance_page cm r =
    (let cms = page_commitments r @ [cm]
     in if STREAM_COMMITMENTS_PER_PAGE \<le> length cms
        then r\<lparr>page_commitments := [], cr_page_index := sat_add u32_max (cr_page_index r) 1\<rparr>
        else r\<lparr>page_commitments := cms\<rparr>)"

definition append_to_page ::
  "stream_crypto \<Rightarrow> stream_storage \<Rightarrow> stream_descriptor \<Rightarrow> stream_segment_commitment \<Rightarrow>
   outgoing_stream \<times> stream_dht \<Rightarrow>
   (stream_error + stream_commitment_hint) \<times> outgoing_stream \<times> stream_dht" where
  "append_to_page c io ds cm = (\<lambda>(s, d).
    case last_record s of
      None \<Rightarrow> (Inl StreamNotFound, s, d)
    | Some r \<Rightarrow>
       (let page = page_for ds r cm; loc = sat_add u32_max (cr_page_index r) 1
        in case sign_value io STREAM_COMMITMENT_PAGE_DOMAIN (page_bytes c page) of
             Inl e \<Rightarrow> (Inl e, s, d)
           | Inr sig \<Rightarrow>
              (case write_store_value io (store_id r) (cr_record_key r) loc
                      (page_value c \<lparr>sp_unsigned = page, sp_signature_hex = sig\<rparr>) d of
                 (Some e, d) \<Rightarrow> (Inl e, s, d)
               | (None, d) \<Rightarrow>
                  (Inr \<lparr>ht_stream_id = sd_stream_id ds, ht_generation = sd_generation ds,
                        ht_segment_number = cm_segment_number cm,
                        ht_record_key = cr_record_key r, page_location = loc\<rparr>,
                   s\<lparr>commitment_records := butlast (commitment_records s) @ [advance_page cm r]\<rparr>,
                   d))))"

definition append_commitment_page ::
  "stream_crypto \<Rightarrow> stream_storage \<Rightarrow> stream_descriptor \<Rightarrow> stream_segment_commitment \<Rightarrow>
   outgoing_stream \<times> stream_dht \<Rightarrow>
   (stream_error + stream_commitment_hint) \<times> outgoing_stream \<times> stream_dht" where
  "append_commitment_page c io ds cm = (\<lambda>(s, d).
    case last_record s of
      None \<Rightarrow> (Inl StreamNotFound, s, d)
    | Some r \<Rightarrow>
       if need_new_record r
       then (case create_next_commitment_record c io ds (cm_segment_number cm) (s, d) of
               (Some e, s, d) \<Rightarrow> (Inl e, s, d)
             | (None, s, d) \<Rightarrow> append_to_page c io ds cm (s, d))
       else append_to_page c io ds cm (s, d))"

definition commitment_of :: "bytes \<Rightarrow> nat \<Rightarrow> pending_segment \<Rightarrow> stream_segment_commitment" where
  "commitment_of previous now p =
     \<lparr>cm_segment_number = ps_segment_number p, cm_first_sequence = ps_first_sequence p,
      cm_packet_count = ps_packet_count p, cm_payload_bytes = ps_payload_bytes p,
      cm_sha256 = ps_sha256 p, previous_commitment_hash = previous, cm_published_at = now\<rparr>"

definition hash_commitment ::
  "stream_crypto \<Rightarrow> stream_segment_commitment \<Rightarrow> stream_error + bytes" where
  "hash_commitment c cm =
    (case serialize (commitment_bytes c cm) of Inl e \<Rightarrow> Inl e | Inr bs \<Rightarrow> Inr (sha256 c bs))"

text \<open>The front of the queue is published; only then is it taken off.\<close>

definition commit_front ::
  "stream_crypto \<Rightarrow> stream_storage \<Rightarrow> nat \<Rightarrow> pending_segment \<Rightarrow> outgoing_stream \<times> stream_dht \<Rightarrow>
   (stream_error + stream_segment_commitment \<times> stream_commitment_hint) \<times>
   outgoing_stream \<times> stream_dht" where
  "commit_front c io now p = (\<lambda>(s, d).
    (let cm = commitment_of (os_previous_commitment_hash s) now p
     in case hash_commitment c cm of
          Inl e \<Rightarrow> (Inl e, s, d)
        | Inr h \<Rightarrow>
           (case append_commitment_page c io (os_descriptor s) cm (s, d) of
              (Inl e, s, d) \<Rightarrow> (Inl e, s, d)
            | (Inr hint, s, d) \<Rightarrow>
               (Inr (cm, hint),
                s\<lparr>pending_segments := tl (pending_segments s),
                  os_previous_commitment_hash := h\<rparr>, d))))"

definition commit_outputs ::
  "outgoing_stream \<Rightarrow> stream_segment_commitment \<Rightarrow> stream_commitment_hint \<Rightarrow> stream_output list" where
  "commit_outputs s cm hint = map (\<lambda>k. Send k (M_CommitmentHint hint)) (direct_children s) @
     [Emit (SegmentCommitted (sd_application_id (os_descriptor s))
       (sd_stream_id (os_descriptor s)) cm hint)]"

text \<open>\<open>io n\<close> is the outcome of the application services while segment \<open>n\<close> is published.\<close>

fun commit_queue ::
  "stream_crypto \<Rightarrow> (nat \<Rightarrow> stream_storage) \<Rightarrow> nat \<Rightarrow> pending_segment list \<Rightarrow>
   stream_segment_commitment option \<Rightarrow> outgoing_stream \<times> stream_dht \<Rightarrow>
   (stream_error + stream_segment_commitment option) \<times>
   (outgoing_stream \<times> stream_dht) \<times> stream_output list" where
  "commit_queue c io now [] done sd = (Inr done, sd, [])"
| "commit_queue c io now (p # ps) done sd =
     (case commit_front c (io (ps_segment_number p)) now p sd of
        (Inl e, sd') \<Rightarrow> (Inl e, sd', [])
      | (Inr (cm, hint), sd') \<Rightarrow>
         (let (r, sd'', outs) = commit_queue c io now ps (Some cm) sd'
          in (r, sd'', commit_outputs (fst sd) cm hint @ outs)))"

definition commit_pending_segments ::
  "stream_crypto \<Rightarrow> (nat \<Rightarrow> stream_storage) \<Rightarrow> nat \<Rightarrow> string \<Rightarrow> stream_state \<times> stream_dht \<Rightarrow>
   (stream_error + stream_segment_commitment option) \<times> (stream_state \<times> stream_dht) \<times>
   stream_output list" where
  "commit_pending_segments c io now stream_id = (\<lambda>(st, d).
    case map_of (outgoing st) stream_id of
      None \<Rightarrow> (Inl StreamNotFound, (st, d), [])
    | Some s \<Rightarrow>
       (case commit_queue c io now (pending_segments s) None (s, d) of
          (r, (s', d'), outs) \<Rightarrow> (r, (set_outgoing stream_id s' st, d'), outs)))"

subsection \<open>Starting, flushing and closing\<close>

definition start_stream ::
  "stream_crypto \<Rightarrow> stream_storage \<Rightarrow> record_key \<Rightarrow> string \<Rightarrow> string \<Rightarrow> nat \<Rightarrow> bytes \<Rightarrow>
   stream_state \<times> stream_dht \<Rightarrow>
   (stream_error + stream_descriptor) \<times> (stream_state \<times> stream_dht) \<times> stream_output list" where
  "start_stream c io me app stream_id now metadata = (\<lambda>(st, d).
    if STREAM_MAX_METADATA_BYTES < length metadata then (Inl InvalidMetadata, (st, d), [])
    else case create_store io (''stream:'' @ stream_id @ '':commitments:0'') of
      Inl e \<Rightarrow> (Inl e, (st, d), [])
    | Inr (sid, key) \<Rightarrow>
     (case identity io of
        Inl e \<Rightarrow> (Inl e, (st, d), [])
      | Inr (public_key, key_gen) \<Rightarrow>
       (let ds = \<lparr>sd_version = STREAM_PROTOCOL_VERSION, sd_stream_id = stream_id,
                  sd_application_id = app, streamer_main_dht = me, sd_generation = 1,
                  commitment_root_record_key = key, signing_public_key_hex = public_key,
                  signing_key_generation = key_gen, opaque_metadata_base64 = encode_base64 c metadata,
                  packet_bytes = STREAM_PACKET_BYTES,
                  packets_per_segment = STREAM_PACKETS_PER_SEGMENT, sd_created_at = now,
                  sd_signature_hex = []\<rparr>
        in case sign_value io STREAM_DESCRIPTOR_DOMAIN (descriptor_bytes c ds) of
             Inl e \<Rightarrow> (Inl e, (st, d), [])
           | Inr sig \<Rightarrow>
              (let ds = ds\<lparr>sd_signature_hex := sig\<rparr>
               in case verify_descriptor c ds of
                    Some e \<Rightarrow> (Inl e, (st, d), [])
                  | None \<Rightarrow>
                     (case signed_record_header c io (record_header ds 0 0 None (Some ds)) of
                        Inl e \<Rightarrow> (Inl e, (st, d), [])
                      | Inr header \<Rightarrow>
                         (case write_store_value io sid key 0 (header_value c header) d of
                            (Some e, d) \<Rightarrow> (Inl e, (st, d), [])
                          | (None, d) \<Rightarrow>
                             (Inr ds,
                              (set_outgoing stream_id
                                \<lparr>owner = app, os_descriptor = ds, os_running = True,
                                 os_closed_at = None, participants = [], direct_children = [],
                                 next_sequence = 0, current_segment = 0, current_packets = [],
                                 os_packet_cache = [], pending_segments = [],
                                 commitment_records =
                                   [\<lparr>store_id = sid, cr_record_key = key, cr_record_index = 0,
                                     cr_page_index = 0, cr_first_segment = 0,
                                     page_commitments = []\<rparr>],
                                 os_previous_commitment_hash = replicate 32 0\<rparr> st, d),
                              [Emit (Started app ds)])))))))"

definition backlog_full :: "outgoing_stream \<Rightarrow> bool" where
  "backlog_full s \<longleftrightarrow> current_packets s \<noteq> [] \<and>
     STREAM_MAX_PENDING_COMMITMENTS \<le> length (pending_segments s)"

definition flush_stream ::
  "stream_crypto \<Rightarrow> (nat \<Rightarrow> stream_storage) \<Rightarrow> nat \<Rightarrow> string \<Rightarrow> string \<Rightarrow> stream_state \<times> stream_dht \<Rightarrow>
   (stream_error + stream_segment_commitment option) \<times> (stream_state \<times> stream_dht) \<times>
   stream_output list" where
  "flush_stream c io now app stream_id = (\<lambda>(st, d).
    case validate_stream_id c stream_id of
      Some e \<Rightarrow> (Inl e, (st, d), [])
    | None \<Rightarrow>
       (case map_of (outgoing st) stream_id of
          None \<Rightarrow> (Inl StreamNotFound, (st, d), [])
        | Some s \<Rightarrow>
           if ensure_stream_owner app s \<noteq> None then (Inl NotStreamOwner, (st, d), [])
           else if backlog_full s then (Inl CommitmentBacklogFull, (st, d), [])
           else commit_pending_segments c io now stream_id
                  (set_outgoing stream_id (snd (seal_current_segment c s)) st, d)))"

definition close_stream ::
  "stream_crypto \<Rightarrow> nat \<Rightarrow> string \<Rightarrow> string \<Rightarrow> string \<Rightarrow> stream_state \<Rightarrow>
   stream_error option \<times> stream_state \<times> stream_output list" where
  "close_stream c now app stream_id reason st =
    (case validate_stream_id c stream_id of
       Some e \<Rightarrow> (Some e, st, [])
     | None \<Rightarrow>
       if STREAM_MAX_CLOSE_REASON_BYTES < length (utf8 c reason) then (Some InvalidCloseReason, st, [])
       else case map_of (outgoing st) stream_id of
         None \<Rightarrow> (Some StreamNotFound, st, [])
       | Some s \<Rightarrow>
          if ensure_stream_owner app s \<noteq> None then (Some NotStreamOwner, st, [])
          else if \<not> os_running s then (Some StreamAlreadyClosed, st, [])
          else if backlog_full s then (Some CommitmentBacklogFull, st, [])
          else
            (None,
             set_outgoing stream_id
               (snd (seal_current_segment c (s\<lparr>os_running := False, os_closed_at := Some now\<rparr>))) st,
             map (\<lambda>k. Send k (M_End stream_id (sd_generation (os_descriptor s)) reason))
               (direct_children s) @
             [Emit (Ended (sd_application_id (os_descriptor s)) stream_id reason)]))"

end
