(* ===== verification/Stream_Viewer.thy ===== *)
theory Stream_Viewer
  imports Stream_Publish
begin

text \<open>
  The viewer side of a stream: joining, the assignments of the source, packets and commitment
  hints from upstream, retransmission, and the verification of a received segment against the
  source's signed commitment.
\<close>

definition set_incoming :: "string \<Rightarrow> incoming_stream \<Rightarrow> stream_state \<Rightarrow> stream_state" where
  "set_incoming k s st = st\<lparr>incoming := AList.update k s (incoming st)\<rparr>"

definition remove_incoming :: "string \<Rightarrow> stream_state \<Rightarrow> stream_state" where
  "remove_incoming k st = st\<lparr>incoming := AList.delete k (incoming st)\<rparr>"

subsection \<open>Joining and leaving\<close>

definition new_incoming :: "string \<Rightarrow> stream_descriptor \<Rightarrow> nat \<Rightarrow> nat \<Rightarrow> incoming_stream" where
  "new_incoming app ds capacity now =
     \<lparr>is_application_id = app, is_descriptor = ds, is_running = True, is_closed_at = None,
      is_relay_capacity = min capacity STREAM_MAX_RELAY_CHILDREN, is_parent = None,
      is_standby = None, is_children = [], is_packet_cache = [], received_segments = [],
      verified_commitment_hashes = [], latest_sequence = 0, latest_segment = 0,
      join_requested_at = now\<rparr>"

text \<open>The join request is sent by a task of its own; when that fails the stream is dropped.\<close>

definition join_stream ::
  "stream_crypto \<Rightarrow> record_key \<Rightarrow> nat \<Rightarrow> string \<Rightarrow> stream_descriptor \<Rightarrow> nat \<Rightarrow> stream_state \<Rightarrow>
   stream_error option \<times> stream_state \<times> stream_output list" where
  "join_stream c me now app ds capacity st =
    (case verify_descriptor c ds of
       Some e \<Rightarrow> (Some e, st, [])
     | None \<Rightarrow>
       if \<not> same_stream_application_family (sd_application_id ds) app
       then (Some (InvalidDescriptor
         ''stream application family does not match the authenticated app''), st, [])
       else if streamer_main_dht ds = me
       then (Some (InvalidDescriptor ''cannot join our own outgoing stream as a viewer''), st, [])
       else
        (None, set_incoming (sd_stream_id ds) (new_incoming app ds capacity now) st,
         [Emit (JoinPending app (sd_stream_id ds) (streamer_main_dht ds)),
          Send (streamer_main_dht ds)
            (M_JoinRequest ds me (min capacity STREAM_MAX_RELAY_CHILDREN) now)]))"

definition join_send_failed ::
  "string \<Rightarrow> string \<Rightarrow> stream_state \<Rightarrow> stream_state \<times> stream_output list" where
  "join_send_failed stream_id reason st =
    (case map_of (incoming st) stream_id of
       None \<Rightarrow> (st, [])
     | Some s \<Rightarrow>
        (remove_incoming stream_id st, [Emit (Ended (is_application_id s) stream_id reason)]))"

definition leave_stream ::
  "stream_crypto \<Rightarrow> record_key \<Rightarrow> string \<Rightarrow> string \<Rightarrow> stream_state \<Rightarrow>
   stream_error option \<times> stream_state \<times> stream_output list" where
  "leave_stream c me app stream_id st =
    (case validate_stream_id c stream_id of
       Some e \<Rightarrow> (Some e, st, [])
     | None \<Rightarrow>
       (case map_of (incoming st) stream_id of
          None \<Rightarrow> (Some StreamNotFound, st, [])
        | Some s \<Rightarrow>
           if is_application_id s \<noteq> app then (Some NotStreamOwner, st, [])
           else
            (let source = streamer_main_dht (is_descriptor s);
                 recipients = source # (case is_parent s of
                   None \<Rightarrow> [] | Some p \<Rightarrow> if p = source then [] else [p])
             in (None, remove_incoming stream_id st,
                 map (\<lambda>k. Send k (M_Leave stream_id (sd_generation (is_descriptor s)) me))
                   recipients))))"

definition handle_join_accepted ::
  "stream_crypto \<Rightarrow> record_key \<Rightarrow> stream_descriptor \<Rightarrow> record_key \<Rightarrow> record_key option \<Rightarrow> nat \<Rightarrow> nat \<Rightarrow>
   stream_state \<Rightarrow> stream_error option \<times> stream_state \<times> stream_output list" where
  "handle_join_accepted c sender ds parent standby sequence segment st =
    (case verify_descriptor c ds of
       Some e \<Rightarrow> (Some e, st, [])
     | None \<Rightarrow>
       if sender \<noteq> streamer_main_dht ds
       then (Some (InvalidDescriptor
         ''join acceptance did not come from the original streamer''), st, [])
       else case map_of (incoming st) (sd_stream_id ds) of
         None \<Rightarrow> (Some StreamNotFound, st, [])
       | Some s \<Rightarrow>
          if sd_generation (is_descriptor s) \<noteq> sd_generation ds
          then (Some (InvalidDescriptor ''generation changed during join''), st, [])
          else
           (None,
            set_incoming (sd_stream_id ds)
              (s\<lparr>is_descriptor := ds, is_parent := Some parent, is_standby := standby,
                 latest_sequence := sequence - 1, latest_segment := segment\<rparr>) st,
            [Emit (Joined (is_application_id s) ds parent standby)]))"

definition handle_join_rejected ::
  "stream_crypto \<Rightarrow> record_key \<Rightarrow> string \<Rightarrow> nat \<Rightarrow> string \<Rightarrow> stream_state \<Rightarrow>
   stream_error option \<times> stream_state \<times> stream_output list" where
  "handle_join_rejected c sender stream_id gen reason st =
    (if STREAM_MAX_CLOSE_REASON_BYTES < length (utf8 c reason)
     then (Some (InvalidDescriptor ''stream rejection text exceeds the configured limit''), st, [])
     else case map_of (incoming st) stream_id of
       None \<Rightarrow> (None, st, [])
     | Some s \<Rightarrow>
        if streamer_main_dht (is_descriptor s) \<noteq> sender \<or> sd_generation (is_descriptor s) \<noteq> gen
        then (Some (InvalidDescriptor ''invalid join rejection source''), st, [])
        else (None, remove_incoming stream_id st,
              [Emit (Ended (is_application_id s) stream_id reason)]))"

definition from_streamer :: "incoming_stream \<Rightarrow> record_key \<Rightarrow> nat \<Rightarrow> bool" where
  "from_streamer s sender gen \<longleftrightarrow>
     streamer_main_dht (is_descriptor s) = sender \<and> sd_generation (is_descriptor s) = gen"

definition handle_assign_child ::
  "record_key \<Rightarrow> string \<Rightarrow> nat \<Rightarrow> record_key \<Rightarrow> stream_state \<Rightarrow>
   stream_error option \<times> stream_state \<times> stream_output list" where
  "handle_assign_child sender stream_id gen child st =
    (case map_of (incoming st) stream_id of
       None \<Rightarrow> (Some StreamNotFound, st, [])
     | Some s \<Rightarrow>
        if \<not> from_streamer s sender gen
        then (Some (InvalidDescriptor ''child assignment was not issued by the streamer''), st, [])
        else if child \<notin> set (is_children s) \<and> is_relay_capacity s \<le> length (is_children s)
        then (Some (JoinRejected ''relay has no remaining child capacity''), st, [])
        else
         (let s = s\<lparr>is_children := insert_child child (is_children s)\<rparr>
          in (None, set_incoming stream_id s st,
              [Emit (TopologyChanged (is_application_id s) stream_id None
                 (length (is_children s)))])))"

definition handle_parent_assignment ::
  "record_key \<Rightarrow> string \<Rightarrow> nat \<Rightarrow> record_key \<Rightarrow> record_key option \<Rightarrow> stream_state \<Rightarrow>
   stream_error option \<times> stream_state \<times> stream_output list" where
  "handle_parent_assignment sender stream_id gen parent standby st =
    (case map_of (incoming st) stream_id of
       None \<Rightarrow> (Some StreamNotFound, st, [])
     | Some s \<Rightarrow>
        if \<not> from_streamer s sender gen
        then (Some (InvalidDescriptor ''parent assignment was not issued by the streamer''), st, [])
        else
         (None, set_incoming stream_id (s\<lparr>is_parent := Some parent, is_standby := standby\<rparr>) st,
          [Emit (TopologyChanged (is_application_id s) stream_id (Some parent)
             (length (is_children s)))]))"

subsection \<open>Packets and hints\<close>

definition upstream_allowed :: "incoming_stream \<Rightarrow> record_key \<Rightarrow> bool" where
  "upstream_allowed s sender \<longleftrightarrow> is_parent s = Some sender \<or> is_standby s = Some sender \<or>
     streamer_main_dht (is_descriptor s) = sender"

definition empty_segment :: received_segment where
  "empty_segment = \<lparr>rs_packets = [], rs_hint = None, verified = False, last_retransmit_at = 0\<rparr>"

definition segment_of :: "incoming_stream \<Rightarrow> nat \<Rightarrow> received_segment" where
  "segment_of s n = (case map_of (received_segments s) n of None \<Rightarrow> empty_segment | Some g \<Rightarrow> g)"

definition packet_error :: "incoming_stream \<Rightarrow> record_key \<Rightarrow> stream_packet \<Rightarrow> stream_error option" where
  "packet_error s sender p =
    (if sd_generation (is_descriptor s) \<noteq> pk_generation p \<or> \<not> is_running s
     then Some (InvalidDescriptor ''packet generation is not active'')
     else if pk_payload p = [] \<or> STREAM_PACKET_BYTES < length (pk_payload p) \<or>
             STREAM_PACKETS_PER_SEGMENT \<le> pk_index p
     then Some (InvalidDescriptor ''stream packet sizing is invalid'')
     else if sat_add u64_max (latest_segment s) STREAM_MAX_SEGMENT_AHEAD < pk_segment_number p \<or>
             sat_add u64_max (pk_segment_number p) STREAM_RECEIVED_SEGMENT_WINDOW < latest_segment s
     then Some (InvalidDescriptor ''stream packet segment is outside the receive window'')
     else if \<not> upstream_allowed s sender
     then Some (InvalidDescriptor ''packet did not come from an assigned upstream peer'')
     else None)"

definition already_seen :: "received_segment \<Rightarrow> stream_packet \<Rightarrow> bool" where
  "already_seen g p =
    (case map_of (rs_packets g) (pk_index p) of
       None \<Rightarrow> False
     | Some q \<Rightarrow>
        \<not> (retransmission p \<and> (pk_sequence q \<noteq> pk_sequence p \<or> pk_payload q \<noteq> pk_payload p)))"

definition store_packet :: "stream_packet \<Rightarrow> incoming_stream \<Rightarrow> incoming_stream" where
  "store_packet p s =
    (let n = pk_segment_number p; g = segment_of s n
     in if already_seen g p then s\<lparr>received_segments := AList.update n g (received_segments s)\<rparr>
        else s\<lparr>received_segments := AList.update n
                 (g\<lparr>rs_packets := AList.update (pk_index p) p (rs_packets g), verified := False\<rparr>)
                 (received_segments s),
               latest_sequence := max (latest_sequence s) (pk_sequence p),
               latest_segment := max (latest_segment s) n,
               is_packet_cache := cache_packet (is_packet_cache s) p n\<rparr>)"

text \<open>A stored packet is delivered, forwarded to the children, and its segment re-checked later.\<close>

definition handle_packet ::
  "record_key \<Rightarrow> stream_packet \<Rightarrow> stream_state \<Rightarrow> stream_error option \<times> stream_state \<times> stream_output list"
  where
  "handle_packet sender p st =
    (case map_of (incoming st) (pk_stream_id p) of
       None \<Rightarrow> (Some StreamNotFound, st, [])
     | Some s \<Rightarrow>
        (case packet_error s sender p of
           Some e \<Rightarrow> (Some e, st, [])
         | None \<Rightarrow>
            (None, set_incoming (pk_stream_id p) (store_packet p s) st,
             if already_seen (segment_of s (pk_segment_number p)) p then []
             else Emit (Data (is_application_id s) p) #
               map (\<lambda>k. Send k (M_Packet p)) (remove_child sender (is_children s)))))"

definition handle_commitment_hint ::
  "record_key \<Rightarrow> stream_commitment_hint \<Rightarrow> stream_state \<Rightarrow>
   stream_error option \<times> stream_state \<times> stream_output list" where
  "handle_commitment_hint sender h st =
    (if \<not> (1 \<le> page_location h \<and> page_location h \<le> STREAM_COMMITMENT_PAGES_PER_RECORD)
     then (Some (InvalidDescriptor ''commitment hint subkey is outside the record schema''), st, [])
     else case map_of (incoming st) (ht_stream_id h) of
       None \<Rightarrow> (Some StreamNotFound, st, [])
     | Some s \<Rightarrow>
        if \<not> upstream_allowed s sender
        then (Some (InvalidDescriptor ''commitment hint came from an unrelated peer''), st, [])
        else
         (let n = ht_segment_number h
          in (None,
              set_incoming (ht_stream_id h) (s\<lparr>received_segments :=
                AList.update n ((segment_of s n)\<lparr>rs_hint := Some h\<rparr>) (received_segments s)\<rparr>) st,
              map (\<lambda>k. Send k (M_CommitmentHint h)) (remove_child sender (is_children s)))))"

subsection \<open>Verification\<close>

definition decode_store_value :: "stream_crypto \<Rightarrow> app_store_read_value \<Rightarrow> stream_error + bytes" where
  "decode_store_value c v =
    (case rv_error v of
       Some e \<Rightarrow> Inl (Integrity e)
     | None \<Rightarrow>
        if is_null v then Inl (Integrity ''commitment subkey is null'')
        else case value_base64 v of
          None \<Rightarrow> Inl (Integrity ''commitment subkey has no value'')
        | Some text \<Rightarrow>
           (case decode_base64 c text of
              None \<Rightarrow> Inl (Integrity ''base64'') | Some bs \<Rightarrow> Inr bs))"

definition deserialize_page :: "stream_crypto \<Rightarrow> bytes \<Rightarrow> stream_error + signed_commitment_page" where
  "deserialize_page c bs =
    (if STREAM_MAX_SERIALIZED_BYTES < length bs
     then Inl (Serialization ''encoded stream value exceeds the decoder limit'')
     else case decode_page_value c bs of
       None \<Rightarrow> Inl (Serialization ''decode'') | Some page \<Rightarrow> Inr page)"

definition valid_commitment :: "stream_segment_commitment \<Rightarrow> bool" where
  "valid_commitment cm \<longleftrightarrow> cm_packet_count cm \<noteq> 0 \<and>
     cm_packet_count cm \<le> STREAM_PACKETS_PER_SEGMENT \<and>
     cm_payload_bytes cm \<le> sat_mul u64_max (cm_packet_count cm) STREAM_PACKET_BYTES"

definition check_page ::
  "stream_crypto \<Rightarrow> stream_descriptor \<Rightarrow> stream_commitment_hint \<Rightarrow> signed_commitment_page \<Rightarrow>
   stream_error + stream_segment_commitment" where
  "check_page c ds h page =
    (let u = sp_unsigned page
     in if cp_stream_id u \<noteq> sd_stream_id ds \<or> cp_generation u \<noteq> sd_generation ds
        then Inl (Integrity ''commitment page stream identity mismatch'')
        else if sat_add u32_max (cp_page_index u) 1 \<noteq> page_location h \<or> cp_commitments u = [] \<or>
                STREAM_COMMITMENTS_PER_PAGE < length (cp_commitments u)
        then Inl (Integrity ''commitment page shape is invalid'')
        else case serialize (page_bytes c u) of
          Inl e \<Rightarrow> Inl e
        | Inr bs \<Rightarrow>
           (case verify_signed_bytes c (signing_public_key_hex ds) STREAM_COMMITMENT_PAGE_DOMAIN bs
                   (sp_signature_hex page) of
              Some e \<Rightarrow> Inl e
            | None \<Rightarrow>
               (case find (\<lambda>cm. cm_segment_number cm = ht_segment_number h) (cp_commitments u) of
                  None \<Rightarrow> Inl (Integrity ''commitment page does not contain the announced segment'')
                | Some cm \<Rightarrow>
                   if valid_commitment cm then Inr cm
                   else Inl (Integrity ''commitment packet sizing is invalid''))))"

definition read_and_verify_commitment_page ::
  "stream_crypto \<Rightarrow> stream_reads \<Rightarrow> stream_descriptor \<Rightarrow> stream_commitment_hint \<Rightarrow>
   stream_error + stream_segment_commitment" where
  "read_and_verify_commitment_page c reads ds h =
    (if ht_stream_id h \<noteq> sd_stream_id ds \<or> ht_generation h \<noteq> sd_generation ds
     then Inl (Integrity ''commitment hint identifies another stream'')
     else if \<not> (1 \<le> page_location h \<and> page_location h \<le> STREAM_COMMITMENT_PAGES_PER_RECORD)
     then Inl (Integrity ''commitment hint subkey is outside the record schema'')
     else if \<not> parse_record_key c (ht_record_key h)
     then Inl (Integrity ''invalid commitment record key'')
     else case reads (ht_record_key h) [page_location h] of
       Inl e \<Rightarrow> Inl e
     | Inr [] \<Rightarrow> Inl (Integrity ''commitment page is missing'')
     | Inr (v # vs) \<Rightarrow>
        (case decode_store_value c (last (v # vs)) of
           Inl e \<Rightarrow> Inl e
         | Inr bs \<Rightarrow>
            (case deserialize_page c bs of
               Inl e \<Rightarrow> Inl e
             | Inr page \<Rightarrow> check_page c ds h page)))"

definition missing_packet_indices :: "(nat \<times> stream_packet) list \<Rightarrow> nat \<Rightarrow> nat list" where
  "missing_packet_indices ps n = filter (\<lambda>i. map_of ps i = None) [0..<n]"

definition ordered_packets :: "(nat \<times> stream_packet) list \<Rightarrow> nat \<Rightarrow> stream_packet list" where
  "ordered_packets ps n = List.map_filter (map_of ps) [0..<n]"

definition hash_received_packets ::
  "stream_crypto \<Rightarrow> (nat \<times> stream_packet) list \<Rightarrow> nat \<Rightarrow> stream_error + bytes" where
  "hash_received_packets c ps n =
    (if length ps \<noteq> n then Inl (Integrity ''segment packet count is incomplete'')
     else if missing_packet_indices ps n \<noteq> [] then Inl (Integrity ''segment packet is missing'')
     else Inr (hash_packet_sequence c (ordered_packets ps n)))"

definition chain_ready ::
  "incoming_stream \<Rightarrow> nat \<Rightarrow> stream_segment_commitment \<Rightarrow> stream_error + bool" where
  "chain_ready s n cm =
    (if n = 0
     then if previous_commitment_hash cm \<noteq> replicate 32 0
          then Inl (Integrity ''first commitment does not begin a valid chain'') else Inr True
     else case map_of (verified_commitment_hashes s) (n - 1) of
       None \<Rightarrow> Inr False
     | Some h \<Rightarrow>
        if previous_commitment_hash cm \<noteq> h
        then Inl (Integrity ''stream commitment chain is broken'') else Inr True)"

definition mark_verified :: "nat \<Rightarrow> bytes \<Rightarrow> incoming_stream \<Rightarrow> incoming_stream" where
  "mark_verified n h s =
    (let oldest = n - STREAM_RECEIVED_SEGMENT_WINDOW
     in s\<lparr>received_segments := filter (\<lambda>(k, _). oldest \<le> k)
            (amodify n (\<lambda>g. g\<lparr>verified := True\<rparr>) (received_segments s)),
          verified_commitment_hashes := filter (\<lambda>(k, _). oldest - 1 \<le> k)
            (AList.update n h (verified_commitment_hashes s))\<rparr>)"

definition recovery_peer :: "incoming_stream \<Rightarrow> record_key option" where
  "recovery_peer s =
    (let source = streamer_main_dht (is_descriptor s);
         fallback = (if Some source \<noteq> is_parent s then Some source else None)
     in case is_standby s of
          Some p \<Rightarrow> if Some p \<noteq> is_parent s then Some p else fallback
        | None \<Rightarrow> fallback)"

definition request_missing ::
  "stream_crypto \<Rightarrow> stream_net \<Rightarrow> nat \<Rightarrow> string \<Rightarrow> nat \<Rightarrow> nat list \<Rightarrow> incoming_stream \<Rightarrow> stream_state \<Rightarrow>
   stream_error option \<times> stream_state \<times> stream_output list" where
  "request_missing c net now stream_id n missing s st =
    (let g = segment_of s n
     in if map_of (received_segments s) n = None \<or> now - last_retransmit_at g < 2
        then (None, st, [])
        else
         (let st = set_incoming stream_id (s\<lparr>received_segments :=
                AList.update n (g\<lparr>last_retransmit_at := now\<rparr>) (received_segments s)\<rparr>) st;
              event = Emit (SegmentMissingPackets (is_application_id s) stream_id n missing)
          in case is_parent s of
               None \<Rightarrow> (None, st, [event])
             | Some p \<Rightarrow>
                (let m = M_RetransmitRequest stream_id (sd_generation (is_descriptor s)) n
                      (take STREAM_MAX_RETRANSMIT_INDICES missing)
                 in (send_wire c net p m, st, [event, Send p m]))))"

definition try_verify_received_segment ::
  "stream_crypto \<Rightarrow> stream_net \<Rightarrow> stream_reads \<Rightarrow> nat \<Rightarrow> string \<Rightarrow> nat \<Rightarrow> stream_state \<Rightarrow>
   stream_error option \<times> stream_state \<times> stream_output list" where
  "try_verify_received_segment c net reads now stream_id n st =
    (case map_of (incoming st) stream_id of
       None \<Rightarrow> (Some StreamNotFound, st, [])
     | Some s \<Rightarrow>
       (let g = segment_of s n
        in if verified g then (None, st, [])
           else case rs_hint g of
             None \<Rightarrow> (None, st, [])
           | Some h \<Rightarrow>
              (case read_and_verify_commitment_page c reads (is_descriptor s) h of
                 Inl e \<Rightarrow> (Some e, st, [])
               | Inr cm \<Rightarrow>
                 (let missing = missing_packet_indices (rs_packets g) (cm_packet_count cm)
                  in if missing \<noteq> [] then request_missing c net now stream_id n missing s st
                     else case hash_received_packets c (rs_packets g) (cm_packet_count cm) of
                       Inl e \<Rightarrow> (Some e, st, [])
                     | Inr computed \<Rightarrow>
                        if computed \<noteq> cm_sha256 cm
                        then (Some (Integrity ''segment hash mismatch''), st,
                          Emit (IntegrityFailure (is_application_id s) stream_id n) #
                          (case recovery_peer s of
                             None \<Rightarrow> []
                           | Some p \<Rightarrow> [Send p (M_RetransmitRequest stream_id
                               (sd_generation (is_descriptor s)) n [0..<cm_packet_count cm])]))
                        else case hash_commitment c cm of
                          Inl e \<Rightarrow> (Some e, st, [])
                        | Inr ch \<Rightarrow>
                           (case chain_ready s n cm of
                              Inl e \<Rightarrow> (Some e, st, [])
                            | Inr False \<Rightarrow> (None, st, [])
                            | Inr True \<Rightarrow>
                               (None, set_incoming stream_id (mark_verified n ch s) st,
                                [Emit (SegmentVerified (is_application_id s) stream_id n
                                   computed)]))))))"

end
