(* ===== verification/Stream_Node.thy ===== *)
theory Stream_Node
  imports Stream_Viewer
begin

text \<open>
  The stream transport of one node, which may be the source of some streams and a viewer of
  others: retransmission, leaving and ending, the dispatch of a direct message, the periodic
  maintenance, and the step function over all the calls and messages it can receive.
\<close>

subsection \<open>Retransmission\<close>

definition wanted_indices :: "nat list \<Rightarrow> nat list" where
  "wanted_indices is = take STREAM_MAX_RETRANSMIT_INDICES
     (filter (\<lambda>i. i < STREAM_PACKETS_PER_SEGMENT) (remdups (sort is)))"

definition find_cached_packets ::
  "stream_packet list \<Rightarrow> nat \<Rightarrow> nat list \<Rightarrow> stream_packet list" where
  "find_cached_packets cache n is =
     filter (\<lambda>p. pk_segment_number p = n \<and> pk_index p \<in> set is) cache"

definition resend ::
  "record_key \<Rightarrow> string \<Rightarrow> nat \<Rightarrow> nat \<Rightarrow> nat list \<Rightarrow> stream_packet list \<Rightarrow> record_key option \<Rightarrow>
   stream_output list" where
  "resend sender stream_id gen n is ps upstream =
    (let missing = filter (\<lambda>i. i \<notin> pk_index ` set ps) is
     in map (\<lambda>p. Send sender (M_Packet (p\<lparr>retransmission := True\<rparr>))) ps @
        (case upstream of
           Some up \<Rightarrow> if missing \<noteq> [] \<and> up \<noteq> sender
             then [Send up (M_RetransmitRequest stream_id gen n missing)] else []
         | None \<Rightarrow> []))"

definition handle_retransmit_request ::
  "record_key \<Rightarrow> string \<Rightarrow> nat \<Rightarrow> nat \<Rightarrow> nat list \<Rightarrow> stream_state \<Rightarrow>
   stream_error option \<times> stream_output list" where
  "handle_retransmit_request sender stream_id gen n indices st =
    (let is = wanted_indices indices
     in if is = [] then (None, [])
        else case map_of (outgoing st) stream_id of
          Some s \<Rightarrow>
            if sd_generation (os_descriptor s) \<noteq> gen
            then (Some (InvalidDescriptor ''retransmission generation mismatch''), [])
            else if map_of (participants s) sender = None
            then (Some (InvalidDescriptor
              ''retransmission requester is not an admitted viewer''), [])
            else (None, resend sender stream_id gen n is
                   (find_cached_packets (os_packet_cache s) n is) None)
        | None \<Rightarrow>
           (case map_of (incoming st) stream_id of
              Some s \<Rightarrow>
                if sd_generation (is_descriptor s) \<noteq> gen
                then (Some (InvalidDescriptor ''retransmission generation mismatch''), [])
                else if sender \<notin> set (is_children s)
                then (Some (InvalidDescriptor
                  ''retransmission requester is not an assigned child''), [])
                else (None, resend sender stream_id gen n is
                       (find_cached_packets (is_packet_cache s) n is) (is_parent s))
            | None \<Rightarrow> (Some StreamNotFound, [])))"

subsection \<open>Leaving and ending\<close>

definition source_leave ::
  "record_key \<Rightarrow> record_key \<Rightarrow> string \<Rightarrow> nat \<Rightarrow> record_key \<Rightarrow> outgoing_stream \<Rightarrow> stream_state \<Rightarrow>
   stream_error option \<times> stream_state \<times> stream_output list" where
  "source_leave me sender stream_id gen viewer s st =
    (if sd_generation (os_descriptor s) \<noteq> gen
     then (Some (InvalidDescriptor ''leave generation mismatch''), st, [])
     else case map_of (participants s) viewer of
       None \<Rightarrow> (None, st, [])
     | Some p \<Rightarrow>
        if sender \<noteq> viewer \<and> parent_main_dht p \<noteq> sender
        then (Some (InvalidDescriptor ''invalid leave source''), st, [])
        else
         (let (as, s') = remove_participant_and_reassign me viewer s
          in (None, set_outgoing stream_id s' st,
              concat (map (reassignment_outputs me stream_id gen) as) @
              [Emit (ViewerLeft (sd_application_id (os_descriptor s)) stream_id viewer
                 (length (participants s')))])))"

definition relay_leave ::
  "record_key \<Rightarrow> string \<Rightarrow> nat \<Rightarrow> record_key \<Rightarrow> incoming_stream \<Rightarrow> stream_state \<Rightarrow>
   stream_error option \<times> stream_state \<times> stream_output list" where
  "relay_leave sender stream_id gen viewer s st =
    (if sd_generation (is_descriptor s) \<noteq> gen \<or> sender \<noteq> viewer
     then (Some (InvalidDescriptor ''leave did not come from an assigned relay child''), st, [])
     else if viewer \<notin> set (is_children s)
     then (Some (InvalidDescriptor ''leave did not come from an assigned relay child''), st, [])
     else
      (let s' = s\<lparr>is_children := remove_child viewer (is_children s)\<rparr>
       in (None, set_incoming stream_id s' st,
           [Send (streamer_main_dht (is_descriptor s)) (M_Leave stream_id gen viewer),
            Emit (TopologyChanged (is_application_id s) stream_id None
              (length (is_children s')))])))"

definition handle_leave ::
  "record_key \<Rightarrow> record_key \<Rightarrow> string \<Rightarrow> nat \<Rightarrow> record_key \<Rightarrow> stream_state \<Rightarrow>
   stream_error option \<times> stream_state \<times> stream_output list" where
  "handle_leave me sender stream_id gen viewer st =
    (case map_of (outgoing st) stream_id of
       Some s \<Rightarrow> source_leave me sender stream_id gen viewer s st
     | None \<Rightarrow>
        (case map_of (incoming st) stream_id of
           Some s \<Rightarrow> relay_leave sender stream_id gen viewer s st
         | None \<Rightarrow> (Some StreamNotFound, st, [])))"

definition handle_end ::
  "stream_crypto \<Rightarrow> nat \<Rightarrow> record_key \<Rightarrow> string \<Rightarrow> nat \<Rightarrow> string \<Rightarrow> stream_state \<Rightarrow>
   stream_error option \<times> stream_state \<times> stream_output list" where
  "handle_end c now sender stream_id gen reason st =
    (if STREAM_MAX_CLOSE_REASON_BYTES < length (utf8 c reason)
     then (Some (InvalidDescriptor ''stream end text exceeds the configured limit''), st, [])
     else case map_of (incoming st) stream_id of
       None \<Rightarrow> (Some StreamNotFound, st, [])
     | Some s \<Rightarrow>
        if \<not> (is_parent s = Some sender \<or> streamer_main_dht (is_descriptor s) = sender) \<or>
           sd_generation (is_descriptor s) \<noteq> gen
        then (Some (InvalidDescriptor ''invalid stream end source''), st, [])
        else
         (None, set_incoming stream_id (s\<lparr>is_running := False, is_closed_at := Some now\<rparr>) st,
          map (\<lambda>k. Send k (M_End stream_id gen reason)) (is_children s) @
          [Emit (Ended (is_application_id s) stream_id reason)]))"

subsection \<open>Direct messages and maintenance\<close>

definition process_direct_message ::
  "stream_crypto \<Rightarrow> stream_net \<Rightarrow> record_key \<Rightarrow> nat \<Rightarrow> record_key \<Rightarrow> stream_wire_message \<Rightarrow>
   stream_state \<Rightarrow> stream_error option \<times> stream_state \<times> stream_output list" where
  "process_direct_message c net me now sender m st =
    (case m of
       M_JoinRequest ds viewer capacity requested_at \<Rightarrow>
         (case handle_join_request c net me now sender ds viewer capacity requested_at st of
            (None, st, outs) \<Rightarrow> (None, st, outs)
          | (Some e, st, outs) \<Rightarrow> (Some e, st, outs @ [Send sender (M_JoinRejected (sd_stream_id ds)
              (sd_generation ds) ''the stream source did not accept this viewer'')]))
     | M_JoinAccepted ds parent standby sequence segment \<Rightarrow>
         handle_join_accepted c sender ds parent standby sequence segment st
     | M_JoinRejected stream_id gen reason \<Rightarrow>
         handle_join_rejected c sender stream_id gen reason st
     | M_AssignChild stream_id gen child \<Rightarrow> handle_assign_child sender stream_id gen child st
     | M_ParentAssignment stream_id gen parent standby \<Rightarrow>
         handle_parent_assignment sender stream_id gen parent standby st
     | M_Packet p \<Rightarrow> handle_packet sender p st
     | M_CommitmentHint h \<Rightarrow> handle_commitment_hint sender h st
     | M_RetransmitRequest stream_id gen n indices \<Rightarrow>
         (case handle_retransmit_request sender stream_id gen n indices st of
            (e, outs) \<Rightarrow> (e, st, outs))
     | M_Leave stream_id gen viewer \<Rightarrow> handle_leave me sender stream_id gen viewer st
     | M_End stream_id gen reason \<Rightarrow> handle_end c now sender stream_id gen reason st)"

definition join_expired :: "nat \<Rightarrow> incoming_stream \<Rightarrow> bool" where
  "join_expired now s \<longleftrightarrow> is_parent s = None \<and>
     sat_add u64_max (join_requested_at s) STREAM_JOIN_TIMEOUT_SECS < now"

definition expire_pending_joins :: "nat \<Rightarrow> stream_state \<Rightarrow> stream_state \<times> stream_output list" where
  "expire_pending_joins now st =
     (st\<lparr>incoming := filter (\<lambda>(_, s). \<not> join_expired now s) (incoming st)\<rparr>,
      map (\<lambda>(k, s). Emit (Ended (is_application_id s) k ''stream join timed out''))
        (filter (\<lambda>(_, s). join_expired now s) (incoming st)))"

definition retention_over :: "nat \<Rightarrow> nat option \<Rightarrow> bool" where
  "retention_over now closed \<longleftrightarrow>
     (case closed of None \<Rightarrow> False | Some t \<Rightarrow> STREAM_CLOSED_RETENTION_SECS \<le> now - t)"

definition expire_outgoing :: "nat \<Rightarrow> outgoing_stream \<Rightarrow> outgoing_stream" where
  "expire_outgoing now s =
    (if retention_over now (os_closed_at s)
     then (let s = s\<lparr>os_packet_cache := [], current_packets := []\<rparr>
           in if pending_segments s = [] then s\<lparr>participants := [], direct_children := []\<rparr> else s)
     else s)"

definition expire_closed_streams :: "nat \<Rightarrow> stream_state \<Rightarrow> stream_state" where
  "expire_closed_streams now st =
     st\<lparr>outgoing := filter (\<lambda>(_, s). os_running s \<or> pending_segments s \<noteq> [] \<or>
            \<not> retention_over now (os_closed_at s))
          (map (\<lambda>(k, s). (k, expire_outgoing now s)) (outgoing st)),
        incoming := filter (\<lambda>(_, s). is_running s \<or> \<not> retention_over now (is_closed_at s))
          (incoming st)\<rparr>"

definition unverified_segments :: "stream_state \<Rightarrow> (string \<times> nat) list" where
  "unverified_segments st = concat (map (\<lambda>(k, s).
     map (\<lambda>(n, _). (k, n))
       (filter (\<lambda>(_, g). \<not> verified g \<and> rs_hint g \<noteq> None) (received_segments s))) (incoming st))"

text \<open>The segments that have a hint are verified one after the other; errors are only logged.\<close>

definition verify_ready_segments ::
  "stream_crypto \<Rightarrow> stream_net \<Rightarrow> stream_reads \<Rightarrow> nat \<Rightarrow> stream_state \<Rightarrow>
   stream_state \<times> stream_output list" where
  "verify_ready_segments c net reads now st =
     foldl (\<lambda>(st, outs) (k, n).
       case try_verify_received_segment c net reads now k n st of
         (_, st', outs') \<Rightarrow> (st', outs @ outs')) (st, []) (unverified_segments st)"

text \<open>Every stream with pending segments is published in turn; errors are only logged.\<close>

definition pending_streams :: "stream_state \<Rightarrow> string list" where
  "pending_streams st = map fst (filter (\<lambda>(_, s). pending_segments s \<noteq> []) (outgoing st))"

definition commit_all_pending ::
  "stream_crypto \<Rightarrow> (string \<Rightarrow> nat \<Rightarrow> stream_storage) \<Rightarrow> nat \<Rightarrow> stream_state \<times> stream_dht \<Rightarrow>
   (stream_state \<times> stream_dht) \<times> stream_output list" where
  "commit_all_pending c io now sd =
     foldl (\<lambda>(sd, outs) k. case commit_pending_segments c (io k) now k sd of
         (_, sd', outs') \<Rightarrow> (sd', outs @ outs')) (sd, []) (pending_streams (fst sd))"

definition outgoing_summary :: "outgoing_stream \<Rightarrow> stream_summary" where
  "outgoing_summary s =
     \<lparr>sm_descriptor = os_descriptor s, sm_role = Streamer, sm_running = os_running s,
      viewer_count = length (participants s), direct_child_count = length (direct_children s),
      sm_parent_main_dht = None, sm_standby_parent_main_dht = None,
      sm_next_sequence = next_sequence s, sm_current_segment = current_segment s\<rparr>"

definition incoming_summary :: "incoming_stream \<Rightarrow> stream_summary" where
  "incoming_summary s =
     \<lparr>sm_descriptor = is_descriptor s, sm_role = Viewer, sm_running = is_running s,
      viewer_count = 0, direct_child_count = length (is_children s),
      sm_parent_main_dht = is_parent s, sm_standby_parent_main_dht = is_standby s,
      sm_next_sequence = sat_add u64_max (latest_sequence s) 1,
      sm_current_segment = latest_segment s\<rparr>"

definition list_streams :: "string \<Rightarrow> stream_state \<Rightarrow> stream_summary list" where
  "list_streams app st = sort_key (\<lambda>sm. sd_created_at (sm_descriptor sm))
     (map outgoing_summary
        (filter (\<lambda>s. sd_application_id (os_descriptor s) = app) (map snd (outgoing st))) @
      map incoming_summary (filter (\<lambda>s. is_application_id s = app) (map snd (incoming st))))"

subsection \<open>The node\<close>

datatype stream_call =
    Join_Stream nat string stream_descriptor nat
  | Join_Send_Failed string string
  | Write_Stream string string bytes
  | Flush_Stream nat string string
  | Leave_Stream string string
  | Close_Stream nat string string string
  | Start_Stream nat string string bytes
  | Direct_Message nat record_key stream_wire_message
  | Commit_Pending nat string
  | Verify_Segment nat string nat
  | Verify_Ready nat
  | Expire_Pending_Joins nat
  | Expire_Closed_Streams nat

text \<open>What the other modules and the network do during one call.\<close>

record stream_env =
  se_net :: stream_net
  se_io :: "nat \<Rightarrow> stream_storage"
  se_reads :: stream_reads

fun stream_step ::
  "stream_crypto \<Rightarrow> record_key \<Rightarrow> stream_env \<Rightarrow> stream_call \<Rightarrow> stream_state \<times> stream_dht \<Rightarrow>
   (stream_state \<times> stream_dht) \<times> stream_output list" where
  "stream_step c me env (Join_Stream now app ds capacity) (st, d) =
     (case join_stream c me now app ds capacity st of (_, st, outs) \<Rightarrow> ((st, d), outs))"
| "stream_step c me env (Join_Send_Failed k reason) (st, d) =
     (case join_send_failed k reason st of (st, outs) \<Rightarrow> ((st, d), outs))"
| "stream_step c me env (Write_Stream app k data) (st, d) =
     (case write_stream c app k data st of (_, st, outs) \<Rightarrow> ((st, d), outs))"
| "stream_step c me env (Flush_Stream now app k) (st, d) =
     (case flush_stream c (se_io env) now app k (st, d) of (_, sd, outs) \<Rightarrow> (sd, outs))"
| "stream_step c me env (Leave_Stream app k) (st, d) =
     (case leave_stream c me app k st of (_, st, outs) \<Rightarrow> ((st, d), outs))"
| "stream_step c me env (Close_Stream now app k reason) (st, d) =
     (case close_stream c now app k reason st of (_, st, outs) \<Rightarrow> ((st, d), outs))"
| "stream_step c me env (Start_Stream now app k metadata) (st, d) =
     (case start_stream c (se_io env 0) me app k now metadata (st, d) of (_, sd, outs) \<Rightarrow> (sd, outs))"
| "stream_step c me env (Direct_Message now sender m) (st, d) =
     (case process_direct_message c (se_net env) me now sender m st of
        (_, st, outs) \<Rightarrow> ((st, d), outs))"
| "stream_step c me env (Commit_Pending now k) (st, d) =
     (case commit_pending_segments c (se_io env) now k (st, d) of (_, sd, outs) \<Rightarrow> (sd, outs))"
| "stream_step c me env (Verify_Segment now k n) (st, d) =
     (case try_verify_received_segment c (se_net env) (se_reads env) now k n st of
        (_, st, outs) \<Rightarrow> ((st, d), outs))"
| "stream_step c me env (Verify_Ready now) (st, d) =
     (case verify_ready_segments c (se_net env) (se_reads env) now st of
        (st, outs) \<Rightarrow> ((st, d), outs))"
| "stream_step c me env (Expire_Pending_Joins now) (st, d) =
     (case expire_pending_joins now st of (st, outs) \<Rightarrow> ((st, d), outs))"
| "stream_step c me env (Expire_Closed_Streams now) (st, d) = ((expire_closed_streams now st, d), [])"

text \<open>A run of a node.\<close>

fun stream_run ::
  "stream_crypto \<Rightarrow> record_key \<Rightarrow> (stream_env \<times> stream_call) list \<Rightarrow> stream_state \<times> stream_dht \<Rightarrow>
   stream_state \<times> stream_dht" where
  "stream_run c me [] sd = sd"
| "stream_run c me ((env, call) # calls) sd =
     stream_run c me calls (fst (stream_step c me env call sd))"

text \<open>Publishing all streams is a run of single publications.\<close>

lemma commit_all_is_run:
  "fst (commit_all_pending c io now sd) = stream_run c me
     (map (\<lambda>k. (\<lparr>se_net = net, se_io = io k, se_reads = reads\<rparr>, Commit_Pending now k))
        (pending_streams (fst sd))) sd"
proof -
  have "fst (foldl (\<lambda>(sd, outs) k. case commit_pending_segments c (io k) now k sd of
      (_, sd', outs') \<Rightarrow> (sd', outs @ outs')) (sd, outs) ks) = stream_run c me
     (map (\<lambda>k. (\<lparr>se_net = net, se_io = io k, se_reads = reads\<rparr>, Commit_Pending now k)) ks) sd"
    for outs ks
  proof (induction ks arbitrary: sd outs)
    case (Cons k ks)
    obtain st d where sd: "sd = (st, d)" by (cases sd)
    obtain r st' d' outs' where "commit_pending_segments c (io k) now k sd = (r, (st', d'), outs')"
      by (metis prod.exhaust)
    with Cons.IH [of "(st', d')"] show ?case by (simp add: sd)
  qed simp
  then show ?thesis by (simp add: commit_all_pending_def)
qed

end
