(* ===== verification/Stream_Cut.thy ===== *)
theory Stream_Cut
  imports Stream_Node
begin

text \<open>
  What the source sends and seals: the packets of a write carry exactly its bytes, in sequence,
  to every direct child; segments are numbered and filled in order; and each commitment that is
  published can be read back and verified at the location its hint names.
\<close>

subsection \<open>Chunks\<close>

lemma concat_chunks: "0 < n \<Longrightarrow> concat (chunks n xs) = xs"
proof (induction n xs rule: chunks.induct)
  case (1 n xs)
  then show ?case by (subst chunks.simps) simp
qed

lemma chunks_sizes: "c \<in> set (chunks n xs) \<Longrightarrow> c \<noteq> [] \<and> length c \<le> n"
proof (induction n xs rule: chunks.induct)
  case (1 n xs)
  from 1(2) have nonempty: "\<not> (xs = [] \<or> n = 0)" by (subst (asm) chunks.simps) (auto split: if_splits)
  then have "c = take n xs \<or> c \<in> set (chunks n (drop n xs))"
    using 1(2) by (subst (asm) chunks.simps) simp
  with nonempty 1(1) show ?case by auto
qed

subsection \<open>The shape of a source\<close>

definition packet_ok :: "stream_packet \<Rightarrow> bool" where
  "packet_ok p \<longleftrightarrow> pk_payload p \<noteq> [] \<and> length (pk_payload p) \<le> STREAM_PACKET_BYTES"

definition pending_ok :: "pending_segment \<Rightarrow> bool" where
  "pending_ok q \<longleftrightarrow> 0 < ps_packet_count q \<and> ps_packet_count q \<le> STREAM_PACKETS_PER_SEGMENT \<and>
     ps_payload_bytes q \<le> ps_packet_count q * STREAM_PACKET_BYTES"

definition next_commitment :: "outgoing_stream \<Rightarrow> nat" where
  "next_commitment s = current_segment s - length (pending_segments s)"

definition record_ok :: "nat \<Rightarrow> commitment_record_state \<Rightarrow> bool" where
  "record_ok n r \<longleftrightarrow> cr_page_index r \<le> STREAM_COMMITMENT_PAGES_PER_RECORD \<and>
     length (page_commitments r) < STREAM_COMMITMENTS_PER_PAGE \<and>
     (cr_page_index r = STREAM_COMMITMENT_PAGES_PER_RECORD \<longrightarrow> page_commitments r = []) \<and>
     (\<forall>cm \<in> set (page_commitments r). cm_segment_number cm < n)"

definition source_ok :: "outgoing_stream \<Rightarrow> bool" where
  "source_ok s \<longleftrightarrow>
     length (current_packets s) < STREAM_PACKETS_PER_SEGMENT \<and>
     (\<forall>p \<in> set (current_packets s). packet_ok p) \<and>
     length (pending_segments s) \<le> current_segment s \<and>
     map ps_segment_number (pending_segments s) = [next_commitment s..<current_segment s] \<and>
     (\<forall>q \<in> set (pending_segments s). pending_ok q) \<and>
     (\<exists>r. last_record s = Some r \<and> record_ok (next_commitment s) r)"

lemma payload_sum:
  "\<forall>p \<in> set ps. packet_ok p \<Longrightarrow>
   sum_list (map (length \<circ> pk_payload) ps) \<le> length ps * STREAM_PACKET_BYTES"
  by (induction ps) (auto simp: packet_ok_def)

text \<open>Sealing a segment of at most 32 packets.\<close>

lemma seal_ok:
  assumes "length (pending_segments s) \<le> current_segment s"
    "map ps_segment_number (pending_segments s) = [next_commitment s..<current_segment s]"
    "\<forall>q \<in> set (pending_segments s). pending_ok q"
    "\<exists>r. last_record s = Some r \<and> record_ok (next_commitment s) r"
    and "length (current_packets s) \<le> STREAM_PACKETS_PER_SEGMENT"
    "\<forall>p \<in> set (current_packets s). packet_ok p" "current_segment s < u64_max"
  shows "source_ok (snd (seal_current_segment c s))"
proof (cases "current_packets s")
  case Nil
  with assms show ?thesis
    by (simp add: seal_current_segment_def source_ok_def STREAM_PACKETS_PER_SEGMENT_def)
next
  case (Cons p ps)
  let ?s = "snd (seal_current_segment c s)"
  let ?q = "\<lparr>ps_segment_number = current_segment s, ps_first_sequence = pk_sequence p,
      ps_packet_count = length (current_packets s),
      ps_payload_bytes = sum_list (map (length \<circ> pk_payload) (current_packets s)),
      ps_sha256 = hash_packet_sequence c (current_packets s)\<rparr>"
  have s: "current_packets ?s = []" "pending_segments ?s = pending_segments s @ [?q]"
    "current_segment ?s = Suc (current_segment s)" "last_record ?s = last_record s"
    using Cons assms(7) by (simp_all add: seal_current_segment_def sat_add_def last_record_def)
  have n: "next_commitment ?s = next_commitment s" using s by (simp add: next_commitment_def)
  have "next_commitment s \<le> current_segment s" by (simp add: next_commitment_def)
  then have "[next_commitment s..<Suc (current_segment s)] =
      [next_commitment s..<current_segment s] @ [current_segment s]" by simp
  moreover have "pending_ok ?q"
    using assms(5) payload_sum [OF assms(6)] Cons by (simp add: pending_ok_def)
  ultimately show ?thesis
    unfolding source_ok_def n s using assms by (auto simp: STREAM_PACKETS_PER_SEGMENT_def)
qed

lemma seal_source_ok:
  "source_ok s \<Longrightarrow> current_segment s < u64_max \<Longrightarrow> source_ok (snd (seal_current_segment c s))"
  by (rule seal_ok) (auto simp: source_ok_def)

lemma write_packet_ok:
  assumes "source_ok s" "current_segment s < u64_max"
    and "chunk \<noteq> []" "length chunk \<le> STREAM_PACKET_BYTES"
    and "write_packet c app k chunk s = Inr (p, s')"
  shows "source_ok s'" "p = next_packet k chunk s"
    "next_sequence s' = sat_add u64_max (next_sequence s) 1"
    "direct_children s' = direct_children s" "participants s' = participants s"
    "current_segment s' \<le> Suc (current_segment s)"
proof -
  let ?p = "next_packet k chunk s"
  let ?s = "s\<lparr>next_sequence := sat_add u64_max (next_sequence s) 1,
      current_packets := current_packets s @ [?p],
      os_packet_cache := cache_packet (os_packet_cache s) ?p (current_segment s)\<rparr>"
  have run: "p = ?p" "s' = (if STREAM_PACKETS_PER_SEGMENT \<le> length (current_packets ?s)
      then snd (seal_current_segment c ?s) else ?s)"
    using assms(5) by (auto simp: write_packet_def Let_def split: if_splits)
  have p: "packet_ok ?p" using assms(3,4) by (simp add: packet_ok_def next_packet_def)
  have same: "next_commitment ?s = next_commitment s" "last_record ?s = last_record s"
    by (simp_all add: next_commitment_def last_record_def)
  have "source_ok (snd (seal_current_segment c ?s))"
    by (rule seal_ok) (use assms(1,2) p same in \<open>auto simp: source_ok_def\<close>)
  moreover have "source_ok ?s" if "\<not> STREAM_PACKETS_PER_SEGMENT \<le> length (current_packets ?s)"
    using assms(1) p that unfolding source_ok_def same by auto
  ultimately show "source_ok s'" using run(2) by simp
  show "p = ?p" by (rule run(1))
  show "next_sequence s' = sat_add u64_max (next_sequence s) 1"
    "direct_children s' = direct_children s" "participants s' = participants s"
    "current_segment s' \<le> Suc (current_segment s)"
    using run(2) by (auto simp: seal_current_segment_def sat_add_def split: list.splits)
qed

subsection \<open>What a write sends\<close>

definition packet_to :: "record_key \<Rightarrow> stream_output \<Rightarrow> stream_packet option" where
  "packet_to k o' = (case o' of Send k' (M_Packet p) \<Rightarrow> if k' = k then Some p else None | _ \<Rightarrow> None)"

definition packets_to :: "record_key \<Rightarrow> stream_output list \<Rightarrow> stream_packet list" where
  "packets_to k outs = List.map_filter (packet_to k) outs"

lemma packets_to_append: "packets_to k (xs @ ys) = packets_to k xs @ packets_to k ys"
  by (simp add: packets_to_def List.map_filter_def)

lemma packets_to_children:
  assumes "distinct ks"
  shows "packets_to k (map (\<lambda>k. Send k (M_Packet p)) ks) = (if k \<in> set ks then [p] else [])"
proof -
  have "k \<notin> set xs \<Longrightarrow> packets_to k (map (\<lambda>k. Send k (M_Packet p)) xs) = []" for xs
    by (induction xs) (auto simp: packets_to_def List.map_filter_simps packet_to_def)
  then show ?thesis using assms
    by (induction ks) (auto simp: packets_to_def List.map_filter_simps packet_to_def)
qed

lemma write_chunks_sent:
  assumes "write_chunks c app k cs s = (None, s', outs)"
    and "source_ok s" "current_segment s + length cs \<le> u64_max"
    and "next_sequence s + length cs \<le> u64_max"
    and "\<forall>x \<in> set cs. x \<noteq> [] \<and> length x \<le> STREAM_PACKET_BYTES" "distinct (direct_children s)"
  shows "\<exists>ps. map pk_payload ps = cs \<and>
    map pk_sequence ps = [next_sequence s..<next_sequence s + length cs] \<and>
    (\<forall>child. packets_to child outs = (if child \<in> set (direct_children s) then ps else [])) \<and>
    source_ok s' \<and> next_sequence s' = next_sequence s + length cs \<and>
    participants s' = participants s"
  using assms
proof (induction cs arbitrary: s outs)
  case Nil
  then show ?case by (intro exI [of _ "[]"]) (simp add: packets_to_def List.map_filter_simps)
next
  case (Cons x cs)
  obtain p s1 outs1 where w: "write_packet c app k x s = Inr (p, s1)"
    and rest: "write_chunks c app k cs s1 = (None, s', outs1)"
    and outs: "outs = map (\<lambda>k. Send k (M_Packet p)) (direct_children s) @ outs1"
    using Cons.prems(1) by (auto split: sum.splits prod.splits)
  have x: "x \<noteq> []" "length x \<le> STREAM_PACKET_BYTES" using Cons.prems(5) by auto
  have seg: "current_segment s < u64_max" using Cons.prems(3) by simp
  note one = write_packet_ok [OF Cons.prems(2) seg x w]
  have next1: "next_sequence s1 = Suc (next_sequence s)"
    using one(3) Cons.prems(4) by (simp add: sat_add_def)
  have "\<exists>ps. map pk_payload ps = cs \<and>
      map pk_sequence ps = [next_sequence s1..<next_sequence s1 + length cs] \<and>
      (\<forall>child. packets_to child outs1 = (if child \<in> set (direct_children s1) then ps else [])) \<and>
      source_ok s' \<and> next_sequence s' = next_sequence s1 + length cs \<and>
      participants s' = participants s1"
    by (rule Cons.IH [OF rest one(1)]) (use Cons.prems one next1 in auto)
  then obtain ps where ps: "map pk_payload ps = cs"
    "map pk_sequence ps = [next_sequence s1..<next_sequence s1 + length cs]"
    "\<forall>child. packets_to child outs1 = (if child \<in> set (direct_children s1) then ps else [])"
    "source_ok s'" "next_sequence s' = next_sequence s1 + length cs"
    "participants s' = participants s1" by blast
  have "pk_payload p = x" "pk_sequence p = next_sequence s" by (simp_all add: one(2) next_packet_def)
  moreover have "[next_sequence s..<next_sequence s + length (x # cs)] =
      next_sequence s # [next_sequence s1..<next_sequence s1 + length cs]"
    by (simp add: upt_conv_Cons next1 del: upt_Suc)
  ultimately show ?case
    using ps one(4,5) next1 Cons.prems(6)
    by (intro exI [of _ "p # ps"])
      (simp add: outs packets_to_append packets_to_children del: upt_Suc)
qed

subsection \<open>Publishing\<close>

text \<open>What a viewer assumes of the network and of the source's key: values are read as they were
  written, and the source's own signatures verify.\<close>

definition reads_dht :: "stream_crypto \<Rightarrow> stream_reads \<Rightarrow> stream_dht \<Rightarrow> bool" where
  "reads_dht c reads d \<longleftrightarrow> (\<forall>key loc bs. d key loc = Some bs \<longrightarrow>
     (\<exists>v. reads key [loc] = Inr [v] \<and> decode_store_value c v = Inr bs))"

definition honest_signer :: "stream_crypto \<Rightarrow> stream_storage \<Rightarrow> string \<Rightarrow> bool" where
  "honest_signer c io public_key \<longleftrightarrow> (\<forall>domain bs sig. sign io domain bs = Inr sig \<longrightarrow>
     verify_signed_bytes c public_key domain bs sig = None)"

definition page_codec :: "stream_crypto \<Rightarrow> bool" where
  "page_codec c \<longleftrightarrow> (\<forall>page. decode_page_value c (page_value c page) = Some page)"

lemma write_store_value_ok:
  "write_store_value io store key loc value d = (None, d') \<Longrightarrow>
   d' = dht_put key loc value d \<and> length value \<le> STREAM_MAX_SERIALIZED_BYTES"
  by (auto simp: write_store_value_def serialize_def split: sum.splits option.splits if_splits)

lemma create_record_ok:
  assumes "create_next_commitment_record c io ds first (s, d) = (None, s', d')"
  obtains sid key index where "s' = s\<lparr>commitment_records := commitment_records s @
      [\<lparr>store_id = sid, cr_record_key = key, cr_record_index = index, cr_page_index = 0,
        cr_first_segment = first, page_commitments = []\<rparr>]\<rparr>"
    "\<exists>name. create_store io name = Inr (sid, key)"
  using assms
  by (auto simp: create_next_commitment_record_def Let_def
      split: option.splits sum.splits prod.splits)

lemma append_to_page_ok:
  assumes "append_to_page c io ds cm (s, d) = (Inr hint, s', d')" "last_record s = Some r"
  obtains sig where
    "sign io STREAM_COMMITMENT_PAGE_DOMAIN (page_bytes c (page_for ds r cm)) = Inr sig"
    "serialize (page_bytes c (page_for ds r cm)) = Inr (page_bytes c (page_for ds r cm))"
    "d' = dht_put (cr_record_key r) (sat_add u32_max (cr_page_index r) 1)
       (page_value c \<lparr>sp_unsigned = page_for ds r cm, sp_signature_hex = sig\<rparr>) d"
    "length (page_value c \<lparr>sp_unsigned = page_for ds r cm, sp_signature_hex = sig\<rparr>) \<le>
       STREAM_MAX_SERIALIZED_BYTES"
    "hint = \<lparr>ht_stream_id = sd_stream_id ds, ht_generation = sd_generation ds,
       ht_segment_number = cm_segment_number cm, ht_record_key = cr_record_key r,
       page_location = sat_add u32_max (cr_page_index r) 1\<rparr>"
    "s' = s\<lparr>commitment_records := butlast (commitment_records s) @ [advance_page cm r]\<rparr>"
proof -
  let ?u = "page_for ds r cm" and ?loc = "sat_add u32_max (cr_page_index r) 1"
  note step = assms(1) [unfolded append_to_page_def prod.case assms(2) option.case Let_def]
  obtain sig where sig: "sign_value io STREAM_COMMITMENT_PAGE_DOMAIN (page_bytes c ?u) = Inr sig"
    using step by (cases "sign_value io STREAM_COMMITMENT_PAGE_DOMAIN (page_bytes c ?u)") simp_all
  let ?v = "page_value c \<lparr>sp_unsigned = ?u, sp_signature_hex = sig\<rparr>"
  obtain e d1 where w: "write_store_value io (store_id r) (cr_record_key r) ?loc ?v d = (e, d1)"
    by (cases "write_store_value io (store_id r) (cr_record_key r) ?loc ?v d")
  with step sig have "e = None" by (cases e) simp_all
  with w have ok: "write_store_value io (store_id r) (cr_record_key r) ?loc ?v d = (None, d1)" by simp
  note res = step [unfolded sig sum.case ok prod.case option.case]
  from sig have "sign io STREAM_COMMITMENT_PAGE_DOMAIN (page_bytes c ?u) = Inr sig"
    "serialize (page_bytes c ?u) = Inr (page_bytes c ?u)"
    by (auto simp: sign_value_def serialize_def split: if_splits)
  with write_store_value_ok [OF ok] res show ?thesis by (intro that [of sig]) simp_all
qed

lemma find_appended:
  "\<forall>x \<in> set xs. cm_segment_number x < cm_segment_number cm \<Longrightarrow>
   find (\<lambda>x. cm_segment_number x = cm_segment_number cm) (xs @ [cm]) = Some cm"
  by (induction xs) auto

lemma appended_page_verifies:
  assumes run: "append_to_page c io ds cm (s, d) = (Inr hint, s', d')" "last_record s = Some r"
    and r: "record_ok (cm_segment_number cm) r" "cr_page_index r < STREAM_COMMITMENT_PAGES_PER_RECORD"
    and cm: "valid_commitment cm"
    and env: "reads_dht c reads d'" "honest_signer c io (signing_public_key_hex ds)" "page_codec c"
      "parse_record_key c (cr_record_key r)"
  shows "read_and_verify_commitment_page c reads ds hint = Inr cm"
proof -
  let ?u = "page_for ds r cm"
  obtain sig where a:
    "sign io STREAM_COMMITMENT_PAGE_DOMAIN (page_bytes c ?u) = Inr sig"
    "serialize (page_bytes c ?u) = Inr (page_bytes c ?u)"
    "d' = dht_put (cr_record_key r) (sat_add u32_max (cr_page_index r) 1)
       (page_value c \<lparr>sp_unsigned = ?u, sp_signature_hex = sig\<rparr>) d"
    "length (page_value c \<lparr>sp_unsigned = ?u, sp_signature_hex = sig\<rparr>) \<le> STREAM_MAX_SERIALIZED_BYTES"
    "hint = \<lparr>ht_stream_id = sd_stream_id ds, ht_generation = sd_generation ds,
       ht_segment_number = cm_segment_number cm, ht_record_key = cr_record_key r,
       page_location = sat_add u32_max (cr_page_index r) 1\<rparr>"
    by (rule append_to_page_ok [OF run])
  let ?page = "\<lparr>sp_unsigned = ?u, sp_signature_hex = sig\<rparr>"
  have loc: "sat_add u32_max (cr_page_index r) 1 = cr_page_index r + 1"
    using r(2) by (simp add: sat_add_def u32_max_def STREAM_COMMITMENT_PAGES_PER_RECORD_def)
  have "d' (cr_record_key r) (cr_page_index r + 1) = Some (page_value c ?page)"
    unfolding a(3) loc by (simp add: dht_put_def)
  then obtain v where v: "reads (cr_record_key r) [cr_page_index r + 1] = Inr [v]"
    "decode_store_value c v = Inr (page_value c ?page)"
    using env(1) unfolding reads_dht_def by blast
  have page: "deserialize_page c (page_value c ?page) = Inr ?page"
    using env(3) a(4) by (simp add: deserialize_page_def page_codec_def)
  have "verify_signed_bytes c (signing_public_key_hex ds) STREAM_COMMITMENT_PAGE_DOMAIN
      (page_bytes c ?u) sig = None"
    using env(2) a(1) unfolding honest_signer_def by blast
  then have "check_page c ds hint ?page = Inr cm"
    using a(2) r cm find_appended [of "page_commitments r" cm]
    unfolding a(5) loc by (simp add: check_page_def page_for_def loc [simplified] record_ok_def Let_def)
  then show ?thesis
    using v page r(2) env(4)
    unfolding a(5) loc by (simp add: read_and_verify_commitment_page_def)
qed

lemma pending_front:
  assumes "source_ok s" "pending_segments s = p # ps"
  shows "ps_segment_number p = next_commitment s" "pending_ok p" "next_commitment s < current_segment s"
proof -
  have nums: "ps_segment_number p # map ps_segment_number ps = [next_commitment s..<current_segment s]"
    using assms by (simp add: source_ok_def)
  then show less: "next_commitment s < current_segment s" by (cases "next_commitment s < current_segment s") simp_all
  with nums show "ps_segment_number p = next_commitment s" by (simp add: upt_conv_Cons)
  show "pending_ok p" using assms by (simp add: source_ok_def)
qed

lemma pending_commitment:
  "pending_ok p \<Longrightarrow> valid_commitment (commitment_of h now p)"
  by (auto simp: pending_ok_def valid_commitment_def commitment_of_def sat_mul_def u64_max_def
      STREAM_PACKETS_PER_SEGMENT_def STREAM_PACKET_BYTES_def)

lemma advance_page_ok:
  assumes "record_ok n r" "cr_page_index r < STREAM_COMMITMENT_PAGES_PER_RECORD"
    and "cm_segment_number cm = n"
  shows "record_ok (Suc n) (advance_page cm r)"
  using assms
  by (auto simp: record_ok_def advance_page_def sat_add_def u32_max_def Let_def
      STREAM_COMMITMENT_PAGES_PER_RECORD_def less_Suc_eq)

text \<open>The record that a commitment is appended to, and what appending does.\<close>

lemma append_page_ok:
  assumes run: "append_commitment_page c io ds cm (s, d) = (Inr hint, s', d')"
    and r: "last_record s = Some r" "record_ok (cm_segment_number cm) r"
  obtains r1 s1 d1 where "append_to_page c io ds cm (s1, d1) = (Inr hint, s', d')"
    "last_record s1 = Some r1" "record_ok (cm_segment_number cm) r1"
    "cr_page_index r1 < STREAM_COMMITMENT_PAGES_PER_RECORD"
    "r1 = r \<or> (\<exists>name. create_store io name = Inr (store_id r1, cr_record_key r1))"
    "\<exists>rs. s1 = s\<lparr>commitment_records := rs\<rparr>"
proof (cases "need_new_record r")
  case False
  with run r(1) have "append_to_page c io ds cm (s, d) = (Inr hint, s', d')"
    by (simp add: append_commitment_page_def)
  moreover have "cr_page_index r < STREAM_COMMITMENT_PAGES_PER_RECORD"
    using False r(2) by (auto simp: need_new_record_def record_ok_def)
  moreover have "\<exists>rs. s = s\<lparr>commitment_records := rs\<rparr>" by (intro exI [of _ "commitment_records s"]) simp
  ultimately show ?thesis using that [OF _ r(1,2)] by blast
next
  case True
  obtain e s1 d1 where cr: "create_next_commitment_record c io ds (cm_segment_number cm) (s, d) = (e, s1, d1)"
    by (cases "create_next_commitment_record c io ds (cm_segment_number cm) (s, d)") auto
  with run r(1) True have e: "e = None" and app: "append_to_page c io ds cm (s1, d1) = (Inr hint, s', d')"
    by (auto simp: append_commitment_page_def split: option.splits)
  obtain sid key index where s1: "s1 = s\<lparr>commitment_records := commitment_records s @
      [\<lparr>store_id = sid, cr_record_key = key, cr_record_index = index, cr_page_index = 0,
        cr_first_segment = cm_segment_number cm, page_commitments = []\<rparr>]\<rparr>"
    and new: "\<exists>name. create_store io name = Inr (sid, key)"
    by (rule create_record_ok [OF cr [unfolded e]])
  show ?thesis
    by (rule that [OF app]) (use s1 new in \<open>auto simp: last_record_def record_ok_def
      STREAM_COMMITMENT_PAGES_PER_RECORD_def STREAM_COMMITMENTS_PER_PAGE_def\<close>)
qed

lemma commit_front_ok:
  assumes run: "commit_front c io now p (s, d) = (Inr (cm, hint), s', d')"
    and ok: "source_ok s" "pending_segments s = p # ps"
  obtains r1 s1 d1 where "cm = commitment_of (os_previous_commitment_hash s) now p"
    "append_to_page c io (os_descriptor s) cm (s1, d1) = (Inr hint, s1\<lparr>commitment_records :=
       butlast (commitment_records s1) @ [advance_page cm r1]\<rparr>, d')"
    "last_record s1 = Some r1" "record_ok (cm_segment_number cm) r1"
    "cr_page_index r1 < STREAM_COMMITMENT_PAGES_PER_RECORD"
    "(\<exists>r. last_record s = Some r \<and> r1 = r) \<or>
       (\<exists>name. create_store io name = Inr (store_id r1, cr_record_key r1))"
    "s' = s\<lparr>commitment_records := butlast (commitment_records s1) @ [advance_page cm r1],
            pending_segments := ps,
            os_previous_commitment_hash := sha256 c (commitment_bytes c cm)\<rparr>"
proof -
  let ?cm = "commitment_of (os_previous_commitment_hash s) now p"
  obtain h hint' s2 d2 where h: "hash_commitment c ?cm = Inr h"
    and app: "append_commitment_page c io (os_descriptor s) ?cm (s, d) = (Inr hint', s2, d2)"
    and res: "cm = ?cm" "hint = hint'" "d' = d2"
      "s' = s2\<lparr>pending_segments := tl (pending_segments s2), os_previous_commitment_hash := h\<rparr>"
    using run by (auto simp: commit_front_def Let_def split: sum.splits prod.splits)
  obtain r where r: "last_record s = Some r" "record_ok (next_commitment s) r"
    using ok(1) by (auto simp: source_ok_def)
  have num: "cm_segment_number ?cm = next_commitment s"
    using pending_front(1) [OF ok] by (simp add: commitment_of_def)
  obtain r1 s1 d1 where a: "append_to_page c io (os_descriptor s) ?cm (s1, d1) = (Inr hint', s2, d2)"
    "last_record s1 = Some r1" "record_ok (cm_segment_number ?cm) r1"
    "cr_page_index r1 < STREAM_COMMITMENT_PAGES_PER_RECORD"
    "r1 = r \<or> (\<exists>name. create_store io name = Inr (store_id r1, cr_record_key r1))"
    "\<exists>rs. s1 = s\<lparr>commitment_records := rs\<rparr>"
    by (rule append_page_ok [OF app r(1)]) (use r(2) num in simp_all)
  obtain rs where s1: "s1 = s\<lparr>commitment_records := rs\<rparr>" using a(6) by blast
  have s2: "s2 = s1\<lparr>commitment_records := butlast (commitment_records s1) @ [advance_page ?cm r1]\<rparr>"
    using append_to_page_ok [OF a(1,2)] by metis
  have "h = sha256 c (commitment_bytes c ?cm)"
    using h by (auto simp: hash_commitment_def serialize_def split: sum.splits if_splits)
  with a r res s1 s2 ok(2) show ?thesis by (intro that [of s1 d1 r1]) auto
qed

lemma commit_front_source_ok:
  assumes run: "commit_front c io now p (s, d) = (Inr (cm, hint), s', d')"
    and ok: "source_ok s" "pending_segments s = p # ps"
  shows "source_ok s'" "next_commitment s' = Suc (next_commitment s)"
proof -
  obtain r1 and s1 :: outgoing_stream where a: "cm = commitment_of (os_previous_commitment_hash s) now p"
    "record_ok (cm_segment_number cm) r1" "cr_page_index r1 < STREAM_COMMITMENT_PAGES_PER_RECORD"
    "s' = s\<lparr>commitment_records := butlast (commitment_records s1) @ [advance_page cm r1],
            pending_segments := ps,
            os_previous_commitment_hash := sha256 c (commitment_bytes c cm)\<rparr>"
    by (rule commit_front_ok [OF run ok])
  note front = pending_front [OF ok]
  have num: "cm_segment_number cm = next_commitment s" using front(1) by (simp add: a(1) commitment_of_def)
  show succ: "next_commitment s' = Suc (next_commitment s)"
  proof -
    have "length (pending_segments s) \<le> current_segment s" using ok(1) by (simp add: source_ok_def)
    with ok(2) have "Suc (length ps) \<le> current_segment s" by simp
    then show ?thesis using ok(2) by (simp add: a(4) next_commitment_def)
  qed
  have "record_ok (Suc (next_commitment s)) (advance_page cm r1)"
    by (rule advance_page_ok) (use a(2,3) num in simp_all)
  moreover have "map ps_segment_number ps = [Suc (next_commitment s)..<current_segment s]"
    using ok front by (simp add: source_ok_def upt_conv_Cons)
  ultimately show "source_ok s'"
    using ok unfolding source_ok_def succ by (auto simp: a(4) last_record_def)
qed

subsection \<open>The chain of commitments\<close>

fun chained :: "stream_crypto \<Rightarrow> bytes \<Rightarrow> stream_segment_commitment list \<Rightarrow> bool" where
  "chained c prev [] = True"
| "chained c prev (cm # cms) =
     (previous_commitment_hash cm = prev \<and> chained c (sha256 c (commitment_bytes c cm)) cms)"

fun chain_end :: "stream_crypto \<Rightarrow> bytes \<Rightarrow> stream_segment_commitment list \<Rightarrow> bytes" where
  "chain_end c prev [] = prev"
| "chain_end c prev (cm # cms) = chain_end c (sha256 c (commitment_bytes c cm)) cms"

definition committed_in :: "stream_output list \<Rightarrow> stream_segment_commitment list" where
  "committed_in outs =
     List.map_filter (\<lambda>o'. case o' of Emit (SegmentCommitted _ _ cm _) \<Rightarrow> Some cm | _ \<Rightarrow> None) outs"

lemma committed_in_outputs:
  "committed_in (commit_outputs s cm hint @ outs) = cm # committed_in outs"
proof -
  have "committed_in (map (\<lambda>k. Send k (M_CommitmentHint hint)) ks @ xs) = committed_in xs" for ks xs
    by (induction ks) (simp_all add: committed_in_def List.map_filter_simps)
  then show ?thesis by (simp add: commit_outputs_def committed_in_def List.map_filter_simps)
qed

lemma create_record_fields:
  assumes "create_next_commitment_record c io ds first (s, d) = (e, s', d')"
  shows "os_previous_commitment_hash s' = os_previous_commitment_hash s \<and>
    pending_segments s' = pending_segments s"
  using assms
  by (auto simp: create_next_commitment_record_def Let_def
      split: sum.splits prod.splits option.splits)

lemma append_to_page_fields:
  assumes "append_to_page c io ds cm (s, d) = (r, s', d')"
  shows "os_previous_commitment_hash s' = os_previous_commitment_hash s \<and>
    pending_segments s' = pending_segments s"
  using assms
  by (auto simp: append_to_page_def Let_def split: sum.splits prod.splits option.splits)

lemma append_page_fields:
  assumes "append_commitment_page c io ds cm (s, d) = (r, s', d')"
  shows "os_previous_commitment_hash s' = os_previous_commitment_hash s \<and>
    pending_segments s' = pending_segments s"
proof -
  obtain e s1 d1 where cr: "create_next_commitment_record c io ds (cm_segment_number cm) (s, d) = (e, s1, d1)"
    by (cases "create_next_commitment_record c io ds (cm_segment_number cm) (s, d)") auto
  from assms cr consider "s' = s" | "s' = s1" | "append_to_page c io ds cm (s, d) = (r, s', d')"
    | "append_to_page c io ds cm (s1, d1) = (r, s', d')"
    by (auto simp: append_commitment_page_def split: option.splits if_splits)
  then show ?thesis
    by cases (use create_record_fields [OF cr] append_to_page_fields in \<open>auto\<close>)
qed

lemma commit_front_failed:
  assumes "commit_front c io now p (s, d) = (Inl e, s', d')"
  shows "os_previous_commitment_hash s' = os_previous_commitment_hash s \<and>
    pending_segments s' = pending_segments s"
proof -
  let ?cm = "commitment_of (os_previous_commitment_hash s) now p"
  obtain r s1 d1 where app: "append_commitment_page c io (os_descriptor s) ?cm (s, d) = (r, s1, d1)"
    by (cases "append_commitment_page c io (os_descriptor s) ?cm (s, d)") auto
  from assms app have "s' = s \<or> s' = s1"
    by (auto simp: commit_front_def Let_def split: sum.splits)
  then show ?thesis using append_page_fields [OF app] by auto
qed

lemma commit_queue_chain:
  assumes "commit_queue c io now ps prev (s, d) = (r, (s', d'), outs)"
    and "source_ok s" "pending_segments s = ps"
  shows "\<exists>m. pending_segments s' = drop m ps \<and> length (committed_in outs) = min m (length ps) \<and>
    chained c (os_previous_commitment_hash s) (committed_in outs) \<and>
    os_previous_commitment_hash s' = chain_end c (os_previous_commitment_hash s) (committed_in outs) \<and>
    list_all2 (\<lambda>cm p. cm_segment_number cm = ps_segment_number p \<and> cm_sha256 cm = ps_sha256 p \<and>
      cm_packet_count cm = ps_packet_count p) (committed_in outs) (take m ps) \<and>
    ((\<exists>x. r = Inr x) \<longrightarrow> pending_segments s' = [])"
  using assms
proof (induction ps arbitrary: prev s d r outs)
  case Nil
  then show ?case by (intro exI [of _ 0]) (auto simp: committed_in_def List.map_filter_simps)
next
  case (Cons p ps)
  obtain r1 s1 d1 where f: "commit_front c (io (ps_segment_number p)) now p (s, d) = (r1, s1, d1)"
    by (cases "commit_front c (io (ps_segment_number p)) now p (s, d)") auto
  show ?case
  proof (cases r1)
    case (Inl e)
    with Cons.prems(1) f have "s' = s1" "outs = []" "r = Inl e" by auto
    with commit_front_failed [OF f [unfolded Inl]] Cons.prems(3) show ?thesis
      by (intro exI [of _ 0]) (simp add: committed_in_def List.map_filter_simps)
  next
    case (Inr x)
    obtain cm hint where x: "x = (cm, hint)" by (cases x)
    obtain outs1 where q: "commit_queue c io now ps (Some cm) (s1, d1) = (r, (s', d'), outs1)"
      and outs: "outs = commit_outputs s cm hint @ outs1"
      using Cons.prems(1) f Inr x by (auto split: prod.splits)
    note front = f [unfolded Inr x]
    have s1: "source_ok s1" by (rule commit_front_source_ok(1) [OF front Cons.prems(2,3)])
    have fields: "cm = commitment_of (os_previous_commitment_hash s) now p"
      "pending_segments s1 = ps" "os_previous_commitment_hash s1 = sha256 c (commitment_bytes c cm)"
      by (rule commit_front_ok [OF front Cons.prems(2,3)]; simp)+
    from Cons.IH [OF q s1 fields(2)] obtain m where m: "pending_segments s' = drop m ps"
      "length (committed_in outs1) = min m (length ps)"
      "chained c (os_previous_commitment_hash s1) (committed_in outs1)"
      "os_previous_commitment_hash s' = chain_end c (os_previous_commitment_hash s1) (committed_in outs1)"
      "list_all2 (\<lambda>cm p. cm_segment_number cm = ps_segment_number p \<and> cm_sha256 cm = ps_sha256 p \<and>
         cm_packet_count cm = ps_packet_count p) (committed_in outs1) (take m ps)"
      "(\<exists>x. r = Inr x) \<longrightarrow> pending_segments s' = []" by blast
    have "previous_commitment_hash cm = os_previous_commitment_hash s"
      "cm_segment_number cm = ps_segment_number p" "cm_sha256 cm = ps_sha256 p"
      "cm_packet_count cm = ps_packet_count p" by (simp_all add: fields(1) commitment_of_def)
    with m fields(3) show ?thesis
      by (intro exI [of _ "Suc m"]) (simp add: outs committed_in_outputs)
  qed
qed

end
