(* ===== verification/Stream_Tree.thy ===== *)
theory Stream_Tree
  imports Stream_Node
begin

text \<open>
  The relay tree that a source keeps of its viewers: every viewer is the child of exactly its
  parent, relays stay within their capacity, and following parents from any viewer arrives at the
  source. Admission, a failed admission and the departure of a viewer keep all of it.
\<close>

subsection \<open>The tree as a map\<close>

type_synonym participant_map = "record_key \<Rightarrow> participant_state option"

inductive reaches_source :: "record_key \<Rightarrow> participant_map \<Rightarrow> record_key \<Rightarrow> bool"
  for me m where
  direct: "m x = Some p \<Longrightarrow> parent_main_dht p = me \<Longrightarrow> reaches_source me m x"
| relayed: "m x = Some p \<Longrightarrow> reaches_source me m (parent_main_dht p) \<Longrightarrow> reaches_source me m x"

inductive_cases reaches_sourceE: "reaches_source me m x"

definition node_ok :: "participant_map \<Rightarrow> record_key \<Rightarrow> participant_state \<Rightarrow> bool" where
  "node_ok m k p \<longleftrightarrow> distinct (pt_children p) \<and> length (pt_children p) \<le> pt_relay_capacity p \<and>
     pt_relay_capacity p \<le> STREAM_MAX_RELAY_CHILDREN \<and>
     (\<forall>x. x \<in> set (pt_children p) \<longleftrightarrow> (\<exists>q. m x = Some q \<and> parent_main_dht q = k))"

definition tree_map_ok :: "record_key \<Rightarrow> participant_map \<Rightarrow> record_key list \<Rightarrow> bool" where
  "tree_map_ok me m direct \<longleftrightarrow> m me = None \<and> distinct direct \<and>
     (\<forall>x. x \<in> set direct \<longleftrightarrow> (\<exists>p. m x = Some p \<and> parent_main_dht p = me)) \<and>
     (\<forall>k p. m k = Some p \<longrightarrow> node_ok m k p \<and> reaches_source me m k)"

definition tree_ok :: "record_key \<Rightarrow> outgoing_stream \<Rightarrow> bool" where
  "tree_ok me s \<longleftrightarrow> keys_distinct (participants s) \<and>
     length (participants s) \<le> STREAM_MAX_VIEWERS \<and>
     tree_map_ok me (map_of (participants s)) (direct_children s)"

lemma reaches_participant: "reaches_source me m x \<Longrightarrow> m x \<noteq> None"
  by (auto elim: reaches_source.cases)

lemma reaches_mono:
  assumes "reaches_source me m x"
    and "\<And>x p. m x = Some p \<Longrightarrow> \<exists>p'. m' x = Some p' \<and> parent_main_dht p' = parent_main_dht p"
  shows "reaches_source me m' x"
  using assms(1)
proof induction
  case (direct x p)
  with assms(2) [OF direct(1)] show ?case by (auto intro: reaches_source.direct)
next
  case (relayed x p)
  with assms(2) [OF relayed(1)] show ?case by (metis reaches_source.relayed)
qed

lemma parent_known:
  assumes "tree_map_ok me m direct" "m x = Some p" "parent_main_dht p \<noteq> me"
  shows "m (parent_main_dht p) \<noteq> None"
proof -
  have "reaches_source me m x" using assms(1,2) by (simp add: tree_map_ok_def)
  then show ?thesis
    by cases (use assms(2,3) reaches_participant in auto)
qed

subsection \<open>Admission\<close>

lemma choose_parent_cases:
  assumes "choose_parent s me = (parent, d)"
  shows "parent = me \<or> (\<exists>p. (parent, p) \<in> set (participants s) \<and>
    length (pt_children p) mod 2 ^ 16 < pt_relay_capacity p)"
proof -
  let ?cs = "sort (map (\<lambda>(peer, p). (depth p, length (pt_children p), joined_at p, peer))
      (filter (\<lambda>(peer, p). peer \<noteq> [] \<and>
        length (pt_children p) mod 2 ^ 16 < pt_relay_capacity p) (participants s)))"
  show ?thesis
  proof (cases ?cs)
    case Nil
    with assms show ?thesis by (simp add: choose_parent_def choose_parent_excluding_def Let_def)
  next
    case (Cons x xs)
    obtain a b t peer where x: "x = (a, b, t, peer)" by (cases x)
    have "x \<in> set ?cs" using Cons by simp
    then obtain p where "(peer, p) \<in> set (participants s)"
      "length (pt_children p) mod 2 ^ 16 < pt_relay_capacity p" by (auto simp: x)
    moreover have "parent = peer"
      using assms Cons x by (simp add: choose_parent_def choose_parent_excluding_def Let_def)
    ultimately show ?thesis by auto
  qed
qed

text \<open>What admission does to the map.\<close>

definition admit :: "record_key \<Rightarrow> record_key \<Rightarrow> participant_state \<Rightarrow> participant_map \<Rightarrow> participant_map"
  where
  "admit parent viewer new m =
     (m(parent := map_option (\<lambda>p. p\<lparr>pt_children := insert_child viewer (pt_children p)\<rparr>) (m parent)))
       (viewer \<mapsto> new)"

lemma attach_viewer_map:
  assumes "attach_viewer me now viewer capacity s = (parent, s')"
    and "map_of (participants s) me = None"
  obtains d where "choose_parent s me = (parent, d)"
    "map_of (participants s') = admit parent viewer
       \<lparr>parent_main_dht = parent, pt_children = [],
        pt_relay_capacity = min capacity STREAM_MAX_RELAY_CHILDREN, depth = d, joined_at = now\<rparr>
       (map_of (participants s))"
    "direct_children s' =
       (if parent = me then insert_child viewer (direct_children s) else direct_children s)"
proof -
  obtain a d where "choose_parent s me = (a, d)" by (cases "choose_parent s me")
  with assms(1) have d: "choose_parent s me = (parent, d)" by (simp add: attach_viewer_def Let_def)
  show ?thesis
    by (rule that [OF d])
      (use assms d in \<open>auto simp: attach_viewer_def admit_def store_simps Let_def fun_eq_iff
        split: if_splits option.splits\<close>)
qed

lemma admit_ok:
  assumes ok: "tree_map_ok me m direct" and new: "m viewer = None" "viewer \<noteq> me"
    and parent: "parent = me \<or> (\<exists>p. m parent = Some p \<and> length (pt_children p) < pt_relay_capacity p)"
    and st: "parent_main_dht p0 = parent" "pt_children p0 = []"
      "pt_relay_capacity p0 \<le> STREAM_MAX_RELAY_CHILDREN"
  shows "tree_map_ok me (admit parent viewer p0 m)
    (if parent = me then insert_child viewer direct else direct)"
proof -
  let ?m = "admit parent viewer p0 m"
  have pv: "parent \<noteq> viewer" using parent new by auto
  have me: "m me = None" using ok by (simp add: tree_map_ok_def)
  have keep: "\<exists>p'. ?m x = Some p' \<and> parent_main_dht p' = parent_main_dht p" if "m x = Some p" for x p
    using that new(1) pv by (auto simp: admit_def)
  have par: "(\<exists>q. ?m x = Some q \<and> parent_main_dht q = k) \<longleftrightarrow>
      (x = viewer \<and> k = parent \<or> (\<exists>q. m x = Some q \<and> parent_main_dht q = k))" for x k
    using new(1) pv st(1) by (auto simp: admit_def)
  have viewer_orphan: "viewer \<notin> set (pt_children p)" if "m k = Some p" for k p
    using ok that new(1) by (auto simp: tree_map_ok_def node_ok_def)
  have reach: "reaches_source me ?m x" if "m x \<noteq> None" for x
  proof -
    have "reaches_source me m x" using ok that by (auto simp: tree_map_ok_def)
    then show ?thesis by (rule reaches_mono) (rule keep)
  qed
  have "reaches_source me ?m viewer"
  proof (cases "parent = me")
    case True
    then show ?thesis by (intro reaches_source.direct [of _ _ p0]) (simp_all add: admit_def st)
  next
    case False
    with parent have "m parent \<noteq> None" by auto
    from reach [OF this] have "reaches_source me ?m (parent_main_dht p0)" by (simp add: st)
    then show ?thesis by (rule reaches_source.relayed [of _ _ p0, rotated]) (simp add: admit_def)
  qed
  moreover have "node_ok ?m k p" if k: "?m k = Some p" for k p
  proof -
    consider (viewer) "k = viewer" "p = p0" | (parent) p' where "k = parent" "k \<noteq> viewer"
        "m k = Some p'" "p = p'\<lparr>pt_children := insert_child viewer (pt_children p')\<rparr>"
      | (other) "k \<noteq> viewer" "k \<noteq> parent" "m k = Some p"
      using k by (auto simp: admit_def split: if_splits option.splits)
    then show ?thesis
    proof cases
      case viewer
      have "m x \<noteq> Some q \<or> parent_main_dht q \<noteq> viewer" for x q
        using parent_known [OF ok, of x q] new by auto
      then show ?thesis
        using viewer st pv unfolding node_ok_def par by auto
    next
      case parent
      then have n: "node_ok m k p'" using ok by (simp add: tree_map_ok_def)
      have "length (pt_children p') < pt_relay_capacity p'"
        using assms(4) parent(1,3) me by auto
      then show ?thesis
        using n viewer_orphan [OF parent(3)] parent unfolding node_ok_def par
        by (auto simp: insert_child_def)
    next
      case other
      then have "node_ok m k p" using ok by (simp add: tree_map_ok_def)
      then show ?thesis using other unfolding node_ok_def par by auto
    qed
  qed
  moreover have "reaches_source me ?m k" if "?m k = Some p" "k \<noteq> viewer" for k p
    using that by (intro reach) (auto simp: admit_def split: if_splits option.splits)
  ultimately show ?thesis
    using ok new pv me unfolding tree_map_ok_def par
    by (auto simp: admit_def)
qed

subsection \<open>Undoing an admission\<close>

lemma drop_child_map:
  "map_of (participants (drop_child_everywhere k s)) x =
     map_option (\<lambda>p. p\<lparr>pt_children := remove_child k (pt_children p)\<rparr>) (map_of (participants s) x)"
  by (simp add: drop_child_everywhere_def map_of_map_vals)

lemma remove_child_id [simp]: "k \<notin> set ks \<Longrightarrow> remove_child k ks = ks"
  by (simp add: remove_child_def filter_id_conv) blast

lemma same_children [simp]: "pt_children p = ks \<Longrightarrow> p\<lparr>pt_children := ks\<rparr> = p"
  by (cases p) simp

lemma drop_child_id:
  assumes "\<forall>(x, p) \<in> set (participants s). k \<notin> set (pt_children p)"
  shows "drop_child_everywhere k s = s"
proof -
  have "map (\<lambda>(x, p). (x, p\<lparr>pt_children := remove_child k (pt_children p)\<rparr>)) (participants s) =
      participants s"
    using assms by (intro map_idI) auto
  then show ?thesis by (simp add: drop_child_everywhere_def)
qed

lemma delete_update_new: "k \<notin> fst ` set m \<Longrightarrow> AList.delete k (AList.update k v m) = m"
  by (induction m) auto

lemma remove_insert_child: "k \<notin> set ks \<Longrightarrow> remove_child k (insert_child k ks) = ks"
  by (simp add: remove_child_def insert_child_def filter_id_conv) blast

text \<open>A failed admission leaves the stream exactly as it was.\<close>

lemma undo_attach:
  assumes ok: "tree_ok me s" and new: "map_of (participants s) viewer = None"
    and attach: "attach_viewer me now viewer capacity s = (parent, s')"
  shows "undo_acceptance viewer s' = s" and "parent \<noteq> me \<Longrightarrow> undo_assignment viewer s' = s"
proof -
  let ?ps = "participants s"
  have keys: "viewer \<notin> fst ` set ?ps" "keys_distinct ?ps"
    using new ok by (simp_all add: map_of_eq_None_iff tree_ok_def)
  have orphan: "\<forall>(x, p) \<in> set ?ps. viewer \<notin> set (pt_children p)"
    using ok new keys(2) by (auto simp: tree_ok_def tree_map_ok_def node_ok_def in_set_iff_map_of)
  have direct: "viewer \<notin> set (direct_children s)"
    using ok new by (auto simp: tree_ok_def tree_map_ok_def)
  let ?add = "\<lambda>p. p\<lparr>pt_children := insert_child viewer (pt_children p)\<rparr>"
  let ?del = "\<lambda>p. p\<lparr>pt_children := remove_child viewer (pt_children p)\<rparr>"
  obtain a d where "choose_parent s me = (a, d)" by (cases "choose_parent s me")
  with attach have d: "choose_parent s me = (parent, d)" by (simp add: attach_viewer_def Let_def)
  have restored: "map (\<lambda>(x, p). (x, ?del p)) (amodify parent ?add ?ps) = ?ps"
    unfolding amodify_as_map [OF keys(2)] map_map
    by (intro map_idI)
      (use orphan in \<open>auto simp: remove_insert_child split: if_splits\<close>)
  have same: "map (\<lambda>(x, p). (x, ?del p)) ?ps = ?ps"
    by (intro map_idI) (use orphan in auto)
  have new': "viewer \<notin> fst ` set (amodify parent ?add ?ps)" using keys by simp
  show "undo_acceptance viewer s' = s"
    using attach d direct
    by (auto simp: attach_viewer_def undo_acceptance_def drop_child_everywhere_def Let_def
        delete_update_new [OF keys(1)] delete_update_new [OF new'] restored same
        remove_insert_child split: if_splits)
  show "undo_assignment viewer s' = s" if "parent \<noteq> me"
    using attach d that
    by (auto simp: attach_viewer_def undo_assignment_def drop_child_everywhere_def Let_def
        delete_update_new [OF new'] restored)
qed

subsection \<open>Departure\<close>

lemma reassign_children_effect:
  "reassign_children me cs s = (as, s') \<Longrightarrow>
   map_of (participants s') x = (case map_of (participants s) x of None \<Rightarrow> None
     | Some p \<Rightarrow> Some (if x \<in> set cs then p\<lparr>parent_main_dht := me, depth := 1\<rparr> else p)) \<and>
   map fst (participants s') = map fst (participants s) \<and>
   set (direct_children s') = set (direct_children s) \<union>
     {k \<in> set cs. map_of (participants s) k \<noteq> None} \<and>
   (distinct (direct_children s) \<longrightarrow> distinct (direct_children s'))"
proof (induction me cs s arbitrary: as s' rule: reassign_children.induct)
  case (1 me s)
  then show ?case by (simp split: option.split)
next
  case (2 me child cs s)
  show ?case
  proof (cases "map_of (participants s) child = None")
    case True
    with 2(3) have "reassign_children me cs s = (as, s')" by simp
    note IH = 2(1) [OF True this]
    have orphans: "{k \<in> set (child # cs). map_of (participants s) k \<noteq> None} =
        {k \<in> set cs. map_of (participants s) k \<noteq> None}" using True by auto
    have entry: "(case map_of (participants s) x of None \<Rightarrow> None
        | Some p \<Rightarrow> Some (if x \<in> set (child # cs) then p\<lparr>parent_main_dht := me, depth := 1\<rparr> else p)) =
      (case map_of (participants s) x of None \<Rightarrow> None
        | Some p \<Rightarrow> Some (if x \<in> set cs then p\<lparr>parent_main_dht := me, depth := 1\<rparr> else p))"
      using True by (cases "map_of (participants s) x") auto
    show ?thesis unfolding orphans entry by (rule IH)
  next
    case False
    let ?s = "s\<lparr>direct_children := insert_child child (direct_children s),
        participants := amodify child (\<lambda>p. p\<lparr>parent_main_dht := me, depth := 1\<rparr>) (participants s)\<rparr>"
    obtain as' where "reassign_children me cs ?s = (as', s')"
      using 2(3) False by (auto simp: Let_def split: prod.splits)
    from 2(2) [OF False refl this] False show ?thesis
      by (auto simp: store_simps split: option.splits)
  qed
qed

definition depart :: "record_key \<Rightarrow> record_key \<Rightarrow> participant_map \<Rightarrow> participant_map" where
  "depart me viewer m x =
    (if x = viewer then None
     else case m x of None \<Rightarrow> None
     | Some p \<Rightarrow>
        (let p = p\<lparr>pt_children := remove_child viewer (pt_children p)\<rparr>
         in Some (if parent_main_dht p = viewer then p\<lparr>parent_main_dht := me, depth := 1\<rparr> else p)))"

lemma depart_ok:
  assumes ok: "tree_map_ok me m direct" and viewer: "m viewer = Some v"
    and direct: "\<forall>x. x \<in> set direct' \<longleftrightarrow> x \<noteq> viewer \<and>
      (x \<in> set direct \<or> (\<exists>q. m x = Some q \<and> parent_main_dht q = viewer))" "distinct direct'"
  shows "tree_map_ok me (depart me viewer m) direct'"
proof -
  let ?m = "depart me viewer m"
  have me: "m me = None" "viewer \<noteq> me" using ok viewer by (auto simp: tree_map_ok_def)
  have par: "(\<exists>q. ?m x = Some q \<and> parent_main_dht q = k) \<longleftrightarrow> x \<noteq> viewer \<and>
      (\<exists>q. m x = Some q \<and> (parent_main_dht q = k \<and> k \<noteq> viewer \<or>
         parent_main_dht q = viewer \<and> k = me))" for x k
    using me(2) by (auto simp: depart_def Let_def split: option.splits)
  have reach: "reaches_source me ?m x" if "reaches_source me m x" "x \<noteq> viewer" for x
    using that
  proof induction
    case (direct x p)
    then show ?case using me(2)
      by (intro reaches_source.direct [where p = "p\<lparr>pt_children := remove_child viewer (pt_children p)\<rparr>"])
        (auto simp: depart_def Let_def)
  next
    case (relayed x p)
    show ?case
    proof (cases "parent_main_dht p = viewer")
      case True
      with relayed show ?thesis by (intro reaches_source.direct) (auto simp: depart_def Let_def)
    next
      case False
      with relayed have "reaches_source me ?m (parent_main_dht p)" by simp
      then show ?thesis using relayed False
        by - (rule reaches_source.relayed [where p = "p\<lparr>pt_children := remove_child viewer (pt_children p)\<rparr>"],
          simp_all add: depart_def Let_def)
    qed
  qed
  have node: "node_ok ?m k p" "reaches_source me ?m k" if k: "?m k = Some p" for k p
  proof -
    obtain q where q: "k \<noteq> viewer" "m k = Some q"
      "pt_children p = remove_child viewer (pt_children q)"
      "pt_relay_capacity p = pt_relay_capacity q"
      using k by (auto simp: depart_def Let_def split: if_splits option.splits)
    with ok have "node_ok m k q" "reaches_source me m k" by (auto simp: tree_map_ok_def)
    moreover have "k \<noteq> me" using q(2) me(1) by auto
    ultimately show "node_ok ?m k p" "reaches_source me ?m k"
      using q reach length_remove_child [of viewer "pt_children q"]
      unfolding node_ok_def par by auto
  qed
  have "x \<in> set direct' \<longleftrightarrow> (\<exists>p. ?m x = Some p \<and> parent_main_dht p = me)" for x
    unfolding par using direct(1) ok me by (auto simp: tree_map_ok_def)
  with node direct(2) me(1) show ?thesis unfolding tree_map_ok_def
    by (auto simp: depart_def)
qed

lemma remove_participant_ok:
  assumes ok: "tree_ok me s" and viewer: "map_of (participants s) viewer = Some v"
    and run: "remove_participant_and_reassign me viewer s = (as, s')"
  shows "tree_ok me s'" and "length (participants s') < length (participants s)"
proof -
  let ?s = "drop_child_everywhere viewer (s\<lparr>participants := AList.delete viewer (participants s),
      direct_children := remove_child viewer (direct_children s)\<rparr>)"
  note eff = reassign_children_effect [of me "pt_children v" ?s as s']
  have run': "reassign_children me (pt_children v) ?s = (as, s')"
    using run viewer by (simp add: remove_participant_and_reassign_def)
  have children: "x \<in> set (pt_children v) \<longleftrightarrow>
      (\<exists>q. map_of (participants s) x = Some q \<and> parent_main_dht q = viewer)" for x
    using ok viewer by (auto simp: tree_ok_def tree_map_ok_def node_ok_def)
  have m: "map_of (participants s') = depart me viewer (map_of (participants s))"
  proof
    fix x
    show "map_of (participants s') x = depart me viewer (map_of (participants s)) x"
      using eff [OF run', THEN conjunct1, of x] children [of x]
      by (auto simp: drop_child_map depart_def store_simps Let_def split: option.splits)
  qed
  have ks: "map fst (participants s') = map fst (AList.delete viewer (participants s))"
    using eff [OF run'] by (simp add: drop_child_everywhere_def comp_def case_prod_beta)
  have len: "length (participants s') = length (AList.delete viewer (participants s))"
    using arg_cong [OF ks, of length] by simp
  have "(viewer, v) \<in> set (participants s)" using viewer by (rule map_of_SomeD)
  then show less: "length (participants s') < length (participants s)"
    unfolding len AList.delete_eq by (intro length_filter_less) auto
  have "keys_distinct (participants s')"
    using ok ks keys_distinct_delete [of "participants s" viewer]
    by (simp add: tree_ok_def keys_distinct_def)
  moreover have "tree_map_ok me (map_of (participants s')) (direct_children s')"
    unfolding m
  proof (rule depart_ok [where m = "map_of (participants s)" and viewer = viewer, OF _ viewer])
    show tok: "tree_map_ok me (map_of (participants s)) (direct_children s)"
      using ok by (simp add: tree_ok_def)
    have d: "set (direct_children s') = set (direct_children ?s) \<union>
        {k \<in> set (pt_children v). map_of (participants ?s) k \<noteq> None}"
      using eff [OF run'] by blast
    show "\<forall>x. x \<in> set (direct_children s') \<longleftrightarrow> x \<noteq> viewer \<and> (x \<in> set (direct_children s) \<or>
        (\<exists>q. map_of (participants s) x = Some q \<and> parent_main_dht q = viewer))"
      unfolding d
      by (auto simp: drop_child_map store_simps children) (auto simp: drop_child_everywhere_def)
    show "distinct (direct_children s')"
      using eff [OF run'] tok by (simp add: tree_map_ok_def drop_child_everywhere_def)
  qed
  ultimately show "tree_ok me s'" using ok less by (simp add: tree_ok_def)
qed

end
