(* ===== verification/Stream_Topology.thy ===== *)
theory Stream_Topology
  imports Stream_Tree
begin

text \<open>
  The relay trees of all streams of a node are kept by every call and message it handles, and an
  admission that fails leaves the node exactly as it was.
\<close>

definition streams_ok :: "record_key \<Rightarrow> stream_state \<Rightarrow> bool" where
  "streams_ok me st \<longleftrightarrow> keys_distinct (outgoing st) \<and> (\<forall>(k, s) \<in> set (outgoing st). tree_ok me s)"

lemma in_set_update: "x \<in> set (AList.update k v m) \<Longrightarrow> x = (k, v) \<or> x \<in> set m"
  by (induction m) (auto split: if_splits)

lemma streams_ok_set: "streams_ok me st \<Longrightarrow> tree_ok me s \<Longrightarrow> streams_ok me (set_outgoing k s st)"
  by (auto simp: streams_ok_def set_outgoing_def dest!: in_set_update)

lemma streams_ok_get: "streams_ok me st \<Longrightarrow> map_of (outgoing st) k = Some s \<Longrightarrow> tree_ok me s"
  by (auto simp: streams_ok_def dest: map_of_SomeD)

lemma streams_ok_incoming [simp]:
  "streams_ok me (set_incoming k s st) = streams_ok me st"
  "streams_ok me (remove_incoming k st) = streams_ok me st"
  by (simp_all add: streams_ok_def set_incoming_def remove_incoming_def)

lemma set_outgoing_same: "map_of (outgoing st) k = Some s \<Longrightarrow> set_outgoing k s st = st"
  by (simp add: set_outgoing_def update_triv)

lemma set_outgoing_twice: "set_outgoing k s (set_outgoing k s' st) = set_outgoing k s st"
  by (simp add: set_outgoing_def)

subsection \<open>Writing and publishing keep the tree\<close>

definition same_tree :: "outgoing_stream \<Rightarrow> outgoing_stream \<Rightarrow> bool" where
  "same_tree s s' \<longleftrightarrow> participants s' = participants s \<and> direct_children s' = direct_children s"

lemma same_tree_refl [simp]: "same_tree s s"
  by (simp add: same_tree_def)

lemma same_tree_trans: "same_tree s s' \<Longrightarrow> same_tree s' s'' \<Longrightarrow> same_tree s s''"
  by (simp add: same_tree_def)

lemma same_tree_ok: "same_tree s s' \<Longrightarrow> tree_ok me s \<Longrightarrow> tree_ok me s'"
  by (simp add: same_tree_def tree_ok_def)

lemma seal_same_tree: "same_tree s (snd (seal_current_segment c s))"
  by (simp add: same_tree_def seal_current_segment_def split: list.split)

lemma write_packet_same_tree: "write_packet c app k chunk s = Inr (p, s') \<Longrightarrow> same_tree s s'"
  using seal_same_tree
  by (auto simp: write_packet_def same_tree_def Let_def split: if_splits)

lemma write_chunks_same_tree: "write_chunks c app k cs s = (e, s', outs) \<Longrightarrow> same_tree s s'"
  by (induction cs arbitrary: s e s' outs)
    (auto split: sum.splits prod.splits dest!: write_packet_same_tree intro: same_tree_trans)

lemma write_stream_ok:
  assumes "streams_ok me st" "write_stream c app k data st = (r, st', outs)"
  shows "streams_ok me st'"
proof (cases "map_of (outgoing st) k")
  case None
  with assms show ?thesis by (auto simp: write_stream_def split: option.splits if_splits)
next
  case (Some s)
  obtain e s' outs' where w: "write_chunks c app k (chunks STREAM_PACKET_BYTES data) s = (e, s', outs')"
    by (cases "write_chunks c app k (chunks STREAM_PACKET_BYTES data) s") auto
  have "st' = st \<or> st' = set_outgoing k s' st"
    using assms(2) Some w
    by (auto simp: write_stream_def set_outgoing_def Let_def split: option.splits if_splits)
  with assms(1) streams_ok_set same_tree_ok [OF write_chunks_same_tree [OF w] streams_ok_get [OF assms(1) Some]]
  show ?thesis by auto
qed

lemma create_record_same_tree:
  "create_next_commitment_record c io ds first (s, d) = (e, s', d') \<Longrightarrow> same_tree s s'"
  by (auto simp: create_next_commitment_record_def same_tree_def Let_def
      split: option.splits sum.splits prod.splits)

lemma append_to_page_same_tree: "append_to_page c io ds cm (s, d) = (r, s', d') \<Longrightarrow> same_tree s s'"
  by (auto simp: append_to_page_def same_tree_def Let_def
      split: option.splits sum.splits prod.splits)

lemma append_page_same_tree:
  "append_commitment_page c io ds cm (s, d) = (r, s', d') \<Longrightarrow> same_tree s s'"
  by (auto simp: append_commitment_page_def split: option.splits prod.splits if_splits
      dest!: create_record_same_tree append_to_page_same_tree intro: same_tree_trans)

lemma commit_front_same_tree: "commit_front c io now p (s, d) = (r, s', d') \<Longrightarrow> same_tree s s'"
  by (auto simp: commit_front_def Let_def split: sum.splits prod.splits
      dest!: append_page_same_tree) (auto simp: same_tree_def)

lemma commit_queue_same_tree:
  "commit_queue c io now ps prev (s, d) = (r, (s', d'), outs) \<Longrightarrow> same_tree s s'"
proof (induction ps arbitrary: prev s d r s' d' outs)
  case (Cons p ps)
  obtain r1 s1 d1 where f: "commit_front c (io (ps_segment_number p)) now p (s, d) = (r1, s1, d1)"
    by (cases "commit_front c (io (ps_segment_number p)) now p (s, d)") auto
  show ?case
  proof (cases r1)
    case (Inl e)
    with Cons.prems f show ?thesis by (auto dest: commit_front_same_tree)
  next
    case (Inr x)
    with Cons.prems f obtain prev' r2 outs2 where "commit_queue c io now ps prev' (s1, d1) = (r2, (s', d'), outs2)"
      by (auto split: prod.splits)
    from same_tree_trans [OF commit_front_same_tree [OF f] Cons.IH [OF this]] show ?thesis .
  qed
qed simp

lemma commit_pending_ok:
  assumes "streams_ok me st" "commit_pending_segments c io now k (st, d) = (r, (st', d'), outs)"
  shows "streams_ok me st'"
proof (cases "map_of (outgoing st) k")
  case None
  with assms show ?thesis by (simp add: commit_pending_segments_def)
next
  case (Some s)
  obtain r1 s1 d1 outs1 where q: "commit_queue c io now (pending_segments s) None (s, d) = (r1, (s1, d1), outs1)"
    by (cases "commit_queue c io now (pending_segments s) None (s, d)") auto
  with assms(2) Some have "st' = set_outgoing k s1 st" by (simp add: commit_pending_segments_def)
  with assms(1) streams_ok_set same_tree_ok [OF commit_queue_same_tree [OF q] streams_ok_get [OF assms(1) Some]]
  show ?thesis by simp
qed

lemma flush_stream_ok:
  assumes "streams_ok me st" "flush_stream c io now app k (st, d) = (r, (st', d'), outs)"
  shows "streams_ok me st'"
proof -
  have "streams_ok me (set_outgoing k (snd (seal_current_segment c s)) st)"
    if "map_of (outgoing st) k = Some s" for s
    using that assms(1) by (intro streams_ok_set same_tree_ok [OF seal_same_tree] streams_ok_get)
  with assms show ?thesis
    by (auto simp: flush_stream_def split: option.splits if_splits intro: commit_pending_ok)
qed

lemma close_stream_ok:
  assumes "streams_ok me st" "close_stream c now app k reason st = (e, st', outs)"
  shows "streams_ok me st'"
proof -
  have "streams_ok me (set_outgoing k (snd (seal_current_segment c
      (s\<lparr>os_running := False, os_closed_at := Some now\<rparr>))) st)"
    if "map_of (outgoing st) k = Some s" for s
  proof (intro streams_ok_set same_tree_ok [OF seal_same_tree] assms(1))
    show "tree_ok me (s\<lparr>os_running := False, os_closed_at := Some now\<rparr>)"
      by (rule same_tree_ok [of s]) (use that assms(1) streams_ok_get in \<open>auto simp: same_tree_def\<close>)
  qed
  with assms show ?thesis by (auto simp: close_stream_def split: option.splits if_splits)
qed

lemma empty_tree_ok: "participants s = [] \<Longrightarrow> direct_children s = [] \<Longrightarrow> tree_ok me s"
  by (simp add: tree_ok_def tree_map_ok_def)

lemma start_stream_ok:
  assumes "streams_ok me st" "start_stream c io me app k now metadata (st, d) = (r, (st', d'), outs)"
  shows "streams_ok me st'"
  using assms by (auto simp: start_stream_def Let_def intro!: streams_ok_set empty_tree_ok
      split: sum.splits prod.splits option.splits if_splits)

subsection \<open>Joining and leaving\<close>

lemma notify_admission_state:
  assumes "notify_admission c net me ds viewer parent existing s st = (e, st', outs)"
  shows "e = None \<and> st' = st \<or> e \<noteq> None \<and> (st' = st \<and> existing \<or>
    \<not> existing \<and> (st' = set_outgoing (sd_stream_id ds) (undo_acceptance viewer s) st \<or>
      parent \<noteq> me \<and> st' = set_outgoing (sd_stream_id ds) (undo_assignment viewer s) st))"
  using assms by (auto simp: notify_admission_def Let_def split: option.splits if_splits)

lemma attach_viewer_ok:
  assumes ok: "tree_ok me s" and new: "map_of (participants s) viewer = None" "viewer \<noteq> me"
    and room: "length (participants s) < STREAM_MAX_VIEWERS"
    and attach: "attach_viewer me now viewer capacity s = (parent, s')"
  shows "tree_ok me s'"
proof -
  let ?m = "map_of (participants s)"
  have tok: "tree_map_ok me ?m (direct_children s)" and keys: "keys_distinct (participants s)"
    using ok by (simp_all add: tree_ok_def)
  then have me: "?m me = None" by (simp add: tree_map_ok_def)
  obtain d where d: "choose_parent s me = (parent, d)"
    and m: "map_of (participants s') = admit parent viewer
       \<lparr>parent_main_dht = parent, pt_children = [],
        pt_relay_capacity = min capacity STREAM_MAX_RELAY_CHILDREN, depth = d, joined_at = now\<rparr> ?m"
    and direct: "direct_children s' =
       (if parent = me then insert_child viewer (direct_children s) else direct_children s)"
    using attach_viewer_map [OF attach me] by metis
  have "parent = me \<or> (\<exists>p. ?m parent = Some p \<and> length (pt_children p) < pt_relay_capacity p)"
  proof -
    have "length (pt_children p) < pt_relay_capacity p"
      if "(parent, p) \<in> set (participants s)" "length (pt_children p) mod 2 ^ 16 < pt_relay_capacity p"
      for p
    proof -
      have "?m parent = Some p" using that(1) keys by (simp add: in_set_iff_map_of)
      then have "length (pt_children p) \<le> STREAM_MAX_RELAY_CHILDREN"
        using tok by (force simp: tree_map_ok_def node_ok_def)
      with that(2) show ?thesis by (simp add: STREAM_MAX_RELAY_CHILDREN_def)
    qed
    with choose_parent_cases [OF d] keys show ?thesis by (auto simp: in_set_iff_map_of)
  qed
  from admit_ok [OF tok new this, of "\<lparr>parent_main_dht = parent, pt_children = [],
      pt_relay_capacity = min capacity STREAM_MAX_RELAY_CHILDREN, depth = d, joined_at = now\<rparr>"]
  have "tree_map_ok me (map_of (participants s')) (direct_children s')"
    unfolding m direct by simp
  moreover have "keys_distinct (participants s')" "length (participants s') \<le> STREAM_MAX_VIEWERS"
  proof -
    have upd: "length (AList.update k v xs) \<le> Suc (length xs)" for k v
      and xs :: "(record_key \<times> participant_state) list" by (induction xs) auto
    have same: "length (amodify k f xs) = length xs" for k f
      and xs :: "(record_key \<times> participant_state) list"
      by (metis keys_amodify length_map)
    show "keys_distinct (participants s')"
      using attach keys by (auto simp: attach_viewer_def Let_def split: prod.splits if_splits)
    have upd': "length (AList.update k v xs) \<le> STREAM_MAX_VIEWERS"
      if "length xs = length (participants s)" for k v
        and xs :: "(record_key \<times> participant_state) list"
      using upd [of k v xs] that room by linarith
    show "length (participants s') \<le> STREAM_MAX_VIEWERS"
      using attach by (auto simp: attach_viewer_def Let_def same upd' split: prod.splits if_splits)
  qed
  ultimately show ?thesis by (simp add: tree_ok_def)
qed

lemma handle_join_ok:
  assumes ok: "streams_ok me st" and sender: "sender \<noteq> me"
    and run: "handle_join_request c net me now sender ds viewer capacity requested st = (e, st', outs)"
  shows "streams_ok me st' \<and> (e \<noteq> None \<longrightarrow> st' = st)"
proof -
  consider "st' = st"
    | (admitted) s parent s' where "map_of (outgoing st) (sd_stream_id ds) = Some s"
        "sender = viewer" "map_of (participants s) viewer = None"
        "length (participants s) < STREAM_MAX_VIEWERS"
        "attach_viewer me now viewer capacity s = (parent, s')"
        "notify_admission c net me ds viewer parent False s'
           (set_outgoing (sd_stream_id ds) s' st) = (e, st', outs)"
    using run
    by (auto simp: handle_join_request_def not_le split: if_splits option.splits prod.splits
        dest: notify_admission_state)
  then show ?thesis
  proof cases
    case 1
    with ok show ?thesis by simp
  next
    case admitted
    have tree: "tree_ok me s" using ok admitted(1) by (rule streams_ok_get)
    note undo = undo_attach [OF tree admitted(3,5)]
    note att = attach_viewer_ok [OF tree admitted(3) _ admitted(4,5)]
    from notify_admission_state [OF admitted(6)] show ?thesis
      using ok att sender admitted(2) undo set_outgoing_same [OF admitted(1)] streams_ok_set
      by (auto simp: set_outgoing_twice)
  qed
qed

lemma handle_leave_ok:
  assumes ok: "streams_ok me st" and run: "handle_leave me sender k gen viewer st = (e, st', outs)"
  shows "streams_ok me st'"
proof -
  have "streams_ok me (set_outgoing k s' st)"
    if "map_of (outgoing st) k = Some s" "map_of (participants s) viewer = Some v"
      "remove_participant_and_reassign me viewer s = (as, s')" for s v as s'
    using remove_participant_ok(1) [OF streams_ok_get [OF ok that(1)] that(2,3)] ok
    by (rule streams_ok_set [rotated])
  with run ok show ?thesis
    by (auto simp: handle_leave_def source_leave_def relay_leave_def Let_def
        split: option.splits if_splits prod.splits)
qed

subsection \<open>Every step\<close>

lemma streams_ok_expire:
  assumes "streams_ok me st"
  shows "streams_ok me (expire_closed_streams now st)"
proof -
  have tree: "tree_ok me (expire_outgoing now s)" if "tree_ok me s" for s
  proof -
    have "same_tree s (expire_outgoing now s) \<or>
        participants (expire_outgoing now s) = [] \<and> direct_children (expire_outgoing now s) = []"
      by (simp add: expire_outgoing_def same_tree_def Let_def)
    with that show ?thesis by (auto intro: empty_tree_ok same_tree_ok)
  qed
  have "keys_distinct (map (\<lambda>(k, s). (k, expire_outgoing now s)) (outgoing st))"
    unfolding keys_distinct_def keys_map_vals
    using assms by (simp add: streams_ok_def keys_distinct_def)
  then have "keys_distinct (outgoing (expire_closed_streams now st))"
    by (simp add: expire_closed_streams_def)
  moreover have "tree_ok me s" if "(k, s) \<in> set (outgoing (expire_closed_streams now st))" for k s
    using that assms tree by (auto simp: expire_closed_streams_def streams_ok_def)
  ultimately show ?thesis by (auto simp: streams_ok_def)
qed

lemma try_verify_outgoing:
  "try_verify_received_segment c net reads now k n st = (e, st', outs) \<Longrightarrow> outgoing st' = outgoing st"
  by (auto simp: try_verify_received_segment_def request_missing_def set_incoming_def Let_def
      split: option.splits sum.splits if_splits bool.splits)

lemma verify_ready_outgoing:
  "verify_ready_segments c net reads now st = (st', outs) \<Longrightarrow> outgoing st' = outgoing st"
proof -
  let ?f = "\<lambda>(st, outs) (k, n). case try_verify_received_segment c net reads now k n st of
      (_, st', outs') \<Rightarrow> (st', outs @ outs')"
  have "foldl ?f (st, outs) xs = (st', outs'') \<Longrightarrow> outgoing st' = outgoing st" for st outs xs st' outs''
  proof (induction xs arbitrary: st outs)
    case (Cons x xs)
    obtain k n where x: "x = (k, n)" by (cases x)
    obtain e1 st1 outs1 where v: "try_verify_received_segment c net reads now k n st = (e1, st1, outs1)"
      by (cases "try_verify_received_segment c net reads now k n st") auto
    from Cons.prems have "foldl ?f (st1, outs @ outs1) xs = (st', outs'')" by (simp add: x v)
    from Cons.IH [OF this] try_verify_outgoing [OF v] show ?case by simp
  qed simp
  then show "verify_ready_segments c net reads now st = (st', outs) \<Longrightarrow> outgoing st' = outgoing st"
    by (simp add: verify_ready_segments_def)
qed

lemma streams_ok_outgoing: "outgoing st' = outgoing st \<Longrightarrow> streams_ok me st \<Longrightarrow> streams_ok me st'"
  by (simp add: streams_ok_def)

lemma message_outgoing:
  "join_stream c me now app ds cap st = (e, st', outs) \<Longrightarrow> outgoing st' = outgoing st"
  "join_send_failed k reason st = (st', outs) \<Longrightarrow> outgoing st' = outgoing st"
  "leave_stream c me app k st = (e, st', outs) \<Longrightarrow> outgoing st' = outgoing st"
  "handle_join_accepted c sender ds parent standby sq sg st = (e, st', outs) \<Longrightarrow>
    outgoing st' = outgoing st"
  "handle_join_rejected c sender k gen reason st = (e, st', outs) \<Longrightarrow> outgoing st' = outgoing st"
  "handle_assign_child sender k gen child st = (e, st', outs) \<Longrightarrow> outgoing st' = outgoing st"
  "handle_parent_assignment sender k gen parent standby st = (e, st', outs) \<Longrightarrow>
    outgoing st' = outgoing st"
  "handle_packet sender p st = (e, st', outs) \<Longrightarrow> outgoing st' = outgoing st"
  "handle_commitment_hint sender h st = (e, st', outs) \<Longrightarrow> outgoing st' = outgoing st"
  "handle_end c now sender k gen reason st = (e, st', outs) \<Longrightarrow> outgoing st' = outgoing st"
  "expire_pending_joins now st = (st', outs) \<Longrightarrow> outgoing st' = outgoing st"
  by (auto simp: join_stream_def join_send_failed_def leave_stream_def handle_join_accepted_def
      handle_join_rejected_def handle_assign_child_def handle_parent_assignment_def
      handle_packet_def handle_commitment_hint_def handle_end_def expire_pending_joins_def
      set_incoming_def remove_incoming_def Let_def split: option.splits if_splits)

lemma process_direct_message_ok:
  assumes "streams_ok me st" "sender \<noteq> me"
    and "process_direct_message c net me now sender m st = (e, st', outs)"
  shows "streams_ok me st'"
  using assms
  by (cases m) (auto simp: process_direct_message_def split: prod.splits option.splits
      dest: message_outgoing intro: streams_ok_outgoing handle_leave_ok handle_join_ok [THEN conjunct1])

definition external_call :: "record_key \<Rightarrow> stream_call \<Rightarrow> bool" where
  "external_call me call = (case call of Direct_Message _ sender _ \<Rightarrow> sender \<noteq> me | _ \<Rightarrow> True)"

lemma stream_step_ok:
  assumes "streams_ok me st" "external_call me call"
    and "stream_step c me env call (st, d) = ((st', d'), outs)"
  shows "streams_ok me st'"
  using assms
  by (cases call) (auto simp: external_call_def split: prod.splits
      dest: message_outgoing try_verify_outgoing verify_ready_outgoing
      intro: streams_ok_outgoing write_stream_ok flush_stream_ok close_stream_ok start_stream_ok
        commit_pending_ok process_direct_message_ok streams_ok_expire)

lemma stream_run_ok:
  "streams_ok me (fst sd) \<Longrightarrow> list_all (external_call me \<circ> snd) calls \<Longrightarrow>
   streams_ok me (fst (stream_run c me calls sd))"
proof (induction c me calls sd rule: stream_run.induct)
  case (2 c me env call calls sd)
  obtain st d where sd: "sd = (st, d)" by (cases sd)
  obtain st' d' outs where step: "stream_step c me env call (st, d) = ((st', d'), outs)"
    by (metis prod.exhaust)
  have "streams_ok me st'" by (rule stream_step_ok [OF _ _ step]) (use 2(2,3) sd in auto)
  with 2(1) 2(3) step sd show ?case by simp
qed simp

text \<open>
  The limit on viewers is tested before the participants are looked up: a viewer that is already
  admitted and asks again (its acceptance may have been lost) is refused when the stream is full.\<close>

lemma readmission_refused_when_full:
  assumes "map_of (outgoing st) (sd_stream_id ds) = Some s" "map_of (participants s) viewer = Some p"
    and "STREAM_MAX_VIEWERS \<le> length (participants s)" "os_running s"
      "sd_generation (os_descriptor s) = sd_generation ds" "verify_descriptor c ds = None"
      "streamer_main_dht ds = me" "requested_at = now" "now \<le> u64_max"
  shows "handle_join_request c net me now viewer ds viewer capacity requested_at st =
    (Some ViewerLimitReached, st, [])"
  using assms by (auto simp: handle_join_request_def sat_add_def)

text \<open>The limit on the direct children of the source never decides anything.\<close>

lemma source_children_limit_unused:
  "choose_parent (s\<lparr>direct_children := ks\<rparr>) me = choose_parent s me"
  by (simp add: choose_parent_def choose_parent_excluding_def Let_def split: list.split prod.split)

end
