(* ===== verification/Stream_Origin.thy ===== *)
theory Stream_Origin
  imports Stream_Cut Stream_Topology
begin

text \<open>
  The shape of every stream that a node is the source of, over any run of its calls: segments are
  numbered without gaps, the pending ones are exactly those not yet committed, and there is a
  record with room for the next commitment. The counters grow by at most one per packet, so they
  stay far from their 64-bit limit.
\<close>

text \<open>Packets that one call can add.\<close>

definition MAX_CALL_PACKETS :: nat where "MAX_CALL_PACKETS = STREAM_MAX_WRITE_BYTES"

definition source_bounded :: "nat \<Rightarrow> outgoing_stream \<Rightarrow> bool" where
  "source_bounded b s \<longleftrightarrow> source_ok s \<and> current_segment s \<le> b \<and> next_sequence s \<le> b"

definition sources_ok :: "nat \<Rightarrow> stream_state \<Rightarrow> bool" where
  "sources_ok b st \<longleftrightarrow> (\<forall>(k, s) \<in> set (outgoing st). source_bounded b s)"

lemma sources_ok_get: "sources_ok b st \<Longrightarrow> map_of (outgoing st) k = Some s \<Longrightarrow> source_bounded b s"
  by (auto simp: sources_ok_def dest: map_of_SomeD)

lemma sources_ok_set:
  "sources_ok b st \<Longrightarrow> source_bounded b s \<Longrightarrow> sources_ok b (set_outgoing k s st)"
  by (auto simp: sources_ok_def set_outgoing_def dest!: in_set_update)

lemma source_bounded_mono: "source_bounded b s \<Longrightarrow> b \<le> b' \<Longrightarrow> source_bounded b' s"
  by (auto simp: source_bounded_def)

lemma sources_ok_mono: "sources_ok b st \<Longrightarrow> b \<le> b' \<Longrightarrow> sources_ok b' st"
  by (auto simp: sources_ok_def intro: source_bounded_mono)

lemma sources_ok_outgoing: "outgoing st' = outgoing st \<Longrightarrow> sources_ok b st \<Longrightarrow> sources_ok b st'"
  by (simp add: sources_ok_def)

text \<open>Changes of a source that are not about its packets.\<close>

definition same_feed :: "outgoing_stream \<Rightarrow> outgoing_stream \<Rightarrow> bool" where
  "same_feed s s' \<longleftrightarrow> current_segment s' = current_segment s \<and>
     pending_segments s' = pending_segments s \<and> next_sequence s' = next_sequence s \<and>
     commitment_records s' = commitment_records s \<and>
     (current_packets s' = current_packets s \<or> current_packets s' = [])"

lemma same_feed_bounded:
  assumes "source_bounded b s" "same_feed s s'"
  shows "source_bounded b s'"
proof -
  have "next_commitment s' = next_commitment s" "last_record s' = last_record s"
    using assms(2) by (simp_all add: same_feed_def next_commitment_def last_record_def)
  with assms show ?thesis
    by (auto simp: source_bounded_def source_ok_def same_feed_def STREAM_PACKETS_PER_SEGMENT_def)
qed

lemma seal_bounded:
  assumes "source_bounded b s" "b < u64_max"
  shows "source_bounded (Suc b) (snd (seal_current_segment c s))"
proof -
  have "source_ok (snd (seal_current_segment c s))"
    by (rule seal_source_ok) (use assms in \<open>auto simp: source_bounded_def\<close>)
  then show ?thesis
    using assms by (auto simp: source_bounded_def seal_current_segment_def sat_add_def split: list.splits)
qed

lemma length_chunks: "length (chunks n xs) \<le> length xs"
proof (induction n xs rule: chunks.induct)
  case (1 n xs)
  show ?case
  proof (cases "xs = [] \<or> n = 0")
    case True
    then show ?thesis by (subst chunks.simps) auto
  next
    case False
    have "length (chunks n (drop n xs)) \<le> length (drop n xs)" using 1 False by blast
    then have "Suc (length (chunks n (drop n xs))) \<le> length xs"
      using False by (cases xs; cases n) auto
    then show ?thesis using False by (subst chunks.simps) simp
  qed
qed

lemma write_chunks_bounded:
  "write_chunks c app k cs s = (e, s', outs) \<Longrightarrow> source_bounded b s \<Longrightarrow>
   b + length cs \<le> u64_max \<Longrightarrow> \<forall>x \<in> set cs. x \<noteq> [] \<and> length x \<le> STREAM_PACKET_BYTES \<Longrightarrow>
   source_bounded (b + length cs) s'"
proof (induction cs arbitrary: s e outs b)
  case (Cons x cs)
  show ?case
  proof (cases "write_packet c app k x s")
    case (Inl a)
    with Cons.prems show ?thesis by (auto intro: source_bounded_mono)
  next
    case (Inr r)
    obtain p s1 where w: "write_packet c app k x s = Inr (p, s1)" using Inr by (cases r) auto
    obtain e1 outs1 where rest: "write_chunks c app k cs s1 = (e1, s', outs1)"
      using Cons.prems(1) w by (auto split: prod.splits)
    have "source_ok s" "current_segment s < u64_max" "x \<noteq> []" "length x \<le> STREAM_PACKET_BYTES"
      using Cons.prems by (auto simp: source_bounded_def)
    note one = write_packet_ok [OF this w]
    have "source_bounded (Suc b) s1"
      using one(1,3,6) Cons.prems(2) by (auto simp: source_bounded_def sat_add_def)
    from Cons.IH [OF rest this] Cons.prems(3,4) show ?thesis by simp
  qed
qed simp

lemma write_stream_sources:
  assumes ok: "sources_ok b st" "b + MAX_CALL_PACKETS \<le> u64_max"
    and run: "write_stream c app k data st = (r, st', outs)"
  shows "sources_ok (b + MAX_CALL_PACKETS) st'"
proof -
  have same: "sources_ok (b + MAX_CALL_PACKETS) st" by (rule sources_ok_mono [OF ok(1)]) simp
  show ?thesis
  proof (cases "map_of (outgoing st) k")
    case None
    with run same show ?thesis by (auto simp: write_stream_def split: option.splits if_splits)
  next
    case (Some s)
    let ?cs = "chunks STREAM_PACKET_BYTES data"
    obtain e s' outs' where w: "write_chunks c app k ?cs s = (e, s', outs')"
      by (cases "write_chunks c app k ?cs s") auto
    consider "st' = st" | "st' = set_outgoing k s' st" "length data \<le> STREAM_MAX_WRITE_BYTES"
      using run Some w
      by (auto simp: write_stream_def set_outgoing_def Let_def split: option.splits if_splits)
    then show ?thesis
    proof cases
      case 2
      have few: "length ?cs \<le> MAX_CALL_PACKETS"
        using length_chunks [of STREAM_PACKET_BYTES data] 2(2) by (simp add: MAX_CALL_PACKETS_def)
      have "source_bounded (b + length ?cs) s'"
        by (rule write_chunks_bounded [OF w sources_ok_get [OF ok(1) Some]])
          (use few ok(2) chunks_sizes in auto)
      then have "source_bounded (b + MAX_CALL_PACKETS) s'"
        by (rule source_bounded_mono) (use few in simp)
      with same 2(1) show ?thesis by (simp add: sources_ok_set)
    qed (use same in simp)
  qed
qed

text \<open>Publishing keeps the shape: a failed commitment may only have added an empty record.\<close>

lemma record_append_ok:
  assumes "source_ok s" "record_ok (next_commitment s) r"
  shows "source_ok (s\<lparr>commitment_records := commitment_records s @ [r]\<rparr>)"
  using assms by (auto simp: source_ok_def next_commitment_def last_record_def)

lemma append_failed:
  assumes ok: "source_ok s"
    and run: "append_commitment_page c io ds cm (s, d) = (Inl e, s', d')"
  shows "source_ok s' \<and> current_segment s' = current_segment s \<and> next_sequence s' = next_sequence s"
proof -
  obtain r where r: "last_record s = Some r" using ok by (auto simp: source_ok_def)
  have same: "s2 = s1" if "append_to_page c io ds cm (s1, d1) = (Inl e, s2, d2)" for s1 s2 d1 d2
    using that by (auto simp: append_to_page_def Let_def split: sum.splits prod.splits option.splits)
  obtain x s1 d1 where cr: "create_next_commitment_record c io ds (cm_segment_number cm) (s, d) = (x, s1, d1)"
    by (cases "create_next_commitment_record c io ds (cm_segment_number cm) (s, d)") auto
  have "s1 = s \<or> (\<exists>r. s1 = s\<lparr>commitment_records := commitment_records s @ [r]\<rparr> \<and>
      record_ok (next_commitment s) r)"
  proof (cases x)
    case None
    obtain sid key index where "s1 = s\<lparr>commitment_records := commitment_records s @
        [\<lparr>store_id = sid, cr_record_key = key, cr_record_index = index, cr_page_index = 0,
          cr_first_segment = cm_segment_number cm, page_commitments = []\<rparr>]\<rparr>"
      by (rule create_record_ok [OF cr [unfolded None]])
    moreover have "record_ok (next_commitment s) \<lparr>store_id = sid, cr_record_key = key,
        cr_record_index = index, cr_page_index = 0, cr_first_segment = cm_segment_number cm,
        page_commitments = []\<rparr>"
      by (simp add: record_ok_def STREAM_COMMITMENT_PAGES_PER_RECORD_def
          STREAM_COMMITMENTS_PER_PAGE_def)
    ultimately show ?thesis by blast
  next
    case (Some a)
    with cr show ?thesis
      by (auto simp: create_next_commitment_record_def Let_def
          split: sum.splits prod.splits option.splits)
  qed
  moreover have "s' = s \<or> s' = s1"
    using run r cr same [of s d s' d'] same [of s1 d1 s' d']
    by (auto simp: append_commitment_page_def split: if_splits option.splits)
  ultimately show ?thesis using ok record_append_ok by auto
qed

lemma commit_front_any:
  assumes run: "commit_front c io now p (s, d) = (r, s', d')"
    and ok: "source_ok s" "pending_segments s = p # ps"
  shows "source_ok s' \<and> current_segment s' = current_segment s \<and> next_sequence s' = next_sequence s"
proof (cases r)
  case (Inl e)
  obtain x s1 d1 where app: "append_commitment_page c io (os_descriptor s)
      (commitment_of (os_previous_commitment_hash s) now p) (s, d) = (x, s1, d1)"
    by (metis prod.exhaust)
  from run Inl app have "s' = s \<or> x = Inl e \<and> s' = s1"
    by (auto simp: commit_front_def Let_def split: sum.splits)
  then show ?thesis using ok append_failed [OF ok(1)] app by auto
next
  case (Inr x)
  obtain cm hint where x: "x = (cm, hint)" by (cases x)
  note front = run [unfolded Inr x]
  obtain r1 and s1 :: outgoing_stream where
    "s' = s\<lparr>commitment_records := butlast (commitment_records s1) @ [advance_page cm r1],
            pending_segments := ps,
            os_previous_commitment_hash := sha256 c (commitment_bytes c cm)\<rparr>"
    by (rule commit_front_ok [OF front ok])
  then show ?thesis using commit_front_source_ok(1) [OF front ok] by simp
qed

lemma commit_queue_sources:
  assumes "commit_queue c io now ps prev (s, d) = (r, (s', d'), outs)"
    and "source_bounded b s" "pending_segments s = ps"
  shows "source_bounded b s'"
  using assms
proof (induction ps arbitrary: prev s d r outs)
  case Nil
  then show ?case by simp
next
  case (Cons p ps)
  obtain r1 s1 d1 where f: "commit_front c (io (ps_segment_number p)) now p (s, d) = (r1, s1, d1)"
    by (cases "commit_front c (io (ps_segment_number p)) now p (s, d)") auto
  have s: "source_ok s" using Cons.prems(2) by (simp add: source_bounded_def)
  have s1: "source_bounded b s1"
    using commit_front_any [OF f s Cons.prems(3)] Cons.prems(2) by (simp add: source_bounded_def)
  show ?case
  proof (cases r1)
    case (Inl e)
    with Cons.prems(1) f s1 show ?thesis by auto
  next
    case (Inr x)
    obtain cm hint where x: "x = (cm, hint)" by (cases x)
    obtain outs1 where q: "commit_queue c io now ps (Some cm) (s1, d1) = (r, (s', d'), outs1)"
      using Cons.prems(1) f Inr x by (auto split: prod.splits)
    note front = f [unfolded Inr x]
    have "pending_segments s1 = ps" by (rule commit_front_ok [OF front s Cons.prems(3)]) simp
    from Cons.IH [OF q s1 this] show ?thesis .
  qed
qed

lemma commit_pending_sources:
  assumes "sources_ok b st" "commit_pending_segments c io now k (st, d) = (r, (st', d'), outs)"
  shows "sources_ok b st'"
proof (cases "map_of (outgoing st) k")
  case None
  with assms show ?thesis by (simp add: commit_pending_segments_def)
next
  case (Some s)
  obtain r1 s1 d1 outs1 where q: "commit_queue c io now (pending_segments s) None (s, d) = (r1, (s1, d1), outs1)"
    by (cases "commit_queue c io now (pending_segments s) None (s, d)") auto
  with assms(2) Some have "st' = set_outgoing k s1 st" by (simp add: commit_pending_segments_def)
  with commit_queue_sources [OF q sources_ok_get [OF assms(1) Some] refl] assms(1) show ?thesis
    by (simp add: sources_ok_set)
qed

lemma flush_stream_sources:
  assumes ok: "sources_ok b st" "b < u64_max"
    and run: "flush_stream c io now app k (st, d) = (r, (st', d'), outs)"
  shows "sources_ok (Suc b) st'"
proof -
  have up: "sources_ok (Suc b) st" by (rule sources_ok_mono [OF ok(1)]) simp
  have "sources_ok (Suc b) (set_outgoing k (snd (seal_current_segment c s)) st)"
    if "map_of (outgoing st) k = Some s" for s
    by (rule sources_ok_set [OF up seal_bounded [OF sources_ok_get [OF ok(1) that] ok(2)]])
  with run up show ?thesis
    by (auto simp: flush_stream_def split: option.splits if_splits intro: commit_pending_sources)
qed

lemma close_stream_sources:
  assumes ok: "sources_ok b st" "b < u64_max"
    and run: "close_stream c now app k reason st = (e, st', outs)"
  shows "sources_ok (Suc b) st'"
proof -
  have up: "sources_ok (Suc b) st" by (rule sources_ok_mono [OF ok(1)]) simp
  have "sources_ok (Suc b) (set_outgoing k (snd (seal_current_segment c
      (s\<lparr>os_running := False, os_closed_at := Some now\<rparr>))) st)"
    if "map_of (outgoing st) k = Some s" for s
  proof -
    have "source_bounded b (s\<lparr>os_running := False, os_closed_at := Some now\<rparr>)"
      by (rule same_feed_bounded [OF sources_ok_get [OF ok(1) that]]) (simp add: same_feed_def)
    from sources_ok_set [OF up seal_bounded [OF this ok(2)]] show ?thesis .
  qed
  with run up show ?thesis by (auto simp: close_stream_def split: option.splits if_splits)
qed

lemma start_stream_sources:
  assumes "sources_ok b st" "start_stream c io me app k now metadata (st, d) = (r, (st', d'), outs)"
  shows "sources_ok b st'"
  using assms by (auto simp: start_stream_def Let_def source_bounded_def source_ok_def last_record_def
      next_commitment_def record_ok_def STREAM_PACKETS_PER_SEGMENT_def
      STREAM_COMMITMENT_PAGES_PER_RECORD_def STREAM_COMMITMENTS_PER_PAGE_def
      intro!: sources_ok_set split: sum.splits prod.splits option.splits if_splits)


subsection \<open>Every step\<close>

lemma attach_same_feed: "attach_viewer me now viewer capacity s = (parent, s') \<Longrightarrow> same_feed s s'"
  by (auto simp: attach_viewer_def same_feed_def Let_def split: prod.splits)

lemma undo_same_feed:
  "same_feed s (undo_assignment viewer s)" "same_feed s (undo_acceptance viewer s)"
  by (simp_all add: undo_assignment_def undo_acceptance_def drop_child_everywhere_def same_feed_def)

lemma reassign_same_feed: "reassign_children me cs s = (as, s') \<Longrightarrow> same_feed s s'"
proof (induction me cs s arbitrary: as s' rule: reassign_children.induct)
  case (2 me child cs s)
  then show ?case by (fastforce simp: same_feed_def Let_def split: if_splits prod.splits)
qed (simp add: same_feed_def)

lemma remove_same_feed:
  assumes "remove_participant_and_reassign me viewer s = (as, s')"
  shows "same_feed s s'"
  using assms by (auto simp: remove_participant_and_reassign_def drop_child_everywhere_def
      same_feed_def Let_def dest!: reassign_same_feed)

lemma handle_join_sources:
  assumes ok: "sources_ok b st"
    and run: "handle_join_request c net me now sender ds viewer capacity requested st = (e, st', outs)"
  shows "sources_ok b st'"
proof -
  consider "st' = st"
    | (admitted) s parent s' where "map_of (outgoing st) (sd_stream_id ds) = Some s"
        "attach_viewer me now viewer capacity s = (parent, s')"
        "notify_admission c net me ds viewer parent False s'
           (set_outgoing (sd_stream_id ds) s' st) = (e, st', outs)"
    using run
    by (auto simp: handle_join_request_def not_le split: if_splits option.splits prod.splits
        dest: notify_admission_state)
  then show ?thesis
  proof cases
    case admitted
    have "source_bounded b s'"
      by (rule same_feed_bounded [OF sources_ok_get [OF ok admitted(1)] attach_same_feed [OF admitted(2)]])
    then have "source_bounded b s'" "source_bounded b (undo_assignment viewer s')"
      "source_bounded b (undo_acceptance viewer s')"
      using same_feed_bounded undo_same_feed by blast+
    with notify_admission_state [OF admitted(3)] ok show ?thesis
      by (auto simp: set_outgoing_twice intro: sources_ok_set)
  qed (use ok in simp)
qed

lemma handle_leave_sources:
  assumes ok: "sources_ok b st" and run: "handle_leave me sender k gen viewer st = (e, st', outs)"
  shows "sources_ok b st'"
proof -
  have "sources_ok b (set_outgoing k s' st)"
    if "map_of (outgoing st) k = Some s" "remove_participant_and_reassign me viewer s = (as, s')"
    for s as s'
    by (rule sources_ok_set [OF ok same_feed_bounded [OF sources_ok_get [OF ok that(1)]
          remove_same_feed [OF that(2)]]])
  moreover have "sources_ok b (set_incoming k s st)" for s
    using ok by (simp add: sources_ok_def set_incoming_def)
  ultimately show ?thesis using run ok
    by (auto simp: handle_leave_def source_leave_def relay_leave_def Let_def
        split: option.splits if_splits prod.splits)
qed

lemma expire_sources:
  assumes "sources_ok b st"
  shows "sources_ok b (expire_closed_streams now st)"
proof -
  have "same_feed s (expire_outgoing now s)" for s
    by (simp add: expire_outgoing_def same_feed_def Let_def)
  then have "source_bounded b (expire_outgoing now s)" if "source_bounded b s" for s
    using same_feed_bounded that by blast
  with assms show ?thesis by (auto simp: expire_closed_streams_def sources_ok_def)
qed

lemma process_direct_message_sources:
  assumes "sources_ok b st"
    and "process_direct_message c net me now sender m st = (e, st', outs)"
  shows "sources_ok b st'"
  using assms
  by (cases m) (auto simp: process_direct_message_def split: prod.splits option.splits
      dest: message_outgoing intro: sources_ok_outgoing handle_leave_sources handle_join_sources)

lemma step_sources:
  assumes ok: "sources_ok b st" "b + MAX_CALL_PACKETS \<le> u64_max"
    and run: "stream_step c me env call (st, d) = ((st', d'), outs)"
  shows "sources_ok (b + MAX_CALL_PACKETS) st'"
proof -
  have pos: "b < u64_max" "Suc b \<le> b + MAX_CALL_PACKETS"
    using ok(2) by (simp_all add: MAX_CALL_PACKETS_def STREAM_MAX_WRITE_BYTES_def)
  note up = sources_ok_mono [OF _ le_add1]
  show ?thesis
  proof (cases call)
    case (Write_Stream app k data)
    with run show ?thesis by (auto split: prod.splits intro: write_stream_sources [OF ok])
  next
    case (Flush_Stream now app k)
    with run flush_stream_sources [OF ok(1) pos(1)] sources_ok_mono [OF _ pos(2)] show ?thesis
      by (auto split: prod.splits)
  next
    case (Close_Stream now app k reason)
    with run close_stream_sources [OF ok(1) pos(1)] sources_ok_mono [OF _ pos(2)] show ?thesis
      by (auto split: prod.splits)
  next
    case (Direct_Message now sender m)
    with run process_direct_message_sources [OF ok(1)] up show ?thesis by (auto split: prod.splits)
  next
    case (Commit_Pending now k)
    with run commit_pending_sources [OF ok(1)] up show ?thesis by (auto split: prod.splits)
  next
    case (Start_Stream now app k metadata)
    with run start_stream_sources [OF ok(1)] up show ?thesis by (auto split: prod.splits)
  next
    case (Expire_Closed_Streams now)
    with run expire_sources [OF ok(1)] up show ?thesis by auto
  qed (use run ok(1) up in \<open>auto split: prod.splits dest!: message_outgoing try_verify_outgoing
      verify_ready_outgoing intro: sources_ok_outgoing\<close>)
qed

lemma run_sources:
  "sources_ok b (fst sd) \<Longrightarrow> b + length calls * MAX_CALL_PACKETS \<le> u64_max \<Longrightarrow>
   sources_ok (b + length calls * MAX_CALL_PACKETS) (fst (stream_run c me calls sd))"
proof (induction c me calls sd arbitrary: b rule: stream_run.induct)
  case (2 c me env call calls sd)
  obtain st d st' d' outs where sd: "sd = (st, d)"
    and step: "stream_step c me env call (st, d) = ((st', d'), outs)" by (metis prod.exhaust)
  have "sources_ok (b + MAX_CALL_PACKETS) st'"
    by (rule step_sources [OF _ _ step]) (use 2(2,3) sd in auto)
  with 2(1) [of "b + MAX_CALL_PACKETS"] 2(3) step sd show ?case by (simp add: ac_simps)
qed simp

end
