(* ===== verification/Stream_Viewers.thy ===== *)
theory Stream_Viewers
  imports Stream_Node
begin

text \<open>
  Invariants of the streams that a node views. An operation changes a viewer in one of a few ways;
  a property that each of them keeps is kept by every call and message, and so by every run.
\<close>

subsection \<open>Association lists\<close>

lemma all_update:
  "\<forall>(k, v) \<in> set m. P k v \<Longrightarrow> P k v \<Longrightarrow> \<forall>(k, v) \<in> set (AList.update k v m). P k v"
  by (induction m) auto

lemma all_delete: "\<forall>(k, v) \<in> set m. P k v \<Longrightarrow> \<forall>(k, v) \<in> set (AList.delete k m). P k v"
  by (induction m) auto

lemma all_amodify:
  "\<forall>(k, v) \<in> set m. P k v \<Longrightarrow> (\<And>v. P k v \<Longrightarrow> P k (f v)) \<Longrightarrow> \<forall>(k, v) \<in> set (amodify k f m). P k v"
proof (cases "map_of m k")
  case (Some v)
  assume all: "\<forall>(k, v) \<in> set m. P k v" and f: "\<And>v. P k v \<Longrightarrow> P k (f v)"
  have "P k v" using all map_of_SomeD [OF Some] by auto
  then show ?thesis using all_update [OF all f] Some by (simp add: amodify_def)
qed (simp add: amodify_def)

subsection \<open>The operations of a viewer\<close>

text \<open>Changes that leave the descriptor, the received data and the position alone.\<close>

definition same_view :: "incoming_stream \<Rightarrow> incoming_stream \<Rightarrow> bool" where
  "same_view s s' \<longleftrightarrow> is_descriptor s' = is_descriptor s \<and>
     received_segments s' = received_segments s \<and>
     verified_commitment_hashes s' = verified_commitment_hashes s \<and>
     latest_segment s' = latest_segment s"

definition set_hint :: "stream_commitment_hint \<Rightarrow> incoming_stream \<Rightarrow> incoming_stream" where
  "set_hint h s = s\<lparr>received_segments := AList.update (ht_segment_number h)
     ((segment_of s (ht_segment_number h))\<lparr>rs_hint := Some h\<rparr>) (received_segments s)\<rparr>"

definition set_retransmit :: "nat \<Rightarrow> nat \<Rightarrow> incoming_stream \<Rightarrow> incoming_stream" where
  "set_retransmit n now s = s\<lparr>received_segments :=
     AList.update n ((segment_of s n)\<lparr>last_retransmit_at := now\<rparr>) (received_segments s)\<rparr>"

definition accepted ::
  "stream_descriptor \<Rightarrow> record_key \<Rightarrow> record_key option \<Rightarrow> nat \<Rightarrow> nat \<Rightarrow> incoming_stream \<Rightarrow> incoming_stream"
  where
  "accepted ds parent standby sequence segment s =
     s\<lparr>is_descriptor := ds, is_parent := Some parent, is_standby := standby,
       latest_sequence := sequence - 1, latest_segment := segment\<rparr>"

lemma packet_error_none:
  "packet_error s sender p = None \<Longrightarrow> sd_generation (is_descriptor s) = pk_generation p \<and>
   is_running s \<and> pk_payload p \<noteq> [] \<and> length (pk_payload p) \<le> STREAM_PACKET_BYTES \<and>
   pk_index p < STREAM_PACKETS_PER_SEGMENT \<and> upstream_allowed s sender"
  by (auto simp: packet_error_def split: if_splits)

text \<open>The outcomes of one attempt to verify a segment.\<close>

lemma try_verify_cases:
  assumes "try_verify_received_segment c net reads now k n st = (e, st', outs)"
  obtains "st' = st" "\<And>ev. Emit ev \<in> set outs \<Longrightarrow> \<exists>app. ev = IntegrityFailure app k n"
  | s missing where "map_of (incoming st) k = Some s"
      "request_missing c net now k n missing s st = (e, st', outs)"
  | s h cm ch where "map_of (incoming st) k = Some s" "rs_hint (segment_of s n) = Some h"
      "read_and_verify_commitment_page c reads (is_descriptor s) h = Inr cm"
      "missing_packet_indices (rs_packets (segment_of s n)) (cm_packet_count cm) = []"
      "hash_received_packets c (rs_packets (segment_of s n)) (cm_packet_count cm) =
         Inr (cm_sha256 cm)"
      "chain_ready s n cm = Inr True" "e = None" "st' = set_incoming k (mark_verified n ch s) st"
      "outs = [Emit (SegmentVerified (is_application_id s) k n (cm_sha256 cm))]"
proof (cases "map_of (incoming st) k")
  case None
  with assms that(1) show ?thesis by (simp add: try_verify_received_segment_def)
next
  case (Some s)
  note run = assms [unfolded try_verify_received_segment_def Some option.case Let_def]
  show ?thesis
  proof (cases "verified (segment_of s n)")
    case True
    with run that(1) show ?thesis by simp
  next
    case unverified: False
    show ?thesis
    proof (cases "rs_hint (segment_of s n)")
      case None
      with run unverified that(1) show ?thesis by simp
    next
      case hint: (Some h)
      show ?thesis
      proof (cases "read_and_verify_commitment_page c reads (is_descriptor s) h")
        case (Inl x)
        with run unverified hint that(1) show ?thesis by simp
      next
        case page: (Inr cm)
        note run' = run [unfolded hint page option.case sum.case]
        show ?thesis
        proof (cases "missing_packet_indices (rs_packets (segment_of s n)) (cm_packet_count cm) = []")
          case False
          with run' unverified that(2) [OF Some] show ?thesis by simp
        next
          case True
          note full = run' [unfolded True]
          show ?thesis
            using full unverified True Some hint page that(1) that(3) [OF Some hint page True]
            by (auto split: sum.splits if_splits option.splits bool.splits)
        qed
      qed
    qed
  qed
qed

definition all_viewers :: "(string \<Rightarrow> incoming_stream \<Rightarrow> bool) \<Rightarrow> stream_state \<Rightarrow> bool" where
  "all_viewers P st \<longleftrightarrow> keys_distinct (incoming st) \<and> (\<forall>(k, s) \<in> set (incoming st). P k s)"

text \<open>The streams that a node views are not touched by its calls as a source.\<close>

lemma source_incoming:
  "write_stream c app k data st = (r, st', outs) \<Longrightarrow> incoming st' = incoming st"
  "close_stream c now app k reason st = (e, st', outs) \<Longrightarrow> incoming st' = incoming st"
  "start_stream c io me app k now metadata sd = (r2, sd', outs) \<Longrightarrow>
     incoming (fst sd') = incoming (fst sd)"
  "handle_join_request c net me now sender ds viewer capacity requested st = (e, st', outs) \<Longrightarrow>
     incoming st' = incoming st"
  "commit_pending_segments c ios now k sd = (r3, sd', outs) \<Longrightarrow> incoming (fst sd') = incoming (fst sd)"
  "flush_stream c ios now app k sd = (r3, sd', outs) \<Longrightarrow> incoming (fst sd') = incoming (fst sd)"
  "source_leave me sender k gen viewer s st = (e, st', outs) \<Longrightarrow> incoming st' = incoming st"
  by (auto simp: write_stream_def close_stream_def start_stream_def handle_join_request_def
      notify_admission_def commit_pending_segments_def flush_stream_def source_leave_def set_outgoing_def Let_def
      split: option.splits sum.splits prod.splits if_splits)

text \<open>A property of the viewed streams that a class of calls keeps.\<close>

locale viewer_invariant =
  fixes Q :: "string \<Rightarrow> incoming_stream \<Rightarrow> bool" and allowed :: "stream_call \<Rightarrow> bool"
  assumes same: "Q k s \<Longrightarrow> same_view s s' \<Longrightarrow> Q k s'"
    and join: "allowed (Join_Stream now app ds capacity) \<Longrightarrow>
      Q (sd_stream_id ds) (new_incoming app ds capacity now)"
    and accept: "allowed (Direct_Message now sender (M_JoinAccepted ds parent standby sequence segment)) \<Longrightarrow>
      Q (sd_stream_id ds) s \<Longrightarrow> sd_generation (is_descriptor s) = sd_generation ds \<Longrightarrow>
      Q (sd_stream_id ds) (accepted ds parent standby sequence segment s)"
    and store: "allowed (Direct_Message now sender (M_Packet p)) \<Longrightarrow> Q (pk_stream_id p) s \<Longrightarrow>
      packet_error s sender p = None \<Longrightarrow> Q (pk_stream_id p) (store_packet p s)"
    and hint: "Q k s \<Longrightarrow> Q k (set_hint h s)"
    and retransmit: "Q k s \<Longrightarrow> Q k (set_retransmit n now s)"
    and mark: "Q k s \<Longrightarrow> read_and_verify_commitment_page c reads (is_descriptor s) hn = Inr cm \<Longrightarrow>
      missing_packet_indices (rs_packets (segment_of s n)) (cm_packet_count cm) = [] \<Longrightarrow>
      chain_ready s n cm = Inr True \<Longrightarrow> Q k (mark_verified n ch s)"
begin

lemma viewers_get: "all_viewers Q st \<Longrightarrow> map_of (incoming st) k = Some s \<Longrightarrow> Q k s"
  by (auto simp: all_viewers_def dest!: map_of_SomeD)

lemma viewers_set: "all_viewers Q st \<Longrightarrow> Q k s \<Longrightarrow> all_viewers Q (set_incoming k s st)"
  using all_update [of "incoming st" Q k s] by (simp add: all_viewers_def set_incoming_def)

lemma viewers_remove: "all_viewers Q st \<Longrightarrow> all_viewers Q (remove_incoming k st)"
  using all_delete [of "incoming st" Q k] by (simp add: all_viewers_def remove_incoming_def)

lemma viewers_filter: "all_viewers Q st \<Longrightarrow> incoming st' = filter f (incoming st) \<Longrightarrow> all_viewers Q st'"
  by (auto simp: all_viewers_def)

lemma viewers_same:
  "all_viewers Q st \<Longrightarrow> map_of (incoming st) k = Some s \<Longrightarrow> same_view s s' \<Longrightarrow> all_viewers Q (set_incoming k s' st)"
  using viewers_set viewers_get same by blast

lemma viewers_incoming: "all_viewers Q st \<Longrightarrow> incoming st' = incoming st \<Longrightarrow> all_viewers Q st'"
  by (simp add: all_viewers_def)

lemma try_verify_viewers:
  assumes ok: "all_viewers Q st" and run: "try_verify_received_segment c net reads now k n st = (e, st', outs)"
  shows "all_viewers Q st'"
  using run
proof (cases rule: try_verify_cases)
  case 1
  with ok show ?thesis by simp
next
  case (2 s missing)
  have "all_viewers Q (set_incoming k (set_retransmit n now s) st)"
    by (rule viewers_set [OF ok]) (rule retransmit [OF viewers_get [OF ok 2(1)]])
  with 2(2) ok show ?thesis
    by (auto simp: request_missing_def set_retransmit_def Let_def split: if_splits option.splits)
next
  case (3 s h cm ch)
  have "Q k (mark_verified n ch s)" by (rule mark [OF viewers_get [OF ok 3(1)] 3(3,4,6)])
  with ok 3 show ?thesis by (simp add: viewers_set)
qed

lemma verify_ready_viewers:
  assumes ok: "all_viewers Q st" and run: "verify_ready_segments c net reads now st = (st', outs)"
  shows "all_viewers Q st'"
proof -
  let ?f = "\<lambda>(st, outs) (k, n). case try_verify_received_segment c net reads now k n st of
      (_, st', outs') \<Rightarrow> (st', outs @ outs')"
  have "all_viewers Q st' " if "foldl ?f (st, outs) xs = (st', outs')" "all_viewers Q st"
    for st outs xs st' outs'
    using that
  proof (induction xs arbitrary: st outs)
    case (Cons x xs)
    obtain k n where x: "x = (k, n)" by (cases x)
    obtain e1 st1 outs1 where v: "try_verify_received_segment c net reads now k n st = (e1, st1, outs1)"
      by (cases "try_verify_received_segment c net reads now k n st") auto
    from Cons.prems(1) have "foldl ?f (st1, outs @ outs1) xs = (st', outs')" by (simp add: x v)
    from Cons.IH [OF this try_verify_viewers [OF Cons.prems(2) v]] show ?case .
  qed simp
  then show ?thesis using run ok by (auto simp: verify_ready_segments_def)
qed

lemma message_viewers:
  assumes ok: "all_viewers Q st" and allow: "allowed (Direct_Message now sender m)"
    and run: "process_direct_message c net me now sender m st = (e, st', outs)"
  shows "all_viewers Q st'"
proof (cases m)
  case (M_JoinRequest ds viewer capacity requested)
  with run source_incoming(4) ok viewers_incoming show ?thesis
    by (fastforce simp: process_direct_message_def split: prod.splits option.splits)
next
  case (M_JoinAccepted ds parent standby sequence segment)
  note accept [OF allow [unfolded M_JoinAccepted] viewers_get [OF ok], unfolded accepted_def]
  with run ok M_JoinAccepted show ?thesis
    by (auto simp: process_direct_message_def handle_join_accepted_def intro!: viewers_set
        split: option.splits if_splits)
next
  case (M_Packet p)
  note store [OF allow [unfolded M_Packet] viewers_get [OF ok]]
  with run ok M_Packet show ?thesis
    by (auto simp: process_direct_message_def handle_packet_def intro!: viewers_set
        split: option.splits)
next
  case (M_CommitmentHint h)
  note hint [OF viewers_get [OF ok], unfolded set_hint_def]
  with run ok M_CommitmentHint show ?thesis
    by (auto simp: process_direct_message_def handle_commitment_hint_def Let_def
        intro!: viewers_set split: option.splits if_splits)
next
  case (M_Leave k gen viewer)
  have "all_viewers Q st'" if "relay_leave sender k gen viewer s st = (e, st', outs)"
    "map_of (incoming st) k = Some s" for s
  proof -
    have "all_viewers Q (set_incoming k (s\<lparr>is_children := remove_child viewer (is_children s)\<rparr>) st)"
      by (rule viewers_same [OF ok that(2)]) (simp add: same_view_def)
    with that(1) ok show ?thesis by (auto simp: relay_leave_def Let_def split: if_splits)
  qed
  with run ok M_Leave source_incoming(7) viewers_incoming show ?thesis
    by (fastforce simp: process_direct_message_def handle_leave_def split: option.splits)
qed (use run ok in \<open>auto simp: process_direct_message_def handle_join_rejected_def
      handle_assign_child_def handle_parent_assignment_def handle_end_def same_view_def Let_def
      intro!: viewers_same viewers_remove split: option.splits if_splits prod.splits\<close>)

lemma step_viewers:
  assumes ok: "all_viewers Q st" and allow: "allowed call"
    and run: "stream_step c me env call (st, d) = ((st', d'), outs)"
  shows "all_viewers Q st'"
proof (cases call)
  case (Join_Stream now app ds capacity)
  with run ok join allow show ?thesis
    by (auto simp: join_stream_def intro!: viewers_set split: option.splits if_splits)
next
  case (Direct_Message now sender m)
  with run message_viewers [OF ok allow [unfolded Direct_Message]] show ?thesis
    by (auto split: prod.splits)
next
  case (Leave_Stream app k)
  with run ok show ?thesis
    by (auto simp: leave_stream_def Let_def intro!: viewers_remove split: option.splits if_splits)
next
  case (Join_Send_Failed k reason)
  with run ok show ?thesis
    by (auto simp: join_send_failed_def intro!: viewers_remove split: option.splits)
next
  case (Expire_Pending_Joins now)
  with run ok show ?thesis by (auto simp: expire_pending_joins_def intro: viewers_filter)
next
  case (Expire_Closed_Streams now)
  with run ok show ?thesis by (auto simp: expire_closed_streams_def intro: viewers_filter)
next
  case (Verify_Segment now k n)
  with run ok show ?thesis by (auto split: prod.splits dest: try_verify_viewers)
next
  case (Verify_Ready now)
  with run ok show ?thesis by (auto split: prod.splits dest: verify_ready_viewers)
qed (use run ok in \<open>auto split: prod.splits dest!: source_incoming intro: viewers_incoming\<close>)

lemma run_viewers:
  "all_viewers Q (fst sd) \<Longrightarrow> list_all (allowed \<circ> snd) calls \<Longrightarrow>
   all_viewers Q (fst (stream_run c me calls sd))"
proof (induction c me calls sd rule: stream_run.induct)
  case (2 c me env call calls sd)
  obtain st d st' d' outs where sd: "sd = (st, d)"
    and step: "stream_step c me env call (st, d) = ((st', d'), outs)" by (metis prod.exhaust)
  have "all_viewers Q st'" by (rule step_viewers [OF _ _ step]) (use 2(2,3) sd in auto)
  with 2(1) 2(3) step sd show ?case by simp
qed simp

end

end
