(* ===== verification/Stream_Integrity.thy ===== *)
theory Stream_Integrity
  imports Stream_Viewers Stream_Cut
begin

text \<open>
  What a viewer can trust. The input of the segment hash determines the packets, so a segment that
  a viewer marks as verified carries exactly the packets that the source committed to, or the two
  hash inputs are an explicit collision. A viewer that holds all packets, the hint and the previous
  link of the chain does verify the segment.
\<close>

subsection \<open>The hash input determines the packets\<close>

definition packet_key :: "stream_packet \<Rightarrow> nat \<times> nat \<times> bytes" where
  "packet_key p = (pk_sequence p, pk_index p, pk_payload p)"

definition packet_bounded :: "stream_packet \<Rightarrow> bool" where
  "packet_bounded p \<longleftrightarrow> pk_sequence p < 2 ^ 64 \<and> pk_index p < STREAM_PACKETS_PER_SEGMENT \<and>
     length (pk_payload p) \<le> STREAM_PACKET_BYTES"

lemma packet_hash_bytes_inj:
  assumes "packet_hash_bytes p @ xs = packet_hash_bytes q @ ys"
    and "packet_bounded p" "packet_bounded q"
  shows "packet_key p = packet_key q \<and> xs = ys"
proof -
  have nums: "le_bytes 8 (pk_sequence p) = le_bytes 8 (pk_sequence q)"
    "le_bytes 4 (pk_index p) = le_bytes 4 (pk_index q)"
    "le_bytes 4 (length (pk_payload p)) = le_bytes 4 (length (pk_payload q))"
    "pk_payload p @ xs = pk_payload q @ ys"
    using assms(1) by (auto simp: packet_hash_bytes_def append_eq_append_conv)
  have "pk_sequence p = pk_sequence q"
    by (rule le_bytes_inj [OF nums(1)]) (use assms(2,3) in \<open>simp_all add: packet_bounded_def\<close>)
  moreover have "pk_index p = pk_index q"
    by (rule le_bytes_inj [OF nums(2)])
      (use assms(2,3) in \<open>simp_all add: packet_bounded_def STREAM_PACKETS_PER_SEGMENT_def\<close>)
  moreover have "length (pk_payload p) = length (pk_payload q)"
    by (rule le_bytes_inj [OF nums(3)])
      (use assms(2,3) in \<open>simp_all add: packet_bounded_def STREAM_PACKET_BYTES_def\<close>)
  ultimately show ?thesis using nums(4) by (simp add: packet_key_def)
qed

lemma packet_hash_bytes_nonempty: "packet_hash_bytes p \<noteq> []"
  by (auto simp: packet_hash_bytes_def dest: arg_cong [of _ _ length])

lemma packets_hash_inj:
  "concat (map packet_hash_bytes ps) = concat (map packet_hash_bytes qs) \<Longrightarrow>
   list_all packet_bounded ps \<Longrightarrow> list_all packet_bounded qs \<Longrightarrow>
   map packet_key ps = map packet_key qs"
proof (induction ps arbitrary: qs)
  case Nil
  from Nil.prems(1) packet_hash_bytes_nonempty show ?case by (cases qs) auto
next
  case (Cons p ps)
  from Cons.prems(1) packet_hash_bytes_nonempty obtain q qs' where qs: "qs = q # qs'"
    by (cases qs) auto
  from Cons.prems qs packet_hash_bytes_inj [of p _ q]
  have "packet_key p = packet_key q"
    "concat (map packet_hash_bytes ps) = concat (map packet_hash_bytes qs')" by auto
  with Cons.IH [of qs'] Cons.prems qs show ?case by simp
qed

text \<open>All packets of a segment carry the same stream id, generation and number.\<close>

definition segment_packets :: "string \<Rightarrow> nat \<Rightarrow> nat \<Rightarrow> stream_packet list \<Rightarrow> bool" where
  "segment_packets k gen n ps \<longleftrightarrow> list_all (\<lambda>p. packet_bounded p \<and> pk_stream_id p = k \<and>
     pk_generation p = gen \<and> pk_segment_number p = n) ps"

lemma segment_hash_input_inj:
  assumes "segment_packets k gen n ps" "segment_packets k gen n qs" "ps \<noteq> []" "qs \<noteq> []"
    and "segment_hash_input c ps = segment_hash_input c qs"
  shows "map packet_key ps = map packet_key qs"
proof -
  obtain p ps' q qs' where split: "ps = p # ps'" "qs = q # qs'"
    using assms(3,4) by (metis list.exhaust)
  have same: "pk_stream_id p = pk_stream_id q" "pk_generation p = pk_generation q"
    "pk_segment_number p = pk_segment_number q"
    using assms(1,2) split by (simp_all add: segment_packets_def)
  have "concat (map packet_hash_bytes ps) = concat (map packet_hash_bytes qs)"
    using assms(5) same by (simp add: segment_hash_input_def split)
  moreover have "list_all packet_bounded ps" "list_all packet_bounded qs"
    using assms(1,2) by (auto simp: segment_packets_def list_all_iff)
  ultimately show ?thesis by (rule packets_hash_inj)
qed

subsection \<open>What a viewer holds\<close>

definition slot_ok :: "string \<Rightarrow> nat \<Rightarrow> nat \<Rightarrow> nat \<Rightarrow> stream_packet \<Rightarrow> bool" where
  "slot_ok k gen n i p \<longleftrightarrow> pk_index p = i \<and> packet_bounded p \<and> pk_stream_id p = k \<and>
     pk_generation p = gen \<and> pk_segment_number p = n"

definition received_ok :: "string \<Rightarrow> nat \<Rightarrow> nat \<Rightarrow> received_segment \<Rightarrow> bool" where
  "received_ok k gen n g \<longleftrightarrow> keys_distinct (rs_packets g) \<and>
     (case rs_hint g of None \<Rightarrow> True | Some h \<Rightarrow> ht_segment_number h = n) \<and>
     (\<forall>(i, p) \<in> set (rs_packets g). slot_ok k gen n i p)"

definition viewer_ok :: "string \<Rightarrow> incoming_stream \<Rightarrow> bool" where
  "viewer_ok k s \<longleftrightarrow> sd_stream_id (is_descriptor s) = k \<and> keys_distinct (received_segments s) \<and>
     (\<forall>(n, g) \<in> set (received_segments s). received_ok k (sd_generation (is_descriptor s)) n g)"

lemma empty_segment_ok [simp]: "received_ok k gen n empty_segment"
  by (simp add: received_ok_def empty_segment_def keys_distinct_def)

lemma segment_of_ok:
  "viewer_ok k s \<Longrightarrow> received_ok k (sd_generation (is_descriptor s)) n (segment_of s n)"
  by (auto simp: segment_of_def viewer_ok_def split: option.splits dest!: map_of_SomeD)

lemma update_segment_ok:
  assumes "viewer_ok k s" "received_ok k (sd_generation (is_descriptor s)) n g"
    and "is_descriptor s' = is_descriptor s"
      "received_segments s' = AList.update n g (received_segments s)"
  shows "viewer_ok k s'"
  using assms all_update [of "received_segments s"
      "received_ok k (sd_generation (is_descriptor s))" n g]
  by (simp add: viewer_ok_def)

lemma store_packet_ok:
  assumes ok: "viewer_ok (pk_stream_id p) s" and err: "packet_error s sender p = None"
    and seq: "pk_sequence p < 2 ^ 64"
  shows "viewer_ok (pk_stream_id p) (store_packet p s)"
proof -
  let ?g = "segment_of s (pk_segment_number p)"
  let ?gen = "sd_generation (is_descriptor s)"
  note g = segment_of_ok [OF ok, of "pk_segment_number p"]
  note facts = packet_error_none [OF err]
  have "received_ok (pk_stream_id p) ?gen (pk_segment_number p)
      (?g\<lparr>rs_packets := AList.update (pk_index p) p (rs_packets ?g), verified := False\<rparr>)"
  proof -
    have "slot_ok (pk_stream_id p) ?gen (pk_segment_number p) (pk_index p) p"
      using facts seq by (simp add: slot_ok_def packet_bounded_def)
    with g all_update [of "rs_packets ?g" "slot_ok (pk_stream_id p) ?gen (pk_segment_number p)"
        "pk_index p" p] show ?thesis
      by (simp add: received_ok_def)
  qed
  note new = update_segment_ok [OF ok this] and old = update_segment_ok [OF ok g]
  show ?thesis
    by (cases "already_seen ?g p") (auto simp: store_packet_def Let_def intro: old new)
qed

lemma received_ok_mark [simp]:
  "received_ok k gen n (g\<lparr>verified := b\<rparr>) = received_ok k gen n g"
  "received_ok k gen n (g\<lparr>last_retransmit_at := t\<rparr>) = received_ok k gen n g"
  by (simp_all add: received_ok_def)

lemma mark_verified_ok:
  assumes "viewer_ok k s"
  shows "viewer_ok k (mark_verified n h s)"
proof -
  let ?m = "amodify n (\<lambda>g. g\<lparr>verified := True\<rparr>) (received_segments s)"
  have "\<forall>(n, g) \<in> set ?m. received_ok k (sd_generation (is_descriptor s)) n g"
    by (rule all_amodify) (use assms in \<open>auto simp: viewer_ok_def\<close>)
  with assms show ?thesis by (auto simp: mark_verified_def viewer_ok_def Let_def)
qed

subsection \<open>Every step of a viewer\<close>

definition bounded_call :: "stream_call \<Rightarrow> bool" where
  "bounded_call call = (case call of
     Direct_Message _ _ (M_Packet p) \<Rightarrow> pk_sequence p < 2 ^ 64 | _ \<Rightarrow> True)"

interpretation received: viewer_invariant viewer_ok bounded_call
proof
  show "viewer_ok k s'" if "viewer_ok k s" "same_view s s'" for k s s'
    using that by (simp add: viewer_ok_def same_view_def)
  show "viewer_ok (sd_stream_id ds) (new_incoming app ds capacity now)" for app ds capacity now
    by (simp add: viewer_ok_def new_incoming_def keys_distinct_def)
  show "viewer_ok (sd_stream_id ds) (accepted ds parent standby sequence segment s)"
    if "viewer_ok (sd_stream_id ds) s" "sd_generation (is_descriptor s) = sd_generation ds"
    for ds parent standby sequence segment s
    using that by (simp add: viewer_ok_def accepted_def)
  show "viewer_ok (pk_stream_id p) (store_packet p s)"
    if "bounded_call (Direct_Message now sender (M_Packet p))" "viewer_ok (pk_stream_id p) s"
      "packet_error s sender p = None" for now sender p s
    using store_packet_ok [OF that(2,3)] that(1) by (simp add: bounded_call_def)
  show "viewer_ok k (set_hint h s)" if "viewer_ok k s" for k h s
  proof (rule update_segment_ok [OF that])
    let ?n = "ht_segment_number h"
    show "received_ok k (sd_generation (is_descriptor s)) ?n ((segment_of s ?n)\<lparr>rs_hint := Some h\<rparr>)"
      using segment_of_ok [OF that, of ?n] by (simp add: received_ok_def)
  qed (simp_all add: set_hint_def)
  show "viewer_ok k (set_retransmit n now s)" if "viewer_ok k s" for k n now s
    by (rule update_segment_ok [OF that]) (simp_all add: set_retransmit_def segment_of_ok [OF that])
  show "viewer_ok k (mark_verified n ch s)" if "viewer_ok k s" for k n ch s
    by (rule mark_verified_ok [OF that])
qed

lemma all_viewers_empty [simp]: "all_viewers P \<lparr>outgoing = os, incoming = []\<rparr>"
  by (simp add: all_viewers_def keys_distinct_def)

subsection \<open>Authenticity\<close>

text \<open>Only the hash of \<open>sent\<close> is signed by the source for segment \<open>n\<close>.\<close>

definition commits_only ::
  "stream_crypto \<Rightarrow> stream_descriptor \<Rightarrow> nat \<Rightarrow> stream_packet list \<Rightarrow> bool" where
  "commits_only c ds n sent \<longleftrightarrow> (\<forall>(page :: signed_commitment_page) (cm :: stream_segment_commitment).
     cp_stream_id (sp_unsigned page) = sd_stream_id ds \<longrightarrow>
     cp_generation (sp_unsigned page) = sd_generation ds \<longrightarrow>
     verify_signed_bytes c (signing_public_key_hex ds) STREAM_COMMITMENT_PAGE_DOMAIN
       (page_bytes c (sp_unsigned page)) (sp_signature_hex page) = None \<longrightarrow>
     cm \<in> set (cp_commitments (sp_unsigned page)) \<longrightarrow> cm_segment_number cm = n \<longrightarrow>
     cm_sha256 cm = hash_packet_sequence c sent)"

lemma check_page_signed:
  assumes "check_page c ds h page = Inr cm"
  shows "cm \<in> set (cp_commitments (sp_unsigned page))" "cm_segment_number cm = ht_segment_number h"
    "cp_stream_id (sp_unsigned page) = sd_stream_id ds"
    "cp_generation (sp_unsigned page) = sd_generation ds"
    "verify_signed_bytes c (signing_public_key_hex ds) STREAM_COMMITMENT_PAGE_DOMAIN
       (page_bytes c (sp_unsigned page)) (sp_signature_hex page) = None" "valid_commitment cm"
  using assms
  by (auto simp: check_page_def serialize_def Let_def find_Some_iff
      split: if_splits sum.splits option.splits)

lemma read_page_signed:
  assumes "read_and_verify_commitment_page c reads ds h = Inr cm"
  obtains page where "check_page c ds h page = Inr cm"
  using assms
  by (auto simp: read_and_verify_commitment_page_def split: if_splits sum.splits list.splits)

text \<open>The hint stored for a segment names that segment.\<close>

lemma ordered_packets_ok:
  assumes "received_ok k gen n g"
  shows "segment_packets k gen n (ordered_packets (rs_packets g) m)"
proof -
  have "slot_ok k gen n i p" if "map_of (rs_packets g) i = Some p" for i p
    using assms map_of_SomeD [OF that] by (auto simp: received_ok_def)
  then have "packet_bounded p \<and> pk_stream_id p = k \<and> pk_generation p = gen \<and> pk_segment_number p = n"
    if "map_of (rs_packets g) i = Some p" for i p using that by (auto simp: slot_ok_def)
  then show ?thesis
    by (auto simp: segment_packets_def list_all_iff ordered_packets_def List.map_filter_def)
qed

lemma ordered_packets_nonempty:
  "missing_packet_indices ps m = [] \<Longrightarrow> 0 < m \<Longrightarrow> ordered_packets ps m \<noteq> []"
  by (auto simp: missing_packet_indices_def ordered_packets_def List.map_filter_def filter_empty_conv)

lemma full_segment_hash:
  assumes "hash_received_packets c ps m = Inr digest"
  shows "digest = hash_packet_sequence c (ordered_packets ps m)" "missing_packet_indices ps m = []"
  using assms by (auto simp: hash_received_packets_def split: if_splits)

lemma verified_packets_signed:
  assumes ok: "viewer_ok k s" and hint: "rs_hint (segment_of s n) = Some h"
    and page: "read_and_verify_commitment_page c reads (is_descriptor s) h = Inr cm"
    and hash: "hash_received_packets c (rs_packets (segment_of s n)) (cm_packet_count cm) =
      Inr (cm_sha256 cm)"
    and source: "commits_only c (is_descriptor s) n sent"
    and sent: "segment_packets k (sd_generation (is_descriptor s)) n sent" "sent \<noteq> []"
    and received: "received = ordered_packets (rs_packets (segment_of s n)) (cm_packet_count cm)"
  shows "map packet_key received = map packet_key sent \<or>
    segment_hash_input c received \<noteq> segment_hash_input c sent \<and>
    sha256 c (segment_hash_input c received) = sha256 c (segment_hash_input c sent)"
proof -
  note g = segment_of_ok [OF ok, of n]
  have num: "ht_segment_number h = n" using g hint by (simp add: received_ok_def)
  obtain pg where "check_page c (is_descriptor s) h pg = Inr cm" by (rule read_page_signed [OF page])
  note signed = check_page_signed [OF this]
  have "cm_sha256 cm = hash_packet_sequence c sent"
    using source signed num unfolding commits_only_def by blast
  moreover have "cm_sha256 cm = hash_packet_sequence c received"
    using full_segment_hash(1) [OF hash] received by simp
  ultimately have digest: "sha256 c (segment_hash_input c received) =
      sha256 c (segment_hash_input c sent)" by (simp add: hash_packet_sequence_def)
  have "0 < cm_packet_count cm" using signed(6) by (simp add: valid_commitment_def)
  then have "received \<noteq> []"
    unfolding received by (rule ordered_packets_nonempty [OF full_segment_hash(2) [OF hash]])
  moreover have "segment_packets k (sd_generation (is_descriptor s)) n received"
    unfolding received by (rule ordered_packets_ok [OF g])
  ultimately show ?thesis using segment_hash_input_inj [OF _ sent(1) _ sent(2)] digest by blast
qed

subsection \<open>Honest segments are verified\<close>

lemma ordered_complete:
  assumes "\<forall>i < length sent. map_of ps i = Some (sent ! i)"
  shows "ordered_packets ps (length sent) = sent" "missing_packet_indices ps (length sent) = []"
proof -
  have "List.map_filter (map_of ps) [0..<length sent] = map (\<lambda>i. sent ! i) [0..<length sent]"
    using assms by (auto simp: List.map_filter_def filter_id_conv intro!: map_cong)
  then show "ordered_packets ps (length sent) = sent" by (simp add: ordered_packets_def map_nth)
  show "missing_packet_indices ps (length sent) = []"
    using assms by (auto simp: missing_packet_indices_def filter_empty_conv)
qed

lemma complete_segment_verifies:
  assumes view: "map_of (incoming st) k = Some s" "rs_hint (segment_of s n) = Some h"
      "\<not> verified (segment_of s n)"
    and page: "read_and_verify_commitment_page c reads (is_descriptor s) h = Inr cm"
      "cm_packet_count cm = length sent" "cm_sha256 cm = hash_packet_sequence c sent"
      "length (commitment_bytes c cm) \<le> STREAM_MAX_SERIALIZED_BYTES"
    and packets: "length (rs_packets (segment_of s n)) = length sent"
      "\<forall>i < length sent. map_of (rs_packets (segment_of s n)) i = Some (sent ! i)"
    and chain: "chain_ready s n cm = Inr True"
  shows "try_verify_received_segment c net reads now k n st =
    (None, set_incoming k (mark_verified n (sha256 c (commitment_bytes c cm)) s) st,
     [Emit (SegmentVerified (is_application_id s) k n (cm_sha256 cm))])"
  using assms ordered_complete [OF packets(2)]
  by (simp add: try_verify_received_segment_def hash_received_packets_def hash_commitment_def
      serialize_def)

lemma map_of_from: "m \<le> n \<Longrightarrow> map_of (filter (\<lambda>(k, _). m \<le> k) xs) n = map_of xs (n :: nat)"
  by (induction xs) auto

lemma verified_is_recorded:
  assumes "map_of (received_segments s) n = Some g"
  shows "verified (segment_of (mark_verified n ch s) n)"
    "map_of (verified_commitment_hashes (mark_verified n ch s)) n = Some ch"
  using assms
  by (simp_all add: mark_verified_def segment_of_def Let_def map_of_from map_of_amodify update_conv')

end
