(* ===== verification/Stream_Late.thy ===== *)
theory Stream_Late
  imports Stream_Viewers
begin

text \<open>
  A viewer that is admitted after segment 16. The chain of commitments can only be entered at
  segment 0, whose packets are outside the receive window of such a viewer: it never verifies a
  segment, and as received segments are only dropped when a segment is verified, it keeps them all.
\<close>

definition late :: "incoming_stream \<Rightarrow> bool" where
  "late s \<longleftrightarrow> verified_commitment_hashes s = [] \<and> STREAM_RECEIVED_SEGMENT_WINDOW < latest_segment s \<and>
     rs_packets (segment_of s 0) = [] \<and> (\<forall>(n, g) \<in> set (received_segments s). \<not> verified g)"

definition late_keeps :: "string \<Rightarrow> nat list \<Rightarrow> string \<Rightarrow> incoming_stream \<Rightarrow> bool" where
  "late_keeps k kept k' s \<longleftrightarrow>
     k' = k \<longrightarrow> late s \<and> set kept \<subseteq> fst ` set (received_segments s)"

text \<open>The stream is not joined again, and not accepted at an earlier position.\<close>

definition no_rejoin :: "string \<Rightarrow> stream_call \<Rightarrow> bool" where
  "no_rejoin k call = (case call of
     Join_Stream _ _ ds _ \<Rightarrow> sd_stream_id ds \<noteq> k
   | Direct_Message _ _ (M_JoinAccepted ds _ _ _ segment) \<Rightarrow>
       sd_stream_id ds = k \<longrightarrow> STREAM_RECEIVED_SEGMENT_WINDOW < segment
   | _ \<Rightarrow> True)"

lemma update_keys_subset:
  "set kept \<subseteq> fst ` set m \<Longrightarrow> set kept \<subseteq> fst ` set (AList.update k v m)"
  by (auto simp: dom_update)

lemma late_update:
  assumes "late s" "\<not> verified g" "n = 0 \<Longrightarrow> rs_packets g = []"
    and "verified_commitment_hashes s' = verified_commitment_hashes s"
      "latest_segment s \<le> latest_segment s'"
      "received_segments s' = AList.update n g (received_segments s)"
  shows "late s'"
proof -
  have "\<forall>(n, g) \<in> set (received_segments s'). \<not> verified g"
    unfolding assms(6) by (rule all_update) (use assms(1,2) in \<open>auto simp: late_def\<close>)
  then show ?thesis
    using assms by (auto simp: late_def segment_of_def update_conv')
qed

lemma late_segment_unverified: "late s \<Longrightarrow> \<not> verified (segment_of s n)"
  by (auto simp: late_def segment_of_def empty_segment_def split: option.splits dest!: map_of_SomeD)

lemma store_packet_late:
  assumes "late s" "packet_error s sender p = None"
  shows "late (store_packet p s)"
proof -
  have n: "pk_segment_number p \<noteq> 0"
    using assms by (auto simp: packet_error_def late_def sat_add_def u64_max_def
        STREAM_RECEIVED_SEGMENT_WINDOW_def split: if_splits)
  let ?g = "segment_of s (pk_segment_number p)"
  have "late (store_packet p s)" if "already_seen ?g p"
    by (rule late_update [OF assms(1), of ?g])
      (use n that late_segment_unverified [OF assms(1)] in \<open>simp_all add: store_packet_def Let_def\<close>)
  moreover have "late (store_packet p s)" if "\<not> already_seen ?g p"
    by (rule late_update [OF assms(1), of "?g\<lparr>rs_packets :=
        AList.update (pk_index p) p (rs_packets ?g), verified := False\<rparr>"])
      (use n that in \<open>simp_all add: store_packet_def Let_def\<close>)
  ultimately show ?thesis by blast
qed

lemma store_packet_keys:
  "set kept \<subseteq> fst ` set (received_segments s) \<Longrightarrow>
   set kept \<subseteq> fst ` set (received_segments (store_packet p s))"
  by (auto simp: store_packet_def Let_def dom_update)

lemma late_not_chained:
  assumes "late s" "read_and_verify_commitment_page c reads ds h = Inr cm"
    and "missing_packet_indices (rs_packets (segment_of s n)) (cm_packet_count cm) = []"
  shows "chain_ready s n cm \<noteq> Inr True"
proof -
  have "cm_packet_count cm \<noteq> 0"
    using assms(2) by (auto simp: read_and_verify_commitment_page_def check_page_def Let_def
        valid_commitment_def split: if_splits sum.splits list.splits option.splits)
  then have "0 \<in> set (missing_packet_indices [] (cm_packet_count cm))"
    by (simp add: missing_packet_indices_def)
  then have "n \<noteq> 0" using assms(1,3) by (cases "n = 0") (simp_all add: late_def)
  then show ?thesis using assms(1) by (simp add: chain_ready_def late_def)
qed

interpretation late_viewer: viewer_invariant "late_keeps k kept" "no_rejoin k" for k kept
proof
  show "late_keeps k kept k' s'" if "late_keeps k kept k' s" "same_view s s'" for k' s s'
    using that by (auto simp: late_keeps_def late_def same_view_def segment_of_def)
  show "late_keeps k kept (sd_stream_id ds) (new_incoming app ds capacity now)"
    if "no_rejoin k (Join_Stream now app ds capacity)" for now app ds capacity
    using that by (simp add: no_rejoin_def late_keeps_def)
  show "late_keeps k kept (sd_stream_id ds) (accepted ds parent standby sequence segment s)"
    if "no_rejoin k (Direct_Message now sender (M_JoinAccepted ds parent standby sequence segment))"
      "late_keeps k kept (sd_stream_id ds) s" for now sender ds parent standby sequence segment s
    using that by (auto simp: no_rejoin_def late_keeps_def late_def accepted_def segment_of_def)
  show "late_keeps k kept (pk_stream_id p) (store_packet p s)"
    if "late_keeps k kept (pk_stream_id p) s" "packet_error s sender p = None" for sender p s
    using that store_packet_late store_packet_keys by (auto simp: late_keeps_def)
  show "late_keeps k kept k' (set_hint h s)" if "late_keeps k kept k' s" for k' h s
  proof -
    let ?n = "ht_segment_number h"
    have "late (set_hint h s)" if "late s"
      by (rule late_update [OF that, of "(segment_of s ?n)\<lparr>rs_hint := Some h\<rparr>"])
        (use late_segment_unverified [OF that] that in \<open>auto simp: set_hint_def late_def\<close>)
    with that show ?thesis by (auto simp: late_keeps_def set_hint_def dom_update)
  qed
  show "late_keeps k kept k' (set_retransmit n now s)" if "late_keeps k kept k' s" for k' n now s
  proof -
    have "late (set_retransmit n now s)" if "late s"
      by (rule late_update [OF that, of "(segment_of s n)\<lparr>last_retransmit_at := now\<rparr>"])
        (use late_segment_unverified [OF that] that in \<open>auto simp: set_retransmit_def late_def\<close>)
    with that show ?thesis by (auto simp: late_keeps_def set_retransmit_def dom_update)
  qed
  show "late_keeps k kept k' (mark_verified n ch s)"
    if "late_keeps k kept k' s"
      "read_and_verify_commitment_page c reads (is_descriptor s) hn = Inr cm"
      "missing_packet_indices (rs_packets (segment_of s n)) (cm_packet_count cm) = []"
      "chain_ready s n cm = Inr True" for k' c reads hn cm n ch s
    using that late_not_chained [OF _ that(2,3)] by (auto simp: late_keeps_def)
qed

end
