(* ===== verification/Stream_Properties.thy ===== *)
theory Stream_Properties
  imports Stream_Origin Stream_Integrity Stream_Late
begin

text \<open>The properties of the stream transport, over the states that any run of calls reaches.\<close>

definition stream_after ::
  "stream_crypto \<Rightarrow> record_key \<Rightarrow> (stream_env \<times> stream_call) list \<Rightarrow> stream_state" where
  "stream_after c me calls =
     fst (stream_run c me calls (\<lparr>outgoing = [], incoming = []\<rparr>, \<lambda>_ _. None))"

lemma reachable_tree:
  "list_all (external_call me \<circ> snd) calls \<Longrightarrow> streams_ok me (stream_after c me calls)"
  unfolding stream_after_def
  by (rule stream_run_ok) (simp_all add: streams_ok_def keys_distinct_def)

lemma reachable_sources:
  assumes "length calls * MAX_CALL_PACKETS \<le> u64_max"
  shows "sources_ok (length calls * MAX_CALL_PACKETS) (stream_after c me calls)"
proof -
  have "sources_ok (0 + length calls * MAX_CALL_PACKETS) (stream_after c me calls)"
    unfolding stream_after_def by (rule run_sources) (use assms in \<open>simp_all add: sources_ok_def\<close>)
  then show ?thesis by simp
qed

lemma reachable_source:
  assumes "length calls * MAX_CALL_PACKETS \<le> u64_max"
    and "map_of (outgoing (stream_after c me calls)) k = Some s"
  shows "source_ok s" "current_segment s \<le> length calls * MAX_CALL_PACKETS"
    "next_sequence s \<le> length calls * MAX_CALL_PACKETS"
  using sources_ok_get [OF reachable_sources [OF assms(1)] assms(2)]
  by (simp_all add: source_bounded_def)

lemma write_stream_chunks:
  assumes "write_stream c app k data st = (Inr res, st', outs)" "map_of (outgoing st) k = Some s"
    and "participants s \<noteq> []"
  obtains s' where
    "write_chunks c app k (chunks STREAM_PACKET_BYTES data) s = (None, s', outs)"
    "res = write_result (length data) (length (chunks STREAM_PACKET_BYTES data)) s'"
    "length data \<le> STREAM_MAX_WRITE_BYTES"
  using assms by (auto simp: write_stream_def Let_def split: option.splits if_splits prod.splits)

text \<open>
  C22. Whatever calls, messages and failures a node goes through, the viewers of each of its
  streams form a tree: at most 256 viewers, the source is not one of them, every viewer is listed
  as a child by exactly its parent, no relay has more children than its capacity of at most 4, and
  following parents from any viewer arrives at the source.\<close>

theorem relay_tree_invariant:
  assumes "list_all (external_call me \<circ> snd) calls"
    and "map_of (outgoing (stream_after c me calls)) k = Some s"
  shows "tree_ok me s"
  by (rule streams_ok_get [OF reachable_tree [OF assms(1)] assms(2)])

text \<open>
  C23. A join request that is refused - for whatever reason, including an admission whose
  messages could not be sent - leaves the node exactly as it was.\<close>

theorem refused_join_is_undone:
  assumes "list_all (external_call me \<circ> snd) calls" "st = stream_after c me calls" "sender \<noteq> me"
    and "handle_join_request c net me now sender ds viewer capacity requested_at st =
      (Some e, st', outs)"
  shows "st' = st"
proof -
  have "streams_ok me st" unfolding assms(2) by (rule reachable_tree [OF assms(1)])
  from handle_join_ok [OF this assms(3,4)] show ?thesis by simp
qed

text \<open>
  C24. A successful write to a stream with an audience sends every direct child the same
  packets, and nobody else any: their payloads concatenate to exactly the written bytes, none is
  empty or longer than 24 KiB, and their sequence numbers continue those of the stream.\<close>

theorem write_reaches_every_child:
  assumes "Suc (length calls) * MAX_CALL_PACKETS \<le> u64_max" "list_all (external_call me \<circ> snd) calls"
    and "st = stream_after c me calls" "map_of (outgoing st) k = Some s" "participants s \<noteq> []"
    and "write_stream c app k data st = (Inr res, st', outs)"
  shows "\<exists>ps. concat (map pk_payload ps) = data \<and>
    list_all (\<lambda>p. pk_payload p \<noteq> [] \<and> length (pk_payload p) \<le> STREAM_PACKET_BYTES) ps \<and>
    map pk_sequence ps = [next_sequence s..<next_sequence s + length ps] \<and>
    (\<forall>child. packets_to child outs = (if child \<in> set (direct_children s) then ps else [])) \<and>
    accepted_bytes res = length data \<and> emitted_packets res = length ps"
proof -
  let ?cs = "chunks STREAM_PACKET_BYTES data"
  obtain s' where w: "write_chunks c app k ?cs s = (None, s', outs)"
    and res: "res = write_result (length data) (length ?cs) s'"
    and small: "length data \<le> STREAM_MAX_WRITE_BYTES"
    by (rule write_stream_chunks [OF assms(6,4,5)])
  have bound: "length calls * MAX_CALL_PACKETS \<le> u64_max" using assms(1) by simp
  note src = reachable_source [OF bound assms(4) [unfolded assms(3)]]
  have few: "length ?cs \<le> MAX_CALL_PACKETS"
    using length_chunks [of STREAM_PACKET_BYTES data] small by (simp add: MAX_CALL_PACKETS_def)
  have tree: "tree_ok me s"
    using streams_ok_get [OF reachable_tree [OF assms(2)]] assms(3,4) by blast
  have "distinct (direct_children s)" using tree by (simp add: tree_ok_def tree_map_ok_def)
  then obtain ps where ps: "map pk_payload ps = ?cs"
    "map pk_sequence ps = [next_sequence s..<next_sequence s + length ?cs]"
    "\<forall>child. packets_to child outs = (if child \<in> set (direct_children s) then ps else [])"
    using write_chunks_sent [OF w src(1)] src few assms(1) chunks_sizes by fastforce
  have len: "length ?cs = length ps" using ps(1) by (metis length_map)
  have "concat (map pk_payload ps) = data"
    using ps(1) concat_chunks [of STREAM_PACKET_BYTES data] by (simp add: STREAM_PACKET_BYTES_def)
  moreover have "pk_payload p \<in> set ?cs" if "p \<in> set ps" for p using ps(1) that by (metis image_eqI set_map)
  then have "list_all (\<lambda>p. pk_payload p \<noteq> [] \<and> length (pk_payload p) \<le> STREAM_PACKET_BYTES) ps"
    using chunks_sizes by (fastforce simp: list_all_iff)
  ultimately show ?thesis using ps len by (intro exI [of _ ps]) (simp add: res write_result_def)
qed

lemma published_commitment_holds:
  assumes ok: "source_ok s" and front: "pending_segments s = p # ps"
    and run: "commit_front c io now p (s, d) = (Inr (cm, hint), s', d')"
    and env: "reads_dht c reads d'" "honest_signer c io (signing_public_key_hex (os_descriptor s))"
      "page_codec c" "parse_record_key c (ht_record_key hint)"
  shows "read_and_verify_commitment_page c reads (os_descriptor s) hint = Inr cm \<and>
    cm = commitment_of (os_previous_commitment_hash s) now p \<and> pending_segments s' = ps"
proof -
  obtain r1 s1 d1 where a: "cm = commitment_of (os_previous_commitment_hash s) now p"
    "append_to_page c io (os_descriptor s) cm (s1, d1) = (Inr hint, s1\<lparr>commitment_records :=
       butlast (commitment_records s1) @ [advance_page cm r1]\<rparr>, d')"
    "last_record s1 = Some r1" "record_ok (cm_segment_number cm) r1"
    "cr_page_index r1 < STREAM_COMMITMENT_PAGES_PER_RECORD"
    "s' = s\<lparr>commitment_records := butlast (commitment_records s1) @ [advance_page cm r1],
            pending_segments := ps,
            os_previous_commitment_hash := sha256 c (commitment_bytes c cm)\<rparr>"
    by (rule commit_front_ok [OF run ok front])
  have "valid_commitment cm" unfolding a(1)
    by (rule pending_commitment [OF pending_front(2) [OF ok front]])
  moreover have "ht_record_key hint = cr_record_key r1"
    by (rule append_to_page_ok [OF a(2,3)]) simp
  ultimately have "read_and_verify_commitment_page c reads (os_descriptor s) hint = Inr cm"
    using appended_page_verifies [OF a(2-5) _ env(1-3)] env(4) by simp
  with a(1,6) show ?thesis by simp
qed

text \<open>
  C25. A commitment that the source has published can be read and verified by a viewer at
  the place its hint names, and is the commitment of the oldest pending segment.\<close>

theorem published_commitment_verifies:
  assumes "length calls * MAX_CALL_PACKETS \<le> u64_max"
    and "map_of (outgoing (stream_after c me calls)) k = Some s" "pending_segments s = p # ps"
    and "commit_front c io now p (s, d) = (Inr (cm, hint), s', d')"
    and "reads_dht c reads d'" "honest_signer c io (signing_public_key_hex (os_descriptor s))"
      "page_codec c" "parse_record_key c (ht_record_key hint)"
  shows "read_and_verify_commitment_page c reads (os_descriptor s) hint = Inr cm \<and>
    cm = commitment_of (os_previous_commitment_hash s) now p \<and> pending_segments s' = ps"
  by (rule published_commitment_holds [OF reachable_source(1) [OF assms(1,2)] assms(3-8)])

text \<open>
  C26. Publishing the pending segments takes a prefix of them in order, announces one
  commitment for each, and links each commitment to the hash of the one before, starting from
  where the stream had stopped; what could not be published stays pending, and nothing does when
  the call succeeds.\<close>

theorem commitments_form_chain:
  assumes "length calls * MAX_CALL_PACKETS \<le> u64_max"
    and "st = stream_after c me calls" "map_of (outgoing st) k = Some s"
    and "commit_pending_segments c io now k (st, d) = (r, (st', d'), outs)"
  shows "\<exists>s' m. map_of (outgoing st') k = Some s' \<and>
    pending_segments s' = drop m (pending_segments s) \<and>
    list_all2 (\<lambda>cm p. cm_segment_number cm = ps_segment_number p \<and> cm_sha256 cm = ps_sha256 p \<and>
      cm_packet_count cm = ps_packet_count p) (committed_in outs) (take m (pending_segments s)) \<and>
    chained c (os_previous_commitment_hash s) (committed_in outs) \<and>
    os_previous_commitment_hash s' = chain_end c (os_previous_commitment_hash s) (committed_in outs) \<and>
    ((\<exists>x. r = Inr x) \<longrightarrow> pending_segments s' = [])"
proof -
  obtain r1 s1 d1 outs1 where q: "commit_queue c io now (pending_segments s) None (s, d) =
      (r1, (s1, d1), outs1)" by (metis prod.exhaust)
  have st': "st' = set_outgoing k s1 st" "r = r1" "outs = outs1"
    using assms(3,4) q by (simp_all add: commit_pending_segments_def)
  have "source_ok s" by (rule reachable_source(1) [OF assms(1) assms(3) [unfolded assms(2)]])
  from commit_queue_chain [OF q this refl] show ?thesis
    unfolding st' by (auto simp: set_outgoing_def update_conv')
qed

text \<open>
  C27. When a viewer reports a segment as verified, and the key of the
  stream descriptor that the viewer holds at that moment has signed no other content for that
  segment, the packets the viewer holds - their sequence numbers, positions and payloads - are those
  that were signed; or the two hash inputs are a collision of the hash function. This holds whatever
  relays and record network have done before. The key is that of the descriptor the viewer holds:
  that it is the one of the stream it joined is not guaranteed, since any peer can have it replaced
  by its own (\<open>descriptor_can_be_replaced\<close> below).\<close>

theorem verified_segment_authentic:
  assumes "list_all (bounded_call \<circ> snd) calls" "st = stream_after c me calls"
    and "try_verify_received_segment c net reads now k n st = (e, st', outs)"
    and "Emit (SegmentVerified app k n digest) \<in> set outs"
    and "map_of (incoming st) k = Some s" "commits_only c (is_descriptor s) n sent"
    and "segment_packets k (sd_generation (is_descriptor s)) n sent" "sent \<noteq> []"
  shows "\<exists>received. digest = hash_packet_sequence c received \<and>
    set received \<subseteq> snd ` set (rs_packets (segment_of s n)) \<and>
    (map packet_key received = map packet_key sent \<or>
     segment_hash_input c received \<noteq> segment_hash_input c sent \<and>
     sha256 c (segment_hash_input c received) = sha256 c (segment_hash_input c sent))"
  using assms(3)
proof (cases rule: try_verify_cases)
  case 1
  with assms(4) show ?thesis by blast
next
  case (2 s1 missing)
  with assms(4) show ?thesis
    by (auto simp: request_missing_def Let_def split: if_splits option.splits)
next
  case (3 s1 h cm ch)
  have s1: "s1 = s" using 3(1) assms(5) by simp
  let ?received = "ordered_packets (rs_packets (segment_of s n)) (cm_packet_count cm)"
  have "all_viewers viewer_ok st"
    unfolding assms(2) stream_after_def
    by (rule received.run_viewers) (use assms(1) in simp_all)
  then have view: "viewer_ok k s" by (rule received.viewers_get [OF _ assms(5)])
  have "digest = hash_packet_sequence c ?received"
    using 3(9) assms(4) full_segment_hash(1) [OF 3(5)] by (simp add: s1)
  moreover have "set ?received \<subseteq> snd ` set (rs_packets (segment_of s n))"
    by (force simp: ordered_packets_def List.map_filter_def dest: map_of_SomeD)
  ultimately show ?thesis
    using verified_packets_signed [OF view _ _ _ assms(6-8) refl] 3(2,3,5) s1 by blast
qed

text \<open>
  The acceptance of a join is checked against the descriptor it carries, not against the one the
  viewer holds: a peer that signs a descriptor of its own with the identifier and generation of the
  stream takes the place of the source.\<close>

lemma descriptor_can_be_replaced:
  assumes "map_of (incoming st) (sd_stream_id ds) = Some s"
    and "sd_generation ds = sd_generation (is_descriptor s)" "verify_descriptor c ds = None"
  shows "case handle_join_accepted c (streamer_main_dht ds) ds parent standby sequence segment st of
     (e, st', outs) \<Rightarrow> e = None \<and>
       map_option is_descriptor (map_of (incoming st') (sd_stream_id ds)) = Some ds"
  using assms by (simp add: handle_join_accepted_def set_incoming_def update_conv')

text \<open>
  C28. A segment of an honest source gets verified: once its commitment is published, a
  viewer that holds all its packets and the hint, and has verified the segment before, marks it as
  verified on the next attempt and is ready for the commitment that the source publishes next.\<close>

theorem honest_segment_is_verified:
  assumes "length calls * MAX_CALL_PACKETS \<le> u64_max"
    and "map_of (outgoing (stream_after c source calls)) k = Some s" "pending_segments s = p # ps"
    and "commit_front c io now p (s, d) = (Inr (cm, hint), s', d')"
    and "reads_dht c reads d'" "honest_signer c io (signing_public_key_hex (os_descriptor s))"
      "page_codec c" "parse_record_key c (ht_record_key hint)"
    and "n = ps_segment_number p" "ps_packet_count p = length sent"
      "ps_sha256 p = hash_packet_sequence c sent"
    and "map_of (incoming st) k = Some v" "is_descriptor v = os_descriptor s"
      "map_of (received_segments v) n = Some g" "rs_hint g = Some hint" "\<not> verified g"
    and "length (rs_packets g) = length sent"
      "\<forall>i < length sent. map_of (rs_packets g) i = Some (sent ! i)"
    and "if n = 0 then os_previous_commitment_hash s = replicate 32 0
         else map_of (verified_commitment_hashes v) (n - 1) = Some (os_previous_commitment_hash s)"
  shows "\<exists>v'. try_verify_received_segment c net reads now' k n st =
      (None, set_incoming k v' st,
       [Emit (SegmentVerified (is_application_id v) k n (hash_packet_sequence c sent))]) \<and>
    verified (segment_of v' n) \<and>
    map_of (verified_commitment_hashes v') n = Some (os_previous_commitment_hash s')"
proof -
  note ok = reachable_source(1) [OF assms(1,2)]
  have page: "read_and_verify_commitment_page c reads (os_descriptor s) hint = Inr cm"
    and cm: "cm = commitment_of (os_previous_commitment_hash s) now p"
    using published_commitment_holds [OF ok assms(3-8)] by blast+
  have limit: "length (commitment_bytes c cm) \<le> STREAM_MAX_SERIALIZED_BYTES"
    using assms(4) cm by (auto simp: commit_front_def hash_commitment_def serialize_def Let_def
        split: if_splits)
  have link: "os_previous_commitment_hash s' = sha256 c (commitment_bytes c cm)"
    by (rule commit_front_ok [OF assms(4) ok assms(3)]) simp
  have g: "segment_of v n = g" using assms(14) by (simp add: segment_of_def)
  have "chain_ready v n cm = Inr True"
    using assms(19) by (simp add: chain_ready_def cm commitment_of_def split: if_splits)
  moreover have "cm_packet_count cm = length sent" "cm_sha256 cm = hash_packet_sequence c sent"
    using assms(10,11) by (simp_all add: cm commitment_of_def)
  ultimately have "try_verify_received_segment c net reads now' k n st =
    (None, set_incoming k (mark_verified n (sha256 c (commitment_bytes c cm)) v) st,
     [Emit (SegmentVerified (is_application_id v) k n (cm_sha256 cm))])"
    using complete_segment_verifies [OF assms(12), of n hint c reads cm sent net now'] assms page limit g
    by simp
  with verified_is_recorded [OF assms(14)] link \<open>cm_sha256 cm = _\<close> show ?thesis by fastforce
qed

text \<open>
  C29. A viewer that is admitted after segment 16 never verifies a segment of the stream,
  whatever it receives: as long as it stays in the stream it has no verified commitment, none of
  its segments is verified, and it still holds every segment it ever received.\<close>

theorem late_viewer_never_verifies:
  assumes "keys_distinct (incoming st)" "map_of (incoming st) k = Some s"
    and "verified_commitment_hashes s = []" "STREAM_RECEIVED_SEGMENT_WINDOW < latest_segment s"
      "rs_packets (segment_of s 0) = []" "list_all (\<lambda>(n, g). \<not> verified g) (received_segments s)"
    and "list_all (no_rejoin k \<circ> snd) calls"
    and "map_of (incoming (fst (stream_run c me calls (st, d)))) k = Some s'"
  shows "verified_commitment_hashes s' = [] \<and> list_all (\<lambda>(n, g). \<not> verified g) (received_segments s') \<and>
    set (map fst (received_segments s)) \<subseteq> set (map fst (received_segments s'))"
proof -
  let ?kept = "map fst (received_segments s)"
  have "late_keeps k ?kept k' v" if "(k', v) \<in> set (incoming st)" for k' v
    using that assms(1-6) by (auto simp: late_keeps_def late_def list_all_iff in_set_iff_map_of)
  then have "all_viewers (late_keeps k ?kept) st" using assms(1) by (auto simp: all_viewers_def)
  then have "all_viewers (late_keeps k ?kept) (fst (stream_run c me calls (st, d)))"
    by (intro late_viewer.run_viewers) (use assms(7) in simp_all)
  from late_viewer.viewers_get [OF this assms(8)] show ?thesis
    by (auto simp: late_keeps_def late_def list_all_iff)
qed

end
