(* ===== verification/Stream_Example.thy ===== *)
theory Stream_Example
  imports Stream_Properties Example_Codec
begin

text \<open>
  One stream, from its start at the source to a verified segment at its viewer, with concrete
  encodings and a signature scheme that only the source can use; and the witnesses of the
  properties of the stream transport.
\<close>

subsection \<open>Encodings\<close>

definition enc_commitment :: "stream_segment_commitment \<Rightarrow> bytes" where
  "enc_commitment cm = enc_nat (cm_segment_number cm) @ enc_nat (cm_first_sequence cm) @
     enc_nat (cm_packet_count cm) @ enc_nat (cm_payload_bytes cm) @ enc_bytes (cm_sha256 cm) @
     enc_bytes (previous_commitment_hash cm) @ enc_nat (cm_published_at cm)"

definition dec_commitment :: "bytes \<Rightarrow> (stream_segment_commitment \<times> bytes) option" where
  "dec_commitment bs =
    Option.bind (dec_nat bs) (\<lambda>(n, bs). Option.bind (dec_nat bs) (\<lambda>(q, bs).
    Option.bind (dec_nat bs) (\<lambda>(m, bs). Option.bind (dec_nat bs) (\<lambda>(z, bs).
    Option.bind (dec_bytes bs) (\<lambda>(h, bs). Option.bind (dec_bytes bs) (\<lambda>(prev, bs).
    Option.bind (dec_nat bs) (\<lambda>(t, bs).
      Some (\<lparr>cm_segment_number = n, cm_first_sequence = q, cm_packet_count = m,
             cm_payload_bytes = z, cm_sha256 = h, previous_commitment_hash = prev,
             cm_published_at = t\<rparr>, bs))))))))"

definition enc_commitment_page :: "commitment_page \<Rightarrow> bytes" where
  "enc_commitment_page u = enc_nat (cp_version u) @ enc_string (cp_stream_id u) @ enc_nat (cp_generation u) @
     enc_nat (cp_record_index u) @ enc_nat (cp_page_index u) @
     enc_list enc_commitment (cp_commitments u)"

definition dec_commitment_page :: "bytes \<Rightarrow> (commitment_page \<times> bytes) option" where
  "dec_commitment_page bs =
    Option.bind (dec_nat bs) (\<lambda>(v, bs). Option.bind (dec_string bs) (\<lambda>(k, bs).
    Option.bind (dec_nat bs) (\<lambda>(g, bs). Option.bind (dec_nat bs) (\<lambda>(r, bs).
    Option.bind (dec_nat bs) (\<lambda>(p, bs). Option.bind (dec_list dec_commitment bs) (\<lambda>(cms, bs).
      Some (\<lparr>cp_version = v, cp_stream_id = k, cp_generation = g, cp_record_index = r,
             cp_page_index = p, cp_commitments = cms\<rparr>, bs)))))))"

definition enc_signed :: "signed_commitment_page \<Rightarrow> bytes" where
  "enc_signed page = enc_commitment_page (sp_unsigned page) @ enc_string (sp_signature_hex page)"

definition dec_signed :: "bytes \<Rightarrow> signed_commitment_page option" where
  "dec_signed bs =
    Option.bind (dec_commitment_page bs) (\<lambda>(u, bs). Option.bind (dec_string bs) (\<lambda>(s, bs).
      Some \<lparr>sp_unsigned = u, sp_signature_hex = s\<rparr>))"

lemma dec_enc_commitment: "dec_commitment (enc_commitment cm @ bs) = Some (cm, bs)"
  by (simp add: dec_commitment_def enc_commitment_def)

lemma dec_enc_commitment_page [simp]: "dec_commitment_page (enc_commitment_page u @ bs) = Some (u, bs)"
  by (simp add: dec_commitment_page_def enc_commitment_page_def dec_enc_list dec_enc_commitment)

lemma dec_enc_signed [simp]: "dec_signed (enc_signed page) = Some page"
  using dec_enc_string [of "sp_signature_hex page" "[]"] by (simp add: dec_signed_def enc_signed_def)

lemma enc_commitment_page_inj: "enc_commitment_page u = enc_commitment_page u' \<Longrightarrow> u = u'"
  using dec_enc_commitment_page [of u "[]"] dec_enc_commitment_page [of u' "[]"] by simp

subsection \<open>The scenario\<close>

text \<open>The source \<open>s\<close> streams three bytes; \<open>v\<close> views the stream.\<close>

definition sent_packet :: stream_packet where
  "sent_packet = \<lparr>pk_stream_id = ''x'', pk_generation = 1, pk_sequence = 0, pk_segment_number = 0,
     pk_index = 0, retransmission = False, pk_payload = [1, 2, 3]\<rparr>"

definition sum_hash :: "bytes \<Rightarrow> bytes" where "sum_hash bs = [fold (+) bs 0]"

text \<open>Hashing and encodings, with a signature check that is replaced below.\<close>

definition unsigned_crypto :: stream_crypto where
  "unsigned_crypto = \<lparr>sha256 = sum_hash, utf8 = string_bytes, commitment_bytes = enc_commitment,
     page_bytes = enc_commitment_page, header_bytes = (\<lambda>_. []), descriptor_bytes = (\<lambda>_. []),
     wire_bytes = (\<lambda>_. []), page_value = enc_signed, decode_page_value = dec_signed,
     header_value = (\<lambda>_. []), parse_uuid = (\<lambda>_. True), parse_record_key = (\<lambda>_. True),
     encode_base64 = bytes_string, decode_base64 = (\<lambda>s. Some (string_bytes s)),
     hex_decode = (\<lambda>s. Some (string_bytes s)), verify_signature = (\<lambda>_ _ _ _. Inr True)\<rparr>"

definition sent_commitment :: stream_segment_commitment where
  "sent_commitment = \<lparr>cm_segment_number = 0, cm_first_sequence = 0, cm_packet_count = 1,
     cm_payload_bytes = 3, cm_sha256 = hash_packet_sequence unsigned_crypto [sent_packet],
     previous_commitment_hash = replicate 32 0, cm_published_at = 9\<rparr>"

definition signed_page :: commitment_page where
  "signed_page = \<lparr>cp_version = 1, cp_stream_id = ''x'', cp_generation = 1, cp_record_index = 0,
     cp_page_index = 0, cp_commitments = [sent_commitment]\<rparr>"

text \<open>Of all pages, only the one that the source published carries a valid signature.\<close>

definition example_crypto :: stream_crypto where
  "example_crypto = unsigned_crypto\<lparr>verify_signature := (\<lambda>_ domain bs _.
     Inr (domain = STREAM_COMMITMENT_PAGE_DOMAIN \<longrightarrow> bs = enc_commitment_page signed_page))\<rparr>"

definition source_io :: stream_storage where
  "source_io = \<lparr>identity = Inr (replicate 32 CHR ''k'', 1),
     create_store = (\<lambda>name. Inr (name, ''r'')),
     sign = (\<lambda>domain bs. if domain = STREAM_COMMITMENT_PAGE_DOMAIN \<longrightarrow> bs = enc_commitment_page signed_page
       then Inr (replicate 64 CHR ''g'') else Inl (Storage ''not signed'')),
     write_own = (\<lambda>_ _. None)\<rparr>"

text \<open>Reads return what was written.\<close>

definition reads_of :: "stream_dht \<Rightarrow> stream_reads" where
  "reads_of d key locs = (case locs of [] \<Rightarrow> Inr [] | loc # _ \<Rightarrow>
     (case d key loc of None \<Rightarrow> Inr []
      | Some bs \<Rightarrow> Inr [\<lparr>rv_error = None, is_null = False, value_base64 = Some (bytes_string bs)\<rparr>]))"

definition quiet_env :: stream_env where
  "quiet_env = \<lparr>se_net = (\<lambda>_ _. None), se_io = (\<lambda>_. source_io), se_reads = reads_of (\<lambda>_ _. None)\<rparr>"

lemma reads_of_ok: "reads_dht example_crypto (reads_of d) d"
  by (auto simp: reads_dht_def reads_of_def decode_store_value_def example_crypto_def
      unsigned_crypto_def)

lemma source_signs: "honest_signer example_crypto source_io (replicate 32 CHR ''k'')"
  by (auto simp: honest_signer_def source_io_def verify_signed_bytes_def decode_fixed_def
      example_crypto_def unsigned_crypto_def string_bytes_def split: if_splits)

lemma stream_codec_ok: "page_codec example_crypto"
  by (simp add: page_codec_def example_crypto_def unsigned_crypto_def)

lemma commits_sent:
  assumes "sd_stream_id ds = ''x''"
  shows "commits_only example_crypto ds 0 [sent_packet]"
proof -
  have "hash_packet_sequence example_crypto ps = hash_packet_sequence unsigned_crypto ps" for ps
    by (simp add: hash_packet_sequence_def segment_hash_input_def example_crypto_def unsigned_crypto_def
        split: list.split)
  then show ?thesis
    by (auto simp: commits_only_def verify_signed_bytes_def example_crypto_def unsigned_crypto_def
        signed_page_def sent_commitment_def split: sum.splits if_splits dest!: enc_commitment_page_inj)
qed


subsection \<open>The source\<close>

definition source_descriptor :: stream_descriptor where
  "source_descriptor = \<lparr>sd_version = 1, sd_stream_id = ''x'', sd_application_id = ''app'',
     streamer_main_dht = ''s'', sd_generation = 1, commitment_root_record_key = ''r'',
     signing_public_key_hex = replicate 32 CHR ''k'', signing_key_generation = 1,
     opaque_metadata_base64 = [], packet_bytes = 24576, packets_per_segment = 32,
     sd_created_at = 5, sd_signature_hex = replicate 64 CHR ''g''\<rparr>"

definition audience_calls :: "(stream_env \<times> stream_call) list" where
  "audience_calls = [(quiet_env, Start_Stream 5 ''app'' ''x'' []),
     (quiet_env, Direct_Message 6 ''v'' (M_JoinRequest source_descriptor ''v'' 2 6))]"

definition closed_calls :: "(stream_env \<times> stream_call) list" where
  "closed_calls = audience_calls @ [(quiet_env, Write_Stream ''app'' ''x'' [1, 2, 3]),
     (quiet_env, Close_Stream 8 ''app'' ''x'' [])]"

definition audience_state :: stream_state where
  "audience_state = stream_after example_crypto ''s'' audience_calls"

definition closed_state :: stream_state where
  "closed_state = stream_after example_crypto ''s'' closed_calls"

definition audience :: outgoing_stream where
  "audience = the (map_of (outgoing audience_state) ''x'')"

definition closed_source :: outgoing_stream where
  "closed_source = the (map_of (outgoing closed_state) ''x'')"


lemma calls_external:
  "list_all (external_call ''s'' \<circ> snd) audience_calls"
  "list_all (external_call ''s'' \<circ> snd) closed_calls"
  by (simp_all add: audience_calls_def closed_calls_def external_call_def)

lemma calls_few:
  "Suc (length audience_calls) * MAX_CALL_PACKETS \<le> u64_max"
  "length closed_calls * MAX_CALL_PACKETS \<le> u64_max"
  by (simp_all add: audience_calls_def closed_calls_def MAX_CALL_PACKETS_def
      STREAM_MAX_WRITE_BYTES_def u64_max_def)

lemma audience_present: "map_of (outgoing audience_state) ''x'' = Some audience"
proof -
  have "map_of (outgoing audience_state) ''x'' \<noteq> None" by code_simp
  then show ?thesis by (auto simp: audience_def)
qed

lemma closed_present: "map_of (outgoing closed_state) ''x'' = Some closed_source"
proof -
  have "map_of (outgoing closed_state) ''x'' \<noteq> None" by code_simp
  then show ?thesis by (auto simp: closed_source_def)
qed

lemma audience_viewer: "direct_children audience = [''v'']" "map fst (participants audience) = [''v'']"
  by code_simp+

definition written :: "(stream_error + stream_write_result) \<times> stream_state \<times> stream_output list" where
  "written = write_stream example_crypto ''app'' ''x'' [1, 2, 3] audience_state"

lemma written_ok: "fst written = Inr (write_result 3 1 (the (map_of (outgoing (fst (snd written))) ''x'')))"
  by code_simp

definition published ::
  "(stream_error + stream_segment_commitment \<times> stream_commitment_hint) \<times> outgoing_stream \<times> stream_dht"
  where
  "published = commit_front example_crypto source_io 9 (hd (pending_segments closed_source))
     (closed_source, \<lambda>_ _. None)"

definition published_hint :: stream_commitment_hint where
  "published_hint = \<lparr>ht_stream_id = ''x'', ht_generation = 1, ht_segment_number = 0,
     ht_record_key = ''r'', page_location = 1\<rparr>"

lemma published_ok: "fst published = Inr (sent_commitment, published_hint)" by code_simp

lemma closed_pending: "pending_segments closed_source = [hd (pending_segments closed_source)]"
  by code_simp


subsection \<open>The viewer\<close>

definition viewer_calls :: "(stream_env \<times> stream_call) list" where
  "viewer_calls = [(quiet_env, Join_Stream 6 ''app'' source_descriptor 2),
     (quiet_env, Direct_Message 7 ''s'' (M_JoinAccepted source_descriptor ''s'' None 0 0)),
     (quiet_env, Direct_Message 7 ''s'' (M_Packet sent_packet)),
     (quiet_env, Direct_Message 9 ''s'' (M_CommitmentHint published_hint))]"

definition viewer_state :: stream_state where
  "viewer_state = stream_after example_crypto ''v'' viewer_calls"

definition viewing :: incoming_stream where
  "viewing = the (map_of (incoming viewer_state) ''x'')"

lemma viewer_present: "map_of (incoming viewer_state) ''x'' = Some viewing"
proof -
  have "map_of (incoming viewer_state) ''x'' \<noteq> None" by code_simp
  then show ?thesis by (auto simp: viewing_def)
qed

lemma viewer_calls_bounded: "list_all (bounded_call \<circ> snd) viewer_calls"
  by (simp add: viewer_calls_def bounded_call_def sent_packet_def)

lemma viewing_facts: "is_descriptor viewing = source_descriptor" "verified_commitment_hashes viewing = []"
  "received_segments viewing = [(0, \<lparr>rs_packets = [(0, sent_packet)], rs_hint = Some published_hint,
     verified = False, last_retransmit_at = 0\<rparr>)]"
  by code_simp+

lemma descriptor_facts: "os_descriptor closed_source = source_descriptor"
  "os_previous_commitment_hash closed_source = replicate 32 0"
  "hd (pending_segments closed_source) = \<lparr>ps_segment_number = 0, ps_first_sequence = 0,
     ps_packet_count = 1, ps_payload_bytes = 3,
     ps_sha256 = hash_packet_sequence example_crypto [sent_packet]\<rparr>"
  by code_simp+

subsection \<open>Witnesses\<close>

lemma relay_tree_invariant_witness: "tree_ok ''s'' audience"
  using relay_tree_invariant [of "''s''" audience_calls example_crypto "''x''" audience]
    calls_external(1) audience_present by (simp add: audience_state_def)

text \<open>The acceptance of a second viewer cannot be delivered; it is taken out of the tree again.\<close>

definition refused ::
  "stream_error option \<times> stream_state \<times> stream_output list" where
  "refused = handle_join_request example_crypto (\<lambda>_ _. Some (Transport ''down'')) ''s'' 7 ''w''
     source_descriptor ''w'' 2 7 audience_state"

lemma refused_join_is_undone_witness: "fst (snd refused) = audience_state"
proof -
  have "fst refused = Some (Transport ''down'')" by code_simp
  then have "handle_join_request example_crypto (\<lambda>_ _. Some (Transport ''down'')) ''s'' 7 ''w''
      source_descriptor ''w'' 2 7 audience_state =
      (Some (Transport ''down''), fst (snd refused), snd (snd refused))"
    by (simp add: refused_def prod_eq_iff)
  from refused_join_is_undone [OF calls_external(1) audience_state_def _ this] show ?thesis by simp
qed

lemma write_reaches_every_child_witness:
  "\<exists>ps. concat (map pk_payload ps) = [1, 2, 3] \<and>
    packets_to ''v'' (snd (snd written)) = ps \<and> packets_to ''w'' (snd (snd written)) = []"
proof -
  have run: "write_stream example_crypto ''app'' ''x'' [1, 2, 3] audience_state =
      (Inr (write_result 3 1 (the (map_of (outgoing (fst (snd written))) ''x''))),
       fst (snd written), snd (snd written))"
    using written_ok by (simp add: written_def prod_eq_iff)
  have "participants audience \<noteq> []" using audience_viewer(2) by auto
  from write_reaches_every_child [OF calls_few(1) calls_external(1) audience_state_def
      audience_present this run] show ?thesis
    unfolding audience_viewer(1) by auto
qed

lemma published_run: "commit_front example_crypto source_io 9 (hd (pending_segments closed_source))
    (closed_source, \<lambda>_ _. None) =
    (Inr (sent_commitment, published_hint), fst (snd published), snd (snd published))"
  using published_ok by (simp add: published_def prod_eq_iff)

lemma source_signer: "honest_signer example_crypto source_io
    (signing_public_key_hex (os_descriptor closed_source))"
  using source_signs by (simp add: descriptor_facts(1) source_descriptor_def)

lemma hint_key: "parse_record_key example_crypto (ht_record_key published_hint)"
  by (simp add: example_crypto_def unsigned_crypto_def)

lemma published_commitment_verifies_witness:
  "read_and_verify_commitment_page example_crypto (reads_of (snd (snd published)))
     source_descriptor published_hint = Inr sent_commitment"
  by (rule published_commitment_verifies [OF calls_few(2) closed_present [unfolded closed_state_def]
      closed_pending published_run reads_of_ok source_signer stream_codec_ok hint_key,
      THEN conjunct1, unfolded descriptor_facts(1)])

lemma commitments_form_chain_witness:
  "chained example_crypto (replicate 32 0) (committed_in (snd (snd
     (commit_pending_segments example_crypto (\<lambda>_. source_io) 9 ''x'' (closed_state, \<lambda>_ _. None)))))"
proof -
  obtain r st' d' outs where run: "commit_pending_segments example_crypto (\<lambda>_. source_io) 9 ''x''
      (closed_state, \<lambda>_ _. None) = (r, (st', d'), outs)" by (metis prod.exhaust)
  from commitments_form_chain [OF calls_few(2) closed_state_def closed_present run] run
  show ?thesis by (auto simp: descriptor_facts(2))
qed


definition attempt :: "stream_error option \<times> stream_state \<times> stream_output list" where
  "attempt = try_verify_received_segment example_crypto (\<lambda>_ _. None)
     (reads_of (snd (snd published))) 10 ''x'' 0 viewer_state"

lemma published_page: "read_and_verify_commitment_page example_crypto (reads_of (snd (snd published)))
    source_descriptor published_hint = Inr sent_commitment"
  by (rule published_commitment_holds [OF reachable_source(1) [OF calls_few(2)
      closed_present [unfolded closed_state_def]] closed_pending published_run reads_of_ok
      source_signer stream_codec_ok hint_key, THEN conjunct1, unfolded descriptor_facts(1)])

lemma sent_facts: "cm_packet_count sent_commitment = length [sent_packet]"
  "cm_sha256 sent_commitment = hash_packet_sequence example_crypto [sent_packet]"
  "length (commitment_bytes example_crypto sent_commitment) \<le> STREAM_MAX_SERIALIZED_BYTES"
  "chain_ready viewing 0 sent_commitment = Inr True"
  by code_simp+

lemma viewing_segment: "segment_of viewing 0 = \<lparr>rs_packets = [(0, sent_packet)],
    rs_hint = Some published_hint, verified = False, last_retransmit_at = 0\<rparr>"
  by (simp add: segment_of_def viewing_facts(3))

lemma viewing_application: "is_application_id viewing = ''app''" by code_simp

lemma attempt_ok: "snd (snd attempt) =
    [Emit (SegmentVerified ''app'' ''x'' 0 (hash_packet_sequence example_crypto [sent_packet]))]"
proof -
  have "read_and_verify_commitment_page example_crypto (reads_of (snd (snd published)))
      (is_descriptor viewing) published_hint = Inr sent_commitment"
    unfolding viewing_facts(1) by (rule published_page)
  note complete_segment_verifies [OF viewer_present _ _ this sent_facts(1-3) _ _ sent_facts(4),
      of "\<lambda>_ _. None" 10]
  then show ?thesis
    by (simp add: attempt_def viewing_segment sent_facts(2) viewing_application)
qed

lemma sent_is_segment: "segment_packets ''x'' 1 0 [sent_packet]"
  by (simp add: segment_packets_def packet_bounded_def sent_packet_def STREAM_PACKETS_PER_SEGMENT_def
      STREAM_PACKET_BYTES_def)

lemma verified_segment_authentic_witness:
  "\<exists>received. hash_packet_sequence example_crypto [sent_packet] =
      hash_packet_sequence example_crypto received \<and>
    set received \<subseteq> {sent_packet}"
proof -
  have run: "try_verify_received_segment example_crypto (\<lambda>_ _. None)
      (reads_of (snd (snd published))) 10 ''x'' 0 viewer_state =
      (fst attempt, fst (snd attempt), snd (snd attempt))" by (simp add: attempt_def)
  have event: "Emit (SegmentVerified ''app'' ''x'' 0
      (hash_packet_sequence example_crypto [sent_packet])) \<in> set (snd (snd attempt))"
    by (simp add: attempt_ok)
  have ids: "sd_stream_id (is_descriptor viewing) = ''x''" "sd_generation (is_descriptor viewing) = 1"
    by (simp_all add: viewing_facts(1) source_descriptor_def)
  show ?thesis
    using verified_segment_authentic [OF viewer_calls_bounded viewer_state_def run event
        viewer_present commits_sent [OF ids(1)] sent_is_segment [folded ids(2)]]
    by (auto simp: viewing_segment)
qed

lemma honest_segment_is_verified_witness:
  "\<exists>v'. try_verify_received_segment example_crypto (\<lambda>_ _. None)
      (reads_of (snd (snd published))) 10 ''x'' 0 viewer_state =
    (None, set_incoming ''x'' v' viewer_state, [Emit (SegmentVerified (is_application_id viewing) ''x'' 0
       (hash_packet_sequence example_crypto [sent_packet]))]) \<and> verified (segment_of v' 0)"
proof -
  have "map_of (received_segments viewing) 0 = Some \<lparr>rs_packets = [(0, sent_packet)],
      rs_hint = Some published_hint, verified = False, last_retransmit_at = 0\<rparr>"
    by (simp add: viewing_facts(3))
  note honest_segment_is_verified [OF calls_few(2) closed_present [unfolded closed_state_def]
      closed_pending published_run reads_of_ok source_signer stream_codec_ok hint_key _ _ _ viewer_present _ this,
      of "[sent_packet]" "\<lambda>_ _. None" 10]
  then show ?thesis by (auto simp: descriptor_facts viewing_facts(1))
qed

text \<open>A viewer that is admitted at segment 20 and then receives a packet of it.\<close>

definition late_calls :: "(stream_env \<times> stream_call) list" where
  "late_calls = [(quiet_env, Join_Stream 6 ''app'' source_descriptor 2),
     (quiet_env, Direct_Message 7 ''s'' (M_JoinAccepted source_descriptor ''s'' None 700 20))]"

definition late_state :: stream_state where
  "late_state = stream_after example_crypto ''v'' late_calls"

definition late_viewing :: incoming_stream where
  "late_viewing = the (map_of (incoming late_state) ''x'')"

definition late_packet :: stream_packet where
  "late_packet = sent_packet\<lparr>pk_segment_number := 20, pk_sequence := 700\<rparr>"

definition later_calls :: "(stream_env \<times> stream_call) list" where
  "later_calls = [(quiet_env, Direct_Message 7 ''s'' (M_Packet late_packet)),
     (quiet_env, Verify_Ready 8)]"

definition later_viewing :: incoming_stream where
  "later_viewing = the (map_of (incoming (fst (stream_run example_crypto ''v'' later_calls
     (late_state, \<lambda>_ _. None)))) ''x'')"

lemma late_viewer_never_verifies_witness: "verified_commitment_hashes later_viewing = []"
proof -
  have now: "map_of (incoming late_state) ''x'' = Some late_viewing"
  proof -
    have "map_of (incoming late_state) ''x'' \<noteq> None" by code_simp
    then show ?thesis by (auto simp: late_viewing_def)
  qed
  have later: "map_of (incoming (fst (stream_run example_crypto ''v'' later_calls
      (late_state, \<lambda>_ _. None)))) ''x'' = Some later_viewing"
  proof -
    have "map_of (incoming (fst (stream_run example_crypto ''v'' later_calls
      (late_state, \<lambda>_ _. None)))) ''x'' \<noteq> None" by code_simp
    then show ?thesis by (auto simp: later_viewing_def)
  qed
  have "map fst (incoming late_state) = [''x'']" "received_segments late_viewing = []"
    "verified_commitment_hashes late_viewing = []" "latest_segment late_viewing = 20"
    by code_simp+
  then show ?thesis
    using late_viewer_never_verifies [OF _ now, of later_calls example_crypto "''v''", OF _ _ _ _ _ _ later]
    by (auto simp: keys_distinct_def segment_of_def empty_segment_def later_calls_def no_rejoin_def
        STREAM_RECEIVED_SEGMENT_WINDOW_def)
qed

end
