(* ===== verification/Lifecycle_Record.thy ===== *)
theory Lifecycle_Record
  imports Prelude "HOL-Library.Sublist"
begin

text \<open>
  The shutdown record (\<open>src/lifecycle/record.rs\<close>) and the outcomes it is built from
  (\<open>src/lifecycle/mod.rs\<close>): a report of the last shutdown that the next start reads with a search for
  a few marks in its text. A \<open>Duration\<close> is its number of nanoseconds, a string its UTF-8 bytes.
  The directory is a map from file names to contents, with faults.
\<close>

datatype tier = Intake | Announce | Node_Dependent | Persist | Teardown | After

definition tier_label :: "tier \<Rightarrow> string" where
  "tier_label t =
    (case t of
       Intake \<Rightarrow> ''intake stop'' | Announce \<Rightarrow> ''announce'' | Node_Dependent \<Rightarrow> ''node''
     | Persist \<Rightarrow> ''persist'' | Teardown \<Rightarrow> ''teardown'' | After \<Rightarrow> ''after'')"

datatype stop_reason = Shutdown | Restart

datatype hook_result = Hook_Ok | Hook_Failed string | Overran | Skipped string

record hook_outcome =
  ho_id :: nat
  ho_module :: string
  ho_detail :: string
  ho_tier :: tier
  ho_elapsed :: nat
  ho_budget :: nat
  ho_result :: hook_result
  ho_verify :: bool

definition as_millis :: "nat \<Rightarrow> nat" where "as_millis d = d div 1000000"

subsection \<open>The record\<close>

record recorded_hook =
  rh_id :: nat
  rh_module :: string
  rh_tier :: string
  rh_detail :: string
  rh_outcome :: string
  rh_elapsed_ms :: nat
  rh_budget_ms :: nat
  rh_verify :: bool

definition recorded_hook_from :: "hook_outcome \<Rightarrow> recorded_hook" where
  "recorded_hook_from ho =
     \<lparr>rh_id = ho_id ho, rh_module = ho_module ho, rh_tier = tier_label (ho_tier ho),
      rh_detail = ho_detail ho,
      rh_outcome = (case ho_result ho of
          Hook_Ok \<Rightarrow> ''ok''
        | Hook_Failed e \<Rightarrow> ''failed: '' @ e
        | Overran \<Rightarrow> ''overran''
        | Skipped why \<Rightarrow> ''skipped: '' @ why),
      rh_elapsed_ms = as_millis (ho_elapsed ho), rh_budget_ms = as_millis (ho_budget ho),
      rh_verify = ho_verify ho\<rparr>"

record shutdown_record =
  written_at :: nat
  sr_reason :: string
  forced :: bool
  total_ms :: nat
  sr_hooks :: "recorded_hook list"

definition reason_text :: "stop_reason \<Rightarrow> string" where
  "reason_text r = (case r of Shutdown \<Rightarrow> ''Shutdown'' | Restart \<Rightarrow> ''Restart'')"

definition build_record ::
  "nat \<Rightarrow> stop_reason \<Rightarrow> bool \<Rightarrow> nat \<Rightarrow> hook_outcome list \<Rightarrow> shutdown_record" where
  "build_record now reason f whole os =
     \<lparr>written_at = now, sr_reason = reason_text reason, forced = f, total_ms = as_millis whole,
      sr_hooks = map recorded_hook_from os\<rparr>"

definition is_clean :: "shutdown_record \<Rightarrow> bool" where
  "is_clean r \<longleftrightarrow> \<not> forced r \<and>
     list_all (\<lambda>h. rh_outcome h = ''ok'' \<or> prefix ''skipped'' (rh_outcome h)) (sr_hooks r)"

definition needing_verification :: "shutdown_record \<Rightarrow> recorded_hook list" where
  "needing_verification r = filter rh_verify (sr_hooks r)"

subsection \<open>Its text\<close>

text \<open>\<open>{:04x}\<close> of a control character.\<close>

definition hex4 :: "nat \<Rightarrow> string" where
  "hex4 n = hex2 (n div 256 mod 256) @ hex2 (n mod 256)"

definition quote_char :: "char \<Rightarrow> string" where
  "quote_char c =
    (if c = CHR 0x22 then [CHR 0x5C, CHR 0x22]
     else if c = CHR 0x5C then [CHR 0x5C, CHR 0x5C]
     else if c = CHR 0x0A then [CHR 0x5C, CHR ''n'']
     else if c = CHR 0x0D then [CHR 0x5C, CHR ''r'']
     else if c = CHR 0x09 then [CHR 0x5C, CHR ''t'']
     else if (of_char c :: nat) < 32 then CHR 0x5C # CHR ''u'' # hex4 (of_char c)
     else [c])"

definition quote_text :: "string \<Rightarrow> string" where
  "quote_text s = [CHR 0x22] @ concat (map quote_char s) @ [CHR 0x22]"

definition show_bool :: "bool \<Rightarrow> string" where
  "show_bool b = (if b then ''true'' else ''false'')"

text \<open>A member name with the colon after it.\<close>

definition json_key :: "string \<Rightarrow> string" where
  "json_key k = [CHR 0x22] @ k @ [CHR 0x22, CHR '':'']"

definition hook_to_json :: "recorded_hook \<Rightarrow> string" where
  "hook_to_json h =
     ''{'' @ json_key ''id'' @ show_nat (rh_id h) @
     '','' @ json_key ''module'' @ quote_text (rh_module h) @
     '','' @ json_key ''tier'' @ quote_text (rh_tier h) @
     '','' @ json_key ''detail'' @ quote_text (rh_detail h) @
     '','' @ json_key ''outcome'' @ quote_text (rh_outcome h) @
     '','' @ json_key ''elapsed_ms'' @ show_nat (rh_elapsed_ms h) @
     '','' @ json_key ''budget_ms'' @ show_nat (rh_budget_ms h) @
     '','' @ json_key ''needs_verification'' @ show_bool (rh_verify h) @ ''}''"

fun join :: "string \<Rightarrow> string list \<Rightarrow> string" where
  "join sep [] = []"
| "join sep [x] = x"
| "join sep (x # y # ys) = x @ sep @ join sep (y # ys)"

definition record_to_json :: "shutdown_record \<Rightarrow> string" where
  "record_to_json r =
     ''{'' @ json_key ''version'' @ ''2'' @
     '','' @ json_key ''written_at'' @ show_nat (written_at r) @
     '','' @ json_key ''reason'' @ quote_text (sr_reason r) @
     '','' @ json_key ''forced'' @ show_bool (forced r) @
     '','' @ json_key ''total_ms'' @ show_nat (total_ms r) @
     '','' @ json_key ''hooks'' @ ''['' @ join '','' (map hook_to_json (sr_hooks r)) @ '']}''"

text \<open>The test of the next start on the text it finds.\<close>

definition looks_dirty :: "string \<Rightarrow> bool" where
  "looks_dirty json \<longleftrightarrow>
     sublist (json_key ''forced'' @ ''true'') json \<or>
     sublist (json_key ''outcome'' @ CHR 0x22 # ''overran'' @ [CHR 0x22]) json \<or>
     sublist (json_key ''outcome'' @ CHR 0x22 # ''failed:'') json \<or>
     sublist (json_key ''needs_verification'' @ ''true'') json"

subsection \<open>Writing and taking it\<close>

type_synonym files = "string \<Rightarrow> string option"

definition RECORD_FILE :: string where "RECORD_FILE = ''last-shutdown.json''"
definition STAGING_FILE :: string where "STAGING_FILE = ''last-shutdown.json.tmp''"

text \<open>A failed write may leave anything in the file it was writing.\<close>

record file_faults =
  write_fault :: "string option option"
  remove_fault :: bool
  rename_fault :: bool
  read_fault :: bool

definition write_record :: "file_faults \<Rightarrow> shutdown_record \<Rightarrow> files \<Rightarrow> files" where
  "write_record ff r fs =
    (case write_fault ff of
       Some left \<Rightarrow> fs(STAGING_FILE := left)
     | None \<Rightarrow>
        (let fs = fs(STAGING_FILE \<mapsto> record_to_json r) in
         if fs RECORD_FILE \<noteq> None \<and> remove_fault ff then fs
         else
          (let fs = fs(RECORD_FILE := None) in
           if rename_fault ff then fs
           else fs(RECORD_FILE := fs STAGING_FILE, STAGING_FILE := None))))"

definition take_record :: "file_faults \<Rightarrow> files \<Rightarrow> string option \<times> files" where
  "take_record ff fs =
    (if read_fault ff then (None, fs)
     else case fs RECORD_FILE of
       None \<Rightarrow> (None, fs)
     | Some raw \<Rightarrow> (Some raw, if remove_fault ff then fs else fs(RECORD_FILE := None)))"

text \<open>What the end of a shutdown leaves: a clean record is not worth keeping.\<close>

definition leave_record :: "file_faults \<Rightarrow> shutdown_record \<Rightarrow> files \<Rightarrow> files" where
  "leave_record ff r fs =
    (if is_clean r
     then (if remove_fault ff then fs else fs(RECORD_FILE := None))
     else write_record ff r fs)"

subsection \<open>A record is replaced as a whole\<close>

lemma staging_not_record [simp]: "STAGING_FILE \<noteq> RECORD_FILE" "RECORD_FILE \<noteq> STAGING_FILE"
  by (simp_all add: STAGING_FILE_def RECORD_FILE_def)

lemma write_record_whole:
  "write_record ff r fs RECORD_FILE \<in> {fs RECORD_FILE, None, Some (record_to_json r)}"
  by (simp add: write_record_def Let_def split: option.split)

lemma write_record_ok:
  "write_fault ff = None \<Longrightarrow> \<not> remove_fault ff \<Longrightarrow> \<not> rename_fault ff \<Longrightarrow>
   write_record ff r fs RECORD_FILE = Some (record_to_json r)"
  by (simp add: write_record_def Let_def)

subsection \<open>Searching the text\<close>

text \<open>
  A mark is a quoted name, a colon, and the start of a value. Inside a quoted text every quote
  follows a backslash, so a mark can only start where a member name does.
\<close>

definition plain :: "string \<Rightarrow> bool" where
  "plain n \<longleftrightarrow> n \<noteq> [] \<and> (\<forall>c \<in> set n. c \<noteq> CHR 0x22 \<and> c \<noteq> CHR 0x5C \<and> c \<noteq> CHR '':'' \<and> c \<noteq> CHR '','' \<and> c \<noteq> CHR ''}'')"

abbreviation occurs :: "string \<Rightarrow> string \<Rightarrow> string \<Rightarrow> bool" where
  "occurs k v s \<equiv> sublist (json_key k @ v) s"

lemma occurs_Cons:
  "occurs k v (c # s) \<longleftrightarrow> (c = CHR 0x22 \<and> prefix (k @ CHR 0x22 # CHR '':'' # v) s) \<or> occurs k v s"
  by (auto simp: json_key_def sublist_Cons_right)

lemma occurs_Nil [simp]: "\<not> occurs k v []"
  by (simp add: json_key_def)

lemma occurs_no_quote: "CHR 0x22 \<notin> set w \<Longrightarrow> occurs k v (w @ s) \<longleftrightarrow> occurs k v s"
  by (induction w) (auto simp: occurs_Cons)

lemma digit_not_quote: "n < 10 \<Longrightarrow> digit_char n \<noteq> CHR 0x22"
proof -
  assume "n < 10"
  then have "digit_char n \<in> set ''0123456789''" unfolding digit_char_def by (intro nth_mem) simp
  then show ?thesis by auto
qed

lemma show_nat_no_quote: "CHR 0x22 \<notin> set (show_nat n)"
proof (induction n rule: show_nat.induct)
  case (1 n)
  then show ?case
    using digit_not_quote [of n] digit_not_quote [of "n mod 10"]
    by (subst show_nat.simps) (auto simp del: digit_char_def)
qed

lemma occurs_show_nat [simp]: "occurs k v (show_nat n @ s) \<longleftrightarrow> occurs k v s"
  by (rule occurs_no_quote [OF show_nat_no_quote])

lemma occurs_show_bool [simp]: "occurs k v (show_bool b @ s) \<longleftrightarrow> occurs k v s"
  by (rule occurs_no_quote) (simp add: show_bool_def)

text \<open>Inside a quoted text no mark starts, and none runs over its end.\<close>

lemma quote_char_cases:
  obtains "quote_char c = [c]" "c \<noteq> CHR 0x22" "c \<noteq> CHR 0x5C" | w where "quote_char c = CHR 0x5C # w"
proof (cases "quote_char c = [c] \<and> c \<noteq> CHR 0x22 \<and> c \<noteq> CHR 0x5C")
  case True
  with that(1) show thesis by blast
next
  case False
  have "\<exists>w. quote_char c = CHR 0x5C # w"
  proof (cases "c \<in> {CHR 0x22, CHR 0x5C, CHR 0x0A, CHR 0x0D, CHR 0x09}")
    case True
    then show ?thesis by (auto simp: quote_char_def)
  next
    case other: False
    then have "quote_char c =
        (if (of_char c :: nat) < 32 then CHR 0x5C # CHR ''u'' # hex4 (of_char c) else [c])"
      unfolding quote_char_def by (simp split del: if_split)
    with False other show ?thesis by (cases "(of_char c :: nat) < 32") simp_all
  qed
  with that(2) show thesis by blast
qed

lemma name_not_in_quotes:
  assumes "\<forall>c \<in> set n. c \<noteq> CHR 0x22 \<and> c \<noteq> CHR 0x5C" and "c \<noteq> CHR '':''"
  shows "\<not> prefix (n @ CHR 0x22 # CHR '':'' # v) (concat (map quote_char x) @ CHR 0x22 # c # s)"
  using assms(1)
proof (induction x arbitrary: n)
  case Nil
  then show ?case using assms(2) by (cases n) auto
next
  case (Cons y x)
  show ?case
  proof (cases rule: quote_char_cases [of y])
    case 1
    with Cons show ?thesis by (cases n) auto
  next
    case (2 w)
    with Cons.prems show ?thesis by (cases n) auto
  qed
qed

lemma escape_no_mark:
  assumes "plain k" "c \<noteq> CHR '':''"
  shows "occurs k v (quote_char y @ concat (map quote_char x) @ CHR 0x22 # c # s) \<longleftrightarrow>
    occurs k v (concat (map quote_char x) @ CHR 0x22 # c # s)"
proof -
  have no: "\<not> prefix (k @ CHR 0x22 # CHR '':'' # v) (concat (map quote_char x) @ CHR 0x22 # c # s)"
    using name_not_in_quotes [of k c v x s] assms by (simp add: plain_def)
  have hex: "CHR 0x22 \<notin> set (hex4 n)" for n
  proof -
    have "hex_digit i \<in> set ''0123456789abcdef''" if "i < 16" for i
      unfolding hex_digit_def using that by (intro nth_mem) simp
    then have "CHR 0x22 \<noteq> hex_digit i" if "i < 16" for i using that by fastforce
    moreover have "m mod 256 div 16 < 16" "m mod 256 mod 16 < 16" for m :: nat
      by (simp_all add: less_mult_imp_div_less)
    ultimately show ?thesis by (simp add: hex4_def hex2_def)
  qed
  show ?thesis
    using no hex by (simp add: quote_char_def occurs_Cons occurs_no_quote)
qed

lemma occurs_quote_text:
  assumes "plain k" "c \<in> {CHR '','', CHR ''}''}"
  shows "occurs k v (quote_text x @ c # s) \<longleftrightarrow> occurs k v (c # s)"
proof -
  have "occurs k v (concat (map quote_char x) @ CHR 0x22 # c # s) \<longleftrightarrow> occurs k v (CHR 0x22 # c # s)"
    by (induction x) (use assms escape_no_mark in auto)
  moreover have "\<not> prefix (k @ CHR 0x22 # CHR '':'' # v) (c # s)"
    using assms by (cases k) (auto simp: plain_def)
  moreover have "\<not> prefix (k @ CHR 0x22 # CHR '':'' # v) (concat (map quote_char x) @ CHR 0x22 # c # s)"
    using name_not_in_quotes [of k c v x s] assms by (auto simp: plain_def)
  ultimately show ?thesis by (simp add: quote_text_def occurs_Cons)
qed

text \<open>At a member, the mark is there if its name is the member's and its value starts the member's.\<close>

lemma occurs_member:
  assumes "plain k" "plain m"
  shows "occurs k v (json_key m @ s) \<longleftrightarrow> (k = m \<and> prefix v s) \<or> occurs k v s"
proof -
  have "CHR 0x22 \<notin> set m" "CHR 0x22 \<notin> set k" using assms by (auto simp: plain_def)
  then have eq: "prefix (k @ CHR 0x22 # CHR '':'' # v) (m @ CHR 0x22 # CHR '':'' # s) \<longleftrightarrow> k = m \<and> prefix v s"
  proof (induction k arbitrary: m)
    case Nil
    then show ?case by (cases m) auto
  next
    case (Cons a k)
    then show ?case by (cases m) auto
  qed
  have "\<not> prefix (k @ CHR 0x22 # CHR '':'' # v) (CHR '':'' # s)"
    using assms(1) by (cases k) (auto simp: plain_def)
  moreover have "CHR 0x22 \<notin> set m" using assms(2) by (auto simp: plain_def)
  ultimately show ?thesis
    unfolding json_key_def [of m] using eq by (simp add: occurs_Cons occurs_no_quote)
qed

text \<open>The start of a quoted value, for characters that need no escape.\<close>

definition verbatim :: "char \<Rightarrow> bool" where
  "verbatim c \<longleftrightarrow> quote_char c = [c] \<and> c \<noteq> CHR 0x22 \<and> c \<noteq> CHR 0x5C"

lemma prefix_verbatim_Cons:
  assumes "verbatim a"
  shows "prefix (a # w) (concat (map quote_char (y # x)) @ s) \<longleftrightarrow>
    a = y \<and> prefix w (concat (map quote_char x) @ s)"
proof (cases rule: quote_char_cases [of y])
  case 1
  then show ?thesis by simp
next
  case (2 u)
  with assms have "a \<noteq> y" by (auto simp: verbatim_def)
  with 2 assms show ?thesis by (simp add: verbatim_def)
qed

lemma prefix_escaped:
  assumes "\<forall>c \<in> set w. verbatim c"
  shows "prefix w (concat (map quote_char x) @ CHR 0x22 # s) \<longleftrightarrow> prefix w x"
  using assms
proof (induction w arbitrary: x)
  case (Cons a w)
  then have a: "verbatim a" "a \<noteq> CHR 0x22" by (simp_all add: verbatim_def)
  from Cons show ?case
    by (cases x) (simp_all add: a prefix_verbatim_Cons [OF a(1), simplified])
qed simp

lemma prefix_escaped_whole:
  assumes "\<forall>c \<in> set w. verbatim c"
  shows "prefix (w @ [CHR 0x22]) (concat (map quote_char x) @ CHR 0x22 # s) \<longleftrightarrow> x = w"
  using assms
proof (induction w arbitrary: x)
  case Nil
  show ?case
  proof (cases x)
    case (Cons y ys)
    then show ?thesis by (cases rule: quote_char_cases [of y]) auto
  qed simp
next
  case (Cons a w)
  then have a: "verbatim a" "a \<noteq> CHR 0x22" by (simp_all add: verbatim_def)
  from Cons show ?case
    by (cases x) (auto simp: a prefix_verbatim_Cons [OF a(1), simplified])
qed

lemma quoted_marks:
  "prefix (CHR 0x22 # ''overran'' @ [CHR 0x22]) (quote_text x @ s) \<longleftrightarrow> x = ''overran''"
  "prefix (CHR 0x22 # ''failed:'') (quote_text x @ s) \<longleftrightarrow> prefix ''failed:'' x"
proof -
  have "\<forall>c \<in> set ''overran''. verbatim c" "\<forall>c \<in> set ''failed:''. verbatim c"
    by (simp_all add: verbatim_def quote_char_def)
  from prefix_escaped_whole [OF this(1), of x s] prefix_escaped [OF this(2), of x s]
  show "prefix (CHR 0x22 # ''overran'' @ [CHR 0x22]) (quote_text x @ s) \<longleftrightarrow> x = ''overran''"
    and "prefix (CHR 0x22 # ''failed:'') (quote_text x @ s) \<longleftrightarrow> prefix ''failed:'' x"
    by (simp_all add: quote_text_def)
qed

lemma prefix_true [simp]: "prefix ''true'' (show_bool b @ s) \<longleftrightarrow> b"
  by (simp add: show_bool_def)

subsection \<open>What the marks say\<close>

lemmas occurs_simps = occurs_member occurs_quote_text occurs_Cons plain_def

lemma occurs_hook:
  "occurs ''forced'' v (hook_to_json h @ s) \<longleftrightarrow> occurs ''forced'' v s"
  "occurs ''needs_verification'' ''true'' (hook_to_json h @ s) \<longleftrightarrow>
     rh_verify h \<or> occurs ''needs_verification'' ''true'' s"
  "occurs ''outcome'' v (hook_to_json h @ s) \<longleftrightarrow>
     prefix v (quote_text (rh_outcome h) @ '','' @ json_key ''elapsed_ms'' @ show_nat (rh_elapsed_ms h) @
       '','' @ json_key ''budget_ms'' @ show_nat (rh_budget_ms h) @
       '','' @ json_key ''needs_verification'' @ show_bool (rh_verify h) @ ''}'' @ s) \<or>
     occurs ''outcome'' v s"
  by (simp_all add: hook_to_json_def occurs_simps)

lemma join_Cons: "join sep (x # xs) = x @ concat (map (\<lambda>y. sep @ y) xs)"
  by (induction xs arbitrary: x) simp_all

lemma occurs_join:
  assumes hook: "\<And>h s. occurs k v (f h @ s) \<longleftrightarrow> P h \<or> occurs k v s"
  shows "occurs k v (join '','' (map f hs) @ s) \<longleftrightarrow> (\<exists>h \<in> set hs. P h) \<or> occurs k v s"
proof (cases hs)
  case (Cons h hs')
  have "occurs k v (concat (map (\<lambda>y. '','' @ f y) hs') @ s) \<longleftrightarrow> (\<exists>h \<in> set hs'. P h) \<or> occurs k v s"
    by (induction hs') (auto simp: occurs_Cons hook)
  then show ?thesis by (auto simp: Cons join_Cons hook comp_def)
qed simp

text \<open>
  The search for marks cannot be misled by what a hook or an error message says: it finds exactly
  the forced stops, the hooks that overran or failed, and those that need verification.
\<close>

lemma looks_dirty_record:
  "looks_dirty (record_to_json r) \<longleftrightarrow> forced r \<or>
    (\<exists>h \<in> set (sr_hooks r). rh_outcome h = ''overran'' \<or> prefix ''failed:'' (rh_outcome h) \<or> rh_verify h)"
proof -
  have "occurs ''forced'' ''true'' (record_to_json r) \<longleftrightarrow> forced r"
    using occurs_join [where f = hook_to_json and k = "''forced''" and v = "''true''" and
        P = "\<lambda>_. False" and hs = "sr_hooks r" and s = "'']}''"]
    by (simp add: record_to_json_def occurs_simps occurs_hook)
  moreover have "occurs ''needs_verification'' ''true'' (record_to_json r) \<longleftrightarrow>
      (\<exists>h \<in> set (sr_hooks r). rh_verify h)"
    using occurs_join [OF occurs_hook(2), where hs = "sr_hooks r" and s = "'']}''"]
    by (simp add: record_to_json_def occurs_simps)
  moreover have "occurs ''outcome'' (CHR 0x22 # ''overran'' @ [CHR 0x22]) (record_to_json r) \<longleftrightarrow>
      (\<exists>h \<in> set (sr_hooks r). rh_outcome h = ''overran'')"
    using occurs_join [OF occurs_hook(3) [of "CHR 0x22 # ''overran'' @ [CHR 0x22]", unfolded quoted_marks],
        where hs = "sr_hooks r" and s = "'']}''"]
    by (simp add: record_to_json_def occurs_simps)
  moreover have "occurs ''outcome'' (CHR 0x22 # ''failed:'') (record_to_json r) \<longleftrightarrow>
      (\<exists>h \<in> set (sr_hooks r). prefix ''failed:'' (rh_outcome h))"
    using occurs_join [OF occurs_hook(3) [of "CHR 0x22 # ''failed:''", unfolded quoted_marks],
        where hs = "sr_hooks r" and s = "'']}''"]
    by (simp add: record_to_json_def occurs_simps)
  ultimately show ?thesis unfolding looks_dirty_def by blast
qed

end
