(* ===== verification/Lifecycle_Stop.thy ===== *)
theory Lifecycle_Stop
  imports Lifecycle_Record
begin

text \<open>
  The shutdown coordinator \<open>Lifecycle\<close> (\<open>src/lifecycle/mod.rs\<close>): hooks are registered with what they
  need, and a stop runs them tier by tier. What the hooks of a tier did is a \<open>tier_report\<close>: the tasks
  in the order in which they were joined, and whether all were joined before the ceiling of the tier.
  Durations are nanoseconds.
\<close>

subsection \<open>Hooks and budgets\<close>

datatype resource_need = No_Need | Storage_Need | Veilid_Node_Need | Network_Need
datatype shutdown_phase = Automatic | Teardown_Phase | After_Phase
datatype reachability = Reachable | Unreachable | Unknown
datatype watchdog_action = Exit_Process | Report_Only

record budgets =
  b_intake :: nat
  b_announce :: nat
  b_node :: nat
  b_persist :: nat
  b_teardown :: nat
  b_after :: nat
  b_watchdog :: nat
  b_default_hook :: nat

definition secs :: "nat \<Rightarrow> nat" where "secs n = n * 1000000000"

definition budgets_default :: budgets where
  "budgets_default =
     \<lparr>b_intake = secs 4, b_announce = secs 12, b_node = secs 18, b_persist = secs 6,
      b_teardown = secs 10, b_after = secs 2, b_watchdog = secs 65, b_default_hook = secs 3\<rparr>"

definition for_tier :: "budgets \<Rightarrow> tier \<Rightarrow> nat" where
  "for_tier b t =
    (case t of
       Intake \<Rightarrow> b_intake b | Announce \<Rightarrow> b_announce b | Node_Dependent \<Rightarrow> b_node b
     | Persist \<Rightarrow> b_persist b | Teardown \<Rightarrow> b_teardown b | After \<Rightarrow> b_after b)"

definition TIER_ORDER :: "tier list" where
  "TIER_ORDER = [Intake, Announce, Node_Dependent, Persist, Teardown, After]"

definition timeout_blocks_later_tiers :: "tier \<Rightarrow> bool" where
  "timeout_blocks_later_tiers t \<longleftrightarrow> t \<in> {Intake, Announce, Node_Dependent, Teardown}"

record hook =
  hook_id :: nat
  hook_module :: string
  hook_detail :: string
  hook_need :: resource_need
  hook_phase :: shutdown_phase
  hook_budget :: nat
  skip_on_restart :: bool
  continue_after_timeout :: bool

definition hook_tier :: "hook \<Rightarrow> tier" where
  "hook_tier h =
    (case hook_phase h of
       Teardown_Phase \<Rightarrow> Teardown
     | After_Phase \<Rightarrow> After
     | Automatic \<Rightarrow>
        (case hook_need h of
           Network_Need \<Rightarrow> Announce | Veilid_Node_Need \<Rightarrow> Node_Dependent
         | Storage_Need \<Rightarrow> Persist | No_Need \<Rightarrow> Intake))"

record hook_spec =
  spec_module :: string
  spec_detail :: string
  spec_need :: resource_need
  spec_phase :: shutdown_phase
  spec_budget :: nat
  spec_skip_on_restart :: bool
  spec_continue_after_timeout :: bool

definition spec_new :: "string \<Rightarrow> resource_need \<Rightarrow> hook_spec" where
  "spec_new m need =
     \<lparr>spec_module = m, spec_detail = [], spec_need = need, spec_phase = Automatic,
      spec_budget = secs 3, spec_skip_on_restart = False, spec_continue_after_timeout = False\<rparr>"

definition spec_teardown :: "string \<Rightarrow> hook_spec" where
  "spec_teardown m =
     (spec_new m Veilid_Node_Need)\<lparr>spec_phase := Teardown_Phase, spec_budget := secs 10\<rparr>"

definition spec_after_teardown :: "string \<Rightarrow> hook_spec" where
  "spec_after_teardown m = (spec_new m No_Need)\<lparr>spec_phase := After_Phase, spec_budget := secs 2\<rparr>"

subsection \<open>Progress of a hook\<close>

record progress =
  step :: string
  needs_verification :: bool

datatype progress_call = Step string | Fragile string | Settled string

definition progress_new :: "string \<Rightarrow> progress" where
  "progress_new initial = \<lparr>step = initial, needs_verification = False\<rparr>"

fun report_progress :: "progress_call \<Rightarrow> progress \<Rightarrow> progress" where
  "report_progress (Step d) p = p\<lparr>step := d\<rparr>"
| "report_progress (Fragile d) p = p\<lparr>needs_verification := True, step := d\<rparr>"
| "report_progress (Settled d) p = p\<lparr>needs_verification := False, step := d\<rparr>"

definition progress_after :: "progress \<Rightarrow> progress_call list \<Rightarrow> progress" where
  "progress_after p cs = foldl (\<lambda>p c. report_progress c p) p cs"

definition first_progress :: "hook \<Rightarrow> progress" where
  "first_progress h = progress_new (if hook_detail h = [] then ''starting'' else hook_detail h)"

subsection \<open>What a tier's tasks did\<close>

text \<open>How the action of a hook came back through its timeout.\<close>

datatype action_end = Completed | Errored string | Panicked_With string | Timed_Out

record task_end =
  te_action :: action_end
  te_elapsed :: nat
  te_calls :: "progress_call list"

datatype joined = Joined nat task_end | Join_Error

text \<open>\<open>live\<close> is what is seen of a hook that is still in flight: its time and its calls so far.\<close>

record tier_report =
  joins :: "joined list"
  joined_all :: bool
  live :: "nat \<Rightarrow> nat \<times> progress_call list"

definition hook_result_of :: "nat \<Rightarrow> task_end \<Rightarrow> hook_result" where
  "hook_result_of budget te =
    (let r = (case te_action te of
                Completed \<Rightarrow> Hook_Ok
              | Errored e \<Rightarrow> Hook_Failed e
              | Panicked_With p \<Rightarrow> Hook_Failed (''shutdown hook panicked: '' @ p)
              | Timed_Out \<Rightarrow> Overran)
     in if r = Hook_Ok \<and> budget < te_elapsed te then Overran else r)"

definition task_outcome :: "tier \<Rightarrow> nat \<Rightarrow> hook \<Rightarrow> task_end \<Rightarrow> hook_outcome" where
  "task_outcome t tier_budget h te =
    (let budget = min (hook_budget h) tier_budget;
         p = progress_after (first_progress h) (te_calls te)
     in \<lparr>ho_id = hook_id h, ho_module = hook_module h, ho_detail = step p, ho_tier = t,
         ho_elapsed = te_elapsed te, ho_budget = budget, ho_result = hook_result_of budget te,
         ho_verify = needs_verification p\<rparr>)"

record running_hook =
  rn_id :: nat
  rn_module :: string
  rn_tier :: tier
  rn_budget :: nat
  rn_progress :: progress

text \<open>The list that the watchdog sees, and the hooks in flight.\<close>

record progress_state =
  completed :: "hook_outcome list"
  running :: "(nat \<times> running_hook) list"

record collecting =
  c_outcomes :: "hook_outcome list"
  c_expected :: "(nat \<times> string \<times> progress \<times> nat) list"
  c_state :: progress_state

definition remember_completed :: "hook_outcome \<Rightarrow> progress_state \<Rightarrow> progress_state" where
  "remember_completed ho ps = ps\<lparr>completed := completed ps @ [ho]\<rparr>"

fun collect :: "tier \<Rightarrow> nat \<Rightarrow> hook list \<Rightarrow> joined list \<Rightarrow> collecting \<Rightarrow> collecting" where
  "collect t b hs [] c = c"
| "collect t b hs (Join_Error # js) c = collect t b hs js c"
| "collect t b hs (Joined i te # js) c =
     (case List.find (\<lambda>h. hook_id h = i) hs of
        None \<Rightarrow> collect t b hs js c
      | Some h \<Rightarrow>
         (let ho = task_outcome t b h te;
              ps = c_state c;
              ps = remember_completed ho (ps\<lparr>running := AList.delete i (running ps)\<rparr>)
          in collect t b hs js
               \<lparr>c_outcomes = c_outcomes c @ [ho], c_expected = AList.delete i (c_expected c),
                c_state = ps\<rparr>))"

record tier_run =
  tr_outcomes :: "hook_outcome list"
  uncooperative :: bool
  blocking_timeout :: bool

definition start_hooks :: "tier \<Rightarrow> nat \<Rightarrow> hook list \<Rightarrow> progress_state \<Rightarrow> progress_state" where
  "start_hooks t b hs ps =
     ps\<lparr>running := foldl (\<lambda>m h. AList.update (hook_id h)
          \<lparr>rn_id = hook_id h, rn_module = hook_module h, rn_tier = t,
           rn_budget = min (hook_budget h) b, rn_progress = first_progress h\<rparr> m) (running ps) hs\<rparr>"

definition expected_of :: "nat \<Rightarrow> hook list \<Rightarrow> (nat \<times> string \<times> progress \<times> nat) list" where
  "expected_of b hs =
     foldl (\<lambda>m h. AList.update (hook_id h)
         (hook_module h, first_progress h, min (hook_budget h) b) m) [] hs"

definition continue_of :: "hook list \<Rightarrow> (nat \<times> bool) list" where
  "continue_of hs = foldl (\<lambda>m h. AList.update (hook_id h) (continue_after_timeout h) m) [] hs"

definition blocking_outcome :: "hook list \<Rightarrow> hook_outcome \<Rightarrow> bool" where
  "blocking_outcome hs ho \<longleftrightarrow> ho_result ho = Overran \<and>
     \<not> (case map_of (continue_of hs) (ho_id ho) of None \<Rightarrow> False | Some c \<Rightarrow> c)"

text \<open>A hook that was still outstanding when the tier reached its ceiling.\<close>

definition outstanding ::
  "tier \<Rightarrow> tier_report \<Rightarrow> nat \<times> string \<times> progress \<times> nat \<Rightarrow> hook_outcome" where
  "outstanding t rep x =
    (let (i, m, p, budget) = x; (elapsed, calls) = live rep i; p = progress_after p calls in
     \<lparr>ho_id = i, ho_module = m, ho_detail = step p, ho_tier = t, ho_elapsed = elapsed,
      ho_budget = budget, ho_result = Overran, ho_verify = needs_verification p\<rparr>)"

definition run_tier ::
  "budgets \<Rightarrow> tier \<Rightarrow> tier_report \<Rightarrow> hook list \<Rightarrow> progress_state \<Rightarrow> tier_run \<times> progress_state" where
  "run_tier bs t rep hs ps =
    (let b = for_tier bs t;
         c = collect t b hs (joins rep)
               \<lparr>c_outcomes = [], c_expected = expected_of b hs, c_state = start_hooks t b hs ps\<rparr>
     in if joined_all rep
        then (\<lparr>tr_outcomes = c_outcomes c, uncooperative = False,
               blocking_timeout = timeout_blocks_later_tiers t \<and>
                 list_ex (blocking_outcome hs) (c_outcomes c)\<rparr>, c_state c)
        else (\<lparr>tr_outcomes =
                 c_outcomes c @ map (outstanding t rep) (sort_key fst (c_expected c)),
               uncooperative = True, blocking_timeout = True\<rparr>, c_state c))"

subsection \<open>The coordinator\<close>

record lifecycle =
  lc_hooks :: "hook list"
  next_hook_id :: nat
  stopping :: bool
  lc_budgets :: budgets
  watchdog :: watchdog_action
  watchdog_fired :: bool
  watchdog_left_armed :: bool
  data_dir :: "string option"
  lc_progress :: progress_state

definition lifecycle_with :: "budgets \<Rightarrow> watchdog_action \<Rightarrow> lifecycle" where
  "lifecycle_with bs w =
     \<lparr>lc_hooks = [], next_hook_id = 1, stopping = False, lc_budgets = bs, watchdog = w,
      watchdog_fired = False, watchdog_left_armed = False, data_dir = None,
      lc_progress = \<lparr>completed = [], running = []\<rparr>\<rparr>"

definition set_data_dir :: "string \<Rightarrow> lifecycle \<Rightarrow> lifecycle" where
  "set_data_dir d lc = lc\<lparr>data_dir := Some d\<rparr>"

definition register :: "hook_spec \<Rightarrow> lifecycle \<Rightarrow> nat \<times> lifecycle" where
  "register spec lc =
    (let i = next_hook_id lc in
     (i, lc\<lparr>next_hook_id := (i + 1) mod 2 ^ 64,
            lc_hooks := lc_hooks lc @
              [\<lparr>hook_id = i, hook_module = spec_module spec, hook_detail = spec_detail spec,
                hook_need = spec_need spec, hook_phase = spec_phase spec,
                hook_budget = spec_budget spec, skip_on_restart = spec_skip_on_restart spec,
                continue_after_timeout = spec_continue_after_timeout spec\<rparr>]\<rparr>))"

definition has_running_hooks :: "lifecycle \<Rightarrow> bool" where
  "has_running_hooks lc \<longleftrightarrow> running (lc_progress lc) \<noteq> []"

text \<open>What a stop meets: the reports of the tiers, and whether the watchdog has fired by the end of
  each.\<close>

record stop_calls =
  refreshed :: reachability
  reports :: "tier \<Rightarrow> tier_report"
  fired_after :: "tier \<Rightarrow> bool"
  stop_elapsed :: nat
  wall_clock :: nat
  faults :: file_faults

definition skipped_outcome :: "tier \<Rightarrow> string \<Rightarrow> hook \<Rightarrow> hook_outcome" where
  "skipped_outcome t why h =
     \<lparr>ho_id = hook_id h, ho_module = hook_module h, ho_detail = hook_detail h, ho_tier = t,
      ho_elapsed = 0, ho_budget = hook_budget h, ho_result = Skipped why, ho_verify = False\<rparr>"

definition tier_skip :: "stop_reason \<Rightarrow> bool \<Rightarrow> tier \<Rightarrow> string option" where
  "tier_skip reason reach t =
    (if t = Announce \<and> reason = Restart then Some ''restart''
     else if t = Announce \<and> \<not> reach then Some ''network unreachable''
     else None)"

definition remember_all :: "hook_outcome list \<Rightarrow> progress_state \<Rightarrow> progress_state" where
  "remember_all os ps = foldl (\<lambda>ps ho. remember_completed ho ps) ps os"

text \<open>
  One tier: the outcomes it adds, and whether the later tiers are given up (the watchdog then stays
  armed).
\<close>

definition stop_tier ::
  "stop_reason \<Rightarrow> bool \<Rightarrow> stop_calls \<Rightarrow> tier \<Rightarrow> hook list \<Rightarrow> lifecycle \<Rightarrow>
   hook_outcome list \<times> bool \<times> lifecycle" where
  "stop_tier reason reach calls t hs lc =
    (if hs = [] then ([], False, lc)
     else case tier_skip reason reach t of
       Some why \<Rightarrow>
         (let os = map (skipped_outcome t why) hs
          in (os, False, lc\<lparr>lc_progress := remember_all os (lc_progress lc)\<rparr>))
     | None \<Rightarrow>
         (let skip = (if reason = Restart then filter skip_on_restart hs else []);
              hs = (if reason = Restart then filter (\<lambda>h. \<not> skip_on_restart h) hs else hs);
              os = map (skipped_outcome t ''restart'') skip;
              lc = lc\<lparr>lc_progress := remember_all os (lc_progress lc)\<rparr>
          in if hs = [] then (os, False, lc)
             else
              (case run_tier (lc_budgets lc) t (reports calls t) hs (lc_progress lc) of
                 (run, ps) \<Rightarrow>
                   (let lc = lc\<lparr>lc_progress := ps,
                                watchdog_fired := watchdog_fired lc \<or> fired_after calls t\<rparr>
                    in (os @ tr_outcomes run,
                        uncooperative run \<or> blocking_timeout run \<or>
                        (watchdog lc = Report_Only \<and> watchdog_fired lc), lc)))))"

fun stop_tiers ::
  "stop_reason \<Rightarrow> bool \<Rightarrow> stop_calls \<Rightarrow> hook list \<Rightarrow> tier list \<Rightarrow> lifecycle \<Rightarrow>
   hook_outcome list \<times> bool \<times> lifecycle" where
  "stop_tiers reason reach calls hs [] lc = ([], False, lc)"
| "stop_tiers reason reach calls hs (t # ts) lc =
     (case stop_tier reason reach calls t (filter (\<lambda>h. hook_tier h = t) hs) lc of
        (os, gave_up, lc) \<Rightarrow>
          if gave_up then (os, True, lc)
          else (case stop_tiers reason reach calls hs ts lc of
                  (os', left_armed, lc) \<Rightarrow> (os @ os', left_armed, lc)))"

definition stop ::
  "stop_calls \<Rightarrow> stop_reason \<Rightarrow> reachability \<Rightarrow> lifecycle \<times> files \<Rightarrow>
   hook_outcome list \<times> lifecycle \<times> files" where
  "stop calls reason reachability s =
    (let (lc, fs) = s in
     if stopping lc then ([], lc, fs)
     else
      (let lc = lc\<lparr>stopping := True, lc_progress := \<lparr>completed = [], running = []\<rparr>,
                   watchdog_left_armed := False\<rparr>;
           reach = (case reachability of
                      Reachable \<Rightarrow> True | Unreachable \<Rightarrow> False
                    | Unknown \<Rightarrow> refreshed calls = Reachable);
           hs = lc_hooks lc;
           lc = lc\<lparr>lc_hooks := []\<rparr>
       in case stop_tiers reason reach calls hs TIER_ORDER lc of
            (os, left_armed, lc) \<Rightarrow>
              (os, lc\<lparr>watchdog_left_armed := left_armed\<rparr>,
               if data_dir lc = None then fs
               else leave_record (faults calls)
                 (build_record (wall_clock calls) reason False (stop_elapsed calls) os) fs)))"

definition take_previous_record :: "file_faults \<Rightarrow> lifecycle \<times> files \<Rightarrow> string option \<times> files" where
  "take_previous_record ff s =
    (if data_dir (fst s) = None then (None, snd s) else take_record ff (snd s))"

subsection \<open>The watchdog\<close>

text \<open>Its snapshot: what has completed, and every hook in flight as overrun (in order of the ids).\<close>

definition snapshot_for_watchdog ::
  "(nat \<Rightarrow> nat \<times> progress_call list) \<Rightarrow> progress_state \<Rightarrow> hook_outcome list" where
  "snapshot_for_watchdog lv ps =
     completed ps @
     map (\<lambda>(i, rn). let (elapsed, calls) = lv i; p = progress_after (rn_progress rn) calls in
            \<lparr>ho_id = rn_id rn, ho_module = rn_module rn, ho_detail = step p, ho_tier = rn_tier rn,
             ho_elapsed = elapsed, ho_budget = rn_budget rn, ho_result = Overran,
             ho_verify = needs_verification p\<rparr>)
       (sort_key fst (running ps))"

definition watchdog_fires ::
  "nat \<Rightarrow> (nat \<Rightarrow> nat \<times> progress_call list) \<Rightarrow> file_faults \<Rightarrow> stop_reason \<Rightarrow> lifecycle \<times> files \<Rightarrow>
   lifecycle \<times> files" where
  "watchdog_fires clock lv ff reason s =
    (let (lc, fs) = s in
     (lc\<lparr>watchdog_fired := True\<rparr>,
      if data_dir lc = None then fs
      else write_record ff
        (build_record clock reason True (b_watchdog (lc_budgets lc))
          (snapshot_for_watchdog lv (lc_progress lc))) fs))"

end
