(* ===== verification/Lifecycle_Tiers.thy ===== *)
theory Lifecycle_Tiers
  imports Lifecycle_Stop
begin

text \<open>
  What a stop reports of its hooks: every hook of a tier that was run has exactly one outcome, and
  the tiers after a timeout that leaves work behind are not touched.
\<close>

subsection \<open>The order of the tiers\<close>

definition tier_rank :: "tier \<Rightarrow> nat" where
  "tier_rank t =
    (case t of
       Intake \<Rightarrow> 0 | Announce \<Rightarrow> 1 | Node_Dependent \<Rightarrow> 2 | Persist \<Rightarrow> 3 | Teardown \<Rightarrow> 4 | After \<Rightarrow> 5)"

lemma tier_rank_inj: "tier_rank s = tier_rank t \<longleftrightarrow> s = t"
  by (cases s; cases t) (simp_all add: tier_rank_def)

instantiation tier :: linorder
begin

definition less_eq_tier :: "tier \<Rightarrow> tier \<Rightarrow> bool" where
  "less_eq_tier s t \<longleftrightarrow> tier_rank s \<le> tier_rank t"

definition less_tier :: "tier \<Rightarrow> tier \<Rightarrow> bool" where
  "less_tier s t \<longleftrightarrow> tier_rank s < tier_rank t"

instance
  by standard (auto simp: less_eq_tier_def less_tier_def simp flip: tier_rank_inj)

end

lemma tier_order: "sorted_wrt (<) TIER_ORDER" "t \<in> set TIER_ORDER"
  by (simp_all add: TIER_ORDER_def less_tier_def tier_rank_def, cases t, simp_all)

subsection \<open>Reports that fit their hooks\<close>

fun joined_tasks :: "joined list \<Rightarrow> (nat \<times> task_end) list" where
  "joined_tasks [] = []"
| "joined_tasks (Join_Error # js) = joined_tasks js"
| "joined_tasks (Joined i te # js) = (i, te) # joined_tasks js"

text \<open>Every task is joined at most once and none is lost; all are joined when the report says so.\<close>

definition report_fits :: "hook list \<Rightarrow> tier_report \<Rightarrow> bool" where
  "report_fits hs rep \<longleftrightarrow>
     distinct (map fst (joined_tasks (joins rep))) \<and>
     fst ` set (joined_tasks (joins rep)) \<subseteq> hook_id ` set hs \<and>
     (joined_all rep \<longrightarrow> hook_id ` set hs \<subseteq> fst ` set (joined_tasks (joins rep)))"

definition runnable :: "stop_reason \<Rightarrow> hook list \<Rightarrow> hook list" where
  "runnable reason hs = (if reason = Restart then filter (\<lambda>h. \<not> skip_on_restart h) hs else hs)"

definition calls_fit :: "stop_reason \<Rightarrow> stop_calls \<Rightarrow> hook list \<Rightarrow> bool" where
  "calls_fit reason calls hs \<longleftrightarrow>
     (\<forall>t. report_fits (runnable reason (filter (\<lambda>h. hook_tier h = t) hs)) (reports calls t))"

definition ids_ok :: "lifecycle \<Rightarrow> bool" where
  "ids_ok lc \<longleftrightarrow> distinct (map hook_id (lc_hooks lc)) \<and> (\<forall>h \<in> set (lc_hooks lc). hook_id h < next_hook_id lc)"

lemma ids_ok_start: "ids_ok (lifecycle_with bs w)"
  by (simp add: ids_ok_def lifecycle_with_def)

lemma ids_ok_register:
  "ids_ok lc \<Longrightarrow> next_hook_id lc < u64_max \<Longrightarrow> ids_ok (snd (register spec lc))"
  by (fastforce simp: ids_ok_def register_def Let_def u64_max_def)

definition hook_key :: "hook \<Rightarrow> nat \<times> string \<times> tier" where
  "hook_key h = (hook_id h, hook_module h, hook_tier h)"

definition outcome_key :: "hook_outcome \<Rightarrow> nat \<times> string \<times> tier" where
  "outcome_key ho = (ho_id ho, ho_module ho, ho_tier ho)"

subsection \<open>One tier\<close>

lemma foldl_update_fresh:
  "distinct (map f xs) \<Longrightarrow> f ` set xs \<inter> fst ` set m = {} \<Longrightarrow>
   foldl (\<lambda>m x. AList.update (f x) (g x) m) m xs = m @ map (\<lambda>x. (f x, g x)) xs"
proof (induction xs arbitrary: m)
  case (Cons x xs)
  have "AList.update (f x) (g x) m = m @ [(f x, g x)]"
    using Cons.prems(2) by (induction m) auto
  with Cons show ?case by (auto simp: image_iff)
qed simp

lemma map_of_hooks:
  assumes "distinct (map hook_id hs)" "h \<in> set hs"
  shows "map_of (map (\<lambda>h. (hook_id h, f h)) hs) (hook_id h) = Some (f h)"
  by (rule map_of_is_SomeI) (use assms in \<open>auto simp: comp_def\<close>)

lemma find_hook:
  assumes "distinct (map hook_id hs)" "h \<in> set hs"
  shows "List.find (\<lambda>h'. hook_id h' = hook_id h) hs = Some h"
  using assms by (induction hs) auto

definition task_of :: "hook list \<Rightarrow> nat \<Rightarrow> hook" where
  "task_of hs i = the (List.find (\<lambda>h. hook_id h = i) hs)"

lemma task_of_hook:
  assumes "distinct (map hook_id hs)" "i \<in> hook_id ` set hs"
  shows "task_of hs i \<in> set hs" "hook_id (task_of hs i) = i"
proof -
  from assms(2) obtain h where "h \<in> set hs" "hook_id h = i" by auto
  with find_hook [OF assms(1)] show "task_of hs i \<in> set hs" "hook_id (task_of hs i) = i"
    by (auto simp: task_of_def)
qed

lemma collect_parts:
  assumes "distinct (map hook_id hs)" "fst ` set (joined_tasks js) \<subseteq> hook_id ` set hs"
  shows "c_outcomes (collect t b hs js c) =
      c_outcomes c @ map (\<lambda>(i, te). task_outcome t b (task_of hs i) te) (joined_tasks js) \<and>
    c_expected (collect t b hs js c) =
      filter (\<lambda>x. fst x \<notin> fst ` set (joined_tasks js)) (c_expected c)"
  using assms(2)
proof (induction js arbitrary: c rule: joined_tasks.induct)
  case (3 i te js)
  then have "i \<in> hook_id ` set hs" by simp
  then obtain h where "h \<in> set hs" "hook_id h = i" by blast
  then have "List.find (\<lambda>h. hook_id h = i) hs = Some h" using find_hook [OF assms(1)] by blast
  with 3 show ?case by (auto simp: Let_def task_of_def AList.delete_eq intro!: filter_cong)
qed simp_all

lemma task_outcome_key: "hook_tier h = t \<Longrightarrow> outcome_key (task_outcome t b h te) = hook_key h"
  by (simp add: outcome_key_def hook_key_def task_outcome_def Let_def)

lemma run_tier_keys:
  assumes "distinct (map hook_id hs)" "report_fits hs rep" "\<forall>h \<in> set hs. hook_tier h = t"
  shows "mset (map outcome_key (tr_outcomes (fst (run_tier bs t rep hs ps)))) = mset (map hook_key hs)"
proof -
  let ?b = "for_tier bs t" and ?J = "joined_tasks (joins rep)"
  let ?ids = "map fst ?J"
  have fits: "distinct ?ids" "set ?ids \<subseteq> hook_id ` set hs"
    "joined_all rep \<Longrightarrow> hook_id ` set hs \<subseteq> set ?ids"
    using assms(2) by (simp_all add: report_fits_def)
  define key where "key = hook_key \<circ> task_of hs"
  have key: "map hook_key hs = map key (map hook_id hs)"
    using find_hook [OF assms(1)] by (simp add: key_def task_of_def)
  have joined: "map outcome_key (map (\<lambda>(i, te). task_outcome t ?b (task_of hs i) te) ?J) = map key ?ids"
    using fits(2) task_of_hook [OF assms(1)] assms(3)
    by (auto simp: key_def task_outcome_key subset_eq)
  have expected: "expected_of ?b hs = map (\<lambda>h. (hook_id h, hook_module h, first_progress h, min (hook_budget h) ?b)) hs"
    using foldl_update_fresh [of hook_id hs "[]"] assms(1) by (simp add: expected_of_def)
  let ?late = "filter (\<lambda>h. hook_id h \<notin> set ?ids) hs"
  have late: "map (outcome_key \<circ> outstanding t rep)
      (filter (\<lambda>x. fst x \<notin> fst ` set ?J) (expected_of ?b hs)) = map hook_key ?late"
    using assms(3)
    by (auto simp: expected filter_map comp_def outcome_key_def outstanding_def hook_key_def Let_def
        split: prod.split)
  define fin where "fin = map (\<lambda>(i, te). task_outcome t ?b (task_of hs i) te) ?J"
  have run: "tr_outcomes (fst (run_tier bs t rep hs ps)) =
      fin @ (if joined_all rep then []
              else map (outstanding t rep)
                (sort_key fst (filter (\<lambda>x. fst x \<notin> fst ` set ?J) (expected_of ?b hs))))"
    using collect_parts [OF assms(1), of "joins rep" t ?b] fits(2)
    by (simp add: run_tier_def Let_def fin_def)
  have keys: "mset (map outcome_key fin) = image_mset key (mset ?ids)"
    by (simp only: fin_def joined mset_map)
  have all: "mset (map hook_key hs) = image_mset key (mset (map hook_id hs))"
    by (simp only: key mset_map)
  show ?thesis
  proof (cases "joined_all rep")
    case True
    then have "set ?ids = set (map hook_id hs)" using fits by auto
    then have "mset ?ids = mset (map hook_id hs)"
      using fits(1) assms(1) by (metis set_eq_iff_mset_eq_distinct)
    with True show ?thesis by (simp only: run keys all if_True append_Nil2)
  next
    case False
    have "mset (filter (\<lambda>i. i \<in> set ?ids) (map hook_id hs)) = mset ?ids"
      using fits(1,2) assms(1) by (intro set_eq_iff_mset_eq_distinct [THEN iffD1]) auto
    then have "mset ?ids + filter_mset (\<lambda>i. i \<notin> set ?ids) (mset (map hook_id hs)) = mset (map hook_id hs)"
      by (metis mset_filter multiset_partition)
    moreover have "map hook_key ?late = map key (filter (\<lambda>i. i \<notin> set ?ids) (map hook_id hs))"
      using find_hook [OF assms(1)]
      by (auto simp: key_def task_of_def filter_map comp_def intro!: map_cong)
    then have "mset (map hook_key ?late) =
        image_mset key (filter_mset (\<lambda>i. i \<notin> set ?ids) (mset (map hook_id hs)))"
      by (simp only: mset_map mset_filter)
    ultimately have "image_mset key (mset ?ids) + mset (map hook_key ?late) = mset (map hook_key hs)"
      by (metis all image_mset_union)
    moreover have "mset (map outcome_key (map (outstanding t rep)
        (sort_key fst (filter (\<lambda>x. fst x \<notin> fst ` set ?J) (expected_of ?b hs))))) =
        mset (map hook_key ?late)"
      by (simp only: map_map late [symmetric] mset_map mset_sort)
    ultimately show ?thesis
      using False by (simp only: run keys if_False map_append mset_append)
  qed
qed

text \<open>When a tier is passed, none of its hooks has timed out, apart from those that may.\<close>

lemma run_tier_quiet:
  assumes "distinct (map hook_id hs)" "report_fits hs rep" "\<forall>h \<in> set hs. hook_tier h = t"
    and "\<not> blocking_timeout (fst (run_tier bs t rep hs ps))" "timeout_blocks_later_tiers t"
    and h: "h \<in> set hs" "\<not> continue_after_timeout h"
  shows "\<exists>ho \<in> set (tr_outcomes (fst (run_tier bs t rep hs ps))). ho_id ho = hook_id h \<and> ho_result ho \<noteq> Overran"
proof -
  let ?run = "fst (run_tier bs t rep hs ps)"
  have "hook_key h \<in> set (map outcome_key (tr_outcomes ?run))"
    using run_tier_keys [OF assms(1-3), of bs ps] h(1) by (metis imageI list.set_map mset_eq_setD)
  then obtain ho where ho: "ho \<in> set (tr_outcomes ?run)" "ho_id ho = hook_id h"
    by (auto simp: outcome_key_def hook_key_def)
  have "\<not> blocking_outcome hs ho"
    using assms(4,5) ho(1) by (auto simp: run_tier_def Let_def list_ex_iff split: if_splits)
  moreover have "map_of (continue_of hs) (hook_id h) = Some False"
    using foldl_update_fresh [of hook_id hs "[]" continue_after_timeout] assms(1) h(2)
      map_of_hooks [OF assms(1) h(1), of continue_after_timeout]
    by (simp add: continue_of_def)
  ultimately show ?thesis using ho by (auto simp: blocking_outcome_def)
qed

subsection \<open>A stop\<close>

definition left_out :: "stop_reason \<Rightarrow> hook list \<Rightarrow> hook list" where
  "left_out reason hs = (if reason = Restart then filter skip_on_restart hs else [])"

lemma stop_tier_cases:
  assumes "stop_tier reason reach calls t hs lc = (os, gave_up, lc')"
  obtains (skip) why where "os = map (skipped_outcome t why) hs"
  | (run) bs ps where "os = map (skipped_outcome t ''restart'') (left_out reason hs) @
        tr_outcomes (fst (run_tier bs t (reports calls t) (runnable reason hs) ps))"
      "\<not> gave_up \<Longrightarrow> \<not> blocking_timeout (fst (run_tier bs t (reports calls t) (runnable reason hs) ps))"
  | (none) "os = map (skipped_outcome t ''restart'') (left_out reason hs)" "runnable reason hs = []"
proof (cases "hs = [] \<or> tier_skip reason reach t \<noteq> None")
  case True
  with assms that(1) show thesis by (auto simp: stop_tier_def Let_def split: if_splits)
next
  case False
  let ?ps = "remember_all (map (skipped_outcome t ''restart'') (left_out reason hs)) (lc_progress lc)"
  note unf = stop_tier_def Let_def left_out_def [symmetric] runnable_def [symmetric]
  show thesis
  proof (cases "runnable reason hs = []")
    case True
    with False assms that(3) show thesis by (simp add: unf)
  next
    case ne: False
    with False assms that(2) [of "lc_budgets lc" ?ps] show thesis
      by (auto simp: unf split: prod.splits)
  qed
qed

lemma skipped_keys:
  "set xs \<subseteq> set hs \<Longrightarrow> \<forall>h \<in> set hs. hook_tier h = t \<Longrightarrow>
   map outcome_key (map (skipped_outcome t why) xs) = map hook_key xs"
  by (auto simp: outcome_key_def hook_key_def skipped_outcome_def)

lemma split_runnable:
  "mset (map f (left_out reason hs)) + mset (map f (runnable reason hs)) = mset (map f hs)"
  by (simp add: left_out_def runnable_def flip: image_mset_union)

lemma runnable_ok:
  assumes "distinct (map hook_id hs)" "\<forall>h \<in> set hs. hook_tier h = t"
  shows "distinct (map hook_id (runnable reason hs))" "\<forall>h \<in> set (runnable reason hs). hook_tier h = t"
    "set (left_out reason hs) \<subseteq> set hs"
  using assms by (auto simp: runnable_def left_out_def distinct_map inj_on_def)

lemma stop_tier_keys:
  assumes "distinct (map hook_id hs)" "report_fits (runnable reason hs) (reports calls t)"
    and t: "\<forall>h \<in> set hs. hook_tier h = t"
    and "stop_tier reason reach calls t hs lc = (os, gave_up, lc')"
  shows "mset (map outcome_key os) = mset (map hook_key hs)"
  using assms(4)
proof (cases rule: stop_tier_cases)
  case (skip why)
  then show ?thesis by (simp only: skipped_keys [OF subset_refl t])
next
  case (run bs ps)
  have "mset (map outcome_key os) = mset (map hook_key (left_out reason hs)) +
      mset (map hook_key (runnable reason hs))"
    using run_tier_keys [OF runnable_ok(1) [OF assms(1) t] assms(2) runnable_ok(2) [OF assms(1) t]]
    by (simp only: run(1) map_append mset_append skipped_keys [OF runnable_ok(3) [OF assms(1) t] t])
  then show ?thesis by (simp only: split_runnable)
next
  case none
  have "mset (map outcome_key os) = mset (map hook_key (left_out reason hs)) +
      mset (map hook_key (runnable reason hs))"
    by (simp only: none skipped_keys [OF runnable_ok(3) [OF assms(1) t] t]) simp
  then show ?thesis by (simp only: split_runnable)
qed

lemma stop_tier_quiet:
  assumes "distinct (map hook_id hs)" "report_fits (runnable reason hs) (reports calls t)"
    and t: "\<forall>h \<in> set hs. hook_tier h = t"
    and "stop_tier reason reach calls t hs lc = (os, False, lc')" "timeout_blocks_later_tiers t"
    and h: "h \<in> set hs" "\<not> continue_after_timeout h"
  shows "\<exists>ho \<in> set os. ho_id ho = hook_id h \<and> ho_result ho \<noteq> Overran"
proof -
  have skipped: "ho_id (skipped_outcome t why x) = hook_id x \<and> ho_result (skipped_outcome t why x) \<noteq> Overran"
    for why x by (simp add: skipped_outcome_def)
  show ?thesis
    using assms(4)
  proof (cases rule: stop_tier_cases)
    case (skip why)
    with h(1) skipped show ?thesis by simp blast
  next
    case (run bs ps)
    show ?thesis
    proof (cases "h \<in> set (runnable reason hs)")
      case True
      from run_tier_quiet [OF runnable_ok(1) [OF assms(1) t] assms(2) runnable_ok(2) [OF assms(1) t]
          run(2) assms(5) True h(2)]
      show ?thesis by (auto simp: run(1))
    next
      case False
      with h(1) have "h \<in> set (left_out reason hs)" by (auto simp: runnable_def left_out_def split: if_splits)
      then show ?thesis using skipped by (simp add: run(1)) blast
    qed
  next
    case none
    with h(1) have "h \<in> set (left_out reason hs)"
      by (auto simp: runnable_def left_out_def filter_empty_conv split: if_splits)
    then show ?thesis using skipped by (simp add: none(1)) blast
  qed
qed

text \<open>The tiers in turn: sorted, complete unless given up, and quiet before what comes later.\<close>

definition quiet_before :: "hook list \<Rightarrow> hook_outcome list \<Rightarrow> bool" where
  "quiet_before hs os \<longleftrightarrow>
    (\<forall>ho \<in> set os. \<forall>h \<in> set hs. hook_tier h < ho_tier ho \<and> timeout_blocks_later_tiers (hook_tier h) \<and>
       \<not> continue_after_timeout h \<longrightarrow> (\<exists>ho' \<in> set os. ho_id ho' = hook_id h \<and> ho_result ho' \<noteq> Overran))"

abbreviation hooks_in :: "tier set \<Rightarrow> hook list \<Rightarrow> hook list" where
  "hooks_in T hs \<equiv> filter (\<lambda>h. hook_tier h \<in> T) hs"

lemma outcome_tier:
  assumes "mset (map outcome_key os) \<subseteq># mset (map hook_key (hooks_in T hs))" "ho \<in> set os"
  shows "ho_tier ho \<in> T"
proof -
  have "outcome_key ho \<in> set (map hook_key (hooks_in T hs))"
    using assms by (metis imageI list.set_map set_mset_mono set_mset_mset subsetD)
  then show ?thesis by (auto simp: outcome_key_def hook_key_def)
qed

lemma hooks_in_insert:
  "t \<notin> T \<Longrightarrow> mset (map f (hooks_in (insert t T) hs)) =
    mset (map f (hooks_in {t} hs)) + mset (map f (hooks_in T hs))"
  by (induction hs) auto

lemma sorted_const: "\<forall>x \<in> set xs. f x = (c :: 'a :: linorder) \<Longrightarrow> sorted (map f xs)"
  by (induction xs) auto

lemma stop_tiers_ok:
  assumes ids: "distinct (map hook_id hs)" and fit: "calls_fit reason calls hs"
    and "sorted_wrt (<) ts" "stop_tiers reason reach calls hs ts lc = (os, left_armed, lc')"
  shows "mset (map outcome_key os) \<subseteq># mset (map hook_key (hooks_in (set ts) hs)) \<and>
    (\<not> left_armed \<longrightarrow> mset (map outcome_key os) = mset (map hook_key (hooks_in (set ts) hs))) \<and>
    sorted (map ho_tier os) \<and> quiet_before (hooks_in (set ts) hs) os"
  using assms(3,4)
proof (induction ts arbitrary: lc os left_armed lc')
  case Nil
  then show ?case by (simp add: quiet_before_def)
next
  case (Cons t ts)
  let ?H = "hooks_in {t} hs"
  obtain os1 gave_up lc1 where first: "stop_tier reason reach calls t ?H lc = (os1, gave_up, lc1)"
    by (cases "stop_tier reason reach calls t ?H lc")
  have H: "distinct (map hook_id ?H)" "report_fits (runnable reason ?H) (reports calls t)"
    "\<forall>h \<in> set ?H. hook_tier h = t"
    using ids fit by (auto simp: calls_fit_def distinct_map inj_on_def)
  have keys1: "mset (map outcome_key os1) = mset (map hook_key ?H)"
    by (rule stop_tier_keys [OF H first])
  then have tier1: "\<forall>ho \<in> set os1. ho_tier ho = t" using outcome_tier [of os1 "{t}" hs] by auto
  have later: "t \<notin> set ts" "\<forall>u \<in> set ts. t < u" "sorted_wrt (<) ts" using Cons.prems(1) by auto
  have all: "mset (map hook_key (hooks_in (set (t # ts)) hs)) =
      mset (map hook_key ?H) + mset (map hook_key (hooks_in (set ts) hs))"
    using hooks_in_insert [OF later(1)] by simp
  show ?case
  proof (cases gave_up)
    case True
    then have os: "os = os1" "left_armed" using Cons.prems(2) first by simp_all
    have "quiet_before (hooks_in (set (t # ts)) hs) os"
      using later(2) tier1 by (auto simp: os quiet_before_def)
    moreover have "sorted (map ho_tier os)"
      using sorted_const [OF tier1] by (simp add: os)
    ultimately show ?thesis using os(2) by (simp only: all keys1 os) simp
  next
    case False
    obtain os2 armed2 lc2 where rest: "stop_tiers reason reach calls hs ts lc1 = (os2, armed2, lc2)"
      by (cases "stop_tiers reason reach calls hs ts lc1")
    then have os: "os = os1 @ os2" "left_armed = armed2" using Cons.prems(2) first False by simp_all
    note IH = Cons.IH [OF later(3) rest]
    have tier2: "\<forall>ho \<in> set os2. ho_tier ho \<in> set ts" using IH outcome_tier by blast
    have "sorted (map ho_tier os)"
      using IH tier1 tier2 later(2) sorted_const [OF tier1]
      by (auto simp: os(1) sorted_append intro: less_imp_le)
    moreover have "quiet_before (hooks_in (set (t # ts)) hs) os"
      unfolding quiet_before_def
    proof (intro ballI impI)
      fix ho h
      assume *: "ho \<in> set os" "h \<in> set (hooks_in (set (t # ts)) hs)"
        and h: "hook_tier h < ho_tier ho \<and> timeout_blocks_later_tiers (hook_tier h) \<and> \<not> continue_after_timeout h"
      have ho: "ho \<in> set os2" using * h tier1 later(2) os(1) by fastforce
      show "\<exists>ho' \<in> set os. ho_id ho' = hook_id h \<and> ho_result ho' \<noteq> Overran"
      proof (cases "hook_tier h = t")
        case True
        then have "\<exists>ho' \<in> set os1. ho_id ho' = hook_id h \<and> ho_result ho' \<noteq> Overran"
          using stop_tier_quiet [OF H] first False h * by simp
        then show ?thesis by (auto simp: os)
      next
        case other: False
        then have "\<exists>ho' \<in> set os2. ho_id ho' = hook_id h \<and> ho_result ho' \<noteq> Overran"
          using IH ho h * unfolding quiet_before_def by simp
        then show ?thesis by (auto simp: os)
      qed
    qed
    ultimately show ?thesis using IH by (simp only: os all keys1 map_append mset_append) simp
  qed
qed

end
