(* ===== verification/Lifecycle_Gates.thy ===== *)
theory Lifecycle_Gates
  imports Prelude
begin

text \<open>
  The startup gates (\<open>src/lifecycle/gate.rs\<close>): one watched value per startup stage, on which modules
  wait. What a waiter sees of a stage is its value when the wait starts, the values after each change
  that wakes it, and whether the sender is gone after the last of them.
\<close>

datatype startup_stage =
    Configuration | Identity | Reputation | Veilid | Network_Attachment | Dht_Restore | Main_Dht
  | Dht_Network_Verification | Presence | Routes | Handshake | Mailbox | Walker | Application_Info
  | Background_Services | Ready_Stage

definition ALL_STAGES :: "startup_stage list" where
  "ALL_STAGES =
     [Configuration, Identity, Reputation, Veilid, Network_Attachment, Dht_Restore, Main_Dht,
      Dht_Network_Verification, Presence, Routes, Handshake, Mailbox, Walker, Application_Info,
      Background_Services, Ready_Stage]"

datatype stage_outcome = Pending | Ready | Unavailable

type_synonym stage_gates = "(startup_stage \<times> stage_outcome) list"

definition gates_new :: stage_gates where
  "gates_new = map (\<lambda>s. (s, Pending)) ALL_STAGES"

text \<open>The handle of a stage; \<open>None\<close> is the panic on a stage that is not registered.\<close>

definition gate_peek :: "startup_stage \<Rightarrow> stage_gates \<Rightarrow> stage_outcome option" where
  "gate_peek s g = map_of g s"

definition set_stage :: "startup_stage \<Rightarrow> stage_outcome \<Rightarrow> stage_gates \<Rightarrow> stage_gates" where
  "set_stage s v g = amodify s (\<lambda>_. v) g"

definition mark_ready :: "startup_stage \<Rightarrow> stage_gates \<Rightarrow> stage_gates" where
  "mark_ready s g = set_stage s Ready g"

definition mark_unavailable :: "startup_stage \<Rightarrow> stage_gates \<Rightarrow> stage_gates" where
  "mark_unavailable s g = set_stage s Unavailable g"

record seen =
  current :: stage_outcome
  changes :: "stage_outcome list"
  sender_gone :: bool

text \<open>A wait; \<open>None\<close> is a wait that has not returned.\<close>

fun wait_loop :: "stage_outcome \<Rightarrow> stage_outcome list \<Rightarrow> bool \<Rightarrow> stage_outcome option" where
  "wait_loop v vs gone =
     (if v \<noteq> Pending then Some v
      else case vs of
        [] \<Rightarrow> if gone then Some Unavailable else None
      | v' # vs' \<Rightarrow> wait_loop v' vs' gone)"

declare wait_loop.simps [simp del]

definition gate_wait :: "seen \<Rightarrow> stage_outcome option" where
  "gate_wait sn = wait_loop (current sn) (changes sn) (sender_gone sn)"

text \<open>With a limit: what is seen within it, and whether it passes before the wait returns.\<close>

definition gate_wait_for :: "seen \<Rightarrow> stage_outcome" where
  "gate_wait_for sn = (case gate_wait sn of Some v \<Rightarrow> v | None \<Rightarrow> Pending)"

fun wait_stages ::
  "(startup_stage \<Rightarrow> seen) \<Rightarrow> startup_stage list \<Rightarrow> stage_outcome \<Rightarrow> stage_outcome option" where
  "wait_stages sn [] worst = Some worst"
| "wait_stages sn (s # ss) worst =
     (case gate_wait (sn s) of
        None \<Rightarrow> None
      | Some Ready \<Rightarrow> wait_stages sn ss worst
      | Some Unavailable \<Rightarrow> wait_stages sn ss Unavailable
      | Some Pending \<Rightarrow> wait_stages sn ss (if worst = Ready then Pending else worst))"

definition wait_all :: "(startup_stage \<Rightarrow> seen) \<Rightarrow> startup_stage list \<Rightarrow> stage_outcome option" where
  "wait_all sn stages = wait_stages sn stages Ready"

subsection \<open>Every stage has a gate\<close>

lemma gates_new_peek [simp]: "gate_peek s gates_new = Some Pending"
  by (cases s) (simp_all add: gate_peek_def gates_new_def ALL_STAGES_def)

lemma set_stage_peek:
  "gate_peek s' (set_stage s v g) = (if s' = s then map_option (\<lambda>_. v) (gate_peek s g) else gate_peek s' g)"
  by (simp add: gate_peek_def set_stage_def map_of_amodify)

subsection \<open>Waits\<close>

definition settles :: "seen \<Rightarrow> bool" where
  "settles sn \<longleftrightarrow> sender_gone sn \<or> (\<exists>v \<in> set (current sn # changes sn). v \<noteq> Pending)"

lemma wait_loop_settles:
  "wait_loop v vs gone \<noteq> None \<longleftrightarrow> gone \<or> (\<exists>x \<in> set (v # vs). x \<noteq> Pending)"
proof (induction v vs gone rule: wait_loop.induct)
  case (1 v vs gone)
  then show ?case by (subst wait_loop.simps) (cases vs; simp)
qed

lemma wait_loop_not_pending: "wait_loop v vs gone \<noteq> Some Pending"
proof (induction v vs gone rule: wait_loop.induct)
  case (1 v vs gone)
  then show ?case by (subst wait_loop.simps) (cases vs; simp)
qed

lemma gate_wait_settles: "gate_wait sn \<noteq> None \<longleftrightarrow> settles sn"
  unfolding gate_wait_def settles_def wait_loop_settles by simp

lemma gate_wait_not_pending [simp]: "gate_wait sn \<noteq> Some Pending"
  by (simp add: gate_wait_def wait_loop_not_pending)

text \<open>
  The meaning of a wait: the first mark among the values seen, and unavailable when there is none
  and the sender is gone.
\<close>

definition first_mark :: "seen \<Rightarrow> stage_outcome option" where
  "first_mark sn = List.find (\<lambda>v. v \<noteq> Pending) (current sn # changes sn)"

lemma wait_loop_find:
  "wait_loop v vs gone =
     (case List.find (\<lambda>x. x \<noteq> Pending) (v # vs) of
        Some x \<Rightarrow> Some x | None \<Rightarrow> if gone then Some Unavailable else None)"
proof (induction v vs gone rule: wait_loop.induct)
  case (1 v vs gone)
  then show ?case by (subst wait_loop.simps) (cases vs; simp)
qed

lemma gate_wait_first_mark:
  "gate_wait sn =
     (case first_mark sn of Some x \<Rightarrow> Some x | None \<Rightarrow> if sender_gone sn then Some Unavailable else None)"
  by (simp add: gate_wait_def first_mark_def wait_loop_find)

lemma first_mark_None: "first_mark sn = None \<longleftrightarrow> (\<forall>v \<in> set (current sn # changes sn). v = Pending)"
  by (auto simp: first_mark_def find_None_iff)

lemma gate_wait_Ready: "gate_wait sn = Some Ready \<longleftrightarrow> first_mark sn = Some Ready"
  by (simp add: gate_wait_first_mark split: option.split)

lemma wait_stages_result:
  assumes "\<forall>s \<in> set ss. settles (sn s)" "worst \<noteq> Pending"
  shows "wait_stages sn ss worst =
    Some (if worst = Ready \<and> (\<forall>s \<in> set ss. first_mark (sn s) = Some Ready) then Ready else Unavailable)"
  using assms
proof (induction ss arbitrary: worst)
  case Nil
  then show ?case by (cases worst) simp_all
next
  case (Cons s ss)
  then obtain v where v: "gate_wait (sn s) = Some v" "v \<noteq> Pending"
    using gate_wait_settles [of "sn s"] gate_wait_not_pending [of "sn s"] by fastforce
  with Cons gate_wait_Ready [of "sn s"] show ?case by (cases v) simp_all
qed

lemma wait_stages_stuck:
  assumes "s \<in> set ss" "\<not> settles (sn s)"
  shows "wait_stages sn ss worst = None"
  using assms
proof (induction ss arbitrary: worst)
  case (Cons s' ss)
  have "gate_wait (sn s) = None" using gate_wait_settles [of "sn s"] assms(2) by blast
  with Cons show ?case by (auto split: option.split stage_outcome.split)
qed simp

text \<open>
  C34. Waiting for several stages returns exactly when each of them has
  been marked or its sender is gone. It then says ready if the first mark seen of every stage was
  ready, and unavailable if some stage was first marked unavailable or was never marked; it never
  returns pending.\<close>

theorem wait_all_returns_the_worst:
  "wait_all sn stages =
     (if \<exists>s \<in> set stages. \<not> sender_gone (sn s) \<and> (\<forall>v \<in> set (current (sn s) # changes (sn s)). v = Pending)
      then None
      else if \<forall>s \<in> set stages.
        List.find (\<lambda>v. v \<noteq> Pending) (current (sn s) # changes (sn s)) = Some Ready
      then Some Ready else Some Unavailable)"
proof -
  have stuck: "(\<exists>s \<in> set stages. \<not> sender_gone (sn s) \<and>
      (\<forall>v \<in> set (current (sn s) # changes (sn s)). v = Pending)) \<longleftrightarrow>
      \<not> (\<forall>s \<in> set stages. settles (sn s))"
    unfolding settles_def by blast
  show ?thesis
  proof (cases "\<forall>s \<in> set stages. settles (sn s)")
    case True
    from wait_stages_result [OF this, of Ready] show ?thesis
      unfolding stuck wait_all_def first_mark_def using True by simp
  next
    case False
    then obtain s where "s \<in> set stages" "\<not> settles (sn s)" by blast
    then have "wait_all sn stages = None" unfolding wait_all_def by (rule wait_stages_stuck)
    with False show ?thesis unfolding stuck by simp
  qed
qed

lemma wait_all_returns_the_worst_witness:
  "wait_all (\<lambda>s. if s = Routes then \<lparr>current = Pending, changes = [Pending, Unavailable, Ready], sender_gone = False\<rparr>
      else \<lparr>current = Ready, changes = [], sender_gone = False\<rparr>) [Identity, Routes] = Some Unavailable"
  by (subst wait_all_returns_the_worst) simp

end
