(* ===== verification/Lifecycle_Properties.thy ===== *)
theory Lifecycle_Properties
  imports Lifecycle_Tiers Lifecycle_Gates
begin

text \<open>
  The properties of the shutdown coordinator: nothing runs after work that may still be alive, every
  hook is accounted for, and a shutdown that went wrong is noticed at the next start.
\<close>

lemma stop_cases:
  assumes "stop calls reason reachability (lc, fs) = (os, lc', fs')" "\<not> stopping lc"
  obtains reach lc1 lc2 left_armed where
    "stop_tiers reason reach calls (lc_hooks lc) TIER_ORDER lc1 = (os, left_armed, lc2)"
    "lc' = lc2\<lparr>watchdog_left_armed := left_armed\<rparr>" "data_dir lc1 = data_dir lc" "stopping lc1"
    "fs' = (if data_dir lc2 = None then fs
      else leave_record (faults calls)
        (build_record (wall_clock calls) reason False (stop_elapsed calls) os) fs)"
  using assms by (auto simp: stop_def Let_def split: prod.splits) 

lemma stop_tier_frame:
  "stop_tier reason reach calls t hs lc = (os, g, lc') \<Longrightarrow>
   data_dir lc' = data_dir lc \<and> stopping lc' = stopping lc"
  by (auto simp: stop_tier_def Let_def split: if_splits option.splits prod.splits)

lemma stop_tiers_frame:
  "stop_tiers reason reach calls hs ts lc = (os, g, lc') \<Longrightarrow>
   data_dir lc' = data_dir lc \<and> stopping lc' = stopping lc"
proof (induction ts arbitrary: lc os g lc')
  case (Cons t ts)
  then show ?case using stop_tier_frame by (fastforce split: prod.splits if_splits)
qed simp

lemma stop_tiers_facts:
  assumes "stop calls reason reachability (lc, fs) = (os, lc', fs')" "\<not> stopping lc"
    and "ids_ok lc" "calls_fit reason calls (lc_hooks lc)"
  shows "mset (map outcome_key os) \<subseteq># mset (map hook_key (lc_hooks lc))"
    "\<not> watchdog_left_armed lc' \<Longrightarrow> mset (map outcome_key os) = mset (map hook_key (lc_hooks lc))"
    "sorted (map ho_tier os)" "quiet_before (lc_hooks lc) os" "stopping lc'"
proof -
  obtain reach lc1 lc2 left_armed where st:
    "stop_tiers reason reach calls (lc_hooks lc) TIER_ORDER lc1 = (os, left_armed, lc2)"
    "lc' = lc2\<lparr>watchdog_left_armed := left_armed\<rparr>" "stopping lc1"
    by (rule stop_cases [OF assms(1,2)])
  have "filter (\<lambda>h. hook_tier h \<in> set TIER_ORDER) (lc_hooks lc) = lc_hooks lc"
    by (simp add: tier_order(2))
  with stop_tiers_ok [OF _ assms(4) tier_order(1) st(1)] assms(3)
  show "mset (map outcome_key os) \<subseteq># mset (map hook_key (lc_hooks lc))"
    "\<not> watchdog_left_armed lc' \<Longrightarrow> mset (map outcome_key os) = mset (map hook_key (lc_hooks lc))"
    "sorted (map ho_tier os)" "quiet_before (lc_hooks lc) os"
    by (simp_all add: ids_ok_def st(2))
  show "stopping lc'" using stop_tiers_frame [OF st(1)] st(2,3) by simp
qed

text \<open>
  C30. A stop does not touch a later tier, in particular the teardown of Veilid,
  unless every hook of an earlier tier that needs the node or accepts work has come back in its time
  (or has declared that its timeout is harmless). It is assumed (\<open>calls_fit\<close>) that each task is
  joined at most once and that none is lost in a tier that is joined completely: a task that fails
  to join (a \<open>JoinError\<close>, which the code only logs) is in no outcome, and later tiers then run
  (\<open>lost_task_is_not_reported\<close>).\<close>

theorem quiet_before_teardown:
  assumes "stop calls reason reachability (lc, fs) = (os, lc', fs')" "\<not> stopping lc" "ids_ok lc"
    and "calls_fit reason calls (lc_hooks lc)"
    and "later \<in> set os" "h \<in> set (lc_hooks lc)" "hook_tier h < ho_tier later"
    and "timeout_blocks_later_tiers (hook_tier h)" "\<not> continue_after_timeout h"
  shows "\<exists>ho \<in> set os. ho_id ho = hook_id h \<and> ho_result ho \<noteq> Overran"
  using stop_tiers_facts(4) [OF assms(1-4)] assms(5-9) by (auto simp: quiet_before_def)

text \<open>
  C31. A stop reports outcomes of registered hooks only, each hook at most once
  and in the order of the tiers; when it has disarmed the watchdog, it has reported every hook,
  provided again that no task was lost to a \<open>JoinError\<close>. A second stop does nothing.\<close>

theorem every_hook_is_reported:
  assumes "stop calls reason reachability (lc, fs) = (os, lc', fs')" "\<not> stopping lc" "ids_ok lc"
    and "calls_fit reason calls (lc_hooks lc)"
  shows "mset (map outcome_key os) \<subseteq># mset (map hook_key (lc_hooks lc)) \<and>
    sorted (map ho_tier os) \<and>
    (\<not> watchdog_left_armed lc' \<longrightarrow> mset (map outcome_key os) = mset (map hook_key (lc_hooks lc))) \<and>
    stop calls' reason' reachability' (lc', fs') = ([], lc', fs')"
  using stop_tiers_facts [OF assms] by (simp add: stop_def)

subsection \<open>The record of the shutdown\<close>

definition went_wrong :: "hook_outcome \<Rightarrow> bool" where
  "went_wrong ho \<longleftrightarrow> ho_result ho = Overran \<or> (\<exists>e. ho_result ho = Hook_Failed e)"

lemma clean_build:
  "is_clean (build_record now reason f whole os) \<longleftrightarrow> \<not> f \<and> (\<forall>ho \<in> set os. \<not> went_wrong ho)"
proof -
  have "rh_outcome (recorded_hook_from ho) = ''ok'' \<or> prefix ''skipped'' (rh_outcome (recorded_hook_from ho)) \<longleftrightarrow>
      \<not> went_wrong ho" for ho
    by (cases "ho_result ho") (simp_all add: recorded_hook_from_def went_wrong_def)
  then show ?thesis by (simp add: is_clean_def build_record_def list_all_iff)
qed

lemma build_marks:
  "looks_dirty (record_to_json (build_record now reason f whole os)) \<longleftrightarrow>
    f \<or> (\<exists>ho \<in> set os. went_wrong ho \<or> ho_verify ho)"
proof -
  have "rh_outcome (recorded_hook_from ho) = ''overran'' \<or>
      prefix ''failed:'' (rh_outcome (recorded_hook_from ho)) \<or> rh_verify (recorded_hook_from ho) \<longleftrightarrow>
      went_wrong ho \<or> ho_verify ho" for ho
    by (cases "ho_result ho") (simp_all add: recorded_hook_from_def went_wrong_def)
  then show ?thesis by (simp add: looks_dirty_record build_record_def)
qed

text \<open>
  C33. The search of the next start for marks in the text of a record finds
  exactly what the record says: a forced stop, a hook that failed or overran, or one that needs
  verification, whatever the names, steps and error messages of the hooks contain.\<close>

theorem record_marks_are_exact:
  "looks_dirty (record_to_json (build_record now reason f whole os)) \<longleftrightarrow>
    f \<or> (\<exists>ho \<in> set os. went_wrong ho \<or> ho_verify ho)"
  by (rule build_marks)

definition no_file_faults :: file_faults where
  "no_file_faults =
     \<lparr>write_fault = None, remove_fault = False, rename_fault = False, read_fault = False\<rparr>"

text \<open>
  C32. When both runs have a data directory and its files can be read and
  written, the next start finds a record that looks dirty exactly when a hook of the stop failed or
  overran, finds none otherwise, and finds it once. A hook that ended well but still asks for
  verification leaves no record: the code differs here from the comment on \<open>is_clean\<close>
  (\<open>unsettled_hook_is_forgotten\<close>).\<close>

theorem failed_shutdown_is_noticed:
  assumes "stop calls reason reachability (lc, fs) = (os, lc', fs')" "\<not> stopping lc"
    and "data_dir lc \<noteq> None" "faults calls = no_file_faults"
    and "data_dir next_run \<noteq> None"
    and "take_previous_record no_file_faults (next_run, fs') = (raw, fs'')"
  shows "(case raw of None \<Rightarrow> \<forall>ho \<in> set os. \<not> went_wrong ho
      | Some json \<Rightarrow> looks_dirty json \<and> (\<exists>ho \<in> set os. went_wrong ho)) \<and>
    take_previous_record no_file_faults (next_run, fs'') = (None, fs'')"
proof -
  let ?r = "build_record (wall_clock calls) reason False (stop_elapsed calls) os"
  obtain reach lc1 lc2 left_armed where st:
    "stop_tiers reason reach calls (lc_hooks lc) TIER_ORDER lc1 = (os, left_armed, lc2)"
    "data_dir lc1 = data_dir lc"
    "fs' = (if data_dir lc2 = None then fs else leave_record (faults calls) ?r fs)"
    by (rule stop_cases [OF assms(1,2)])
  then have "fs' = leave_record no_file_faults ?r fs"
    using stop_tiers_frame [OF st(1)] assms(3,4) by simp
  then have "fs' RECORD_FILE = (if is_clean ?r then None else Some (record_to_json ?r))"
    using write_record_ok [of no_file_faults ?r fs] by (simp add: leave_record_def no_file_faults_def)
  with assms(5,6) show ?thesis
    by (auto simp: take_previous_record_def take_record_def no_file_faults_def clean_build build_marks
        split: if_splits option.splits) blast
qed

text \<open>The watchdog's record is never clean, so it is noticed as well.\<close>

lemma forced_shutdown_is_noticed:
  assumes "watchdog_fires clock lv no_file_faults reason (lc, fs) = (lc', fs')" "data_dir lc \<noteq> None"
    and "data_dir next_run \<noteq> None"
  shows "\<exists>json. fst (take_previous_record no_file_faults (next_run, fs')) = Some json \<and> looks_dirty json"
  using assms
  by (auto simp: watchdog_fires_def take_previous_record_def take_record_def no_file_faults_def
      write_record_ok build_marks)

text \<open>A hook asks for a check exactly when its last fragile step has not been settled.\<close>

lemma fragile_until_settled:
  assumes "\<forall>c \<in> set cs. \<exists>d. c = Step d"
  shows "needs_verification (progress_after p (before @ Fragile d # cs))"
    "\<not> needs_verification (progress_after p (before @ Settled d # cs))"
proof -
  have "needs_verification (progress_after q cs) = needs_verification q" for q
    using assms by (induction cs arbitrary: q) (auto simp: progress_after_def)
  then show "needs_verification (progress_after p (before @ Fragile d # cs))"
    "\<not> needs_verification (progress_after p (before @ Settled d # cs))"
    by (simp_all add: progress_after_def)
qed

text \<open>
  A hook that ends well with its fragile flag still set asks for a check at the next start, and the
  text of its record would say so, but the record counts as clean and is not kept.\<close>

lemma unsettled_hook_is_forgotten:
  assumes "ho_result ho = Hook_Ok" "ho_verify ho"
  shows "is_clean (build_record now reason False whole [ho]) \<and>
    needing_verification (build_record now reason False whole [ho]) \<noteq> [] \<and>
    looks_dirty (record_to_json (build_record now reason False whole [ho]))"
  using assms
  by (simp add: clean_build build_marks went_wrong_def)
    (simp add: needing_verification_def build_record_def recorded_hook_from_def)

text \<open>
  A hook whose task fails to join (cancelled from outside) is not reported, and does not keep the
  later tiers from running.\<close>

lemma lost_task_is_not_reported:
  "let run = fst (run_tier bs t \<lparr>joins = [Join_Error], joined_all = True, live = lv\<rparr> [h] ps)
   in tr_outcomes run = [] \<and> \<not> uncooperative run \<and> \<not> blocking_timeout run"
  by (simp add: run_tier_def Let_def)

end
