(* ===== verification/Lifecycle_Example.thy ===== *)
theory Lifecycle_Example
  imports Lifecycle_Properties
begin

text \<open>
  A coordinator with a hook for the local interface, one for the walker and the teardown of Veilid.
  In the first stop all of them end in time; in the second the walker overruns, so the teardown is
  not run and the watchdog stays armed.
\<close>

definition demo_lifecycle :: lifecycle where
  "demo_lifecycle = set_data_dir ''data'' (snd (register (spec_teardown ''veilid'')
     (snd (register (spec_new ''walker'' Veilid_Node_Need)
       (snd (register (spec_new ''api'' No_Need)
         (lifecycle_with budgets_default Exit_Process)))))))"

definition task_in_time :: task_end where
  "task_in_time = \<lparr>te_action = Completed, te_elapsed = 5, te_calls = [Fragile ''writing'', Settled ''written'']\<rparr>"

definition demo_report :: "joined list \<Rightarrow> tier_report" where
  "demo_report js = \<lparr>joins = js, joined_all = True, live = (\<lambda>_. (0, []))\<rparr>"

definition demo_stop :: "task_end \<Rightarrow> stop_calls" where
  "demo_stop walker_task =
     \<lparr>refreshed = Unreachable,
      reports = (\<lambda>t. demo_report (case t of
          Intake \<Rightarrow> [Joined 1 task_in_time] | Node_Dependent \<Rightarrow> [Joined 2 walker_task]
        | Teardown \<Rightarrow> [Joined 3 task_in_time] | _ \<Rightarrow> [])),
      fired_after = (\<lambda>_. False), stop_elapsed = 20, wall_clock = 7, faults = no_file_faults\<rparr>"

definition clean_stop :: stop_calls where "clean_stop = demo_stop task_in_time"

definition blocked_stop :: stop_calls where
  "blocked_stop = demo_stop (task_in_time\<lparr>te_action := Timed_Out\<rparr>)"

definition stopped :: "stop_calls \<Rightarrow> hook_outcome list \<times> lifecycle \<times> files" where
  "stopped calls = stop calls Shutdown Unknown (demo_lifecycle, Map.empty)"

lemma stopped_parts:
  "stop calls Shutdown Unknown (demo_lifecycle, Map.empty) =
    (fst (stopped calls), fst (snd (stopped calls)), snd (snd (stopped calls)))"
  by (simp add: stopped_def)

lemma demo_hooks:
  "lc_hooks demo_lifecycle =
    [\<lparr>hook_id = 1, hook_module = ''api'', hook_detail = [], hook_need = No_Need,
      hook_phase = Automatic, hook_budget = secs 3, skip_on_restart = False, continue_after_timeout = False\<rparr>,
     \<lparr>hook_id = 2, hook_module = ''walker'', hook_detail = [], hook_need = Veilid_Node_Need,
      hook_phase = Automatic, hook_budget = secs 3, skip_on_restart = False, continue_after_timeout = False\<rparr>,
     \<lparr>hook_id = 3, hook_module = ''veilid'', hook_detail = [], hook_need = Veilid_Node_Need,
      hook_phase = Teardown_Phase, hook_budget = secs 10, skip_on_restart = False, continue_after_timeout = False\<rparr>]"
  by (simp add: demo_lifecycle_def register_def spec_new_def spec_teardown_def lifecycle_with_def
      set_data_dir_def Let_def)

lemma demo_lifecycle_ok:
  "\<not> stopping demo_lifecycle" "ids_ok demo_lifecycle" "data_dir demo_lifecycle \<noteq> None"
  by (simp_all add: demo_lifecycle_def register_def spec_new_def spec_teardown_def lifecycle_with_def
      set_data_dir_def Let_def ids_ok_def)

lemma demo_stop_fits: "calls_fit Shutdown (demo_stop te) (lc_hooks demo_lifecycle)"
  unfolding calls_fit_def
proof
  fix t
  show "report_fits (runnable Shutdown (filter (\<lambda>h. hook_tier h = t) (lc_hooks demo_lifecycle)))
      (reports (demo_stop te) t)"
    by (cases t) (simp_all add: report_fits_def runnable_def demo_hooks hook_tier_def demo_stop_def
        demo_report_def)
qed

lemma demo_fields:
  "stopping demo_lifecycle = False" "data_dir demo_lifecycle = Some ''data''"
  "watchdog demo_lifecycle = Exit_Process" "lc_budgets demo_lifecycle = budgets_default"
  by (simp_all add: demo_lifecycle_def register_def spec_new_def spec_teardown_def lifecycle_with_def
      set_data_dir_def Let_def)

lemmas run_demo = stopped_def stop_def demo_stop_def demo_report_def demo_hooks demo_fields TIER_ORDER_def
  stop_tier_def hook_tier_def tier_skip_def run_tier_def Let_def task_outcome_def hook_result_of_def
  task_in_time_def expected_of_def start_hooks_def first_progress_def progress_new_def progress_after_def remember_completed_def budgets_default_def
  for_tier_def secs_def blocking_outcome_def timeout_blocks_later_tiers_def continue_of_def

lemma clean_outcomes:
  "map ho_tier (fst (stopped clean_stop)) = [Intake, Node_Dependent, Teardown]"
  "\<not> watchdog_left_armed (fst (snd (stopped clean_stop)))"
  by (simp_all add: clean_stop_def run_demo)

lemma blocked_outcomes:
  "map ho_tier (fst (stopped blocked_stop)) = [Intake, Node_Dependent]"
  "list_ex (\<lambda>ho. ho_result ho = Overran) (fst (stopped blocked_stop))"
  "watchdog_left_armed (fst (snd (stopped blocked_stop)))"
  by (simp_all add: blocked_stop_def run_demo)

lemma quiet_before_teardown_witness:
  "\<exists>ho \<in> set (fst (stopped clean_stop)). ho_id ho = 2 \<and> ho_result ho \<noteq> Overran"
proof -
  obtain later where later: "later \<in> set (fst (stopped clean_stop))" "ho_tier later = Teardown"
    using clean_outcomes(1) by (metis (mono_tags) imageE list.set_intros list.set_map)
  let ?h = "lc_hooks demo_lifecycle ! 1"
  have "?h \<in> set (lc_hooks demo_lifecycle)" "hook_tier ?h < ho_tier later"
    "timeout_blocks_later_tiers (hook_tier ?h)" "\<not> continue_after_timeout ?h"
    by (simp_all add: demo_hooks hook_tier_def later(2) less_tier_def tier_rank_def
        timeout_blocks_later_tiers_def)
  from quiet_before_teardown [OF stopped_parts demo_lifecycle_ok(1,2) _ later(1) this]
  show ?thesis using demo_stop_fits by (simp add: clean_stop_def demo_hooks)
qed

lemma every_hook_is_reported_witness:
  "mset (map outcome_key (fst (stopped clean_stop))) =
    {#(1, ''api'', Intake), (2, ''walker'', Node_Dependent), (3, ''veilid'', Teardown)#}"
  using every_hook_is_reported [OF stopped_parts demo_lifecycle_ok(1,2), of clean_stop]
    demo_stop_fits clean_outcomes(2)
  by (simp add: clean_stop_def demo_hooks hook_key_def hook_tier_def)

definition taken :: "string option \<times> files" where
  "taken = take_previous_record no_file_faults (demo_lifecycle, snd (snd (stopped blocked_stop)))"

lemma failed_shutdown_is_noticed_witness:
  "(\<exists>json. fst taken = Some json \<and> looks_dirty json) \<and>
    take_previous_record no_file_faults (demo_lifecycle, snd taken) = (None, snd taken)"
proof -
  have "\<exists>ho \<in> set (fst (stopped blocked_stop)). went_wrong ho"
    using blocked_outcomes(2) by (auto simp: list_ex_iff went_wrong_def)
  moreover have "take_previous_record no_file_faults (demo_lifecycle, snd (snd (stopped blocked_stop))) =
      (fst taken, snd taken)" by (simp add: taken_def)
  moreover have "faults blocked_stop = no_file_faults" by (simp add: blocked_stop_def demo_stop_def)
  ultimately show ?thesis
    using failed_shutdown_is_noticed [OF stopped_parts demo_lifecycle_ok(1,3) _ demo_lifecycle_ok(3),
        of blocked_stop "fst taken" "snd taken"]
    by (cases "fst taken") auto
qed

end
