(* ===== verification/Gossip_Types.thy ===== *)
theory Gossip_Types
  imports Prelude "HOL-Library.Sublist"
begin

text \<open>
  The data of the gossip engine (\<open>src/gossip/mod.rs\<close>): records, queries, the cache entry, the limits
  that are checked before a record or a query is used, and the frame around a wire message. Strings
  are their UTF-8 bytes. Serialisation (\<open>bincode\<close>) is a parameter.
\<close>

definition GOSSIP_ENGINE_VERSION :: nat where "GOSSIP_ENGINE_VERSION = 2"
definition GOSSIP_DEFAULT_TTL_SECS :: nat where "GOSSIP_DEFAULT_TTL_SECS = 1800"
definition GOSSIP_MAX_TTL_SECS :: nat where "GOSSIP_MAX_TTL_SECS = 86400"
definition GOSSIP_MAX_NAMESPACE_BYTES :: nat where "GOSSIP_MAX_NAMESPACE_BYTES = 64"
definition GOSSIP_MAX_OBJECT_ID_BYTES :: nat where "GOSSIP_MAX_OBJECT_ID_BYTES = 256"
definition GOSSIP_MAX_POINTER_BYTES :: nat where "GOSSIP_MAX_POINTER_BYTES = 512"
definition GOSSIP_MAX_CUSTOM_PAYLOAD_BYTES :: nat where "GOSSIP_MAX_CUSTOM_PAYLOAD_BYTES = 1024"
definition GOSSIP_MAX_FINGERPRINTS :: nat where "GOSSIP_MAX_FINGERPRINTS = 8"
definition GOSSIP_MAX_FINGERPRINT_CHANNEL_BYTES :: nat where "GOSSIP_MAX_FINGERPRINT_CHANNEL_BYTES = 48"
definition GOSSIP_MAX_FINGERPRINT_ALGORITHM_BYTES :: nat where "GOSSIP_MAX_FINGERPRINT_ALGORITHM_BYTES = 48"
definition GOSSIP_MAX_FINGERPRINT_BYTES :: nat where "GOSSIP_MAX_FINGERPRINT_BYTES = 256"
definition GOSSIP_MAX_QUERY_PROBES :: nat where "GOSSIP_MAX_QUERY_PROBES = 8"
definition GOSSIP_MAX_INDEX_TOKENS :: nat where "GOSSIP_MAX_INDEX_TOKENS = 32"
definition GOSSIP_MAX_INDEX_PROBES :: nat where "GOSSIP_MAX_INDEX_PROBES = 8"
definition GOSSIP_MAX_INDEX_TOKENS_PER_PROBE :: nat where "GOSSIP_MAX_INDEX_TOKENS_PER_PROBE = 16"
definition GOSSIP_MAX_QUERY_RESULTS :: nat where "GOSSIP_MAX_QUERY_RESULTS = 32"
definition GOSSIP_MAX_ENTRIES_PER_APP :: nat where "GOSSIP_MAX_ENTRIES_PER_APP = 2048"
definition GOSSIP_MAX_ENTRIES_GLOBAL :: nat where "GOSSIP_MAX_ENTRIES_GLOBAL = 8192"
definition GOSSIP_MAX_CLAIMED_SOURCES :: nat where "GOSSIP_MAX_CLAIMED_SOURCES = 32"
definition GOSSIP_PUBLISH_FANOUT :: nat where "GOSSIP_PUBLISH_FANOUT = 6"
definition GOSSIP_RELAY_FANOUT :: nat where "GOSSIP_RELAY_FANOUT = 3"
definition GOSSIP_QUERY_FANOUT :: nat where "GOSSIP_QUERY_FANOUT = 6"
definition GOSSIP_MAX_QUERY_RESPONSE_RECORDS :: nat where "GOSSIP_MAX_QUERY_RESPONSE_RECORDS = 3"
definition GOSSIP_MAX_RELAY_HOPS :: nat where "GOSSIP_MAX_RELAY_HOPS = 3"
definition GOSSIP_QUERY_RESPONSE_COOLDOWN_SECS :: nat where "GOSSIP_QUERY_RESPONSE_COOLDOWN_SECS = 10"
definition GOSSIP_MAX_FUTURE_SKEW_SECS :: nat where "GOSSIP_MAX_FUTURE_SKEW_SECS = 600"
definition GOSSIP_WIRE_MAX_BYTES :: nat where "GOSSIP_WIRE_MAX_BYTES = 12288"
definition GOSSIP_TEST_APPLICATION_ID :: string where
  "GOSSIP_TEST_APPLICATION_ID = ''veilknit.daemon.gossip-index-test.v1''"

definition GOSSIP_WIRE_PREFIX :: bytes where
  "GOSSIP_WIRE_PREFIX = 0 # map (\<lambda>c. of_nat (of_char c)) ''veilknit-gossip-engine-v1'' @ [0]"

subsection \<open>Records and queries\<close>

datatype verification_state =
  Unverified | Multi_Source_Hint | Pointer_Confirmed | Authoritative_Verified | Local_Published | Conflicting

datatype confirmation_level = Confirm_Pointer | Confirm_Authoritative

record gossip_fingerprint =
  fp_channel :: string
  fp_algorithm :: string
  fp_version :: nat
  fp_bytes :: bytes

type_synonym index_token = bytes

datatype token_polarity = Required | Preferred | Exclude
datatype token_match_mode = Match_All | Match_Any

record gossip_token_probe =
  tp_tokens :: "index_token list"
  tp_polarity :: token_polarity
  tp_match_mode :: token_match_mode
  tp_weight :: nat

record gossip_record =
  gr_namespace :: string
  gr_object_id :: string
  gr_generation :: nat
  gr_origin :: string
  gr_published_at :: nat
  gr_expires_at :: nat
  gr_pointer :: "string option"
  gr_fingerprints :: "gossip_fingerprint list"
  gr_index_tokens :: "index_token list"
  gr_custom_payload :: bytes
  gr_flags :: nat
  gr_withdrawn :: bool

record gossip_publish_request =
  pq_namespace :: string
  pq_object_id :: string
  pq_generation :: nat
  pq_pointer :: "string option"
  pq_fingerprints :: "gossip_fingerprint list"
  pq_index_tokens :: "index_token list"
  pq_custom_payload :: bytes
  pq_flags :: nat
  pq_ttl_seconds :: nat

datatype probe_polarity = Similar | Avoid

record gossip_fingerprint_probe =
  pb_channel :: string
  pb_algorithm :: string
  pb_version :: nat
  pb_bytes :: bytes
  pb_weight :: nat
  pb_polarity :: probe_polarity

record gossip_search_query =
  sq_namespace :: string
  sq_probes :: "gossip_fingerprint_probe list"
  sq_token_probes :: "gossip_token_probe list"
  sq_limit :: nat
  sq_min_score_milli :: "nat option"
  sq_include_withdrawn :: bool

datatype gossip_error =
    InvalidApplicationId | InvalidNamespace | ReservedNamespace | InvalidObjectId | InvalidPointer
  | TooManyFingerprints | InvalidFingerprint string | TooManyIndexTokens | InvalidIndex string
  | CustomPayloadTooLarge | InvalidTtl | InvalidQuery string | ObjectNotFound | GenerationMismatch
  | NotLocallyPublished | Wire string | Transport string

datatype gossip_event =
    Object_Updated string string string nat verification_state
  | Object_Withdrawn string string string nat
  | Conflict_Observed string string string nat
  | Query_Merged string bytes nat

definition event_application_id :: "gossip_event \<Rightarrow> string" where
  "event_application_id ev =
    (case ev of
       Object_Updated a _ _ _ _ \<Rightarrow> a | Object_Withdrawn a _ _ _ \<Rightarrow> a
     | Conflict_Observed a _ _ _ \<Rightarrow> a | Query_Merged a _ _ \<Rightarrow> a)"

subsection \<open>Text\<close>

definition byte_of :: "char \<Rightarrow> nat" where "byte_of c = of_char c"

definition is_ascii_text :: "string \<Rightarrow> bool" where
  "is_ascii_text s \<longleftrightarrow> list_all (\<lambda>c. byte_of c < 128) s"

definition ascii_control :: "char \<Rightarrow> bool" where
  "ascii_control c \<longleftrightarrow> byte_of c < 32 \<or> byte_of c = 127"

definition ascii_whitespace :: "char \<Rightarrow> bool" where
  "ascii_whitespace c \<longleftrightarrow> byte_of c \<in> {9, 10, 12, 13, 32}"

text \<open>\<open>char::is_control\<close>: the C0 and C1 controls; the latter are two bytes in UTF-8.\<close>

fun has_control :: "string \<Rightarrow> bool" where
  "has_control [] \<longleftrightarrow> False"
| "has_control (c # s) \<longleftrightarrow> ascii_control c \<or>
     (byte_of c = 194 \<and> (case s of [] \<Rightarrow> False | d # _ \<Rightarrow> 128 \<le> byte_of d \<and> byte_of d < 160)) \<or>
     has_control s"

definition ascii_lower :: "char \<Rightarrow> char" where
  "ascii_lower c = (if 65 \<le> byte_of c \<and> byte_of c \<le> 90 then char_of (byte_of c + 32) else c)"

definition eq_ignore_ascii_case :: "string \<Rightarrow> string \<Rightarrow> bool" where
  "eq_ignore_ascii_case s t \<longleftrightarrow> map ascii_lower s = map ascii_lower t"

text \<open>\<open>str::trim\<close>: the Unicode white space characters, as UTF-8.\<close>

definition WHITE_SPACE :: "string list" where
  "WHITE_SPACE = map (map char_of)
     ([[9], [10], [11], [12], [13], [32], [194, 133], [194, 160], [225, 154, 128],
       [226, 128, 168], [226, 128, 169], [226, 128, 175], [226, 129, 159], [227, 128, 128]] @
      map (\<lambda>n. [226, 128, n]) [128 ..< 139 :: nat])"

function trim_front :: "string list \<Rightarrow> string \<Rightarrow> string" where
  "trim_front ws s =
    (case List.find (\<lambda>w. w \<noteq> [] \<and> prefix w s) ws of
       None \<Rightarrow> s
     | Some w \<Rightarrow> trim_front ws (drop (length w) s))"
  by auto

termination
  by (relation "measure (\<lambda>(ws, s). length s)")
    (auto simp: find_Some_iff prefix_def)

definition trim :: "string \<Rightarrow> string" where
  "trim s = rev (trim_front (map rev WHITE_SPACE) (rev (trim_front WHITE_SPACE s)))"

subsection \<open>Limits\<close>

definition refuse :: "bool \<Rightarrow> 'e \<Rightarrow> 'e option" where
  "refuse b e = (if b then Some e else None)"

fun first_error :: "'e option list \<Rightarrow> 'e option" where
  "first_error [] = None"
| "first_error (None # xs) = first_error xs"
| "first_error (Some e # xs) = Some e"

definition bad_name :: "nat \<Rightarrow> string \<Rightarrow> bool" where
  "bad_name m s \<longleftrightarrow> s = [] \<or> m < length s \<or> \<not> is_ascii_text s \<or>
     list_ex (\<lambda>c. ascii_control c \<or> ascii_whitespace c) s"

definition validate_application_id :: "string \<Rightarrow> gossip_error option" where
  "validate_application_id a =
    (let a = trim a in refuse (a = [] \<or> 256 < length a \<or> \<not> is_ascii_text a) InvalidApplicationId)"

definition validate_namespace :: "string \<Rightarrow> bool \<Rightarrow> gossip_error option" where
  "validate_namespace n allow_reserved = first_error
     [refuse (bad_name GOSSIP_MAX_NAMESPACE_BYTES n) InvalidNamespace,
      refuse (\<not> allow_reserved \<and> prefix ''_veilknit.'' n) ReservedNamespace]"

definition validate_object_id :: "string \<Rightarrow> gossip_error option" where
  "validate_object_id i =
     refuse (i = [] \<or> GOSSIP_MAX_OBJECT_ID_BYTES < length i \<or> has_control i) InvalidObjectId"

definition validate_pointer :: "string \<Rightarrow> gossip_error option" where
  "validate_pointer p =
     refuse (p = [] \<or> GOSSIP_MAX_POINTER_BYTES < length p \<or> has_control p) InvalidPointer"

definition is_minhash16 :: "string \<Rightarrow> bool" where
  "is_minhash16 a \<longleftrightarrow> eq_ignore_ascii_case a ''minhash16''"

definition validate_fingerprint_parts :: "string \<Rightarrow> string \<Rightarrow> bytes \<Rightarrow> gossip_error option" where
  "validate_fingerprint_parts ch alg bs = first_error
     [refuse (bad_name GOSSIP_MAX_FINGERPRINT_CHANNEL_BYTES ch) (InvalidFingerprint ''channel is invalid''),
      refuse (bad_name GOSSIP_MAX_FINGERPRINT_ALGORITHM_BYTES alg)
        (InvalidFingerprint ''algorithm is invalid''),
      refuse (bs = [] \<or> GOSSIP_MAX_FINGERPRINT_BYTES < length bs)
        (InvalidFingerprint ''fingerprint bytes must be 1..=256''),
      refuse (is_minhash16 alg \<and> odd (length bs))
        (InvalidFingerprint ''minhash16 fingerprints must contain whole 16-bit positions'')]"

definition validate_fingerprint :: "gossip_fingerprint \<Rightarrow> gossip_error option" where
  "validate_fingerprint fp = first_error
     [validate_fingerprint_parts (fp_channel fp) (fp_algorithm fp) (fp_bytes fp),
      refuse (is_minhash16 (fp_algorithm fp) \<and> odd (length (fp_bytes fp)))
        (InvalidFingerprint ''minhash16 byte length must be even'')]"

definition validate_probe :: "gossip_fingerprint_probe \<Rightarrow> gossip_error option" where
  "validate_probe pb = first_error
     [validate_fingerprint_parts (pb_channel pb) (pb_algorithm pb) (pb_bytes pb),
      refuse (pb_weight pb = 0 \<or> 1000 < pb_weight pb)
        (InvalidQuery ''fingerprint probe weight must be 1..=1000''),
      refuse (is_minhash16 (pb_algorithm pb) \<and> odd (length (pb_bytes pb)))
        (InvalidQuery ''minhash16 probe byte length must be even'')]"

definition validate_index_tokens :: "index_token list \<Rightarrow> gossip_error option" where
  "validate_index_tokens ts = refuse (GOSSIP_MAX_INDEX_TOKENS < length ts) TooManyIndexTokens"

definition validate_content ::
  "string option \<Rightarrow> gossip_fingerprint list \<Rightarrow> index_token list \<Rightarrow> bytes \<Rightarrow> gossip_error option" where
  "validate_content pointer fps toks payload = first_error
     ([case pointer of None \<Rightarrow> None | Some p \<Rightarrow> validate_pointer p,
       refuse (GOSSIP_MAX_FINGERPRINTS < length fps) TooManyFingerprints] @
      map validate_fingerprint fps @
      [validate_index_tokens toks,
       refuse (GOSSIP_MAX_CUSTOM_PAYLOAD_BYTES < length payload) CustomPayloadTooLarge])"

definition validate_publish_request :: "gossip_publish_request \<Rightarrow> gossip_error option" where
  "validate_publish_request q = first_error
     [validate_object_id (pq_object_id q),
      validate_content (pq_pointer q) (pq_fingerprints q) (pq_index_tokens q) (pq_custom_payload q),
      refuse (pq_ttl_seconds q = 0 \<or> GOSSIP_MAX_TTL_SECS < pq_ttl_seconds q) InvalidTtl]"

text \<open>\<open>parses\<close> is the parser of record keys.\<close>

definition validate_record :: "(string \<Rightarrow> bool) \<Rightarrow> nat \<Rightarrow> gossip_record \<Rightarrow> bool \<Rightarrow> gossip_error option" where
  "validate_record parses now r allow_reserved = first_error
     [validate_namespace (gr_namespace r) allow_reserved,
      validate_object_id (gr_object_id r),
      refuse (GOSSIP_MAX_POINTER_BYTES < length (gr_origin r) \<or> has_control (gr_origin r)) InvalidPointer,
      refuse (\<not> parses (gr_origin r)) InvalidPointer,
      validate_content (gr_pointer r) (gr_fingerprints r) (gr_index_tokens r) (gr_custom_payload r),
      refuse (gr_expires_at r \<le> gr_published_at r \<or>
        GOSSIP_MAX_TTL_SECS < gr_expires_at r - gr_published_at r) InvalidTtl,
      refuse (sat_add u64_max now GOSSIP_MAX_FUTURE_SKEW_SECS < gr_published_at r)
        (Wire ''record publication time is too far in the future''),
      refuse (gr_withdrawn r \<and>
          (gr_fingerprints r \<noteq> [] \<or> gr_index_tokens r \<noteq> [] \<or> gr_custom_payload r \<noteq> []))
        (Wire ''withdrawn records cannot carry fingerprints/index tokens/custom payload'')]"

definition validate_token_probe :: "gossip_token_probe \<Rightarrow> gossip_error option" where
  "validate_token_probe tp = first_error
     [refuse (tp_tokens tp = [] \<or> GOSSIP_MAX_INDEX_TOKENS_PER_PROBE < length (tp_tokens tp))
        (InvalidQuery ''each token probe must contain 1..=16 tokens''),
      refuse (tp_weight tp = 0 \<or> 1000 < tp_weight tp)
        (InvalidQuery ''token probe weight must be 1..=1000'')]"

definition validate_query :: "gossip_search_query \<Rightarrow> gossip_error option" where
  "validate_query q = first_error
     ([validate_namespace (sq_namespace q) True,
       refuse (GOSSIP_MAX_QUERY_PROBES < length (sq_probes q))
         (InvalidQuery ''at most 8 fingerprint probes are allowed''),
       refuse (sq_limit q = 0 \<or> GOSSIP_MAX_QUERY_RESULTS < sq_limit q)
         (InvalidQuery ''result limit must be 1..=32''),
       refuse (case sq_min_score_milli q of None \<Rightarrow> False | Some m \<Rightarrow> 1000 < m)
         (InvalidQuery ''minimum score must be 0..=1000'')] @
      map validate_probe (sq_probes q) @
      [refuse (GOSSIP_MAX_INDEX_PROBES < length (sq_token_probes q))
         (InvalidQuery ''at most 8 token probe groups are allowed'')] @
      map validate_token_probe (sq_token_probes q) @
      [refuse (GOSSIP_MAX_INDEX_TOKENS < sum_list (map (\<lambda>tp. length (tp_tokens tp)) (sq_token_probes q)))
         (InvalidQuery ''a query may reference at most 32 index tokens'')])"

subsection \<open>Frames\<close>

datatype gossip_wire_message =
    Record_Message gossip_record nat
  | Query_Message bytes gossip_search_query
  | Query_Response bytes "gossip_record list"

record gossip_codec =
  serialize_envelope :: "nat \<times> gossip_wire_message \<Rightarrow> gossip_error + bytes"
  deserialize_envelope :: "bytes \<Rightarrow> gossip_error + (nat \<times> gossip_wire_message)"

definition is_engine_frame :: "bytes \<Rightarrow> bool" where
  "is_engine_frame payload \<longleftrightarrow> prefix GOSSIP_WIRE_PREFIX payload"

definition encode_wire :: "gossip_codec \<Rightarrow> gossip_wire_message \<Rightarrow> gossip_error + bytes" where
  "encode_wire c m =
    (case serialize_envelope c (GOSSIP_ENGINE_VERSION, m) of
       Inl e \<Rightarrow> Inl e
     | Inr bs \<Rightarrow>
        if GOSSIP_WIRE_MAX_BYTES < length bs + length GOSSIP_WIRE_PREFIX
        then Inl (Wire ''encoded frame exceeds gossip-engine limit'')
        else Inr (GOSSIP_WIRE_PREFIX @ bs))"

definition decode_wire :: "gossip_codec \<Rightarrow> bytes \<Rightarrow> gossip_error + gossip_wire_message" where
  "decode_wire c payload =
    (if \<not> is_engine_frame payload then Inl (Wire ''missing gossip-engine prefix'')
     else if GOSSIP_WIRE_MAX_BYTES < length payload then Inl (Wire ''frame exceeds gossip-engine limit'')
     else case deserialize_envelope c (drop (length GOSSIP_WIRE_PREFIX) payload) of
       Inl e \<Rightarrow> Inl e
     | Inr (version, m) \<Rightarrow>
        if version \<noteq> GOSSIP_ENGINE_VERSION
        then Inl (Wire (''unsupported gossip-engine version '' @ show_nat version))
        else Inr m)"

lemma frame_round_trip:
  assumes "encode_wire c m = Inr bs"
    and "\<And>bs. serialize_envelope c (GOSSIP_ENGINE_VERSION, m) = Inr bs \<Longrightarrow>
      deserialize_envelope c bs = Inr (GOSSIP_ENGINE_VERSION, m)"
  shows "decode_wire c bs = Inr m"
  using assms(1) assms(2)
  by (auto simp: encode_wire_def decode_wire_def is_engine_frame_def split: sum.splits if_splits)

lemma first_error_None [simp]: "first_error xs = None \<longleftrightarrow> (\<forall>x \<in> set xs. x = None)"
  by (induction xs rule: first_error.induct) simp_all

lemma refuse_None [simp]: "refuse b e = None \<longleftrightarrow> \<not> b"
  by (simp add: refuse_def)

end
