(* ===== verification/Gossip_Cache.thy ===== *)
theory Gossip_Cache
  imports Gossip_Types
begin

text \<open>
  The gossip cache of the daemon (\<open>src/gossip/mod.rs\<close>): one map of objects per activated application,
  what a claim about an object does to it, expiry, the capacity limits, and the index from search
  tokens to objects that is rebuilt with every change.
\<close>

type_synonym object_key = "string \<times> string"

record gossip_cache_entry =
  ce_record :: gossip_record
  ce_digest :: bytes
  first_seen_at :: nat
  last_seen_at :: nat
  last_verified_at :: "nat option"
  last_verified_generation :: "nat option"
  verification :: verification_state
  supporting_sources :: "string list"
  conflicting_digests :: "bytes list"
  locally_published :: bool

record app_gossip_state =
  entries :: "(object_key \<times> gossip_cache_entry) list"
  token_index :: "(index_token \<times> object_key list) list"

record gossip_state =
  apps :: "(string \<times> app_gossip_state) list"
  query_response_last :: "((string \<times> string) \<times> nat) list"

definition app_default :: app_gossip_state where
  "app_default = \<lparr>entries = [], token_index = []\<rparr>"

definition object_key_of :: "gossip_record \<Rightarrow> object_key" where
  "object_key_of r = (gr_namespace r, gr_object_id r)"

subsection \<open>A claim about an object\<close>

definition updated_event :: "string \<Rightarrow> gossip_record \<Rightarrow> verification_state \<Rightarrow> gossip_event" where
  "updated_event a r v =
    (if gr_withdrawn r then Object_Withdrawn a (gr_namespace r) (gr_object_id r) (gr_generation r)
     else Object_Updated a (gr_namespace r) (gr_object_id r) (gr_generation r) v)"

definition conflict_event :: "string \<Rightarrow> gossip_record \<Rightarrow> gossip_event" where
  "conflict_event a r = Conflict_Observed a (gr_namespace r) (gr_object_id r) (gr_generation r)"

definition first_verification :: "bool \<Rightarrow> verification_state" where
  "first_verification local = (if local then Local_Published else Unverified)"

definition source_set :: "string \<Rightarrow> string list" where
  "source_set src = (if src = [] then [] else [src])"

definition new_claim :: "nat \<Rightarrow> bytes \<Rightarrow> gossip_record \<Rightarrow> string \<Rightarrow> bool \<Rightarrow> gossip_cache_entry" where
  "new_claim now digest r src local =
     \<lparr>ce_record = r, ce_digest = digest, first_seen_at = now, last_seen_at = now,
      last_verified_at = (if local then Some now else None),
      last_verified_generation = (if local then Some (gr_generation r) else None),
      verification = first_verification local, supporting_sources = source_set src,
      conflicting_digests = [], locally_published = local\<rparr>"

text \<open>
  What the claim makes of the entry that is there, whether it is worth forwarding, and the event it
  is worth.
\<close>

definition newer_claim ::
  "string \<Rightarrow> nat \<Rightarrow> bytes \<Rightarrow> gossip_record \<Rightarrow> string \<Rightarrow> bool \<Rightarrow> gossip_cache_entry \<Rightarrow> gossip_cache_entry" where
  "newer_claim a now digest r src local e =
     e\<lparr>ce_record := r, ce_digest := digest, last_seen_at := now,
       last_verified_at := (if local then Some now else last_verified_at e),
       last_verified_generation :=
         (if local then Some (gr_generation r) else last_verified_generation e),
       verification := first_verification local, supporting_sources := source_set src,
       conflicting_digests := [], locally_published := local\<rparr>"

definition repeated_claim ::
  "nat \<Rightarrow> gossip_record \<Rightarrow> string \<Rightarrow> bool \<Rightarrow> gossip_cache_entry \<Rightarrow> gossip_cache_entry" where
  "repeated_claim now r src local e =
    (let e = e\<lparr>last_seen_at := now,
               supporting_sources :=
                 (if length (supporting_sources e) < GOSSIP_MAX_CLAIMED_SOURCES \<and> src \<noteq> []
                  then List.insert src (supporting_sources e) else supporting_sources e)\<rparr>
     in if local
        then e\<lparr>locally_published := True, last_verified_at := Some now,
               last_verified_generation := Some (gr_generation r), verification := Local_Published\<rparr>
        else if verification e = Unverified \<and> 2 \<le> length (supporting_sources e)
        then e\<lparr>verification := Multi_Source_Hint\<rparr>
        else e)"

definition merge_claim ::
  "string \<Rightarrow> nat \<Rightarrow> bytes \<Rightarrow> gossip_record \<Rightarrow> string \<Rightarrow> bool \<Rightarrow> gossip_cache_entry option \<Rightarrow>
   gossip_cache_entry \<times> bool \<times> gossip_event option" where
  "merge_claim a now digest r src local old =
    (case old of
       None \<Rightarrow> (new_claim now digest r src local, True,
               Some (updated_event a r (first_verification local)))
     | Some e \<Rightarrow>
        if locally_published e \<and> \<not> local
        then (if digest \<noteq> ce_digest e \<or> gr_generation r \<noteq> gr_generation (ce_record e)
              then (e\<lparr>last_seen_at := now,
                      conflicting_digests := List.insert digest (conflicting_digests e)\<rparr>,
                    False, Some (conflict_event a r))
              else (e\<lparr>last_seen_at := now\<rparr>, False, None))
        else if gr_generation (ce_record e) < gr_generation r
        then (newer_claim a now digest r src local e, True,
              Some (updated_event a r (first_verification local)))
        else if gr_generation r < gr_generation (ce_record e)
        then (e\<lparr>last_seen_at := now\<rparr>, False, None)
        else if digest = ce_digest e
        then (repeated_claim now r src local e, False, None)
        else (e\<lparr>last_seen_at := now,
                conflicting_digests := List.insert digest (conflicting_digests e),
                verification := Conflicting\<rparr>,
              False, Some (conflict_event a r)))"

subsection \<open>The token index\<close>

definition index_token_of ::
  "object_key \<Rightarrow> (index_token \<times> object_key list) list \<Rightarrow> index_token \<Rightarrow> (index_token \<times> object_key list) list" where
  "index_token_of k ix t = amodify t (List.insert k) (or_insert t [] ix)"

definition index_entry ::
  "(index_token \<times> object_key list) list \<Rightarrow> object_key \<times> gossip_cache_entry \<Rightarrow>
   (index_token \<times> object_key list) list" where
  "index_entry ix ke =
    (if gr_withdrawn (ce_record (snd ke)) then ix
     else foldl (index_token_of (fst ke)) ix (gr_index_tokens (ce_record (snd ke))))"

definition rebuild_token_index :: "app_gossip_state \<Rightarrow> app_gossip_state" where
  "rebuild_token_index app = app\<lparr>token_index := foldl index_entry [] (entries app)\<rparr>"

subsection \<open>Expiry and capacity\<close>

definition on_apps :: "(app_gossip_state \<Rightarrow> app_gossip_state) \<Rightarrow> gossip_state \<Rightarrow> gossip_state" where
  "on_apps f s = s\<lparr>apps := map (\<lambda>(a, app). (a, f app)) (apps s)\<rparr>"

definition prune_app :: "nat \<Rightarrow> app_gossip_state \<Rightarrow> app_gossip_state" where
  "prune_app now app =
     rebuild_token_index
       (app\<lparr>entries := filter (\<lambda>(_, e). now < gr_expires_at (ce_record e)) (entries app)\<rparr>)"

definition prune_state :: "nat \<Rightarrow> gossip_state \<Rightarrow> gossip_state" where
  "prune_state now s =
    (let s = on_apps (prune_app now) s
     in s\<lparr>query_response_last :=
            filter (\<lambda>(_, t). now - t < GOSSIP_MAX_TTL_SECS) (query_response_last s)\<rparr>)"

text \<open>\<open>min_by_key\<close>: the first entry with the least key.\<close>

definition evict_order :: "gossip_cache_entry \<Rightarrow> nat \<times> nat" where
  "evict_order e = ((if locally_published e then 1 else 0), last_seen_at e)"

fun first_min :: "('a \<Rightarrow> 'k :: linorder) \<Rightarrow> 'a list \<Rightarrow> 'a option" where
  "first_min f [] = None"
| "first_min f (x # xs) =
     (case first_min f xs of
        None \<Rightarrow> Some x
      | Some y \<Rightarrow> if f y < f x then Some y else Some x)"

definition eviction_candidate :: "app_gossip_state \<Rightarrow> object_key option" where
  "eviction_candidate app = map_option fst (first_min (\<lambda>(_, e). evict_order e) (entries app))"

definition drop_entry :: "object_key \<Rightarrow> app_gossip_state \<Rightarrow> app_gossip_state" where
  "drop_entry k app = app\<lparr>entries := AList.delete k (entries app)\<rparr>"

text \<open>The two loops: at most one round per entry, so the number of entries is enough fuel.\<close>

fun shrink_app :: "nat \<Rightarrow> app_gossip_state \<Rightarrow> app_gossip_state" where
  "shrink_app 0 app = app"
| "shrink_app (Suc n) app =
     (if length (entries app) \<le> GOSSIP_MAX_ENTRIES_PER_APP then app
      else case eviction_candidate app of
        None \<Rightarrow> app
      | Some k \<Rightarrow> shrink_app n (drop_entry k app))"

definition all_cached :: "gossip_state \<Rightarrow> ((string \<times> object_key) \<times> gossip_cache_entry) list" where
  "all_cached s = concat (map (\<lambda>(a, app). map (\<lambda>(k, e). ((a, k), e)) (entries app)) (apps s))"

definition total_entries :: "gossip_state \<Rightarrow> nat" where
  "total_entries s = sum_list (map (\<lambda>(_, app). length (entries app)) (apps s))"

fun shrink_all :: "nat \<Rightarrow> gossip_state \<Rightarrow> gossip_state" where
  "shrink_all 0 s = s"
| "shrink_all (Suc n) s =
     (if total_entries s \<le> GOSSIP_MAX_ENTRIES_GLOBAL then s
      else case first_min (\<lambda>(_, e). evict_order e) (all_cached s) of
        None \<Rightarrow> s
      | Some ((a, k), _) \<Rightarrow> shrink_all n (s\<lparr>apps := amodify a (drop_entry k) (apps s)\<rparr>))"

definition enforce_capacity :: "gossip_state \<Rightarrow> gossip_state" where
  "enforce_capacity s =
    (let s = on_apps (\<lambda>app. shrink_app (length (entries app)) app) s;
         s = shrink_all (total_entries s) s
     in on_apps rebuild_token_index s)"

subsection \<open>Ingesting a claim\<close>

definition cached :: "gossip_state \<Rightarrow> string \<Rightarrow> object_key \<Rightarrow> gossip_cache_entry option" where
  "cached s a k = Option.bind (map_of (apps s) a) (\<lambda>app. map_of (entries app) k)"

definition put_claim ::
  "string \<Rightarrow> nat \<Rightarrow> bytes \<Rightarrow> gossip_record \<Rightarrow> string \<Rightarrow> bool \<Rightarrow> gossip_state \<Rightarrow>
   gossip_state \<times> bool \<times> gossip_event option" where
  "put_claim a now digest r src local s =
    (let s = prune_state now s;
         aps = or_insert a app_default (apps s);
         app = the (map_of aps a);
         k = object_key_of r
     in case merge_claim a now digest r src local (map_of (entries app) k) of
          (e, forwardable, ev) \<Rightarrow>
            (let app = rebuild_token_index (app\<lparr>entries := AList.update k e (entries app)\<rparr>)
             in (enforce_capacity (s\<lparr>apps := AList.update a app aps\<rparr>), forwardable, ev)))"

record gossip_params =
  main_dht :: string
  parses_key :: "string \<Rightarrow> bool"
  record_digest :: "gossip_record \<Rightarrow> gossip_error + bytes"
  gossip_codec :: gossip_codec

text \<open>The entry that the claim ends in, and whether it is worth forwarding.\<close>

definition ingest_record ::
  "gossip_params \<Rightarrow> nat \<Rightarrow> string \<Rightarrow> gossip_record \<Rightarrow> string \<Rightarrow> bool \<Rightarrow> gossip_state \<Rightarrow>
   (gossip_error + (gossip_cache_entry \<times> bool)) \<times> gossip_event list \<times> gossip_state" where
  "ingest_record gp now a r src local s =
    (case validate_record (parses_key gp) now r True of
       Some err \<Rightarrow> (Inl err, [], s)
     | None \<Rightarrow>
        if gr_expires_at r \<le> now then (Inl (Wire ''record already expired''), [], s)
        else case record_digest gp r of
          Inl err \<Rightarrow> (Inl err, [], s)
        | Inr digest \<Rightarrow>
           (case put_claim a now digest r src local s of
              (s, forwardable, ev) \<Rightarrow>
                (case cached s a (object_key_of r) of
                   None \<Rightarrow> (Inl ObjectNotFound, [], s)
                 | Some e \<Rightarrow> (Inr (e, forwardable), case ev of None \<Rightarrow> [] | Some ev \<Rightarrow> [ev], s))))"

end
