(* ===== verification/Gossip_Manager.thy ===== *)
theory Gossip_Manager
  imports Gossip_Cache
begin

text \<open>
  The operations of \<open>GossipManager\<close> (\<open>src/gossip/mod.rs\<close>): publishing, withdrawing and confirming,
  searching, listing, statistics, and the frames that come in from other nodes. A call sees a clock
  and the peers of the moment; the frames it sends and the events it emits are its outputs. Scores are
  \<open>f32\<close> values in the code: their type, the score of an entry and the comparison with the minimum are
  a parameter here, and the order of hits with equal rank is that of the list.
\<close>

subsection \<open>Searching\<close>

record 'f scoring =
  score_entry :: "gossip_cache_entry \<Rightarrow> gossip_search_query \<Rightarrow> nat \<Rightarrow> 'f"
  below_minimum :: "'f \<Rightarrow> nat \<Rightarrow> bool"

record 'f gossip_search_hit =
  hit_entry :: gossip_cache_entry
  hit_score :: "'f"
  matched_index_tokens :: nat

definition hint_rank :: "verification_state \<Rightarrow> nat" where
  "hint_rank v =
    (case v of
       Conflicting \<Rightarrow> 0 | Unverified \<Rightarrow> 1 | Multi_Source_Hint \<Rightarrow> 2 | Pointer_Confirmed \<Rightarrow> 3
     | Authoritative_Verified \<Rightarrow> 4 | Local_Published \<Rightarrow> 5)"

definition token_probe_match_count :: "gossip_cache_entry \<Rightarrow> gossip_token_probe \<Rightarrow> nat" where
  "token_probe_match_count e tp =
     length (filter (\<lambda>t. t \<in> set (gr_index_tokens (ce_record e))) (tp_tokens tp))"

definition token_probe_group_matches :: "gossip_cache_entry \<Rightarrow> gossip_token_probe \<Rightarrow> bool" where
  "token_probe_group_matches e tp =
    (case tp_match_mode tp of
       Match_All \<Rightarrow> token_probe_match_count e tp = length (tp_tokens tp)
     | Match_Any \<Rightarrow> 0 < token_probe_match_count e tp)"

fun token_filters_match ::
  "gossip_cache_entry \<Rightarrow> index_token list \<Rightarrow> gossip_token_probe list \<Rightarrow> bool \<times> nat" where
  "token_filters_match e matched [] = (True, length matched)"
| "token_filters_match e matched (tp # tps) =
    (let matched = foldl (\<lambda>m t. if t \<in> set (gr_index_tokens (ce_record e)) then List.insert t m else m)
                     matched (tp_tokens tp);
         ok = token_probe_group_matches e tp
     in case tp_polarity tp of
          Required \<Rightarrow> if \<not> ok then (False, length matched) else token_filters_match e matched tps
        | Exclude \<Rightarrow> if ok then (False, length matched) else token_filters_match e matched tps
        | Preferred \<Rightarrow> token_filters_match e matched tps)"

text \<open>The keys of a group of tokens in the index.\<close>

definition indexed_keys :: "app_gossip_state \<Rightarrow> index_token \<Rightarrow> object_key list" where
  "indexed_keys app t = (case map_of (token_index app) t of None \<Rightarrow> [] | Some ks \<Rightarrow> ks)"

definition join_keys ::
  "token_match_mode \<Rightarrow> object_key list option \<Rightarrow> object_key list \<Rightarrow> object_key list" where
  "join_keys mode grp keys =
    (case (grp, mode) of
       (None, _) \<Rightarrow> keys
     | (Some g, Match_Any) \<Rightarrow> foldl (\<lambda>g k. List.insert k g) g keys
     | (Some g, Match_All) \<Rightarrow> filter (\<lambda>k. k \<in> set keys) g)"

definition group_keys :: "app_gossip_state \<Rightarrow> gossip_token_probe \<Rightarrow> object_key list" where
  "group_keys app tp =
    (case foldl (\<lambda>g t. Some (join_keys (tp_match_mode tp) g (indexed_keys app t))) None (tp_tokens tp) of
       None \<Rightarrow> [] | Some g \<Rightarrow> g)"

fun narrow ::
  "app_gossip_state \<Rightarrow> object_key list option \<Rightarrow> gossip_token_probe list \<Rightarrow> object_key list option" where
  "narrow app candidates [] = candidates"
| "narrow app candidates (tp # tps) =
    (let ks = group_keys app tp;
         candidates = (case candidates of None \<Rightarrow> ks | Some c \<Rightarrow> filter (\<lambda>k. k \<in> set ks) c)
     in if candidates = [] then Some candidates else narrow app (Some candidates) tps)"

definition token_index_candidates ::
  "app_gossip_state \<Rightarrow> gossip_token_probe list \<Rightarrow> object_key list option" where
  "token_index_candidates app tps = narrow app None (filter (\<lambda>tp. tp_polarity tp = Required) tps)"

definition eligible :: "nat \<Rightarrow> gossip_search_query \<Rightarrow> gossip_cache_entry \<Rightarrow> bool" where
  "eligible now q e \<longleftrightarrow> now < gr_expires_at (ce_record e) \<and> gr_namespace (ce_record e) = sq_namespace q \<and>
     (sq_include_withdrawn q \<or> \<not> gr_withdrawn (ce_record e))"

definition hit_of ::
  "'f scoring \<Rightarrow> nat \<Rightarrow> gossip_search_query \<Rightarrow> gossip_cache_entry \<Rightarrow> 'f gossip_search_hit option" where
  "hit_of sc now q e =
    (case token_filters_match e [] (sq_token_probes q) of
       (False, _) \<Rightarrow> None
     | (True, n) \<Rightarrow>
        (let score = score_entry sc e q now in
         if (case sq_min_score_milli q of None \<Rightarrow> False | Some m \<Rightarrow> below_minimum sc score m) then None
         else Some \<lparr>hit_entry = e, hit_score = score, matched_index_tokens = n\<rparr>))"

definition hit_rank :: "('f :: linorder) gossip_search_hit \<Rightarrow> 'f \<times> nat \<times> nat \<times> nat" where
  "hit_rank h =
     (hit_score h, hint_rank (verification (hit_entry h)),
      gr_generation (ce_record (hit_entry h)), last_seen_at (hit_entry h))"

text \<open>A stable sort with the largest rank first.\<close>

definition sort_hits :: "('f :: linorder) gossip_search_hit list \<Rightarrow> 'f gossip_search_hit list" where
  "sort_hits hs = rev (sort_key hit_rank (rev hs))"

definition found_hits ::
  "'f scoring \<Rightarrow> app_gossip_state \<Rightarrow> gossip_search_query \<Rightarrow> nat \<Rightarrow> 'f gossip_search_hit list" where
  "found_hits sc app q now =
    (let keys = (case token_index_candidates app (sq_token_probes q) of
                   None \<Rightarrow> map fst (entries app) | Some ks \<Rightarrow> ks);
         es = filter (eligible now q) (List.map_filter (map_of (entries app)) keys)
     in List.map_filter (hit_of sc now q) es)"

definition search_app_state ::
  "('f :: linorder) scoring \<Rightarrow> app_gossip_state \<Rightarrow> gossip_search_query \<Rightarrow> nat \<Rightarrow> 'f gossip_search_hit list" where
  "search_app_state sc app q now = take (sq_limit q) (sort_hits (found_hits sc app q now))"

subsection \<open>Calls\<close>

text \<open>
  What a call sees: the time, the application peers of the walk task (\<open>None\<close> without one) and its
  verified nodes, the shuffle, and a random identifier.
\<close>

record gossip_env =
  now :: nat
  app_peers :: "(string \<Rightarrow> nat \<Rightarrow> string list) option"
  topology_nodes :: "string list"
  shuffle :: "string list \<Rightarrow> string list"
  random_id :: bytes

datatype gossip_output = Send_Frame string string bytes | Emit gossip_event

definition activate_application :: "string \<Rightarrow> gossip_state \<Rightarrow> gossip_error option \<times> gossip_state" where
  "activate_application a s =
    (case validate_application_id a of
       Some e \<Rightarrow> (Some e, s)
     | None \<Rightarrow> (None, s\<lparr>apps := or_insert a app_default (apps s)\<rparr>))"

definition select_peers ::
  "gossip_params \<Rightarrow> gossip_env \<Rightarrow> string \<Rightarrow> nat \<Rightarrow> string option \<Rightarrow> string list" where
  "select_peers gp env a limit exclude =
    (case app_peers env of
       None \<Rightarrow> []
     | Some peers \<Rightarrow>
        (let ps = (if a = GOSSIP_TEST_APPLICATION_ID then topology_nodes env
                   else peers a (max 1 (min 64 (limit * 4))));
             ps = filter (\<lambda>p. p \<noteq> main_dht gp) ps;
             ps = filter (\<lambda>p. exclude \<noteq> Some p) ps
         in take limit (shuffle env ps)))"

definition fanout_record ::
  "gossip_params \<Rightarrow> gossip_env \<Rightarrow> string \<Rightarrow> gossip_record \<Rightarrow> string option \<Rightarrow> nat \<Rightarrow> gossip_output list" where
  "fanout_record gp env a r exclude hops =
    (case encode_wire (gossip_codec gp) (Record_Message r (min hops GOSSIP_MAX_RELAY_HOPS)) of
       Inl _ \<Rightarrow> []
     | Inr frame \<Rightarrow>
        map (\<lambda>p. Send_Frame p a frame)
          (select_peers gp env a (if exclude = None then GOSSIP_PUBLISH_FANOUT else GOSSIP_RELAY_FANOUT)
             exclude))"

definition fanout_query ::
  "gossip_params \<Rightarrow> gossip_env \<Rightarrow> string \<Rightarrow> bytes \<Rightarrow> gossip_search_query \<Rightarrow> gossip_output list" where
  "fanout_query gp env a i q =
    (case encode_wire (gossip_codec gp) (Query_Message i q) of
       Inl _ \<Rightarrow> []
     | Inr frame \<Rightarrow> map (\<lambda>p. Send_Frame p a frame) (select_peers gp env a GOSSIP_QUERY_FANOUT None))"

definition publish_record_internal ::
  "gossip_params \<Rightarrow> gossip_env \<Rightarrow> string \<Rightarrow> gossip_record \<Rightarrow> bool \<Rightarrow> gossip_state \<Rightarrow>
   (gossip_error + gossip_cache_entry) \<times> gossip_output list \<times> gossip_state" where
  "publish_record_internal gp env a r allow_reserved s =
    (case validate_record (parses_key gp) (now env) r allow_reserved of
       Some e \<Rightarrow> (Inl e, [], s)
     | None \<Rightarrow>
        (case ingest_record gp (now env) a r (main_dht gp) True s of
           (Inl e, evs, s) \<Rightarrow> (Inl e, map Emit evs, s)
         | (Inr (e, forwardable), evs, s) \<Rightarrow>
             (Inr e,
              map Emit evs @
                (if forwardable then fanout_record gp env a r None GOSSIP_MAX_RELAY_HOPS else []),
              s)))"

definition publish ::
  "gossip_params \<Rightarrow> gossip_env \<Rightarrow> string \<Rightarrow> gossip_publish_request \<Rightarrow> gossip_state \<Rightarrow>
   (gossip_error + gossip_cache_entry) \<times> gossip_output list \<times> gossip_state" where
  "publish gp env a q s =
    (case first_error [validate_application_id a, validate_namespace (pq_namespace q) False,
                       validate_publish_request q] of
       Some e \<Rightarrow> (Inl e, [], s)
     | None \<Rightarrow>
        publish_record_internal gp env a
          \<lparr>gr_namespace = pq_namespace q, gr_object_id = pq_object_id q,
           gr_generation = pq_generation q, gr_origin = main_dht gp, gr_published_at = now env,
           gr_expires_at = sat_add u64_max (now env) (pq_ttl_seconds q), gr_pointer = pq_pointer q,
           gr_fingerprints = pq_fingerprints q, gr_index_tokens = pq_index_tokens q,
           gr_custom_payload = pq_custom_payload q, gr_flags = pq_flags q, gr_withdrawn = False\<rparr>
          False s)"

definition publish_system_record ::
  "gossip_params \<Rightarrow> gossip_env \<Rightarrow> string \<Rightarrow> gossip_record \<Rightarrow> gossip_state \<Rightarrow>
   (gossip_error + gossip_cache_entry) \<times> gossip_output list \<times> gossip_state" where
  "publish_system_record gp env a r s =
    (case first_error [validate_application_id a, validate_record (parses_key gp) (now env) r True] of
       Some e \<Rightarrow> (Inl e, [], s)
     | None \<Rightarrow>
        publish_record_internal gp env a
          (r\<lparr>gr_origin := main_dht gp, gr_published_at := now env,
             gr_expires_at := max (gr_expires_at r) (sat_add u64_max (now env) 1)\<rparr>) True s)"

definition withdrawal_of ::
  "gossip_params \<Rightarrow> gossip_env \<Rightarrow> object_key \<Rightarrow> nat option \<Rightarrow> gossip_cache_entry \<Rightarrow> gossip_record" where
  "withdrawal_of gp env k requested e =
    (let next = sat_add u64_max (gr_generation (ce_record e)) 1 in
     \<lparr>gr_namespace = fst k, gr_object_id = snd k,
      gr_generation = max (case requested of None \<Rightarrow> next | Some g \<Rightarrow> g) next,
      gr_origin = main_dht gp, gr_published_at = now env,
      gr_expires_at = sat_add u64_max (now env) GOSSIP_DEFAULT_TTL_SECS,
      gr_pointer = gr_pointer (ce_record e), gr_fingerprints = [], gr_index_tokens = [],
      gr_custom_payload = [], gr_flags = gr_flags (ce_record e), gr_withdrawn = True\<rparr>)"

definition withdraw ::
  "gossip_params \<Rightarrow> gossip_env \<Rightarrow> string \<Rightarrow> object_key \<Rightarrow> nat option \<Rightarrow> bool \<Rightarrow> gossip_state \<Rightarrow>
   (gossip_error + gossip_cache_entry) \<times> gossip_output list \<times> gossip_state" where
  "withdraw gp env a k requested allow_reserved s =
    (case first_error [validate_application_id a, validate_namespace (fst k) allow_reserved,
                       validate_object_id (snd k)] of
       Some e \<Rightarrow> (Inl e, [], s)
     | None \<Rightarrow>
        (case cached s a k of
           None \<Rightarrow> (Inl ObjectNotFound, [], s)
         | Some e \<Rightarrow>
            if \<not> locally_published e then (Inl NotLocallyPublished, [], s)
            else publish_record_internal gp env a (withdrawal_of gp env k requested e) allow_reserved s))"

definition confirmed ::
  "nat \<Rightarrow> nat \<Rightarrow> confirmation_level \<Rightarrow> bool \<Rightarrow> gossip_cache_entry \<Rightarrow> gossip_cache_entry" where
  "confirmed t generation level matches e =
    (if matches
     then e\<lparr>last_verified_at := Some t, last_verified_generation := Some generation,
            verification :=
              (if locally_published e then verification e
               else case level of Confirm_Pointer \<Rightarrow> Pointer_Confirmed
                 | Confirm_Authoritative \<Rightarrow> Authoritative_Verified)\<rparr>
     else e\<lparr>verification := Conflicting\<rparr>)"

definition set_entry :: "string \<Rightarrow> object_key \<Rightarrow> gossip_cache_entry \<Rightarrow> gossip_state \<Rightarrow> gossip_state" where
  "set_entry a k e s =
     s\<lparr>apps := amodify a (\<lambda>app. app\<lparr>entries := amodify k (\<lambda>_. e) (entries app)\<rparr>) (apps s)\<rparr>"

definition confirm ::
  "gossip_env \<Rightarrow> string \<Rightarrow> object_key \<Rightarrow> nat \<Rightarrow> confirmation_level \<Rightarrow> bool \<Rightarrow> gossip_state \<Rightarrow>
   (gossip_error + gossip_cache_entry) \<times> gossip_output list \<times> gossip_state" where
  "confirm env a k generation level matches s =
    (case first_error [validate_application_id a, validate_namespace (fst k) True,
                       validate_object_id (snd k)] of
       Some e \<Rightarrow> (Inl e, [], s)
     | None \<Rightarrow>
        (case cached s a k of
           None \<Rightarrow> (Inl ObjectNotFound, [], s)
         | Some e \<Rightarrow>
            if gr_generation (ce_record e) \<noteq> generation then (Inl GenerationMismatch, [], s)
            else
             (let e = confirmed (now env) generation level matches e;
                  ev = (if matches then Object_Updated a (fst k) (snd k) generation (verification e)
                        else Conflict_Observed a (fst k) (snd k) generation)
              in (Inr e, [Emit ev], set_entry a k e s))))"

definition app_of :: "string \<Rightarrow> gossip_state \<Rightarrow> app_gossip_state" where
  "app_of a s = (case map_of (apps s) a of None \<Rightarrow> app_default | Some app \<Rightarrow> app)"

definition search_local ::
  "('f :: linorder) scoring \<Rightarrow> nat \<Rightarrow> string \<Rightarrow> gossip_search_query \<Rightarrow> gossip_state \<Rightarrow>
   (gossip_error + 'f gossip_search_hit list) \<times> gossip_state" where
  "search_local sc t a q s =
    (case first_error [validate_application_id a, validate_query q] of
       Some e \<Rightarrow> (Inl e, s)
     | None \<Rightarrow>
        (Inr (search_app_state sc (app_of a s) q t), s\<lparr>apps := or_insert a app_default (apps s)\<rparr>))"

text \<open>
  \<open>search\<close> with the question to the network: the state after the wait, in which answers may have come
  in, is \<open>later\<close> of the state before.
\<close>

definition search ::
  "('f :: linorder) scoring \<Rightarrow> gossip_params \<Rightarrow> gossip_env \<Rightarrow> (gossip_state \<Rightarrow> gossip_state) \<Rightarrow> nat \<Rightarrow>
   string \<Rightarrow> gossip_search_query \<Rightarrow> bool \<Rightarrow> gossip_state \<Rightarrow>
   (gossip_error + (bytes \<times> nat \<times> 'f gossip_search_hit list)) \<times> gossip_output list \<times> gossip_state" where
  "search sc gp env later later_now a q query_network s =
    (case first_error [validate_application_id a, validate_query q] of
       Some e \<Rightarrow> (Inl e, [], s)
     | None \<Rightarrow>
        (let s = s\<lparr>apps := or_insert a app_default (apps s)\<rparr>;
             sent = (if query_network then fanout_query gp env a (random_id env) q else []);
             s = (if sent = [] then s else later s)
         in case search_local sc later_now a q s of
              (Inl e, s) \<Rightarrow> (Inl e, sent, s)
            | (Inr hits, s) \<Rightarrow> (Inr (random_id env, length sent, hits), sent, s)))"

definition recent_rank :: "gossip_cache_entry \<Rightarrow> nat \<times> nat" where
  "recent_rank e = (gr_published_at (ce_record e), last_seen_at e)"

definition list_recent ::
  "nat \<Rightarrow> string \<Rightarrow> string option \<Rightarrow> nat \<Rightarrow> gossip_state \<Rightarrow>
   (gossip_error + gossip_cache_entry list) \<times> gossip_state" where
  "list_recent t a namespace limit s =
    (case first_error [validate_application_id a,
                       case namespace of None \<Rightarrow> None | Some n \<Rightarrow> validate_namespace n True] of
       Some e \<Rightarrow> (Inl e, s)
     | None \<Rightarrow>
        (let es = filter (\<lambda>e. t < gr_expires_at (ce_record e)) (map snd (entries (app_of a s)));
             es = filter (\<lambda>e. case namespace of None \<Rightarrow> True
                               | Some n \<Rightarrow> gr_namespace (ce_record e) = n) es;
             es = rev (sort_key recent_rank (rev es))
         in (Inr (take (max 1 (min limit GOSSIP_MAX_QUERY_RESULTS)) es),
             s\<lparr>apps := or_insert a app_default (apps s)\<rparr>)))"

record gossip_app_stats =
  st_application :: string
  object_count :: nat
  locally_published_count :: nat
  conflicting_count :: nat
  total_custom_payload_bytes :: nat
  total_index_tokens :: nat

definition stats :: "nat \<Rightarrow> string \<Rightarrow> gossip_state \<Rightarrow> (gossip_error + gossip_app_stats) \<times> gossip_state" where
  "stats t a s =
    (case validate_application_id a of
       Some e \<Rightarrow> (Inl e, s)
     | None \<Rightarrow>
        (let es = filter (\<lambda>e. t < gr_expires_at (ce_record e)) (map snd (entries (app_of a s)))
         in (Inr \<lparr>st_application = a, object_count = length es,
                  locally_published_count = length (filter locally_published es),
                  conflicting_count = length (filter (\<lambda>e. verification e = Conflicting) es),
                  total_custom_payload_bytes =
                    sum_list (map (\<lambda>e. length (gr_custom_payload (ce_record e))) es),
                  total_index_tokens =
                    sum_list (map (\<lambda>e. length (gr_index_tokens (ce_record e))) es)\<rparr>,
             s\<lparr>apps := or_insert a app_default (apps s)\<rparr>)))"

subsection \<open>Frames from other nodes\<close>

record gossip_message =
  gm_application :: string
  gm_sender :: string
  gm_payload :: bytes

definition is_known_app_peer :: "gossip_env \<Rightarrow> string \<Rightarrow> string \<Rightarrow> bool" where
  "is_known_app_peer env a p =
    (case app_peers env of
       None \<Rightarrow> False
     | Some peers \<Rightarrow>
        if a = GOSSIP_TEST_APPLICATION_ID then p \<in> set (topology_nodes env) else p \<in> set (peers a 256))"

definition allow_query_response ::
  "nat \<Rightarrow> string \<Rightarrow> string \<Rightarrow> gossip_state \<Rightarrow> bool \<times> gossip_state" where
  "allow_query_response t a p s =
    (case map_of (query_response_last s) (a, p) of
       Some earlier \<Rightarrow>
         if t - earlier < GOSSIP_QUERY_RESPONSE_COOLDOWN_SECS then (False, s)
         else (True, s\<lparr>query_response_last := AList.update (a, p) t (query_response_last s)\<rparr>)
     | None \<Rightarrow> (True, s\<lparr>query_response_last := AList.update (a, p) t (query_response_last s)\<rparr>))"

text \<open>The answer takes as many records as fit into a frame.\<close>

fun fit_records ::
  "gossip_codec \<Rightarrow> bytes \<Rightarrow> gossip_record list \<Rightarrow> gossip_record list \<Rightarrow> gossip_record list" where
  "fit_records c i taken [] = taken"
| "fit_records c i taken (r # rs) =
    (case encode_wire c (Query_Response i (taken @ [r])) of
       Inl _ \<Rightarrow> taken
     | Inr _ \<Rightarrow> fit_records c i (taken @ [r]) rs)"

definition answer_query ::
  "('f :: linorder) scoring \<Rightarrow> gossip_params \<Rightarrow> gossip_env \<Rightarrow> gossip_message \<Rightarrow> bytes \<Rightarrow>
   gossip_search_query \<Rightarrow> gossip_state \<Rightarrow>
   gossip_error option \<times> gossip_output list \<times> gossip_state" where
  "answer_query sc gp env m i q s =
    (case validate_query q of
       Some e \<Rightarrow> (Some e, [], s)
     | None \<Rightarrow>
        if \<not> is_known_app_peer env (gm_application m) (gm_sender m) then (None, [], s)
        else case allow_query_response (now env) (gm_application m) (gm_sender m) s of
          (False, s) \<Rightarrow> (None, [], s)
        | (True, s) \<Rightarrow>
           (case search_local sc (now env) (gm_application m) q s of
              (Inl e, s) \<Rightarrow> (Some e, [], s)
            | (Inr hits, s) \<Rightarrow>
               (let rs = map (ce_record \<circ> hit_entry) (take GOSSIP_MAX_QUERY_RESPONSE_RECORDS hits);
                    rs = fit_records (gossip_codec gp) i [] rs
                in case encode_wire (gossip_codec gp) (Query_Response i rs) of
                     Inl e \<Rightarrow> (Some e, [], s)
                   | Inr frame \<Rightarrow> (None, [Send_Frame (gm_sender m) (gm_application m) frame], s))))"

fun ingest_answers ::
  "gossip_params \<Rightarrow> nat \<Rightarrow> string \<Rightarrow> string \<Rightarrow> gossip_record list \<Rightarrow> gossip_state \<Rightarrow>
   nat \<times> gossip_event list \<times> gossip_state" where
  "ingest_answers gp t a src [] s = (0, [], s)"
| "ingest_answers gp t a src (r # rs) s =
    (if validate_record (parses_key gp) t r True \<noteq> None then ingest_answers gp t a src rs s
     else case ingest_record gp t a r src False s of
       (res, evs, s) \<Rightarrow>
         (case ingest_answers gp t a src rs s of
            (n, evs', s) \<Rightarrow> ((case res of Inl _ \<Rightarrow> n | Inr _ \<Rightarrow> n + 1), evs @ evs', s)))"

definition process_incoming ::
  "('f :: linorder) scoring \<Rightarrow> gossip_params \<Rightarrow> gossip_env \<Rightarrow> gossip_message \<Rightarrow> gossip_state \<Rightarrow>
   gossip_error option \<times> gossip_output list \<times> gossip_state" where
  "process_incoming sc gp env m s =
    (let a = gm_application m; src = gm_sender m in
     case validate_application_id a of
       Some e \<Rightarrow> (Some e, [], s)
     | None \<Rightarrow>
        if map_of (apps s) a = None then (None, [], s)
        else case decode_wire (gossip_codec gp) (gm_payload m) of
          Inl e \<Rightarrow> (Some e, [], s)
        | Inr (Record_Message r hops) \<Rightarrow>
           (case validate_record (parses_key gp) (now env) r True of
              Some e \<Rightarrow> (Some e, [], s)
            | None \<Rightarrow>
               (case ingest_record gp (now env) a r src False s of
                  (Inl e, evs, s) \<Rightarrow> (Some e, map Emit evs, s)
                | (Inr (_, forwardable), evs, s) \<Rightarrow>
                    (None,
                     map Emit evs @
                       (if forwardable \<and> 0 < hops then fanout_record gp env a r (Some src) (hops - 1)
                        else []), s)))
        | Inr (Query_Message i q) \<Rightarrow> answer_query sc gp env m i q s
        | Inr (Query_Response i rs) \<Rightarrow>
           (case ingest_answers gp (now env) a src (take GOSSIP_MAX_QUERY_RESPONSE_RECORDS rs) s of
              (n, evs, s) \<Rightarrow> (None, map Emit evs @ [Emit (Query_Merged a i n)], s)))"

text \<open>The bridge: engine frames are processed, the rest is for others; and the maintenance tick.\<close>

definition bridge_step ::
  "('f :: linorder) scoring \<Rightarrow> gossip_params \<Rightarrow> gossip_env \<Rightarrow> gossip_message \<Rightarrow> gossip_state \<Rightarrow>
   gossip_output list \<times> gossip_state" where
  "bridge_step sc gp env m s =
    (if is_engine_frame (gm_payload m)
     then (case process_incoming sc gp env m s of (_, out, s) \<Rightarrow> (out, s))
     else ([], s))"

definition prune_expired :: "gossip_env \<Rightarrow> gossip_state \<Rightarrow> gossip_state" where
  "prune_expired env s = prune_state (now env) s"

end
