(* ===== verification/Gossip_Invariant.thy ===== *)
theory Gossip_Invariant
  imports Gossip_Manager
begin

text \<open>
  The invariant of the gossip cache: distinct keys, every entry filed under its own object, the token
  index exactly that of the entries, and the limits on objects and claimed sources.
\<close>

subsection \<open>Eviction\<close>

lemma first_min_None [simp]: "first_min f xs = None \<longleftrightarrow> xs = []"
  by (cases xs) (auto split: option.split)

lemma first_min_Some: "first_min f xs = Some x \<Longrightarrow> x \<in> set xs \<and> (\<forall>y \<in> set xs. f x \<le> f y)"
  by (induction xs arbitrary: x) (auto split: option.splits if_splits)

definition local_count :: "('k \<times> gossip_cache_entry) list \<Rightarrow> nat" where
  "local_count es = length (filter (\<lambda>(_, e). locally_published e) es)"

text \<open>As long as anything learned from others is cached, no local publication is evicted.\<close>

lemma evicted_is_remote:
  assumes "first_min (\<lambda>(_, e). evict_order e) es = Some (k, e)" "local_count es < length es"
  shows "\<not> locally_published e"
proof -
  obtain k' e' where "(k', e') \<in> set es" "\<not> locally_published e'"
  proof (rule ccontr)
    assume "\<not> thesis"
    with that have "filter (\<lambda>(_, e). locally_published e) es = es" by (auto intro!: filter_True)
    with assms(2) show False by (simp add: local_count_def)
  qed
  with first_min_Some [OF assms(1)] have "evict_order e \<le> evict_order e'" by fastforce
  with \<open>\<not> locally_published e'\<close> show ?thesis by (auto simp: evict_order_def split: if_splits)
qed

lemma length_delete:
  assumes "keys_distinct es" "map_of es k = Some e"
  shows "Suc (length (AList.delete k es)) = length es"
    and "local_count (AList.delete k es) + (if locally_published e then 1 else 0) = local_count es"
proof -
  obtain xs ys where es: "es = xs @ (k, e) # ys" "k \<notin> fst ` set xs" "k \<notin> fst ` set ys"
    using assms by (auto simp: keys_distinct_def dest!: map_of_SomeD split_list)
  then have "AList.delete k xs = xs" "AList.delete k ys = ys" by (simp_all add: delete_id)
  then have "AList.delete k es = xs @ ys" by (simp add: es(1) AList.delete_eq)
  with es show "Suc (length (AList.delete k es)) = length es"
    "local_count (AList.delete k es) + (if locally_published e then 1 else 0) = local_count es"
    by (simp_all add: local_count_def)
qed

lemma shrink_app_ok:
  assumes "keys_distinct (entries app)"
  shows "keys_distinct (entries (shrink_app n app)) \<and>
    length (entries (shrink_app n app)) \<le> max GOSSIP_MAX_ENTRIES_PER_APP (length (entries app) - n) \<and>
    set (entries (shrink_app n app)) \<subseteq> set (entries app) \<and>
    (local_count (entries app) \<le> GOSSIP_MAX_ENTRIES_PER_APP \<longrightarrow>
      (\<forall>k e. map_of (entries app) k = Some e \<longrightarrow> locally_published e \<longrightarrow>
        map_of (entries (shrink_app n app)) k = Some e))"
  using assms
proof (induction n arbitrary: app)
  case (Suc n)
  show ?case
  proof (cases "length (entries app) \<le> GOSSIP_MAX_ENTRIES_PER_APP")
    case False
    then obtain k e where min: "first_min (\<lambda>(_, e). evict_order e) (entries app) = Some (k, e)"
      by (cases "first_min (\<lambda>(_, e). evict_order e) (entries app)") auto
    then have ev: "eviction_candidate app = Some k" by (simp add: eviction_candidate_def)
    have ke: "map_of (entries app) k = Some e"
      using first_min_Some [OF min] Suc.prems by (simp add: keys_distinct_def)
    let ?app = "drop_entry k app"
    have d: "keys_distinct (entries ?app)" using Suc.prems by (simp add: drop_entry_def)
    have len: "length (entries app) = Suc (length (entries ?app))"
      using length_delete(1) [OF Suc.prems ke] by (simp add: drop_entry_def)
    have sub: "set (entries ?app) \<subseteq> set (entries app)" by (auto simp: drop_entry_def AList.delete_eq)
    have loc: "local_count (entries ?app) \<le> GOSSIP_MAX_ENTRIES_PER_APP \<and>
        (\<forall>k e. map_of (entries app) k = Some e \<longrightarrow> locally_published e \<longrightarrow> map_of (entries ?app) k = Some e)"
      if "local_count (entries app) \<le> GOSSIP_MAX_ENTRIES_PER_APP"
    proof -
      have "\<not> locally_published e" using evicted_is_remote [OF min] that False by simp
      with that ke length_delete(2) [OF Suc.prems ke] show ?thesis
        by (auto simp: drop_entry_def map_of_delete_key)
    qed
    from Suc.IH [OF d] len sub loc False ev show ?thesis by (auto simp: ev) 
  qed (use Suc.prems in simp)
qed simp

text \<open>All objects of all applications as one map.\<close>

definition apps_ok :: "gossip_state \<Rightarrow> bool" where
  "apps_ok s \<longleftrightarrow> keys_distinct (apps s) \<and> (\<forall>(a, app) \<in> set (apps s). keys_distinct (entries app))"

definition cached_in :: "string \<Rightarrow> app_gossip_state \<Rightarrow> ((string \<times> object_key) \<times> gossip_cache_entry) list" where
  "cached_in a app = map (\<lambda>(k, e). ((a, k), e)) (entries app)"

lemma all_cached_concat: "all_cached s = concat (map (\<lambda>(a, app). cached_in a app) (apps s))"
  by (simp add: all_cached_def cached_in_def)

lemma length_all_cached: "length (all_cached s) = total_entries s"
proof -
  have "length (concat (map (\<lambda>(a, app). cached_in a app) xs)) =
      sum_list (map (\<lambda>(_, app). length (entries app)) xs)" for xs
    by (induction xs) (auto simp: cached_in_def)
  then show ?thesis by (simp add: all_cached_concat total_entries_def)
qed

lemma map_of_tagged: "map_of (map (\<lambda>(k, e). ((a, k), e)) es) (b, k) = (if a = b then map_of es k else None)"
  by (induction es) auto

lemma map_of_cached_in: "map_of (cached_in a app) (b, k) = (if a = b then map_of (entries app) k else None)"
  by (simp add: cached_in_def map_of_tagged)

lemma map_of_all_cached:
  assumes "keys_distinct (apps s)" shows "map_of (all_cached s) (a, k) = cached s a k"
proof -
  have "map_of (concat (map (\<lambda>(a, app). cached_in a app) xs)) (a, k) =
      Option.bind (map_of xs a) (\<lambda>app. map_of (entries app) k)" if "keys_distinct xs" for xs
    using that
  proof (induction xs)
    case (Cons x xs)
    obtain b app where x: "x = (b, app)" by (cases x)
    have "map_of xs b = None" using Cons.prems by (simp add: x keys_distinct_def map_of_eq_None_iff)
    with Cons show ?case
      by (auto simp: x keys_distinct_def map_of_cached_in map_add_def split: option.split)
  qed simp
  with assms show ?thesis by (simp add: all_cached_concat cached_def)
qed

lemma keys_distinct_cached_in [simp]: "keys_distinct (cached_in a app) \<longleftrightarrow> keys_distinct (entries app)"
  by (simp add: keys_distinct_def cached_in_def comp_def case_prod_beta distinct_map inj_on_def)

lemma keys_distinct_all_cached:
  assumes "apps_ok s" shows "keys_distinct (all_cached s)"
proof -
  have "keys_distinct (concat (map (\<lambda>(a, app). cached_in a app) xs))"
    if "keys_distinct xs" "\<forall>(a, app) \<in> set xs. keys_distinct (entries app)" for xs
    using that
  proof (induction xs)
    case (Cons x xs)
    then have "keys_distinct (cached_in (fst x) (snd x))" by (simp add: case_prod_beta)
    moreover have "fst ` set (cached_in (fst x) (snd x)) \<inter>
        fst ` set (concat (map (\<lambda>(a, app). cached_in a app) xs)) = {}"
      using Cons.prems(1) by (auto simp: keys_distinct_def cached_in_def image_iff)
    ultimately show ?case using Cons by (simp add: keys_distinct_def case_prod_beta)
  qed simp
  with assms show ?thesis by (simp add: apps_ok_def all_cached_concat)
qed

lemma delete_cached_in:
  "AList.delete (b, k) (cached_in a app) = (if a = b then cached_in a (drop_entry k app) else cached_in a app)"
proof -
  have "AList.delete (b, k) (map (\<lambda>(k, e). ((a, k), e)) es) =
      map (\<lambda>(k, e). ((a, k), e)) (if a = b then AList.delete k es else es)" for es :: "(object_key \<times> gossip_cache_entry) list"
    by (induction es) auto
  then show ?thesis by (simp add: cached_in_def drop_entry_def)
qed

lemma all_cached_drop:
  assumes "keys_distinct (apps s)"
  shows "all_cached (s\<lparr>apps := amodify a (drop_entry k) (apps s)\<rparr>) = AList.delete (a, k) (all_cached s)"
proof -
  have "concat (map (\<lambda>(b, app). cached_in b app) (map (\<lambda>(b, app). (b, if b = a then drop_entry k app else app)) xs)) =
      AList.delete (a, k) (concat (map (\<lambda>(b, app). cached_in b app) xs))" for xs
    by (induction xs) (auto simp: delete_cached_in [unfolded AList.delete_eq] AList.delete_eq)
  then show ?thesis
    by (simp add: all_cached_concat amodify_as_map [OF assms])
qed

lemma apps_ok_drop: "apps_ok s \<Longrightarrow> apps_ok (s\<lparr>apps := amodify a (drop_entry k) (apps s)\<rparr>)"
  by (auto simp: apps_ok_def amodify_as_map drop_entry_def keys_distinct_def comp_def case_prod_beta
      distinct_delete)

lemma shrink_all_ok:
  assumes "apps_ok s"
  shows "apps_ok (shrink_all n s) \<and> map fst (apps (shrink_all n s)) = map fst (apps s) \<and>
    total_entries (shrink_all n s) \<le> max GOSSIP_MAX_ENTRIES_GLOBAL (total_entries s - n) \<and>
    set (all_cached (shrink_all n s)) \<subseteq> set (all_cached s) \<and>
    (local_count (all_cached s) \<le> GOSSIP_MAX_ENTRIES_GLOBAL \<longrightarrow>
      (\<forall>a k e. cached s a k = Some e \<longrightarrow> locally_published e \<longrightarrow> cached (shrink_all n s) a k = Some e))"
  using assms
proof (induction n arbitrary: s)
  case (Suc n)
  show ?case
  proof (cases "total_entries s \<le> GOSSIP_MAX_ENTRIES_GLOBAL")
    case False
    then obtain a k e where min: "first_min (\<lambda>(_, e). evict_order e) (all_cached s) = Some ((a, k), e)"
      using length_all_cached [of s]
      by (cases "first_min (\<lambda>(_, e). evict_order e) (all_cached s)") auto
    define s' where "s' = s\<lparr>apps := amodify a (drop_entry k) (apps s)\<rparr>"
    have step: "shrink_all (Suc n) s = shrink_all n s'" using False min by (simp add: s'_def)
    have d: "keys_distinct (apps s)" "keys_distinct (all_cached s)" "apps_ok s'"
      using Suc.prems keys_distinct_all_cached apps_ok_drop by (auto simp: apps_ok_def s'_def)
    have ake: "map_of (all_cached s) (a, k) = Some e"
      using first_min_Some [OF min] d(2) by (simp add: keys_distinct_def)
    have del: "all_cached s' = AList.delete (a, k) (all_cached s)"
      using all_cached_drop [OF d(1)] by (simp add: s'_def)
    have len: "total_entries s = Suc (total_entries s')"
      using length_delete(1) [OF d(2) ake] by (simp add: del flip: length_all_cached)
    have sub: "set (all_cached s') \<subseteq> set (all_cached s)" by (auto simp: del AList.delete_eq)
    have loc: "local_count (all_cached s') \<le> GOSSIP_MAX_ENTRIES_GLOBAL \<and>
        (\<forall>a k e. cached s a k = Some e \<longrightarrow> locally_published e \<longrightarrow> cached s' a k = Some e)"
      if "local_count (all_cached s) \<le> GOSSIP_MAX_ENTRIES_GLOBAL"
    proof -
      have "\<not> locally_published e"
        using evicted_is_remote [OF min] that False by (simp add: length_all_cached)
      moreover have "keys_distinct (apps s')" using d(3) by (simp add: apps_ok_def)
      ultimately show ?thesis
        using that ake length_delete(2) [OF d(2) ake]
        by (auto simp: del map_of_delete_key d(1) simp flip: map_of_all_cached)
    qed
    have "map fst (apps s') = map fst (apps s)" by (simp add: s'_def)
    with Suc.IH [OF d(3)] len sub loc show ?thesis unfolding step by auto
  qed (use Suc.prems in simp)
qed simp

end
