(* ===== verification/Gossip_Index.thy ===== *)
theory Gossip_Index
  imports Gossip_Invariant
begin

text \<open>
  The token index against the entries it is built from, and the search that uses it against a scan of
  all entries.
\<close>

subsection \<open>What the index holds\<close>

definition keys_indexed :: "(index_token \<times> object_key list) list \<Rightarrow> index_token \<Rightarrow> object_key list" where
  "keys_indexed ix t = (case map_of ix t of None \<Rightarrow> [] | Some ks \<Rightarrow> ks)"

definition index_matches :: "index_token \<Rightarrow> gossip_cache_entry \<Rightarrow> bool" where
  "index_matches t e \<longleftrightarrow> \<not> gr_withdrawn (ce_record e) \<and> t \<in> set (gr_index_tokens (ce_record e))"

lemma indexed_keys_indexed: "indexed_keys app t = keys_indexed (token_index app) t"
  by (simp add: indexed_keys_def keys_indexed_def)

lemma indexed_token_of:
  "keys_indexed (index_token_of k ix t) t' =
     (if t' = t then List.insert k (keys_indexed ix t) else keys_indexed ix t')"
  by (auto simp: keys_indexed_def index_token_of_def store_simps split: option.split)

lemma indexed_tokens:
  "keys_indexed (foldl (index_token_of k) ix ts) t =
     (if t \<in> set ts then List.insert k (keys_indexed ix t) else keys_indexed ix t)"
  by (induction ts arbitrary: ix) (auto simp: indexed_token_of)

lemma indexed_entry:
  "keys_indexed (index_entry ix (k, e)) t =
     (if index_matches t e then List.insert k (keys_indexed ix t) else keys_indexed ix t)"
  by (simp add: index_entry_def indexed_tokens index_matches_def)

lemma indexed_entries:
  assumes "distinct (keys_indexed ix t)"
  shows "distinct (keys_indexed (foldl index_entry ix es) t) \<and>
    set (keys_indexed (foldl index_entry ix es) t) =
      set (keys_indexed ix t) \<union> {k. \<exists>e. (k, e) \<in> set es \<and> index_matches t e}"
  using assms
proof (induction es arbitrary: ix)
  case (Cons ke es)
  obtain k e where ke: "ke = (k, e)" by (cases ke)
  have "distinct (keys_indexed (index_entry ix ke) t)" using Cons.prems by (simp add: ke indexed_entry)
  from Cons.IH [OF this] show ?case by (auto simp: ke indexed_entry)
qed simp

definition index_current :: "app_gossip_state \<Rightarrow> bool" where
  "index_current app \<longleftrightarrow> rebuild_token_index app = app"

lemma rebuilt_is_current [simp]: "index_current (rebuild_token_index app)"
  by (simp add: index_current_def rebuild_token_index_def)

lemma rebuild_entries [simp]: "entries (rebuild_token_index app) = entries app"
  by (simp add: rebuild_token_index_def)

lemma default_is_current [simp]: "index_current app_default"
  by (simp add: index_current_def rebuild_token_index_def app_default_def)

lemma index_current_iff: "index_current app \<longleftrightarrow> token_index app = foldl index_entry [] (entries app)"
  by (cases app) (auto simp: index_current_def rebuild_token_index_def)

lemma current_index:
  assumes "index_current app"
  shows "distinct (indexed_keys app t)"
    and "set (indexed_keys app t) = {k. \<exists>e. (k, e) \<in> set (entries app) \<and> index_matches t e}"
proof -
  have "token_index app = foldl index_entry [] (entries app)"
    using assms by (simp add: index_current_iff)
  with indexed_entries [of "[]" t "entries app"]
  show "distinct (indexed_keys app t)"
    "set (indexed_keys app t) = {k. \<exists>e. (k, e) \<in> set (entries app) \<and> index_matches t e}"
    by (simp_all add: indexed_keys_indexed keys_indexed_def)
qed

text \<open>The index depends only on the records, not on what is known about them.\<close>

lemma index_of_records:
  "map (\<lambda>(k, e). (k, ce_record e)) es = map (\<lambda>(k, e). (k, ce_record e)) es' \<Longrightarrow>
   foldl index_entry ix es = foldl index_entry ix es'"
proof (induction es arbitrary: es' ix)
  case (Cons ke es)
  then obtain ke' es'' where es': "es' = ke' # es''" by (cases es') auto
  with Cons.prems have "index_entry ix ke = index_entry ix ke'"
    by (auto simp: index_entry_def split: prod.splits)
  moreover have "foldl index_entry (index_entry ix ke') es = foldl index_entry (index_entry ix ke') es''"
    using Cons.prems es' by (intro Cons.IH) simp
  ultimately show ?case by (simp add: es')
qed simp

subsection \<open>The candidates of a query\<close>

lemma length_filter_all: "length (filter p xs) = length xs \<longleftrightarrow> (\<forall>x \<in> set xs. p x)"
  by (metis filter_True length_filter_less nat_neq_iff)

lemma match_count_all: "token_probe_match_count e tp = length (tp_tokens tp) \<longleftrightarrow>
    set (tp_tokens tp) \<subseteq> set (gr_index_tokens (ce_record e))"
  by (auto simp: token_probe_match_count_def length_filter_all)

lemma match_count_any: "0 < token_probe_match_count e tp \<longleftrightarrow>
    set (tp_tokens tp) \<inter> set (gr_index_tokens (ce_record e)) \<noteq> {}"
  by (auto simp: token_probe_match_count_def filter_empty_conv)

lemma insert_all:
  "distinct g \<Longrightarrow> distinct (foldl (\<lambda>g k. List.insert k g) g ks) \<and>
   set (foldl (\<lambda>g k. List.insert k g) g ks) = set g \<union> set ks"
  by (induction ks arbitrary: g) (auto simp: distinct_insert)

lemma joined_keys:
  assumes "distinct g" "\<forall>t. distinct (f t)"
  shows "\<exists>g'. foldl (\<lambda>g t. Some (join_keys mode g (f t))) (Some g) ts = Some g' \<and> distinct g' \<and>
    set g' = (case mode of
      Match_All \<Rightarrow> {k \<in> set g. \<forall>t \<in> set ts. k \<in> set (f t)}
    | Match_Any \<Rightarrow> {k. k \<in> set g \<or> (\<exists>t \<in> set ts. k \<in> set (f t))})"
  using assms(1)
proof (induction ts arbitrary: g)
  case Nil
  then show ?case by (cases mode) auto
next
  case (Cons t ts)
  let ?g = "join_keys mode (Some g) (f t)"
  have d: "distinct ?g" and s: "set ?g = (case mode of Match_All \<Rightarrow> set g \<inter> set (f t)
      | Match_Any \<Rightarrow> set g \<union> set (f t))"
    using Cons.prems insert_all [of g "f t"] by (auto simp: join_keys_def split: token_match_mode.split)
  from Cons.IH [OF d] s show ?case by (cases mode) auto
qed

lemma group_keys_exact:
  assumes "index_current app" "tp_tokens tp \<noteq> []"
  shows "distinct (group_keys app tp)"
    and "set (group_keys app tp) = {k. case tp_match_mode tp of
      Match_All \<Rightarrow> \<forall>t \<in> set (tp_tokens tp). k \<in> set (indexed_keys app t)
    | Match_Any \<Rightarrow> \<exists>t \<in> set (tp_tokens tp). k \<in> set (indexed_keys app t)}"
proof -
  obtain t ts where ts: "tp_tokens tp = t # ts" using assms(2) by (cases "tp_tokens tp") auto
  have "distinct (indexed_keys app t)" "\<forall>t. distinct (indexed_keys app t)"
    using current_index(1) [OF assms(1)] by blast+
  from joined_keys [OF this, of "tp_match_mode tp" ts]
  show "distinct (group_keys app tp)"
    "set (group_keys app tp) = {k. case tp_match_mode tp of
      Match_All \<Rightarrow> \<forall>t \<in> set (tp_tokens tp). k \<in> set (indexed_keys app t)
    | Match_Any \<Rightarrow> \<exists>t \<in> set (tp_tokens tp). k \<in> set (indexed_keys app t)}"
    by (auto simp: group_keys_def ts join_keys_def split: token_match_mode.splits)
qed

text \<open>An entry that matches a required group is among the keys of that group.\<close>

lemma matching_entry_is_indexed:
  assumes "index_current app" "tp_tokens tp \<noteq> []" "(k, e) \<in> set (entries app)"
    and "gr_withdrawn (ce_record e) \<longrightarrow> gr_index_tokens (ce_record e) = []"
    and "token_probe_group_matches e tp"
  shows "k \<in> set (group_keys app tp)"
proof -
  have matching: "k \<in> set (indexed_keys app t)" if "t \<in> set (gr_index_tokens (ce_record e))" for t
    using that assms(3,4) by (auto simp: current_index(2) [OF assms(1)] index_matches_def)
  show ?thesis
    using assms(5) matching
    by (auto simp: group_keys_exact(2) [OF assms(1,2)] token_probe_group_matches_def match_count_all
        match_count_any split: token_match_mode.splits)
qed

lemma narrowed:
  assumes "index_current app" "\<forall>tp \<in> set tps. tp_tokens tp \<noteq> []" "\<forall>c. cs = Some c \<longrightarrow> distinct c"
    and "narrow app cs tps = Some ks"
  shows "distinct ks \<and> (\<forall>k. (\<forall>c. cs = Some c \<longrightarrow> k \<in> set c) \<longrightarrow>
    (\<forall>tp \<in> set tps. k \<in> set (group_keys app tp)) \<longrightarrow> k \<in> set ks)"
  using assms(2-4)
proof (induction tps arbitrary: cs)
  case Nil
  then show ?case by simp
next
  case (Cons tp tps)
  let ?c = "case cs of None \<Rightarrow> group_keys app tp | Some c \<Rightarrow> filter (\<lambda>k. k \<in> set (group_keys app tp)) c"
  have d: "distinct ?c"
    using group_keys_exact(1) [OF assms(1)] Cons.prems by (auto split: option.split)
  show ?case
  proof (cases "?c = []")
    case True
    with Cons.prems show ?thesis by (auto simp: Let_def filter_empty_conv split: option.splits)
  next
    case False
    with Cons.prems have "narrow app (Some ?c) tps = Some ks" by (simp add: Let_def)
    from Cons.IH [OF _ _ this] Cons.prems d show ?thesis by (auto split: option.splits)
  qed
qed

lemma filters_need_required:
  "token_filters_match e matched tps = (True, n) \<Longrightarrow> tp \<in> set tps \<Longrightarrow> tp_polarity tp = Required \<Longrightarrow>
   token_probe_group_matches e tp"
  by (induction tps arbitrary: matched)
    (auto simp: Let_def split: token_polarity.splits if_splits)

subsection \<open>Searching with the index and without\<close>

lemma map_filter_mset:
  assumes "distinct xs" "distinct ys" "\<And>x. h x \<noteq> None \<Longrightarrow> x \<in> set xs \<longleftrightarrow> x \<in> set ys"
  shows "mset (List.map_filter h xs) = mset (List.map_filter h ys)"
proof -
  have "mset (filter (\<lambda>x. h x \<noteq> None) xs) = mset (filter (\<lambda>x. h x \<noteq> None) ys)"
    using assms by (subst set_eq_iff_mset_eq_distinct [symmetric]) auto
  then show ?thesis by (simp add: List.map_filter_def)
qed

definition scan_hits ::
  "'f scoring \<Rightarrow> app_gossip_state \<Rightarrow> gossip_search_query \<Rightarrow> nat \<Rightarrow> 'f gossip_search_hit list" where
  "scan_hits sc app q t =
     List.map_filter (hit_of sc t q) (filter (eligible t q) (map snd (entries app)))"

definition hit_at ::
  "'f scoring \<Rightarrow> app_gossip_state \<Rightarrow> gossip_search_query \<Rightarrow> nat \<Rightarrow> object_key \<Rightarrow> 'f gossip_search_hit option" where
  "hit_at sc app q t k =
     Option.bind (map_of (entries app) k) (\<lambda>e. if eligible t q e then hit_of sc t q e else None)"

lemma hits_of_keys:
  "List.map_filter (hit_of sc t q) (filter (eligible t q) (List.map_filter (map_of (entries app)) ks)) =
   List.map_filter (hit_at sc app q t) ks"
  by (induction ks) (auto simp: List.map_filter_simps hit_at_def split: option.split)

lemma map_filter_values:
  "\<forall>(k, e) \<in> set es. f k = Some e \<Longrightarrow> List.map_filter f (map fst es) = map snd es"
  by (induction es) (auto simp: List.map_filter_simps)

lemma scan_by_key:
  assumes "keys_distinct (entries app)"
  shows "scan_hits sc app q t = List.map_filter (hit_at sc app q t) (map fst (entries app))"
proof -
  have "List.map_filter (map_of (entries app)) (map fst (entries app)) = map snd (entries app)"
    using assms by (intro map_filter_values) (auto simp: keys_distinct_def)
  then show ?thesis by (simp add: scan_hits_def flip: hits_of_keys)
qed

definition tokens_sound :: "app_gossip_state \<Rightarrow> bool" where
  "tokens_sound app \<longleftrightarrow> (\<forall>(k, e) \<in> set (entries app).
     gr_withdrawn (ce_record e) \<longrightarrow> gr_index_tokens (ce_record e) = [])"

lemma found_hits_scan:
  assumes app: "keys_distinct (entries app)" "index_current app" "tokens_sound app"
    and tokens: "\<forall>tp \<in> set (sq_token_probes q). tp_tokens tp \<noteq> []"
  shows "mset (found_hits sc app q t) = mset (scan_hits sc app q t)"
proof (cases "token_index_candidates app (sq_token_probes q)")
  case None
  then show ?thesis
    by (simp add: found_hits_def scan_by_key [OF app(1)] hits_of_keys)
next
  case (Some ks)
  let ?required = "filter (\<lambda>tp. tp_polarity tp = Required) (sq_token_probes q)"
  have ks: "distinct ks" "\<And>k. \<forall>tp \<in> set ?required. k \<in> set (group_keys app tp) \<Longrightarrow> k \<in> set ks"
    using narrowed [OF app(2), of ?required None ks] tokens Some
    by (auto simp: token_index_candidates_def)
  have "k \<in> set ks \<longleftrightarrow> k \<in> set (map fst (entries app))" if hit: "hit_at sc app q t k \<noteq> None" for k
  proof -
    obtain e n where e: "map_of (entries app) k = Some e"
        "token_filters_match e [] (sq_token_probes q) = (True, n)"
      using hit by (auto simp: hit_at_def hit_of_def bind_eq_Some_conv split: if_splits prod.splits bool.splits)
    have ke: "(k, e) \<in> set (entries app)" using e(1) by (rule map_of_SomeD)
    have "k \<in> set (group_keys app tp)" if "tp \<in> set ?required" for tp
      using matching_entry_is_indexed [OF app(2) _ ke] filters_need_required [OF e(2)] that tokens
        app(3) ke by (auto simp: tokens_sound_def)
    with ks(2) ke show ?thesis by force
  qed
  with ks(1) app(1) have "mset (List.map_filter (hit_at sc app q t) ks) =
      mset (List.map_filter (hit_at sc app q t) (map fst (entries app)))"
    by (intro map_filter_mset) (auto simp: keys_distinct_def)
  with Some show ?thesis by (simp add: found_hits_def scan_by_key [OF app(1)] hits_of_keys)
qed

end
