(* ===== verification/Gossip_Capacity.thy ===== *)
theory Gossip_Capacity
  imports Gossip_Index
begin

text \<open>
  The state of the gossip cache after a claim: what the claim adds, what expiry and the capacity limits
  take away, and the invariant that holds again at the end.
\<close>

subsection \<open>The state as a map of objects\<close>

lemma all_cached_iff:
  "((a, k), e) \<in> set (all_cached s) \<longleftrightarrow> (\<exists>app. (a, app) \<in> set (apps s) \<and> (k, e) \<in> set (entries app))"
  by (force simp: all_cached_def)

lemma apps_ok_iff:
  "apps_ok s \<longleftrightarrow> keys_distinct (apps s) \<and>
     (\<forall>a app. map_of (apps s) a = Some app \<longrightarrow> keys_distinct (entries app))"
  by (auto simp: apps_ok_def keys_distinct_def)

lemma cached_iff: "apps_ok s \<Longrightarrow> ((a, k), e) \<in> set (all_cached s) \<longleftrightarrow> cached s a k = Some e"
  by (simp add: in_set_iff_map_of [OF keys_distinct_all_cached] map_of_all_cached apps_ok_def)

definition filed :: "object_key \<Rightarrow> gossip_cache_entry \<Rightarrow> bool" where
  "filed k e \<longleftrightarrow> k = object_key_of (ce_record e) \<and>
     length (supporting_sources e) \<le> GOSSIP_MAX_CLAIMED_SOURCES \<and>
     (gr_withdrawn (ce_record e) \<longrightarrow> gr_index_tokens (ce_record e) = [])"

definition files_ok :: "gossip_state \<Rightarrow> bool" where
  "files_ok s \<longleftrightarrow> apps_ok s \<and> keys_distinct (query_response_last s) \<and>
     (\<forall>((a, k), e) \<in> set (all_cached s). filed k e)"

definition app_ok :: "app_gossip_state \<Rightarrow> bool" where
  "app_ok app \<longleftrightarrow> index_current app \<and> length (entries app) \<le> GOSSIP_MAX_ENTRIES_PER_APP"

definition cache_ok :: "gossip_state \<Rightarrow> bool" where
  "cache_ok s \<longleftrightarrow> files_ok s \<and> (\<forall>(a, app) \<in> set (apps s). app_ok app) \<and>
     total_entries s \<le> GOSSIP_MAX_ENTRIES_GLOBAL"

lemma files_ok_iff:
  "files_ok s \<longleftrightarrow> apps_ok s \<and> keys_distinct (query_response_last s) \<and>
     (\<forall>a k e. cached s a k = Some e \<longrightarrow> filed k e)"
proof (cases "apps_ok s")
  case True
  then show ?thesis unfolding files_ok_def cached_iff [OF True, symmetric] by blast
qed (simp add: files_ok_def)

lemma cached_on_apps:
  "cached (on_apps f s) a k = Option.bind (map_of (apps s) a) (\<lambda>app. map_of (entries (f app)) k)"
  by (simp add: cached_def on_apps_def map_of_map_vals)
    (cases "map_of (apps s) a"; simp)

lemma on_apps_simps [simp]:
  "map fst (apps (on_apps f s)) = map fst (apps s)"
  "query_response_last (on_apps f s) = query_response_last s"
  "keys_distinct (apps (on_apps f s)) = keys_distinct (apps s)"
  "map_of (apps (on_apps f s)) a = map_option f (map_of (apps s) a)"
  by (simp_all add: on_apps_def map_of_map_vals keys_distinct_def del: map_map)

lemma apps_ok_on_apps:
  "apps_ok s \<Longrightarrow> (\<And>app. keys_distinct (entries app) \<Longrightarrow> keys_distinct (entries (f app))) \<Longrightarrow>
   apps_ok (on_apps f s)"
  by (auto simp: apps_ok_iff)

subsection \<open>Publications of the node itself\<close>

lemma local_count_card:
  assumes "keys_distinct es"
  shows "local_count es = card {k. \<exists>e. map_of es k = Some e \<and> locally_published e}"
proof -
  have "{k. \<exists>e. map_of es k = Some e \<and> locally_published e} =
      fst ` set (filter (\<lambda>(_, e). locally_published e) es)"
    using assms by (force simp: keys_distinct_def)
  moreover have "distinct (map fst (filter (\<lambda>(_, e). locally_published e) es))"
    using keys_distinct_filter [OF assms] by (simp add: keys_distinct_def)
  ultimately show ?thesis
    by (simp only: local_count_def) (metis distinct_card length_map set_map)
qed

lemma local_count_le:
  assumes "keys_distinct es" "keys_distinct es'"
    and "\<And>k e. map_of es' k = Some e \<Longrightarrow> locally_published e \<Longrightarrow>
      \<exists>e0. map_of es k = Some e0 \<and> locally_published e0"
  shows "local_count es' \<le> local_count es"
proof -
  have "finite {k. \<exists>e. map_of es k = Some e \<and> locally_published e}"
    by (rule finite_subset [OF _ finite_dom_map_of [of es]]) auto
  with assms show ?thesis by (auto simp: local_count_card intro!: card_mono)
qed

lemma local_count_length: "local_count es \<le> length es"
  by (simp add: local_count_def)

definition room_for_locals :: "gossip_state \<Rightarrow> bool" where
  "room_for_locals s \<longleftrightarrow>
     (\<forall>(a, app) \<in> set (apps s). local_count (entries app) \<le> GOSSIP_MAX_ENTRIES_PER_APP) \<and>
     local_count (all_cached s) \<le> GOSSIP_MAX_ENTRIES_GLOBAL"

lemma cache_ok_room: "cache_ok s \<Longrightarrow> room_for_locals s"
proof -
  assume ok: "cache_ok s"
  have "local_count (entries app) \<le> GOSSIP_MAX_ENTRIES_PER_APP" if "(a, app) \<in> set (apps s)" for a app
    using ok that local_count_length [of "entries app"] by (auto simp: cache_ok_def app_ok_def)
  moreover have "local_count (all_cached s) \<le> GOSSIP_MAX_ENTRIES_GLOBAL"
    using ok local_count_length [of "all_cached s"] by (simp add: cache_ok_def length_all_cached)
  ultimately show ?thesis by (auto simp: room_for_locals_def)
qed

lemma room_for_fewer:
  assumes "apps_ok s" "apps_ok s'" "room_for_locals s"
    and less: "\<And>a k e. cached s' a k = Some e \<Longrightarrow> locally_published e \<Longrightarrow>
      \<exists>e0. cached s a k = Some e0 \<and> locally_published e0"
  shows "room_for_locals s'"
proof -
  have "local_count (all_cached s') \<le> local_count (all_cached s)"
    using assms(1,2) less
    by (intro local_count_le keys_distinct_all_cached) (auto simp: map_of_all_cached apps_ok_def)
  moreover have "local_count (entries app') \<le> GOSSIP_MAX_ENTRIES_PER_APP"
    if app': "map_of (apps s') a = Some app'" for a app'
  proof (cases "map_of (apps s) a")
    case None
    with less [of a] app' have "local_count (entries app') \<le> local_count ([] :: (object_key \<times> _) list)"
      using assms(2) by (intro local_count_le) (auto simp: cached_def apps_ok_iff)
    then show ?thesis by (simp add: local_count_def)
  next
    case (Some app)
    with less [of a] app' assms(1,2) have "local_count (entries app') \<le> local_count (entries app)"
      by (intro local_count_le) (auto simp: cached_def apps_ok_iff)
    moreover have "local_count (entries app) \<le> GOSSIP_MAX_ENTRIES_PER_APP"
      using Some assms(3) by (auto simp: room_for_locals_def dest: map_of_SomeD)
    ultimately show ?thesis by simp
  qed
  ultimately show ?thesis
    using assms(2,3) by (auto simp: room_for_locals_def apps_ok_iff keys_distinct_def)
qed

subsection \<open>The capacity limits\<close>

lemma query_times_shrink_all [simp]: "query_response_last (shrink_all n s) = query_response_last s"
proof (induction n arbitrary: s)
  case (Suc n)
  show ?case
    by (auto simp: Suc.IH split: option.split)
qed simp

definition shrink_each :: "gossip_state \<Rightarrow> gossip_state" where
  "shrink_each s = on_apps (\<lambda>app. shrink_app (length (entries app)) app) s"

lemma enforce_capacity_eq:
  "enforce_capacity s =
     on_apps rebuild_token_index (shrink_all (total_entries (shrink_each s)) (shrink_each s))"
  by (simp add: enforce_capacity_def shrink_each_def Let_def)

lemma shrink_each_ok:
  assumes "apps_ok s"
  shows "apps_ok (shrink_each s)"
    and "map_of (apps (shrink_each s)) a = Some app \<Longrightarrow> length (entries app) \<le> GOSSIP_MAX_ENTRIES_PER_APP"
    and "cached (shrink_each s) a k = Some e \<Longrightarrow> cached s a k = Some e"
    and "room_for_locals s \<Longrightarrow> cached s a k = Some e \<Longrightarrow> locally_published e \<Longrightarrow>
      cached (shrink_each s) a k = Some e"
proof -
  have ok: "keys_distinct (entries app)" if "map_of (apps s) a = Some app" for a app
    using assms that by (auto simp: apps_ok_iff)
  note shrunk = shrink_app_ok [OF ok]
  show "apps_ok (shrink_each s)"
    unfolding shrink_each_def using assms shrink_app_ok by (intro apps_ok_on_apps) auto
  show "length (entries app) \<le> GOSSIP_MAX_ENTRIES_PER_APP" if "map_of (apps (shrink_each s)) a = Some app"
  proof -
    from that obtain app0 where app0: "map_of (apps s) a = Some app0"
        "app = shrink_app (length (entries app0)) app0"
      by (auto simp: shrink_each_def)
    with shrunk [OF app0(1), of "length (entries app0)"] show ?thesis by simp
  qed
  show "cached s a k = Some e" if "cached (shrink_each s) a k = Some e"
  proof -
    from that obtain app where app: "map_of (apps s) a = Some app"
        "map_of (entries (shrink_app (length (entries app)) app)) k = Some e"
      by (auto simp: shrink_each_def cached_on_apps bind_eq_Some_conv)
    with shrunk [OF app(1), of "length (entries app)"] ok [OF app(1)] show ?thesis
      by (auto simp: cached_def in_set_iff_map_of dest: map_of_SomeD)
  qed
  show "cached (shrink_each s) a k = Some e"
    if "room_for_locals s" "cached s a k = Some e" "locally_published e"
  proof -
    from that obtain app where app: "map_of (apps s) a = Some app" "map_of (entries app) k = Some e"
      by (auto simp: cached_def bind_eq_Some_conv)
    moreover from that app have "local_count (entries app) \<le> GOSSIP_MAX_ENTRIES_PER_APP"
      by (auto simp: room_for_locals_def dest: map_of_SomeD)
    ultimately show ?thesis
      using shrunk [OF app(1), of "length (entries app)"] that(3)
      unfolding shrink_each_def cached_on_apps app(1) bind.simps by blast
  qed
qed

lemma keys_same_present:
  assumes "map fst m = map fst m'" "map_of m a = Some v"
  obtains v' where "map_of m' a = Some v'"
proof -
  have "fst ` set m = fst ` set m'" using assms(1) by (metis set_map)
  moreover have "a \<in> fst ` set m" using assms(2) by (force dest: map_of_SomeD)
  ultimately show ?thesis using that by (metis map_of_eq_None_iff not_None_eq)
qed

lemma capacity_shrinks:
  assumes "apps_ok s"
  defines "s2 \<equiv> shrink_all (total_entries (shrink_each s)) (shrink_each s)"
  shows "apps_ok s2" "total_entries s2 \<le> GOSSIP_MAX_ENTRIES_GLOBAL"
    and "map_of (apps s2) a = Some app \<Longrightarrow> length (entries app) \<le> GOSSIP_MAX_ENTRIES_PER_APP"
    and "cached s2 a k = Some e \<Longrightarrow> cached s a k = Some e"
    and "room_for_locals s \<Longrightarrow> cached s a k = Some e \<Longrightarrow> locally_published e \<Longrightarrow> cached s2 a k = Some e"
proof -
  define s1 where "s1 = shrink_each s"
  note each = shrink_each_ok [OF assms(1), folded s1_def]
  note all = shrink_all_ok [OF each(1), of "total_entries s1"]
  have s2: "s2 = shrink_all (total_entries s1) s1" by (simp add: s2_def s1_def)
  show ok: "apps_ok s2" "total_entries s2 \<le> GOSSIP_MAX_ENTRIES_GLOBAL" using all by (simp_all add: s2)
  have keeps: "cached s1 a k = Some e" if "cached s2 a k = Some e" for a k e
  proof -
    have "((a, k), e) \<in> set (all_cached s2)" using that by (simp add: cached_iff [OF ok(1)])
    with all have "((a, k), e) \<in> set (all_cached s1)" unfolding s2 by blast
    then show ?thesis by (simp add: cached_iff [OF each(1)])
  qed
  with each(3) show "cached s2 a k = Some e \<Longrightarrow> cached s a k = Some e" by blast
  show "length (entries app) \<le> GOSSIP_MAX_ENTRIES_PER_APP" if app: "map_of (apps s2) a = Some app"
  proof -
    have "map fst (apps s2) = map fst (apps s1)" using all by (simp add: s2)
    then obtain app1 where app1: "map_of (apps s1) a = Some app1" using app by (rule keys_same_present)
    have d: "keys_distinct (entries app)" "keys_distinct (entries app1)"
      using ok(1) each(1) app app1 by (auto simp: apps_ok_iff)
    have "set (entries app) \<subseteq> set (entries app1)"
    proof
      fix ke assume "ke \<in> set (entries app)"
      moreover obtain k e where "ke = (k, e)" by (cases ke)
      ultimately show "ke \<in> set (entries app1)"
        using keeps [of a k e] app app1 d by (simp add: cached_def in_set_iff_map_of)
    qed
    then have "card (set (entries app)) \<le> card (set (entries app1))" by (simp add: card_mono)
    with d have "length (entries app) \<le> length (entries app1)"
      by (metis distinct_card distinct_map keys_distinct_def)
    with each(2) [OF app1] show ?thesis by simp
  qed
  show "cached s2 a k = Some e"
    if "room_for_locals s" "cached s a k = Some e" "locally_published e"
  proof -
    have "room_for_locals s1" using room_for_fewer [OF assms(1) each(1) that(1)] each(3) by blast
    then have "local_count (all_cached s1) \<le> GOSSIP_MAX_ENTRIES_GLOBAL" by (simp add: room_for_locals_def)
    with all each(4) [OF that] that(3) show ?thesis unfolding s2 by blast
  qed
qed

lemma cached_rebuilt [simp]: "cached (on_apps rebuild_token_index s) = cached s"
  by (intro ext) (simp add: cached_on_apps, simp add: cached_def)

lemma total_rebuilt [simp]: "total_entries (on_apps rebuild_token_index s) = total_entries s"
proof -
  have "sum_list (map (\<lambda>(_, app). length (entries app)) (map (\<lambda>(a, app). (a, rebuild_token_index app)) xs)) =
      sum_list (map (\<lambda>(_, app). length (entries app)) xs)" for xs
    by (induction xs) auto
  then show ?thesis by (simp add: total_entries_def on_apps_def del: map_map)
qed

lemma capacity_ok:
  assumes "files_ok s"
  shows "cache_ok (enforce_capacity s)"
proof -
  have s: "apps_ok s" using assms by (simp add: files_ok_def)
  let ?s = "enforce_capacity s"
  note shrunk = capacity_shrinks [OF s]
  have ok: "apps_ok ?s" unfolding enforce_capacity_eq using shrunk(1) by (intro apps_ok_on_apps) auto
  moreover have "filed k e" if "cached ?s a k = Some e" for a k e
    using shrunk(4) [OF that [unfolded enforce_capacity_eq cached_rebuilt]] assms
    unfolding files_ok_iff by blast
  ultimately have "files_ok ?s" using assms by (simp add: files_ok_iff enforce_capacity_eq shrink_each_def)
  moreover have "app_ok app" if "map_of (apps ?s) a = Some app" for a app
    using that shrunk(3) by (auto simp: enforce_capacity_eq app_ok_def)
  moreover have "keys_distinct (apps ?s)" using ok by (simp add: apps_ok_iff)
  ultimately have "\<forall>(a, app) \<in> set (apps ?s). app_ok app"
    using in_set_iff_map_of [of "apps ?s"] by blast
  with \<open>files_ok ?s\<close> shrunk(2) show ?thesis by (simp add: cache_ok_def enforce_capacity_eq)
qed

lemma capacity_cached:
  assumes "apps_ok s"
  shows "cached (enforce_capacity s) a k = Some e \<Longrightarrow> cached s a k = Some e"
    and "room_for_locals s \<Longrightarrow> cached s a k = Some e \<Longrightarrow> locally_published e \<Longrightarrow>
      cached (enforce_capacity s) a k = Some e"
  unfolding enforce_capacity_eq cached_rebuilt
  by (rule capacity_shrinks(4) [OF assms], assumption) (rule capacity_shrinks(5) [OF assms])

end
