(* ===== verification/Gossip_Claims.thy ===== *)
theory Gossip_Claims
  imports Gossip_Capacity
begin

text \<open>
  What a claim does to the cache: the entry it is merged into, and what becomes of the others.
\<close>

lemma filed_cached: "files_ok s \<Longrightarrow> cached s a k = Some e \<Longrightarrow> filed k e"
  unfolding files_ok_iff by blast

subsection \<open>Expiry\<close>

definition alive :: "nat \<Rightarrow> gossip_cache_entry \<Rightarrow> bool" where
  "alive t e \<longleftrightarrow> t < gr_expires_at (ce_record e)"

lemma prune_state_simps [simp]:
  "apps (prune_state t s) = apps (on_apps (prune_app t) s)"
  "cached (prune_state t s) = cached (on_apps (prune_app t) s)"
  by (simp_all add: prune_state_def Let_def cached_def fun_eq_iff)

lemma prune_app_entries [simp]:
  "entries (prune_app t app) = filter (\<lambda>(_, e). alive t e) (entries app)"
  by (simp add: prune_app_def alive_def)

lemma apps_ok_prune: "apps_ok s \<Longrightarrow> apps_ok (prune_state t s)"
  using apps_ok_on_apps [of s "prune_app t"] by (simp add: apps_ok_def)

lemma cached_prune:
  assumes "apps_ok s"
  shows "cached (prune_state t s) a k = Some e \<longleftrightarrow> cached s a k = Some e \<and> alive t e"
proof (cases "map_of (apps s) a")
  case (Some app)
  then have "keys_distinct (entries app)" using assms by (simp add: apps_ok_iff)
  with Some show ?thesis
    by (auto simp: cached_on_apps cached_def map_of_filter_vals split: option.splits if_splits)
qed (simp add: cached_on_apps, simp add: cached_def)

lemma files_ok_prune: "files_ok s \<Longrightarrow> files_ok (prune_state t s)"
  by (auto simp: files_ok_iff apps_ok_prune cached_prune simp del: prune_state_simps)
    (simp add: prune_state_def Let_def)

lemma cache_ok_prune:
  assumes "cache_ok s" shows "cache_ok (prune_state t s)"
proof -
  have "sum_list (map (\<lambda>(_, app). length (entries app)) (map (\<lambda>(a, app). (a, prune_app t app)) xs)) \<le>
      sum_list (map (\<lambda>(_, app). length (entries app)) xs)" for xs
    by (induction xs) (auto intro!: add_mono)
  then have "total_entries (prune_state t s) \<le> total_entries s"
    by (simp add: total_entries_def on_apps_def del: map_map)
  moreover have "app_ok (prune_app t app)" if "app_ok app" for app
    using that order_trans [OF length_filter_le] by (auto simp: app_ok_def, simp add: prune_app_def)
  ultimately show ?thesis
    using assms files_ok_prune by (auto simp: cache_ok_def, auto simp: on_apps_def)
qed

subsection \<open>The entry of a claim\<close>

lemma source_set_length: "length (source_set src) \<le> GOSSIP_MAX_CLAIMED_SOURCES"
  by (simp add: source_set_def GOSSIP_MAX_CLAIMED_SOURCES_def)

lemmas claim_defs = merge_claim_def new_claim_def newer_claim_def repeated_claim_def Let_def

lemma merged_filed:
  assumes "\<forall>e. old = Some e \<longrightarrow> filed (object_key_of r) e"
    and "gr_withdrawn r \<longrightarrow> gr_index_tokens r = []"
  shows "filed (object_key_of r) (fst (merge_claim a t d r src local old))"
proof (cases old)
  case None
  with assms(2) source_set_length show ?thesis by (simp add: claim_defs filed_def)
next
  case (Some e)
  have "length (List.insert src (supporting_sources e)) \<le> GOSSIP_MAX_CLAIMED_SOURCES"
    if "length (supporting_sources e) < GOSSIP_MAX_CLAIMED_SOURCES"
    using that by (simp add: List.insert_def)
  with Some assms source_set_length show ?thesis by (auto simp: claim_defs filed_def)
qed

text \<open>A claim from the network never makes an entry one of the node's own, nor changes one.\<close>

lemma remote_claim_local:
  "locally_published (fst (merge_claim a t d r src False old)) \<Longrightarrow>
   \<exists>e. old = Some e \<and> locally_published e"
  by (auto simp: claim_defs split: option.splits if_splits)

lemma remote_claim_keeps_local:
  "locally_published e \<Longrightarrow> merge_claim a t d r src False (Some e) = (e', fwd, ev) \<Longrightarrow>
   locally_published e' \<and> ce_record e' = ce_record e \<and> ce_digest e' = ce_digest e \<and> \<not> fwd"
  by (auto simp: claim_defs split: if_splits)

lemma generation_grows:
  "gr_generation (ce_record e) \<le> gr_generation (ce_record (fst (merge_claim a t d r src local (Some e))))"
  by (auto simp: claim_defs)

lemma merged_record:
  "ce_record (fst (merge_claim a t d r src local old)) = r \<or>
   (\<exists>e. old = Some e \<and> ce_record (fst (merge_claim a t d r src local old)) = ce_record e)"
  by (auto simp: claim_defs split: option.splits)

subsection \<open>The claim in the cache\<close>

definition with_claim :: "string \<Rightarrow> object_key \<Rightarrow> gossip_cache_entry \<Rightarrow> gossip_state \<Rightarrow> gossip_state" where
  "with_claim a k e s =
    (let aps = or_insert a app_default (apps s); app = the (map_of aps a)
     in s\<lparr>apps := AList.update a
            (rebuild_token_index (app\<lparr>entries := AList.update k e (entries app)\<rparr>)) aps\<rparr>)"

lemma put_claim_eq:
  "put_claim a t d r src local s =
    (let s = prune_state t s;
         m = merge_claim a t d r src local (cached s a (object_key_of r))
     in (enforce_capacity (with_claim a (object_key_of r) (fst m) s), snd m))"
proof -
  have "map_of (entries (the (map_of (or_insert a app_default (apps s)) a))) k = cached s a k" for s k
    by (auto simp: cached_def store_simps app_default_def split: option.split)
  then show ?thesis
    by (simp add: put_claim_def with_claim_def Let_def case_prod_beta del: prune_state_simps)
qed

lemma cached_with_claim:
  "cached (with_claim a k e s) b j = (if b = a \<and> j = k then Some e else cached s b j)"
  by (auto simp: with_claim_def Let_def cached_def store_simps app_default_def split: option.split)

lemma apps_ok_with_claim: "apps_ok s \<Longrightarrow> apps_ok (with_claim a k e s)"
  by (auto simp: with_claim_def Let_def apps_ok_iff store_simps app_default_def split: option.splits)

lemma files_ok_with_claim: "files_ok s \<Longrightarrow> filed k e \<Longrightarrow> files_ok (with_claim a k e s)"
  by (auto simp: files_ok_iff apps_ok_with_claim cached_with_claim)
    (simp add: with_claim_def Let_def)

lemma put_claim_ok:
  assumes "files_ok s" "gr_withdrawn r \<longrightarrow> gr_index_tokens r = []"
  shows "cache_ok (fst (put_claim a t d r src local s))"
proof -
  let ?s = "prune_state t s"
  have s: "files_ok ?s" using assms(1) by (rule files_ok_prune)
  then have "filed (object_key_of r) (fst (merge_claim a t d r src local (cached ?s a (object_key_of r))))"
    using assms(2) filed_cached [OF s] by (intro merged_filed) blast+
  with s show ?thesis
    by (simp add: put_claim_eq Let_def capacity_ok files_ok_with_claim del: prune_state_simps)
qed

text \<open>The one object it is about, and every other: unchanged, expired or evicted.\<close>

lemma put_claim_cached:
  assumes "apps_ok s" "cached (fst (put_claim a t d r src local s)) b k = Some e"
  shows "if b = a \<and> k = object_key_of r
    then e = fst (merge_claim a t d r src local (cached (prune_state t s) a k))
    else cached s b k = Some e \<and> alive t e"
proof -
  let ?s = "prune_state t s"
  let ?e = "fst (merge_claim a t d r src local (cached ?s a (object_key_of r)))"
  have "apps_ok (with_claim a (object_key_of r) ?e ?s)"
    using assms(1) by (intro apps_ok_with_claim apps_ok_prune)
  from capacity_cached(1) [OF this] assms(2)
  have "cached (with_claim a (object_key_of r) ?e ?s) b k = Some e"
    by (simp add: put_claim_eq Let_def del: prune_state_simps)
  then show ?thesis
    using cached_prune [OF assms(1)]
    by (auto simp: cached_with_claim simp del: prune_state_simps split: if_splits)
qed

text \<open>A publication of the node outlives every claim from the network until it expires.\<close>

definition same_publication :: "gossip_cache_entry \<Rightarrow> gossip_cache_entry \<Rightarrow> bool" where
  "same_publication e e' \<longleftrightarrow> locally_published e' \<and> ce_record e' = ce_record e \<and> ce_digest e' = ce_digest e"

lemma remote_claim_keeps_publication:
  assumes "apps_ok s" "room_for_locals s" "cached s b k = Some e" "locally_published e" "alive t e"
  shows "\<exists>e'. cached (fst (put_claim a t d r src False s)) b k = Some e' \<and> same_publication e e'"
proof -
  let ?s = "prune_state t s"
  let ?m = "merge_claim a t d r src False (cached ?s a (object_key_of r))"
  let ?s' = "with_claim a (object_key_of r) (fst ?m) ?s"
  have ok: "apps_ok ?s" "apps_ok ?s'"
    using assms(1) by (simp_all only: apps_ok_with_claim apps_ok_prune)
  have room: "room_for_locals ?s'"
  proof (rule room_for_fewer [OF assms(1) ok(2) assms(2)])
    fix b k e assume e: "cached ?s' b k = Some e" "locally_published e"
    show "\<exists>e0. cached s b k = Some e0 \<and> locally_published e0"
    proof (cases "b = a \<and> k = object_key_of r")
      case True
      with e have "locally_published (fst ?m)" by (simp add: cached_with_claim)
      from remote_claim_local [OF this] True cached_prune [OF assms(1)] show ?thesis
        by (auto simp del: prune_state_simps)
    next
      case False
      with e cached_prune [OF assms(1)] show ?thesis
        by (auto simp: cached_with_claim simp del: prune_state_simps)
    qed
  qed
  have before: "cached ?s b k = Some e" using assms(3,5) cached_prune [OF assms(1)] by blast
  obtain e' where e': "cached ?s' b k = Some e'" "same_publication e e'"
  proof (cases "b = a \<and> k = object_key_of r")
    case True
    with before have "?m = merge_claim a t d r src False (Some e)" by simp
    then have "same_publication e (fst ?m)"
      using remote_claim_keeps_local [OF assms(4), of a t d r src "fst ?m" "fst (snd ?m)" "snd (snd ?m)"]
      by (simp add: same_publication_def)
    moreover have "cached ?s' b k = Some (fst ?m)"
      using True by (simp add: cached_with_claim del: prune_state_simps)
    ultimately show ?thesis using that by blast
  next
    case False
    with before assms(4) that show ?thesis
      by (simp add: cached_with_claim same_publication_def del: prune_state_simps)
  qed
  then have "cached (enforce_capacity ?s') b k = Some e'"
    by (intro capacity_cached(2) [OF ok(2) room]) (simp_all add: same_publication_def)
  with e'(2) show ?thesis by (auto simp: put_claim_eq Let_def simp del: prune_state_simps)
qed

subsection \<open>Ingesting\<close>

lemma validated_tokens:
  "validate_record parses t r b = None \<Longrightarrow> gr_withdrawn r \<longrightarrow> gr_index_tokens r = []"
  by (simp add: validate_record_def)

lemma ingest_cases:
  obtains (refused) err where "ingest_record gp t a r src local s = (Inl err, [], s)"
  | (taken) d where "validate_record (parses_key gp) t r True = None" "t < gr_expires_at r"
      "record_digest gp r = Inr d"
      "snd (snd (ingest_record gp t a r src local s)) = fst (put_claim a t d r src local s)"
      "fst (ingest_record gp t a r src local s) =
        (case cached (fst (put_claim a t d r src local s)) a (object_key_of r) of
           None \<Rightarrow> Inl ObjectNotFound
         | Some e \<Rightarrow> Inr (e, fst (snd (put_claim a t d r src local s))))"
proof (cases "validate_record (parses_key gp) t r True = None \<and> t < gr_expires_at r")
  case False
  show ?thesis
  proof (cases "validate_record (parses_key gp) t r True")
    case None
    with False show ?thesis by (intro refused) (simp add: ingest_record_def)
  next
    case (Some err)
    show ?thesis by (rule refused [of err]) (simp add: ingest_record_def Some)
  qed
next
  case True
  then show ?thesis
  proof (cases "record_digest gp r")
    case (Inl err)
    with True show ?thesis by (intro refused) (simp add: ingest_record_def)
  next
    case (Inr d)
    with True show ?thesis
      by (intro taken) (auto simp: ingest_record_def split: option.split prod.split)
  qed
qed

lemma ingest_ok:
  assumes "cache_ok s" shows "cache_ok (snd (snd (ingest_record gp t a r src local s)))"
proof (cases rule: ingest_cases [of gp t a r src local s])
  case (taken d)
  have "files_ok s" using assms by (simp add: cache_ok_def)
  then show ?thesis unfolding taken(4) by (rule put_claim_ok) (rule validated_tokens [OF taken(1)])
qed (use assms in simp)

lemma ingest_keeps_publication:
  assumes "cache_ok s" "cached s b k = Some e" "locally_published e" "alive t e"
  shows "\<exists>e'. cached (snd (snd (ingest_record gp t a r src False s))) b k = Some e' \<and>
    same_publication e e'"
proof (cases rule: ingest_cases [of gp t a r src False s])
  case (taken d)
  have "apps_ok s" using assms(1) by (simp add: cache_ok_def files_ok_def)
  from remote_claim_keeps_publication [OF this cache_ok_room [OF assms(1)] assms(2-4), of a d r src]
  show ?thesis by (simp add: taken)
qed (use assms in \<open>simp add: same_publication_def\<close>)

end
