(* ===== verification/Gossip_Machine.thy ===== *)
theory Gossip_Machine
  imports Gossip_Claims
begin

text \<open>
  The gossip manager as a machine: one call or one frame at a time. Every call keeps the invariant of
  the cache, and no frame from another node changes what the node itself has published.
\<close>

subsection \<open>Calls that touch a single part of the state\<close>

lemma or_insert_new: "map_of m k = None \<Longrightarrow> or_insert k v m = m @ [(k, v)]"
proof -
  assume new: "map_of m k = None"
  then have "AList.update k v m = m @ [(k, v)]" by (induction m) (auto split: if_splits)
  with new show ?thesis by (simp add: or_insert_def)
qed

lemma or_insert_known: "map_of m k = Some w \<Longrightarrow> or_insert k v m = m"
  by (simp add: or_insert_def)

definition opened :: "string \<Rightarrow> gossip_state \<Rightarrow> gossip_state" where
  "opened a s = s\<lparr>apps := or_insert a app_default (apps s)\<rparr>"

lemma cached_opened [simp]: "cached (opened a s) b k = cached s b k"
  by (auto simp: cached_def opened_def store_simps app_default_def split: option.split)

lemma opened_ok:
  assumes "cache_ok s" shows "cache_ok (opened a s)"
proof (cases "map_of (apps s) a")
  case (Some app)
  then have "opened a s = s" by (simp add: opened_def or_insert_known)
  with assms show ?thesis by simp
next
  case None
  have "apps_ok (opened a s)"
    using assms by (auto simp: cache_ok_def files_ok_def apps_ok_iff opened_def store_simps app_default_def
        split: if_splits option.splits)
  then have "files_ok (opened a s)"
    using assms unfolding cache_ok_def files_ok_iff cached_opened by (simp add: opened_def)
  moreover have "app_ok app_default" by (simp add: app_ok_def) (simp add: app_default_def)
  ultimately show ?thesis
    using assms None
    by (simp add: cache_ok_def opened_def or_insert_new total_entries_def) (simp add: app_default_def)
qed

definition answered :: "string \<times> string \<Rightarrow> nat \<Rightarrow> gossip_state \<Rightarrow> gossip_state" where
  "answered ap t s = s\<lparr>query_response_last := AList.update ap t (query_response_last s)\<rparr>"

lemma answered_simps [simp]:
  "cached (answered ap t s) = cached s" "apps (answered ap t s) = apps s"
  "cache_ok s \<Longrightarrow> cache_ok (answered ap t s)"
  by (simp_all add: answered_def cached_def fun_eq_iff cache_ok_def files_ok_def apps_ok_def all_cached_def
      total_entries_def)

lemma confirmed_simps [simp]:
  "ce_record (confirmed t g l m e) = ce_record e"
  "supporting_sources (confirmed t g l m e) = supporting_sources e"
  "locally_published (confirmed t g l m e) = locally_published e"
  by (simp_all add: confirmed_def)

text \<open>Another view of an entry: the record and the sources stay.\<close>

lemma set_entry_ok:
  assumes ok: "cache_ok s" and old: "cached s a k = Some e"
    and same: "ce_record e' = ce_record e" "supporting_sources e' = supporting_sources e"
  shows "cache_ok (set_entry a k e' s)"
proof -
  let ?f = "\<lambda>app. app\<lparr>entries := amodify k (\<lambda>_. e') (entries app)\<rparr>"
  let ?s = "set_entry a k e' s"
  have d: "keys_distinct (apps s)" and apps: "apps_ok s"
    using ok by (auto simp: cache_ok_def files_ok_def apps_ok_iff)
  obtain app where app: "map_of (apps s) a = Some app" "map_of (entries app) k = Some e"
    using old by (auto simp: cached_def bind_eq_Some_conv)
  then have da: "keys_distinct (entries app)" using apps by (auto simp: apps_ok_iff)
  have apps': "apps_ok ?s"
    using apps by (auto simp: apps_ok_iff set_entry_def store_simps split: if_splits)
  have "cached ?s b j = (if b = a \<and> j = k then Some e' else cached s b j)" for b j
    using app by (auto simp: set_entry_def cached_def store_simps)
  with old same have "filed j f" if "cached ?s b j = Some f" for b j f
    using that filed_cached [of s] ok by (auto simp: cache_ok_def filed_def split: if_splits)
  with apps' ok have files: "files_ok ?s"
    by (simp add: files_ok_iff cache_ok_def) (simp add: set_entry_def)
  have "map (\<lambda>(j, f). (j, ce_record f)) (amodify k (\<lambda>_. e') (entries app)) =
      map (\<lambda>(j, f). (j, ce_record f)) (entries app)"
    using app(2) same(1) da by (auto simp: amodify_as_map in_set_iff_map_of)
  from index_of_records [OF this] have "index_current app \<Longrightarrow> index_current (?f app)"
    by (simp add: index_current_iff)
  moreover have len: "length (entries (?f b)) = length (entries b)" for b :: app_gossip_state
    by simp (metis keys_amodify length_map)
  moreover have "app_ok app" using ok app(1) by (auto simp: cache_ok_def dest: map_of_SomeD)
  ultimately have "app_ok (?f app)" by (simp add: app_ok_def)
  then have "app_ok (if b = a then ?f c else c)" if "(b, c) \<in> set (apps s)" for b c
  proof (cases "b = a")
    case True
    with that app(1) d have "c = app" by (simp add: in_set_iff_map_of)
    with True \<open>app_ok (?f app)\<close> show ?thesis by simp
  qed (use ok that in \<open>auto simp: cache_ok_def\<close>)
  then have each: "\<forall>(b, c) \<in> set (apps ?s). app_ok c"
    by (auto simp: set_entry_def amodify_as_map [OF d])
  have "sum_list (map (\<lambda>(_, app). length (entries app)) (map (\<lambda>(b, c). (b, if b = a then ?f c else c)) xs)) =
      sum_list (map (\<lambda>(_, app). length (entries app)) xs)" for xs :: "(string \<times> app_gossip_state) list"
    using len by (induction xs) auto
  then have "total_entries ?s = total_entries s"
    by (simp add: total_entries_def set_entry_def amodify_as_map [OF d] del: map_map)
  with files each ok show ?thesis by (simp add: cache_ok_def)
qed

subsection \<open>Frames\<close>

text \<open>
  What a frame can do to the state is ingesting records, noting that a query was answered, and opening
  the application: an invariant of these is one of \<open>process_incoming\<close>.
\<close>

lemma ingest_answers_inv:
  assumes "P s" "\<And>r s. P s \<Longrightarrow> P (snd (snd (ingest_record gp t a r src False s)))"
  shows "P (snd (snd (ingest_answers gp t a src rs s)))"
  using assms(1)
proof (induction rs arbitrary: s)
  case (Cons r rs)
  have "P (snd (snd (ingest_record gp t a r src False s)))" using Cons.prems by (rule assms(2))
  then show ?case
    using Cons.prems Cons.IH [of s] Cons.IH [of "snd (snd (ingest_record gp t a r src False s))"]
    by (cases "ingest_record gp t a r src False s";
        cases "ingest_answers gp t a src rs (snd (snd (ingest_record gp t a r src False s)))")
      auto
qed simp

lemma search_local_state: "snd (search_local sc t a q s) \<in> {s, opened a s}"
  by (simp add: search_local_def opened_def split: option.split)

lemma allow_query_response_state:
  "snd (allow_query_response t a p s) \<in> {s, answered (a, p) t s}"
  by (simp add: allow_query_response_def answered_def split: option.split)

lemma answer_query_inv:
  assumes "P s" "\<And>ap t s. P s \<Longrightarrow> P (answered ap t s)" "\<And>a s. P s \<Longrightarrow> P (opened a s)"
  shows "P (snd (snd (answer_query sc gp env m i q s)))"
proof -
  obtain b s1 where al: "allow_query_response (now env) (gm_application m) (gm_sender m) s = (b, s1)"
    by (cases "allow_query_response (now env) (gm_application m) (gm_sender m) s")
  obtain res s2 where se: "search_local sc (now env) (gm_application m) q s1 = (res, s2)"
    by (cases "search_local sc (now env) (gm_application m) q s1")
  have "s1 = s \<or> s1 = answered (gm_application m, gm_sender m) (now env) s"
    using allow_query_response_state [of "now env" "gm_application m" "gm_sender m" s] by (simp add: al)
  then have "P s1" using assms(1,2) by blast
  moreover have "s2 = s1 \<or> s2 = opened (gm_application m) s1"
    using search_local_state [of sc "now env" "gm_application m" q s1] by (simp add: se)
  ultimately have "P s2" using assms(3) by blast
  with \<open>P s1\<close> assms(1) show ?thesis
    by (cases b; cases res) (simp_all add: answer_query_def al se Let_def split: option.split sum.split)
qed

lemma process_incoming_inv:
  assumes "P s" "\<And>r s. P s \<Longrightarrow> P (snd (snd (ingest_record gp (now env) (gm_application m) r (gm_sender m) False s)))"
    and "\<And>ap t s. P s \<Longrightarrow> P (answered ap t s)" "\<And>a s. P s \<Longrightarrow> P (opened a s)"
  shows "P (snd (snd (process_incoming sc gp env m s)))"
proof -
  note one = assms(2) [OF assms(1)]
  note many = ingest_answers_inv [of P s gp "now env" "gm_application m" "gm_sender m", OF assms(1,2)]
  note asked = answer_query_inv [of P s sc gp env m, OF assms(1,3,4)]
  show ?thesis
  proof (cases "decode_wire (gossip_codec gp) (gm_payload m)")
    case (Inr msg)
    show ?thesis
    proof (cases msg)
      case (Record_Message r hops)
      then show ?thesis
        using assms(1) one [of r] Inr
        by (cases "ingest_record gp (now env) (gm_application m) r (gm_sender m) False s")
          (simp add: process_incoming_def Let_def split: option.split sum.split)
    next
      case (Query_Message i q)
      then show ?thesis
        using assms(1) asked Inr by (simp add: process_incoming_def Let_def split: option.split)
    next
      case (Query_Response i rs)
      then show ?thesis
        using assms(1) many [of "take GOSSIP_MAX_QUERY_RESPONSE_RECORDS rs"] Inr
        by (cases "ingest_answers gp (now env) (gm_application m) (gm_sender m)
              (take GOSSIP_MAX_QUERY_RESPONSE_RECORDS rs) s")
          (simp add: process_incoming_def Let_def split: option.split)
    qed
  qed (use assms(1) in \<open>simp add: process_incoming_def Let_def split: option.split\<close>)
qed

subsection \<open>The machine\<close>

datatype gossip_call =
    Activate string
  | Publish gossip_env string gossip_publish_request
  | Publish_System gossip_env string gossip_record
  | Withdraw gossip_env string object_key "nat option" bool
  | Confirm gossip_env string object_key nat confirmation_level bool
  | Search_Local nat string gossip_search_query
  | List_Recent nat string "string option" nat
  | Stats nat string
  | Incoming gossip_env gossip_message
  | Prune gossip_env

definition gossip_step ::
  "('f :: linorder) scoring \<Rightarrow> gossip_params \<Rightarrow> gossip_state \<Rightarrow> gossip_call \<Rightarrow> gossip_state" where
  "gossip_step sc gp s c =
    (case c of
       Activate a \<Rightarrow> snd (activate_application a s)
     | Publish env a q \<Rightarrow> snd (snd (publish gp env a q s))
     | Publish_System env a r \<Rightarrow> snd (snd (publish_system_record gp env a r s))
     | Withdraw env a k g system \<Rightarrow> snd (snd (withdraw gp env a k g system s))
     | Confirm env a k g level matches \<Rightarrow> snd (snd (confirm env a k g level matches s))
     | Search_Local t a q \<Rightarrow> snd (search_local sc t a q s)
     | List_Recent t a n limit \<Rightarrow> snd (list_recent t a n limit s)
     | Stats t a \<Rightarrow> snd (stats t a s)
     | Incoming env m \<Rightarrow> snd (bridge_step sc gp env m s)
     | Prune env \<Rightarrow> prune_expired env s)"

lemma publish_record_ok: "cache_ok s \<Longrightarrow> cache_ok (snd (snd (publish_record_internal gp env a r b s)))"
  using ingest_ok [of s gp "now env" a r "main_dht gp" True]
  by (auto simp: publish_record_internal_def split: option.split prod.split sum.split)

lemma confirm_ok: "cache_ok s \<Longrightarrow> cache_ok (snd (snd (confirm env a k g l m s)))"
  using set_entry_ok [of s a k]
  by (auto simp: confirm_def Let_def split: option.split)

lemma process_incoming_ok: "cache_ok s \<Longrightarrow> cache_ok (snd (snd (process_incoming sc gp env m s)))"
  by (rule process_incoming_inv) (auto intro: ingest_ok opened_ok)

lemma search_local_ok: "cache_ok s \<Longrightarrow> cache_ok (snd (search_local sc t a q s))"
  using search_local_state [of sc t a q s] opened_ok by auto

lemma bridge_step_ok: "cache_ok s \<Longrightarrow> cache_ok (snd (bridge_step sc gp env m s))"
  using process_incoming_ok [of s sc gp env m]
  by (cases "process_incoming sc gp env m s") (simp add: bridge_step_def)

lemma gossip_step_ok: "cache_ok s \<Longrightarrow> cache_ok (gossip_step sc gp s c)"
  using publish_record_ok confirm_ok opened_ok bridge_step_ok cache_ok_prune search_local_ok
  by (cases c)
    (auto simp: gossip_step_def activate_application_def publish_def publish_system_record_def
      withdraw_def list_recent_def stats_def prune_expired_def Let_def
      opened_def [symmetric] split: option.split prod.split)

interpretation gossip: invariant_machine "gossip_step sc gp" cache_ok
  by unfold_locales (rule gossip_step_ok)

definition gossip_start :: gossip_state where
  "gossip_start = \<lparr>apps = [], query_response_last = []\<rparr>"

lemma gossip_start_ok: "cache_ok gossip_start"
  by (simp add: cache_ok_def files_ok_def apps_ok_def gossip_start_def all_cached_def total_entries_def)

end
