(* ===== verification/Gossip_Properties.thy ===== *)
theory Gossip_Properties
  imports Gossip_Machine
begin

text \<open>
  What the gossip engine promises: its cache stays well formed and within its limits, claims from other
  nodes cannot displace what the node itself has published, a search with the index finds what a scan
  of all entries finds, and relaying a record dies out.
\<close>

subsection \<open>Frames in a row\<close>

definition run_frames ::
  "('f :: linorder) scoring \<Rightarrow> gossip_params \<Rightarrow> (gossip_env \<times> gossip_message) list \<Rightarrow> gossip_state \<Rightarrow> gossip_state" where
  "run_frames sc gp frames s = foldl (\<lambda>s (env, m). snd (bridge_step sc gp env m s)) s frames"

definition holds_publication ::
  "string \<Rightarrow> object_key \<Rightarrow> gossip_cache_entry \<Rightarrow> gossip_state \<Rightarrow> bool" where
  "holds_publication a k e s \<longleftrightarrow> cache_ok s \<and> (\<exists>e'. cached s a k = Some e' \<and> same_publication e e')"

lemma frame_keeps_publication:
  assumes "holds_publication a k e s" "alive (now env) e"
  shows "holds_publication a k e (snd (bridge_step sc gp env m s))"
proof -
  have "holds_publication a k e (snd (snd (process_incoming sc gp env m s)))"
  proof (rule process_incoming_inv [where P = "holds_publication a k e"])
    fix r s assume s: "holds_publication a k e s"
    then obtain e' where e': "cached s a k = Some e'" "same_publication e e'"
      by (auto simp: holds_publication_def)
    then have "locally_published e'" "alive (now env) e'"
      using assms(2) by (simp_all add: same_publication_def alive_def)
    with e' s ingest_ok ingest_keeps_publication [of s a k e' "now env" gp "gm_application m" r "gm_sender m"]
    show "holds_publication a k e
        (snd (snd (ingest_record gp (now env) (gm_application m) r (gm_sender m) False s)))"
      by (auto simp: holds_publication_def same_publication_def)
  qed (use assms(1) opened_ok in \<open>auto simp: holds_publication_def\<close>)
  with assms(1) show ?thesis
    by (cases "process_incoming sc gp env m s") (simp add: bridge_step_def)
qed

text \<open>
  C35. Whatever frames come in from other nodes, an object the node itself
  has published stays in the cache as published, with the same record and digest, for as long as the
  record has not expired.
\<close>

theorem local_publication_survives:
  assumes "cache_ok s" "cached s a k = Some e" "locally_published e"
    and "\<forall>(env, m) \<in> set frames. now env < gr_expires_at (ce_record e)"
  shows "\<exists>e'. cached (run_frames sc gp frames s) a k = Some e' \<and> locally_published e' \<and>
    ce_record e' = ce_record e \<and> ce_digest e' = ce_digest e"
proof -
  have "holds_publication a k e s" using assms(1-3) by (simp add: holds_publication_def same_publication_def)
  then have "holds_publication a k e (run_frames sc gp frames s)"
    using assms(4)
  proof (induction frames arbitrary: s)
    case (Cons f fs)
    obtain env m where f: "f = (env, m)" by (cases f)
    with Cons.prems have "holds_publication a k e (snd (bridge_step sc gp env m s))"
      by (intro frame_keeps_publication) (auto simp: alive_def)
    with Cons f show ?case by (simp add: run_frames_def)
  qed (simp add: run_frames_def)
  then show ?thesis by (auto simp: holds_publication_def same_publication_def)
qed

text \<open>
  C37. After any sequence of calls and frames every object is filed under
  its own name, with at most 32 claimed sources, no application has more than 2048 objects and all
  together no more than 8192, the token index of each application is the one of its entries, and
  withdrawn records hold no tokens.
\<close>

theorem gossip_cache_stays_well_formed:
  "cache_ok (foldl (gossip_step sc gp) gossip_start calls)"
  by (rule gossip.run_inv) (rule gossip_start_ok)

subsection \<open>The eviction loops\<close>

lemma first_min_in: "first_min f xs = Some x \<Longrightarrow> x \<in> set xs"
  by (rule conjunct1 [OF first_min_Some])

lemma candidate_dropped:
  "eviction_candidate app = Some k \<Longrightarrow> length (entries (drop_entry k app)) < length (entries app)"
  by (auto simp: eviction_candidate_def drop_entry_def AList.delete_eq dest!: first_min_in
      intro!: length_filter_less)

lemma shrink_app_small: "length (entries app) \<le> GOSSIP_MAX_ENTRIES_PER_APP \<Longrightarrow> shrink_app n app = app"
  by (cases n) simp_all

lemma shrink_app_fuel:
  "length (entries app) \<le> n \<Longrightarrow> length (entries app) \<le> n' \<Longrightarrow> shrink_app n app = shrink_app n' app"
proof (induction n arbitrary: app n')
  case 0
  then show ?case by (simp add: shrink_app_small)
next
  case (Suc n)
  show ?case
  proof (cases "length (entries app) \<le> GOSSIP_MAX_ENTRIES_PER_APP")
    case False
    with Suc.prems(2) obtain m where m: "n' = Suc m" by (cases n') auto
    show ?thesis
    proof (cases "eviction_candidate app")
      case (Some k)
      have "shrink_app n (drop_entry k app) = shrink_app m (drop_entry k app)"
        using candidate_dropped [OF Some] Suc.prems m by (intro Suc.IH) simp_all
      with False Some m show ?thesis by simp
    qed (simp add: m)
  qed (simp add: shrink_app_small)
qed

lemma shrink_app_capped:
  "length (entries app) \<le> n \<Longrightarrow> length (entries (shrink_app n app)) \<le> GOSSIP_MAX_ENTRIES_PER_APP"
proof (induction n arbitrary: app)
  case (Suc n)
  show ?case
  proof (cases "length (entries app) \<le> GOSSIP_MAX_ENTRIES_PER_APP")
    case False
    then have "entries app \<noteq> []" by auto
    then obtain k where k: "eviction_candidate app = Some k"
      by (cases "eviction_candidate app") (auto simp: eviction_candidate_def)
    with Suc.IH [of "drop_entry k app"] candidate_dropped [OF k] Suc.prems False show ?thesis by simp
  qed simp
qed simp

lemma shrink_all_small: "total_entries s \<le> GOSSIP_MAX_ENTRIES_GLOBAL \<Longrightarrow> shrink_all n s = s"
  by (cases n) simp_all

lemma entry_dropped:
  assumes "apps_ok s" "first_min (\<lambda>(_, e). evict_order e) (all_cached s) = Some ((a, k), e)"
  shows "Suc (total_entries (s\<lparr>apps := amodify a (drop_entry k) (apps s)\<rparr>)) = total_entries s"
proof -
  have "map_of (all_cached s) (a, k) = Some e"
    using first_min_in [OF assms(2)] keys_distinct_all_cached [OF assms(1)] by (simp add: in_set_iff_map_of)
  from length_delete(1) [OF keys_distinct_all_cached [OF assms(1)] this] assms(1) show ?thesis
    by (simp add: apps_ok_def all_cached_drop flip: length_all_cached)
qed

lemma shrink_all_fuel:
  "apps_ok s \<Longrightarrow> total_entries s \<le> n \<Longrightarrow> total_entries s \<le> n' \<Longrightarrow> shrink_all n s = shrink_all n' s"
proof (induction n arbitrary: s n')
  case 0
  then show ?case by (simp add: shrink_all_small)
next
  case (Suc n)
  show ?case
  proof (cases "total_entries s \<le> GOSSIP_MAX_ENTRIES_GLOBAL")
    case False
    with Suc.prems(3) obtain m where m: "n' = Suc m" by (cases n') auto
    show ?thesis
    proof (cases "first_min (\<lambda>(_, e). evict_order e) (all_cached s)")
      case (Some x)
      obtain a k e where x: "x = ((a, k), e)" by (metis prod.exhaust)
      let ?s = "s\<lparr>apps := amodify a (drop_entry k) (apps s)\<rparr>"
      have "shrink_all n ?s = shrink_all m ?s"
        using entry_dropped [OF Suc.prems(1) Some [unfolded x]] Suc.prems m
        by (intro Suc.IH apps_ok_drop) simp_all
      with False Some m x show ?thesis by simp
    qed (simp add: m)
  qed (simp add: shrink_all_small)
qed

text \<open>
  C39. Both eviction loops come to an end within as many rounds as there are entries:
  more fuel changes nothing, and what is left is within the limit of the application, and of the whole
  cache.
\<close>

theorem eviction_loops_end:
  assumes "length (entries app) \<le> n" "apps_ok s" "total_entries s \<le> m"
  shows "shrink_app n app = shrink_app (length (entries app)) app \<and>
    length (entries (shrink_app n app)) \<le> GOSSIP_MAX_ENTRIES_PER_APP \<and>
    shrink_all m s = shrink_all (total_entries s) s \<and>
    total_entries (shrink_all m s) \<le> GOSSIP_MAX_ENTRIES_GLOBAL"
  using assms shrink_app_fuel [of app n "length (entries app)"] shrink_app_capped [of app n]
    shrink_all_fuel [of s m "total_entries s"] shrink_all_ok [OF assms(2), of m]
  by simp

subsection \<open>Searching\<close>

lemma mset_sort_hits: "mset (sort_hits hs) = mset hs"
  by (simp add: sort_hits_def)

lemma ranks_sorted: "map hit_rank (sort_hits hs) = rev (sort (map hit_rank hs))"
proof -
  have "map hit_rank (sort_key hit_rank (rev hs)) = sort (map hit_rank hs)"
    by (rule properties_for_sort [symmetric]) simp_all
  then show ?thesis by (simp add: sort_hits_def rev_map [symmetric])
qed

lemma cache_ok_app:
  assumes "cache_ok s"
  shows "keys_distinct (entries (app_of a s))" "index_current (app_of a s)" "tokens_sound (app_of a s)"
proof -
  have "keys_distinct (entries (app_of a s)) \<and> index_current (app_of a s) \<and> tokens_sound (app_of a s)"
  proof (cases "map_of (apps s) a")
    case None
    then show ?thesis by (simp add: app_of_def tokens_sound_def) (simp add: app_default_def)
  next
    case (Some app)
    then have app: "keys_distinct (entries app)" "app_ok app"
      using assms by (auto simp: cache_ok_def files_ok_def apps_ok_iff dest: map_of_SomeD)
    have "filed k e" if "(k, e) \<in> set (entries app)" for k e
      using that app Some assms filed_cached [of s a k e]
      by (simp add: cache_ok_def cached_def in_set_iff_map_of)
    with app Some show ?thesis by (auto simp: app_of_def app_ok_def tokens_sound_def filed_def)
  qed
  then show "keys_distinct (entries (app_of a s))" "index_current (app_of a s)" "tokens_sound (app_of a s)"
    by blast+
qed

lemma valid_query_has_tokens:
  "validate_query q = None \<Longrightarrow> \<forall>tp \<in> set (sq_token_probes q). tp_tokens tp \<noteq> []"
proof
  fix tp assume "validate_query q = None" "tp \<in> set (sq_token_probes q)"
  then have "validate_token_probe tp = None" by (simp add: validate_query_def ball_Un)
  then show "tp_tokens tp \<noteq> []" by (simp add: validate_token_probe_def)
qed

text \<open>
  C36. For a valid query the search that narrows the entries with the token
  index returns hits of the plain scan over all entries of the application, and they are the best: their
  ranks are the first of the ranks of all hits of the scan in descending order.
\<close>

theorem index_search_equals_scan:
  assumes "cache_ok s" "validate_application_id a = None" "validate_query q = None"
  shows "\<exists>hits. fst (search_local sc t a q s) = Inr hits \<and>
    mset hits \<subseteq># mset (scan_hits sc (app_of a s) q t) \<and>
    map hit_rank hits = take (sq_limit q) (rev (sort (map hit_rank (scan_hits sc (app_of a s) q t))))"
proof -
  let ?found = "found_hits sc (app_of a s) q t" and ?scan = "scan_hits sc (app_of a s) q t"
  have same: "mset ?found = mset ?scan"
    using found_hits_scan [OF cache_ok_app [OF assms(1)] valid_query_has_tokens [OF assms(3)]] .
  have "mset (take n xs) \<subseteq># mset xs" for n and xs :: "'a gossip_search_hit list"
    by (metis append_take_drop_id mset_append mset_subset_eq_add_left)
  from this [of "sq_limit q" "sort_hits ?found"]
  have "mset (take (sq_limit q) (sort_hits ?found)) \<subseteq># mset ?scan"
    by (simp add: mset_sort_hits same)
  moreover have "sort (map hit_rank ?found) = sort (map hit_rank ?scan)"
    by (rule properties_for_sort) (simp_all add: same)
  ultimately show ?thesis
    using assms(2,3) by (simp add: search_local_def search_app_state_def ranks_sorted flip: take_map)
qed

subsection \<open>Relaying\<close>

definition frames_sent :: "gossip_output list \<Rightarrow> (string \<times> string \<times> bytes) list" where
  "frames_sent out =
     List.map_filter (\<lambda> x. case x of Send_Frame p a f \<Rightarrow> Some (p, a, f) | Emit _ \<Rightarrow> None) out"

lemma frames_sent_simps [simp]:
  "frames_sent [] = []" "frames_sent (map Emit evs @ out) = frames_sent out"
  "frames_sent (map Emit evs) = []"
  "frames_sent (map (\<lambda>p. Send_Frame p a f) ps) = map (\<lambda>p. (p, a, f)) ps"
proof -
  show "frames_sent []= []" by (simp add: frames_sent_def List.map_filter_simps)
  show emits: "frames_sent (map Emit evs @ out) = frames_sent out" for out
    by (induction evs) (simp_all add: frames_sent_def List.map_filter_simps)
  from emits [of "[]"] show "frames_sent (map Emit evs) = []"
    by (simp add: frames_sent_def List.map_filter_simps)
  show "frames_sent (map (\<lambda>p. Send_Frame p a f) ps) = map (\<lambda>p. (p, a, f)) ps"
    by (induction ps) (simp_all add: frames_sent_def List.map_filter_simps)
qed

lemma selected_peers:
  assumes "\<forall>ps. set (shuffle env ps) = set ps"
  shows "length (select_peers gp env a n x) \<le> n"
    and "p \<in> set (select_peers gp env a n x) \<Longrightarrow> p \<noteq> main_dht gp \<and> x \<noteq> Some p"
  using assms by (auto simp: select_peers_def Let_def split: option.splits dest!: in_set_takeD)

lemma fanout_frames:
  assumes "\<forall>ps. set (shuffle env ps) = set ps"
  shows "length (frames_sent (fanout_record gp env a r (Some src) h)) \<le> GOSSIP_RELAY_FANOUT"
    and "(p, b, f) \<in> set (frames_sent (fanout_record gp env a r (Some src) h)) \<Longrightarrow>
      p \<noteq> src \<and> p \<noteq> main_dht gp \<and> b = a \<and>
      encode_wire (gossip_codec gp) (Record_Message r (min h GOSSIP_MAX_RELAY_HOPS)) = Inr f"
  using selected_peers(1) [OF assms, of gp a GOSSIP_RELAY_FANOUT "Some src"]
  by (auto simp: fanout_record_def split: sum.splits dest: selected_peers(2) [OF assms])

text \<open>Only a claim that is new, or newer than what is cached, is worth forwarding.\<close>

lemma forwarded_is_newer:
  assumes "apps_ok s" "fst (ingest_record gp t a r src False s) = Inr (e', True)"
    and "cached s a (object_key_of r) = Some e" "alive t e"
  shows "gr_generation (ce_record e) < gr_generation r"
proof (cases rule: ingest_cases [of gp t a r src False s])
  case (refused err)
  with assms(2) show ?thesis by simp
next
  case (taken d)
  then have "fst (snd (put_claim a t d r src False s))"
    using assms(2) by (simp split: option.splits)
  moreover have "cached (prune_state t s) a (object_key_of r) = Some e"
    using cached_prune [OF assms(1)] assms(3,4) by blast
  ultimately show ?thesis
    by (simp add: put_claim_eq Let_def del: prune_state_simps) (simp add: claim_defs split: if_splits)
qed

text \<open>
  C38. A record that comes in is passed on to at most three peers, never to the one it
  came from nor to the node itself, in the same application, with fewer hops left than it came with and
  never more than three; and it is passed on only when nothing as new is cached for its object, so that
  a node relays a generation of an object once.
\<close>

theorem relay_dies_out:
  fixes sc :: "('f :: linorder) scoring"
  assumes "cache_ok s"
    and "decode_wire (gossip_codec gp) (gm_payload m) = Inr (Record_Message r hops)"
    and "\<forall>ps. set (shuffle env ps) = set ps"
  defines "sent \<equiv> frames_sent (fst (snd (process_incoming sc gp env m s)))"
  shows "length sent \<le> GOSSIP_RELAY_FANOUT \<and>
    (\<forall>(p, a, f) \<in> set sent. p \<noteq> gm_sender m \<and> p \<noteq> main_dht gp \<and> a = gm_application m \<and>
       (\<exists>h < hops. h \<le> GOSSIP_MAX_RELAY_HOPS \<and>
          encode_wire (gossip_codec gp) (Record_Message r h) = Inr f) \<and>
       (\<forall>e. cached s a (object_key_of r) = Some e \<longrightarrow> now env < gr_expires_at (ce_record e) \<longrightarrow>
          gr_generation (ce_record e) < gr_generation r))"
proof -
  let ?a = "gm_application m" and ?src = "gm_sender m"
  let ?fan = "frames_sent (fanout_record gp env ?a r (Some ?src) (hops - 1))"
  have "apps_ok s" using assms(1) by (simp add: cache_ok_def files_ok_def)
  note newer = forwarded_is_newer [OF this, of gp "now env" ?a r ?src]
  obtain res evs s' where ing: "ingest_record gp (now env) ?a r ?src False s = (res, evs, s')"
    by (metis prod.exhaust)
  have "sent = [] \<or> (sent = ?fan \<and> 0 < hops \<and> (\<exists>e'. res = Inr (e', True)))"
    using assms(2) ing
    by (auto simp: sent_def process_incoming_def Let_def split: option.splits sum.splits)
  then show ?thesis
  proof
    assume sent: "sent = ?fan \<and> 0 < hops \<and> (\<exists>e'. res = Inr (e', True))"
    then obtain e' where "res = Inr (e', True)" by blast
    with newer ing have "gr_generation (ce_record e) < gr_generation r"
      if "cached s ?a (object_key_of r) = Some e" "now env < gr_expires_at (ce_record e)" for e
      using that by (auto simp: alive_def)
    moreover have "min (hops - 1) GOSSIP_MAX_RELAY_HOPS < hops" using sent by (auto simp: min_def)
    ultimately show ?thesis
      using sent fanout_frames [OF assms(3)] by fastforce
  qed simp
qed

subsection \<open>Where the rules fall short\<close>

text \<open>
  A claim of a higher generation that a stranger got in first keeps the node from publishing: the
  publication leaves the entry as it was and is not sent, although the call succeeds.
\<close>

lemma squatted_object_blocks_publication:
  assumes "\<not> locally_published e" "gr_generation r < gr_generation (ce_record e)"
  shows "merge_claim a t d r src True (Some e) = (e\<lparr>last_seen_at := t\<rparr>, False, None)"
  using assms by (simp add: claim_defs)

text \<open>Conflicting claims about an own publication are all remembered: their number has no bound.\<close>

lemma conflicts_accumulate:
  assumes "locally_published e" "d \<noteq> ce_digest e" "d \<notin> set (conflicting_digests e)"
  shows "length (conflicting_digests (fst (merge_claim a t d r src False (Some e)))) =
    Suc (length (conflicting_digests e))"
  using assms by (simp add: claim_defs)

end
