(* ===== verification/Gossip_Example.thy ===== *)
theory Gossip_Example
  imports Gossip_Properties
begin

text \<open>
  A node that has published one object of an application and has learned of another. The properties
  are applied to it: a frame with a newer generation of the published object, a search, a record to
  relay.
\<close>

definition demo_record :: "string \<Rightarrow> nat \<Rightarrow> gossip_record" where
  "demo_record i generation =
     \<lparr>gr_namespace = ''posts'', gr_object_id = i, gr_generation = generation, gr_origin = ''VLD0:b'',
      gr_published_at = 100, gr_expires_at = 500, gr_pointer = None, gr_fingerprints = [],
      gr_index_tokens = [[1], [2]], gr_custom_payload = [], gr_flags = 0, gr_withdrawn = False\<rparr>"

definition own_entry :: gossip_cache_entry where
  "own_entry = new_claim 100 [7] (demo_record ''mine'' 1) ''VLD0:me'' True"

definition heard_entry :: gossip_cache_entry where
  "heard_entry = new_claim 110 [8] (demo_record ''theirs'' 4) ''VLD0:b'' False"

definition blog_app :: app_gossip_state where
  "blog_app = rebuild_token_index
     \<lparr>entries = [((''posts'', ''mine''), own_entry), ((''posts'', ''theirs''), heard_entry)],
      token_index = []\<rparr>"

definition demo_cache :: gossip_state where
  "demo_cache = \<lparr>apps = [(''blog'', blog_app)], query_response_last = []\<rparr>"

text \<open>A codec that writes only the hops of a record, for one record.\<close>

definition demo_gossip_codec :: gossip_codec where
  "demo_gossip_codec =
     \<lparr>serialize_envelope = (\<lambda>(v, msg).
        case msg of Record_Message r hops \<Rightarrow> Inr [of_nat hops] | _ \<Rightarrow> Inl (Wire ''not a record'')),
      deserialize_envelope = (\<lambda>bs. case bs of
          [b] \<Rightarrow> Inr (GOSSIP_ENGINE_VERSION, Record_Message (demo_record ''new'' 2) (unat b))
        | _ \<Rightarrow> Inl (Wire ''not a record''))\<rparr>"

definition demo_params :: gossip_params where
  "demo_params = \<lparr>main_dht = ''VLD0:me'', parses_key = prefix ''VLD0:'',
     record_digest = (\<lambda>r. Inr [of_nat (gr_generation r)]), gossip_codec = demo_gossip_codec\<rparr>"

definition gossip_demo_env :: gossip_env where
  "gossip_demo_env = \<lparr>now = 120, app_peers = Some (\<lambda>_ _. [''VLD0:b'', ''VLD0:c'', ''VLD0:me'']),
     topology_nodes = [], shuffle = rev, random_id = []\<rparr>"

definition demo_scoring :: "nat scoring" where
  "demo_scoring = \<lparr>score_entry = (\<lambda>_ _ _. 500), below_minimum = (\<lambda>s m. s < m)\<rparr>"

definition demo_frame :: gossip_message where
  "demo_frame = \<lparr>gm_application = ''blog'', gm_sender = ''VLD0:b'', gm_payload = GOSSIP_WIRE_PREFIX @ [2]\<rparr>"

definition demo_query :: gossip_search_query where
  "demo_query = \<lparr>sq_namespace = ''posts'', sq_probes = [],
     sq_token_probes = [\<lparr>tp_tokens = [[2]], tp_polarity = Required, tp_match_mode = Match_All, tp_weight = 1\<rparr>],
     sq_limit = 5, sq_min_score_milli = None, sq_include_withdrawn = False\<rparr>"

lemma blog_entries:
  "entries blog_app = [((''posts'', ''mine''), own_entry), ((''posts'', ''theirs''), heard_entry)]"
  "index_current blog_app"
  by (simp_all add: blog_app_def)

lemma demo_cache_ok: "cache_ok demo_cache"
  by (simp add: cache_ok_def files_ok_def apps_ok_def demo_cache_def all_cached_def total_entries_def
      app_ok_def blog_entries filed_def own_entry_def heard_entry_def new_claim_def demo_record_def
      object_key_of_def source_set_def GOSSIP_MAX_CLAIMED_SOURCES_def GOSSIP_MAX_ENTRIES_PER_APP_def
      GOSSIP_MAX_ENTRIES_GLOBAL_def keys_distinct_def)

lemma demo_own: "cached demo_cache ''blog'' (''posts'', ''mine'') = Some own_entry"
  by (simp add: cached_def demo_cache_def blog_entries)

lemma local_publication_survives_witness:
  "\<exists>e'. cached (run_frames demo_scoring demo_params [(gossip_demo_env, demo_frame), (gossip_demo_env, demo_frame)] demo_cache)
      ''blog'' (''posts'', ''mine'') = Some e' \<and> locally_published e' \<and>
    ce_record e' = ce_record own_entry \<and> ce_digest e' = ce_digest own_entry"
  by (rule local_publication_survives [OF demo_cache_ok demo_own])
    (simp_all add: own_entry_def new_claim_def gossip_demo_env_def demo_record_def)

lemma eviction_loops_end_witness:
  "shrink_app 5 blog_app = shrink_app (length (entries blog_app)) blog_app \<and>
    length (entries (shrink_app 5 blog_app)) \<le> GOSSIP_MAX_ENTRIES_PER_APP \<and>
    shrink_all 9 demo_cache = shrink_all (total_entries demo_cache) demo_cache \<and>
    total_entries (shrink_all 9 demo_cache) \<le> GOSSIP_MAX_ENTRIES_GLOBAL"
proof (rule eviction_loops_end)
  show "apps_ok demo_cache" using demo_cache_ok by (simp add: cache_ok_def files_ok_def)
  show "length (entries blog_app) \<le> 5" by (simp add: blog_entries)
  show "total_entries demo_cache \<le> 9" by (simp add: total_entries_def demo_cache_def blog_entries)
qed

lemma demo_query_valid: "validate_query demo_query = None"
  by code_simp

lemma demo_application_valid: "validate_application_id ''blog'' = None"
  by code_simp

lemma index_search_equals_scan_witness:
  "\<exists>hits. fst (search_local demo_scoring 120 ''blog'' demo_query demo_cache) = Inr hits \<and>
    mset hits \<subseteq># mset (scan_hits demo_scoring (app_of ''blog'' demo_cache) demo_query 120) \<and>
    map hit_rank hits = take (sq_limit demo_query)
      (rev (sort (map hit_rank (scan_hits demo_scoring (app_of ''blog'' demo_cache) demo_query 120))))"
  by (rule index_search_equals_scan [OF demo_cache_ok demo_application_valid demo_query_valid])

lemma demo_decoded:
  "decode_wire (gossip_codec demo_params) (gm_payload demo_frame) =
     Inr (Record_Message (demo_record ''new'' 2) 2)"
  by (simp add: decode_wire_def is_engine_frame_def demo_frame_def demo_params_def demo_gossip_codec_def
      GOSSIP_WIRE_PREFIX_def GOSSIP_WIRE_MAX_BYTES_def GOSSIP_ENGINE_VERSION_def)

lemma relay_dies_out_witness:
  "let sent = frames_sent (fst (snd (process_incoming demo_scoring demo_params gossip_demo_env demo_frame demo_cache)))
   in length sent \<le> GOSSIP_RELAY_FANOUT \<and>
    (\<forall>(p, a, f) \<in> set sent. p \<noteq> gm_sender demo_frame \<and> p \<noteq> main_dht demo_params \<and>
       a = gm_application demo_frame \<and>
       (\<exists>h < 2. h \<le> GOSSIP_MAX_RELAY_HOPS \<and>
          encode_wire (gossip_codec demo_params) (Record_Message (demo_record ''new'' 2) h) = Inr f) \<and>
       (\<forall>e. cached demo_cache a (object_key_of (demo_record ''new'' 2)) = Some e \<longrightarrow>
          now gossip_demo_env < gr_expires_at (ce_record e) \<longrightarrow>
          gr_generation (ce_record e) < gr_generation (demo_record ''new'' 2)))"
  unfolding Let_def
  by (rule relay_dies_out [OF demo_cache_ok demo_decoded]) (simp add: gossip_demo_env_def)

text \<open>The record is indeed passed on: to the one peer that is neither the sender nor the node itself.\<close>

lemma demo_origin_fine: "\<not> has_control ''VLD0:b''" "\<not> has_control ''new''" "\<not> bad_name 64 ''posts''"
  by code_simp+

lemma demo_record_valid: "validate_record (parses_key demo_params) 120 (demo_record ''new'' 2) True = None"
  using demo_origin_fine
  by (simp add: validate_record_def validate_namespace_def validate_object_id_def validate_content_def
      validate_index_tokens_def demo_params_def demo_record_def sat_add_def u64_max_def
      GOSSIP_MAX_NAMESPACE_BYTES_def GOSSIP_MAX_OBJECT_ID_BYTES_def GOSSIP_MAX_POINTER_BYTES_def
      GOSSIP_MAX_FINGERPRINTS_def GOSSIP_MAX_INDEX_TOKENS_def GOSSIP_MAX_CUSTOM_PAYLOAD_BYTES_def
      GOSSIP_MAX_TTL_SECS_def GOSSIP_MAX_FUTURE_SKEW_SECS_def)

lemma demo_ingested:
  "\<exists>e evs s. ingest_record demo_params 120 ''blog'' (demo_record ''new'' 2) ''VLD0:b'' False demo_cache =
     (Inr (e, True), evs, s)"
proof -
  let ?r = "demo_record ''new'' 2"
  let ?e = "new_claim 120 [2] ?r ''VLD0:b'' False"
  have ok: "apps_ok demo_cache" using demo_cache_ok by (simp add: cache_ok_def files_ok_def)
  have none: "cached (prune_state 120 demo_cache) ''blog'' (object_key_of ?r) = None"
    using cached_prune [OF ok, of 120 "''blog''" "object_key_of ?r"]
    by (cases "cached (prune_state 120 demo_cache) ''blog'' (object_key_of ?r)")
      (simp_all add: cached_def demo_cache_def blog_entries object_key_of_def demo_record_def
        del: prune_state_simps)
  let ?s = "with_claim ''blog'' (object_key_of ?r) ?e (prune_state 120 demo_cache)"
  have put: "put_claim ''blog'' 120 [2] ?r ''VLD0:b'' False demo_cache =
      (enforce_capacity ?s, True, Some (updated_event ''blog'' ?r Unverified))"
    using none by (simp add: put_claim_eq Let_def merge_claim_def first_verification_def del: prune_state_simps)
  have "cached (enforce_capacity ?s) ''blog'' (object_key_of ?r) = Some ?e"
    by (simp add: enforce_capacity_def Let_def with_claim_def on_apps_def demo_cache_def prune_state_def
        or_insert_def shrink_app_small shrink_all_small total_entries_def blog_entries cached_def
        object_key_of_def demo_record_def alive_def own_entry_def heard_entry_def new_claim_def
        GOSSIP_MAX_ENTRIES_PER_APP_def GOSSIP_MAX_ENTRIES_GLOBAL_def)
  moreover have "record_digest demo_params ?r = Inr [2]" by (simp add: demo_params_def demo_record_def)
  moreover have "\<not> gr_expires_at ?r \<le> 120" by (simp add: demo_record_def)
  ultimately show ?thesis using demo_record_valid put by (simp add: ingest_record_def)
qed

lemma demo_relayed:
  "frames_sent (fst (snd (process_incoming demo_scoring demo_params gossip_demo_env demo_frame demo_cache))) =
     [(''VLD0:c'', ''blog'', GOSSIP_WIRE_PREFIX @ [1])]"
proof -
  obtain e evs s where ing: "ingest_record demo_params 120 ''blog'' (demo_record ''new'' 2) ''VLD0:b''
      False demo_cache = (Inr (e, True), evs, s)"
    using demo_ingested by blast
  have "fanout_record demo_params gossip_demo_env ''blog'' (demo_record ''new'' 2) (Some ''VLD0:b'') 1 =
      [Send_Frame ''VLD0:c'' ''blog'' (GOSSIP_WIRE_PREFIX @ [1])]"
    by (simp add: fanout_record_def select_peers_def gossip_demo_env_def demo_params_def demo_gossip_codec_def
        encode_wire_def GOSSIP_WIRE_PREFIX_def GOSSIP_WIRE_MAX_BYTES_def GOSSIP_MAX_RELAY_HOPS_def
        GOSSIP_RELAY_FANOUT_def GOSSIP_TEST_APPLICATION_ID_def)
  moreover have "frames_sent [Send_Frame p a f] = [(p, a, f)]" for p a f
    using frames_sent_simps(4) [of a f "[p]"] by simp
  moreover have "gm_application demo_frame = ''blog''" "gm_sender demo_frame = ''VLD0:b''"
      "now gossip_demo_env = 120" "map_of (apps demo_cache) ''blog'' = Some blog_app"
    by (simp_all add: demo_frame_def gossip_demo_env_def demo_cache_def)
  ultimately show ?thesis
    using demo_decoded ing demo_record_valid demo_application_valid
    by (simp add: process_incoming_def)
qed

end
