(* ===== verification/Security.thy ===== *)
theory Security
  imports Prelude
begin

text \<open>
  The helpers that stand between the network and the rest of the daemon: size-class padding of
  plaintexts before encryption (\<open>src/security/padding.rs\<close>), and the limits that are checked before
  anything received is decoded (\<open>src/security/network_decode.rs\<close>). The random filler bytes are an
  argument; \<open>bincode\<close> and \<open>serde_json\<close> are the argument \<open>decode\<close>.
\<close>

subsection \<open>Padding\<close>

definition PADDING_MAGIC :: bytes where
  "PADDING_MAGIC = [0x56, 0x4B, 0x50, 0x41, 0x44, 0x30, 0x30, 0x31]"

definition HEADER_LEN :: nat where "HEADER_LEN = length PADDING_MAGIC + 4"

definition DHT_SIZE_CLASSES :: "nat list" where
  "DHT_SIZE_CLASSES = [256, 512, 1024, 2048, 4096, 8192, 12 * 1024]"

definition DIRECT_SIZE_CLASSES :: "nat list" where
  "DIRECT_SIZE_CLASSES = [256, 512, 1024, 2048, 4096, 8192, 12 * 1024, 16 * 1024, 24 * 1024,
     32 * 1024, 48 * 1024, 64 * 1024]"

datatype padding_error =
    PayloadTooLarge nat nat
  | InvalidLength nat nat

definition pad_with_classes ::
  "(nat \<Rightarrow> 8 word) \<Rightarrow> nat list \<Rightarrow> bytes \<Rightarrow> padding_error + bytes" where
  "pad_with_classes filler classes plaintext =
    (let required = sat_add u64_max HEADER_LEN (length plaintext)
     in case find (\<lambda>candidate. required \<le> candidate) classes of
          None \<Rightarrow> Inl (PayloadTooLarge required (if classes = [] then 0 else last classes))
        | Some target \<Rightarrow>
            Inr (PADDING_MAGIC @ le_bytes 4 (length plaintext) @ plaintext @
              map filler [0..<target - (HEADER_LEN + length plaintext)]))"

definition pad_for_encryption :: "(nat \<Rightarrow> 8 word) \<Rightarrow> bytes \<Rightarrow> padding_error + bytes" where
  "pad_for_encryption filler = pad_with_classes filler DHT_SIZE_CLASSES"

definition pad_for_direct_encryption :: "(nat \<Rightarrow> 8 word) \<Rightarrow> bytes \<Rightarrow> padding_error + bytes" where
  "pad_for_direct_encryption filler = pad_with_classes filler DIRECT_SIZE_CLASSES"

text \<open>\<open>Inr None\<close>: the payload is from before the format and is used as it is.\<close>

definition unpad_after_decryption :: "bytes \<Rightarrow> padding_error + bytes option" where
  "unpad_after_decryption bs =
    (if length bs < HEADER_LEN \<or> take (length PADDING_MAGIC) bs \<noteq> PADDING_MAGIC then Inr None
     else
      (let declared = le_value (take 4 (drop (length PADDING_MAGIC) bs));
           available = length bs - HEADER_LEN
       in if available < declared then Inl (InvalidLength declared available)
          else Inr (Some (take declared (drop HEADER_LEN bs)))))"

lemma header_len [simp]: "HEADER_LEN = 12" "length PADDING_MAGIC = 8"
  by (simp_all add: HEADER_LEN_def PADDING_MAGIC_def)

lemma pad_with_classes_ok:
  assumes "pad_with_classes filler classes p = Inr bs" "length p < 2 ^ 32"
  shows "find (\<lambda>candidate. 12 + length p \<le> candidate) classes = Some (length bs)"
    "unpad_after_decryption bs = Inr (Some p)"
proof -
  have req: "sat_add u64_max HEADER_LEN (length p) = 12 + length p"
    using assms(2) by (simp add: sat_add_def u64_max_def)
  obtain target where t: "find (\<lambda>candidate. 12 + length p \<le> candidate) classes = Some target"
    and bs: "bs = PADDING_MAGIC @ le_bytes 4 (length p) @ p @ map filler [0..<target - (12 + length p)]"
    using assms(1) unfolding pad_with_classes_def req by (auto simp: Let_def split: option.splits)
  have "12 + length p \<le> target" using t by (auto simp: find_Some_iff)
  then have len: "length bs = target" by (simp add: bs)
  with t show "find (\<lambda>candidate. 12 + length p \<le> candidate) classes = Some (length bs)" by simp
  have "le_value (le_bytes 4 (length p)) = length p" using assms(2) by (simp add: le_value_bytes)
  then show "unpad_after_decryption bs = Inr (Some p)"
    by (simp add: unpad_after_decryption_def bs Let_def)
qed

subsection \<open>Limits on received data\<close>

definition MAX_ROUTE_BLOB_RECORD_BYTES :: nat where "MAX_ROUTE_BLOB_RECORD_BYTES = 128 * 1024"

datatype network_decode_error =
    EmptyEnvelope
  | EnvelopeTooLarge nat nat
  | FieldTooLarge string nat nat
  | CollectionTooLarge string nat nat
  | TimestampOutsideWindow
  | AllZeroValue string
  | Decode string

definition validate_envelope_size :: "bytes \<Rightarrow> nat \<Rightarrow> network_decode_error option" where
  "validate_envelope_size bs maximum =
    (if bs = [] then Some EmptyEnvelope
     else if maximum < length bs then Some (EnvelopeTooLarge (length bs) maximum)
     else None)"

definition validate_utf8_field :: "string \<Rightarrow> bytes \<Rightarrow> nat \<Rightarrow> network_decode_error option" where
  "validate_utf8_field field value maximum =
    (if maximum < length value then Some (FieldTooLarge field (length value) maximum) else None)"

definition validate_collection_len :: "string \<Rightarrow> nat \<Rightarrow> nat \<Rightarrow> network_decode_error option" where
  "validate_collection_len field actual maximum =
    (if maximum < actual then Some (CollectionTooLarge field actual maximum) else None)"

definition validate_timestamp_window ::
  "nat \<Rightarrow> nat \<Rightarrow> nat \<Rightarrow> nat \<Rightarrow> network_decode_error option" where
  "validate_timestamp_window timestamp now past future =
    (if sat_add u64_max now future < timestamp \<or> sat_add u64_max timestamp past < now
     then Some TimestampOutsideWindow else None)"

definition reject_all_zero :: "string \<Rightarrow> bytes \<Rightarrow> network_decode_error option" where
  "reject_all_zero field bs =
    (if bs \<noteq> [] \<and> list_all (\<lambda>b. b = 0) bs then Some (AllZeroValue field) else None)"

text \<open>\<open>decode\<close> gives the value and the bytes it left over; left-over bytes are an error.\<close>

definition decode_limited ::
  "(bytes \<Rightarrow> string + 'a \<times> bytes) \<Rightarrow> bytes \<Rightarrow> nat \<Rightarrow> network_decode_error + 'a" where
  "decode_limited decode bs maximum =
    (case validate_envelope_size bs maximum of
       Some e \<Rightarrow> Inl e
     | None \<Rightarrow>
        (case decode bs of
           Inl e \<Rightarrow> Inl (Decode e)
         | Inr (x, rest) \<Rightarrow> if rest = [] then Inr x else Inl (Decode ''trailing data'')))"

lemma decode_limited_bounded:
  "decode_limited decode bs maximum = Inr x \<Longrightarrow>
   bs \<noteq> [] \<and> length bs \<le> maximum \<and> decode bs = Inr (x, [])"
  by (auto simp: decode_limited_def validate_envelope_size_def split: if_splits sum.splits)

subsection \<open>Properties\<close>

text \<open>
  C40. What is padded for encryption is unpadded to the same bytes, whatever the filler, and the
  padded length is the first size class that has room for the header and the plaintext: an
  observer of the length learns the class and nothing else.\<close>

theorem padding_round_trip:
  assumes "pad_with_classes filler classes p = Inr bs" "length p < 2 ^ 32"
    and "pad_with_classes filler' classes q = Inr cs" "length q < 2 ^ 32"
  shows "unpad_after_decryption bs = Inr (Some p) \<and>
    find (\<lambda>candidate. HEADER_LEN + length p \<le> candidate) classes = Some (length bs) \<and>
    (length bs \<noteq> length cs \<longrightarrow>
      find (\<lambda>candidate. HEADER_LEN + length p \<le> candidate) classes \<noteq>
      find (\<lambda>candidate. HEADER_LEN + length q \<le> candidate) classes)"
  using pad_with_classes_ok [OF assms(1,2)] pad_with_classes_ok [OF assms(3,4)] by simp

lemma padding_round_trip_witness:
  "\<exists>bs. pad_for_encryption (\<lambda>_. 7) [1, 2, 3] = Inr bs \<and>
    unpad_after_decryption bs = Inr (Some [1, 2, 3]) \<and> length bs = 256"
proof -
  obtain bs where bs: "pad_with_classes (\<lambda>_. 7) DHT_SIZE_CLASSES [1, 2, 3] = Inr bs"
    by (simp add: pad_with_classes_def sat_add_def u64_max_def DHT_SIZE_CLASSES_def)
  have "length [1, 2, 3 :: 8 word] < 2 ^ 32" by simp
  from padding_round_trip [OF bs this bs this] show ?thesis
    using bs by (auto simp: pad_for_encryption_def DHT_SIZE_CLASSES_def)
qed

end
