(* ===== verification/Spec2Isabelle.thy ===== *)
theory Spec2Isabelle
  imports Reputation_Example Node_Example Mailbox_Custody_Example Stream_Example Lifecycle_Example
    Gossip_Example Security
begin

text \<open>
  VeilKnit-Daemon: a verification development for the Rust core of the daemon. Paths are relative to
  \<open>src/Windows/Source/VeilKnitDaemon_src/src\<close>; the Android project carries the same modules with small
  platform differences.

  The program. The daemon is a node of a peer-to-peer network on top of Veilid. It walks the network
  and keeps a topology of nodes (\<open>node_list\<close>), judges nodes by evidence from its own modules and from
  applications (\<open>reputation\<close>), stores pointers to messages for others in DHT records (\<open>mailbox\<close>),
  spreads short records about objects of applications (\<open>gossip\<close>), carries live streams over a tree of
  viewers (\<open>stream_transport\<close>), and starts and stops its modules in order (\<open>lifecycle\<close>). Everything
  that is received is padded, sized and decoded by \<open>security\<close>. The parts meet at few places: the walk
  feeds the topology and the gossip engine takes its peers from it; the topology and the mailbox share
  the wire types of \<open>types\<close>; the walk consults the reputation service about the
  nodes it meets; the modules register their shutdown hooks with the coordinator.

  Modelling. A component is a record of its state and one definition per operation, with the state
  passed explicitly and errors as values of a sum or option type; a panic of the code (an index out of
  range) is \<open>None\<close> or a constructor of its own. Unsigned integers are \<open>nat\<close> with the saturating and
  truncating operations of the code written out, signed ones \<open>int\<close>, flag sets and bytes are words.
  Hash maps are association lists with distinct keys, and the order of the list stands for the
  unspecified iteration order; the theorems hold for every order. Strings are lists of characters
  (their UTF-8 bytes where a byte count matters). What the sources only call is an argument: the clock,
  random bytes, encodings (\<open>bincode\<close>, JSON), hashes (\<open>blake3\<close>, \<open>sha2\<close>), signatures, the parser of record
  keys, which DHT or file accesses fail, and what other tasks report. The hypotheses about these
  arguments are those the code relies on: decoding inverts encoding, a signature of the owner verifies
  and nobody else makes one, equal hashes come from equal inputs or are an explicit collision. Each is
  instantiated by concrete functions in the example theories (\<open>Example_Codec\<close>, \<open>Stream_Example\<close>,
  \<open>Gossip_Example\<close>), where the theorems with hypotheses are applied to concrete states.

  Prelude. \<open>Prelude\<close> holds the saturating arithmetic, the lemmas on association lists
  (\<open>store_simps\<close>), lists and decimal text, and the contract \<open>invariant_machine\<close> of a component that
  keeps an invariant; the reputation service, the topology and the gossip engine interpret it.

  Reputation (\<open>reputation/mod.rs\<close>). \<open>Reputation_Types\<close>: authorities, observations, decisions, entries,
  the table. \<open>Reputation_Score\<close>: what an observation contributes and the caps of a source.
  \<open>Reputation_Entry\<close>: folding of recent observations into history, the three compaction loops, expiry
  of decisions. \<open>Reputation_Classify\<close> and \<open>Reputation_View\<close>: the class of a node and the view of a
  caller. \<open>Reputation_Service\<close>: submitting, retracting, decisions, overrides, policies, notices.
  \<open>Reputation_GC\<close>, \<open>Reputation_Persist\<close>, \<open>Reputation_Commands\<close>: garbage collection, the sharded files
  with their faults and the repair at loading, the task loop. \<open>Reputation_Invariant\<close>: distinct
  identifiers, quotas and scopes are kept by every command. \<open>Reputation_Security\<close>: an application
  cannot block a node from the network, what a source retains and how far an application counts, the
  automatic ban. \<open>Reputation_Evidence\<close>, \<open>Reputation_Access\<close>: no evidence is lost by compaction,
  retraction takes back the influence of one application and nothing else, views. \<open>Reputation_Disk\<close>:
  the simulation between the table in memory and the files. Every operation marks the shards it
  changes, or changes only what a recomputation of the entry changes, so at any moment the clean part
  of the files leads to the table in memory by recomputations (\<open>disk_tracks\<close>); every command, tick and
  failed write keeps that. \<open>Reputation_Durability\<close>: with it, a clean service is found again by a
  restart (\<open>restores\<close> says what of an entry), and failed writes lose nothing.

  Node list (\<open>node_list/mod.rs\<close>, \<open>types/mod.rs\<close>). \<open>Node_Wire\<close>: keys, distances, Bloom signatures, table
  entries. \<open>Node_Entry\<close>, \<open>Node_List\<close>: candidates, verified entries and the operations that move nodes
  between them, with their position indexes. \<open>Node_Publish\<close>: walk targets, the published table and the
  counters. \<open>Node_Invariant\<close>: indexes are exact and evidence lists bounded. \<open>Node_Machine\<close>: no sequence of
  calls panics. \<open>Node_Properties\<close>, \<open>Node_Advertising\<close>, \<open>Node_Backoff\<close>, \<open>Node_Budget\<close>: only direct
  verification makes a node publishable, one source adds a bounded number of candidates, failures back
  off, quarantine, budgets, cohorts of future creation times.

  Mailbox page store (\<open>mailbox/page_store.rs\<close>, \<open>protocol.rs\<close>, \<open>persistence.rs\<close>). \<open>Mailbox_Pages\<close>,
  \<open>Mailbox_Store\<close>: pages, index slots, loading and the copy-on-write commit. \<open>Mailbox_Map\<close>: the pages in
  memory are a finite map. \<open>Mailbox_Commit\<close>, \<open>Mailbox_Crash\<close>: \<open>crash_state\<close> is every record that an
  interrupted commit can leave (any subset of its page writes), and reloading gives the old generation
  or the new one. \<open>Mailbox_Durable\<close>: the commit as written reaches only such states. \<open>Mailbox_Refine\<close>: the
  contract \<open>keyed_store\<close> of the runtime and its interpretation by the paged store.

  Mailbox custodian (\<open>mailbox/quota.rs\<close> and the custodian side of \<open>walk_integration.rs\<close>,
  \<open>maintenance.rs\<close>, \<open>outbox.rs\<close>, \<open>runtime.rs\<close>). \<open>Mailbox_Quota\<close>: the counters, with contracts for maps of
  tallies. \<open>Mailbox_Entries\<close>, \<open>Mailbox_Counters\<close>: a store as the multiset of its entries, and counters that
  are exact for them. \<open>Mailbox_Custodian\<close>: adding a pointer, promoting a recipient to an overflow record
  and back, withdrawing, expiring, flushing, repairing. \<open>Mailbox_Custody\<close> and the theories after it: the
  invariant of the reachable states and that every operation keeps it; with it the counters always
  equal those of a rebuild, no limit is exceeded, accepted pointers are held and refused ones change
  nothing.

  Stream transport (\<open>stream_transport/mod.rs\<close>). \<open>Stream_Types\<close>, \<open>Stream_Source\<close>, \<open>Stream_Publish\<close>,
  \<open>Stream_Viewer\<close>, \<open>Stream_Node\<close>: a node as the source and as a viewer of streams, each handler one step
  whose messages and events are outputs. \<open>Stream_Tree\<close>, \<open>Stream_Topology\<close>: the relay tree of every stream
  stays a tree. \<open>Stream_Cut\<close>, \<open>Stream_Origin\<close>: packets carry the written bytes in order, commitments are
  chained and can be read back. \<open>Stream_Viewers\<close>, \<open>Stream_Integrity\<close>, \<open>Stream_Late\<close>: a verified segment
  is the one committed to under the key of the descriptor the viewer holds, an honest segment is
  verified, and a viewer that joins after segment 16 verifies nothing.

  Lifecycle (\<open>lifecycle/mod.rs\<close>, \<open>record.rs\<close>, \<open>gate.rs\<close>). \<open>Lifecycle_Record\<close>: outcomes and the record of
  a shutdown, its text and files. \<open>Lifecycle_Stop\<close>, \<open>Lifecycle_Tiers\<close>: registration, tiers and the stop.
  \<open>Lifecycle_Gates\<close>: the startup gates. \<open>Lifecycle_Properties\<close>: nothing runs after work that may still be
  alive, every hook has one outcome, a shutdown that went wrong is noticed at the next start. What the
  tasks of a tier did is a \<open>tier_report\<close>; what a waiter sees of a gate is the list of its values.

  Gossip engine (\<open>gossip/mod.rs\<close>). \<open>Gossip_Types\<close>: records, queries, limits and frames. \<open>Gossip_Cache\<close>:
  what a claim does to the entry of an object, expiry, eviction, the token index. \<open>Gossip_Manager\<close>: the
  calls, searches and incoming frames. \<open>Gossip_Invariant\<close>, \<open>Gossip_Capacity\<close>, \<open>Gossip_Claims\<close>,
  \<open>Gossip_Machine\<close>: limits and index are kept by every call. \<open>Gossip_Index\<close>, \<open>Gossip_Properties\<close>: a search
  with the index equals the scan, publications of the node survive all claims of others, relaying dies
  out. Scores are \<open>f32\<close> in the code and a linear order here; ties are in the order of the list.

  Network helpers (\<open>security/padding.rs\<close>, \<open>security/network_decode.rs\<close>). \<open>Security\<close>: size classes, the
  round trip of padding, the limits before decoding.

  Bounds and fuel. Loops over data are structural or have a measure. The eviction loops of the gossip
  cache have the number of entries as fuel: each round removes one, and a theorem shows that more fuel
  changes nothing. The compaction loops of the reputation table,
  the splitting of pages and the cutting of packets are \<open>function\<close>s with a measure. The
  waiting loop of a gate recurses on the observed changes, and the tiers of a stop on the fixed list of
  tiers. Counters that saturate (identifiers, sequence numbers, generations) carry a hypothesis that
  they are below their limit where a theorem needs them fresh, or a theorem shows that a run of a given
  length stays below it.

  Not modelled. The handshake and sessions, routes and the network supervisor, the DHT module and the
  walk task are asynchronous glue around the Veilid API: the model sees them as faults, reports and
  calls. The sender, walker and recovery sides of the mailbox runtime and its controller; mailbox
  cryptography, application identity, accounts and backups (calls of cryptographic libraries and
  files); the local JSON API and the client crates (parsing and dispatch); the blob store; the lexical
  library (floating-point statistics and Unicode segmentation); consoles, logs and benchmarks. In the
  modelled files: floating-point scores of gossip hits and the key fraction, the derivation of index
  tokens from text (Unicode case mapping), names trimmed and lowered by the reputation handles, log
  throttling and timers of the tasks.

  Atomic steps. A call or handler is one step. For most this is what the code does: the reputation task
  owns its state, and short handlers hold the lock of theirs to the end. Some handlers release the lock
  while they send or use the record network and take it again, and another call can fall in between;
  what such a call does to them is not modelled. In \<open>stream_transport/mod.rs\<close> these are writing (the
  lock is released between chunks: a join or a close can fall between two packets of one write),
  \<open>handle_join_request\<close> (released during the admission sends, taken again to undo),
  \<open>try_verify_received_segment\<close> (released while the commitment page is read; the segment is then marked
  without another look at its packets) and \<open>commit_pending_segments\<close> (released while a page is written).
  In \<open>gossip/mod.rs\<close> they are \<open>withdraw\<close> (looks the entry up and publishes under two locks) and
  \<open>process_incoming\<close> (one lock per record, and the clock is read for each record; the model reads it
  once).
\<close>

end
